(* ===== verification/Moz_Prelude.thy ===== *)
theory Moz_Prelude
  imports Main "HOL-Library.Word"
begin

text \<open>
  Shared vocabulary of the development: machine integer types, the ways a run of the C
  code can go wrong, the error monad used by every fallible operation, and the generic
  facts about lists and words that several components use.

  The model is of the debug build: an \<open>assert\<close> that fails is the value
  \<open>Inl AssertFail\<close>. Everything C leaves undefined that a component can run into (a read or
  a write outside an object, a null dereference, a shift that does not fit) is a value too,
  so a theorem that an operation returns \<open>Inr\<close> says that the run is defined.
\<close>

unbundle bit_operations_syntax

section \<open>Machine integers\<close>

type_synonym u8 = "8 word"
type_synonym u16 = "16 word"
type_synonym u32 = "32 word"
type_synonym u64 = "64 word"

lemma unat_u8 [simp]: "unat (c :: u8) < 256"
  using unsigned_less [of c] by simp

lemma unat_of_nat_u64: "x < 2 ^ 64 \<Longrightarrow> unat (of_nat x :: u64) = x"
  by (simp add: unsigned_of_nat take_bit_eq_mod)

lemma unat_of_nat_u32: "x < 2 ^ 32 \<Longrightarrow> unat (of_nat x :: u32) = x"
  by (simp add: unsigned_of_nat take_bit_eq_mod)

lemma ucast_u8_u32: "word_of_int (int (unat (c :: u8))) = (ucast c :: u32)"
  by simp

lemma unat_u16 [simp]: "unat (c :: u16) < 65536"
  using unsigned_less [of c] by simp

section \<open>Errors as values\<close>

datatype moz_error =
    AssertFail      \<comment> \<open>an \<open>assert\<close> of the source fails\<close>
  | OutOfBounds     \<comment> \<open>a read or write outside the object\<close>
  | NullDeref       \<comment> \<open>dereference of NULL or of a dangling pointer\<close>
  | BadShift        \<comment> \<open>a shift or conversion whose result C does not define\<close>
  | Int3            \<comment> \<open>\<open>ABORT()\<close>: the \<open>int3\<close> trap\<close>
  | ExitFailure     \<comment> \<open>\<open>exit(EXIT_FAILURE)\<close>\<close>
  | BadOpcode       \<comment> \<open>dispatch on a byte that is no opcode\<close>
  | BadSlot         \<comment> \<open>a machine word is used as a pointer into another object than its own\<close>
  | NoFuel          \<comment> \<open>the step budget of an iterated model is used up\<close>

type_synonym 'a res = "moz_error + 'a"

definition rbind :: "'a res \<Rightarrow> ('a \<Rightarrow> 'b res) \<Rightarrow> 'b res" where
  "rbind r f = (case r of Inl e \<Rightarrow> Inl e | Inr x \<Rightarrow> f x)"

definition rassert :: "bool \<Rightarrow> unit res" where
  "rassert b = (if b then Inr () else Inl AssertFail)"

definition rguard :: "moz_error \<Rightarrow> bool \<Rightarrow> unit res" where
  "rguard e b = (if b then Inr () else Inl e)"

named_theorems res_simps \<open>rewrite rules of the error monad\<close>

lemma rbind_Inr [simp, res_simps]: "rbind (Inr x) f = f x"
  by (simp add: rbind_def)

lemma rbind_Inl [simp, res_simps]: "rbind (Inl e) f = Inl e"
  by (simp add: rbind_def)

lemma rassert_True [simp, res_simps]: "b \<Longrightarrow> rassert b = Inr ()"
  by (simp add: rassert_def)

lemma rassert_False [simp, res_simps]: "\<not> b \<Longrightarrow> rassert b = Inl AssertFail"
  by (simp add: rassert_def)

lemma rguard_True [simp, res_simps]: "b \<Longrightarrow> rguard e b = Inr ()"
  by (simp add: rguard_def)

lemma rguard_False [simp, res_simps]: "\<not> b \<Longrightarrow> rguard e b = Inl e"
  by (simp add: rguard_def)

lemma rbind_eq_Inr: "rbind r f = Inr y \<longleftrightarrow> (\<exists>x. r = Inr x \<and> f x = Inr y)"
  by (cases r) auto

lemma rassert_eq_Inr [simp]: "rassert b = Inr u \<longleftrightarrow> b"
  by (simp add: rassert_def)

lemma rguard_eq_Inr [simp]: "rguard e b = Inr u \<longleftrightarrow> b"
  by (simp add: rguard_def)

lemma rbind_assoc: "rbind (rbind r f) g = rbind r (\<lambda>x. rbind (f x) g)"
  by (cases r) simp_all

lemma rbind_cong [fundef_cong]:
  "r = r' \<Longrightarrow> (\<And>x. r' = Inr x \<Longrightarrow> f x = f' x) \<Longrightarrow> rbind r f = rbind r' f'"
  by (cases r') simp_all

section \<open>C arrays\<close>

text \<open>
  A C array is a list; a read or write outside it is \<open>OutOfBounds\<close>.
\<close>

definition aread :: "'a list \<Rightarrow> nat \<Rightarrow> 'a res" where
  "aread xs i = (if i < length xs then Inr (xs ! i) else Inl OutOfBounds)"

definition awrite :: "'a list \<Rightarrow> nat \<Rightarrow> 'a \<Rightarrow> 'a list res" where
  "awrite xs i v = (if i < length xs then Inr (xs[i := v]) else Inl OutOfBounds)"

lemma aread_Inr [simp, res_simps]: "i < length xs \<Longrightarrow> aread xs i = Inr (xs ! i)"
  by (simp add: aread_def)

lemma aread_Inl [simp, res_simps]: "length xs \<le> i \<Longrightarrow> aread xs i = Inl OutOfBounds"
  by (simp add: aread_def)

lemma awrite_Inr [simp, res_simps]: "i < length xs \<Longrightarrow> awrite xs i v = Inr (xs[i := v])"
  by (simp add: awrite_def)

lemma awrite_Inl [simp, res_simps]: "length xs \<le> i \<Longrightarrow> awrite xs i v = Inl OutOfBounds"
  by (simp add: awrite_def)

lemma aread_eq_Inr: "aread xs i = Inr v \<longleftrightarrow> i < length xs \<and> v = xs ! i"
  by (auto simp: aread_def)

lemma awrite_eq_Inr: "awrite xs i v = Inr ys \<longleftrightarrow> i < length xs \<and> ys = xs[i := v]"
  by (auto simp: awrite_def)

text \<open>What \<open>memset\<close> leaves in a record without further fields.\<close>

instantiation unit :: zero
begin

definition "zero_unit = ()"

instance ..

end

section \<open>Counted loops\<close>

text \<open>
  \<open>for (i = 0; i < n; i++) body\<close> is \<open>rfold body s [0..<n]\<close>: the state is threaded through the
  body and the first error stops the loop.
\<close>

fun rfold :: "('s \<Rightarrow> 'x \<Rightarrow> 's res) \<Rightarrow> 's \<Rightarrow> 'x list \<Rightarrow> 's res" where
  "rfold f s [] = Inr s"
| "rfold f s (x # xs) = rbind (f s x) (\<lambda>t. rfold f t xs)"

lemma rfold_append: "rfold f s (xs @ ys) = rbind (rfold f s xs) (\<lambda>t. rfold f t ys)"
  by (induction xs arbitrary: s) (simp_all add: rbind_assoc)

lemma rfold_map: "rfold f s (map g xs) = rfold (\<lambda>t x. f t (g x)) s xs"
  by (induction xs arbitrary: s) (auto intro: rbind_cong)

text \<open>The invariant rule for a counted loop: the invariant also speaks of the items done.\<close>

lemma rfold_invariant:
  assumes base: "P [] s"
    and step: "\<And>ys y t. P ys t \<Longrightarrow> (\<exists>zs. xs = ys @ y # zs) \<Longrightarrow> \<exists>t'. f t y = Inr t' \<and> P (ys @ [y]) t'"
  shows "\<exists>t. rfold f s xs = Inr t \<and> P xs t"
proof -
  have "\<exists>t. rfold f s ys = Inr t \<and> P ys t" if "\<exists>zs. xs = ys @ zs" for ys
    using that
  proof (induction ys rule: rev_induct)
    case Nil
    then show ?case using base by simp
  next
    case (snoc y ys)
    from snoc.prems obtain zs where zs: "xs = ys @ y # zs" by auto
    with snoc.IH obtain t where t: "rfold f s ys = Inr t" "P ys t" by auto
    from step [OF t(2)] zs obtain t' where "f t y = Inr t'" "P (ys @ [y]) t'" by blast
    with t(1) show ?case by (simp add: rfold_append)
  qed
  from this [of xs] show ?thesis by simp
qed

end
