(* ===== verification/Bitset.thy ===== *)
theory Bitset
  imports Moz_Prelude
begin

text \<open>
  The 256-bit set of \<open>src/src/core/bitset.h\<close>, built with \<open>BITSET_USE_ULONG\<close>: four 64-bit
  entries, indexed by \<open>index / BITS\<close> and \<open>index % BITS\<close>. The code checks no index, so
  \<open>bitset_set\<close> and \<open>bitset_get\<close> at 256 and above leave the array. The lemmas relate every
  operation to the set of its elements (\<open>elems\<close>), and the locale \<open>byte_set\<close> is the
  contract that the jump tables, the expression optimiser and the virtual machines use.
\<close>

section \<open>State and operations\<close>

record bitset_t =
  bdata :: "u64 list"

definition BITS :: nat where
  "BITS = 64"

text \<open>A stack or heap object of type \<open>bitset_t\<close>: its array has \<open>256/BITS\<close> entries.\<close>

definition bitset_wf :: "bitset_t \<Rightarrow> bool" where
  "bitset_wf s \<longleftrightarrow> length (bdata s) = 256 div BITS"

definition bitset_init :: "bitset_t \<Rightarrow> bitset_t" where
  "bitset_init s = s\<lparr>bdata := map (\<lambda>_. 0) [0..<256 div BITS]\<rparr>"

definition bitset_mask :: "nat \<Rightarrow> u64" where
  "bitset_mask index = push_bit (index mod BITS) 1"

definition bitset_set :: "bitset_t \<Rightarrow> nat \<Rightarrow> bitset_t res" where
  "bitset_set s index =
     rbind (aread (bdata s) (index div BITS)) (\<lambda>e.
     rbind (awrite (bdata s) (index div BITS) (e OR bitset_mask index)) (\<lambda>d.
     Inr (s\<lparr>bdata := d\<rparr>)))"

definition bitset_get :: "bitset_t \<Rightarrow> nat \<Rightarrow> bool res" where
  "bitset_get s index =
     rbind (aread (bdata s) (index div BITS)) (\<lambda>e. Inr (e AND bitset_mask index \<noteq> 0))"

definition bitset_and :: "bitset_t \<Rightarrow> bitset_t \<Rightarrow> bitset_t" where
  "bitset_and s1 s2 = s1\<lparr>bdata := map2 (AND) (bdata s1) (bdata s2)\<rparr>"

definition bitset_or :: "bitset_t \<Rightarrow> bitset_t \<Rightarrow> bitset_t" where
  "bitset_or s1 s2 = s1\<lparr>bdata := map2 (OR) (bdata s1) (bdata s2)\<rparr>"

definition bitset_flip :: "bitset_t \<Rightarrow> bitset_t" where
  "bitset_flip s = s\<lparr>bdata := map NOT (bdata s)\<rparr>"

definition bitset_copy :: "bitset_t \<Rightarrow> bitset_t \<Rightarrow> bitset_t" where
  "bitset_copy s1 s2 = s1\<lparr>bdata := bdata s2\<rparr>"

definition bitset_equal :: "bitset_t \<Rightarrow> bitset_t \<Rightarrow> bool" where
  "bitset_equal s1 s2 \<longleftrightarrow> bdata s1 = bdata s2"

section \<open>The elements of a bitset\<close>

definition elems :: "bitset_t \<Rightarrow> nat set" where
  "elems s = {i. i < 256 \<and> bit (bdata s ! (i div BITS)) (i mod BITS)}"

lemma and_mask_bit: "(w AND bitset_mask i \<noteq> 0) = bit w (i mod BITS)" for w :: u64
proof -
  have b: "bit (w AND bitset_mask i) n \<longleftrightarrow> bit w n \<and> n = i mod BITS" for n
    by (auto simp: bitset_mask_def BITS_def bit_simps)
  show ?thesis
  proof
    assume "w AND bitset_mask i \<noteq> 0"
    then obtain n where "bit (w AND bitset_mask i) n"
      by (auto simp: bit_eq_iff)
    then show "bit w (i mod BITS)" by (auto simp: b)
  next
    assume "bit w (i mod BITS)"
    then have "bit (w AND bitset_mask i) (i mod BITS)" by (simp add: b)
    then show "w AND bitset_mask i \<noteq> 0" by auto
  qed
qed

lemma bitset_init_wf [simp, intro]: "bitset_wf (bitset_init s)"
  by (simp add: bitset_wf_def bitset_init_def BITS_def)

lemma index_entry: "i < 256 \<Longrightarrow> i div BITS < 256 div BITS"
  by (simp add: BITS_def)

lemma elems_init [simp]: "elems (bitset_init s) = {}"
proof -
  have "bdata (bitset_init s) ! (i div BITS) = 0" if "i < 256" for i
    using that by (simp add: bitset_init_def BITS_def)
  then show ?thesis by (auto simp: elems_def)
qed

lemma elems_subset: "elems s \<subseteq> {..<256}"
  by (auto simp: elems_def)

lemma bitset_get_elems:
  assumes "bitset_wf s" "i < 256"
  shows "bitset_get s i = Inr (i \<in> elems s)"
  using assms by (simp add: bitset_get_def bitset_wf_def index_entry and_mask_bit elems_def)

lemma bitset_set_ok:
  assumes wf: "bitset_wf s" and i: "i < 256"
  shows "\<exists>t. bitset_set s i = Inr t \<and> bitset_wf t \<and> elems t = insert i (elems s)"
proof -
  let ?k = "i div BITS"
  let ?t = "s\<lparr>bdata := (bdata s)[?k := bdata s ! ?k OR bitset_mask i]\<rparr>"
  have k: "?k < length (bdata s)" using assms by (simp add: bitset_wf_def index_entry)
  have "bitset_set s i = Inr ?t" using k by (simp add: bitset_set_def)
  moreover have "bitset_wf ?t" using wf by (simp add: bitset_wf_def)
  moreover have "j \<in> elems ?t \<longleftrightarrow> j \<in> insert i (elems s)" for j
  proof (cases "j div BITS = ?k")
    case True
    then have "(j mod BITS = i mod BITS) = (j = i)"
      by (metis div_mult_mod_eq)
    with True k i show ?thesis
      by (auto simp: elems_def bitset_mask_def bit_simps BITS_def)
  next
    case False
    then have "i \<noteq> j" by auto
    with False show ?thesis by (auto simp: elems_def)
  qed
  ultimately show ?thesis by blast
qed

lemma bitset_and_elems:
  assumes "bitset_wf s1" "bitset_wf s2"
  shows "bitset_wf (bitset_and s1 s2)" "elems (bitset_and s1 s2) = elems s1 \<inter> elems s2"
  using assms
  by (auto simp: bitset_and_def bitset_wf_def elems_def index_entry bit_simps)

lemma bitset_or_elems:
  assumes "bitset_wf s1" "bitset_wf s2"
  shows "bitset_wf (bitset_or s1 s2)" "elems (bitset_or s1 s2) = elems s1 \<union> elems s2"
  using assms
  by (auto simp: bitset_or_def bitset_wf_def elems_def index_entry bit_simps)

lemma bitset_flip_elems:
  assumes "bitset_wf s"
  shows "bitset_wf (bitset_flip s)" "elems (bitset_flip s) = {..<256} - elems s"
  using assms
  by (auto simp: bitset_flip_def bitset_wf_def elems_def index_entry bit_simps BITS_def)

lemma bitset_copy_elems:
  assumes "bitset_wf s2"
  shows "bitset_wf (bitset_copy s1 s2)" "elems (bitset_copy s1 s2) = elems s2"
  using assms by (simp_all add: bitset_copy_def bitset_wf_def elems_def)

lemma bitset_equal_elems:
  assumes "bitset_wf s1" "bitset_wf s2"
  shows "bitset_equal s1 s2 \<longleftrightarrow> elems s1 = elems s2"
proof
  assume "bitset_equal s1 s2"
  then show "elems s1 = elems s2" by (simp add: bitset_equal_def elems_def)
next
  assume eq: "elems s1 = elems s2"
  have "bdata s1 ! k = bdata s2 ! k" if "k < 256 div BITS" for k
  proof (rule bit_eqI)
    fix n
    assume "possible_bit TYPE(u64) n"
    then have n: "n < BITS" by (simp add: BITS_def)
    let ?i = "BITS * k + n"
    have i: "?i < 256" "?i div BITS = k" "?i mod BITS = n"
      using n that by (auto simp: BITS_def)
    from eq have "?i \<in> elems s1 \<longleftrightarrow> ?i \<in> elems s2" by simp
    then show "bit (bdata s1 ! k) n \<longleftrightarrow> bit (bdata s2 ! k) n"
      using i by (simp add: elems_def)
  qed
  with assms show "bitset_equal s1 s2"
    by (auto simp: bitset_equal_def bitset_wf_def intro: nth_equalityI)
qed

section \<open>The contract of a byte set\<close>

text \<open>
  What the clients of a bitset rely on: an initialised set holds nothing, and below 256 every
  insertion and every test is defined and a test answers whether the index was inserted.
\<close>

locale byte_set =
  fixes init :: "'s \<Rightarrow> 's"
    and ins :: "'s \<Rightarrow> nat \<Rightarrow> 's res"
    and test :: "'s \<Rightarrow> nat \<Rightarrow> bool res"
    and inv :: "'s \<Rightarrow> bool"
  assumes inv_init: "inv (init s)"
    and test_init: "i < 256 \<Longrightarrow> test (init s) i = Inr False"
    and ins_defined: "inv s \<Longrightarrow> i < 256 \<Longrightarrow> \<exists>t. ins s i = Inr t \<and> inv t"
    and test_ins: "inv s \<Longrightarrow> i < 256 \<Longrightarrow> j < 256 \<Longrightarrow> ins s i = Inr t \<Longrightarrow>
        test t j = (if j = i then Inr True else test s j)"
begin

text \<open>A loop over all bytes that inserts the ones satisfying \<open>p\<close> builds exactly \<open>p\<close>.\<close>

lemma collect:
  assumes bound: "\<And>x. x \<in> set xs \<Longrightarrow> x < 256"
  shows "\<exists>t. rfold (\<lambda>s i. if p i then ins s i else Inr s) (init s0) xs = Inr t \<and> inv t \<and>
             (\<forall>j < 256. test t j = Inr (p j \<and> j \<in> set xs))"
proof -
  let ?P = "\<lambda>ys t. inv t \<and> (\<forall>j < 256. test t j = Inr (p j \<and> j \<in> set ys))"
  have "\<exists>t. rfold (\<lambda>s i. if p i then ins s i else Inr s) (init s0) xs = Inr t \<and> ?P xs t"
  proof (rule rfold_invariant)
    show "?P [] (init s0)" by (simp add: inv_init test_init)
  next
    fix ys y t
    assume P: "?P ys t" and split: "\<exists>zs. xs = ys @ y # zs"
    then have y: "y < 256" using bound by auto
    show "\<exists>t'. (if p y then ins t y else Inr t) = Inr t' \<and> ?P (ys @ [y]) t'"
    proof (cases "p y")
      case True
      with P y obtain t' where t': "ins t y = Inr t'" "inv t'" using ins_defined by blast
      have "test t' j = Inr (p j \<and> j \<in> set (ys @ [y]))" if "j < 256" for j
        using test_ins [OF _ y that t'(1)] P that True by auto
      with t' True show ?thesis by simp
    next
      case False
      with P show ?thesis by auto
    qed
  qed
  then show ?thesis .
qed

end

interpretation bs: byte_set bitset_init bitset_set bitset_get bitset_wf
proof unfold_locales
  show "bitset_wf (bitset_init s)" for s by simp
  show "bitset_get (bitset_init s) i = Inr False" if "i < 256" for i s
    using that by (simp add: bitset_get_elems)
  show "\<exists>t. bitset_set s i = Inr t \<and> bitset_wf t" if "bitset_wf s" "i < 256" for s i
    using bitset_set_ok [OF that] by blast
  show "bitset_get t j = (if j = i then Inr True else bitset_get s j)"
    if "bitset_wf s" "i < 256" "j < 256" "bitset_set s i = Inr t" for s i j t
    using bitset_set_ok [OF that(1,2)] that by (auto simp: bitset_get_elems)
qed

section \<open>Properties\<close>

text \<open>C27: The word-parallel operations of \<open>bitset_t\<close> are the operations of sets of bytes: on
well-formed bitsets, and, or and flip give the intersection, the union and the complement
within 0 to 255, and \<open>bitset_equal\<close> decides equality of the sets.\<close>

theorem bitset_algebra:
  assumes "bitset_wf s" "bitset_wf t"
  shows "elems (bitset_and s t) = elems s \<inter> elems t \<and> elems (bitset_or s t) = elems s \<union> elems t \<and>
     elems (bitset_flip s) = {..<256} - elems s \<and> (bitset_equal s t \<longleftrightarrow> elems s = elems t)"
  using assms by (simp add: bitset_and_elems bitset_or_elems bitset_flip_elems bitset_equal_elems)

lemma bitset_algebra_witness:
  "\<exists>s t. bitset_set (bitset_init \<lparr>bdata = []\<rparr>) 97 = Inr s \<and> bitset_set s 200 = Inr t \<and>
     elems (bitset_and s t) = {97} \<and> elems (bitset_flip t) = {..<256} - {97, 200} \<and> \<not> bitset_equal s t"
proof -
  let ?i = "bitset_init \<lparr>bdata = []\<rparr>"
  obtain s where s: "bitset_set ?i 97 = Inr s" "bitset_wf s" "elems s = {97}"
    using bitset_set_ok [of ?i 97] by auto
  obtain t where t: "bitset_set s 200 = Inr t" "bitset_wf t" "elems t = {200, 97}"
    using bitset_set_ok [OF s(2), of 200] s(3) by auto
  show ?thesis
    using s t bitset_algebra [OF s(2) t(2)] bitset_algebra [OF t(2) t(2)] by (auto intro!: exI [of _ s])
qed

text \<open>The loop that fills a set with the bytes satisfying a test (the character-set builders
and the jump tables use it) never leaves the array and ends with exactly those bytes: reading
any byte afterwards answers the test.\<close>

theorem bitset_collect:
  "\<exists>t. rfold (\<lambda>s i. if p i then bitset_set s i else Inr s) (bitset_init s) [0..<256] = Inr t \<and>
     (\<forall>c :: u8. bitset_get t (unat c) = Inr (p (unat c)))"
proof -
  obtain t where t: "rfold (\<lambda>s i. if p i then bitset_set s i else Inr s) (bitset_init s) [0..<256] = Inr t"
    "\<forall>j < 256. bitset_get t j = Inr (p j \<and> j \<in> set [0..<256])"
    using bs.collect [of "[0..<256]" p s] by auto
  have "bitset_get t (unat c) = Inr (p (unat c))" for c :: u8
    using t(2) by simp
  with t(1) show ?thesis by blast
qed

end
