(* ===== verification/Jump_Table.thy ===== *)
theory Jump_Table
  imports Bitset
begin

text \<open>
  The compressed dispatch tables of \<open>src/src/jmptbl.h\<close>. A table with \<open>w\<close> bitsets (\<open>w\<close> is 1,
  2 or 3) and \<open>2 ^ w\<close> targets replaces a 256-entry jump table: bit \<open>k\<close> of the index of the
  target of byte \<open>ch\<close> is the membership of \<open>ch\<close> in bitset \<open>k\<close>. The three initialisers are
  unrolled in the source and so they are here. The main lemmas say that for the target arrays
  the loader builds (distinct targets, then zero padding) the compressed table answers what
  the 256-entry table answers.
\<close>

section \<open>The three tables\<close>

text \<open>
  \<open>jump_table1_t\<close>, \<open>jump_table2_t\<close> and \<open>jump_table3_t\<close> differ only in the lengths of their
  two arrays (1 and 2, 2 and 4, 3 and 8), which the record leaves to its lists.
\<close>

record jump_table_t =
  jb :: "bitset_t list"
  jjumps :: "int list"

definition jt_init_bit :: "jump_table_t \<Rightarrow> nat \<Rightarrow> jump_table_t res" where
  "jt_init_bit tbl k = rbind (aread (jb tbl) k) (\<lambda>s. Inr (tbl\<lparr>jb := (jb tbl)[k := bitset_init s]\<rparr>))"

text \<open>\<open>bitset_set(&tbl->b[k], i)\<close>\<close>

definition jt_set :: "nat \<Rightarrow> nat \<Rightarrow> jump_table_t \<Rightarrow> jump_table_t res" where
  "jt_set k i tbl =
     rbind (aread (jb tbl) k) (\<lambda>s.
     rbind (bitset_set s i) (\<lambda>s'. Inr (tbl\<lparr>jb := (jb tbl)[k := s']\<rparr>)))"

text \<open>\<open>if (tbl->jumps[m] == jumps[i]) { ... }\<close>\<close>

definition jt_when :: "nat \<Rightarrow> int list \<Rightarrow> nat \<Rightarrow> (jump_table_t \<Rightarrow> jump_table_t res) \<Rightarrow>
    jump_table_t \<Rightarrow> jump_table_t res" where
  "jt_when m jumps i act tbl =
     rbind (aread (jjumps tbl) m) (\<lambda>t.
     rbind (aread jumps i) (\<lambda>v. if t = v then act tbl else Inr tbl))"

text \<open>\<open>for (i = 0; i < n; i++) tbl->jumps[i] = targets[i];\<close>\<close>

definition jt_copy_targets :: "nat \<Rightarrow> int list \<Rightarrow> jump_table_t \<Rightarrow> jump_table_t res" where
  "jt_copy_targets n targets tbl =
     rfold (\<lambda>tbl i. rbind (aread targets i) (\<lambda>v.
            rbind (awrite (jjumps tbl) i v) (\<lambda>js. Inr (tbl\<lparr>jjumps := js\<rparr>)))) tbl [0..<n]"

definition jump_table1_init :: "jump_table_t \<Rightarrow> int list \<Rightarrow> int list \<Rightarrow> jump_table_t res" where
  "jump_table1_init tbl targets jumps =
     rbind (jt_init_bit tbl 0) (\<lambda>tbl.
     rbind (jt_copy_targets 2 targets tbl) (\<lambda>tbl.
     rfold (\<lambda>tbl i. jt_when 1 jumps i (jt_set 0 i) tbl) tbl [0..<256]))"

definition jump_table2_init :: "jump_table_t \<Rightarrow> int list \<Rightarrow> int list \<Rightarrow> jump_table_t res" where
  "jump_table2_init tbl targets jumps =
     rbind (jt_init_bit tbl 0) (\<lambda>tbl.
     rbind (jt_init_bit tbl 1) (\<lambda>tbl.
     rbind (jt_copy_targets 4 targets tbl) (\<lambda>tbl.
     rfold (\<lambda>tbl i.
       rbind (jt_when 3 jumps i (\<lambda>t. rbind (jt_set 1 i t) (jt_set 0 i)) tbl) (\<lambda>tbl.
       rbind (jt_when 2 jumps i (jt_set 1 i) tbl) (\<lambda>tbl.
       jt_when 1 jumps i (jt_set 0 i) tbl))) tbl [0..<256])))"

definition jump_table3_init :: "jump_table_t \<Rightarrow> int list \<Rightarrow> int list \<Rightarrow> jump_table_t res" where
  "jump_table3_init tbl targets jumps =
     rbind (jt_init_bit tbl 0) (\<lambda>tbl.
     rbind (jt_init_bit tbl 1) (\<lambda>tbl.
     rbind (jt_init_bit tbl 2) (\<lambda>tbl.
     rbind (jt_copy_targets 8 targets tbl) (\<lambda>tbl.
     rfold (\<lambda>tbl i.
       rbind (jt_when 7 jumps i (\<lambda>t. rbind (jt_set 2 i t) (\<lambda>t. rbind (jt_set 1 i t) (jt_set 0 i))) tbl) (\<lambda>tbl.
       rbind (jt_when 6 jumps i (\<lambda>t. rbind (jt_set 2 i t) (jt_set 1 i)) tbl) (\<lambda>tbl.
       rbind (jt_when 5 jumps i (\<lambda>t. rbind (jt_set 2 i t) (jt_set 0 i)) tbl) (\<lambda>tbl.
       rbind (jt_when 4 jumps i (jt_set 2 i) tbl) (\<lambda>tbl.
       rbind (jt_when 3 jumps i (\<lambda>t. rbind (jt_set 1 i t) (jt_set 0 i)) tbl) (\<lambda>tbl.
       rbind (jt_when 2 jumps i (jt_set 1 i) tbl) (\<lambda>tbl.
       jt_when 1 jumps i (jt_set 0 i) tbl))))))) tbl [0..<256]))))"

definition jt_get :: "jump_table_t \<Rightarrow> nat \<Rightarrow> u8 \<Rightarrow> nat res" where
  "jt_get tbl k ch = rbind (aread (jb tbl) k) (\<lambda>s. rbind (bitset_get s (unat ch)) (\<lambda>b. Inr (of_bool b)))"

definition jump_table1_jump :: "jump_table_t \<Rightarrow> u8 \<Rightarrow> int res" where
  "jump_table1_jump tbl ch = rbind (jt_get tbl 0 ch) (\<lambda>idx0. aread (jjumps tbl) idx0)"

definition jump_table2_jump :: "jump_table_t \<Rightarrow> u8 \<Rightarrow> int res" where
  "jump_table2_jump tbl ch =
     rbind (jt_get tbl 0 ch) (\<lambda>idx0.
     rbind (jt_get tbl 1 ch) (\<lambda>idx1.
     aread (jjumps tbl) (push_bit 1 idx1 OR idx0)))"

definition jump_table3_jump :: "jump_table_t \<Rightarrow> u8 \<Rightarrow> int res" where
  "jump_table3_jump tbl ch =
     rbind (jt_get tbl 0 ch) (\<lambda>idx0.
     rbind (jt_get tbl 1 ch) (\<lambda>idx1.
     rbind (jt_get tbl 2 ch) (\<lambda>idx2.
     aread (jjumps tbl) (push_bit 2 idx2 OR push_bit 1 idx1 OR idx0))))"

section \<open>Shapes and targets\<close>

definition jt_wf :: "nat \<Rightarrow> jump_table_t \<Rightarrow> bool" where
  "jt_wf w tbl \<longleftrightarrow> length (jb tbl) = w \<and> length (jjumps tbl) = 2 ^ w \<and> (\<forall>s \<in> set (jb tbl). bitset_wf s)"

text \<open>A freshly allocated table: the arrays have their sizes, the contents are arbitrary.\<close>

definition jt_alloc :: "nat \<Rightarrow> jump_table_t \<Rightarrow> bool" where
  "jt_alloc w tbl \<longleftrightarrow> length (jb tbl) = w \<and> length (jjumps tbl) = 2 ^ w"

text \<open>The target arrays the loader passes: \<open>n\<close> distinct targets, zeros behind them.\<close>

definition padded :: "nat \<Rightarrow> nat \<Rightarrow> int list \<Rightarrow> bool" where
  "padded w n targets \<longleftrightarrow> 2 ^ w \<le> length targets \<and> n \<le> 2 ^ w \<and> distinct (take n targets) \<and>
     (\<forall>m. n \<le> m \<longrightarrow> m < 2 ^ w \<longrightarrow> targets ! m = 0)"

section \<open>The loop body as a set of marked bits\<close>

text \<open>
  Byte \<open>i\<close> is in bitset \<open>k\<close> after the loop exactly when some target with bit \<open>k\<close> set in its
  number equals \<open>jumps[i]\<close>.
\<close>

definition marks :: "nat \<Rightarrow> int list \<Rightarrow> int \<Rightarrow> nat \<Rightarrow> bool" where
  "marks w ts v k \<longleftrightarrow> (\<exists>m < 2 ^ w. bit m k \<and> ts ! m = v)"

text \<open>\<open>adds w i S tbl t\<close>: \<open>t\<close> is \<open>tbl\<close> with \<open>i\<close> added to the bitsets whose numbers are in \<open>S\<close>.\<close>

definition adds :: "nat \<Rightarrow> nat \<Rightarrow> nat set \<Rightarrow> jump_table_t \<Rightarrow> jump_table_t \<Rightarrow> bool" where
  "adds w i S tbl t \<longleftrightarrow> jt_wf w t \<and> jjumps t = jjumps tbl \<and>
     (\<forall>l < w. elems (jb t ! l) = elems (jb tbl ! l) \<union> (if l \<in> S then {i} else {}))"

definition jt_inv :: "nat \<Rightarrow> int list \<Rightarrow> int list \<Rightarrow> nat list \<Rightarrow> jump_table_t \<Rightarrow> bool" where
  "jt_inv w ts jumps ys tbl \<longleftrightarrow> jt_wf w tbl \<and> jjumps tbl = take (2 ^ w) ts \<and>
     (\<forall>k < w. elems (jb tbl ! k) = {i \<in> set ys. marks w ts (jumps ! i) k})"

lemma jt_set_ok:
  assumes wf: "jt_wf w tbl" and k: "k < w" and i: "i < 256"
  shows "\<exists>t. jt_set k i tbl = Inr t \<and> adds w i {k} tbl t"
proof -
  from wf k have len: "k < length (jb tbl)" and s: "bitset_wf (jb tbl ! k)"
    by (simp_all add: jt_wf_def)
  from bitset_set_ok [OF s i] obtain s' where
    s': "bitset_set (jb tbl ! k) i = Inr s'" "bitset_wf s'" "elems s' = insert i (elems (jb tbl ! k))"
    by blast
  let ?t = "tbl\<lparr>jb := (jb tbl)[k := s']\<rparr>"
  have "jt_set k i tbl = Inr ?t" using len s' by (simp add: jt_set_def)
  moreover have "jt_wf w ?t" using wf s' set_update_subset_insert [of "jb tbl" k s']
    by (auto simp: jt_wf_def)
  ultimately show ?thesis using s' len by (auto simp: adds_def)
qed

lemma adds_wf: "adds w i S tbl t \<Longrightarrow> jt_wf w t"
  by (simp add: adds_def)

lemma adds_jumps: "adds w i S tbl t \<Longrightarrow> jjumps t = jjumps tbl"
  by (simp add: adds_def)

lemma adds_refl: "jt_wf w tbl \<Longrightarrow> adds w i {} tbl tbl"
  by (simp add: adds_def)

lemma adds_trans: "adds w i S tbl t \<Longrightarrow> adds w i S' t t' \<Longrightarrow> adds w i (S \<union> S') tbl t'"
  by (auto simp: adds_def)

text \<open>A sequence of updates of byte \<open>i\<close>: each is defined and adds its bits.\<close>

definition marker :: "nat \<Rightarrow> nat \<Rightarrow> int list \<Rightarrow> nat set \<Rightarrow> (jump_table_t \<Rightarrow> jump_table_t res) \<Rightarrow> bool" where
  "marker w i ts S f \<longleftrightarrow> (\<forall>tbl. jt_wf w tbl \<longrightarrow> jjumps tbl = ts \<longrightarrow> (\<exists>t. f tbl = Inr t \<and> adds w i S tbl t))"

lemma marker_set: "k < w \<Longrightarrow> i < 256 \<Longrightarrow> marker w i ts {k} (jt_set k i)"
  by (simp add: marker_def jt_set_ok)

lemma marker_seq:
  assumes "marker w i ts S f" "marker w i ts S' g"
  shows "marker w i ts (S \<union> S') (\<lambda>t. rbind (f t) g)"
  unfolding marker_def
proof (intro allI impI)
  fix tbl
  assume tbl: "jt_wf w tbl" "jjumps tbl = ts"
  with assms(1) obtain t where t: "f tbl = Inr t" "adds w i S tbl t" by (auto simp: marker_def)
  then have "jt_wf w t" "jjumps t = ts" using tbl by (simp_all add: adds_wf adds_jumps)
  with assms(2) obtain t' where "g t = Inr t'" "adds w i S' t t'" by (auto simp: marker_def)
  with t show "\<exists>t. rbind (f tbl) g = Inr t \<and> adds w i (S \<union> S') tbl t"
    by (auto intro: adds_trans)
qed

lemma marker_when:
  assumes act: "marker w i ts S act" and m: "m < 2 ^ w" and i: "i < length jumps"
  shows "marker w i ts (if ts ! m = jumps ! i then S else {}) (jt_when m jumps i act)"
  unfolding marker_def
proof (intro allI impI)
  fix tbl
  assume tbl: "jt_wf w tbl" "jjumps tbl = ts"
  then have "jt_when m jumps i act tbl = (if ts ! m = jumps ! i then act tbl else Inr tbl)"
    using m i by (auto simp: jt_when_def jt_wf_def)
  then show "\<exists>t. jt_when m jumps i act tbl = Inr t \<and>
      adds w i (if ts ! m = jumps ! i then S else {}) tbl t"
    using act tbl by (auto simp: marker_def intro: adds_refl)
qed

lemma marker_cong: "marker w i ts S f \<Longrightarrow> S = S' \<Longrightarrow> marker w i ts S' f"
  by simp

lemma jt_init_bit_ok:
  assumes "k < length (jb tbl)"
  shows "jt_init_bit tbl k = Inr (tbl\<lparr>jb := (jb tbl)[k := bitset_init (jb tbl ! k)]\<rparr>)"
  using assms by (simp add: jt_init_bit_def)

lemma jt_copy_targets_ok:
  assumes "n \<le> length targets" "length (jjumps tbl) = n"
  shows "jt_copy_targets n targets tbl = Inr (tbl\<lparr>jjumps := take n targets\<rparr>)"
proof -
  let ?f = "\<lambda>tbl i. rbind (aread targets i) (\<lambda>v.
            rbind (awrite (jjumps tbl) i v) (\<lambda>js. Inr (tbl\<lparr>jjumps := js\<rparr>)))"
  have "rfold ?f tbl [0..<k] = Inr (tbl\<lparr>jjumps := take k targets @ drop k (jjumps tbl)\<rparr>)"
    if "k \<le> n" for k
    using that
  proof (induction k)
    case 0
    then show ?case by simp
  next
    case (Suc k)
    then have "(take k targets @ drop k (jjumps tbl))[k := targets ! k] =
        take (Suc k) targets @ drop (Suc k) (jjumps tbl)"
      using assms
      by (simp add: list_update_append take_Suc_conv_app_nth Cons_nth_drop_Suc [symmetric])
    with Suc assms show ?case by (simp add: rfold_append)
  qed
  from this [of n] show ?thesis using assms by (simp add: jt_copy_targets_def)
qed

section \<open>The initialisers establish the invariant\<close>

lemma jt_inv_step:
  assumes m: "marker w i (take (2 ^ w) ts) {k. k < w \<and> marks w ts (jumps ! i) k} f"
    and inv: "jt_inv w ts jumps ys tbl" and i: "i \<notin> set ys"
  shows "\<exists>t. f tbl = Inr t \<and> jt_inv w ts jumps (ys @ [i]) t"
proof -
  from m inv obtain t where t: "f tbl = Inr t" "adds w i {k. k < w \<and> marks w ts (jumps ! i) k} tbl t"
    by (auto simp: marker_def jt_inv_def)
  with inv have "jt_inv w ts jumps (ys @ [i]) t"
    by (auto simp: jt_inv_def adds_def split: if_splits)
  with t show ?thesis by blast
qed

lemma jt_loop:
  assumes body: "\<And>i. i < 256 \<Longrightarrow>
      marker w i (take (2 ^ w) ts) {k. k < w \<and> marks w ts (jumps ! i) k} (f i)"
    and inv: "jt_inv w ts jumps [] tbl"
  shows "\<exists>t. rfold (\<lambda>tbl i. f i tbl) tbl [0..<256] = Inr t \<and> jt_inv w ts jumps [0..<256] t"
proof (rule rfold_invariant [where P = "jt_inv w ts jumps"])
  show "jt_inv w ts jumps [] tbl" by (rule inv)
next
  fix ys i t
  assume inv: "jt_inv w ts jumps ys t" and "\<exists>zs. [0..<256] = ys @ i # zs"
  then obtain zs where zs: "[0..<256] = ys @ i # zs" by blast
  have "i \<in> set [0..<256]" unfolding zs by simp
  then have "i < 256" by simp
  moreover have "distinct (ys @ i # zs)" unfolding zs [symmetric] by simp
  then have "i \<notin> set ys" by simp
  ultimately show "\<exists>t'. f i t = Inr t' \<and> jt_inv w ts jumps (ys @ [i]) t'"
    using body inv by (blast intro: jt_inv_step)
qed

lemma less_four: "(m :: nat) < 4 \<longleftrightarrow> m = 0 \<or> m = 1 \<or> m = 2 \<or> m = 3"
  by auto

lemma less_eight: "(m :: nat) < 8 \<longleftrightarrow> m = 0 \<or> m = 1 \<or> m = 2 \<or> m = 3 \<or> m = 4 \<or> m = 5 \<or> m = 6 \<or> m = 7"
  by auto

lemma marks_1: "marks (Suc 0) ts v 0 \<longleftrightarrow> ts ! Suc 0 = v"
proof -
  have "m < 2 \<longleftrightarrow> m = 0 \<or> m = Suc 0" for m :: nat by auto
  then show ?thesis by (auto simp: marks_def bit_iff_odd ex_disj_distrib conj_disj_distribR)
qed

lemma marks_2:
  "marks 2 ts v k \<longleftrightarrow> k < 2 \<and> (ts ! 3 = v \<or> ts ! 2 = v \<and> k = 1 \<or> ts ! 1 = v \<and> k = 0)" if "k < 2"
proof -
  from that have "k = 0 \<or> k = 1" by auto
  then show ?thesis
    by (elim disjE) (auto simp: marks_def less_four bit_iff_odd ex_disj_distrib conj_disj_distribR)
qed

lemma marks_3:
  assumes "k < 3"
  shows "marks 3 ts v k \<longleftrightarrow> ts ! 7 = v \<or> ts ! 6 = v \<and> k \<noteq> 0 \<or> ts ! 5 = v \<and> k \<noteq> 1 \<or> ts ! 4 = v \<and> k = 2 \<or>
     ts ! 3 = v \<and> k \<noteq> 2 \<or> ts ! 2 = v \<and> k = 1 \<or> ts ! 1 = v \<and> k = 0"
proof -
  from assms have "k = 0 \<or> k = 1 \<or> k = 2" by auto
  then show ?thesis
    by (elim disjE) (auto simp: marks_def less_eight bit_iff_odd ex_disj_distrib conj_disj_distribR)
qed

lemma jump_table1_init_ok:
  assumes al: "jt_alloc 1 tbl" and ts: "2 \<le> length ts" and js: "256 \<le> length jumps"
  shows "\<exists>t. jump_table1_init tbl ts jumps = Inr t \<and> jt_inv 1 ts jumps [0..<256] t"
proof -
  from al obtain b where b: "jb tbl = [b]" by (auto simp: jt_alloc_def length_Suc_conv)
  let ?t0 = "tbl\<lparr>jb := [bitset_init b], jjumps := take 2 ts\<rparr>"
  have "jump_table1_init tbl ts jumps =
      rfold (\<lambda>tbl i. jt_when 1 jumps i (jt_set 0 i) tbl) ?t0 [0..<256]"
    using al ts b
    by (simp add: jump_table1_init_def jt_init_bit_ok jt_copy_targets_ok jt_alloc_def)
  moreover have "jt_inv 1 ts jumps [] ?t0"
    using ts by (simp add: jt_inv_def jt_wf_def)
  moreover have "marker 1 i (take (2 ^ 1) ts) {k. k < 1 \<and> marks 1 ts (jumps ! i) k}
      (jt_when 1 jumps i (jt_set 0 i))" if "i < 256" for i
  proof (rule marker_cong)
    show "marker 1 i (take (2 ^ 1) ts) (if take (2 ^ 1) ts ! 1 = jumps ! i then {0} else {})
        (jt_when 1 jumps i (jt_set 0 i))"
      using that js by (intro marker_when marker_set) auto
    show "(if take (2 ^ 1) ts ! 1 = jumps ! i then {0} else {}) = {k. k < 1 \<and> marks 1 ts (jumps ! i) k}"
      by (auto simp: marks_1)
  qed
  ultimately show ?thesis
    using jt_loop [where f = "\<lambda>i. jt_when 1 jumps i (jt_set 0 i)"] by simp
qed

lemma jump_table2_init_ok:
  assumes al: "jt_alloc 2 tbl" and ts: "4 \<le> length ts" and js: "256 \<le> length jumps"
  shows "\<exists>t. jump_table2_init tbl ts jumps = Inr t \<and> jt_inv 2 ts jumps [0..<256] t"
proof -
  from al obtain b c where b: "jb tbl = [b, c]"
    by (auto simp: jt_alloc_def length_Suc_conv numeral_2_eq_2)
  let ?t0 = "tbl\<lparr>jb := [bitset_init b, bitset_init c], jjumps := take 4 ts\<rparr>"
  let ?f = "\<lambda>i tbl.
       rbind (jt_when 3 jumps i (\<lambda>t. rbind (jt_set 1 i t) (jt_set 0 i)) tbl) (\<lambda>tbl.
       rbind (jt_when 2 jumps i (jt_set 1 i) tbl) (\<lambda>tbl.
       jt_when 1 jumps i (jt_set 0 i) tbl))"
  have "jump_table2_init tbl ts jumps = rfold (\<lambda>tbl i. ?f i tbl) ?t0 [0..<256]"
    using al ts b
    by (simp add: jump_table2_init_def jt_init_bit_ok jt_copy_targets_ok jt_alloc_def)
  moreover have "jt_inv 2 ts jumps [] ?t0"
    using ts by (auto simp: jt_inv_def jt_wf_def less_2_cases_iff)
  moreover have "marker 2 i (take (2 ^ 2) ts) {k. k < 2 \<and> marks 2 ts (jumps ! i) k} (?f i)"
    if "i < 256" for i
  proof (rule marker_cong)
    let ?T = "take (2 ^ 2) ts"
    show "marker 2 i ?T
       ((if ?T ! 3 = jumps ! i then {1} \<union> {0} else {}) \<union>
        ((if ?T ! 2 = jumps ! i then {1} else {}) \<union> (if ?T ! 1 = jumps ! i then {0} else {}))) (?f i)"
      using that js by (intro marker_seq marker_when marker_set) auto
    show "((if ?T ! 3 = jumps ! i then {1} \<union> {0} else {}) \<union>
        ((if ?T ! 2 = jumps ! i then {1} else {}) \<union> (if ?T ! 1 = jumps ! i then {0} else {}))) =
        {k. k < 2 \<and> marks 2 ts (jumps ! i) k}"
      by (auto simp: marks_2)
  qed
  ultimately show ?thesis using jt_loop [where f = ?f] by simp
qed

lemma jump_table3_init_ok:
  assumes al: "jt_alloc 3 tbl" and ts: "8 \<le> length ts" and js: "256 \<le> length jumps"
  shows "\<exists>t. jump_table3_init tbl ts jumps = Inr t \<and> jt_inv 3 ts jumps [0..<256] t"
proof -
  from al obtain b c d where b: "jb tbl = [b, c, d]"
    by (auto simp: jt_alloc_def length_Suc_conv numeral_3_eq_3)
  let ?t0 = "tbl\<lparr>jb := [bitset_init b, bitset_init c, bitset_init d], jjumps := take 8 ts\<rparr>"
  let ?f = "\<lambda>i tbl.
       rbind (jt_when 7 jumps i (\<lambda>t. rbind (jt_set 2 i t) (\<lambda>t. rbind (jt_set 1 i t) (jt_set 0 i))) tbl) (\<lambda>tbl.
       rbind (jt_when 6 jumps i (\<lambda>t. rbind (jt_set 2 i t) (jt_set 1 i)) tbl) (\<lambda>tbl.
       rbind (jt_when 5 jumps i (\<lambda>t. rbind (jt_set 2 i t) (jt_set 0 i)) tbl) (\<lambda>tbl.
       rbind (jt_when 4 jumps i (jt_set 2 i) tbl) (\<lambda>tbl.
       rbind (jt_when 3 jumps i (\<lambda>t. rbind (jt_set 1 i t) (jt_set 0 i)) tbl) (\<lambda>tbl.
       rbind (jt_when 2 jumps i (jt_set 1 i) tbl) (\<lambda>tbl.
       jt_when 1 jumps i (jt_set 0 i) tbl))))))"
  have "jump_table3_init tbl ts jumps = rfold (\<lambda>tbl i. ?f i tbl) ?t0 [0..<256]"
    using al ts b
    by (simp add: jump_table3_init_def jt_init_bit_ok jt_copy_targets_ok jt_alloc_def)
  moreover have "jt_inv 3 ts jumps [] ?t0"
    using ts by (auto simp: jt_inv_def jt_wf_def less_Suc_eq numeral_3_eq_3)
  moreover have "marker 3 i (take (2 ^ 3) ts) {k. k < 3 \<and> marks 3 ts (jumps ! i) k} (?f i)"
    if "i < 256" for i
  proof (rule marker_cong)
    let ?T = "take (2 ^ 3) ts"
    let ?S = "(if ?T ! 7 = jumps ! i then {2} \<union> ({1} \<union> {0}) else {}) \<union>
        ((if ?T ! 6 = jumps ! i then {2} \<union> {1} else {}) \<union>
        ((if ?T ! 5 = jumps ! i then {2} \<union> {0} else {}) \<union>
        ((if ?T ! 4 = jumps ! i then {2} else {}) \<union>
        ((if ?T ! 3 = jumps ! i then {1} \<union> {0} else {}) \<union>
        ((if ?T ! 2 = jumps ! i then {1} else {}) \<union> (if ?T ! 1 = jumps ! i then {0} else {}))))))"
    show "marker 3 i ?T ?S (?f i)"
      using that js by (intro marker_seq marker_when marker_set) auto
    have "k \<in> ?S \<longleftrightarrow> k < 3 \<and> marks 3 ts (jumps ! i) k" for k
    proof (cases "k < 3")
      case True
      then have "k = 0 \<or> k = 1 \<or> k = 2" by auto
      then show ?thesis by (elim disjE) (simp_all add: marks_3)
    qed auto
    then show "?S = {k. k < 3 \<and> marks 3 ts (jumps ! i) k}" by blast
  qed
  ultimately show ?thesis using jt_loop [where f = ?f] by simp
qed

section \<open>The marked bits are the number of a matching target\<close>

lemma marks_choose:
  assumes pad: "padded w n ts" and v: "v \<in> set (take n ts)"
  shows "\<exists>m < 2 ^ w. ts ! m = v \<and> (\<forall>k < w. marks w ts v k = bit m k)"
proof -
  from pad have len: "2 ^ w \<le> length ts" and n: "n \<le> 2 ^ w" and d: "distinct (take n ts)"
    and z: "\<And>m. n \<le> m \<Longrightarrow> m < 2 ^ w \<Longrightarrow> ts ! m = 0"
    by (auto simp: padded_def)
  from v obtain m0 where m0: "m0 < n" "ts ! m0 = v" using n len by (auto simp: in_set_conv_nth)
  have uniq: "m = m0" if "m < n" "ts ! m = v" for m
    using d m0 that n len by (auto simp: distinct_conv_nth)
  show ?thesis
  proof (cases "v = 0 \<and> n < 2 ^ w")
    case True
    let ?m = "2 ^ w - 1 :: nat"
    have "ts ! ?m = v" using True z [of ?m] by auto
    moreover have bits: "bit ?m k" if "k < w" for k
    proof -
      have "bit (mask w :: nat) k" using that by (simp add: bit_mask_iff)
      then show ?thesis by (simp add: mask_eq_exp_minus_1)
    qed
    moreover have "marks w ts v k" if "k < w" for k
      using bits [OF that] \<open>ts ! ?m = v\<close> by (auto simp: marks_def intro!: exI [of _ ?m])
    ultimately show ?thesis by (auto intro!: exI [of _ ?m])
  next
    case False
    have only: "m = m0" if "m < 2 ^ w" "ts ! m = v" for m
      using False z [of m] uniq that by (metis leI order_le_less n)
    have "m0 < 2 ^ w" using m0 n by simp
    with only m0(2) have "marks w ts v k = bit m0 k" for k
      unfolding marks_def by metis
    then show ?thesis using m0 n by (auto intro!: exI [of _ m0])
  qed
qed

lemma jt_get_marks:
  assumes "jt_inv w ts jumps [0..<256] t" "k < w"
  shows "jt_get t k ch = Inr (of_bool (marks w ts (jumps ! unat ch) k))"
proof -
  have c: "unat ch < 256" using unsigned_less [of ch] by simp
  from assms have "bitset_wf (jb t ! k)" "k < length (jb t)"
    by (auto simp: jt_inv_def jt_wf_def)
  with assms c show ?thesis by (simp add: jt_get_def jt_inv_def bitset_get_elems)
qed

lemma bits_index_2: "m < 4 \<Longrightarrow> push_bit 1 (of_bool (bit m 1)) OR of_bool (bit m 0) = m" for m :: nat
  unfolding less_four by (elim disjE) (simp_all add: bit_iff_odd)

lemma bits_index_3:
  "m < 8 \<Longrightarrow> push_bit 2 (of_bool (bit m 2)) OR push_bit 1 (of_bool (bit m 1)) OR of_bool (bit m 0) = m"
  for m :: nat
  unfolding less_eight by (elim disjE) (simp_all add: bit_iff_odd)

lemma jump_table1_correct:
  assumes "jt_alloc 1 tbl" "padded 1 n ts" "256 \<le> length jumps" "jumps ! unat ch \<in> set (take n ts)"
  shows "\<exists>t. jump_table1_init tbl ts jumps = Inr t \<and> jump_table1_jump t ch = Inr (jumps ! unat ch)"
proof -
  from assms have "2 \<le> length ts" by (simp add: padded_def)
  from jump_table1_init_ok [OF assms(1) this assms(3)] obtain t where
    t: "jump_table1_init tbl ts jumps = Inr t" "jt_inv 1 ts jumps [0..<256] t" by blast
  from marks_choose [OF assms(2,4)] obtain m where
    m: "m < 2" "ts ! m = jumps ! unat ch" "marks 1 ts (jumps ! unat ch) 0 = bit m 0" by auto
  have "of_bool (bit m 0) = m" using m(1) by (auto simp: less_2_cases_iff bit_iff_odd)
  moreover have "jt_get t 0 ch = Inr (of_bool (bit m 0))"
    using jt_get_marks [OF t(2)] m(3) by simp
  ultimately show ?thesis using t m
    by (auto simp: jump_table1_jump_def jt_inv_def jt_wf_def aread_eq_Inr)
qed

lemma jump_table2_correct:
  assumes "jt_alloc 2 tbl" "padded 2 n ts" "256 \<le> length jumps" "jumps ! unat ch \<in> set (take n ts)"
  shows "\<exists>t. jump_table2_init tbl ts jumps = Inr t \<and> jump_table2_jump t ch = Inr (jumps ! unat ch)"
proof -
  from assms have "4 \<le> length ts" by (simp add: padded_def)
  from jump_table2_init_ok [OF assms(1) this assms(3)] obtain t where
    t: "jump_table2_init tbl ts jumps = Inr t" "jt_inv 2 ts jumps [0..<256] t" by blast
  from marks_choose [OF assms(2,4)] obtain m where
    m: "m < 4" "ts ! m = jumps ! unat ch" "\<forall>k < 2. marks 2 ts (jumps ! unat ch) k = bit m k" by auto
  have "jt_get t k ch = Inr (of_bool (bit m k))" if "k < 2" for k
    using jt_get_marks [OF t(2) that] m(3) that by simp
  then have "jump_table2_jump t ch = aread (jjumps t) m"
    using bits_index_2 [OF m(1)] by (simp add: jump_table2_jump_def)
  with t m show ?thesis by (auto simp: jt_inv_def jt_wf_def aread_eq_Inr)
qed

lemma jump_table3_correct:
  assumes "jt_alloc 3 tbl" "padded 3 n ts" "256 \<le> length jumps" "jumps ! unat ch \<in> set (take n ts)"
  shows "\<exists>t. jump_table3_init tbl ts jumps = Inr t \<and> jump_table3_jump t ch = Inr (jumps ! unat ch)"
proof -
  from assms have "8 \<le> length ts" by (simp add: padded_def)
  from jump_table3_init_ok [OF assms(1) this assms(3)] obtain t where
    t: "jump_table3_init tbl ts jumps = Inr t" "jt_inv 3 ts jumps [0..<256] t" by blast
  from marks_choose [OF assms(2,4)] obtain m where
    m: "m < 8" "ts ! m = jumps ! unat ch" "\<forall>k < 3. marks 3 ts (jumps ! unat ch) k = bit m k" by auto
  have "jt_get t k ch = Inr (of_bool (bit m k))" if "k < 3" for k
    using jt_get_marks [OF t(2) that] m(3) that by simp
  then have "jump_table3_jump t ch = aread (jjumps t) m"
    using bits_index_3 [OF m(1)] by (simp add: jump_table3_jump_def)
  with t m show ?thesis by (auto simp: jt_inv_def jt_wf_def aread_eq_Inr)
qed

section \<open>Properties\<close>

text \<open>The three tables side by side, by their number of bitsets.\<close>

definition jump_table_init :: "nat \<Rightarrow> jump_table_t \<Rightarrow> int list \<Rightarrow> int list \<Rightarrow> jump_table_t res" where
  "jump_table_init w tbl targets jumps =
     (if w = 1 then jump_table1_init tbl targets jumps
      else if w = 2 then jump_table2_init tbl targets jumps
      else jump_table3_init tbl targets jumps)"

definition jump_table_jump :: "nat \<Rightarrow> jump_table_t \<Rightarrow> u8 \<Rightarrow> int res" where
  "jump_table_jump w tbl ch =
     (if w = 1 then jump_table1_jump tbl ch
      else if w = 2 then jump_table2_jump tbl ch
      else jump_table3_jump tbl ch)"

text \<open>C24: A compressed jump table of one, two or three bitsets is equivalent to the plain
256-entry table it is built from: with distinct targets in front, zeros behind, and a byte whose
target is among them, initialising the table is defined and the lookup of the byte returns the
byte's entry of the plain table.\<close>

theorem jump_table_equivalent:
  assumes "w \<in> {1, 2, 3}" "jt_alloc w tbl" "padded w n targets" "256 \<le> length jumps"
    and "jumps ! unat ch \<in> set (take n targets)"
  shows "\<exists>t. jump_table_init w tbl targets jumps = Inr t \<and>
             jump_table_jump w t ch = Inr (jumps ! unat ch)"
  using assms jump_table1_correct jump_table2_correct jump_table3_correct
  by (auto simp: jump_table_init_def jump_table_jump_def)

lemma jump_table_equivalent_witness:
  "\<exists>t. jump_table_init 2 \<lparr>jb = replicate 2 \<lparr>bdata = []\<rparr>, jjumps = [9, 9, 9, 9]\<rparr> [12, 40, - 3, 0]
         (map (\<lambda>i. if i = 97 then - 3 else if i = 98 then 40 else 12) [0..<256]) = Inr t \<and>
       jump_table_jump 2 t 97 = Inr (- 3)"
  using jump_table_equivalent [of 2 "\<lparr>jb = replicate 2 \<lparr>bdata = []\<rparr>, jjumps = [9, 9, 9, 9]\<rparr>" 3
      "[12, 40, - 3, 0]" "map (\<lambda>i. if i = 97 then - 3 else if i = 98 then 40 else 12) [0..<256]" 97]
  by (simp add: jt_alloc_def padded_def less_four nth_Cons' numeral_3_eq_3 del: upt_Suc upt_rec_numeral)

end
