(* ===== verification/KArray.thy ===== *)
theory KArray
  imports Moz_Prelude
begin

text \<open>
  The growable arrays of \<open>src/src/core/karray.h\<close> (the macros \<open>DEF_ARRAY_OP__\<close>,
  \<open>DEF_ARRAY_OP_NOPOINTER\<close> and the accessors). An array is its \<open>size\<close>, its \<open>capacity\<close> and
  the block \<open>list\<close> of \<open>capacity\<close> elements; the elements are any type with a zero, which is
  what \<open>memset\<close> leaves in a grown tail. The refinement lemmas relate each operation to the
  list of the first \<open>size\<close> elements.

  \<open>LOG2\<close> uses \<open>__builtin_clzl\<close>, whose result GCC leaves undefined at 0. The build compiles
  with \<open>-march=native\<close>; the model takes the 64 that the \<open>lzcnt\<close> instruction gives, so that an
  array of capacity 0 grows to 1.
\<close>

section \<open>Leading zeros and the growth of the capacity\<close>

fun bitlen :: "nat \<Rightarrow> nat" where
  "bitlen n = (if n = 0 then 0 else Suc (bitlen (n div 2)))"

declare bitlen.simps [simp del]

definition clzl :: "u64 \<Rightarrow> nat" where
  "clzl w = 64 - bitlen (unat w)"

definition LOG2 :: "u32 \<Rightarrow> nat" where
  "LOG2 n = 64 - clzl (ucast (n - 1))"

text \<open>\<open>1 << n\<close> on \<open>int\<close>: the result is defined when it fits.\<close>

definition shl1 :: "nat \<Rightarrow> nat res" where
  "shl1 n = (if n < 31 then Inr (2 ^ n) else Inl BadShift)"

definition grow_capacity :: "nat \<Rightarrow> nat res" where
  "grow_capacity cap = shl1 (LOG2 (of_nat cap * 2 + 1))"

lemma bitlen_0 [simp]: "bitlen 0 = 0"
  by (simp add: bitlen.simps)

lemma bitlen_pos: "0 < n \<Longrightarrow> bitlen n = Suc (bitlen (n div 2))"
  by (simp add: bitlen.simps [of n])

lemma less_2_bitlen: "n < 2 ^ bitlen n"
proof (induction n rule: bitlen.induct)
  case (1 n)
  then show ?case by (cases "n = 0") (auto simp: bitlen_pos)
qed

lemma bitlen_le: "n < 2 ^ k \<Longrightarrow> bitlen n \<le> k"
proof (induction k arbitrary: n)
  case (Suc k)
  then show ?case by (cases "n = 0") (auto simp: bitlen_pos)
qed simp

lemma le_2_bitlen: "0 < n \<Longrightarrow> 2 ^ (bitlen n - 1) \<le> n"
proof (induction n rule: bitlen.induct)
  case (1 n)
  show ?case
  proof (cases "n < 2")
    case True
    with 1 have "n = 1" by simp
    then show ?thesis by (simp add: bitlen_pos)
  next
    case False
    then have "0 < n div 2" by simp
    with 1 have "2 ^ (bitlen (n div 2) - 1) \<le> n div 2" by simp
    moreover have "bitlen (n div 2) = Suc (bitlen (n div 2 div 2))"
      using \<open>0 < n div 2\<close> by (rule bitlen_pos)
    ultimately have "2 ^ bitlen (n div 2) \<le> 2 * (n div 2)" by simp
    then show ?thesis using 1 by (simp add: bitlen_pos)
  qed
qed

lemma bitlen_64: "bitlen (unat (w :: u64)) \<le> 64"
  using unsigned_less [of w] by (intro bitlen_le) simp

lemma LOG2_bitlen: "LOG2 n = bitlen (unat (n - 1))"
proof -
  have "unat (n - 1) < 2 ^ 32" using unsigned_less [of "n - 1"] by simp
  then have "unat (ucast (n - 1) :: u64) = unat (n - 1)"
    by (simp add: unsigned_ucast_eq take_bit_eq_mod)
  then show ?thesis using bitlen_64 [of "ucast (n - 1)"] by (simp add: LOG2_def clzl_def)
qed

lemma grow_capacity_bitlen:
  assumes "cap < 2 ^ 31"
  shows "grow_capacity cap = shl1 (bitlen (2 * cap))"
proof -
  have "unat (of_nat cap * 2 :: u32) = 2 * cap"
    using assms by (simp add: unat_word_ariths unat_of_nat take_bit_eq_mod)
  then show ?thesis by (simp add: grow_capacity_def LOG2_bitlen)
qed

lemma shl1_Inr: "shl1 n = Inr m \<Longrightarrow> n < 31 \<and> m = 2 ^ n"
  by (auto simp: shl1_def split: if_splits)

lemma grow_capacity_less: "grow_capacity cap = Inr c \<Longrightarrow> c < 2 ^ 31"
  unfolding grow_capacity_def using power_strict_increasing [of _ 31 "2 :: nat"] by (auto dest: shl1_Inr)

lemma grow_capacity_grows:
  assumes "cap < 2 ^ 31" "grow_capacity cap = Inr c"
  shows "cap < c"
proof -
  from assms have "c = 2 ^ bitlen (2 * cap)" by (auto simp: grow_capacity_bitlen dest: shl1_Inr)
  then show ?thesis using less_2_bitlen [of "2 * cap"] by simp
qed

lemma grow_capacity_ok:
  assumes "cap < 2 ^ 29"
  shows "\<exists>c. grow_capacity cap = Inr c \<and> c \<le> 4 * cap + 1"
proof (cases "cap = 0")
  case True
  then show ?thesis by (simp add: grow_capacity_bitlen shl1_def)
next
  case False
  have "bitlen (2 * cap) \<le> 30" using assms by (intro bitlen_le) simp
  moreover from False have "2 ^ (bitlen (2 * cap) - 1) \<le> 2 * cap" by (intro le_2_bitlen) simp
  then have "2 ^ bitlen (2 * cap) \<le> 4 * cap"
    using False by (cases "bitlen (2 * cap)") (auto simp: bitlen_pos)
  ultimately show ?thesis using assms by (simp add: grow_capacity_bitlen shl1_def)
qed

text \<open>\<open>while (a->size + size > a->capacity) a->capacity = 1 << LOG2(...)\<close>\<close>

function grow_loop :: "nat \<Rightarrow> nat \<Rightarrow> nat res" where
  "grow_loop need cap =
     (if need > cap then rbind (grow_capacity cap) (\<lambda>c. grow_loop need c) else Inr cap)"
  by pat_completeness auto

termination
proof (relation "measure (\<lambda>(need, cap). if cap < 2 ^ 31 then 2 ^ 31 - cap else 2 ^ 31 + 1)")
  fix need cap c :: nat
  assume "grow_capacity cap = Inr c"
  moreover from this have "c < 2 ^ 31" by (rule grow_capacity_less)
  moreover have "cap < 2 ^ 31 \<longrightarrow> cap < c" using calculation(1) grow_capacity_grows by blast
  ultimately show "((need, c), (need, cap)) \<in>
      measure (\<lambda>(need, cap). if cap < 2 ^ 31 then 2 ^ 31 - cap else 2 ^ 31 + 1)"
    by auto
qed simp

declare grow_loop.simps [simp del]

lemma grow_loop_fits: "need \<le> cap \<Longrightarrow> grow_loop need cap = Inr cap"
  by (simp add: grow_loop.simps [of need cap])

lemma grow_loop_grows:
  "cap < need \<Longrightarrow> grow_loop need cap = rbind (grow_capacity cap) (grow_loop need)"
  by (simp add: grow_loop.simps [of need cap])

lemma grow_loop_enough: "grow_loop need cap = Inr c \<Longrightarrow> need \<le> c"
proof (induction need cap arbitrary: c rule: grow_loop.induct)
  case (1 need cap)
  then show ?case
    by (cases "cap < need") (auto simp: grow_loop_fits grow_loop_grows rbind_eq_Inr)
qed

lemma grow_loop_ge: "grow_loop need cap = Inr c \<Longrightarrow> cap < 2 ^ 31 \<Longrightarrow> cap \<le> c"
proof (induction need cap arbitrary: c rule: grow_loop.induct)
  case (1 need cap)
  show ?case
  proof (cases "cap < need")
    case True
    with 1 obtain d where d: "grow_capacity cap = Inr d" "grow_loop need d = Inr c"
      by (auto simp: grow_loop_grows rbind_eq_Inr)
    have "cap < d" using 1(3) d(1) by (rule grow_capacity_grows)
    with 1(1) [OF True d] grow_capacity_less [OF d(1)] show ?thesis by simp
  next
    case False
    with 1 show ?thesis by (simp add: grow_loop_fits)
  qed
qed

lemma grow_loop_ok:
  "need < 2 ^ 29 \<Longrightarrow> cap < 2 ^ 31 \<Longrightarrow> \<exists>c. grow_loop need cap = Inr c \<and> c \<le> max cap (4 * need)"
proof (induction need cap rule: grow_loop.induct)
  case (1 need cap)
  show ?case
  proof (cases "need > cap")
    case True
    with 1 have "cap < 2 ^ 29" by simp
    then obtain c where c: "grow_capacity cap = Inr c" "c \<le> 4 * cap + 1"
      using grow_capacity_ok by blast
    with 1(1) [OF True c(1) 1(2)] grow_capacity_less [OF c(1)]
    have "\<exists>d. grow_loop need c = Inr d \<and> d \<le> max c (4 * need)" by simp
    with c True show ?thesis by (auto simp: grow_loop_grows)
  next
    case False
    then show ?thesis by (simp add: grow_loop.simps [of need cap])
  qed
qed

section \<open>The array and its operations\<close>

record 'a ARRAY =
  asize :: nat
  capacity :: nat
  alist :: "'a list"

text \<open>The block has \<open>capacity\<close> elements; every size the code computes fits an \<open>int\<close>.\<close>

definition arr_wf :: "'a ARRAY \<Rightarrow> bool" where
  "arr_wf a \<longleftrightarrow> length (alist a) = capacity a \<and> asize a \<le> capacity a \<and> capacity a < 2 ^ 31"

text \<open>The abstract value: the first \<open>size\<close> elements.\<close>

definition elts :: "'a ARRAY \<Rightarrow> 'a list" where
  "elts a = take (asize a) (alist a)"

text \<open>\<open>block\<close> is what \<open>malloc\<close> returned: \<open>initsize\<close> elements of unspecified content.\<close>

definition ARRAY_init :: "'a list \<Rightarrow> 'a ARRAY" where
  "ARRAY_init block = \<lparr>asize = 0, capacity = length block, alist = block\<rparr>"

definition ARRAY_ensureSize :: "'a::zero ARRAY \<Rightarrow> nat \<Rightarrow> 'a ARRAY res" where
  "ARRAY_ensureSize a n =
     (if asize a + n \<le> capacity a then Inr a
      else rbind (grow_loop (asize a + n) (capacity a)) (\<lambda>c.
        Inr (a\<lparr>capacity := c, alist := take c (alist a) @ replicate (c - capacity a) 0\<rparr>)))"

definition ARRAY_dispose :: "'a ARRAY \<Rightarrow> 'a ARRAY" where
  "ARRAY_dispose a = a\<lparr>asize := 0, capacity := 0, alist := []\<rparr>"

definition ARRAY_get :: "'a ARRAY \<Rightarrow> nat \<Rightarrow> 'a res" where
  "ARRAY_get a idx = aread (alist a) idx"

definition ARRAY_set :: "'a ARRAY \<Rightarrow> nat \<Rightarrow> 'a \<Rightarrow> 'a ARRAY res" where
  "ARRAY_set a idx v = rbind (awrite (alist a) idx v) (\<lambda>l. Inr (a\<lparr>alist := l\<rparr>))"

definition ARRAY_add :: "'a::zero ARRAY \<Rightarrow> 'a \<Rightarrow> 'a ARRAY res" where
  "ARRAY_add a v =
     rbind (ARRAY_ensureSize a 1) (\<lambda>a. ARRAY_set (a\<lparr>asize := asize a + 1\<rparr>) (asize a) v)"

text \<open>
  The search loops: the first index in \<open>is\<close> whose element is \<open>v\<close>. The source's
  \<open>for (i = 0; i < (int)a->size; i++)\<close> with a \<open>return\<close> or \<open>break\<close> in the body.
\<close>

fun arr_search :: "'a ARRAY \<Rightarrow> 'a \<Rightarrow> nat list \<Rightarrow> nat option res" where
  "arr_search a v [] = Inr None"
| "arr_search a v (i # is) =
     rbind (ARRAY_get a i) (\<lambda>x. if x = v then Inr (Some i) else arr_search a v is)"

definition ARRAY_add_once :: "'a::zero ARRAY \<Rightarrow> 'a \<Rightarrow> 'a ARRAY res" where
  "ARRAY_add_once a v =
     rbind (arr_search a v [0..<asize a]) (\<lambda>r.
       case r of Some _ \<Rightarrow> Inr a | None \<Rightarrow> ARRAY_add a v)"

text \<open>\<open>memmove(list + idx, list + idx + 1, size - idx - 1)\<close>: the last element stays where it is.\<close>

definition ARRAY_remove :: "'a ARRAY \<Rightarrow> nat \<Rightarrow> 'a ARRAY res" where
  "ARRAY_remove a idx =
     rbind (rassert (asize a > 0)) (\<lambda>_.
     rbind (rguard OutOfBounds (idx < asize a \<and> asize a \<le> length (alist a))) (\<lambda>_.
       Inr (a\<lparr>asize := asize a - 1,
              alist := take idx (alist a) @ take (asize a - idx - 1) (drop (idx + 1) (alist a)) @
                      drop (asize a - 1) (alist a)\<rparr>)))"

definition ARRAY_remove2 :: "'a ARRAY \<Rightarrow> 'a \<Rightarrow> 'a ARRAY res" where
  "ARRAY_remove2 a v =
     rbind (rassert (asize a > 0)) (\<lambda>_.
     rbind (arr_search a v [0..<asize a]) (\<lambda>r.
       case r of Some i \<Rightarrow> ARRAY_remove a i | None \<Rightarrow> Inr a))"

definition ARRAY_insert :: "'a::zero ARRAY \<Rightarrow> int \<Rightarrow> 'a \<Rightarrow> 'a ARRAY res" where
  "ARRAY_insert a idx v =
     rbind (rassert (int (asize a) \<ge> idx \<and> idx \<ge> 0)) (\<lambda>_.
       if int (asize a) = idx then ARRAY_add a v
       else rbind (ARRAY_ensureSize a 1) (\<lambda>a.
         let i = nat idx;
             moved = take (i + 1) (alist a) @ take (asize a - i) (drop i (alist a)) @
                     drop (asize a + 1) (alist a)
         in ARRAY_set (a\<lparr>asize := asize a + 1, alist := moved\<rparr>) i v))"

definition ARRAY_index :: "'a ARRAY \<Rightarrow> 'a \<Rightarrow> int res" where
  "ARRAY_index a v =
     rbind (rassert (asize a > 0)) (\<lambda>_.
     rbind (arr_search a v [0..<asize a]) (\<lambda>r.
       case r of Some i \<Rightarrow> Inr (int i) | None \<Rightarrow> Inr (- 1)))"

text \<open>\<open>ARRAY_get(T, a, (--(a)->size))\<close>: at size 0 the unsigned size wraps around.\<close>

definition ARRAY_pop :: "'a ARRAY \<Rightarrow> ('a \<times> 'a ARRAY) res" where
  "ARRAY_pop a =
     rbind (rguard OutOfBounds (asize a > 0)) (\<lambda>_.
     rbind (ARRAY_get a (asize a - 1)) (\<lambda>v. Inr (v, a\<lparr>asize := asize a - 1\<rparr>)))"

section \<open>Refinement to lists\<close>

named_theorems arr_simps \<open>what the operations do to the abstract list\<close>

lemma length_elts [simp]: "arr_wf a \<Longrightarrow> length (elts a) = asize a"
  by (simp add: arr_wf_def elts_def)

lemma ARRAY_init_elts: "length block < 2 ^ 31 \<Longrightarrow> arr_wf (ARRAY_init block) \<and> elts (ARRAY_init block) = []"
  by (simp add: ARRAY_init_def arr_wf_def elts_def)

lemma ARRAY_ensureSize_ok:
  assumes wf: "arr_wf a" and small: "asize a + n < 2 ^ 29"
  shows "\<exists>b. ARRAY_ensureSize a n = Inr b \<and> arr_wf b \<and> elts b = elts a \<and> asize b = asize a \<and>
           asize a + n \<le> capacity b \<and> capacity b \<le> max (capacity a) (4 * (asize a + n))"
proof (cases "asize a + n \<le> capacity a")
  case True
  then show ?thesis using wf by (simp add: ARRAY_ensureSize_def)
next
  case False
  have cap: "capacity a < 2 ^ 31" using wf by (simp add: arr_wf_def)
  then obtain c where c: "grow_loop (asize a + n) (capacity a) = Inr c" "c \<le> max (capacity a) (4 * (asize a + n))"
    using grow_loop_ok [OF small] by blast
  moreover have "asize a + n \<le> c" using c(1) by (rule grow_loop_enough)
  moreover have "capacity a \<le> c" using c(1) cap by (rule grow_loop_ge)
  ultimately show ?thesis using False wf small
    by (auto simp: ARRAY_ensureSize_def arr_wf_def elts_def)
qed

lemma ARRAY_get_elts [arr_simps]: "arr_wf a \<Longrightarrow> i < asize a \<Longrightarrow> ARRAY_get a i = Inr (elts a ! i)"
  by (simp add: ARRAY_get_def arr_wf_def elts_def)

lemma ARRAY_set_elts [arr_simps]:
  assumes "arr_wf a" "i < asize a"
  shows "\<exists>b. ARRAY_set a i v = Inr b \<and> arr_wf b \<and> elts b = (elts a)[i := v] \<and> capacity b = capacity a"
  using assms by (simp add: ARRAY_set_def arr_wf_def elts_def take_update_swap)

lemma ARRAY_add_elts:
  assumes "arr_wf a" "asize a + 1 < 2 ^ 29"
  shows "\<exists>b. ARRAY_add a v = Inr b \<and> arr_wf b \<and> elts b = elts a @ [v]"
proof -
  from ARRAY_ensureSize_ok [OF assms] obtain b where
    b: "ARRAY_ensureSize a 1 = Inr b" "arr_wf b" "elts b = elts a" "asize b = asize a" "asize a + 1 \<le> capacity b"
    by blast
  then show ?thesis
    by (auto simp: ARRAY_add_def ARRAY_set_def arr_wf_def elts_def take_Suc_conv_app_nth)
qed

text \<open>Without the size limit growing may fail, but an addition that returns has appended.\<close>

lemma grow_loop_less: "grow_loop need cap = Inr c \<Longrightarrow> cap < 2 ^ 31 \<Longrightarrow> c < 2 ^ 31"
proof (induction need cap arbitrary: c rule: grow_loop.induct)
  case (1 need cap)
  show ?case
  proof (cases "cap < need")
    case True
    with 1 obtain d where d: "grow_capacity cap = Inr d" "grow_loop need d = Inr c"
      by (auto simp: grow_loop_grows rbind_eq_Inr)
    from 1(1) [OF True d grow_capacity_less [OF d(1)]] show ?thesis .
  next
    case False
    with 1 show ?thesis by (simp add: grow_loop_fits)
  qed
qed

lemma ARRAY_add_appends:
  assumes wf: "arr_wf a" and run: "ARRAY_add a v = Inr b"
  shows "arr_wf b \<and> elts b = elts a @ [v]"
proof -
  from run obtain e where e: "ARRAY_ensureSize a 1 = Inr e" "ARRAY_set (e\<lparr>asize := asize e + 1\<rparr>) (asize e) v = Inr b"
    by (auto simp: ARRAY_add_def rbind_eq_Inr)
  have "arr_wf e \<and> asize e = asize a \<and> asize e < capacity e \<and> elts e = elts a"
  proof (cases "asize a + 1 \<le> capacity a")
    case True
    with e(1) wf show ?thesis by (auto simp: ARRAY_ensureSize_def)
  next
    case False
    with e(1) obtain c where c: "grow_loop (asize a + 1) (capacity a) = Inr c"
      "e = a\<lparr>capacity := c, alist := take c (alist a) @ replicate (c - capacity a) 0\<rparr>"
      by (auto simp: ARRAY_ensureSize_def rbind_eq_Inr)
    have cap: "capacity a < 2 ^ 31" using wf by (simp add: arr_wf_def)
    from grow_loop_enough [OF c(1)] grow_loop_less [OF c(1) cap] grow_loop_ge [OF c(1) cap] c(2) wf
    show ?thesis by (auto simp: arr_wf_def elts_def)
  qed
  with e(2) show ?thesis
    by (auto simp: ARRAY_set_def arr_wf_def elts_def take_Suc_conv_app_nth)
qed

lemma arr_search_elts:
  assumes wf: "arr_wf a" and ks: "\<And>i. i \<in> set ks \<Longrightarrow> i < asize a"
  shows "arr_search a v ks = Inr (find (\<lambda>i. elts a ! i = v) ks)"
  using ks by (induction ks) (auto simp: ARRAY_get_elts [OF wf])

lemma find_upt_None: "find P [0..<n] = None \<longleftrightarrow> (\<forall>i < n. \<not> P i)"
  by (auto simp: find_None_iff)

lemma find_upt_Some: "find P [0..<n] = Some i \<longleftrightarrow> i < n \<and> P i \<and> (\<forall>j < i. \<not> P j)"
proof
  assume "find P [0..<n] = Some i"
  then show "i < n \<and> P i \<and> (\<forall>j < i. \<not> P j)" by (auto simp: find_Some_iff)
next
  assume "i < n \<and> P i \<and> (\<forall>j < i. \<not> P j)"
  then show "find P [0..<n] = Some i" by (auto simp: find_Some_iff intro!: exI [of _ i])
qed

lemma ARRAY_index_elts:
  assumes wf: "arr_wf a" and ne: "asize a > 0"
  shows "ARRAY_index a v = Inr (case find (\<lambda>i. elts a ! i = v) [0..<asize a] of Some i \<Rightarrow> int i | None \<Rightarrow> - 1)"
proof -
  have "arr_search a v [0..<asize a] = Inr (find (\<lambda>i. elts a ! i = v) [0..<asize a])"
    by (rule arr_search_elts [OF wf]) simp
  with ne show ?thesis by (simp add: ARRAY_index_def split: option.splits)
qed

lemma ARRAY_add_once_elts:
  assumes wf: "arr_wf a" and small: "asize a + 1 < 2 ^ 29"
  shows "\<exists>b. ARRAY_add_once a v = Inr b \<and> arr_wf b \<and>
     elts b = (if v \<in> set (elts a) then elts a else elts a @ [v])"
proof -
  have srch: "arr_search a v [0..<asize a] = Inr (find (\<lambda>i. elts a ! i = v) [0..<asize a])"
    by (rule arr_search_elts [OF wf]) simp
  show ?thesis
  proof (cases "v \<in> set (elts a)")
    case True
    then have "find (\<lambda>i. elts a ! i = v) [0..<asize a] \<noteq> None"
      using wf by (auto simp: find_upt_None in_set_conv_nth)
    then show ?thesis using True wf srch by (auto simp: ARRAY_add_once_def)
  next
    case False
    then have "find (\<lambda>i. elts a ! i = v) [0..<asize a] = None"
      using wf by (auto simp: find_upt_None in_set_conv_nth)
    then show ?thesis using False ARRAY_add_elts [OF wf small, of v] srch
      by (simp add: ARRAY_add_once_def)
  qed
qed

lemma ARRAY_remove_elts:
  assumes wf: "arr_wf a" and i: "i < asize a"
  shows "\<exists>b. ARRAY_remove a i = Inr b \<and> arr_wf b \<and> elts b = take i (elts a) @ drop (i + 1) (elts a)"
proof -
  let ?l = "take i (alist a) @ take (asize a - i - 1) (drop (i + 1) (alist a)) @ drop (asize a - 1) (alist a)"
  let ?b = "a\<lparr>asize := asize a - 1, alist := ?l\<rparr>"
  from wf i have len: "asize a \<le> length (alist a)" by (simp add: arr_wf_def)
  have "ARRAY_remove a i = Inr ?b" using i len by (simp add: ARRAY_remove_def)
  moreover have "arr_wf ?b" using wf i by (auto simp: arr_wf_def)
  moreover have "elts ?b = take i (elts a) @ drop (i + 1) (elts a)"
  proof -
    have "asize a - 1 - i = asize a - (i + 1)" "min (length (alist a)) i = i"
      "min (length (alist a) - (i + 1)) (asize a - (i + 1)) = asize a - (i + 1)"
      using i len by auto
    then show ?thesis using i by (simp add: elts_def drop_take)
  qed
  ultimately show ?thesis by blast
qed

lemma ARRAY_remove2_elts:
  assumes wf: "arr_wf a" and ne: "asize a > 0"
  shows "\<exists>b. ARRAY_remove2 a v = Inr b \<and> arr_wf b \<and> elts b = remove1 v (elts a)"
proof -
  have srch: "arr_search a v [0..<asize a] = Inr (find (\<lambda>i. elts a ! i = v) [0..<asize a])"
    by (rule arr_search_elts [OF wf]) simp
  show ?thesis
  proof (cases "find (\<lambda>i. elts a ! i = v) [0..<asize a]")
    case None
    then have "v \<notin> set (elts a)" using wf by (auto simp: find_upt_None in_set_conv_nth)
    then show ?thesis using None srch ne wf by (simp add: ARRAY_remove2_def remove1_idem)
  next
    case (Some i)
    then have i: "i < asize a" "elts a ! i = v" "\<forall>j < i. elts a ! j \<noteq> v"
      by (auto simp: find_upt_Some)
    then have "v \<notin> set (take i (elts a))" using wf by (auto simp: in_set_conv_nth)
    then have "remove1 v (elts a) = take i (elts a) @ drop (i + 1) (elts a)"
      using i wf by (subst id_take_nth_drop [of i "elts a"]) (auto simp: remove1_append)
    then show ?thesis using ARRAY_remove_elts [OF wf i(1)] Some srch ne
      by (simp add: ARRAY_remove2_def)
  qed
qed

lemma take_shift_right:
  assumes "i < n" "n + 1 \<le> length xs"
  shows "take (n + 1) ((take (i + 1) xs @ take (n - i) (drop i xs) @ drop (n + 1) xs)[i := v])
       = take i xs @ v # drop i (take n xs)"
proof -
  have "take (i + 1) xs = take i xs @ [xs ! i]"
    using assms by (simp add: take_Suc_conv_app_nth)
  moreover have "take (n - i) (drop i xs) = drop i (take n xs)" by (simp add: drop_take)
  moreover have "Suc n - i = Suc (n - i)" using assms by simp
  ultimately show ?thesis using assms by (simp add: list_update_append)
qed

lemma ARRAY_insert_elts:
  assumes wf: "arr_wf a" and small: "asize a + 1 < 2 ^ 29" and i: "i \<le> asize a"
  shows "\<exists>b. ARRAY_insert a (int i) v = Inr b \<and> arr_wf b \<and>
     elts b = take i (elts a) @ v # drop i (elts a)"
proof (cases "i = asize a")
  case True
  then show ?thesis using ARRAY_add_elts [OF wf small, of v] wf by (simp add: ARRAY_insert_def)
next
  case False
  from ARRAY_ensureSize_ok [OF wf small] obtain b where
    b: "ARRAY_ensureSize a 1 = Inr b" "arr_wf b" "elts b = elts a" "asize b = asize a" "asize a + 1 \<le> capacity b"
    by blast
  let ?m = "take (i + 1) (alist b) @ take (asize b - i) (drop i (alist b)) @ drop (asize b + 1) (alist b)"
  let ?c = "b\<lparr>asize := asize b + 1, alist := ?m[i := v]\<rparr>"
  have len: "length ?m = capacity b" "i < length ?m"
    using b i False by (auto simp: arr_wf_def)
  have "ARRAY_insert a (int i) v = Inr ?c"
    using b(1) len(2) False i by (simp add: ARRAY_insert_def ARRAY_set_def Let_def)
  moreover have "arr_wf ?c" using b(2,4,5) len(1) by (simp add: arr_wf_def)
  moreover have "elts ?c = take i (elts b) @ v # drop i (elts b)"
    using take_shift_right [of i "asize b" "alist b" v] b(2,4,5) i False
    by (simp add: arr_wf_def elts_def min_def)
  ultimately show ?thesis using b(3) by auto
qed

lemma ARRAY_pop_elts:
  assumes wf: "arr_wf a" and ne: "asize a > 0"
  shows "\<exists>b. ARRAY_pop a = Inr (last (elts a), b) \<and> arr_wf b \<and> elts b = butlast (elts a)"
proof -
  have "elts a \<noteq> []" using wf ne by (metis length_elts less_not_refl list.size(3))
  then have "last (elts a) = elts a ! (asize a - 1)" using wf by (simp add: last_conv_nth)
  moreover have "butlast (elts a) = take (asize a - 1) (alist a)"
    using wf by (simp add: arr_wf_def elts_def butlast_take)
  ultimately show ?thesis using wf ne
    by (auto simp: ARRAY_pop_def ARRAY_get_elts arr_wf_def elts_def)
qed

section \<open>The contract of a growable array\<close>

text \<open>
  What the clients (the byte buffer, the symbol table, the compiler's lists) rely on: adding
  below the size limit is defined and appends, reading below the size gives the element.
\<close>

locale dyn_array =
  fixes push :: "'a \<Rightarrow> 'v \<Rightarrow> 'a res"
    and read :: "'a \<Rightarrow> nat \<Rightarrow> 'v res"
    and view :: "'a \<Rightarrow> 'v list"
    and inv :: "'a \<Rightarrow> bool"
    and limit :: nat
  assumes push_ok: "inv a \<Longrightarrow> length (view a) + 1 < limit \<Longrightarrow>
        \<exists>b. push a v = Inr b \<and> inv b \<and> view b = view a @ [v]"
    and read_ok: "inv a \<Longrightarrow> i < length (view a) \<Longrightarrow> read a i = Inr (view a ! i)"
begin

lemma push_all:
  assumes "inv a" "length (view a) + length vs < limit"
  shows "\<exists>b. rfold push a vs = Inr b \<and> inv b \<and> view b = view a @ vs"
  using assms
proof (induction vs arbitrary: a)
  case Nil
  then show ?case by simp
next
  case (Cons v vs)
  from Cons.prems obtain b where b: "push a v = Inr b" "inv b" "view b = view a @ [v]"
    using push_ok [of a v] by auto
  with Cons.IH [of b] Cons.prems show ?case by auto
qed

lemma read_pushed:
  assumes "inv a" "length (view a) + length vs < limit" "rfold push a vs = Inr b" "i < length vs"
  shows "read b (length (view a) + i) = Inr (vs ! i)"
  using push_all [OF assms(1,2)] assms(3,4) read_ok [of b "length (view a) + i"] by auto

end

interpretation karr: dyn_array "ARRAY_add :: 'a::zero ARRAY \<Rightarrow> 'a \<Rightarrow> _" ARRAY_get elts arr_wf "2 ^ 29"
proof unfold_locales
  show "\<exists>b. ARRAY_add a v = Inr b \<and> arr_wf b \<and> elts b = elts a @ [v]"
    if "arr_wf a" "length (elts a) + 1 < 2 ^ 29" for a :: "'a ARRAY" and v
    using that ARRAY_add_elts [of a v] by simp
  show "ARRAY_get a i = Inr (elts a ! i)" if "arr_wf a" "i < length (elts a)" for a :: "'a ARRAY" and i
    using that by (simp add: ARRAY_get_elts)
qed

section \<open>Properties\<close>



text \<open>C26: Inserting at an index and removing that index again, or removing the inserted value when
it is new, gives back the array's elements; insertion puts the value before the element that was
at the index.\<close>

theorem array_insert_remove:
  assumes "arr_wf a" "asize a + 1 < 2 ^ 29" "i \<le> asize a"
  shows "\<exists>b. ARRAY_insert a (int i) v = Inr b \<and> elts b = take i (elts a) @ v # drop i (elts a) \<and>
     (\<exists>c. ARRAY_remove b i = Inr c \<and> elts c = elts a) \<and>
     (v \<notin> set (elts a) \<longrightarrow> (\<exists>c. ARRAY_remove2 b v = Inr c \<and> elts c = elts a))"
proof -
  obtain b where b: "ARRAY_insert a (int i) v = Inr b" "arr_wf b"
      "elts b = take i (elts a) @ v # drop i (elts a)"
    using ARRAY_insert_elts [OF assms] by blast
  have "length (elts b) = length (elts a) + 1" using b(3) assms(1,3) by simp
  then have sz: "asize b = asize a + 1" using b(2) assms(1) by simp
  then obtain c where c: "ARRAY_remove b i = Inr c" "elts c = take i (elts b) @ drop (i + 1) (elts b)"
    using ARRAY_remove_elts [OF b(2), of i] assms(3) by auto
  have "elts c = elts a" using c(2) b(3) assms(1,3) by (simp add: min_def)
  moreover obtain d where d: "ARRAY_remove2 b v = Inr d" "elts d = remove1 v (elts b)"
    using ARRAY_remove2_elts [OF b(2), of v] sz by auto
  have "elts d = elts a" if "v \<notin> set (elts a)"
  proof -
    from that have "v \<notin> set (take i (elts a))" by (meson in_set_takeD)
    then show ?thesis using d(2) b(3) by (simp add: remove1_append)
  qed
  ultimately show ?thesis using b c d by blast
qed

lemma array_insert_remove_witness:
  "\<exists>b. ARRAY_insert \<lparr>asize = 2, capacity = 2, alist = [10, 20 :: u8]\<rparr> 1 15 = Inr b \<and> elts b = [10, 15, 20] \<and>
     (\<exists>c. ARRAY_remove2 b 15 = Inr c \<and> elts c = [10, 20])"
  using array_insert_remove [of "\<lparr>asize = 2, capacity = 2, alist = [10, 20 :: u8]\<rparr>" 1 15]
  by (auto simp: arr_wf_def elts_def)

end
