(* ===== verification/Buffer.thy ===== *)
theory Buffer
  imports KArray
begin

text \<open>
  The byte buffer of \<open>src/src/core/buffer.h\<close>: a writer that appends 8, 16, 32 and 64 bit
  values to a growable byte array and a reader that consumes them. The writer stores a value
  in the byte order of the machine, the reader assembles it from bytes with a test of
  \<open>__BYTE_ORDER__\<close>; the byte order is the parameter \<open>le\<close> (true for little endian). The locale
  \<open>codec\<close> is the contract between a write and the matching read.

  \<open>pos\<close> and \<open>size\<close> are \<open>unsigned\<close>: a position below the size never wraps when it advances.
\<close>

section \<open>State and operations\<close>

record moz_buffer_t =
  bbuf :: "u8 ARRAY"
  bpos :: nat

definition moz_buffer_reader_has_next :: "moz_buffer_t \<Rightarrow> bool" where
  "moz_buffer_reader_has_next R \<longleftrightarrow> bpos R < asize (bbuf R)"

definition moz_buffer_reader_set_pos :: "moz_buffer_t \<Rightarrow> nat \<Rightarrow> moz_buffer_t" where
  "moz_buffer_reader_set_pos R pos = R\<lparr>bpos := pos\<rparr>"

definition moz_buffer_reader_read8 :: "moz_buffer_t \<Rightarrow> (u8 \<times> moz_buffer_t) res" where
  "moz_buffer_reader_read8 R =
     rbind (aread (alist (bbuf R)) (bpos R)) (\<lambda>v. Inr (v, R\<lparr>bpos := bpos R + 1\<rparr>))"

definition moz_buffer_reader_read16 :: "bool \<Rightarrow> moz_buffer_t \<Rightarrow> (u16 \<times> moz_buffer_t) res" where
  "moz_buffer_reader_read16 le R =
     rbind (moz_buffer_reader_read8 R) (\<lambda>(b1, R).
     rbind (moz_buffer_reader_read8 R) (\<lambda>(b2, R).
       let d1 = ucast b1; d2 = ucast b2
       in Inr (if le then push_bit 8 d2 OR d1 else push_bit 8 d1 OR d2, R)))"

definition moz_buffer_reader_read32 :: "bool \<Rightarrow> moz_buffer_t \<Rightarrow> (u32 \<times> moz_buffer_t) res" where
  "moz_buffer_reader_read32 le R =
     rbind (moz_buffer_reader_read16 le R) (\<lambda>(b1, R).
     rbind (moz_buffer_reader_read16 le R) (\<lambda>(b2, R).
       let d1 = ucast b1; d2 = ucast b2
       in Inr (if le then push_bit 16 d2 OR d1 else push_bit 16 d1 OR d2, R)))"

definition moz_buffer_reader_read64 :: "bool \<Rightarrow> moz_buffer_t \<Rightarrow> (u64 \<times> moz_buffer_t) res" where
  "moz_buffer_reader_read64 le R =
     rbind (moz_buffer_reader_read32 le R) (\<lambda>(b1, R).
     rbind (moz_buffer_reader_read32 le R) (\<lambda>(b2, R).
       let d1 = ucast b1; d2 = ucast b2
       in Inr (if le then push_bit 32 d2 OR d1 else push_bit 32 d1 OR d2, R)))"

text \<open>The reader's capacity is set to \<open>-1\<close>: \<open>UINT_MAX\<close>.\<close>

definition moz_buffer_reader_init :: "u8 list \<Rightarrow> nat \<Rightarrow> moz_buffer_t" where
  "moz_buffer_reader_init buf sz = \<lparr>bbuf = \<lparr>asize = sz, capacity = 2 ^ 32 - 1, alist = buf\<rparr>, bpos = 0\<rparr>"

definition moz_buffer_reader_init_from_writer :: "moz_buffer_t \<Rightarrow> moz_buffer_t" where
  "moz_buffer_reader_init_from_writer W = \<lparr>bbuf = bbuf W, bpos = 0\<rparr>"

definition moz_buffer_writer_init :: "u8 list \<Rightarrow> moz_buffer_t" where
  "moz_buffer_writer_init block = \<lparr>bbuf = ARRAY_init block, bpos = 0\<rparr>"

definition moz_buffer_writer_length :: "moz_buffer_t \<Rightarrow> nat" where
  "moz_buffer_writer_length W = asize (bbuf W)"

definition moz_buffer_writer_dispose :: "moz_buffer_t \<Rightarrow> moz_buffer_t" where
  "moz_buffer_writer_dispose W = W\<lparr>bbuf := ARRAY_dispose (bbuf W), bpos := 0\<rparr>"

definition moz_buffer_writer_write8 :: "moz_buffer_t \<Rightarrow> u8 \<Rightarrow> moz_buffer_t res" where
  "moz_buffer_writer_write8 W v = rbind (ARRAY_add (bbuf W) v) (\<lambda>a. Inr (W\<lparr>bbuf := a\<rparr>))"

text \<open>The bytes of a value in memory, lowest address first.\<close>

definition native :: "bool \<Rightarrow> u8 list \<Rightarrow> u8 list" where
  "native le bs = (if le then bs else rev bs)"

definition bytes16 :: "u16 \<Rightarrow> u8 list" where
  "bytes16 v = [ucast v, ucast (drop_bit 8 v)]"

definition bytes32 :: "u32 \<Rightarrow> u8 list" where
  "bytes32 v = [ucast v, ucast (drop_bit 8 v), ucast (drop_bit 16 v), ucast (drop_bit 24 v)]"

definition bytes64 :: "u64 \<Rightarrow> u8 list" where
  "bytes64 v = bytes32 (ucast v) @ bytes32 (ucast (drop_bit 32 v))"

text \<open>Reserve \<open>n\<close> bytes, store the value behind the last element, add \<open>n\<close> to the size.\<close>

definition writer_store :: "moz_buffer_t \<Rightarrow> u8 list \<Rightarrow> moz_buffer_t res" where
  "writer_store W bs =
     rbind (ARRAY_ensureSize (bbuf W) (length bs)) (\<lambda>a.
     rbind (rguard OutOfBounds (asize a + length bs \<le> length (alist a))) (\<lambda>_.
       Inr (W\<lparr>bbuf := a\<lparr>asize := asize a + length bs,
              alist := take (asize a) (alist a) @ bs @ drop (asize a + length bs) (alist a)\<rparr>\<rparr>)))"

definition moz_buffer_writer_write16 :: "bool \<Rightarrow> moz_buffer_t \<Rightarrow> u16 \<Rightarrow> moz_buffer_t res" where
  "moz_buffer_writer_write16 le W v = writer_store W (native le (bytes16 v))"

definition moz_buffer_writer_write32 :: "bool \<Rightarrow> moz_buffer_t \<Rightarrow> u32 \<Rightarrow> moz_buffer_t res" where
  "moz_buffer_writer_write32 le W v = writer_store W (native le (bytes32 v))"

definition moz_buffer_writer_write64 :: "bool \<Rightarrow> moz_buffer_t \<Rightarrow> u64 \<Rightarrow> moz_buffer_t res" where
  "moz_buffer_writer_write64 le W v = writer_store W (native le (bytes64 v))"

section \<open>The written bytes and the bytes still to be read\<close>

definition written :: "moz_buffer_t \<Rightarrow> u8 list" where
  "written W = elts (bbuf W)"

definition unread :: "moz_buffer_t \<Rightarrow> u8 list" where
  "unread R = drop (bpos R) (elts (bbuf R))"

definition buf_wf :: "moz_buffer_t \<Rightarrow> bool" where
  "buf_wf W \<longleftrightarrow> arr_wf (bbuf W)"

definition reader_wf :: "moz_buffer_t \<Rightarrow> bool" where
  "reader_wf R \<longleftrightarrow> asize (bbuf R) \<le> length (alist (bbuf R))"

lemma buf_reader_wf: "buf_wf W \<Longrightarrow> reader_wf W"
  by (simp add: buf_wf_def reader_wf_def arr_wf_def)

lemma length_written [simp]: "buf_wf W \<Longrightarrow> length (written W) = asize (bbuf W)"
  by (simp add: buf_wf_def written_def)

lemma unread_from_writer [simp]: "unread (moz_buffer_reader_init_from_writer W) = written W"
  by (simp add: unread_def written_def moz_buffer_reader_init_from_writer_def)

lemma has_next_unread: "reader_wf R \<Longrightarrow> moz_buffer_reader_has_next R \<longleftrightarrow> unread R \<noteq> []"
  by (auto simp: moz_buffer_reader_has_next_def unread_def reader_wf_def elts_def)

text \<open>\<open>reads rd bs v\<close>: on unread bytes that start with \<open>bs\<close>, \<open>rd\<close> consumes them and answers \<open>v\<close>.\<close>

definition reads :: "(moz_buffer_t \<Rightarrow> ('v \<times> moz_buffer_t) res) \<Rightarrow> u8 list \<Rightarrow> 'v \<Rightarrow> bool" where
  "reads rd bs v \<longleftrightarrow> (\<forall>R rest. reader_wf R \<longrightarrow> unread R = bs @ rest \<longrightarrow>
     (\<exists>R'. rd R = Inr (v, R') \<and> reader_wf R' \<and> unread R' = rest))"

lemma reads_elim:
  assumes "reads rd bs v" "reader_wf R" "unread R = bs @ rest"
  obtains R' where "rd R = Inr (v, R')" "reader_wf R'" "unread R' = rest"
  using assms unfolding reads_def by blast

lemma reads_read8: "reads moz_buffer_reader_read8 [b] b"
  unfolding reads_def
proof (intro allI impI)
  fix R rest
  assume wf: "reader_wf R" and u: "unread R = [b] @ rest"
  then have lt: "bpos R < asize (bbuf R)" "asize (bbuf R) \<le> length (alist (bbuf R))"
    by (auto simp: unread_def reader_wf_def elts_def drop_take) (metis diff_is_0_eq' leI list.distinct(1) take_0)
  have "b = elts (bbuf R) ! bpos R" "rest = drop (Suc (bpos R)) (elts (bbuf R))"
    using u lt Cons_nth_drop_Suc [of "bpos R" "elts (bbuf R)"]
    by (auto simp: unread_def elts_def)
  with lt wf show "\<exists>R'. moz_buffer_reader_read8 R = Inr (b, R') \<and> reader_wf R' \<and> unread R' = rest"
    by (simp add: moz_buffer_reader_read8_def elts_def unread_def reader_wf_def)
qed

text \<open>Two reads in a row, and a function of the two results.\<close>

lemma reads_pair:
  assumes "reads rd bs v" "reads rd cs w"
  shows "reads (\<lambda>R. rbind (rd R) (\<lambda>(x, R). rbind (rd R) (\<lambda>(y, R). Inr (f x y, R)))) (bs @ cs) (f v w)"
  unfolding reads_def
proof (intro allI impI)
  fix R rest
  assume wf: "reader_wf R" and u: "unread R = (bs @ cs) @ rest"
  from u have "unread R = bs @ (cs @ rest)" by simp
  with assms(1) wf obtain S where S: "rd R = Inr (v, S)" "reader_wf S" "unread S = cs @ rest"
    by (rule reads_elim)
  with assms(2) obtain T where "rd S = Inr (w, T)" "reader_wf T" "unread T = rest"
    by (metis reads_elim)
  with S show "\<exists>R'. rbind (rd R) (\<lambda>(x, R). rbind (rd R) (\<lambda>(y, R). Inr (f x y, R))) = Inr (f v w, R') \<and>
      reader_wf R' \<and> unread R' = rest" by simp
qed

text \<open>A value is the join of its low and high halves.\<close>

lemma join_halves:
  "push_bit 8 (ucast (ucast (drop_bit 8 v) :: u8)) OR ucast (ucast v :: u8) = (v :: u16)"
  "push_bit 16 (ucast (ucast (drop_bit 16 w) :: u16)) OR ucast (ucast w :: u16) = (w :: u32)"
  "push_bit 32 (ucast (ucast (drop_bit 32 x) :: u32)) OR ucast (ucast x :: u32) = (x :: u64)"
  by (rule bit_word_eqI; auto simp: bit_simps)+

lemma bytes32_halves: "bytes32 v = bytes16 (ucast v) @ bytes16 (ucast (drop_bit 16 v))"
proof -
  have "ucast (drop_bit 8 (ucast v :: u16)) = (ucast (drop_bit 8 v) :: u8)"
    "ucast (drop_bit 8 (ucast (drop_bit 16 v) :: u16)) = (ucast (drop_bit 24 v) :: u8)"
    "ucast (ucast v :: u16) = (ucast v :: u8)"
    "ucast (ucast (drop_bit 16 v) :: u16) = (ucast (drop_bit 16 v) :: u8)"
    by (rule bit_word_eqI; auto simp: bit_simps add.commute)+
  then show ?thesis by (simp add: bytes32_def bytes16_def)
qed

lemma reads_read16: "reads (moz_buffer_reader_read16 le) (native le (bytes16 v)) v"
proof -
  let ?lo = "ucast v :: u8" and ?hi = "ucast (drop_bit 8 v) :: u8"
  let ?join = "\<lambda>b1 b2 :: u8. if le then push_bit 8 (ucast b2) OR ucast b1
     else push_bit 8 (ucast b1) OR (ucast b2 :: u16)"
  have eq: "moz_buffer_reader_read16 le =
      (\<lambda>R. rbind (moz_buffer_reader_read8 R) (\<lambda>(b1, R).
           rbind (moz_buffer_reader_read8 R) (\<lambda>(b2, R). Inr (?join b1 b2, R))))"
    by (simp add: moz_buffer_reader_read16_def fun_eq_iff Let_def)
  show ?thesis
  proof (cases le)
    case True
    then show ?thesis
      using reads_pair [OF reads_read8 reads_read8, where v = ?lo and w = ?hi and f = ?join]
      unfolding eq by (simp add: native_def bytes16_def join_halves)
  next
    case False
    then show ?thesis
      using reads_pair [OF reads_read8 reads_read8, where v = ?hi and w = ?lo and f = ?join]
      unfolding eq by (simp add: native_def bytes16_def join_halves)
  qed
qed

lemma reads_read32: "reads (moz_buffer_reader_read32 le) (native le (bytes32 v)) v"
proof -
  let ?lo = "ucast v :: u16" and ?hi = "ucast (drop_bit 16 v) :: u16"
  let ?join = "\<lambda>b1 b2 :: u16. if le then push_bit 16 (ucast b2) OR ucast b1
     else push_bit 16 (ucast b1) OR (ucast b2 :: u32)"
  have eq: "moz_buffer_reader_read32 le =
      (\<lambda>R. rbind (moz_buffer_reader_read16 le R) (\<lambda>(b1, R).
           rbind (moz_buffer_reader_read16 le R) (\<lambda>(b2, R). Inr (?join b1 b2, R))))"
    by (simp add: moz_buffer_reader_read32_def fun_eq_iff Let_def)
  show ?thesis
  proof (cases le)
    case True
    then show ?thesis
      using reads_pair [OF reads_read16 [of le ?lo] reads_read16 [of le ?hi], of ?join]
      unfolding eq by (simp add: native_def bytes32_halves join_halves)
  next
    case False
    then show ?thesis
      using reads_pair [OF reads_read16 [of le ?hi] reads_read16 [of le ?lo], of ?join]
      unfolding eq by (simp add: native_def bytes32_halves join_halves)
  qed
qed

lemma reads_read64: "reads (moz_buffer_reader_read64 le) (native le (bytes64 v)) v"
proof -
  let ?lo = "ucast v :: u32" and ?hi = "ucast (drop_bit 32 v) :: u32"
  let ?join = "\<lambda>b1 b2 :: u32. if le then push_bit 32 (ucast b2) OR ucast b1
     else push_bit 32 (ucast b1) OR (ucast b2 :: u64)"
  have eq: "moz_buffer_reader_read64 le =
      (\<lambda>R. rbind (moz_buffer_reader_read32 le R) (\<lambda>(b1, R).
           rbind (moz_buffer_reader_read32 le R) (\<lambda>(b2, R). Inr (?join b1 b2, R))))"
    by (simp add: moz_buffer_reader_read64_def fun_eq_iff Let_def)
  show ?thesis
  proof (cases le)
    case True
    then show ?thesis
      using reads_pair [OF reads_read32 [of le ?lo] reads_read32 [of le ?hi], of ?join]
      unfolding eq by (simp add: native_def bytes64_def join_halves)
  next
    case False
    then show ?thesis
      using reads_pair [OF reads_read32 [of le ?hi] reads_read32 [of le ?lo], of ?join]
      unfolding eq by (simp add: native_def bytes64_def join_halves)
  qed
qed

section \<open>Writes append\<close>

lemma write8_ok:
  assumes "buf_wf W" "length (written W) + 1 < 2 ^ 29"
  shows "\<exists>V. moz_buffer_writer_write8 W v = Inr V \<and> buf_wf V \<and> written V = written W @ [v]"
  using ARRAY_add_elts [of "bbuf W" v] assms
  by (auto simp: moz_buffer_writer_write8_def buf_wf_def written_def)

lemma writer_store_ok:
  assumes wf: "buf_wf W" and small: "length (written W) + length bs < 2 ^ 29"
  shows "\<exists>V. writer_store W bs = Inr V \<and> buf_wf V \<and> written V = written W @ bs"
proof -
  have a: "arr_wf (bbuf W)" "asize (bbuf W) + length bs < 2 ^ 29"
    using wf small by (simp_all add: buf_wf_def written_def)
  from ARRAY_ensureSize_ok [OF this] obtain b where
    b: "ARRAY_ensureSize (bbuf W) (length bs) = Inr b" "arr_wf b" "elts b = elts (bbuf W)"
      "asize b = asize (bbuf W)" "asize (bbuf W) + length bs \<le> capacity b"
    by blast
  with a(1) show ?thesis
    by (simp add: writer_store_def buf_wf_def arr_wf_def written_def elts_def)
qed

section \<open>The contract of a write and its read\<close>

text \<open>
  \<open>wr\<close> appends the encoding of a value to what is written, \<open>rd\<close> takes it off what is unread.
  A sequence of values then comes back in order.
\<close>

locale codec =
  fixes enc :: "'v \<Rightarrow> u8 list"
    and wr :: "moz_buffer_t \<Rightarrow> 'v \<Rightarrow> moz_buffer_t res"
    and rd :: "moz_buffer_t \<Rightarrow> ('v \<times> moz_buffer_t) res"
  assumes wr_ok: "buf_wf W \<Longrightarrow> length (written W) + length (enc v) < 2 ^ 29 \<Longrightarrow>
      \<exists>V. wr W v = Inr V \<and> buf_wf V \<and> written V = written W @ enc v"
    and rd_ok: "reads rd (enc v) v"
begin

lemma write_all:
  assumes "buf_wf W" "length (written W) + length (concat (map enc vs)) < 2 ^ 29"
  shows "\<exists>V. rfold wr W vs = Inr V \<and> buf_wf V \<and> written V = written W @ concat (map enc vs)"
  using assms
proof (induction vs arbitrary: W)
  case (Cons v vs)
  from Cons.prems obtain V where V: "wr W v = Inr V" "buf_wf V" "written V = written W @ enc v"
    using wr_ok [of W v] by auto
  have "length (written V) + length (concat (map enc vs)) < 2 ^ 29"
    unfolding V(3) using Cons.prems(2) by simp
  from Cons.IH [OF V(2) this] V show ?case by auto
qed simp

lemma write_read:
  assumes "buf_wf W" "length (written W) + length (enc v) < 2 ^ 29" "wr W v = Inr V"
    and "reader_wf R" "unread R = drop (length (written W)) (written V) @ rest"
  shows "\<exists>R'. rd R = Inr (v, R') \<and> unread R' = rest"
proof -
  from wr_ok [OF assms(1,2)] assms(3) have "written V = written W @ enc v" by auto
  with assms(5) have "unread R = enc v @ rest" by simp
  with rd_ok assms(4) show ?thesis by (metis reads_elim)
qed

end

interpretation w8: codec "\<lambda>v. [v]" moz_buffer_writer_write8 moz_buffer_reader_read8
  by unfold_locales (auto intro: write8_ok reads_read8)

interpretation w16: codec "\<lambda>v. native le (bytes16 v)" "moz_buffer_writer_write16 le" "moz_buffer_reader_read16 le"
  for le
  by unfold_locales (auto intro: writer_store_ok reads_read16 simp: moz_buffer_writer_write16_def)

interpretation w32: codec "\<lambda>v. native le (bytes32 v)" "moz_buffer_writer_write32 le" "moz_buffer_reader_read32 le"
  for le
  by unfold_locales (auto intro: writer_store_ok reads_read32 simp: moz_buffer_writer_write32_def)

interpretation w64: codec "\<lambda>v. native le (bytes64 v)" "moz_buffer_writer_write64 le" "moz_buffer_reader_read64 le"
  for le
  by unfold_locales (auto intro: writer_store_ok reads_read64 simp: moz_buffer_writer_write64_def)

section \<open>Properties\<close>

text \<open>Values of any of the four widths, written and read in turn.\<close>

datatype item = I8 u8 | I16 u16 | I32 u32 | I64 u64

fun write_item :: "bool \<Rightarrow> moz_buffer_t \<Rightarrow> item \<Rightarrow> moz_buffer_t res" where
  "write_item le W (I8 v) = moz_buffer_writer_write8 W v"
| "write_item le W (I16 v) = moz_buffer_writer_write16 le W v"
| "write_item le W (I32 v) = moz_buffer_writer_write32 le W v"
| "write_item le W (I64 v) = moz_buffer_writer_write64 le W v"

text \<open>Read an item of the same width as the pattern item.\<close>

fun read_item :: "bool \<Rightarrow> item \<Rightarrow> moz_buffer_t \<Rightarrow> (item \<times> moz_buffer_t) res" where
  "read_item le (I8 _) R = rbind (moz_buffer_reader_read8 R) (\<lambda>(v, R). Inr (I8 v, R))"
| "read_item le (I16 _) R = rbind (moz_buffer_reader_read16 le R) (\<lambda>(v, R). Inr (I16 v, R))"
| "read_item le (I32 _) R = rbind (moz_buffer_reader_read32 le R) (\<lambda>(v, R). Inr (I32 v, R))"
| "read_item le (I64 _) R = rbind (moz_buffer_reader_read64 le R) (\<lambda>(v, R). Inr (I64 v, R))"

fun read_items :: "bool \<Rightarrow> item list \<Rightarrow> moz_buffer_t \<Rightarrow> (item list \<times> moz_buffer_t) res" where
  "read_items le [] R = Inr ([], R)"
| "read_items le (x # xs) R = rbind (read_item le x R) (\<lambda>(y, R).
     rbind (read_items le xs R) (\<lambda>(ys, R). Inr (y # ys, R)))"

fun item_bytes :: "bool \<Rightarrow> item \<Rightarrow> u8 list" where
  "item_bytes le (I8 v) = [v]"
| "item_bytes le (I16 v) = native le (bytes16 v)"
| "item_bytes le (I32 v) = native le (bytes32 v)"
| "item_bytes le (I64 v) = native le (bytes64 v)"

lemma length_item_bytes: "length (item_bytes le x) \<le> 8"
  by (cases x) (simp_all add: native_def bytes16_def bytes32_def bytes64_def)

lemma reads_wrap:
  assumes "reads rd bs v" "\<And>R. rd' R = rbind (rd R) (\<lambda>(v, R). Inr (C v, R))"
  shows "reads rd' bs (C v)"
  using assms(1) unfolding reads_def assms(2) by fastforce

lemma read_item_fun:
  "read_item le (I8 v) = (\<lambda>R. rbind (moz_buffer_reader_read8 R) (\<lambda>(v, R). Inr (I8 v, R)))"
  "read_item le (I16 w) = (\<lambda>R. rbind (moz_buffer_reader_read16 le R) (\<lambda>(v, R). Inr (I16 v, R)))"
  "read_item le (I32 x) = (\<lambda>R. rbind (moz_buffer_reader_read32 le R) (\<lambda>(v, R). Inr (I32 v, R)))"
  "read_item le (I64 y) = (\<lambda>R. rbind (moz_buffer_reader_read64 le R) (\<lambda>(v, R). Inr (I64 v, R)))"
  by (simp_all add: fun_eq_iff)

lemma reads_item: "reads (read_item le x) (item_bytes le x) x"
proof (cases x)
  case (I8 v)
  then show ?thesis using reads_wrap [OF w8.rd_ok refl] by (simp add: read_item_fun)
next
  case (I16 v)
  then show ?thesis using reads_wrap [OF w16.rd_ok refl] by (simp add: read_item_fun)
next
  case (I32 v)
  then show ?thesis using reads_wrap [OF w32.rd_ok refl] by (simp add: read_item_fun)
next
  case (I64 v)
  then show ?thesis using reads_wrap [OF w64.rd_ok refl] by (simp add: read_item_fun)
qed

lemma write_item_ok:
  assumes "buf_wf W" "length (written W) + length (item_bytes le x) < 2 ^ 29"
  shows "\<exists>V. write_item le W x = Inr V \<and> buf_wf V \<and> written V = written W @ item_bytes le x"
  using assms w8.wr_ok w16.wr_ok w32.wr_ok w64.wr_ok by (cases x) auto

lemma write_items_ok:
  assumes "buf_wf W" "length (written W) + length (concat (map (item_bytes le) xs)) < 2 ^ 29"
  shows "\<exists>V. rfold (write_item le) W xs = Inr V \<and> buf_wf V \<and>
     written V = written W @ concat (map (item_bytes le) xs)"
  using assms
proof (induction xs arbitrary: W)
  case (Cons x xs)
  from Cons.prems obtain V where V: "write_item le W x = Inr V" "buf_wf V"
      "written V = written W @ item_bytes le x"
    using write_item_ok [of W le x] by auto
  have "length (written V) + length (concat (map (item_bytes le) xs)) < 2 ^ 29"
    unfolding V(3) using Cons.prems(2) by simp
  from Cons.IH [OF V(2) this] V show ?case by auto
qed simp

lemma read_items_ok:
  assumes "reader_wf R" "unread R = concat (map (item_bytes le) xs) @ rest"
  shows "\<exists>R'. read_items le xs R = Inr (xs, R') \<and> reader_wf R' \<and> unread R' = rest"
  using assms
proof (induction xs arbitrary: R)
  case (Cons x xs)
  from Cons.prems(2) have "unread R = item_bytes le x @ (concat (map (item_bytes le) xs) @ rest)" by simp
  with reads_item Cons.prems(1) obtain S where
    S: "read_item le x R = Inr (x, S)" "reader_wf S" "unread S = concat (map (item_bytes le) xs) @ rest"
    by (rule reads_elim)
  with Cons.IH [OF S(2,3)] show ?case by auto
qed simp

lemma length_items: "length (concat (map (item_bytes le) xs)) \<le> 8 * length xs"
proof (induction xs)
  case (Cons x xs)
  then show ?case using length_item_bytes [of le x] by simp
qed simp

text \<open>C30: Whatever the byte order of the machine, a reader opened on a writer's buffer gives back
every 8, 16, 32 and 64 bit value the writer appended, in order, and then has nothing left: the
writer's native stores and the reader's assembly of bytes are inverse.\<close>

theorem buffer_roundtrip:
  assumes "length block < 2 ^ 31" "8 * length xs < 2 ^ 29"
  shows "\<exists>W R. rfold (write_item le) (moz_buffer_writer_init block) xs = Inr W \<and>
     read_items le xs (moz_buffer_reader_init_from_writer W) = Inr (xs, R) \<and>
     \<not> moz_buffer_reader_has_next R"
proof -
  let ?W = "moz_buffer_writer_init block"
  have W: "buf_wf ?W" "written ?W = []"
    using ARRAY_init_elts [OF assms(1)] by (simp_all add: buf_wf_def written_def moz_buffer_writer_init_def)
  then obtain V where V: "rfold (write_item le) ?W xs = Inr V" "buf_wf V"
      "written V = concat (map (item_bytes le) xs)"
    using write_items_ok [OF W(1), of le xs] length_items [of le xs] assms(2) by auto
  let ?R = "moz_buffer_reader_init_from_writer V"
  have "reader_wf ?R"
    using buf_reader_wf [OF V(2)] by (simp add: reader_wf_def moz_buffer_reader_init_from_writer_def)
  then obtain R where "read_items le xs ?R = Inr (xs, R)" "reader_wf R" "unread R = []"
    using read_items_ok [of ?R le xs "[]"] V(3) by auto
  with V(1) show ?thesis using has_next_unread by blast
qed

lemma buffer_roundtrip_witness:
  "\<exists>W R. rfold (write_item False) (moz_buffer_writer_init [7]) [I16 0x1234, I8 9, I64 0x0102030405060708] = Inr W \<and>
     read_items False [I16 0x1234, I8 9, I64 0x0102030405060708] (moz_buffer_reader_init_from_writer W) =
       Inr ([I16 0x1234, I8 9, I64 0x0102030405060708], R) \<and> \<not> moz_buffer_reader_has_next R"
  using buffer_roundtrip [of "[7]" "[I16 0x1234, I8 9, I64 0x0102030405060708]" False] by simp

end
