(* ===== verification/Memory.thy ===== *)
theory Memory
  imports Moz_Prelude
begin

text \<open>
  The flat memory that holds the input text and the strings of a loaded byte code, the
  length-prefixed strings of \<open>src/src/core/pstring.h\<close>, the tokens of \<open>src/src/libnez/token.h\<close>
  and the FNV-1a hash of \<open>src/src/libnez/khash.h\<close>.

  An address is a natural number, NULL is 0 and nothing is stored there. Memory has no block
  boundaries: what is checked is that a read is not at NULL and not behind the last byte. The
  build is the portable one (no SSE4.2), on a little-endian machine whose \<open>char\<close> is signed.
\<close>

section \<open>Reading memory\<close>

type_synonym addr = nat
type_synonym mem = "u8 list"

definition mread :: "mem \<Rightarrow> addr \<Rightarrow> u8 res" where
  "mread m p = (if p = 0 then Inl NullDeref else aread m p)"

definition valid :: "mem \<Rightarrow> addr \<Rightarrow> nat \<Rightarrow> bool" where
  "valid m p n \<longleftrightarrow> 0 < p \<and> p + n \<le> length m"

definition bytes :: "mem \<Rightarrow> addr \<Rightarrow> nat \<Rightarrow> u8 list" where
  "bytes m p n = take n (drop p m)"

lemma mread_ok: "0 < p \<Longrightarrow> p < length m \<Longrightarrow> mread m p = Inr (m ! p)"
  by (simp add: mread_def)

lemma mread_valid [simp]: "valid m p n \<Longrightarrow> 0 < n \<Longrightarrow> mread m p = Inr (m ! p)"
  by (simp add: valid_def mread_ok)

lemma valid_Suc: "valid m p (Suc n) \<Longrightarrow> valid m (Suc p) n"
  by (simp add: valid_def)

lemma length_bytes [simp]: "valid m p n \<Longrightarrow> length (bytes m p n) = n"
  by (auto simp: valid_def bytes_def)

lemma bytes_0 [simp]: "bytes m p 0 = []"
  by (simp add: bytes_def)

lemma bytes_Suc: "valid m p (Suc n) \<Longrightarrow> bytes m p (Suc n) = m ! p # bytes m (Suc p) n"
  by (simp add: valid_def bytes_def Cons_nth_drop_Suc [symmetric])

lemma bytes_add: "bytes m p (a + b) = bytes m p a @ bytes m (p + a) b"
  by (simp add: bytes_def take_add add.commute)

lemma valid_split: "valid m p (a + b) \<Longrightarrow> valid m p a \<and> valid m (p + a) b"
  by (simp add: valid_def)

section \<open>Byte-wise comparison loops\<close>

text \<open>
  \<open>while (s1 < e1) { if ( *s1++ != *s2++) return 0; } return 1;\<close> for \<open>n\<close> bytes: the loop of
  \<open>pstring_starts_with_simple\<close>, \<open>token_equal\<close> and \<open>token_equal_string\<close>.
\<close>

fun cmp_bytes :: "mem \<Rightarrow> addr \<Rightarrow> addr \<Rightarrow> nat \<Rightarrow> bool res" where
  "cmp_bytes m p q 0 = Inr True"
| "cmp_bytes m p q (Suc n) =
     rbind (mread m p) (\<lambda>a. rbind (mread m q) (\<lambda>b.
       if a \<noteq> b then Inr False else cmp_bytes m (Suc p) (Suc q) n))"

lemma cmp_bytes_ok:
  "valid m p n \<Longrightarrow> valid m q n \<Longrightarrow> cmp_bytes m p q n = Inr (bytes m p n = bytes m q n)"
  by (induction n arbitrary: p q) (simp_all add: bytes_Suc valid_Suc)

text \<open>The comparison only needs as much of the subject as matches.\<close>

lemma cmp_bytes_True:
  "cmp_bytes m p q n = Inr True \<Longrightarrow> bytes m p n = bytes m q n"
proof (induction n arbitrary: p q)
  case (Suc n)
  then have r: "0 < p" "p < length m" "0 < q" "q < length m" "m ! p = m ! q"
      "cmp_bytes m (Suc p) (Suc q) n = Inr True"
    by (auto simp: rbind_eq_Inr mread_def aread_def split: if_splits)
  with Suc.IH have "bytes m (Suc p) n = bytes m (Suc q) n" by blast
  with r(2,4,5) show ?case by (simp add: bytes_def Cons_nth_drop_Suc [symmetric])
qed simp

section \<open>Length-prefixed strings\<close>

text \<open>
  \<open>pstring_t\<close> is a 4-byte length and the characters; a string is passed as the address of its
  first character, and \<open>pstring_get_raw\<close> goes back to the header.
\<close>

definition load32 :: "mem \<Rightarrow> addr \<Rightarrow> u32 res" where
  "load32 m p =
     rbind (mread m p) (\<lambda>b0. rbind (mread m (p + 1)) (\<lambda>b1.
     rbind (mread m (p + 2)) (\<lambda>b2. rbind (mread m (p + 3)) (\<lambda>b3.
       Inr (ucast b0 OR push_bit 8 (ucast b1) OR push_bit 16 (ucast b2) OR push_bit 24 (ucast b3))))))"

definition store32 :: "u32 \<Rightarrow> u8 list" where
  "store32 v = [ucast v, ucast (drop_bit 8 v), ucast (drop_bit 16 v), ucast (drop_bit 24 v)]"

definition pstring_get_raw :: "addr \<Rightarrow> addr res" where
  "pstring_get_raw s = (if 4 < s then Inr (s - 4) else Inl NullDeref)"

definition pstring_length :: "mem \<Rightarrow> addr \<Rightarrow> u32 res" where
  "pstring_length m s = rbind (pstring_get_raw s) (load32 m)"

text \<open>
  \<open>block\<close> is what \<open>malloc(sizeof(pstring_t) + len + 1)\<close> returned, \<open>sizeof(pstring_t)\<close> being 8;
  the model puts new blocks behind the memory in use.
\<close>

definition pstring_alloc :: "mem \<Rightarrow> u8 list \<Rightarrow> u8 list \<Rightarrow> (addr \<times> mem) res" where
  "pstring_alloc m block t =
     rbind (rguard OutOfBounds (length block = 8 + length t + 1)) (\<lambda>_.
       Inr (length m + 4,
            m @ store32 (of_nat (length t)) @ t @ 0 # drop (4 + length t + 1) block))"

definition pstring_alloc2 :: "mem \<Rightarrow> u8 list \<Rightarrow> nat \<Rightarrow> (addr \<times> mem) res" where
  "pstring_alloc2 m block len =
     rbind (rguard OutOfBounds (length block = 8 + len + 1)) (\<lambda>_.
       Inr (length m + 4, m @ store32 (of_nat len) @ drop 4 block))"

text \<open>\<open>strncmp(p, q, n) == 0\<close>: stops at a common NUL.\<close>

fun strncmp_eq :: "mem \<Rightarrow> addr \<Rightarrow> addr \<Rightarrow> nat \<Rightarrow> bool res" where
  "strncmp_eq m p q 0 = Inr True"
| "strncmp_eq m p q (Suc n) =
     rbind (mread m p) (\<lambda>a. rbind (mread m q) (\<lambda>b.
       if a \<noteq> b then Inr False
       else if a = 0 then Inr True
       else strncmp_eq m (Suc p) (Suc q) n))"

definition pstring_equal :: "mem \<Rightarrow> addr \<Rightarrow> addr \<Rightarrow> bool res" where
  "pstring_equal m p1 p2 =
     rbind (pstring_length m p1) (\<lambda>l1. rbind (pstring_length m p2) (\<lambda>l2.
       if l1 \<noteq> l2 then Inr False else strncmp_eq m p1 p2 (unat l1)))"

definition pstring_starts_with :: "mem \<Rightarrow> addr \<Rightarrow> addr \<Rightarrow> nat \<Rightarrow> bool res" where
  "pstring_starts_with m str text len = cmp_bytes m str text len"

text \<open>
  \<open>while ( *str == c) str++;\<close> with \<open>str\<close> a \<open>const char *\<close> and \<open>c\<close> an \<open>uint8_t\<close>: both sides are
  promoted to \<open>int\<close>, the left one from a signed type.
\<close>

function pstring_find_not_char :: "mem \<Rightarrow> addr \<Rightarrow> u8 \<Rightarrow> addr res" where
  "pstring_find_not_char m p c =
     rbind (mread m p) (\<lambda>x. if sint x = uint c then pstring_find_not_char m (Suc p) c else Inr p)"
  by pat_completeness auto

termination
  by (relation "measure (\<lambda>(m, p, c). length m - p)")
    (auto simp: mread_def aread_def split: if_splits)

declare pstring_find_not_char.simps [simp del]

lemma join_bytes32:
  "ucast (ucast v :: u8) OR push_bit 8 (ucast (ucast (drop_bit 8 v) :: u8)) OR
   push_bit 16 (ucast (ucast (drop_bit 16 v) :: u8)) OR
   push_bit 24 (ucast (ucast (drop_bit 24 v) :: u8)) = (v :: u32)" (is "?w = v")
proof (rule bit_word_eqI)
  fix n assume "n < LENGTH(32)"
  then show "bit ?w n = bit v n" by (cases "n < 24"; cases "n < 16") (auto simp: bit_simps)
qed

lemma load_store32:
  assumes "valid m p 4" "bytes m p 4 = store32 v"
  shows "load32 m p = Inr v"
proof -
  have r: "mread m (p + k) = Inr (store32 v ! k)" if "k < 4" for k
  proof -
    from assms(1) that have "m ! (p + k) = bytes m p 4 ! k" "p + k < length m" "0 < p + k"
      by (auto simp: bytes_def valid_def)
    with assms(2) show ?thesis by (simp add: mread_def)
  qed
  show ?thesis using r [of 0] r [of 1] r [of 2] r [of 3]
    join_bytes32 [of v]
    by (simp add: load32_def store32_def numeral_3_eq_3 numeral_2_eq_2)
qed

text \<open>A string \<open>t\<close> stored at \<open>s\<close>: its header and its characters.\<close>

definition pstring_at :: "mem \<Rightarrow> addr \<Rightarrow> u8 list \<Rightarrow> bool" where
  "pstring_at m s t \<longleftrightarrow> 4 < s \<and> valid m s (length t) \<and> length t < 2 ^ 32 \<and>
     bytes m (s - 4) 4 = store32 (of_nat (length t)) \<and> bytes m s (length t) = t"

lemma pstring_length_ok:
  assumes "pstring_at m s t"
  shows "pstring_length m s = Inr (of_nat (length t))"
proof -
  have "valid m (s - 4) 4" using assms by (simp add: pstring_at_def valid_def)
  with assms load_store32 show ?thesis
    by (simp add: pstring_at_def pstring_length_def pstring_get_raw_def)
qed

lemma pstring_alloc_ok:
  assumes "0 < length m" "length block = 8 + length t + 1" "length t < 2 ^ 32"
  shows "\<exists>s m'. pstring_alloc m block t = Inr (s, m') \<and> pstring_at m' s t \<and> (\<exists>x. m' = m @ x)"
  using assms
  by (simp add: pstring_alloc_def pstring_at_def valid_def bytes_def store32_def)

end
