(* ===== verification/Tx_Log.thy ===== *)
theory Tx_Log
  imports Moz_Prelude "HOL-Library.Sublist"
begin

text \<open>
  The savepoint and rollback contract that the symbol table and the syntax-tree log share. A
  savepoint is the length of the log; operations only append; rolling back to a savepoint
  drops what was appended since. The virtual machine relies on it when a choice fails: it
  restores both logs to the savepoints of the choice point.
\<close>

locale tx_log =
  fixes save :: "'s \<Rightarrow> nat"
    and roll :: "'s \<Rightarrow> nat \<Rightarrow> 's"
    and view :: "'s \<Rightarrow> 'e list"
    and inv :: "'s \<Rightarrow> bool"
  assumes save_length: "inv s \<Longrightarrow> save s = length (view s)"
    and roll_view: "inv s \<Longrightarrow> n \<le> length (view s) \<Longrightarrow> view (roll s n) = take n (view s)"
    and roll_inv: "inv s \<Longrightarrow> n \<le> length (view s) \<Longrightarrow> inv (roll s n)"
begin

lemma restore:
  assumes "inv s" "inv t" "prefix (view s) (view t)"
  shows "view (roll t (save s)) = view s \<and> inv (roll t (save s))"
proof -
  from assms(3) have "length (view s) \<le> length (view t)" "take (length (view s)) (view t) = view s"
    by (auto simp: prefix_def)
  then show ?thesis using assms(1,2) by (simp add: save_length roll_view roll_inv)
qed

text \<open>Any run of operations that keep the invariant and append.\<close>

lemma ops_prefix:
  assumes ops: "\<And>f t u. f \<in> set fs \<Longrightarrow> inv t \<Longrightarrow> f t = Inr u \<Longrightarrow> inv u \<and> prefix (view t) (view u)"
    and run: "rfold (\<lambda>t f. f t) s fs = Inr t" and "inv s"
  shows "inv t \<and> prefix (view s) (view t)"
  using assms
proof (induction fs arbitrary: s)
  case (Cons f fs)
  then obtain u where u: "f s = Inr u" "rfold (\<lambda>t f. f t) u fs = Inr t"
    by (auto simp: rbind_eq_Inr)
  have "inv u \<and> prefix (view s) (view u)"
    by (rule Cons.prems(1) [of f s u, OF _ Cons.prems(3) u(1)]) simp
  then have su: "inv u" "prefix (view s) (view u)" by blast+
  have "inv w \<and> prefix (view v) (view w)" if "g \<in> set fs" "inv v" "g v = Inr w" for g v w
    by (rule Cons.prems(1) [of g v w]) (simp_all add: that)
  then have "inv t \<and> prefix (view u) (view t)"
  proof (intro Cons.IH [of u])
    show "rfold (\<lambda>t f. f t) u fs = Inr t" "inv u" by (fact u su)+
  qed simp
  with su show ?case by (blast intro: prefix_order.trans)
qed simp

lemma restore_ops:
  assumes ops: "\<And>f t u. f \<in> set fs \<Longrightarrow> inv t \<Longrightarrow> f t = Inr u \<Longrightarrow> inv u \<and> prefix (view t) (view u)"
    and run: "rfold (\<lambda>t f. f t) s fs = Inr t" and "inv s"
  shows "view (roll t (save s)) = view s \<and> inv (roll t (save s))"
proof -
  from ops_prefix [OF assms] have "inv t" "prefix (view s) (view t)" by simp_all
  with assms(3) show ?thesis by (rule restore)
qed

end

end
