(* ===== verification/Symtable.thy ===== *)
theory Symtable
  imports Memory KArray Tx_Log
begin

text \<open>
  Tokens (\<open>src/src/libnez/token.h\<close>), their FNV-1a hash (\<open>src/src/libnez/khash.h\<close>) and the symbol
  table of the virtual machine (\<open>src/src/libnez/symtable.c\<close>, \<open>symtable.h\<close>). A table is a log of
  entries; names of tables are interned, so a tag is compared by its address.

  \<open>symtable_push\<close> copies no symbol into a mask entry, and the entry is a local variable: what
  the mask's \<open>sym\<close> holds is whatever the stack held, the argument \<open>junk\<close> of the model. The
  lookups recognise a mask by \<open>sym.s == NULL\<close>, which is the hypothesis \<open>ts junk = 0\<close>.
\<close>

section \<open>Tokens\<close>

record token_t =
  ts :: addr
  tlen :: nat

text \<open>\<open>t->len = e - s\<close> converts the difference to \<open>unsigned\<close>.\<close>

definition token_init :: "addr \<Rightarrow> addr \<Rightarrow> token_t" where
  "token_init s e = \<lparr>ts = s, tlen = nat ((int e - int s) mod 2 ^ 32)\<rparr>"

definition token_copy :: "token_t \<Rightarrow> token_t \<Rightarrow> token_t" where
  "token_copy t t2 = t\<lparr>ts := ts t2, tlen := tlen t2\<rparr>"

definition token_length :: "token_t \<Rightarrow> nat" where
  "token_length t = tlen t"

definition token_equal :: "mem \<Rightarrow> token_t \<Rightarrow> token_t \<Rightarrow> bool res" where
  "token_equal m t1 t2 =
     (if tlen t1 \<noteq> tlen t2 then Inr False else cmp_bytes m (ts t1) (ts t2) (tlen t1))"

definition token_equal_string :: "mem \<Rightarrow> token_t \<Rightarrow> addr \<Rightarrow> bool res" where
  "token_equal_string m t s = cmp_bytes m (ts t) s (tlen t)"

text \<open>The text of a token and tokens whose text is in memory.\<close>

definition ttext :: "mem \<Rightarrow> token_t \<Rightarrow> u8 list" where
  "ttext m t = bytes m (ts t) (tlen t)"

definition token_ok :: "mem \<Rightarrow> token_t \<Rightarrow> bool" where
  "token_ok m t \<longleftrightarrow> valid m (ts t) (tlen t)"

lemma token_equal_text:
  assumes "token_ok m t1" "token_ok m t2"
  shows "token_equal m t1 t2 = Inr (ttext m t1 = ttext m t2)"
proof (cases "tlen t1 = tlen t2")
  case True
  then show ?thesis using assms by (simp add: token_equal_def token_ok_def ttext_def cmp_bytes_ok)
next
  case False
  then have "length (ttext m t1) \<noteq> length (ttext m t2)"
    using assms by (simp add: token_ok_def ttext_def)
  then show ?thesis using False by (auto simp: token_equal_def)
qed

lemma token_init_text:
  assumes "s \<le> e" "e - s < 2 ^ 32"
  shows "ttext m (token_init s e) = bytes m s (e - s)"
proof -
  have "(int e - int s) mod 2 ^ 32 = int (e - s)" using assms by simp
  then show ?thesis by (simp add: ttext_def token_init_def)
qed

section \<open>The hash\<close>

fun fnv1a_string :: "mem \<Rightarrow> addr \<Rightarrow> nat \<Rightarrow> u32 \<Rightarrow> u32 res" where
  "fnv1a_string m s 0 hash = Inr hash"
| "fnv1a_string m s (Suc n) hash =
     rbind (mread m s) (\<lambda>b. fnv1a_string m (Suc s) n ((ucast b XOR hash) * 0x01000193))"

text \<open>\<open>while (len >= UNROLL)\<close>, and the rest.\<close>

function fnv1a_loop :: "mem \<Rightarrow> addr \<Rightarrow> nat \<Rightarrow> u32 \<Rightarrow> u32 res" where
  "fnv1a_loop m str len hash =
     (if len \<ge> 4 then rbind (fnv1a_string m str 4 hash) (\<lambda>h. fnv1a_loop m (str + 4) (len - 4) h)
      else fnv1a_string m str len hash)"
  by pat_completeness auto

termination
  by (relation "measure (\<lambda>(m, str, len, hash). len)") auto

declare fnv1a_loop.simps [simp del]

definition fnv1a :: "mem \<Rightarrow> addr \<Rightarrow> nat \<Rightarrow> u32 res" where
  "fnv1a m p len = fnv1a_loop m p len 0x811c9dc5"

text \<open>The hash of a byte string.\<close>

definition fnv_bytes :: "u32 \<Rightarrow> u8 list \<Rightarrow> u32" where
  "fnv_bytes = foldl (\<lambda>h b. (ucast b XOR h) * 0x01000193)"

lemma fnv1a_string_bytes:
  "valid m s n \<Longrightarrow> fnv1a_string m s n h = Inr (fnv_bytes h (bytes m s n))"
  by (induction n arbitrary: s h) (simp_all add: fnv_bytes_def bytes_Suc valid_Suc)

lemma fnv1a_loop_bytes:
  "valid m s n \<Longrightarrow> fnv1a_loop m s n h = Inr (fnv_bytes h (bytes m s n))"
proof (induction m s n h rule: fnv1a_loop.induct)
  case (1 m s n h)
  show ?case
  proof (cases "n \<ge> 4")
    case True
    then have split: "valid m s 4" "valid m (s + 4) (n - 4)"
      using "1.prems" by (simp_all add: valid_def)
    have "bytes m s n = bytes m s 4 @ bytes m (s + 4) (n - 4)"
      using bytes_add [of m s 4 "n - 4"] True by simp
    then show ?thesis using 1 True split
      by (simp add: fnv1a_loop.simps [of m s n h] fnv1a_string_bytes fnv_bytes_def)
  next
    case False
    then show ?thesis using "1.prems"
      by (simp add: fnv1a_loop.simps [of m s n h] fnv1a_string_bytes)
  qed
qed

lemma fnv1a_bytes: "valid m s n \<Longrightarrow> fnv1a m s n = Inr (fnv_bytes 0x811c9dc5 (bytes m s n))"
  by (simp add: fnv1a_def fnv1a_loop_bytes)

section \<open>The table\<close>

record entry_t =
  estate :: u32
  ehash :: u32
  etag :: addr
  esym :: token_t

text \<open>What \<open>memset\<close> leaves in a grown table.\<close>

instantiation token_t_ext :: (zero) zero
begin

definition "zero_token_t_ext = token_t_ext 0 0 (0 :: 'a)"

instance ..

end

instantiation entry_t_ext :: (zero) zero
begin

definition "zero_entry_t_ext = entry_t_ext 0 0 0 0 (0 :: 'a)"

instance ..

end

record symtable_t =
  sstate :: u32
  table :: "entry_t ARRAY"

definition symtable_init :: "entry_t list \<Rightarrow> symtable_t res" where
  "symtable_init block =
     rbind (rguard OutOfBounds (length block = 4)) (\<lambda>_. Inr \<lparr>sstate = 0, table = ARRAY_init block\<rparr>)"

definition symtable_dispose :: "symtable_t \<Rightarrow> symtable_t" where
  "symtable_dispose tbl = tbl\<lparr>table := ARRAY_dispose (table tbl)\<rparr>"

text \<open>\<open>sym\<close> is the entry's symbol: the copy of the token, or for a mask the old content.\<close>

definition symtable_push :: "token_t \<Rightarrow> symtable_t \<Rightarrow> addr \<Rightarrow> u32 \<Rightarrow> token_t option \<Rightarrow> symtable_t res" where
  "symtable_push junk tbl tag hash t =
     (let entry = \<lparr>estate = sstate tbl, ehash = hash, etag = tag,
                   esym = (case t of Some t \<Rightarrow> token_copy junk t | None \<Rightarrow> junk)\<rparr>
      in rbind (ARRAY_add (table tbl) entry) (\<lambda>a.
           Inr (tbl\<lparr>sstate := sstate tbl + 1, table := a\<rparr>)))"

definition symtable_add_symbol_mask :: "token_t \<Rightarrow> symtable_t \<Rightarrow> addr \<Rightarrow> symtable_t res" where
  "symtable_add_symbol_mask junk tbl tableName = symtable_push junk tbl tableName 0 None"

definition symtable_add_symbol :: "mem \<Rightarrow> token_t \<Rightarrow> symtable_t \<Rightarrow> addr \<Rightarrow> token_t \<Rightarrow> symtable_t res" where
  "symtable_add_symbol m junk tbl tableName captured =
     rbind (fnv1a m (ts captured) (tlen captured)) (\<lambda>hash.
       symtable_push junk tbl tableName hash (Some captured))"

text \<open>\<open>for (; cur >= head; --cur)\<close>: \<open>n\<close> entries are left, the current one is number \<open>n - 1\<close>.\<close>

fun has_loop :: "symtable_t \<Rightarrow> addr \<Rightarrow> nat \<Rightarrow> bool res" where
  "has_loop tbl tableName 0 = Inr False"
| "has_loop tbl tableName (Suc n) =
     rbind (ARRAY_get (table tbl) n) (\<lambda>cur.
       if etag cur = tableName then Inr (ts (esym cur) \<noteq> 0) else has_loop tbl tableName n)"

definition symtable_has_symbol :: "symtable_t \<Rightarrow> addr \<Rightarrow> bool res" where
  "symtable_has_symbol tbl tableName =
     (if asize (table tbl) = 0 then Inr False else has_loop tbl tableName (asize (table tbl)))"

text \<open>The token \<open>t\<close> is only written when a symbol is found.\<close>

fun get_loop :: "symtable_t \<Rightarrow> addr \<Rightarrow> token_t \<Rightarrow> nat \<Rightarrow> (bool \<times> token_t) res" where
  "get_loop tbl tableName t 0 = Inr (False, t)"
| "get_loop tbl tableName t (Suc n) =
     rbind (ARRAY_get (table tbl) n) (\<lambda>cur.
       if etag cur = tableName \<and> ts (esym cur) \<noteq> 0 then Inr (True, token_copy t (esym cur))
       else get_loop tbl tableName t n)"

definition symtable_get_symbol :: "symtable_t \<Rightarrow> addr \<Rightarrow> token_t \<Rightarrow> (bool \<times> token_t) res" where
  "symtable_get_symbol tbl tableName t =
     (if asize (table tbl) = 0 then Inr (False, t) else get_loop tbl tableName t (asize (table tbl)))"

fun contains_loop :: "mem \<Rightarrow> symtable_t \<Rightarrow> addr \<Rightarrow> token_t \<Rightarrow> u32 \<Rightarrow> nat \<Rightarrow> bool res" where
  "contains_loop m tbl tableName t hash 0 = Inr False"
| "contains_loop m tbl tableName t hash (Suc n) =
     rbind (ARRAY_get (table tbl) n) (\<lambda>cur.
       if etag cur = tableName then
         if ts (esym cur) = 0 then Inr False
         else if hash = ehash cur then
           rbind (token_equal m t (esym cur)) (\<lambda>eq.
             if eq then Inr True else contains_loop m tbl tableName t hash n)
         else contains_loop m tbl tableName t hash n
       else contains_loop m tbl tableName t hash n)"

definition symtable_contains :: "mem \<Rightarrow> symtable_t \<Rightarrow> addr \<Rightarrow> token_t \<Rightarrow> bool res" where
  "symtable_contains m tbl tableName t =
     (if asize (table tbl) = 0 then Inr False
      else rbind (fnv1a m (ts t) (tlen t)) (\<lambda>hash.
        contains_loop m tbl tableName t hash (asize (table tbl))))"

definition symtable_savepoint :: "symtable_t \<Rightarrow> nat" where
  "symtable_savepoint tbl = asize (table tbl)"

definition symtable_rollback :: "symtable_t \<Rightarrow> nat \<Rightarrow> symtable_t" where
  "symtable_rollback tbl saved = tbl\<lparr>table := (table tbl)\<lparr>asize := saved\<rparr>\<rparr>"

section \<open>The table as a log of masks and symbols\<close>

definition log :: "symtable_t \<Rightarrow> entry_t list" where
  "log tbl = elts (table tbl)"

text \<open>
  Every entry is a mask (its symbol is NULL) or a symbol whose text is in memory, with its hash.
\<close>

definition entry_ok :: "mem \<Rightarrow> entry_t \<Rightarrow> bool" where
  "entry_ok m e \<longleftrightarrow> ts (esym e) = 0 \<or>
     token_ok m (esym e) \<and> ehash e = fnv_bytes 0x811c9dc5 (ttext m (esym e))"

definition sym_inv :: "mem \<Rightarrow> symtable_t \<Rightarrow> bool" where
  "sym_inv m tbl \<longleftrightarrow> arr_wf (table tbl) \<and> (\<forall>e \<in> set (log tbl). entry_ok m e)"

lemma sym_inv_wf: "sym_inv m tbl \<Longrightarrow> arr_wf (table tbl)"
  by (simp add: sym_inv_def)

lemma length_log: "sym_inv m tbl \<Longrightarrow> length (log tbl) = asize (table tbl)"
  by (simp add: sym_inv_def log_def)

lemma token_copy_eq [simp]: "token_copy t u = (u :: token_t)"
  by (simp add: token_copy_def)

lemma symtable_init_ok:
  "length block = 4 \<Longrightarrow> \<exists>tbl. symtable_init block = Inr tbl \<and> sym_inv m tbl \<and> log tbl = []"
  using ARRAY_init_elts [of block] by (simp add: symtable_init_def sym_inv_def log_def)

lemma symtable_push_ok:
  assumes inv: "sym_inv m tbl" and small: "length (log tbl) + 1 < 2 ^ 29"
    and ok: "entry_ok m \<lparr>estate = sstate tbl, ehash = hash, etag = tag,
                   esym = (case t of Some t \<Rightarrow> t | None \<Rightarrow> junk)\<rparr>" (is "entry_ok m ?e")
  shows "\<exists>tbl'. symtable_push junk tbl tag hash t = Inr tbl' \<and> sym_inv m tbl' \<and> log tbl' = log tbl @ [?e]"
proof -
  have "length (log tbl) = asize (table tbl)" using inv by (rule length_log)
  then obtain b where "ARRAY_add (table tbl) ?e = Inr b" "arr_wf b" "elts b = elts (table tbl) @ [?e]"
    using ARRAY_add_elts [of "table tbl" ?e] inv small by (auto simp: sym_inv_def)
  with inv ok show ?thesis
    by (cases t) (auto simp: symtable_push_def sym_inv_def log_def)
qed

lemma add_mask_ok:
  assumes "sym_inv m tbl" "length (log tbl) + 1 < 2 ^ 29" "ts junk = 0"
  shows "\<exists>tbl' e. symtable_add_symbol_mask junk tbl tag = Inr tbl' \<and> sym_inv m tbl' \<and>
     log tbl' = log tbl @ [e] \<and> etag e = tag \<and> ts (esym e) = 0"
  using symtable_push_ok [OF assms(1,2), where hash = 0 and tag = tag and t = None and junk = junk] assms(3)
  by (auto simp: symtable_add_symbol_mask_def entry_ok_def)

lemma add_symbol_ok:
  assumes "sym_inv m tbl" "length (log tbl) + 1 < 2 ^ 29" "token_ok m t"
  shows "\<exists>tbl' e. symtable_add_symbol m junk tbl tag t = Inr tbl' \<and> sym_inv m tbl' \<and>
     log tbl' = log tbl @ [e] \<and> etag e = tag \<and> esym e = t"
proof -
  have h: "fnv1a m (ts t) (tlen t) = Inr (fnv_bytes 0x811c9dc5 (ttext m t))"
    using assms(3) by (simp add: token_ok_def ttext_def fnv1a_bytes)
  show ?thesis
    using symtable_push_ok [OF assms(1,2), where hash = "fnv_bytes 0x811c9dc5 (ttext m t)" and tag = tag and t = "Some t" and junk = junk] assms(3)
    by (auto simp: symtable_add_symbol_def entry_ok_def h)
qed

section \<open>The lookups answer for the log\<close>

text \<open>The entries of a table since its last mask, newest first.\<close>

definition visible :: "addr \<Rightarrow> entry_t list \<Rightarrow> entry_t list" where
  "visible tag es = takeWhile (\<lambda>e. ts (esym e) \<noteq> 0) (filter (\<lambda>e. etag e = tag) (rev es))"

lemma visible_snoc:
  "visible tag (es @ [e]) =
     (if etag e = tag then if ts (esym e) = 0 then [] else e # visible tag es else visible tag es)"
  by (simp add: visible_def)

lemma visible_Nil [simp]: "visible tag [] = []"
  by (simp add: visible_def)

lemma get_log:
  assumes "sym_inv m tbl" "n < length (log tbl)"
  shows "ARRAY_get (table tbl) n = Inr (log tbl ! n)"
  using assms by (simp add: sym_inv_def log_def ARRAY_get_elts)

lemma has_loop_ok:
  "sym_inv m tbl \<Longrightarrow> n \<le> length (log tbl) \<Longrightarrow>
     has_loop tbl tag n = Inr (visible tag (take n (log tbl)) \<noteq> [])"
  by (induction n) (simp_all add: get_log take_Suc_conv_app_nth visible_snoc)

lemma contains_loop_ok:
  assumes inv: "sym_inv m tbl" and t: "token_ok m t" and n: "n \<le> length (log tbl)"
  shows "contains_loop m tbl tag t (fnv_bytes 0x811c9dc5 (ttext m t)) n =
     Inr (\<exists>e \<in> set (visible tag (take n (log tbl))). ttext m (esym e) = ttext m t)"
  using n
proof (induction n)
  case (Suc n)
  let ?e = "log tbl ! n"
  have ok: "entry_ok m ?e" using inv Suc.prems by (simp add: sym_inv_def)
  show ?case
  proof (cases "etag ?e = tag \<and> ts (esym ?e) \<noteq> 0")
    case True
    then have e: "token_ok m (esym ?e)" "ehash ?e = fnv_bytes 0x811c9dc5 (ttext m (esym ?e))"
      using ok by (auto simp: entry_ok_def)
    then show ?thesis using True Suc token_equal_text [OF t e(1)]
      by (auto simp: get_log [OF inv] take_Suc_conv_app_nth visible_snoc)
  next
    case False
    then show ?thesis using Suc
      by (auto simp: get_log [OF inv] take_Suc_conv_app_nth visible_snoc)
  qed
qed simp

text \<open>\<open>symtable_get_symbol\<close> skips masks: it finds the newest symbol, visible or not.\<close>

lemma get_loop_ok:
  assumes inv: "sym_inv m tbl" and n: "n \<le> length (log tbl)"
  shows "get_loop tbl tag t n = Inr
     (case find (\<lambda>e. etag e = tag \<and> ts (esym e) \<noteq> 0) (rev (take n (log tbl))) of
        Some e \<Rightarrow> (True, esym e) | None \<Rightarrow> (False, t))"
  using n by (induction n) (simp_all add: get_log [OF inv] take_Suc_conv_app_nth)

lemma has_symbol_log:
  assumes "sym_inv m tbl"
  shows "symtable_has_symbol tbl tag = Inr (visible tag (log tbl) \<noteq> [])"
  using has_loop_ok [OF assms, of "asize (table tbl)" tag] length_log [OF assms]
  by (auto simp: symtable_has_symbol_def)

lemma get_symbol_log:
  assumes "sym_inv m tbl"
  shows "symtable_get_symbol tbl tag t = Inr
     (case find (\<lambda>e. etag e = tag \<and> ts (esym e) \<noteq> 0) (rev (log tbl)) of
        Some e \<Rightarrow> (True, esym e) | None \<Rightarrow> (False, t))"
  using get_loop_ok [OF assms, of "asize (table tbl)" tag t] length_log [OF assms]
  by (auto simp: symtable_get_symbol_def)

lemma contains_log:
  assumes "sym_inv m tbl" "token_ok m t"
  shows "symtable_contains m tbl tag t =
     Inr (\<exists>e \<in> set (visible tag (log tbl)). ttext m (esym e) = ttext m t)"
  using contains_loop_ok [OF assms, of "asize (table tbl)" tag] length_log [OF assms(1)] assms(2)
  by (auto simp: symtable_contains_def token_ok_def ttext_def fnv1a_bytes)

section \<open>Savepoints\<close>

lemma rollback_log:
  assumes "sym_inv m tbl" "n \<le> length (log tbl)"
  shows "sym_inv m (symtable_rollback tbl n) \<and> log (symtable_rollback tbl n) = take n (log tbl)"
proof -
  have l: "log (symtable_rollback tbl n) = take n (log tbl)"
    using assms length_log [OF assms(1)]
    by (simp add: symtable_rollback_def log_def elts_def min_absorb1)
  then have "\<forall>e \<in> set (log (symtable_rollback tbl n)). entry_ok m e"
    using assms(1) by (auto simp: sym_inv_def dest: in_set_takeD)
  moreover have "arr_wf (table (symtable_rollback tbl n))"
    using assms length_log [OF assms(1)] by (simp add: symtable_rollback_def sym_inv_def arr_wf_def)
  ultimately show ?thesis using l by (simp add: sym_inv_def)
qed

interpretation symlog: tx_log symtable_savepoint symtable_rollback log "sym_inv m" for m
  by unfold_locales (auto simp: symtable_savepoint_def length_log rollback_log)

section \<open>Runs of operations\<close>

datatype sym_op = Mask addr | Add addr token_t

fun sym_step :: "mem \<Rightarrow> token_t \<Rightarrow> symtable_t \<Rightarrow> sym_op \<Rightarrow> symtable_t res" where
  "sym_step m junk tbl (Mask tag) = symtable_add_symbol_mask junk tbl tag"
| "sym_step m junk tbl (Add tag t) = symtable_add_symbol m junk tbl tag t"

fun op_ok :: "mem \<Rightarrow> sym_op \<Rightarrow> bool" where
  "op_ok m (Mask tag) = True"
| "op_ok m (Add tag t) = token_ok m t"

text \<open>The texts added to a table since its last mask, newest first.\<close>

fun scope :: "mem \<Rightarrow> addr \<Rightarrow> sym_op list \<Rightarrow> u8 list list \<Rightarrow> u8 list list" where
  "scope m tag [] acc = acc"
| "scope m tag (Mask g # ops) acc = scope m tag ops (if g = tag then [] else acc)"
| "scope m tag (Add g t # ops) acc = scope m tag ops (if g = tag then ttext m t # acc else acc)"

lemma token_ok_nonnull: "token_ok m t \<Longrightarrow> ts t \<noteq> 0"
  by (simp add: token_ok_def valid_def)

lemma sym_step_ok:
  assumes "sym_inv m tbl" "length (log tbl) + 1 < 2 ^ 29" "op_ok m x" "ts junk = 0"
  shows "\<exists>tbl'. sym_step m junk tbl x = Inr tbl' \<and> sym_inv m tbl' \<and>
     length (log tbl') = length (log tbl) + 1 \<and> prefix (log tbl) (log tbl') \<and>
     (\<forall>tag. map (\<lambda>e. ttext m (esym e)) (visible tag (log tbl')) =
        scope m tag [x] (map (\<lambda>e. ttext m (esym e)) (visible tag (log tbl))))"
proof (cases x)
  case (Mask g)
  with add_mask_ok [OF assms(1,2,4), of g] show ?thesis by (auto simp: visible_snoc)
next
  case (Add g t)
  with add_symbol_ok [OF assms(1,2), of t junk g] assms(3) token_ok_nonnull [of m t]
  show ?thesis by (auto simp: visible_snoc)
qed

lemma scope_Cons: "scope m tag (x # ops) acc = scope m tag ops (scope m tag [x] acc)"
  by (cases x) simp_all

lemma sym_steps_ok:
  assumes "sym_inv m tbl" "length (log tbl) + length ops < 2 ^ 29" "\<forall>x \<in> set ops. op_ok m x" "ts junk = 0"
  shows "\<exists>tbl'. rfold (sym_step m junk) tbl ops = Inr tbl' \<and> sym_inv m tbl' \<and>
     (\<forall>tag. map (\<lambda>e. ttext m (esym e)) (visible tag (log tbl')) =
        scope m tag ops (map (\<lambda>e. ttext m (esym e)) (visible tag (log tbl))))"
  using assms
proof (induction ops arbitrary: tbl)
  case (Cons x ops)
  then obtain t where t: "sym_step m junk tbl x = Inr t" "sym_inv m t" "length (log t) = length (log tbl) + 1"
    "\<And>tag. map (\<lambda>e. ttext m (esym e)) (visible tag (log t)) =
        scope m tag [x] (map (\<lambda>e. ttext m (esym e)) (visible tag (log tbl)))"
    using sym_step_ok [of m tbl x junk] by auto
  from Cons.IH [OF t(2)] t(3) Cons.prems obtain t' where t': "rfold (sym_step m junk) t ops = Inr t'"
    "sym_inv m t'" "\<forall>tag. map (\<lambda>e. ttext m (esym e)) (visible tag (log t')) =
        scope m tag ops (map (\<lambda>e. ttext m (esym e)) (visible tag (log t)))"
    by auto
  then show ?case using t(1) by (auto simp: t(4) scope_Cons [of m _ x ops])
qed simp

lemma symtable_push_appends:
  assumes inv: "sym_inv m tbl" and run: "symtable_push junk tbl tag hash t = Inr tbl'"
    and ok: "entry_ok m \<lparr>estate = sstate tbl, ehash = hash, etag = tag,
                   esym = (case t of Some t \<Rightarrow> t | None \<Rightarrow> junk)\<rparr>" (is "entry_ok m ?e")
  shows "sym_inv m tbl' \<and> prefix (log tbl) (log tbl')"
proof -
  from run obtain a where "ARRAY_add (table tbl) ?e = Inr a" "tbl' = tbl\<lparr>sstate := sstate tbl + 1, table := a\<rparr>"
    by (cases t) (auto simp: symtable_push_def rbind_eq_Inr)
  with ARRAY_add_appends [of "table tbl" ?e a] inv ok show ?thesis
    by (auto simp: sym_inv_def log_def)
qed

lemma sym_step_prefix:
  assumes "op_ok m x" "ts junk = 0" "sym_inv m tbl" "sym_step m junk tbl x = Inr tbl'"
  shows "sym_inv m tbl' \<and> prefix (log tbl) (log tbl')"
proof (cases x)
  case (Mask g)
  with assms show ?thesis
    by (intro symtable_push_appends [OF assms(3), where t = None])
      (auto simp: symtable_add_symbol_mask_def entry_ok_def)
next
  case (Add g t)
  with assms(1) have h: "fnv1a m (ts t) (tlen t) = Inr (fnv_bytes 0x811c9dc5 (ttext m t))"
    by (simp add: token_ok_def ttext_def fnv1a_bytes)
  from Add assms(1,4) show ?thesis
    by (intro symtable_push_appends [OF assms(3), where t = "Some t"])
      (auto simp: symtable_add_symbol_def h entry_ok_def)
qed

lemma fnv1a_string_split:
  "fnv1a_string m s (a + b) h = rbind (fnv1a_string m s a h) (fnv1a_string m (s + a) b)"
  by (induction a arbitrary: s h) (simp_all add: rbind_assoc)

section \<open>Properties\<close>

text \<open>C23: The unrolled FNV-1a hash (four bytes at a time, then the rest) is the plain byte-wise
FNV-1a hash, for every address and length, out-of-range reads included.\<close>

theorem fnv1a_unrolled: "fnv1a m p n = fnv1a_string m p n 0x811c9dc5"
proof -
  have "fnv1a_loop m s k h = fnv1a_string m s k h" for s k h
  proof (induction m s k h rule: fnv1a_loop.induct)
    case (1 m s k h)
    then show ?case
      using fnv1a_string_split [of m s 4 "k - 4" h] 
      by (cases "k \<ge> 4") (auto simp: fnv1a_loop.simps [of m s k h] intro: rbind_cong)
  qed
  then show ?thesis by (simp add: fnv1a_def)
qed



text \<open>C22: A transaction on the symbol table is undone by rolling back: after any run of masks and
additions, the table rolled back to its savepoint answers every lookup (has, get, contains) as it
did before.\<close>

theorem symtable_transaction:
  assumes "sym_inv m tbl" "\<forall>x \<in> set ops. op_ok m x" "ts junk = 0" "token_ok m u"
    and "rfold (sym_step m junk) tbl ops = Inr t"
  shows "symtable_has_symbol (symtable_rollback t (symtable_savepoint tbl)) tag = symtable_has_symbol tbl tag \<and>
     symtable_get_symbol (symtable_rollback t (symtable_savepoint tbl)) tag u = symtable_get_symbol tbl tag u \<and>
     symtable_contains m (symtable_rollback t (symtable_savepoint tbl)) tag u = symtable_contains m tbl tag u"
proof -
  let ?fs = "map (\<lambda>x t. sym_step m junk t x) ops"
  let ?r = "symtable_rollback t (symtable_savepoint tbl)"
  have "rfold (\<lambda>t f. f t) tbl ?fs = Inr t" using assms(5) by (simp add: rfold_map)
  then have "log ?r = log tbl \<and> sym_inv m ?r"
    using assms(2,3) by (intro symlog.restore_ops [OF _ _ assms(1)]) (auto dest: sym_step_prefix)
  then have r: "log ?r = log tbl" "sym_inv m ?r" by blast+
  show ?thesis
    using assms(4) r(1) by (simp add: has_symbol_log [OF r(2)] has_symbol_log [OF assms(1)]
      get_symbol_log [OF r(2)] get_symbol_log [OF assms(1)] contains_log [OF r(2)] contains_log [OF assms(1)])
qed

lemma symtable_transaction_witness:
  "\<exists>t. rfold (sym_step [0, 97] 0) \<lparr>sstate = 0, table = ARRAY_init (replicate 4 0)\<rparr> [Add 9 \<lparr>ts = 1, tlen = 1\<rparr>, Mask 9] = Inr t \<and>
     symtable_has_symbol (symtable_rollback t 0) 9 = Inr False"
proof -
  let ?tbl = "\<lparr>sstate = 0, table = ARRAY_init (replicate 4 0)\<rparr>"
  have inv: "sym_inv [0, 97] ?tbl" "log ?tbl = []"
    using ARRAY_init_elts [of "replicate 4 (0 :: entry_t)"] by (simp_all add: sym_inv_def log_def)
  then obtain t where t: "rfold (sym_step [0, 97] 0) ?tbl [Add 9 \<lparr>ts = 1, tlen = 1\<rparr>, Mask 9] = Inr t"
    using sym_steps_ok [OF inv(1), of "[Add 9 \<lparr>ts = 1, tlen = 1\<rparr>, Mask 9]" 0]
    by (auto simp: token_ok_def valid_def zero_token_t_ext_def)
  have "symtable_savepoint ?tbl = 0" "symtable_has_symbol ?tbl 9 = Inr False"
    by (simp_all add: symtable_savepoint_def ARRAY_init_def symtable_has_symbol_def)
  with symtable_transaction [OF inv(1) _ _ _ t, of "\<lparr>ts = 1, tlen = 1\<rparr>" 9] t show ?thesis
    by (simp add: token_ok_def valid_def zero_token_t_ext_def)
qed

text \<open>C28: \<open>symtable_add_symbol_mask\<close> leaves the symbol of its entry uninitialised: right after
masking a table, \<open>symtable_has_symbol\<close> answers whether the stale stack content happens to have a
non-NULL pointer, so the mask hides the table only when it is NULL.\<close>

theorem mask_uninitialised:
  assumes "sym_inv m tbl" "length (log tbl) + 1 < 2 ^ 29"
  shows "\<exists>t. symtable_add_symbol_mask junk tbl tag = Inr t \<and> symtable_has_symbol t tag = Inr (ts junk \<noteq> 0)"
proof -
  let ?e = "\<lparr>estate = sstate tbl, ehash = 0, etag = tag, esym = junk\<rparr>"
  have a: "arr_wf (table tbl)" "asize (table tbl) + 1 < 2 ^ 29"
    using assms length_log [OF assms(1)] by (simp_all add: sym_inv_def)
  obtain b where b: "ARRAY_add (table tbl) ?e = Inr b" "arr_wf b" "elts b = elts (table tbl) @ [?e]"
    using ARRAY_add_elts [OF a, of ?e] by blast
  then have "asize b = Suc (asize (table tbl))" using a(1) by (metis length_append_singleton length_elts)
  moreover have "ARRAY_get b (asize (table tbl)) = Inr ?e"
    using b a(1) calculation by (simp add: ARRAY_get_elts nth_append)
  ultimately show ?thesis using b(1)
    by (simp add: symtable_add_symbol_mask_def symtable_push_def symtable_has_symbol_def)
qed

lemma mask_uninitialised_witness:
  "\<exists>t. symtable_add_symbol_mask \<lparr>ts = 5, tlen = 0\<rparr> \<lparr>sstate = 0, table = ARRAY_init (replicate 4 0)\<rparr> 9 = Inr t \<and>
     symtable_has_symbol t 9 = Inr True"
  using mask_uninitialised [of "[]" "\<lparr>sstate = 0, table = ARRAY_init (replicate 4 0)\<rparr>" "\<lparr>ts = 5, tlen = 0\<rparr>" 9]
    ARRAY_init_elts [of "replicate 4 (0 :: entry_t)"]
  by (simp add: sym_inv_def log_def)

end
