(* ===== verification/Node.thy ===== *)
theory Node
  imports KArray "HOL-Library.Multiset"
begin

text \<open>
  The syntax-tree nodes of \<open>src/src/node/node.c\<close> and \<open>node.h\<close> with the reference counts of
  \<open>src/src/core/reference_count.h\<close>, in the configuration of \<open>mozvm_config.h\<close>: reference counting
  (\<open>MOZVM_MEMORY_USE_RCGC\<close>), nodes taken from pages (\<open>MOZVM_NODE_USE_MEMPOOL\<close>) and a free list
  threaded through the \<open>tag\<close> field (\<open>MOZVM_USE_FREE_LIST\<close>).

  The heap is a list of cells; a node pointer is the index of its cell and NULL is 0. The
  recursion of \<open>Node_sweep\<close> takes a step budget; \<open>NODE_GC_RELEASE\<close> passes the number of cells,
  and the release lemma shows it is always enough. \<open>Node_digest\<close> is in \<open>Node_Digest\<close>; printing is output.
\<close>

section \<open>Nodes\<close>

type_synonym nptr = nat

definition MOZVM_SMALL_ARRAY_LIMIT :: nat where
  "MOZVM_SMALL_ARRAY_LIMIT = 2"

text \<open>
  The union of a small array (a size and two pointers) and a growable array; their \<open>size\<close>
  fields share their place.
\<close>

datatype node_entry =
    RawEntry nat "nptr list"
  | ArrayEntry "nptr ARRAY"

fun entry_size :: "node_entry \<Rightarrow> nat" where
  "entry_size (RawEntry n ary) = n"
| "entry_size (ArrayEntry a) = asize a"

record node =
  refc :: int
  ntag :: nat
  npos :: nat
  nvalue :: nat
  nlen :: nat
  labelId :: int
  nentry :: node_entry

definition null_node :: node where
  "null_node = \<lparr>refc = 0, ntag = 0, npos = 0, nvalue = 0, nlen = 0, labelId = 0,
     nentry = RawEntry 0 [0, 0]\<rparr>"

text \<open>The file's static variables: the cells, the free list and its length, the page list.\<close>

record node_heap =
  cells :: "node list"
  free_list :: nptr
  free_object_count :: nat
  current_page :: "nat list"

definition nread :: "node_heap \<Rightarrow> nptr \<Rightarrow> node res" where
  "nread h obj = (if obj = 0 then Inl NullDeref else aread (cells h) obj)"

definition nwrite :: "node_heap \<Rightarrow> nptr \<Rightarrow> node \<Rightarrow> node_heap res" where
  "nwrite h obj n = (if obj = 0 then Inl NullDeref
     else rbind (awrite (cells h) obj n) (\<lambda>c. Inr (h\<lparr>cells := c\<rparr>)))"

section \<open>Pages and the free list\<close>

text \<open>\<open>MOZVM_NODE_ARENA_SIZE * 4096 / sizeof(Node) - 1\<close> with 64-byte nodes.\<close>

definition PAGE_OBJECT_SIZE :: nat where
  "PAGE_OBJECT_SIZE = 8 * 4096 div 64 - 1"

text \<open>
  The page's first node is its header, the others are linked through \<open>tag\<close>, the last one to
  the old free list.
\<close>

definition page_nodes :: "nat \<Rightarrow> nptr \<Rightarrow> node list" where
  "page_nodes p fl = null_node #
     map (\<lambda>i. null_node\<lparr>ntag := (if i = PAGE_OBJECT_SIZE then fl else p + i + 1)\<rparr>) [1..<PAGE_OBJECT_SIZE + 1]"

definition alloc_page :: "node_heap \<Rightarrow> node_heap res" where
  "alloc_page h =
     (let p = length (cells h)
      in rbind (rassert (free_object_count h = 0)) (\<lambda>_.
         Inr (h\<lparr>cells := cells h @ page_nodes p (free_list h),
                current_page := p # current_page h,
                free_object_count := free_object_count h + PAGE_OBJECT_SIZE,
                free_list := p + 1\<rparr>)))"

definition NodeManager_init :: "node_heap \<Rightarrow> node_heap res" where
  "NodeManager_init h = alloc_page h"

text \<open>Freeing every page leaves no cell but the unused one at NULL.\<close>

definition NodeManager_dispose :: "node_heap \<Rightarrow> node_heap" where
  "NodeManager_dispose h =
     h\<lparr>cells := [null_node], free_list := 0, free_object_count := 0, current_page := []\<rparr>"

definition NodeManager_reset :: "node_heap \<Rightarrow> node_heap res" where
  "NodeManager_reset h = NodeManager_init (NodeManager_dispose h)"

definition node_alloc :: "node_heap \<Rightarrow> (nptr \<times> node_heap) res" where
  "node_alloc h =
     rbind (if free_list h = 0 then alloc_page h else Inr h) (\<lambda>h.
       let obj = free_list h
       in rbind (nread h obj) (\<lambda>n.
         Inr (obj, h\<lparr>free_list := ntag n, free_object_count := free_object_count h - 1\<rparr>)))"

definition node_free :: "node_heap \<Rightarrow> nptr \<Rightarrow> node_heap res" where
  "node_free h obj =
     rbind (nread h obj) (\<lambda>n.
     rbind (rassert (refc n = 0)) (\<lambda>_.
     rbind (nwrite h obj (n\<lparr>refc := - 1, ntag := free_list h\<rparr>)) (\<lambda>h.
       Inr (h\<lparr>free_list := obj, free_object_count := free_object_count h + 1\<rparr>))))"

section \<open>Operations\<close>

text \<open>
  The new node's label is what the cell held. The blocks of the two \<open>ARRAY_init\<close> calls of this
  file are filled before they are read; the model starts them with zeros.
\<close>

definition Node_new :: "node_heap \<Rightarrow> nat \<Rightarrow> nat \<Rightarrow> nat \<Rightarrow> nat \<Rightarrow> nat \<Rightarrow> (nptr \<times> node_heap) res" where
  "Node_new h tag str len elm_size value =
     rbind (node_alloc h) (\<lambda>(obj, h).
     rbind (nread h obj) (\<lambda>n.
     rbind (if elm_size > MOZVM_SMALL_ARRAY_LIMIT
            then rbind (rfold (\<lambda>a i. ARRAY_add a 0) (ARRAY_init (replicate elm_size 0)) [0..<elm_size])
                   (\<lambda>a. Inr (ArrayEntry a))
            else Inr (RawEntry elm_size [0, 0])) (\<lambda>e.
     rbind (nwrite h obj (n\<lparr>refc := 0, ntag := tag, npos := str, nlen := len, nvalue := value, nentry := e\<rparr>))
       (\<lambda>h. Inr (obj, h)))))"

definition Node_length :: "node_heap \<Rightarrow> nptr \<Rightarrow> nat res" where
  "Node_length h obj = rbind (nread h obj) (\<lambda>n. Inr (entry_size (nentry n)))"

fun entry_get :: "node_entry \<Rightarrow> nat \<Rightarrow> nptr res" where
  "entry_get (ArrayEntry a) index =
     (if asize a > MOZVM_SMALL_ARRAY_LIMIT then ARRAY_get a index else Inl OutOfBounds)"
| "entry_get (RawEntry n ary) index =
     (if n > MOZVM_SMALL_ARRAY_LIMIT then Inl OutOfBounds else aread ary index)"

definition Node_get :: "node_heap \<Rightarrow> nptr \<Rightarrow> nat \<Rightarrow> nptr res" where
  "Node_get h obj index =
     rbind (nread h obj) (\<lambda>n.
       if index < entry_size (nentry n) then entry_get (nentry n) index else Inr 0)"

definition NODE_GC_RETAIN :: "node_heap \<Rightarrow> nptr \<Rightarrow> node_heap res" where
  "NODE_GC_RETAIN h obj = rbind (nread h obj) (\<lambda>n. nwrite h obj (n\<lparr>refc := refc n + 1\<rparr>))"

text \<open>\<open>MOZ_RC_RELEASE(O, SWEEP)\<close>\<close>

definition MOZ_RC_RELEASE :: "(node_heap \<Rightarrow> nptr \<Rightarrow> node_heap res) \<Rightarrow> node_heap \<Rightarrow> nptr \<Rightarrow> node_heap res" where
  "MOZ_RC_RELEASE sweep h obj =
     rbind (nread h obj) (\<lambda>n.
     rbind (rassert (refc n > 0)) (\<lambda>_.
     rbind (nwrite h obj (n\<lparr>refc := refc n - 1\<rparr>)) (\<lambda>h.
       if refc n - 1 = 0 then sweep h obj else Inr h)))"

text \<open>\<open>if (node) NODE_GC_RELEASE(node)\<close>, the body of the loop of \<open>Node_sweep\<close>.\<close>

definition sweep_child :: "(node_heap \<Rightarrow> nptr \<Rightarrow> node_heap res) \<Rightarrow> nptr \<Rightarrow> node_heap \<Rightarrow> nat \<Rightarrow> node_heap res" where
  "sweep_child sweep obj h i =
     rbind (Node_get h obj i) (\<lambda>node. if node \<noteq> 0 then MOZ_RC_RELEASE sweep h node else Inr h)"

text \<open>\<open>if (len > MOZVM_SMALL_ARRAY_LIMIT) ARRAY_dispose(...)\<close>\<close>

fun dispose_entry :: "node_entry \<Rightarrow> node_entry" where
  "dispose_entry (ArrayEntry a) = ArrayEntry (ARRAY_dispose a)"
| "dispose_entry (RawEntry n ary) = RawEntry n ary"

fun Node_sweep :: "nat \<Rightarrow> node_heap \<Rightarrow> nptr \<Rightarrow> node_heap res" where
  "Node_sweep 0 h obj = Inl NoFuel"
| "Node_sweep (Suc f) h obj =
     rbind (nread h obj) (\<lambda>n.
     rbind (rassert (refc n = 0)) (\<lambda>_.
     rbind (rfold (sweep_child (Node_sweep f) obj) h [0..<entry_size (nentry n)]) (\<lambda>h.
     rbind (nread h obj) (\<lambda>n'.
     rbind (nwrite h obj (n'\<lparr>nentry := dispose_entry (nentry n')\<rparr>)) (\<lambda>h.
       node_free h obj)))))"

definition NODE_GC_RELEASE :: "node_heap \<Rightarrow> nptr \<Rightarrow> node_heap res" where
  "NODE_GC_RELEASE h obj = MOZ_RC_RELEASE (Node_sweep (length (cells h))) h obj"

fun entry_append :: "node_entry \<Rightarrow> nptr \<Rightarrow> node_entry res" where
  "entry_append (ArrayEntry a) n =
     rbind (rguard OutOfBounds (asize a > MOZVM_SMALL_ARRAY_LIMIT)) (\<lambda>_.
     rbind (ARRAY_ensureSize a 1) (\<lambda>a. rbind (ARRAY_add a n) (\<lambda>a. Inr (ArrayEntry a))))"
| "entry_append (RawEntry len ary) n =
     rbind (rguard OutOfBounds (len \<le> MOZVM_SMALL_ARRAY_LIMIT)) (\<lambda>_.
       if len = 2 then
         rbind (aread ary 0) (\<lambda>e0. rbind (aread ary 1) (\<lambda>e1.
         rbind (rfold ARRAY_add (ARRAY_init (replicate 3 0)) [e0, e1, n]) (\<lambda>a. Inr (ArrayEntry a))))
       else if len = 1 then rbind (awrite ary 1 n) (\<lambda>ary. Inr (RawEntry (len + 1) ary))
       else rbind (awrite ary 0 n) (\<lambda>ary. Inr (RawEntry (len + 1) ary)))"

definition Node_append :: "node_heap \<Rightarrow> nptr \<Rightarrow> nptr \<Rightarrow> node_heap res" where
  "Node_append h obj n =
     rbind (if n \<noteq> 0 then NODE_GC_RETAIN h n else Inr h) (\<lambda>h.
     rbind (nread h obj) (\<lambda>x.
     rbind (entry_append (nentry x) n) (\<lambda>e. nwrite h obj (x\<lparr>nentry := e\<rparr>))))"

fun entry_put :: "node_entry \<Rightarrow> nat \<Rightarrow> nptr \<Rightarrow> node_entry res" where
  "entry_put (ArrayEntry a) index n =
     (if asize a > MOZVM_SMALL_ARRAY_LIMIT then rbind (ARRAY_set a index n) (\<lambda>a. Inr (ArrayEntry a))
      else Inl OutOfBounds)"
| "entry_put (RawEntry len ary) index n =
     (if len > MOZVM_SMALL_ARRAY_LIMIT then Inl OutOfBounds
      else rbind (awrite ary index n) (\<lambda>ary. Inr (RawEntry len ary)))"

text \<open>
  Every pass of \<open>while (index >= Node_length(o)) Node_append(o, NULL)\<close> adds one to the length,
  so it takes \<open>index + 1 - length\<close> passes.
\<close>

definition Node_set :: "node_heap \<Rightarrow> nptr \<Rightarrow> nat \<Rightarrow> u16 \<Rightarrow> nptr \<Rightarrow> node_heap res" where
  "Node_set h obj index label n =
     rbind (rassert (obj \<noteq> n)) (\<lambda>_.
     rbind (Node_get h obj index) (\<lambda>v.
     rbind (NODE_GC_RETAIN h n) (\<lambda>h.
     rbind (if v \<noteq> 0 then NODE_GC_RELEASE h v else Inr h) (\<lambda>h.
     rbind (nread h n) (\<lambda>x.
     rbind (nwrite h n (x\<lparr>labelId := uint label\<rparr>)) (\<lambda>h.
     rbind (Node_length h obj) (\<lambda>len.
     rbind (rfold (\<lambda>h _. Node_append h obj 0) h [0..<index + 1 - len]) (\<lambda>h.
     rbind (nread h obj) (\<lambda>x.
     rbind (entry_put (nentry x) index n) (\<lambda>e. nwrite h obj (x\<lparr>nentry := e\<rparr>)))))))))))"

section \<open>The elements of a node\<close>

fun entry_elems :: "node_entry \<Rightarrow> nptr list" where
  "entry_elems (RawEntry n ary) = take n ary"
| "entry_elems (ArrayEntry a) = elts a"

fun entry_wf :: "node_entry \<Rightarrow> bool" where
  "entry_wf (RawEntry n ary) \<longleftrightarrow> n \<le> 2 \<and> length ary = 2"
| "entry_wf (ArrayEntry a) \<longleftrightarrow> arr_wf a \<and> 2 < asize a"

lemma length_entry_elems [simp]: "entry_wf e \<Longrightarrow> length (entry_elems e) = entry_size e"
  by (cases e) auto

lemma entry_get_elems:
  "entry_wf e \<Longrightarrow> i < entry_size e \<Longrightarrow> entry_get e i = Inr (entry_elems e ! i)"
  by (cases e) (auto simp: MOZVM_SMALL_ARRAY_LIMIT_def ARRAY_get_elts)

lemma entry_put_elems:
  "entry_wf e \<Longrightarrow> i < entry_size e \<Longrightarrow>
     \<exists>e'. entry_put e i n = Inr e' \<and> entry_wf e' \<and> entry_elems e' = (entry_elems e)[i := n]"
proof (induction e i n rule: entry_put.induct)
  case (1 a i n)
  then obtain b where b: "ARRAY_set a i n = Inr b" "arr_wf b" "elts b = (elts a)[i := n]"
    using ARRAY_set_elts [of a i n] by auto
  have "asize b = asize a" using length_elts [OF b(2)] b(3) 1 by simp
  with b 1 show ?case by (simp add: MOZVM_SMALL_ARRAY_LIMIT_def)
next
  case (2 len ary i n)
  then show ?case by (simp add: MOZVM_SMALL_ARRAY_LIMIT_def take_update_swap)
qed

lemma pair_list: "length xs = 2 \<Longrightarrow> \<exists>a b. xs = [a, b]"
  by (auto simp: length_Suc_conv numeral_2_eq_2)

lemma entry_append_elems:
  assumes wf: "entry_wf e" and small: "entry_size e + 1 < 2 ^ 29"
  shows "\<exists>e'. entry_append e n = Inr e' \<and> entry_wf e' \<and> entry_elems e' = entry_elems e @ [n]"
proof (cases e)
  case (ArrayEntry a)
  with wf have a: "arr_wf a" "2 < asize a" by simp_all
  have small': "asize a + 1 < 2 ^ 29" using small ArrayEntry by simp
  obtain b where b: "ARRAY_ensureSize a 1 = Inr b" "arr_wf b" "elts b = elts a" "asize b = asize a"
    using ARRAY_ensureSize_ok [OF a(1) small'] by blast
  have "asize b + 1 < 2 ^ 29" using b(4) small' by simp
  then obtain c where c: "ARRAY_add b n = Inr c" "arr_wf c" "elts c = elts b @ [n]"
    using ARRAY_add_elts [OF b(2), of n] by blast
  have "asize c = asize a + 1" using length_elts [OF c(2)] length_elts [OF a(1)] c(3) b(3) by simp
  with ArrayEntry a b c show ?thesis by (simp add: MOZVM_SMALL_ARRAY_LIMIT_def)
next
  case (RawEntry len ary)
  with wf have l: "length ary = 2" "len \<le> 2" by simp_all
  then obtain x y where ary: "ary = [x, y]" "len \<le> 2" using pair_list by blast
  show ?thesis
  proof (cases "len = 2")
    case True
    have i: "arr_wf (ARRAY_init (replicate 3 0 :: nptr list))" "elts (ARRAY_init (replicate 3 0 :: nptr list)) = []"
      using ARRAY_init_elts [of "replicate 3 0 :: nptr list"] by simp_all
    obtain b where b: "rfold ARRAY_add (ARRAY_init (replicate 3 0)) [x, y, n] = Inr b" "arr_wf b" "elts b = [x, y, n]"
      using karr.push_all [OF i(1), of "[x, y, n]"] i(2) by auto
    have "asize b = 3" using length_elts [OF b(2)] b(3) by simp
    with RawEntry ary True b show ?thesis by (simp add: MOZVM_SMALL_ARRAY_LIMIT_def)
  next
    case False
    with ary(2) have "len = 0 \<or> len = 1" by auto
    with RawEntry ary show ?thesis by (auto simp: MOZVM_SMALL_ARRAY_LIMIT_def)
  qed
qed

section \<open>Counted references\<close>

text \<open>
  \<open>L\<close> is the set of live cells, \<open>R\<close> the multiset of references held outside the heap (the
  machine's registers and logs, the memo table). The invariant: the count of every live node is
  the number of references to it, from the elements of live nodes and from \<open>R\<close>, and no
  reference leaves \<open>L\<close>. The free list \<open>xs\<close> is a chain of cells that are not live.
\<close>

definition kids :: "node_heap \<Rightarrow> nptr \<Rightarrow> nptr multiset" where
  "kids h a = mset (filter (\<lambda>c. c \<noteq> 0) (entry_elems (nentry (cells h ! a))))"

definition refs :: "node_heap \<Rightarrow> nptr set \<Rightarrow> nptr multiset" where
  "refs h L = sum (kids h) L"

definition counted :: "node_heap \<Rightarrow> nptr set \<Rightarrow> nptr multiset \<Rightarrow> bool" where
  "counted h L R \<longleftrightarrow> finite L \<and> L \<subseteq> {0<..<length (cells h)} \<and>
     (\<forall>a \<in> L. entry_wf (nentry (cells h ! a)) \<and> refc (cells h ! a) = int (count (refs h L + R) a)) \<and>
     set_mset (refs h L + R) \<subseteq> L"

fun chain :: "node list \<Rightarrow> nptr \<Rightarrow> nptr list \<Rightarrow> bool" where
  "chain C p [] \<longleftrightarrow> p = 0"
| "chain C p (x # xs) \<longleftrightarrow> p = x \<and> 0 < x \<and> x < length C \<and> chain C (ntag (C ! x)) xs"

definition freelist :: "node_heap \<Rightarrow> nptr set \<Rightarrow> nptr list \<Rightarrow> bool" where
  "freelist h L xs \<longleftrightarrow> chain (cells h) (free_list h) xs \<and> distinct xs \<and> set xs \<inter> L = {} \<and>
     free_object_count h = length xs"

definition heap_ok :: "node_heap \<Rightarrow> nptr set \<Rightarrow> nptr multiset \<Rightarrow> nptr list \<Rightarrow> bool" where
  "heap_ok h L R xs \<longleftrightarrow> counted h L R \<and> freelist h L xs"

text \<open>
  What a release may do: nodes whose last reference is gone move from \<open>L\<close> to the free list,
  the nodes that stay change only in their count, cells outside \<open>L\<close> do not change.
\<close>

definition shrinks :: "node_heap \<Rightarrow> nptr set \<Rightarrow> nptr list \<Rightarrow> node_heap \<Rightarrow> nptr set \<Rightarrow> nptr list \<Rightarrow> bool" where
  "shrinks h L xs h' L' xs' \<longleftrightarrow> L' \<subseteq> L \<and> set xs' = set xs \<union> (L - L') \<and>
     length (cells h') = length (cells h) \<and>
     (\<forall>a \<in> L'. \<exists>r. cells h' ! a = (cells h ! a)\<lparr>refc := r\<rparr> \<and> r \<le> refc (cells h ! a) \<and>
        (r = 0 \<longrightarrow> refc (cells h ! a) = 0)) \<and>
     (\<forall>a. a \<notin> L \<longrightarrow> cells h' ! a = cells h ! a) \<and>
     (\<forall>a \<in> L - L'. 0 < refc (cells h ! a))"

lemma shrinks_refl: "shrinks h L xs h L xs"
  unfolding shrinks_def by (auto intro!: exI [of _ "refc (cells h ! a)" for a])

lemma shrinks_kept:
  assumes "shrinks h L xs h' L' xs'" "a \<in> L'"
  obtains r where "cells h' ! a = (cells h ! a)\<lparr>refc := r\<rparr>" "r \<le> refc (cells h ! a)"
    "r = 0 \<longrightarrow> refc (cells h ! a) = 0" "a \<in> L"
  using assms unfolding shrinks_def by blast

lemma shrinks_trans:
  assumes 1: "shrinks h L xs h1 L1 xs1" and 2: "shrinks h1 L1 xs1 h2 L2 xs2"
  shows "shrinks h L xs h2 L2 xs2"
proof -
  have "\<exists>r. cells h2 ! a = (cells h ! a)\<lparr>refc := r\<rparr> \<and> r \<le> refc (cells h ! a) \<and> (r = 0 \<longrightarrow> refc (cells h ! a) = 0)"
    if a: "a \<in> L2" for a
  proof -
    from 2 a obtain r2 where r2: "cells h2 ! a = (cells h1 ! a)\<lparr>refc := r2\<rparr>" "r2 \<le> refc (cells h1 ! a)"
        "r2 = 0 \<longrightarrow> refc (cells h1 ! a) = 0" "a \<in> L1"
      by (rule shrinks_kept)
    from 1 r2(4) obtain r1 where "cells h1 ! a = (cells h ! a)\<lparr>refc := r1\<rparr>" "r1 \<le> refc (cells h ! a)"
        "r1 = 0 \<longrightarrow> refc (cells h ! a) = 0"
      by (rule shrinks_kept)
    with r2 show ?thesis by auto
  qed
  moreover have "0 < refc (cells h ! a)" if "a \<in> L - L2" for a
  proof (cases "a \<in> L1")
    case True
    from 1 True obtain r1 where "cells h1 ! a = (cells h ! a)\<lparr>refc := r1\<rparr>" "r1 \<le> refc (cells h ! a)"
      by (rule shrinks_kept)
    moreover have "0 < refc (cells h1 ! a)" using 2 True that by (auto simp: shrinks_def)
    ultimately show ?thesis by simp
  next
    case False
    with 1 that show ?thesis by (auto simp: shrinks_def)
  qed
  ultimately show ?thesis using 1 2 unfolding shrinks_def by auto
qed

lemma shrinks_outside: "shrinks h L xs h' L' xs' \<Longrightarrow> a \<notin> L \<Longrightarrow> cells h' ! a = cells h ! a"
  by (simp add: shrinks_def)

lemma heap_okD:
  assumes "heap_ok h L R xs" "a \<in> L"
  shows "0 < a" "a < length (cells h)" "entry_wf (nentry (cells h ! a))"
    "nread h a = Inr (cells h ! a)" "nwrite h a n = Inr (h\<lparr>cells := (cells h)[a := n]\<rparr>)"
    "refc (cells h ! a) = int (count (refs h L + R) a)"
  using assms by (auto simp: heap_ok_def counted_def nread_def nwrite_def)

lemma chain_cong:
  "chain C p xs \<Longrightarrow> length D = length C \<Longrightarrow> (\<And>a. a \<in> set xs \<Longrightarrow> ntag (D ! a) = ntag (C ! a)) \<Longrightarrow> chain D p xs"
  by (induction xs arbitrary: p) auto

lemma chain_less: "chain C p xs \<Longrightarrow> a \<in> set xs \<Longrightarrow> 0 < a \<and> a < length C"
  by (induction xs arbitrary: p) auto

section \<open>Retain and release\<close>

lemma refs_remove: "finite L \<Longrightarrow> a \<in> L \<Longrightarrow> refs h L = kids h a + refs h (L - {a})"
  by (simp add: refs_def sum.remove)

lemma refs_cong: "(\<And>a. a \<in> L \<Longrightarrow> nentry (cells h' ! a) = nentry (cells h ! a)) \<Longrightarrow> refs h' L = refs h L"
  by (simp add: refs_def kids_def)

text \<open>\<open>a\<close>'s count set to \<open>r\<close>.\<close>

definition with_refc :: "node_heap \<Rightarrow> nptr \<Rightarrow> int \<Rightarrow> node_heap" where
  "with_refc h a r = h\<lparr>cells := (cells h)[a := (cells h ! a)\<lparr>refc := r\<rparr>]\<rparr>"

lemma with_refc_simps [simp]:
  "length (cells (with_refc h a r)) = length (cells h)"
  "free_list (with_refc h a r) = free_list h"
  "free_object_count (with_refc h a r) = free_object_count h"
  "b \<noteq> a \<Longrightarrow> cells (with_refc h a r) ! b = cells h ! b"
  "a < length (cells h) \<Longrightarrow> cells (with_refc h a r) ! a = (cells h ! a)\<lparr>refc := r\<rparr>"
  by (simp_all add: with_refc_def)

lemma nentry_with_refc [simp]: "a < length (cells h) \<Longrightarrow> nentry (cells (with_refc h a r) ! b) = nentry (cells h ! b)"
  by (cases "b = a") simp_all

lemma ntag_with_refc [simp]: "a < length (cells h) \<Longrightarrow> ntag (cells (with_refc h a r) ! b) = ntag (cells h ! b)"
  by (cases "b = a") simp_all

lemma heap_ok_with_refc:
  assumes ok: "heap_ok h L R xs" and a: "a \<in> L"
    and r: "r = int (count (refs h L + R') a)" and R': "\<And>b. b \<noteq> a \<Longrightarrow> count R' b = count R b"
    and sub: "set_mset R' \<subseteq> L"
  shows "heap_ok (with_refc h a r) L R' xs"
proof -
  have al: "a < length (cells h)" using heap_okD [OF ok a] by simp
  have refs: "refs (with_refc h a r) L = refs h L" using al by (intro refs_cong) simp
  have "counted (with_refc h a r) L R'"
    unfolding counted_def refs
  proof (intro conjI ballI)
    show "finite L" "L \<subseteq> {0<..<length (cells (with_refc h a r))}"
      using ok by (auto simp: heap_ok_def counted_def)
    show "set_mset (refs h L + R') \<subseteq> L"
      using ok sub by (auto simp: heap_ok_def counted_def)
    fix b assume b: "b \<in> L"
    show "entry_wf (nentry (cells (with_refc h a r) ! b))"
      using heap_okD [OF ok b] al by simp
    show "refc (cells (with_refc h a r) ! b) = int (count (refs h L + R') b)"
      using heap_okD [OF ok b] r R' [of b] al by (cases "b = a") simp_all
  qed
  moreover have "freelist (with_refc h a r) L xs"
    using ok al by (auto simp: heap_ok_def freelist_def elim!: chain_cong)
  ultimately show ?thesis by (simp add: heap_ok_def)
qed

lemma retain_ok:
  assumes ok: "heap_ok h L R xs" and a: "a \<in> L"
  shows "NODE_GC_RETAIN h a = Inr (with_refc h a (refc (cells h ! a) + 1)) \<and>
     heap_ok (with_refc h a (refc (cells h ! a) + 1)) L (add_mset a R) xs"
proof
  show "NODE_GC_RETAIN h a = Inr (with_refc h a (refc (cells h ! a) + 1))"
    using heap_okD [OF ok a] by (simp add: NODE_GC_RETAIN_def with_refc_def)
  show "heap_ok (with_refc h a (refc (cells h ! a) + 1)) L (add_mset a R) xs"
  proof (rule heap_ok_with_refc [OF ok a])
    show "refc (cells h ! a) + 1 = int (count (refs h L + add_mset a R) a)"
      using heap_okD [OF ok a] by simp
    show "set_mset (add_mset a R) \<subseteq> L" using ok a by (auto simp: heap_ok_def counted_def)
  qed simp
qed

lemma drop_ok:
  assumes ok: "heap_ok h L (add_mset a R) xs"
  shows "a \<in> L" "0 < refc (cells h ! a)" "heap_ok (with_refc h a (refc (cells h ! a) - 1)) L R xs"
proof -
  show a: "a \<in> L" using ok by (auto simp: heap_ok_def counted_def)
  show "0 < refc (cells h ! a)" using heap_okD [OF ok a] by simp
  show "heap_ok (with_refc h a (refc (cells h ! a) - 1)) L R xs"
  proof (rule heap_ok_with_refc [OF ok a])
    show "refc (cells h ! a) - 1 = int (count (refs h L + R) a)"
      using heap_okD [OF ok a] by simp
    show "set_mset R \<subseteq> L" using ok by (auto simp: heap_ok_def counted_def)
  qed simp
qed

text \<open>The nodes that a cascade of releases can still visit.\<close>

definition held :: "node_heap \<Rightarrow> nptr set \<Rightarrow> nat" where
  "held h L = card {a \<in> L. 0 < refc (cells h ! a)}"

lemma held_le_cells: "heap_ok h L R xs \<Longrightarrow> held h L < length (cells h) \<or> L = {}"
proof -
  assume ok: "heap_ok h L R xs"
  then have L: "finite L" "L \<subseteq> {0<..<length (cells h)}" by (auto simp: heap_ok_def counted_def)
  have "held h L \<le> card L" unfolding held_def using L(1) by (intro card_mono) auto
  also have "card L \<le> length (cells h) - 1" using card_mono [OF _ L(2)] by simp
  finally show ?thesis using L(2) by (cases "length (cells h)") auto
qed

lemma held_shrinks:
  assumes "shrinks h L xs h' L' xs'" "finite L"
  shows "held h' L' \<le> held h L"
  unfolding held_def
proof (rule card_mono)
  show "{a \<in> L'. 0 < refc (cells h' ! a)} \<subseteq> {a \<in> L. 0 < refc (cells h ! a)}"
  proof clarify
    fix a assume a: "a \<in> L'" "0 < refc (cells h' ! a)"
    from assms(1) a(1) obtain r where "cells h' ! a = (cells h ! a)\<lparr>refc := r\<rparr>" "r \<le> refc (cells h ! a)" "a \<in> L"
      by (rule shrinks_kept)
    with a show "a \<in> L \<and> 0 < refc (cells h ! a)" by simp
  qed
qed (use assms in simp)

lemma held_drop:
  assumes "heap_ok h L R xs" "a \<in> L" "refc (cells h ! a) = 1"
  shows "Suc (held (with_refc h a 0) L) = held h L"
proof -
  let ?P = "{b \<in> L. 0 < refc (cells h ! b)}"
  have fin: "finite ?P" using assms(1) by (simp add: heap_ok_def counted_def)
  have "{b \<in> L. 0 < refc (cells (with_refc h a 0) ! b)} = ?P - {a}"
    using heap_okD(2) [OF assms(1,2)] by (auto simp: with_refc_def nth_list_update split: if_splits)
  moreover have "a \<in> ?P" using assms by simp
  then have "0 < card ?P" using fin card_gt_0_iff by blast
  ultimately show ?thesis using fin \<open>a \<in> ?P\<close> by (simp add: held_def card_Diff_singleton)
qed

text \<open>What a sweep promises for a node without references, with a budget for \<open>k\<close> held nodes.\<close>

definition sweeps :: "nat \<Rightarrow> (node_heap \<Rightarrow> nptr \<Rightarrow> node_heap res) \<Rightarrow> bool" where
  "sweeps k sw \<longleftrightarrow> (\<forall>h L R xs a. heap_ok h L R xs \<longrightarrow> a \<in> L \<longrightarrow> refc (cells h ! a) = 0 \<longrightarrow> held h L < k \<longrightarrow>
     (\<exists>h' L' xs'. sw h a = Inr h' \<and> heap_ok h' L' R xs' \<and> a \<notin> L' \<and>
        shrinks (with_refc h a 1) L xs h' L' xs'))"

lemma shrinks_with_refc:
  assumes "a \<in> L" "a < length (cells h)" "0 < r" "r < refc (cells h ! a)"
  shows "shrinks h L xs (with_refc h a r) L xs"
  unfolding shrinks_def
proof (intro conjI ballI allI impI)
  fix b assume "b \<in> L"
  show "\<exists>r'. cells (with_refc h a r) ! b = (cells h ! b)\<lparr>refc := r'\<rparr> \<and> r' \<le> refc (cells h ! b) \<and>
        (r' = 0 \<longrightarrow> refc (cells h ! b) = 0)"
  proof (cases "b = a")
    case True
    then show ?thesis using assms by (intro exI [of _ r]) simp
  next
    case False
    then show ?thesis by (intro exI [of _ "refc (cells h ! b)"]) simp
  qed
next
  fix b assume "b \<notin> L"
  with assms(1) have "b \<noteq> a" by auto
  then show "cells (with_refc h a r) ! b = cells h ! b" by simp
qed auto

lemma release_ok:
  assumes sw: "sweeps k sw" and ok: "heap_ok h L (add_mset a R) xs" and k: "held h L \<le> k"
  shows "\<exists>h' L' xs'. MOZ_RC_RELEASE sw h a = Inr h' \<and> heap_ok h' L' R xs' \<and> shrinks h L xs h' L' xs'"
proof -
  note a = drop_ok [OF ok]
  let ?n = "cells h ! a"
  let ?h = "with_refc h a (refc ?n - 1)"
  have rel: "MOZ_RC_RELEASE sw h a = (if refc ?n - 1 = 0 then sw ?h a else Inr ?h)"
    using a(2) heap_okD [OF ok a(1)] by (simp add: MOZ_RC_RELEASE_def with_refc_def)
  show ?thesis
  proof (cases "refc ?n = 1")
    case True
    have "held ?h L < k" using held_drop [OF ok a(1) True] k True by simp
    moreover have "refc (cells ?h ! a) = 0" using True heap_okD [OF ok a(1)] by simp
    ultimately obtain h' L' xs' where r: "sw ?h a = Inr h'" "heap_ok h' L' R xs'" "a \<notin> L'"
        "shrinks (with_refc ?h a 1) L xs h' L' xs'"
      using sw a(1,3) unfolding sweeps_def by blast
    have "with_refc ?h a 1 = h"
      using True heap_okD(2) [OF ok a(1)] by (simp add: with_refc_def list_update_same_conv [THEN iffD2])
    with r rel True show ?thesis by auto
  next
    case False
    then have "shrinks h L xs ?h L xs"
      using a heap_okD [OF ok a(1)] by (intro shrinks_with_refc) auto
    with rel False a(3) show ?thesis by auto
  qed
qed

section \<open>Sweeping\<close>

text \<open>A node without references taken out of the live nodes: its elements become roots.\<close>

lemma heap_ok_detach:
  assumes ok: "heap_ok h L R xs" and a: "a \<in> L" and z: "refc (cells h ! a) = 0"
  shows "heap_ok h (L - {a}) (R + kids h a) xs"
proof -
  have fin: "finite L" using ok by (simp add: heap_ok_def counted_def)
  have eq: "refs h (L - {a}) + (R + kids h a) = refs h L + R"
    using refs_remove [OF fin a, of h] by (simp add: ac_simps)
  have "count (refs h L + R) a = 0" using heap_okD [OF ok a] z by simp
  then have "a \<notin># refs h L + R" by (simp add: not_in_iff)
  then show ?thesis
    using ok unfolding heap_ok_def counted_def freelist_def eq by auto
qed

text \<open>A dead cell put on the free list.\<close>

lemma heap_ok_free:
  assumes ok: "heap_ok h L R xs" and a: "a \<notin> L" "a \<notin> set xs" "0 < a" "a < length (cells h)"
  shows "heap_ok (h\<lparr>cells := (cells h)[a := n\<lparr>ntag := free_list h\<rparr>], free_list := a,
     free_object_count := free_object_count h + 1\<rparr>) L R (a # xs)" (is "heap_ok ?h L R (a # xs)")
proof -
  have same: "cells ?h ! b = cells h ! b" if "b \<in> L" for b
    using that a(1) by (cases "b = a") auto
  then have "refs ?h L = refs h L" by (intro refs_cong) simp
  then have "counted ?h L R" using ok same by (auto simp: heap_ok_def counted_def)
  moreover have "chain ((cells h)[a := n\<lparr>ntag := free_list h\<rparr>]) (free_list h) xs"
  proof (rule chain_cong)
    show "chain (cells h) (free_list h) xs" using ok by (simp add: heap_ok_def freelist_def)
    show "ntag ((cells h)[a := n\<lparr>ntag := free_list h\<rparr>] ! b) = ntag (cells h ! b)" if "b \<in> set xs" for b
      using that a(2) by (cases "b = a") auto
  qed simp
  ultimately show ?thesis using ok a by (auto simp: heap_ok_def freelist_def)
qed

lemma upt_split: "[0..<n] = ys @ y # zs \<Longrightarrow> y = length ys \<and> y < n"
proof -
  assume eq: "[0..<n] = ys @ y # zs"
  then have "length ys < length [0..<n]" by simp
  moreover have "[0..<n] ! length ys = y" unfolding eq by simp
  ultimately show ?thesis by simp
qed

lemma sweep_loop:
  assumes sw: "sweeps f sw" and ok: "heap_ok h M (R + kids h a) xs" and a: "a \<notin> M" "0 < a" "a < length (cells h)"
    and e: "entry_wf (nentry (cells h ! a))" and f: "held h M \<le> f"
  shows "\<exists>t L1 xs1. rfold (sweep_child sw a) h [0..<entry_size (nentry (cells h ! a))] = Inr t \<and>
     heap_ok t L1 R xs1 \<and> shrinks h M xs t L1 xs1"
proof -
  let ?e = "nentry (cells h ! a)"
  let ?rest = "\<lambda>k. mset (filter (\<lambda>c. c \<noteq> 0) (drop k (entry_elems ?e)))"
  let ?P = "\<lambda>ys t. \<exists>L1 xs1. heap_ok t L1 (R + ?rest (length ys)) xs1 \<and> shrinks h M xs t L1 xs1"
  have "\<exists>t. rfold (sweep_child sw a) h [0..<entry_size ?e] = Inr t \<and> ?P [0..<entry_size ?e] t"
  proof (rule rfold_invariant [where P = ?P])
    show "?P [] h" using ok by (intro exI [of _ M] exI [of _ xs]) (simp add: kids_def shrinks_refl)
  next
    fix ys y t
    assume P: "?P ys t" and "\<exists>zs. [0..<entry_size ?e] = ys @ y # zs"
    then have y: "y = length ys" "y < entry_size ?e" using upt_split by blast+
    from P obtain L1 xs1 where t: "heap_ok t L1 (R + ?rest y) xs1" "shrinks h M xs t L1 xs1"
      using y by auto
    let ?c = "entry_elems ?e ! y"
    have rest: "?rest y = (if ?c \<noteq> 0 then add_mset ?c (?rest (Suc y)) else ?rest (Suc y))"
      using y e Cons_nth_drop_Suc [of y "entry_elems ?e"]
      by (simp flip: Cons_nth_drop_Suc)
    have "length (cells t) = length (cells h)" using t(2) by (simp add: shrinks_def)
    then have "Node_get t a y = Inr ?c"
      using y a e shrinks_outside [OF t(2) a(1)] by (simp add: Node_get_def nread_def entry_get_elems)
    then have step: "sweep_child sw a t y = (if ?c \<noteq> 0 then MOZ_RC_RELEASE sw t ?c else Inr t)"
      by (simp add: sweep_child_def)
    show "\<exists>t'. sweep_child sw a t y = Inr t' \<and> ?P (ys @ [y]) t'"
    proof (cases "?c = 0")
      case True
      with step t rest y show ?thesis by auto
    next
      case False
      have "heap_ok t L1 (add_mset ?c (R + ?rest (Suc y))) xs1" using t(1) rest False by simp
      moreover have "finite M" using ok by (simp add: heap_ok_def counted_def)
      then have "held t L1 \<le> f" using held_shrinks [OF t(2)] f by simp
      ultimately obtain t' L2 xs2 where t': "MOZ_RC_RELEASE sw t ?c = Inr t'"
          "heap_ok t' L2 (R + ?rest (Suc y)) xs2" "shrinks t L1 xs1 t' L2 xs2"
        using release_ok [OF sw] by blast
      have "?P (ys @ [y]) t'"
        using t'(2) shrinks_trans [OF t(2) t'(3)] y by (intro exI [of _ L2] exI [of _ xs2]) simp
      with step False t'(1) show ?thesis by auto
    qed
  qed
  then show ?thesis using e by auto
qed

lemma Node_sweep_ok: "sweeps k (Node_sweep k)"
proof (induction k)
  case 0
  then show ?case by (simp add: sweeps_def)
next
  case (Suc f)
  show ?case
    unfolding sweeps_def
  proof (intro allI impI)
    fix h L R xs a
    assume ok: "heap_ok h L R xs" and a: "a \<in> L" and z: "refc (cells h ! a) = 0" and f: "held h L < Suc f"
    note aD = heap_okD [OF ok a]
    let ?n = "cells h ! a" and ?M = "L - {a}"
    have fin: "finite L" using ok by (simp add: heap_ok_def counted_def)
    then have "held h ?M \<le> held h L" unfolding held_def by (intro card_mono) auto
    with f have "held h ?M \<le> f" by simp
    then obtain t L1 xs1 where t: "rfold (sweep_child (Node_sweep f) a) h [0..<entry_size (nentry ?n)] = Inr t"
        "heap_ok t L1 R xs1" "shrinks h ?M xs t L1 xs1"
      using sweep_loop [OF Suc heap_ok_detach [OF ok a z] _ aD(1-3)] by auto
    have len: "length (cells t) = length (cells h)" using t(3) by (simp add: shrinks_def)
    have ta: "cells t ! a = ?n" using shrinks_outside [OF t(3)] by simp
    have a1: "a \<notin> L1" "a \<notin> set xs1"
      using t(3) ok a by (auto simp: shrinks_def heap_ok_def freelist_def)
    let ?h = "t\<lparr>cells := (cells t)[a := (?n\<lparr>nentry := dispose_entry (nentry ?n), refc := - 1\<rparr>)\<lparr>ntag := free_list t\<rparr>],
       free_list := a, free_object_count := free_object_count t + 1\<rparr>"
    have "Node_sweep (Suc f) h a = Inr ?h"
      using aD(1,2,4) z t(1) len ta by (simp add: node_free_def nread_def nwrite_def)
    moreover have "heap_ok ?h L1 R (a # xs1)"
      using heap_ok_free [OF t(2) a1] aD(1,2) len by simp
    moreover have "shrinks (with_refc h a 1) L xs ?h L1 (a # xs1)"
      unfolding shrinks_def
    proof (intro conjI ballI allI impI)
      fix b assume b: "b \<in> L1"
      with a1 have ne: "b \<noteq> a" by auto
      from t(3) b obtain r where "cells t ! b = (cells h ! b)\<lparr>refc := r\<rparr>" "r \<le> refc (cells h ! b)"
        "r = 0 \<longrightarrow> refc (cells h ! b) = 0" by (rule shrinks_kept)
      with ne show "\<exists>r. cells ?h ! b = (cells (with_refc h a 1) ! b)\<lparr>refc := r\<rparr> \<and>
          r \<le> refc (cells (with_refc h a 1) ! b) \<and> (r = 0 \<longrightarrow> refc (cells (with_refc h a 1) ! b) = 0)"
        by auto
    next
      fix b assume b: "b \<in> L - L1"
      show "0 < refc (cells (with_refc h a 1) ! b)"
        using b t(3) aD(2) by (cases "b = a") (auto simp: shrinks_def)
    next
      fix b assume "b \<notin> L"
      with a have "b \<noteq> a" "b \<notin> ?M" by auto
      then show "cells ?h ! b = cells (with_refc h a 1) ! b" using shrinks_outside [OF t(3)] by simp
    next
      show "set (a # xs1) = set xs \<union> (L - L1)" "L1 \<subseteq> L" "length (cells ?h) = length (cells (with_refc h a 1))"
        using t(3) a a1 len by (auto simp: shrinks_def)
    qed
    ultimately show "\<exists>h' L' xs'. Node_sweep (Suc f) h a = Inr h' \<and> heap_ok h' L' R xs' \<and> a \<notin> L' \<and>
        shrinks (with_refc h a 1) L xs h' L' xs'"
      using a1 by blast
  qed
qed

lemma GC_RELEASE_ok:
  assumes ok: "heap_ok h L (add_mset a R) xs"
  shows "\<exists>h' L' xs'. NODE_GC_RELEASE h a = Inr h' \<and> heap_ok h' L' R xs' \<and> shrinks h L xs h' L' xs'"
proof -
  have "L \<noteq> {}" using drop_ok(1) [OF ok] by auto
  then have "held h L \<le> length (cells h)" using held_le_cells [OF ok] by auto
  from release_ok [OF Node_sweep_ok ok this] show ?thesis by (simp add: NODE_GC_RELEASE_def)
qed

section \<open>Allocation\<close>

lemma chain_upt:
  assumes "0 < a" "a < b" "\<And>i. a \<le> i \<Longrightarrow> i < b \<Longrightarrow> i < length C \<and> ntag (C ! i) = (if Suc i = b then 0 else Suc i)"
  shows "chain C a [a..<b]"
  using assms
proof (induction "b - a" arbitrary: a)
  case (Suc k)
  show ?case
  proof (cases "Suc a = b")
    case True
    then have "[a..<b] = [a]" by (metis upt_conv_Cons upt_conv_Nil le_refl lessI)
    with True show ?thesis using Suc.prems(1) Suc.prems(3) [of a] by simp
  next
    case False
    then have "chain C (Suc a) [Suc a..<b]" using Suc.hyps(2) Suc.prems by (intro Suc.hyps(1)) auto
    then show ?thesis using False Suc.prems(1,2) Suc.prems(3) [of a] by (simp add: upt_conv_Cons)
  qed
qed simp

lemma length_page [simp]: "length (page_nodes p fl) = PAGE_OBJECT_SIZE + 1"
  by (simp add: page_nodes_def del: upt_Suc)

lemma page_tag:
  "0 < i \<Longrightarrow> i \<le> PAGE_OBJECT_SIZE \<Longrightarrow> ntag (page_nodes p fl ! i) = (if i = PAGE_OBJECT_SIZE then fl else p + i + 1)"
  by (cases i) (simp_all add: page_nodes_def del: upt_Suc)

lemma alloc_page_ok:
  assumes ok: "heap_ok h L R []"
  shows "\<exists>h'. alloc_page h = Inr h' \<and> heap_ok h' L R [length (cells h) + 1..<length (cells h) + 1 + PAGE_OBJECT_SIZE] \<and>
     free_list h' = length (cells h) + 1 \<and> (\<forall>b < length (cells h). cells h' ! b = cells h ! b) \<and>
     length (cells h) \<le> length (cells h')"
proof -
  let ?p = "length (cells h)"
  let ?h = "h\<lparr>cells := cells h @ page_nodes ?p (free_list h), current_page := ?p # current_page h,
     free_object_count := PAGE_OBJECT_SIZE, free_list := ?p + 1\<rparr>"
  have fl: "free_list h = 0" "free_object_count h = 0" using ok by (auto simp: heap_ok_def freelist_def)
  have "alloc_page h = Inr ?h" using fl by (simp add: alloc_page_def Let_def)
  moreover have "counted ?h L R"
  proof -
    have L: "b < ?p" if "b \<in> L" for b using heap_okD [OF ok that] by simp
    have "refs ?h L = refs h L" using L by (intro refs_cong) (simp add: nth_append)
    then show ?thesis using ok L by (force simp: heap_ok_def counted_def nth_append)
  qed
  moreover have "chain (cells ?h) (?p + 1) [?p + 1..<?p + 1 + PAGE_OBJECT_SIZE]"
  proof (rule chain_upt)
    show "?p + 1 < ?p + 1 + PAGE_OBJECT_SIZE" by (simp add: PAGE_OBJECT_SIZE_def)
    fix i assume i: "?p + 1 \<le> i" "i < ?p + 1 + PAGE_OBJECT_SIZE"
    then show "i < length (cells ?h) \<and> ntag (cells ?h ! i) = (if Suc i = ?p + 1 + PAGE_OBJECT_SIZE then 0 else Suc i)"
      using page_tag [of "i - ?p" ?p "free_list h"] fl by (auto simp: nth_append)
  qed simp
  moreover have "set [?p + 1..<?p + 1 + PAGE_OBJECT_SIZE] \<inter> L = {}"
    using heap_okD [OF ok] by fastforce
  ultimately show ?thesis by (simp add: heap_ok_def freelist_def nth_append del: upt_Suc)
qed

lemma node_alloc_ok:
  assumes ok: "heap_ok h L R xs"
  shows "\<exists>a h' xs'. node_alloc h = Inr (a, h') \<and> heap_ok h' L R xs' \<and> a \<notin> L \<and> a \<notin> set xs' \<and> 0 < a \<and>
     a < length (cells h') \<and> (\<forall>b \<in> L. cells h' ! b = cells h ! b) \<and> length (cells h) \<le> length (cells h')"
proof -
  have pop: ?thesis if start: "(if free_list h = 0 then alloc_page h else Inr h) = Inr g"
      and g: "heap_ok g L R (x # ys)" "\<forall>b \<in> L. cells g ! b = cells h ! b" "length (cells h) \<le> length (cells g)" for g x ys
  proof -
    let ?h = "g\<lparr>free_list := ntag (cells g ! x), free_object_count := free_object_count g - 1\<rparr>"
    have x: "free_list g = x" "0 < x" "x < length (cells g)" "x \<notin> L" "x \<notin> set ys"
      using g(1) by (auto simp: heap_ok_def freelist_def)
    have "node_alloc h = Inr (x, ?h)" using start x by (simp add: node_alloc_def nread_def Let_def)
    moreover have "heap_ok ?h L R ys"
    proof -
      have "refs ?h L = refs g L" by (intro refs_cong) simp
      then show ?thesis using g(1) by (auto simp: heap_ok_def counted_def freelist_def)
    qed
    ultimately show ?thesis using x g(2,3) by auto
  qed
  show ?thesis
  proof (cases xs)
    case Nil
    with ok obtain g where g: "alloc_page h = Inr g"
        "heap_ok g L R [length (cells h) + 1..<length (cells h) + 1 + PAGE_OBJECT_SIZE]"
        "\<forall>b < length (cells h). cells g ! b = cells h ! b" "length (cells h) \<le> length (cells g)"
      using alloc_page_ok by blast
    have "length (cells h) + 1 < length (cells h) + 1 + PAGE_OBJECT_SIZE" by (simp add: PAGE_OBJECT_SIZE_def)
    from g(2) [unfolded upt_conv_Cons [OF this]] obtain x ys where g2: "heap_ok g L R (x # ys)" by blast
    have "free_list h = 0" using ok Nil by (simp add: heap_ok_def freelist_def)
    with g(1) have "(if free_list h = 0 then alloc_page h else Inr h) = Inr g" by simp
    moreover have "\<forall>b \<in> L. cells g ! b = cells h ! b" using g(3) heap_okD(2) [OF ok] by simp
    ultimately show ?thesis using pop [OF _ g2 _ g(4)] by simp
  next
    case (Cons x ys)
    then have "free_list h \<noteq> 0" using ok by (auto simp: heap_ok_def freelist_def)
    then show ?thesis using pop [of h x ys] ok Cons by simp
  qed
qed

text \<open>A cell attached as a live node whose elements were held as roots.\<close>

lemma heap_ok_attach:
  assumes ok: "heap_ok h L (R + mset (filter (\<lambda>c. c \<noteq> 0) (entry_elems (nentry n)))) xs"
    and a: "a \<notin> L" "a \<notin> set xs" "0 < a" "a < length (cells h)"
    and n: "entry_wf (nentry n)" "refc n = 0"
  shows "heap_ok (h\<lparr>cells := (cells h)[a := n]\<rparr>) (insert a L) R xs" (is "heap_ok ?h _ _ _")
proof -
  let ?K = "mset (filter (\<lambda>c. c \<noteq> 0) (entry_elems (nentry n)))"
  have fin: "finite L" using ok by (simp add: heap_ok_def counted_def)
  have same: "cells ?h ! b = cells h ! b" if "b \<noteq> a" for b using that by simp
  have "refs ?h L = refs h L"
  proof (rule refs_cong)
    fix b assume "b \<in> L"
    with a(1) have "b \<noteq> a" by auto
    then show "nentry (cells ?h ! b) = nentry (cells h ! b)" by simp
  qed
  then have tot: "refs ?h (insert a L) + R = refs h L + (R + ?K)"
    using refs_remove [of "insert a L" a ?h] fin a(1,4) by (simp add: kids_def ac_simps)
  have sub: "set_mset (refs h L + (R + ?K)) \<subseteq> L" using ok unfolding heap_ok_def counted_def by blast
  with a(1) have "count (refs h L + (R + ?K)) a = 0" by (meson not_in_iff subsetD)
  then have "counted ?h (insert a L) R"
    unfolding counted_def tot using ok a n sub same unfolding heap_ok_def counted_def
    by (intro conjI ballI) (auto simp: nth_list_update split: if_splits)
  moreover have "chain (cells ?h) (free_list h) xs"
  proof (rule chain_cong)
    show "chain (cells h) (free_list h) xs" using ok by (simp add: heap_ok_def freelist_def)
    show "ntag (cells ?h ! b) = ntag (cells h ! b)" if "b \<in> set xs" for b
      using that a(2) by (cases "b = a") auto
  qed simp
  then have "freelist ?h (insert a L) xs" using ok a(2) by (auto simp: heap_ok_def freelist_def)
  ultimately show ?thesis by (simp add: heap_ok_def)
qed

text \<open>A live node rewritten: its elements and the roots together are the same references.\<close>

lemma heap_ok_rewrite:
  assumes ok: "heap_ok h L R xs" and a: "a \<in> L"
    and n: "entry_wf (nentry n)" "refc n = refc (cells h ! a)"
    and bal: "mset (filter (\<lambda>c. c \<noteq> 0) (entry_elems (nentry n))) + R' = kids h a + R"
  shows "heap_ok (h\<lparr>cells := (cells h)[a := n]\<rparr>) L R' xs" (is "heap_ok ?h _ _ _")
proof -
  note aD = heap_okD [OF ok a]
  have fin: "finite L" using ok by (simp add: heap_ok_def counted_def)
  have "refs ?h (L - {a}) = refs h (L - {a})" by (intro refs_cong) auto
  then have tot: "refs ?h L + R' = refs h L + R"
    using refs_remove [OF fin a, of ?h] refs_remove [OF fin a, of h] bal aD(2) by (simp add: kids_def ac_simps)
  have "counted ?h L R'"
    unfolding counted_def tot using ok a n aD unfolding heap_ok_def counted_def
    by (intro conjI ballI) (auto simp: nth_list_update split: if_splits)
  moreover have "chain (cells ?h) (free_list h) xs"
  proof (rule chain_cong)
    show "chain (cells h) (free_list h) xs" using ok by (simp add: heap_ok_def freelist_def)
    show "ntag (cells ?h ! b) = ntag (cells h ! b)" if "b \<in> set xs" for b
      using that a ok by (cases "b = a") (auto simp: heap_ok_def freelist_def)
  qed simp
  then have "freelist ?h L xs" using ok by (simp add: heap_ok_def freelist_def)
  ultimately show ?thesis by (simp add: heap_ok_def)
qed

section \<open>Creating and changing nodes\<close>

lemma fill_array:
  assumes "n < 2 ^ 29"
  shows "\<exists>a. rfold (\<lambda>a i. ARRAY_add a 0) (ARRAY_init (replicate n 0)) [0..<n] = Inr a \<and> arr_wf a \<and>
     elts a = replicate n (0 :: nptr)"
proof -
  let ?i = "ARRAY_init (replicate n 0 :: nptr list)"
  have i: "arr_wf ?i" "elts ?i = []" using ARRAY_init_elts [of "replicate n 0 :: nptr list"] assms by simp_all
  have "rfold (\<lambda>a i. ARRAY_add a 0) ?i [0..<n] = rfold ARRAY_add ?i (replicate n 0)"
    using rfold_map [of ARRAY_add ?i "\<lambda>_. 0" "[0..<n]"] by (simp add: map_replicate_const)
  with karr.push_all [OF i(1), of "replicate n 0"] i(2) assms show ?thesis by simp
qed

text \<open>The text of a node: everything but its count, its label and its elements.\<close>

definition node_text :: "node \<Rightarrow> nat \<times> nat \<times> nat \<times> nat" where
  "node_text n = (ntag n, npos n, nlen n, nvalue n)"

lemma Node_new_ok:
  assumes ok: "heap_ok h L R xs" and small: "elm_size < 2 ^ 29"
  shows "\<exists>a h' xs'. Node_new h tag str len elm_size value = Inr (a, h') \<and> a \<notin> L \<and>
     heap_ok h' (insert a L) R xs' \<and> refc (cells h' ! a) = 0 \<and>
     node_text (cells h' ! a) = (tag, str, len, value) \<and>
     entry_elems (nentry (cells h' ! a)) = replicate elm_size 0 \<and> (\<forall>b \<in> L. cells h' ! b = cells h ! b)"
proof -
  from node_alloc_ok [OF ok] obtain a g xs' where a: "node_alloc h = Inr (a, g)" "heap_ok g L R xs'"
    "a \<notin> L" "a \<notin> set xs'" "0 < a" "a < length (cells g)" "\<forall>b \<in> L. cells g ! b = cells h ! b" by blast
  obtain e where e: "(if elm_size > MOZVM_SMALL_ARRAY_LIMIT
            then rbind (rfold (\<lambda>a i. ARRAY_add a 0) (ARRAY_init (replicate elm_size 0)) [0..<elm_size])
                   (\<lambda>a. Inr (ArrayEntry a))
            else Inr (RawEntry elm_size [0, 0])) = Inr e" "entry_wf e" "entry_elems e = replicate elm_size 0"
  proof (cases "elm_size > 2")
    case True
    from fill_array [OF small] obtain b where b: "rfold (\<lambda>a i. ARRAY_add a 0) (ARRAY_init (replicate elm_size 0)) [0..<elm_size] = Inr b"
      "arr_wf b" "elts b = replicate elm_size (0 :: nptr)" by blast
    have "asize b = elm_size" using length_elts [OF b(2)] b(3) by simp
    with True b show ?thesis by (intro that [of "ArrayEntry b"]) (simp_all add: MOZVM_SMALL_ARRAY_LIMIT_def)
  next
    case False
    then have "elm_size = 0 \<or> elm_size = 1 \<or> elm_size = 2" by auto
    then show ?thesis
      by (intro that [of "RawEntry elm_size [0, 0]"]) (auto simp: MOZVM_SMALL_ARRAY_LIMIT_def numeral_2_eq_2)
  qed
  let ?n = "(cells g ! a)\<lparr>refc := 0, ntag := tag, npos := str, nlen := len, nvalue := value, nentry := e\<rparr>"
  let ?h = "g\<lparr>cells := (cells g)[a := ?n]\<rparr>"
  have "Node_new h tag str len elm_size value = Inr (a, ?h)"
    using a(1,5,6) e(1) by (simp add: Node_new_def nread_def nwrite_def)
  moreover have "heap_ok ?h (insert a L) R xs'"
    using a e by (intro heap_ok_attach) simp_all
  moreover have "\<forall>b \<in> L. cells ?h ! b = cells h ! b"
    using a(3,7) by (metis nth_list_update_neq select_convs(1) node_heap.select_convs(1) node_heap.surjective node_heap.update_convs(1))
  ultimately show ?thesis using a e by (auto simp: node_text_def)
qed

lemma append_null_ok:
  assumes ok: "heap_ok h L R xs" and a: "a \<in> L" and small: "entry_size (nentry (cells h ! a)) + k < 2 ^ 29"
  shows "\<exists>e. rfold (\<lambda>h _. Node_append h a 0) h [0..<k] =
       Inr (h\<lparr>cells := (cells h)[a := (cells h ! a)\<lparr>nentry := e\<rparr>]\<rparr>) \<and>
     heap_ok (h\<lparr>cells := (cells h)[a := (cells h ! a)\<lparr>nentry := e\<rparr>]\<rparr>) L R xs \<and> entry_wf e \<and>
     entry_elems e = entry_elems (nentry (cells h ! a)) @ replicate k 0"
  using small
proof (induction k)
  case 0
  have "h\<lparr>cells := (cells h)[a := (cells h ! a)\<lparr>nentry := nentry (cells h ! a)\<rparr>]\<rparr> = h" by simp
  then show ?case using heap_okD(3) [OF ok a] ok by (intro exI [of _ "nentry (cells h ! a)"]) simp
next
  case (Suc k)
  then obtain e where e: "rfold (\<lambda>h _. Node_append h a 0) h [0..<k] =
       Inr (h\<lparr>cells := (cells h)[a := (cells h ! a)\<lparr>nentry := e\<rparr>]\<rparr>)"
     "heap_ok (h\<lparr>cells := (cells h)[a := (cells h ! a)\<lparr>nentry := e\<rparr>]\<rparr>) L R xs" "entry_wf e"
     "entry_elems e = entry_elems (nentry (cells h ! a)) @ replicate k 0" by auto
  let ?g = "h\<lparr>cells := (cells h)[a := (cells h ! a)\<lparr>nentry := e\<rparr>]\<rparr>"
  note aD = heap_okD [OF ok a]
  have "entry_size e + 1 < 2 ^ 29" using length_entry_elems [OF e(3)] e(4) aD(3) Suc.prems by simp
  then obtain e' where e': "entry_append e 0 = Inr e'" "entry_wf e'" "entry_elems e' = entry_elems e @ [0]"
    using entry_append_elems [OF e(3)] by blast
  have eq: "?g\<lparr>cells := (cells ?g)[a := (cells ?g ! a)\<lparr>nentry := e'\<rparr>]\<rparr> =
      h\<lparr>cells := (cells h)[a := (cells h ! a)\<lparr>nentry := e'\<rparr>]\<rparr>" using aD(2) by simp
  have "Node_append ?g a 0 = Inr (?g\<lparr>cells := (cells ?g)[a := (cells ?g ! a)\<lparr>nentry := e'\<rparr>]\<rparr>)"
    using aD(1,2) e'(1) by (simp add: Node_append_def nread_def nwrite_def)
  moreover have "heap_ok (?g\<lparr>cells := (cells ?g)[a := (cells ?g ! a)\<lparr>nentry := e'\<rparr>]\<rparr>) L R xs"
  proof (rule heap_ok_rewrite [OF e(2) a])
    show "mset (filter (\<lambda>c. c \<noteq> 0) (entry_elems (nentry ((cells ?g ! a)\<lparr>nentry := e'\<rparr>)))) + R = kids ?g a + R"
      using e'(3) aD(2) by (simp add: kids_def)
  qed (use e' in simp_all)
  ultimately have "rfold (\<lambda>h _. Node_append h a 0) h [0..<Suc k] =
       Inr (h\<lparr>cells := (cells h)[a := (cells h ! a)\<lparr>nentry := e'\<rparr>]\<rparr>)"
    "heap_ok (h\<lparr>cells := (cells h)[a := (cells h ! a)\<lparr>nentry := e'\<rparr>]\<rparr>) L R xs"
    unfolding eq using e(1) by (simp_all add: rfold_append)
  moreover have "entry_elems e' = entry_elems (nentry (cells h ! a)) @ replicate (Suc k) 0"
    using e'(3) e(4) by (simp add: replicate_append_same)
  ultimately show ?case using e'(2) by blast
qed

lemma mset_replace:
  assumes "i < length es" "n \<noteq> (0 :: nat)"
  shows "(if es ! i \<noteq> 0 then {#es ! i#} else {#}) + mset (filter (\<lambda>c. c \<noteq> 0) (es[i := n])) =
     add_mset n (mset (filter (\<lambda>c. c \<noteq> 0) es))"
  using assms by (subst (2) id_take_nth_drop [OF assms(1)]) (simp add: upd_conv_take_nth_drop)

lemma Node_get_ok:
  assumes "heap_ok h L R xs" "a \<in> L"
  shows "Node_get h a i = Inr (if i < length (entry_elems (nentry (cells h ! a)))
     then entry_elems (nentry (cells h ! a)) ! i else 0)"
  using heap_okD [OF assms] by (simp add: Node_get_def entry_get_elems)

lemma Node_append_ok:
  assumes ok: "heap_ok h L R xs" and a: "a \<in> L" and n: "n = 0 \<or> n \<in> L"
    and small: "entry_size (nentry (cells h ! a)) + 1 < 2 ^ 29"
  shows "\<exists>h'. Node_append h a n = Inr h' \<and> heap_ok h' L R xs \<and>
     entry_elems (nentry (cells h' ! a)) = entry_elems (nentry (cells h ! a)) @ [n]"
proof -
  let ?R = "(if n = 0 then {#} else {#n#}) + R"
  obtain g where g: "(if n \<noteq> 0 then NODE_GC_RETAIN h n else Inr h) = Inr g" "heap_ok g L ?R xs"
    "nentry (cells g ! a) = nentry (cells h ! a)"
  proof (cases "n = 0")
    case False
    with n have "n \<in> L" by simp
    with retain_ok [OF ok this] heap_okD [OF ok this] False show ?thesis
      by (intro that [of "with_refc h n (refc (cells h ! n) + 1)"]) simp_all
  qed (use ok that in simp)
  note aD = heap_okD [OF g(2) a]
  obtain e where e: "entry_append (nentry (cells g ! a)) n = Inr e" "entry_wf e"
    "entry_elems e = entry_elems (nentry (cells g ! a)) @ [n]"
    using entry_append_elems [OF aD(3), of n] g(3) small by auto
  let ?h = "g\<lparr>cells := (cells g)[a := (cells g ! a)\<lparr>nentry := e\<rparr>]\<rparr>"
  have "Node_append h a n = Inr ?h" using g(1) aD(4,5) e(1) by (simp add: Node_append_def)
  moreover have "heap_ok ?h L R xs"
    using e by (intro heap_ok_rewrite [OF g(2) a]) (auto simp: kids_def)
  ultimately show ?thesis using e(3) g(3) aD(2) by auto
qed

text \<open>The label of a live node changes nothing that is counted.\<close>

lemma label_ok:
  assumes "heap_ok h L R xs" "n \<in> L"
  shows "heap_ok (h\<lparr>cells := (cells h)[n := (cells h ! n)\<lparr>labelId := l\<rparr>]\<rparr>) L R xs"
  using heap_okD [OF assms] by (intro heap_ok_rewrite [OF assms]) (simp_all add: kids_def)

text \<open>
  Storing a child into a node under construction (no references yet): the old child is released,
  a missing position is created, the new child is counted once more and labelled.
\<close>

lemma Node_set_ok:
  assumes ok: "heap_ok h L R xs" and a: "a \<in> L" and n: "n \<in> L" and an: "a \<noteq> n"
    and z: "refc (cells h ! a) = 0"
    and small: "i + 1 + length (entry_elems (nentry (cells h ! a))) < 2 ^ 29"
  shows "\<exists>h' L' xs'. Node_set h a i l n = Inr h' \<and> heap_ok h' L' R xs' \<and> a \<in> L' \<and> n \<in> L' \<and> L' \<subseteq> L \<and>
     entry_elems (nentry (cells h' ! a)) =
       (entry_elems (nentry (cells h ! a)) @
        replicate (i + 1 - length (entry_elems (nentry (cells h ! a)))) 0)[i := n] \<and>
     refc (cells h' ! a) = 0 \<and> labelId (cells h' ! n) = uint l \<and> labelId (cells h' ! a) = labelId (cells h ! a) \<and>
     (\<forall>b \<in> L'. node_text (cells h' ! b) = node_text (cells h ! b) \<and>
        (b \<noteq> a \<longrightarrow> nentry (cells h' ! b) = nentry (cells h ! b)) \<and>
        (b \<noteq> n \<longrightarrow> labelId (cells h' ! b) = labelId (cells h ! b))) \<and>
     ((entry_elems (nentry (cells h ! a)) @
        replicate (i + 1 - length (entry_elems (nentry (cells h ! a)))) 0) ! i = 0 \<longrightarrow> L' = L)"
proof -
  let ?es = "entry_elems (nentry (cells h ! a))"
  let ?v = "if i < length ?es then ?es ! i else 0"
  let ?h1 = "with_refc h n (refc (cells h ! n) + 1)"
  let ?lab = "\<lambda>g. g\<lparr>cells := (cells g)[n := (cells g ! n)\<lparr>labelId := uint l\<rparr>]\<rparr>"
  note aD = heap_okD [OF ok a] and nD = heap_okD [OF ok n]
  have h1: "NODE_GC_RETAIN h n = Inr ?h1" "heap_ok ?h1 L (add_mset n R) xs" using retain_ok [OF ok n] by simp_all
  have h1a: "cells ?h1 ! a = cells h ! a" using an by simp
  show ?thesis
  proof (cases "?v = 0")
    case True
    let ?h2 = "?lab ?h1" and ?k = "i + 1 - length ?es"
    have h2: "heap_ok ?h2 L (add_mset n R) xs" using label_ok [OF h1(2) n] by simp
    have h2a: "cells ?h2 ! a = cells h ! a" using an by simp
    have "entry_size (nentry (cells ?h2 ! a)) + ?k < 2 ^ 29" using h2a length_entry_elems [OF aD(3)] small by simp
    from append_null_ok [OF h2 a this] obtain e where
      e: "rfold (\<lambda>h _. Node_append h a 0) ?h2 [0..<?k] = Inr (?h2\<lparr>cells := (cells ?h2)[a := (cells ?h2 ! a)\<lparr>nentry := e\<rparr>]\<rparr>)"
         "heap_ok (?h2\<lparr>cells := (cells ?h2)[a := (cells ?h2 ! a)\<lparr>nentry := e\<rparr>]\<rparr>) L (add_mset n R) xs" "entry_wf e"
         "entry_elems e = ?es @ replicate ?k 0" unfolding h2a by blast
    let ?h3 = "?h2\<lparr>cells := (cells ?h2)[a := (cells ?h2 ! a)\<lparr>nentry := e\<rparr>]\<rparr>"
    have ie: "i < entry_size e" using length_entry_elems [OF e(3)] e(4) by simp
    then obtain e' where e': "entry_put e i n = Inr e'" "entry_wf e'" "entry_elems e' = (entry_elems e)[i := n]"
      using entry_put_elems [OF e(3)] by blast
    have vi: "(?es @ replicate ?k 0) ! i = 0" using True by (auto simp: nth_append split: if_splits)
    let ?h4 = "?h3\<lparr>cells := (cells ?h3)[a := (cells ?h3 ! a)\<lparr>nentry := e'\<rparr>]\<rparr>"
    have "Node_set h a i l n = Inr ?h4"
      using an True h1(1) e(1) e'(1) aD nD Node_get_ok [OF ok a, of i]
      by (simp add: Node_set_def Node_length_def nread_def nwrite_def)
    moreover have "heap_ok ?h4 L R xs"
    proof (rule heap_ok_rewrite [OF e(2) a])
      show "mset (filter (\<lambda>c. c \<noteq> 0) (entry_elems (nentry ((cells ?h3 ! a)\<lparr>nentry := e'\<rparr>)))) + R = kids ?h3 a + add_mset n R"
        using mset_replace [of i "entry_elems e" n] ie e(3,4) e'(3) vi nD(1) aD(2) by (simp add: kids_def)
    qed (use e' in simp_all)
    moreover have "node_text (cells ?h4 ! b) = node_text (cells h ! b) \<and>
        (b \<noteq> a \<longrightarrow> nentry (cells ?h4 ! b) = nentry (cells h ! b)) \<and>
        (b \<noteq> n \<longrightarrow> labelId (cells ?h4 ! b) = labelId (cells h ! b))" if "b \<in> L" for b
      using aD(2) nD(2) an by (cases "b = a"; cases "b = n") (simp_all add: node_text_def)
    ultimately show ?thesis
      using a n e(4) e'(3) aD(2) nD(2) an z
      by (intro exI [of _ ?h4] exI [of _ L] exI [of _ xs]) simp
  next
    case False
    then have i: "i < length ?es" "?es ! i \<noteq> 0" by (auto split: if_splits)
    let ?K = "mset (filter (\<lambda>c. c \<noteq> 0) (?es[i := n]))"
    have bal: "add_mset n R + kids ?h1 a = add_mset (?es ! i) (R + ?K)"
      using mset_replace [OF i(1), of n] i(2) nD(1) h1a by (simp add: kids_def)
    have "heap_ok ?h1 (L - {a}) (add_mset (?es ! i) (R + ?K)) xs"
      using heap_ok_detach [OF h1(2) a] z h1a unfolding bal by simp
    from GC_RELEASE_ok [OF this] obtain h2 L2 xs2 where h2: "NODE_GC_RELEASE ?h1 (?es ! i) = Inr h2"
        "heap_ok h2 L2 (R + ?K) xs2" "shrinks ?h1 (L - {a}) xs h2 L2 xs2" by blast
    have "n \<in> set (?es[i := n])" using i(1) by (rule set_update_memI)
    then have "n \<in># R + ?K" using nD(1) by simp
    then have n2: "n \<in> L2" using h2(2) by (auto simp: heap_ok_def counted_def)
    have sub: "L2 \<subseteq> L - {a}" using h2(3) by (simp add: shrinks_def)
    have len: "length (cells h2) = length (cells h)" using h2(3) by (simp add: shrinks_def)
    have h2a: "cells h2 ! a = cells h ! a" using shrinks_outside [OF h2(3), of a] h1a by simp
    let ?h3 = "?lab h2"
    have h3: "heap_ok ?h3 L2 (R + ?K) xs2" using label_ok [OF h2(2) n2] by simp
    have h3a: "cells ?h3 ! a = cells h ! a" using an h2a by simp
    obtain e' where e': "entry_put (nentry (cells h ! a)) i n = Inr e'" "entry_wf e'" "entry_elems e' = ?es[i := n]"
      using entry_put_elems [OF aD(3)] i(1) length_entry_elems [OF aD(3)] by auto
    let ?h4 = "?h3\<lparr>cells := (cells ?h3)[a := (cells h ! a)\<lparr>nentry := e'\<rparr>]\<rparr>"
    have "Node_set h a i l n = Inr ?h4"
      using an i h1(1) h2(1) e'(1) aD nD Node_get_ok [OF ok a, of i] len h2a
      by (simp add: Node_set_def Node_length_def nread_def nwrite_def)
    moreover have "heap_ok ?h4 (insert a L2) R xs2"
    proof (rule heap_ok_attach)
      show "heap_ok ?h3 L2 (R + mset (filter (\<lambda>c. c \<noteq> 0) (entry_elems (nentry ((cells h ! a)\<lparr>nentry := e'\<rparr>))))) xs2"
        using h3 e'(3) by simp
      show "a \<notin> set xs2" "a \<notin> L2" using h2(3) ok a by (auto simp: shrinks_def heap_ok_def freelist_def)
    qed (use aD len e' z in simp_all)
    moreover have "node_text (cells ?h4 ! b) = node_text (cells h ! b) \<and>
        (b \<noteq> a \<longrightarrow> nentry (cells ?h4 ! b) = nentry (cells h ! b)) \<and>
        (b \<noteq> n \<longrightarrow> labelId (cells ?h4 ! b) = labelId (cells h ! b))" if b: "b \<in> insert a L2" for b
    proof (cases "b = a")
      case True
      then show ?thesis using aD(2) len an by (simp add: node_text_def)
    next
      case False
      with b have "b \<in> L2" by simp
      with h2(3) obtain r where "cells h2 ! b = (cells ?h1 ! b)\<lparr>refc := r\<rparr>" by (rule shrinks_kept)
      with False nD(2) len show ?thesis by (cases "b = n") (simp_all add: node_text_def)
    qed
    ultimately show ?thesis
      using a n2 sub e'(3) aD(2) nD(2) an z i len
      by (intro exI [of _ ?h4] exI [of _ "insert a L2"] exI [of _ xs2]) (auto simp: nth_append)
  qed
qed

section \<open>Properties\<close>

text \<open>C12: Reference counting is exact. On a heap whose counts are the numbers of references,
dropping one reference never fails (no assertion, no dangling pointer, and the recursion of
\<open>Node_sweep\<close> ends), leaves a heap whose counts are again exact, puts every node it frees on the
free list, changes nothing but counts in the nodes that stay, and leaves behind no new node
without references.\<close>

theorem node_release_exact:
  assumes "heap_ok h L (add_mset a R) xs"
  shows "\<exists>h' L' xs'. NODE_GC_RELEASE h a = Inr h' \<and> heap_ok h' L' R xs' \<and> L' \<subseteq> L \<and>
     set xs' = set xs \<union> (L - L') \<and>
     (\<forall>b \<in> L'. (\<exists>r. cells h' ! b = (cells h ! b)\<lparr>refc := r\<rparr>) \<and>
        (refc (cells h' ! b) = 0 \<longrightarrow> refc (cells h ! b) = 0))"
proof -
  from GC_RELEASE_ok [OF assms] obtain h' L' xs' where r: "NODE_GC_RELEASE h a = Inr h'"
    "heap_ok h' L' R xs'" "shrinks h L xs h' L' xs'" by blast
  have "(\<exists>r. cells h' ! b = (cells h ! b)\<lparr>refc := r\<rparr>) \<and> (refc (cells h' ! b) = 0 \<longrightarrow> refc (cells h ! b) = 0)"
    if b: "b \<in> L'" for b
  proof -
    from r(3) b obtain r where "cells h' ! b = (cells h ! b)\<lparr>refc := r\<rparr>" "r = 0 \<longrightarrow> refc (cells h ! b) = 0"
      by (rule shrinks_kept)
    then show ?thesis by auto
  qed
  with r show ?thesis by (auto simp: shrinks_def)
qed

text \<open>A node that holds another, which is also held from outside.\<close>

definition example_heap :: node_heap where
  "example_heap = \<lparr>cells = [null_node, null_node\<lparr>refc := 1, nentry := RawEntry 1 [2, 0]\<rparr>, null_node\<lparr>refc := 2\<rparr>],
     free_list = 0, free_object_count = 0, current_page = []\<rparr>"

lemma example_heap_ok: "heap_ok example_heap {1, 2} {#1, 2#} []"
proof -
  have "kids example_heap 1 = {#2#}" "kids example_heap 2 = {#}"
    by (simp_all add: kids_def example_heap_def null_node_def numeral_2_eq_2)
  then have "refs example_heap {1, 2} = {#2#}" by (simp add: refs_def)
  then show ?thesis
    by (simp add: heap_ok_def counted_def freelist_def) (simp add: example_heap_def null_node_def numeral_2_eq_2)
qed

lemma node_release_exact_witness:
  "\<exists>h' L' xs'. NODE_GC_RELEASE example_heap 1 = Inr h' \<and> heap_ok h' L' {#2#} xs' \<and> 2 \<in> L' \<and> L' \<subseteq> {1, 2}"
proof -
  from node_release_exact [of example_heap "{1, 2}" 1 "{#2#}" "[]"] example_heap_ok
  obtain h' L' xs' where r: "NODE_GC_RELEASE example_heap 1 = Inr h'" "heap_ok h' L' {#2#} xs'" "L' \<subseteq> {1, 2}"
    by (auto simp: add_mset_commute)
  then have "2 \<in> L'" by (simp add: heap_ok_def counted_def)
  with r show ?thesis by blast
qed

text \<open>C19: Allocating a node never hands out a live one: from the free list, or from a fresh page
when it is empty, \<open>Node_new\<close> returns a cell that was not live, with the given text, no references
and \<open>elm_size\<close> empty positions, and changes no live node.\<close>

theorem node_new_fresh:
  assumes "heap_ok h L R xs" "elm_size < 2 ^ 29"
  shows "\<exists>a h' xs'. Node_new h tag str len elm_size value = Inr (a, h') \<and> a \<notin> L \<and>
     heap_ok h' (insert a L) R xs' \<and> node_text (cells h' ! a) = (tag, str, len, value) \<and>
     refc (cells h' ! a) = 0 \<and> Node_length h' a = Inr elm_size \<and>
     (\<forall>i. Node_get h' a i = Inr 0) \<and> (\<forall>b \<in> L. cells h' ! b = cells h ! b)"
proof -
  from Node_new_ok [OF assms] obtain a h' xs' where
    r: "Node_new h tag str len elm_size value = Inr (a, h')" "a \<notin> L" "heap_ok h' (insert a L) R xs'"
     "refc (cells h' ! a) = 0" "node_text (cells h' ! a) = (tag, str, len, value)"
     "entry_elems (nentry (cells h' ! a)) = replicate elm_size 0" "\<forall>b \<in> L. cells h' ! b = cells h ! b" by blast
  have a: "a \<in> insert a L" by simp
  have "Node_length h' a = Inr elm_size"
    using heap_okD [OF r(3) a] length_entry_elems [of "nentry (cells h' ! a)"] r(6) by (simp add: Node_length_def)
  moreover have "\<forall>i. Node_get h' a i = Inr 0" using Node_get_ok [OF r(3) a] r(6) by simp
  ultimately show ?thesis using r by blast
qed

lemma node_new_fresh_witness:
  "\<exists>a h' xs'. Node_new example_heap 7 3 2 5 0 = Inr (a, h') \<and> a \<notin> {1, 2} \<and>
     heap_ok h' (insert a {1, 2}) {#1, 2#} xs' \<and> Node_length h' a = Inr 5"
  using node_new_fresh [OF example_heap_ok, of 5 7 3 2 0] by auto

text \<open>C18: The elements of a node are a list: on a node under construction, \<open>Node_set\<close> stores the
child at its index, filling missing positions with NULL and releasing the child that was there,
gives the child the label, keeps the other elements, and keeps every count exact; the small
in-place array and the growable array behave the same, including the switch between them.\<close>

theorem node_set_get:
  assumes "heap_ok h L R xs" "a \<in> L" "n \<in> L" "a \<noteq> n" "refc (cells h ! a) = 0"
    and "Node_length h a = Inr k" "i + 1 + k < 2 ^ 29"
  shows "\<exists>h' L' xs'. Node_set h a i l n = Inr h' \<and> heap_ok h' L' R xs' \<and> {a, n} \<subseteq> L' \<and>
     Node_length h' a = Inr (max k (i + 1)) \<and> labelId (cells h' ! n) = uint l \<and>
     (\<forall>j. Node_get h' a j = (if j = i then Inr n else Node_get h a j))"
proof -
  let ?es = "entry_elems (nentry (cells h ! a))"
  note aD = heap_okD [OF assms(1,2)]
  have k: "length ?es = k" using assms(6) aD(4) length_entry_elems [OF aD(3)] by (simp add: Node_length_def)
  from Node_set_ok [OF assms(1-5), of i l] k assms(7) obtain h' L' xs' where
    r: "Node_set h a i l n = Inr h'" "heap_ok h' L' R xs'" "a \<in> L'" "n \<in> L'"
     "entry_elems (nentry (cells h' ! a)) = (?es @ replicate (i + 1 - k) 0)[i := n]" "labelId (cells h' ! n) = uint l"
    by auto
  have len: "length (entry_elems (nentry (cells h' ! a))) = max k (i + 1)" using r(5) k by simp
  then have "Node_length h' a = Inr (max k (i + 1))"
    using heap_okD [OF r(2,3)] length_entry_elems [of "nentry (cells h' ! a)"] by (simp add: Node_length_def)
  moreover have "Node_get h' a j = (if j = i then Inr n else Node_get h a j)" for j
    using Node_get_ok [OF r(2,3), of j] Node_get_ok [OF assms(1,2), of j] len k
    by (auto simp: r(5) nth_append nth_list_update)
  ultimately show ?thesis using r by blast
qed

lemma node_set_get_witness:
  "\<exists>a h h' L' xs'. Node_new example_heap 7 3 2 1 0 = Inr (a, h) \<and> Node_set h a 4 9 2 = Inr h' \<and>
     heap_ok h' L' {#1, 2#} xs' \<and> Node_length h' a = Inr 5 \<and> Node_get h' a 4 = Inr 2"
proof -
  from Node_new_ok [OF example_heap_ok, of 1 7 3 2 0] obtain a h xs where
    r: "Node_new example_heap 7 3 2 1 0 = Inr (a, h)" "a \<notin> {1, 2}" "heap_ok h (insert a {1, 2}) {#1, 2#} xs"
      "refc (cells h ! a) = 0" "entry_elems (nentry (cells h ! a)) = [0]" by auto
  then have "Node_length h a = Inr 1"
    using heap_okD [OF r(3), of a] length_entry_elems [of "nentry (cells h ! a)"] by (simp add: Node_length_def)
  with node_set_get [OF r(3) _ _ _ r(4), of 2 1 4 9] r(2) obtain h' L' xs' where
    "Node_set h a 4 9 2 = Inr h'" "heap_ok h' L' {#1, 2#} xs'" "Node_length h' a = Inr 5" "Node_get h' a 4 = Inr 2"
    by auto
  with r(1) show ?thesis by blast
qed

end
