(* ===== verification/Memo.thy ===== *)
theory Memo
  imports Node
begin

text \<open>
  The memo table of \<open>src/src/libnez/memo.c\<close> in its elastic variant (\<open>MOZVM_MEMO_TYPE_ELASTIC\<close>): a
  direct-mapped table of \<open>w * 2 ^ LOG2(n)\<close> entries for \<open>n\<close> memo points. The key of an entry is
  its hash, the position shifted by \<open>LOG2(n) + 1\<close> with the memo point in the low bits; a
  colliding key evicts. Results are counted references to nodes. The functions' constant
  return values (1 for set, 0 for fail) are left out.

  The union of \<open>result\<close> and \<open>failed\<close> is one number: a node pointer, or \<open>MEMO_ENTRY_FAILED\<close>.
\<close>

section \<open>State and operations\<close>

record memo_entry =
  mhash :: u64
  mresult :: nat
  consumed :: u32
  mstate :: u32

instantiation memo_entry_ext :: (zero) zero
begin

definition "zero_memo_entry_ext = memo_entry_ext 0 0 0 0 (0 :: 'a)"

instance ..

end

record memo =
  ary :: "memo_entry ARRAY"
  shift :: nat
  mask :: u32

definition MEMO_ENTRY_FAILED :: nat where
  "MEMO_ENTRY_FAILED = 2 ^ 64 - 1"

definition memo_elastic_init :: "memo_entry list \<Rightarrow> u32 \<Rightarrow> u32 \<Rightarrow> memo res" where
  "memo_elastic_init block w n =
     rbind (shl1 (LOG2 n)) (\<lambda>k.
     let len = w * of_nat k
     in rbind (rguard OutOfBounds (length block = unat len)) (\<lambda>_.
        rbind (rfold (\<lambda>a _. ARRAY_add a 0) (ARRAY_init block) [0..<unat len]) (\<lambda>a.
          Inr \<lparr>ary = a, shift = LOG2 n + 1, mask = len - 1\<rparr>)))"

definition memo_hash :: "memo \<Rightarrow> nat \<Rightarrow> u32 \<Rightarrow> u64" where
  "memo_hash m pos memoId = push_bit (shift m) (of_nat pos) OR ucast memoId"

definition memo_idx :: "memo \<Rightarrow> u64 \<Rightarrow> u32" where
  "memo_idx m hash = ucast (hash AND ucast (mask m))"

text \<open>\<open>if (e->result && e->failed != MEMO_ENTRY_FAILED) NODE_GC_RELEASE(e->result);\<close>\<close>

definition memo_drop :: "node_heap \<Rightarrow> memo_entry \<Rightarrow> node_heap res" where
  "memo_drop h e = (if mresult e \<noteq> 0 \<and> mresult e \<noteq> MEMO_ENTRY_FAILED then NODE_GC_RELEASE h (mresult e) else Inr h)"

definition memo_elastic_set ::
  "memo \<Rightarrow> node_heap \<Rightarrow> nat \<Rightarrow> u32 \<Rightarrow> nptr \<Rightarrow> u32 \<Rightarrow> int \<Rightarrow> (memo \<times> node_heap) res" where
  "memo_elastic_set m h pos memoId result cons state =
     (let hash = memo_hash m pos memoId; idx = memo_idx m hash
      in rbind (ARRAY_get (ary m) (unat idx)) (\<lambda>e.
         rbind (memo_drop h e) (\<lambda>h.
         rbind (ARRAY_set (ary m) (unat idx)
           (e\<lparr>mhash := hash, consumed := cons, mstate := word_of_int state, mresult := result\<rparr>)) (\<lambda>a.
           Inr (m\<lparr>ary := a\<rparr>, h)))))"

definition memo_elastic_fail :: "memo \<Rightarrow> node_heap \<Rightarrow> nat \<Rightarrow> u32 \<Rightarrow> (memo \<times> node_heap) res" where
  "memo_elastic_fail m h pos memoId =
     (let hash = memo_hash m pos memoId; idx = memo_idx m hash
      in rbind (ARRAY_get (ary m) (unat idx)) (\<lambda>old.
         rbind (memo_drop h old) (\<lambda>h.
         rbind (ARRAY_set (ary m) (unat idx) (old\<lparr>mhash := hash, mresult := MEMO_ENTRY_FAILED\<rparr>)) (\<lambda>a.
           Inr (m\<lparr>ary := a\<rparr>, h)))))"

definition memo_elastic_get :: "memo \<Rightarrow> nat \<Rightarrow> u32 \<Rightarrow> u32 \<Rightarrow> memo_entry option res" where
  "memo_elastic_get m pos memoId state =
     (let hash = memo_hash m pos memoId; idx = memo_idx m hash
      in rbind (ARRAY_get (ary m) (unat idx)) (\<lambda>e.
           Inr (if mhash e = hash then if mstate e = state then Some e else None else None)))"

definition memo_elastic_dispose :: "memo \<Rightarrow> node_heap \<Rightarrow> (memo \<times> node_heap) res" where
  "memo_elastic_dispose m h =
     rbind (rfold (\<lambda>h i. rbind (ARRAY_get (ary m) i) (memo_drop h)) h [0..<asize (ary m)]) (\<lambda>h.
       Inr (m\<lparr>ary := ARRAY_dispose (ary m)\<rparr>, h))"

definition memo_init :: "memo_entry list \<Rightarrow> u32 \<Rightarrow> u32 \<Rightarrow> memo res" where
  "memo_init block w n = memo_elastic_init block w n"

definition memo_dispose :: "memo \<Rightarrow> node_heap \<Rightarrow> (memo \<times> node_heap) res" where
  "memo_dispose m h = memo_elastic_dispose m h"

definition memo_get :: "memo \<Rightarrow> nat \<Rightarrow> u32 \<Rightarrow> u8 \<Rightarrow> memo_entry option res" where
  "memo_get m pos memoId state = memo_elastic_get m pos memoId (ucast state)"

definition memo_fail :: "memo \<Rightarrow> node_heap \<Rightarrow> nat \<Rightarrow> u32 \<Rightarrow> (memo \<times> node_heap) res" where
  "memo_fail m h pos memoId = memo_elastic_fail m h pos memoId"

definition memo_set :: "memo \<Rightarrow> node_heap \<Rightarrow> nat \<Rightarrow> u32 \<Rightarrow> nptr \<Rightarrow> u32 \<Rightarrow> int \<Rightarrow> (memo \<times> node_heap) res" where
  "memo_set m h pos memoId result cons state =
     rbind (if result \<noteq> 0 then NODE_GC_RETAIN h result else Inr h) (\<lambda>h.
       memo_elastic_set m h pos memoId result cons state)"

section \<open>Keys\<close>

text \<open>The positions and memo points whose hash loses nothing.\<close>

definition key_ok :: "memo \<Rightarrow> nat \<times> u32 \<Rightarrow> bool" where
  "key_ok m k \<longleftrightarrow> 0 < fst k \<and> fst k * 2 ^ shift m < 2 ^ 64 \<and> unat (snd k) < 2 ^ shift m"

lemma unat_memo_hash:
  assumes "key_ok m (pos, i)"
  shows "unat (memo_hash m pos i) = pos * 2 ^ shift m + unat i"
proof -
  let ?p = "push_bit (shift m) (of_nat pos) :: u64"
  have less: "pos * 2 ^ shift m + unat i < 2 ^ 64"
  proof -
    have s: "shift m < 64"
    proof (rule ccontr)
      assume "\<not> shift m < 64"
      then have "(2 :: nat) ^ 64 \<le> 2 ^ shift m" by (intro power_increasing) simp_all
      then have "(2 :: nat) ^ 64 \<le> pos * 2 ^ shift m" using assms by (cases pos) (auto simp: key_ok_def)
      with assms show False by (simp add: key_ok_def)
    qed
    then have pow: "(2 :: nat) ^ 64 = 2 ^ (64 - shift m) * 2 ^ shift m" by (simp flip: power_add)
    have "pos * 2 ^ shift m < 2 ^ (64 - shift m) * 2 ^ shift m"
      using assms unfolding pow [symmetric] by (simp add: key_ok_def)
    then have "pos < 2 ^ (64 - shift m)" by simp
    then have "(pos + 1) * 2 ^ shift m \<le> 2 ^ (64 - shift m) * 2 ^ shift m" by (intro mult_right_mono) simp_all
    with assms pow show ?thesis by (simp add: key_ok_def)
  qed
  have p: "?p = of_nat (pos * 2 ^ shift m)" by (simp add: push_bit_eq_mult)
  have "?p AND ucast i = 0"
  proof (rule bit_word_eqI)
    fix n
    have "\<not> bit i n" if "shift m \<le> n"
    proof -
      have le: "(2 :: nat) ^ shift m \<le> 2 ^ n" using that by simp
      from assms have "unat i < 2 ^ shift m" by (simp add: key_ok_def)
      from less_le_trans [OF this le] have "unat i div 2 ^ n = 0" by simp
      then have "\<not> bit (unat i) n" by (simp add: bit_iff_odd)
      then show ?thesis by (auto simp: bit_simps dest: bit_imp_le_length)
    qed
    then show "bit (?p AND ucast i) n = bit (0 :: u64) n" by (auto simp: bit_simps)
  qed
  then have "memo_hash m pos i = ?p + ucast i" by (simp add: memo_hash_def disjunctive_add_eq_or)
  also have "\<dots> = of_nat (pos * 2 ^ shift m + unat i)" by (simp add: p)
  finally have "memo_hash m pos i = of_nat (pos * 2 ^ shift m + unat i)" .
  moreover have "unat (of_nat (pos * 2 ^ shift m + unat i) :: u64) = pos * 2 ^ shift m + unat i"
    using less by (rule unat_of_nat_u64)
  ultimately show ?thesis by simp
qed

lemma memo_hash_inj:
  assumes "key_ok m (p, i)" "key_ok m (q, j)" "memo_hash m p i = memo_hash m q j"
  shows "p = q \<and> i = j"
proof -
  have eq: "p * 2 ^ shift m + unat i = q * 2 ^ shift m + unat j"
    using unat_memo_hash [OF assms(1)] unat_memo_hash [OF assms(2)] assms(3) by simp
  have lt: "unat i < 2 ^ shift m" "unat j < 2 ^ shift m" using assms(1,2) by (simp_all add: key_ok_def)
  have "p = (p * 2 ^ shift m + unat i) div 2 ^ shift m" using lt by simp
  also have "\<dots> = q" unfolding eq using lt by simp
  finally have "p = q" .
  with eq show ?thesis by (simp add: word_unat_eq_iff)
qed

lemma memo_hash_nonzero: "key_ok m (p, i) \<Longrightarrow> memo_hash m p i \<noteq> 0"
proof
  assume k: "key_ok m (p, i)" and z: "memo_hash m p i = 0"
  from unat_memo_hash [OF k] z have "p * 2 ^ shift m = 0" by simp
  with k show False by (simp add: key_ok_def)
qed

section \<open>The table\<close>

definition memo_wf :: "memo \<Rightarrow> bool" where
  "memo_wf m \<longleftrightarrow> arr_wf (ary m) \<and> unat (mask m) < asize (ary m)"

lemma memo_idx_less: "memo_wf m \<Longrightarrow> unat (memo_idx m hash) < asize (ary m)"
proof -
  assume wf: "memo_wf m"
  have "hash AND ucast (mask m) \<le> ucast (mask m)" by (rule word_and_le1)
  then have "unat (hash AND ucast (mask m)) \<le> unat (ucast (mask m) :: u64)" by (simp add: word_le_nat_alt)
  also have "\<dots> \<le> unat (mask m)" by (simp add: unsigned_ucast_eq take_bit_nat_less_eq_self)
  finally have "unat (hash AND ucast (mask m)) \<le> unat (mask m)" .
  moreover have "unat (memo_idx m hash) \<le> unat (hash AND ucast (mask m))"
    unfolding memo_idx_def by (simp add: unsigned_ucast_eq take_bit_nat_less_eq_self)
  ultimately show ?thesis using wf by (simp add: memo_wf_def)
qed

text \<open>The entry a key is mapped to, and the table with it replaced.\<close>

definition slot :: "memo \<Rightarrow> nat \<Rightarrow> u32 \<Rightarrow> nat" where
  "slot m pos i = unat (memo_idx m (memo_hash m pos i))"

lemma slot_less: "memo_wf m \<Longrightarrow> slot m pos i < asize (ary m)"
  by (simp add: slot_def memo_idx_less)

lemma memo_read: "memo_wf m \<Longrightarrow> ARRAY_get (ary m) (slot m pos i) = Inr (elts (ary m) ! slot m pos i)"
  by (simp add: ARRAY_get_elts memo_wf_def slot_less)

lemma memo_write:
  assumes "memo_wf m" "k < asize (ary m)"
  shows "\<exists>a. ARRAY_set (ary m) k e = Inr a \<and> memo_wf (m\<lparr>ary := a\<rparr>) \<and> elts a = (elts (ary m))[k := e]"
proof -
  from assms have "arr_wf (ary m)" by (simp add: memo_wf_def)
  from ARRAY_set_elts [OF this assms(2)] obtain a where
    a: "ARRAY_set (ary m) k e = Inr a" "arr_wf a" "elts a = (elts (ary m))[k := e]" by blast
  have "asize a = asize (ary m)" using length_elts [OF a(2)] a(3) assms(1) by (simp add: memo_wf_def)
  with a assms show ?thesis by (simp add: memo_wf_def)
qed

lemma memo_get_slot:
  "memo_wf m \<Longrightarrow> memo_get m pos i st =
     Inr (let e = elts (ary m) ! slot m pos i in
       if mhash e = memo_hash m pos i \<and> mstate e = ucast st then Some e else None)"
  using memo_read [of m pos i] by (simp add: memo_get_def memo_elastic_get_def slot_def Let_def)

text \<open>The counted references of the table.\<close>

definition held_by :: "memo_entry \<Rightarrow> nptr multiset" where
  "held_by e = (if mresult e \<noteq> 0 \<and> mresult e \<noteq> MEMO_ENTRY_FAILED then {#mresult e#} else {#})"

definition memo_refs :: "memo \<Rightarrow> nptr multiset" where
  "memo_refs m = sum_list (map held_by (elts (ary m)))"

lemma sum_list_update:
  "k < length xs \<Longrightarrow> sum_list (map f (xs[k := x])) + f (xs ! k) = sum_list (map f xs) + (f x :: 'a multiset)"
  by (induction xs arbitrary: k) (auto simp: ac_simps split: nat.split)

lemma drop_entry_ok:
  assumes "heap_ok h L (held_by e + R) xs"
  shows "\<exists>h' L' xs'. memo_drop h e = Inr h' \<and> heap_ok h' L' R xs' \<and> L' \<subseteq> L"
  using assms GC_RELEASE_ok [of h L "mresult e" R xs]
  by (auto simp: memo_drop_def held_by_def shrinks_def split: if_splits)

lemma retain_result_ok:
  assumes "heap_ok h L R xs" "n = 0 \<or> n \<in> L" "n \<noteq> MEMO_ENTRY_FAILED"
  shows "\<exists>h'. (if n \<noteq> 0 then NODE_GC_RETAIN h n else Inr h) = Inr h' \<and>
     heap_ok h' L ((if n \<noteq> 0 then {#n#} else {#}) + R) xs"
  using assms retain_ok [of h L R xs n] by auto

text \<open>Replacing an entry: the old reference is dropped, the new one is the caller's.\<close>

lemma replace_ok:
  assumes wf: "memo_wf m" and k: "k < asize (ary m)" and ok: "heap_ok h L (memo_refs m + (held_by e + R)) xs"
  shows "\<exists>h' L' xs' a. memo_drop h (elts (ary m) ! k) = Inr h' \<and> ARRAY_set (ary m) k e = Inr a \<and>
     memo_wf (m\<lparr>ary := a\<rparr>) \<and> elts a = (elts (ary m))[k := e] \<and>
     heap_ok h' L' (memo_refs (m\<lparr>ary := a\<rparr>) + R) xs' \<and> L' \<subseteq> L"
proof -
  from memo_write [OF wf k] obtain a where a: "ARRAY_set (ary m) k e = Inr a" "memo_wf (m\<lparr>ary := a\<rparr>)"
    "elts a = (elts (ary m))[k := e]" by blast
  have "k < length (elts (ary m))" using wf k by (simp add: memo_wf_def)
  from sum_list_update [OF this, of held_by e] have
    "memo_refs m + (held_by e + R) = held_by (elts (ary m) ! k) + (memo_refs (m\<lparr>ary := a\<rparr>) + R)"
    by (simp add: memo_refs_def a(3) ac_simps)
  with ok have "heap_ok h L (held_by (elts (ary m) ! k) + (memo_refs (m\<lparr>ary := a\<rparr>) + R)) xs" by simp
  from drop_entry_ok [OF this] a show ?thesis by blast
qed

lemma memo_set_ok:
  assumes wf: "memo_wf m" and ok: "heap_ok h L (memo_refs m + R) xs"
    and n: "n = 0 \<or> n \<in> L" "n \<noteq> MEMO_ENTRY_FAILED"
  shows "\<exists>m' h' L' xs'. memo_set m h pos i n c st = Inr (m', h') \<and> memo_wf m' \<and>
     shift m' = shift m \<and> mask m' = mask m \<and>
     elts (ary m') = (elts (ary m))[slot m pos i := \<lparr>mhash = memo_hash m pos i, mresult = n, consumed = c, mstate = word_of_int st\<rparr>] \<and>
     heap_ok h' L' (memo_refs m' + R) xs' \<and> L' \<subseteq> L"
proof -
  let ?e = "(elts (ary m) ! slot m pos i)\<lparr>mhash := memo_hash m pos i, consumed := c, mstate := word_of_int st, mresult := n\<rparr>"
  from retain_result_ok [OF ok n] obtain g where g: "(if n \<noteq> 0 then NODE_GC_RETAIN h n else Inr h) = Inr g"
    "heap_ok g L ((if n \<noteq> 0 then {#n#} else {#}) + (memo_refs m + R)) xs" by blast
  have "(if n \<noteq> 0 then {#n#} else {#}) + (memo_refs m + R) = memo_refs m + (held_by ?e + R)"
    using n(2) by (simp add: held_by_def ac_simps)
  with g(2) have g2: "heap_ok g L (memo_refs m + (held_by ?e + R)) xs" by (simp only:)
  from replace_ok [OF wf slot_less [OF wf, of pos i] g2] obtain h' L' xs' a where
    r: "memo_drop g (elts (ary m) ! slot m pos i) = Inr h'" "ARRAY_set (ary m) (slot m pos i) ?e = Inr a"
     "memo_wf (m\<lparr>ary := a\<rparr>)" "elts a = (elts (ary m))[slot m pos i := ?e]"
     "heap_ok h' L' (memo_refs (m\<lparr>ary := a\<rparr>) + R) xs'" "L' \<subseteq> L" by blast
  have "memo_set m h pos i n c st = Inr (m\<lparr>ary := a\<rparr>, h')"
    using g(1) r(1,2) memo_read [OF wf, of pos i]
    by (simp add: memo_set_def memo_elastic_set_def slot_def Let_def)
  moreover have "?e = \<lparr>mhash = memo_hash m pos i, mresult = n, consumed = c, mstate = word_of_int st\<rparr>" by simp
  note r(4) [unfolded this]
  ultimately show ?thesis using r(3,5,6) by (intro exI [of _ "m\<lparr>ary := a\<rparr>"] exI [of _ h'] exI [of _ L'] exI [of _ xs']) simp
qed

lemma memo_fail_ok:
  assumes wf: "memo_wf m" and ok: "heap_ok h L (memo_refs m + R) xs"
  shows "\<exists>m' h' L' xs' e. memo_fail m h pos i = Inr (m', h') \<and> memo_wf m' \<and>
     shift m' = shift m \<and> mask m' = mask m \<and>
     elts (ary m') = (elts (ary m))[slot m pos i := e] \<and> mhash e = memo_hash m pos i \<and> mresult e = MEMO_ENTRY_FAILED \<and>
     heap_ok h' L' (memo_refs m' + R) xs' \<and> L' \<subseteq> L"
proof -
  let ?e = "(elts (ary m) ! slot m pos i)\<lparr>mhash := memo_hash m pos i, mresult := MEMO_ENTRY_FAILED\<rparr>"
  have "held_by ?e = {#}" by (simp add: held_by_def)
  with ok have "heap_ok h L (memo_refs m + (held_by ?e + R)) xs" by simp
  from replace_ok [OF wf slot_less [OF wf, of pos i] this] obtain h' L' xs' a where
    r: "memo_drop h (elts (ary m) ! slot m pos i) = Inr h'" "ARRAY_set (ary m) (slot m pos i) ?e = Inr a"
     "memo_wf (m\<lparr>ary := a\<rparr>)" "elts a = (elts (ary m))[slot m pos i := ?e]"
     "heap_ok h' L' (memo_refs (m\<lparr>ary := a\<rparr>) + R) xs'" "L' \<subseteq> L" by blast
  have "memo_fail m h pos i = Inr (m\<lparr>ary := a\<rparr>, h')"
    using r(1,2) memo_read [OF wf, of pos i]
    by (simp add: memo_fail_def memo_elastic_fail_def slot_def Let_def)
  with r show ?thesis
    by (intro exI [of _ "m\<lparr>ary := a\<rparr>"] exI [of _ h'] exI [of _ L'] exI [of _ xs'] exI [of _ ?e]) simp
qed

lemma zero_entry [simp]: "mhash 0 = 0" "mresult 0 = 0" "held_by (0 :: memo_entry) = {#}"
  by (simp_all add: zero_memo_entry_ext_def held_by_def)

lemma sum_list_replicate_empty [simp]: "sum_list (replicate k {#}) = {#}"
  by (induction k) simp_all

lemma memo_init_ok:
  assumes k: "LOG2 n < 31" and len: "0 < unat (w * 2 ^ LOG2 n)" "unat (w * 2 ^ LOG2 n) < 2 ^ 29"
    and block: "length block = unat (w * 2 ^ LOG2 n)"
  shows "\<exists>m. memo_init block w n = Inr m \<and> memo_wf m \<and> shift m = LOG2 n + 1 \<and>
     elts (ary m) = replicate (unat (w * 2 ^ LOG2 n)) 0 \<and> memo_refs m = {#}"
proof -
  let ?l = "unat (w * 2 ^ LOG2 n)"
  have i: "arr_wf (ARRAY_init block)" "elts (ARRAY_init block) = []"
    using ARRAY_init_elts [of block] block len by simp_all
  have "rfold (\<lambda>a _. ARRAY_add a 0) (ARRAY_init block) [0..<?l] = rfold ARRAY_add (ARRAY_init block) (replicate ?l 0)"
    using rfold_map [of ARRAY_add "ARRAY_init block" "\<lambda>_. 0" "[0..<?l]"] by (simp add: map_replicate_const)
  with karr.push_all [OF i(1), of "replicate ?l 0"] i(2) len obtain a where
    a: "rfold (\<lambda>a _. ARRAY_add a 0) (ARRAY_init block) [0..<?l] = Inr a" "arr_wf a" "elts a = replicate ?l 0"
    by auto
  have sz: "asize a = ?l" using length_elts [OF a(2)] a(3) by simp
  have "w * 2 ^ LOG2 n \<noteq> 0" using len(1) by auto
  then have "unat (w * 2 ^ LOG2 n - 1) < ?l" by (rule measure_unat)
  then have "memo_wf \<lparr>ary = a, shift = LOG2 n + 1, mask = w * 2 ^ LOG2 n - 1\<rparr>"
    using a(2) sz by (simp add: memo_wf_def)
  with a k block show ?thesis
    by (simp add: memo_init_def memo_elastic_init_def shl1_def Let_def memo_refs_def)
qed

section \<open>Runs of operations\<close>

text \<open>Set a result (position, memo point, node, consumed, state), or a failure.\<close>

datatype memo_op =
    MSet nat u32 nptr u32 int
  | MFail nat u32

fun memo_step :: "memo \<times> node_heap \<Rightarrow> memo_op \<Rightarrow> (memo \<times> node_heap) res" where
  "memo_step (m, h) (MSet p i n c st) = memo_set m h p i n c st"
| "memo_step (m, h) (MFail p i) = memo_fail m h p i"

fun op_key :: "memo_op \<Rightarrow> nat \<times> u32" where
  "op_key (MSet p i n c st) = (p, i)"
| "op_key (MFail p i) = (p, i)"

text \<open>What an entry holds for an operation; a failure leaves the old length and state.\<close>

fun records :: "memo_op \<Rightarrow> memo_entry \<Rightarrow> bool" where
  "records (MSet p i n c st) e \<longleftrightarrow> mresult e = n \<and> consumed e = c \<and> mstate e = word_of_int st"
| "records (MFail p i) e \<longleftrightarrow> mresult e = MEMO_ENTRY_FAILED"

definition last_op :: "nat \<times> u32 \<Rightarrow> memo_op list \<Rightarrow> memo_op option" where
  "last_op k ops = find (\<lambda>x. op_key x = k) (rev ops)"

lemma last_op_snoc: "last_op k (ops @ [x]) = (if op_key x = k then Some x else last_op k ops)"
  by (simp add: last_op_def)

text \<open>Every entry in use is where its hash says and holds what the last operation on its key set.\<close>

definition memo_sound :: "memo \<Rightarrow> memo_op list \<Rightarrow> bool" where
  "memo_sound m ops \<longleftrightarrow> (\<forall>j < asize (ary m). let e = elts (ary m) ! j in
     mhash e = 0 \<or> (\<exists>p i x. key_ok m (p, i) \<and> mhash e = memo_hash m p i \<and> j = slot m p i \<and>
        last_op (p, i) ops = Some x \<and> records x e))"

lemma memo_sound_step:
  assumes sound: "memo_sound m ops" and wf: "memo_wf m" "memo_wf m'"
    and upd: "elts (ary m') = (elts (ary m))[slot m p i := e]" "shift m' = shift m" "mask m' = mask m"
    and e: "mhash e = memo_hash m p i" "records x e" "op_key x = (p, i)" "key_ok m (p, i)"
  shows "memo_sound m' (ops @ [x])"
proof -
  have same: "memo_hash m' q j = memo_hash m q j" "slot m' q j = slot m q j" "key_ok m' k = key_ok m k" for q j k
    using upd by (simp_all add: memo_hash_def slot_def memo_idx_def key_ok_def)
  have sz: "asize (ary m') = asize (ary m)"
    using arg_cong [OF upd(1), of length] wf by (simp add: memo_wf_def)
  show ?thesis
    unfolding memo_sound_def Let_def
  proof (intro allI impI)
    fix j assume j: "j < asize (ary m')"
    let ?f = "elts (ary m') ! j"
    show "mhash ?f = 0 \<or> (\<exists>p i y. key_ok m' (p, i) \<and> mhash ?f = memo_hash m' p i \<and> j = slot m' p i \<and>
        last_op (p, i) (ops @ [x]) = Some y \<and> records y ?f)"
    proof (cases "j = slot m p i")
      case True
      then have "?f = e" using upd(1) j sz wf by (simp add: memo_wf_def)
      with e True same show ?thesis by (auto simp: last_op_snoc)
    next
      case False
      then have f: "?f = elts (ary m) ! j" using upd(1) by simp
      show ?thesis
      proof (cases "mhash ?f = 0")
        case False
        with sound j sz f obtain q k y where y: "key_ok m (q, k)" "mhash ?f = memo_hash m q k" "j = slot m q k"
          "last_op (q, k) ops = Some y" "records y ?f"
          unfolding memo_sound_def Let_def by metis
        with \<open>j \<noteq> slot m p i\<close> e(3) have "op_key x \<noteq> (q, k)" by auto
        with y show ?thesis unfolding same last_op_snoc by auto
      qed simp
    qed
  qed
qed

fun memo_op_ok :: "memo \<Rightarrow> nptr set \<Rightarrow> memo_op \<Rightarrow> bool" where
  "memo_op_ok m L (MSet p i n c st) \<longleftrightarrow> key_ok m (p, i) \<and> (n = 0 \<or> n \<in> L) \<and> n \<noteq> MEMO_ENTRY_FAILED"
| "memo_op_ok m L (MFail p i) \<longleftrightarrow> key_ok m (p, i)"

lemma memo_step_ok:
  assumes wf: "memo_wf m" and ok: "heap_ok h L (memo_refs m + R) xs" and x: "memo_op_ok m L x"
    and sound: "memo_sound m ops"
  shows "\<exists>m' h' L' xs'. memo_step (m, h) x = Inr (m', h') \<and> memo_wf m' \<and> shift m' = shift m \<and>
     heap_ok h' L' (memo_refs m' + R) xs' \<and> L' \<subseteq> L \<and> memo_sound m' (ops @ [x])"
proof (cases x)
  case (MSet p i n c st)
  with x have n: "key_ok m (p, i)" "n = 0 \<or> n \<in> L" "n \<noteq> MEMO_ENTRY_FAILED" by simp_all
  let ?e = "\<lparr>mhash = memo_hash m p i, mresult = n, consumed = c, mstate = word_of_int st\<rparr>"
  from memo_set_ok [OF wf ok n(2,3), of p i c st] obtain m' h' L' xs' where
    r: "memo_set m h p i n c st = Inr (m', h')" "memo_wf m'" "shift m' = shift m" "mask m' = mask m"
      "elts (ary m') = (elts (ary m))[slot m p i := ?e]" "heap_ok h' L' (memo_refs m' + R) xs'" "L' \<subseteq> L" by blast
  have "memo_sound m' (ops @ [x])"
    using MSet n(1) by (intro memo_sound_step [OF sound wf r(2) r(5,3,4)]) simp_all
  with r MSet show ?thesis by auto
next
  case (MFail p i)
  with x have n: "key_ok m (p, i)" by simp
  from memo_fail_ok [OF wf ok, of p i] obtain m' h' L' xs' e where
    r: "memo_fail m h p i = Inr (m', h')" "memo_wf m'" "shift m' = shift m" "mask m' = mask m"
      "elts (ary m') = (elts (ary m))[slot m p i := e]" "mhash e = memo_hash m p i" "mresult e = MEMO_ENTRY_FAILED"
      "heap_ok h' L' (memo_refs m' + R) xs'" "L' \<subseteq> L" by blast
  have "memo_sound m' (ops @ [x])"
    using MFail n r(6,7) by (intro memo_sound_step [OF sound wf r(2) r(5,3,4)]) simp_all
  with r MFail show ?thesis by auto
qed

text \<open>Roots other than the table's keep the nodes that later operations name alive.\<close>

lemma memo_run_ok:
  assumes "memo_wf m" "heap_ok h L (memo_refs m + R) xs" "memo_sound m done"
    and "\<forall>x \<in> set ops. memo_op_ok m (set_mset R) x"
  shows "\<exists>m' h' L' xs'. rfold memo_step (m, h) ops = Inr (m', h') \<and> memo_wf m' \<and> shift m' = shift m \<and>
     heap_ok h' L' (memo_refs m' + R) xs' \<and> memo_sound m' (done @ ops)"
  using assms
proof (induction ops arbitrary: m h L xs "done")
  case (Cons x ops)
  have R: "set_mset R \<subseteq> L" using Cons.prems(2) by (auto simp: heap_ok_def counted_def)
  have "memo_op_ok m L x" using Cons.prems(4) R by (cases x) auto
  from memo_step_ok [OF Cons.prems(1,2) this Cons.prems(3)] obtain m' h' L' xs' where
    s: "memo_step (m, h) x = Inr (m', h')" "memo_wf m'" "shift m' = shift m"
      "heap_ok h' L' (memo_refs m' + R) xs'" "memo_sound m' (done @ [x])" by blast
  have "memo_op_ok m' = memo_op_ok m"
  proof (intro ext)
    show "memo_op_ok m' S y = memo_op_ok m S y" for S y
      using s(3) by (cases y) (simp_all add: key_ok_def)
  qed
  with Cons.IH [OF s(2,4,5)] Cons.prems(4) s(1,3) show ?case by auto
qed auto

lemma dispose_loop:
  assumes wf: "memo_wf m" and ok: "heap_ok h L (memo_refs m + R) xs"
  shows "\<exists>h'. rfold (\<lambda>h i. rbind (ARRAY_get (ary m) i) (memo_drop h)) h [0..<asize (ary m)] = Inr h' \<and>
     (\<exists>L' xs'. heap_ok h' L' R xs' \<and> L' \<subseteq> L)"
proof -
  let ?es = "elts (ary m)"
  let ?P = "\<lambda>ys t. \<exists>L' xs'. heap_ok t L' (sum_list (map held_by (drop (length ys) ?es)) + R) xs' \<and> L' \<subseteq> L"
  have len: "length ?es = asize (ary m)" using wf by (simp add: memo_wf_def)
  have "\<exists>t. rfold (\<lambda>h i. rbind (ARRAY_get (ary m) i) (memo_drop h)) h [0..<asize (ary m)] = Inr t \<and> ?P [0..<asize (ary m)] t"
  proof (rule rfold_invariant [where P = ?P])
    show "?P [] h" using ok by (auto simp: memo_refs_def)
    fix ys y t
    assume P: "?P ys t" and "\<exists>zs. [0..<asize (ary m)] = ys @ y # zs"
    then have y: "y = length ys" "y < asize (ary m)" using upt_split by blast+
    then have d: "drop y ?es = ?es ! y # drop (Suc y) ?es" using len by (simp add: Cons_nth_drop_Suc)
    from P obtain L1 xs1 where t: "heap_ok t L1 (held_by (?es ! y) + (sum_list (map held_by (drop (Suc y) ?es)) + R)) xs1" "L1 \<subseteq> L"
      unfolding y(1) [symmetric] d by (auto simp: ac_simps)
    from drop_entry_ok [OF t(1)] obtain t' L2 xs2 where
      "memo_drop t (?es ! y) = Inr t'" "heap_ok t' L2 (sum_list (map held_by (drop (Suc y) ?es)) + R) xs2" "L2 \<subseteq> L1" by blast
    with y wf t(2) show "\<exists>t'. rbind (ARRAY_get (ary m) y) (memo_drop t) = Inr t' \<and> ?P (ys @ [y]) t'"
      by (auto simp: ARRAY_get_elts memo_wf_def)
  qed
  then show ?thesis using len by auto
qed

section \<open>Properties\<close>

lemma init_sound: "memo_init block w n = Inr m \<Longrightarrow> elts (ary m) = replicate k 0 \<Longrightarrow> memo_wf m \<Longrightarrow> memo_sound m []"
  using length_elts [of "ary m"] by (simp add: memo_sound_def Let_def memo_wf_def)

text \<open>C15: The memo table is a sound cache. After any run of stores and failures on a fresh table,
a hit for a position and memo point is the result of the last operation on exactly that key: the
stored node, consumed length and state, or the failure mark; an entry that a colliding key
evicted is a miss, never a wrong hit. No operation of the run goes wrong, and every node count
stays exact.\<close>

theorem memo_sound_cache:
  assumes "LOG2 n < 31" "0 < unat (w * 2 ^ LOG2 n)" "unat (w * 2 ^ LOG2 n) < 2 ^ 29"
    and "length block = unat (w * 2 ^ LOG2 n)" "memo_init block w n = Inr m0"
    and "heap_ok h L R xs" "\<forall>x \<in> set ops. memo_op_ok m0 (set_mset R) x" "key_ok m0 (p, i)"
  shows "\<exists>m h' L' xs' r. rfold memo_step (m0, h) ops = Inr (m, h') \<and> heap_ok h' L' (memo_refs m + R) xs' \<and>
     memo_get m p i st = Inr r \<and>
     (\<forall>e. r = Some e \<longrightarrow> (\<exists>x. last_op (p, i) ops = Some x \<and> records x e \<and> mstate e = ucast st))"
proof -
  from memo_init_ok [OF assms(1-4)] assms(5) have m0: "memo_wf m0" "memo_refs m0 = {#}"
    "elts (ary m0) = replicate (unat (w * 2 ^ LOG2 n)) 0" by auto
  have h0: "heap_ok h L (memo_refs m0 + R) xs" using m0(2) assms(6) by simp
  from memo_run_ok [OF m0(1) h0 init_sound [OF assms(5) m0(3,1)] assms(7)] obtain m h' L' xs' where
    r: "rfold memo_step (m0, h) ops = Inr (m, h')" "memo_wf m" "shift m = shift m0"
      "heap_ok h' L' (memo_refs m + R) xs'" "memo_sound m ops" by auto
  have k: "key_ok m (p, i)" using assms(8) r(3) by (simp add: key_ok_def)
  let ?e = "elts (ary m) ! slot m p i"
  have "\<exists>x. last_op (p, i) ops = Some x \<and> records x ?e" if hit: "mhash ?e = memo_hash m p i"
  proof -
    have "mhash ?e \<noteq> 0" using memo_hash_nonzero [OF k] hit by simp
    with r(5) slot_less [OF r(2)] obtain q j x where "key_ok m (q, j)" "mhash ?e = memo_hash m q j"
      "last_op (q, j) ops = Some x" "records x ?e" unfolding memo_sound_def Let_def by blast
    moreover from this hit memo_hash_inj [OF k this(1)] have "q = p" "j = i" by simp_all
    ultimately show ?thesis by blast
  qed
  then show ?thesis using r memo_get_slot [OF r(2), of p i st]
    by (intro exI [of _ m] exI [of _ h'] exI [of _ L'] exI [of _ xs']) (auto simp: Let_def split: if_splits)
qed

lemma memo_sound_cache_witness:
  "\<exists>m0 m h'. memo_init (replicate 8 0) 2 3 = Inr m0 \<and>
     rfold memo_step (m0, example_heap) [MSet 5 1 2 10 0, MFail 6 0, MSet 5 1 1 11 1] = Inr (m, h') \<and>
     (\<exists>r. memo_get m 5 1 1 = Inr r)"
proof -
  have log: "LOG2 3 = 2" by (simp add: LOG2_bitlen bitlen_pos)
  from memo_init_ok [of 3 2 "replicate 8 0"] obtain m0 where
    m0: "memo_init (replicate 8 0) 2 3 = Inr m0" "shift m0 = 3" by (auto simp: log)
  then have "key_ok m0 (5, 1)" "key_ok m0 (6, 0)" by (simp_all add: key_ok_def)
  with memo_sound_cache [of 3 2 "replicate 8 0" m0 example_heap "{1, 2}" "{#1, 2#}" "[]"
      "[MSet 5 1 2 10 0, MFail 6 0, MSet 5 1 1 11 1]" 5 1 1] m0 example_heap_ok
  show ?thesis by (auto simp: log MEMO_ENTRY_FAILED_def)
qed

text \<open>C20: What was stored is found: right after storing a result (or a failure over an entry of
the same state), the lookup of the same position, memo point and state hits and gives the node,
the consumed length and the state.\<close>

theorem memo_set_get:
  assumes "memo_wf m" "heap_ok h L (memo_refs m + R) xs" "result = 0 \<or> result \<in> L" "result \<noteq> MEMO_ENTRY_FAILED"
  shows "\<exists>m' h' e. memo_set m h pos i result cons (int (unat st)) = Inr (m', h') \<and>
     memo_get m' pos i st = Inr (Some e) \<and> mresult e = result \<and> consumed e = cons"
proof -
  let ?e = "\<lparr>mhash = memo_hash m pos i, mresult = result, consumed = cons, mstate = word_of_int (int (unat st))\<rparr>"
  from memo_set_ok [OF assms(1,2,3,4), of pos i cons "int (unat st)"] obtain m' h' where
    r: "memo_set m h pos i result cons (int (unat st)) = Inr (m', h')" "memo_wf m'" "shift m' = shift m" "mask m' = mask m"
      "elts (ary m') = (elts (ary m))[slot m pos i := ?e]" by blast
  have same: "slot m' pos i = slot m pos i" "memo_hash m' pos i = memo_hash m pos i"
    using r(3,4) by (simp_all add: slot_def memo_hash_def memo_idx_def)
  have "slot m pos i < length (elts (ary m))"
    using slot_less [OF assms(1)] assms(1) by (simp add: memo_wf_def)
  then have "elts (ary m') ! slot m' pos i = ?e" using r(5) same by simp
  moreover have "(word_of_int (int (unat st)) :: u32) = ucast st" by (simp add: ucast_u8_u32)
  ultimately show ?thesis using r(1) memo_get_slot [OF r(2), of pos i st] same by (simp add: Let_def)
qed

lemma memo_set_get_witness:
  "\<exists>m m' h' e. memo_init (replicate 8 0) 2 3 = Inr m \<and> memo_set m example_heap 5 1 2 10 7 = Inr (m', h') \<and>
     memo_get m' 5 1 7 = Inr (Some e) \<and> mresult e = 2"
proof -
  have log: "LOG2 3 = 2" by (simp add: LOG2_bitlen bitlen_pos)
  from memo_init_ok [of 3 2 "replicate 8 0"] obtain m where
    m: "memo_init (replicate 8 0) 2 3 = Inr m" "memo_wf m" "memo_refs m = {#}" by (auto simp: log)
  with memo_set_get [OF m(2), of example_heap "{1, 2}" "{#1, 2#}" "[]" 2 5 1 10 7] example_heap_ok
  show ?thesis by (auto simp: MEMO_ENTRY_FAILED_def)
qed

text \<open>C21: Disposing of the memo table releases exactly the references it held: the counts of the
remaining nodes are exact for the other roots.\<close>

theorem memo_dispose_releases:
  assumes "memo_wf m" "heap_ok h L (memo_refs m + R) xs"
  shows "\<exists>m' h' L' xs'. memo_dispose m h = Inr (m', h') \<and> heap_ok h' L' R xs' \<and> L' \<subseteq> L"
proof -
  from dispose_loop [OF assms] obtain h' L' xs' where
    "rfold (\<lambda>h i. rbind (ARRAY_get (ary m) i) (memo_drop h)) h [0..<asize (ary m)] = Inr h'"
    "heap_ok h' L' R xs'" "L' \<subseteq> L" by blast
  then show ?thesis by (simp add: memo_dispose_def memo_elastic_dispose_def) blast
qed

lemma memo_dispose_releases_witness:
  "\<exists>m m1 h1 m' h' L' xs'. memo_init (replicate 8 0) 2 3 = Inr m \<and> memo_set m example_heap 5 1 2 10 7 = Inr (m1, h1) \<and>
     memo_dispose m1 h1 = Inr (m', h') \<and> heap_ok h' L' {#1, 2#} xs'"
proof -
  have log: "LOG2 3 = 2" by (simp add: LOG2_bitlen bitlen_pos)
  from memo_init_ok [of 3 2 "replicate 8 0"] obtain m where
    m: "memo_init (replicate 8 0) 2 3 = Inr m" "memo_wf m" "memo_refs m = {#}" by (auto simp: log)
  then have "heap_ok example_heap {1, 2} (memo_refs m + {#1, 2#}) []" using example_heap_ok by simp
  from memo_set_ok [OF m(2) this, of 2 5 1 10 7] obtain m1 h1 L1 xs1 where
    r: "memo_set m example_heap 5 1 2 10 7 = Inr (m1, h1)" "memo_wf m1" "heap_ok h1 L1 (memo_refs m1 + {#1, 2#}) xs1"
    by (auto simp: MEMO_ENTRY_FAILED_def)
  from memo_dispose_releases [OF r(2,3)] m r(1) show ?thesis by blast
qed

end
