(* ===== verification/Ast.thy ===== *)
theory Ast
  imports Node Tx_Log
begin

text \<open>
  The abstract machine of \<open>src/src/libnez/ast.c\<close> and \<open>ast.h\<close> that builds syntax trees (the boxed
  log, without \<open>AST_LOG_UNBOX\<close>, positions being pointers). The parser appends to a log while it
  runs; a choice that fails rolls the log back; a commit builds a node from the entries since a
  savepoint and replaces them by one link.

  The two unions of a log entry are numbers: \<open>lval\<close> is \<open>e.val\<close> or \<open>e.ref\<close>, \<open>lidx\<close> is
  \<open>i.tag\<close>, \<open>i.labelId\<close> or \<open>i.pos\<close>. \<open>shift\<close> is only ever 0 or the distance of two entries of
  the log, so it is a natural number. Pointers into the log are indices, and the inclusive
  \<open>tail\<close> of the code's loops is the exclusive \<open>stop\<close> here. \<open>ast_create_node\<close> recurses at every
  push; its step budget is the number of entries left plus one, shown to be enough.
\<close>

section \<open>The log\<close>

datatype AstLogType = TypeTag | TypePop | TypeReplace | TypePush | TypeLeftFold | TypeNew | TypeLink | TypeCapture

record AstLog =
  ltype :: AstLogType
  lshift :: nat
  lval :: nat
  lidx :: nat

text \<open>Entries behind the size are written before they are read.\<close>

instantiation AstLog_ext :: (zero) zero
begin

definition "zero_AstLog_ext = AstLog_ext TypeTag 0 0 0 (0 :: 'a)"

instance ..

end

record AstMachine =
  logs :: "AstLog ARRAY"
  last_linked :: nptr
  parsed :: nptr
  source :: nat

definition AstMachine_init :: "AstLog list \<Rightarrow> nat \<Rightarrow> AstMachine res" where
  "AstMachine_init block src =
     rbind (ARRAY_ensureSize (ARRAY_init block) (length block)) (\<lambda>a.
       Inr \<lparr>logs = a, last_linked = 0, parsed = 0, source = src\<rparr>)"

definition AstMachine_setSource :: "AstMachine \<Rightarrow> nat \<Rightarrow> AstMachine" where
  "AstMachine_setSource ast src = ast\<lparr>source := src\<rparr>"

definition ast_log :: "AstMachine \<Rightarrow> AstLogType \<Rightarrow> nat \<Rightarrow> nat \<Rightarrow> AstMachine res" where
  "ast_log ast type pos val =
     rbind (ARRAY_ensureSize (logs ast) 1) (\<lambda>a.
     rbind (ARRAY_get a (asize a)) (\<lambda>l.
     rbind (ARRAY_set a (asize a) (l\<lparr>ltype := type, lshift := 0, lval := val, lidx := pos\<rparr>)) (\<lambda>a.
       Inr (ast\<lparr>logs := a\<lparr>asize := asize a + 1\<rparr>\<rparr>))))"

definition ast_log_new :: "AstMachine \<Rightarrow> nat \<Rightarrow> AstMachine res" where
  "ast_log_new ast pos = ast_log ast TypeNew pos 0"

definition ast_log_capture :: "AstMachine \<Rightarrow> nat \<Rightarrow> AstMachine res" where
  "ast_log_capture ast pos = ast_log ast TypeCapture pos 0"

definition ast_log_tag :: "AstMachine \<Rightarrow> nat \<Rightarrow> AstMachine res" where
  "ast_log_tag ast tag = ast_log ast TypeTag tag 0"

definition ast_log_replace :: "AstMachine \<Rightarrow> nat \<Rightarrow> AstMachine res" where
  "ast_log_replace ast str = ast_log ast TypeReplace str 0"

definition ast_log_swap :: "AstMachine \<Rightarrow> nat \<Rightarrow> u16 \<Rightarrow> AstMachine res" where
  "ast_log_swap ast pos label = ast_log ast TypeLeftFold pos (unat label)"

definition ast_log_push :: "AstMachine \<Rightarrow> AstMachine res" where
  "ast_log_push ast = ast_log ast TypePush 0 0"

definition ast_log_pop :: "AstMachine \<Rightarrow> u16 \<Rightarrow> AstMachine res" where
  "ast_log_pop ast label = ast_log ast TypePop (unat label) 0"

definition ast_log_link :: "AstMachine \<Rightarrow> node_heap \<Rightarrow> u16 \<Rightarrow> nptr \<Rightarrow> (AstMachine \<times> node_heap) res" where
  "ast_log_link ast h label node =
     rbind (if node \<noteq> 0 then NODE_GC_RETAIN h node else Inr h) (\<lambda>h.
     rbind (ast_log ast TypeLink (unat label) node) (\<lambda>ast.
       Inr (ast\<lparr>last_linked := node\<rparr>, h)))"

section \<open>Savepoints\<close>

definition ast_save_tx :: "AstMachine \<Rightarrow> nat" where
  "ast_save_tx ast = asize (logs ast)"

text \<open>One pass of the loop: a link's node is released and the reference cleared.\<close>

definition rollback_entry :: "AstMachine \<times> node_heap \<Rightarrow> nat \<Rightarrow> (AstMachine \<times> node_heap) res" where
  "rollback_entry s cur =
     (case s of (ast, h) \<Rightarrow>
       rbind (ARRAY_get (logs ast) cur) (\<lambda>l.
         if ltype l = TypeLink \<and> lval l \<noteq> 0 then
           rbind (NODE_GC_RELEASE h (lval l)) (\<lambda>h.
           rbind (ARRAY_set (logs ast) cur (l\<lparr>lval := 0\<rparr>)) (\<lambda>a. Inr (ast\<lparr>logs := a\<rparr>, h)))
         else Inr (ast, h)))"

definition ast_rollback_tx :: "AstMachine \<Rightarrow> node_heap \<Rightarrow> nat \<Rightarrow> (AstMachine \<times> node_heap) res" where
  "ast_rollback_tx ast h tx =
     rbind (if tx < asize (logs ast) then rfold rollback_entry (ast, h) [tx..<asize (logs ast)] else Inr (ast, h))
       (\<lambda>(ast, h). Inr (ast\<lparr>logs := (logs ast)\<lparr>asize := tx\<rparr>\<rparr>, h))"

definition AstMachine_dispose :: "AstMachine \<Rightarrow> node_heap \<Rightarrow> (AstMachine \<times> node_heap) res" where
  "AstMachine_dispose ast h =
     rbind (ast_rollback_tx ast h 0) (\<lambda>(ast, h). Inr (ast\<lparr>logs := ARRAY_dispose (logs ast)\<rparr>, h))"

section \<open>Building nodes\<close>

text \<open>The loop of \<open>constructLeft\<close>: the next link becomes the element number \<open>n\<close>.\<close>

function construct_loop :: "AstMachine \<Rightarrow> node_heap \<Rightarrow> nptr \<Rightarrow> nat \<Rightarrow> nat \<Rightarrow> nat \<Rightarrow> node_heap res" where
  "construct_loop ast h newnode n cur stop =
     (if cur < stop then
        rbind (ARRAY_get (logs ast) cur) (\<lambda>l.
          if ltype l = TypeLink then
            rbind (rassert (lval l \<noteq> 0)) (\<lambda>_.
            rbind (Node_set h newnode n (of_nat (lidx l)) (lval l)) (\<lambda>h.
              construct_loop ast h newnode (n + 1) (cur + lshift l + 1) stop))
          else construct_loop ast h newnode n (cur + 1) stop)
      else Inr h)"
  by pat_completeness auto

termination
  by (relation "measure (\<lambda>(ast, h, newnode, n, cur, stop). stop - cur)") auto

declare construct_loop.simps [simp del]

text \<open>The length is the difference of two pointers, converted to \<open>unsigned\<close>.\<close>

definition node_span :: "nat \<Rightarrow> nat \<Rightarrow> nat" where
  "node_span spos epos = nat ((int epos - int spos) mod 2 ^ 32)"

definition constructLeft ::
  "AstMachine \<Rightarrow> node_heap \<Rightarrow> nat \<Rightarrow> nat \<Rightarrow> nat \<Rightarrow> nat \<Rightarrow> nat \<Rightarrow> nat \<Rightarrow> nat \<Rightarrow> (nptr \<times> node_heap) res" where
  "constructLeft ast h cur stop spos epos objSize tag value =
     rbind (Node_new h tag spos (node_span spos epos) objSize value) (\<lambda>(newnode, h).
       if objSize = 0 then Inr (newnode, h)
       else rbind (construct_loop ast h newnode 0 cur stop) (\<lambda>h. Inr (newnode, h)))"

text \<open>The local variables of \<open>ast_create_node\<close>.\<close>

record cframe =
  head :: nat
  spos :: nat
  epos :: nat
  objSize :: nat
  ctag :: nat
  cvalue :: nat

definition construct_frame :: "AstMachine \<Rightarrow> node_heap \<Rightarrow> cframe \<Rightarrow> nat \<Rightarrow> (nptr \<times> node_heap) res" where
  "construct_frame ast h fr stop =
     constructLeft ast h (head fr) stop (spos fr) (epos fr) (objSize fr) (ctag fr) (cvalue fr)"

definition put_log :: "AstMachine \<Rightarrow> nat \<Rightarrow> AstLog \<Rightarrow> AstMachine res" where
  "put_log ast i l = rbind (ARRAY_set (logs ast) i l) (\<lambda>a. Inr (ast\<lparr>logs := a\<rparr>))"

fun create_loop ::
  "nat \<Rightarrow> AstMachine \<Rightarrow> node_heap \<Rightarrow> cframe \<Rightarrow> nat \<Rightarrow> nat option \<Rightarrow> (nptr \<times> AstMachine \<times> node_heap) res" where
  "create_loop 0 ast h fr cur pushed = Inl NoFuel"
| "create_loop (Suc f) ast h fr cur pushed =
     (if cur < asize (logs ast) then
        rbind (ARRAY_get (logs ast) cur) (\<lambda>l.
          case ltype l of
            TypeNew \<Rightarrow>
              create_loop f ast h \<lparr>head = cur, spos = lidx l, epos = lidx l, objSize = 0, ctag = 0, cvalue = 0\<rparr>
                (cur + 1) pushed
          | TypeCapture \<Rightarrow> create_loop f ast h (fr\<lparr>epos := lidx l\<rparr>) (cur + 1) pushed
          | TypeTag \<Rightarrow> create_loop f ast h (fr\<lparr>ctag := lidx l\<rparr>) (cur + 1) pushed
          | TypeReplace \<Rightarrow> create_loop f ast h (fr\<lparr>cvalue := lidx l\<rparr>) (cur + 1) pushed
          | TypeLeftFold \<Rightarrow>
              rbind (construct_frame ast h fr (cur + 1)) (\<lambda>(tmp, h).
              rbind (NODE_GC_RETAIN h tmp) (\<lambda>h.
              rbind (put_log ast cur (l\<lparr>lval := tmp, lidx := lval l, ltype := TypeLink\<rparr>)) (\<lambda>ast.
                create_loop f ast h
                  (fr\<lparr>spos := lidx l, ctag := 0, cvalue := 0, objSize := 1, head := cur\<rparr>) (cur + 1) pushed)))
          | TypePop \<Rightarrow>
              (case pushed of
                 None \<Rightarrow> Inl AssertFail
               | Some p \<Rightarrow>
                   rbind (construct_frame ast h fr (cur + 1)) (\<lambda>(tmp, h).
                   rbind (NODE_GC_RETAIN h tmp) (\<lambda>h.
                   rbind (ARRAY_get (logs ast) p) (\<lambda>lp.
                   rbind (put_log ast p (lp\<lparr>lval := tmp, lidx := lidx l, lshift := cur - p, ltype := TypeLink\<rparr>)) (\<lambda>ast.
                     Inr (tmp, ast, h))))))
          | TypePush \<Rightarrow>
              rbind (ARRAY_get (logs ast) (cur + 1)) (\<lambda>l1.
              rbind (create_loop f ast h
                \<lparr>head = cur + 1, spos = lidx l1, epos = lidx l1, objSize = 0, ctag = 0, cvalue = 0\<rparr>
                (cur + 1) (Some cur)) (\<lambda>(tmp, ast, h).
              rbind (ARRAY_get (logs ast) cur) (\<lambda>l.
              rbind (rassert (ltype l = TypeLink)) (\<lambda>_.
                create_loop f ast h (fr\<lparr>objSize := objSize fr + 1\<rparr>) (cur + lshift l + 1) pushed))))
          | TypeLink \<Rightarrow>
              create_loop f ast h (fr\<lparr>objSize := objSize fr + 1\<rparr>) (cur + lshift l + 1) pushed)
      else rbind (construct_frame ast h fr (asize (logs ast))) (\<lambda>(tmp, h). Inr (tmp, ast, h)))"

definition ast_create_node ::
  "AstMachine \<Rightarrow> node_heap \<Rightarrow> nat \<Rightarrow> nat option \<Rightarrow> (nptr \<times> AstMachine \<times> node_heap) res" where
  "ast_create_node ast h cur pushed =
     rbind (ARRAY_get (logs ast) cur) (\<lambda>l.
       create_loop (asize (logs ast) - cur + 1) ast h
         \<lparr>head = cur, spos = lidx l, epos = lidx l, objSize = 0, ctag = 0, cvalue = 0\<rparr> cur pushed)"

definition ast_commit_tx :: "AstMachine \<Rightarrow> node_heap \<Rightarrow> u16 \<Rightarrow> nat \<Rightarrow> (AstMachine \<times> node_heap) res" where
  "ast_commit_tx ast h label tx =
     rbind (rassert (asize (logs ast) > tx)) (\<lambda>_.
     rbind (ast_create_node ast h tx None) (\<lambda>(node, ast, h).
     rbind (ast_rollback_tx ast h tx) (\<lambda>(ast, h).
       if node \<noteq> 0 then ast_log_link ast h label node else Inr (ast, h))))"

text \<open>\<open>for (; cur <= tail; ++cur) if (GetTag(cur) == TypeNew) ...\<close>\<close>

fun first_new :: "AstMachine \<Rightarrow> nat list \<Rightarrow> nat option res" where
  "first_new ast [] = Inr None"
| "first_new ast (i # is) =
     rbind (ARRAY_get (logs ast) i) (\<lambda>l. if ltype l = TypeNew then Inr (Some i) else first_new ast is)"

definition ast_get_last_linked_node :: "AstMachine \<Rightarrow> nptr" where
  "ast_get_last_linked_node ast = last_linked ast"

definition ast_get_parsed_node :: "AstMachine \<Rightarrow> node_heap \<Rightarrow> (nptr \<times> AstMachine \<times> node_heap) res" where
  "ast_get_parsed_node ast h =
     (if parsed ast \<noteq> 0 then Inr (parsed ast, ast, h)
      else if asize (logs ast) = 0 then Inr (0, ast, h)
      else
        rbind (first_new ast [0..<asize (logs ast)]) (\<lambda>r.
        rbind (case r of Some i \<Rightarrow> ast_create_node ast h i None | None \<Rightarrow> Inr (0, ast, h)) (\<lambda>(node, ast, h).
        rbind (ast_rollback_tx ast h 0) (\<lambda>(ast, h).
        rbind (NODE_GC_RETAIN h node) (\<lambda>h.
          Inr (node, ast\<lparr>parsed := node\<rparr>, h))))))"

section \<open>The log as a list\<close>

definition lg :: "AstMachine \<Rightarrow> AstLog list" where
  "lg ast = elts (logs ast)"

definition ent :: "AstLogType \<Rightarrow> nat \<Rightarrow> nat \<Rightarrow> AstLog" where
  "ent ty val idx = \<lparr>ltype = ty, lshift = 0, lval = val, lidx = idx\<rparr>"

lemma overwrite: "l\<lparr>ltype := ty, lshift := 0, lval := val, lidx := pos\<rparr> = ent ty val pos" for l :: AstLog
  by (simp add: ent_def)

text \<open>The references the links of a log hold.\<close>

definition is_ref :: "AstLog \<Rightarrow> bool" where
  "is_ref l \<longleftrightarrow> ltype l = TypeLink \<and> lval l \<noteq> 0"

definition lrefs :: "AstLog list \<Rightarrow> nptr multiset" where
  "lrefs es = mset (map lval (filter is_ref es))"

lemma lrefs_simps [simp]:
  "lrefs [] = {#}"
  "lrefs (e # es) = (if is_ref e then add_mset (lval e) (lrefs es) else lrefs es)"
  "lrefs (es @ fs) = lrefs es + lrefs fs"
  by (simp_all add: lrefs_def)

lemma ent_simps [simp]:
  "ltype (ent ty v i) = ty" "lshift (ent ty v i) = 0" "lval (ent ty v i) = v" "lidx (ent ty v i) = i"
  by (simp_all add: ent_def)

lemma is_ref_ent [simp]: "is_ref (ent ty v i) \<longleftrightarrow> ty = TypeLink \<and> v \<noteq> 0"
  by (simp add: is_ref_def)

definition ast_ok :: "AstMachine \<Rightarrow> node_heap \<Rightarrow> nptr set \<Rightarrow> nptr multiset \<Rightarrow> nptr list \<Rightarrow> bool" where
  "ast_ok ast h L R xs \<longleftrightarrow> arr_wf (logs ast) \<and> heap_ok h L (lrefs (lg ast) + R) xs"

lemma length_lg: "arr_wf (logs ast) \<Longrightarrow> length (lg ast) = asize (logs ast)"
  by (simp add: lg_def)

lemma get_lg: "arr_wf (logs ast) \<Longrightarrow> i < length (lg ast) \<Longrightarrow> ARRAY_get (logs ast) i = Inr (lg ast ! i)"
  by (simp add: lg_def ARRAY_get_elts)

lemma put_log_ok:
  assumes "arr_wf (logs ast)" "i < length (lg ast)"
  shows "\<exists>ast'. put_log ast i l = Inr ast' \<and> arr_wf (logs ast') \<and> lg ast' = (lg ast)[i := l] \<and>
     last_linked ast' = last_linked ast \<and> parsed ast' = parsed ast"
  using assms ARRAY_set_elts [of "logs ast" i l] by (auto simp: put_log_def lg_def)

lemma ast_log_ok:
  assumes wf: "arr_wf (logs ast)" and small: "length (lg ast) + 1 < 2 ^ 29"
  shows "\<exists>ast'. ast_log ast ty pos val = Inr ast' \<and> arr_wf (logs ast') \<and> lg ast' = lg ast @ [ent ty val pos] \<and>
     parsed ast' = parsed ast"
proof -
  have sz: "asize (logs ast) + 1 < 2 ^ 29" using small length_lg [OF wf] by simp
  from ARRAY_ensureSize_ok [OF wf sz] obtain b where
    b: "ARRAY_ensureSize (logs ast) 1 = Inr b" "arr_wf b" "elts b = elts (logs ast)" "asize b = asize (logs ast)"
      "asize (logs ast) + 1 \<le> capacity b" by blast
  let ?l = "ent ty val pos"
  let ?b = "b\<lparr>alist := (alist b)[asize b := ?l]\<rparr>"
  have i: "asize b < length (alist b)" using b(2,4,5) by (simp add: arr_wf_def)
  have "ast_log ast ty pos val = Inr (ast\<lparr>logs := ?b\<lparr>asize := asize b + 1\<rparr>\<rparr>)"
    using b(1) i by (simp add: ast_log_def ARRAY_get_def ARRAY_set_def overwrite)
  moreover have "arr_wf (?b\<lparr>asize := asize b + 1\<rparr>)" using b(2,4,5) by (simp add: arr_wf_def)
  moreover have "elts (?b\<lparr>asize := asize b + 1\<rparr>) = elts (logs ast) @ [?l]"
    using b(3) i by (simp add: elts_def take_Suc_conv_app_nth)
  ultimately show ?thesis by (simp add: lg_def)
qed

lemma ast_log_plain_ok:
  assumes "ast_ok ast h L R xs" "length (lg ast) + 1 < 2 ^ 29" "ty \<noteq> TypeLink"
  shows "\<exists>ast'. ast_log ast ty pos val = Inr ast' \<and> ast_ok ast' h L R xs \<and> lg ast' = lg ast @ [ent ty val pos] \<and>
     parsed ast' = parsed ast"
  using assms ast_log_ok [of ast ty pos val] by (auto simp: ast_ok_def)

lemma ast_log_link_ok:
  assumes ok: "ast_ok ast h L R xs" and small: "length (lg ast) + 1 < 2 ^ 29" and n: "n = 0 \<or> n \<in> L"
  shows "\<exists>ast' h'. ast_log_link ast h l n = Inr (ast', h') \<and> ast_ok ast' h' L R xs \<and>
     lg ast' = lg ast @ [ent TypeLink n (unat l)] \<and> last_linked ast' = n \<and> parsed ast' = parsed ast \<and>
     (\<forall>b. node_text (cells h' ! b) = node_text (cells h ! b) \<and> nentry (cells h' ! b) = nentry (cells h ! b) \<and>
        labelId (cells h' ! b) = labelId (cells h ! b))"
proof -
  from ok have wf: "arr_wf (logs ast)" and h: "heap_ok h L (lrefs (lg ast) + R) xs" by (simp_all add: ast_ok_def)
  from ast_log_ok [OF wf small, of TypeLink "unat l" n] obtain a where
    a: "ast_log ast TypeLink (unat l) n = Inr a" "arr_wf (logs a)" "lg a = lg ast @ [ent TypeLink n (unat l)]"
    "parsed a = parsed ast" by blast
  have "\<exists>h'. (if n \<noteq> 0 then NODE_GC_RETAIN h n else Inr h) = Inr h' \<and> heap_ok h' L (lrefs (lg a) + R) xs \<and>
     (\<forall>b. node_text (cells h' ! b) = node_text (cells h ! b) \<and> nentry (cells h' ! b) = nentry (cells h ! b) \<and>
        labelId (cells h' ! b) = labelId (cells h ! b))"
  proof (cases "n = 0")
    case False
    with n have nL: "n \<in> L" by simp
    have "node_text (cells (with_refc h n r) ! b) = node_text (cells h ! b) \<and>
        nentry (cells (with_refc h n r) ! b) = nentry (cells h ! b) \<and>
        labelId (cells (with_refc h n r) ! b) = labelId (cells h ! b)" for r b
      using heap_okD(2) [OF h nL] by (cases "b = n") (simp_all add: node_text_def)
    with retain_ok [OF h nL] False a(3) show ?thesis by auto
  qed (use h a(3) in simp)
  then obtain h' where "(if n \<noteq> 0 then NODE_GC_RETAIN h n else Inr h) = Inr h'" "heap_ok h' L (lrefs (lg a) + R) xs"
     "\<forall>b. node_text (cells h' ! b) = node_text (cells h ! b) \<and> nentry (cells h' ! b) = nentry (cells h ! b) \<and>
        labelId (cells h' ! b) = labelId (cells h ! b)" by blast
  with a show ?thesis
    by (intro exI [of _ "a\<lparr>last_linked := n\<rparr>"] exI [of _ h']) (simp add: ast_log_link_def ast_ok_def lg_def)
qed

section \<open>Rolling back\<close>

lemma lrefs_split: "lrefs es = lrefs (take k es) + lrefs (drop k es)"
  by (metis append_take_drop_id lrefs_simps(3))

lemma rollback_loop:
  assumes wf: "arr_wf (logs ast)" and ok: "heap_ok h L (lrefs (drop tx (lg ast)) + R) xs" and tx: "tx \<le> length (lg ast)"
  shows "\<exists>ast' h' L' xs'. rfold rollback_entry (ast, h) [tx..<asize (logs ast)] = Inr (ast', h') \<and>
     arr_wf (logs ast') \<and> asize (logs ast') = asize (logs ast) \<and> take tx (lg ast') = take tx (lg ast) \<and>
     last_linked ast' = last_linked ast \<and> parsed ast' = parsed ast \<and>
     heap_ok h' L' R xs' \<and> shrinks h L xs h' L' xs'"
proof -
  let ?n = "asize (logs ast)"
  let ?P = "\<lambda>ys (a, t). \<exists>L1 xs1. arr_wf (logs a) \<and> asize (logs a) = ?n \<and> take tx (lg a) = take tx (lg ast) \<and>
     last_linked a = last_linked ast \<and> parsed a = parsed ast \<and>
     drop (tx + length ys) (lg a) = drop (tx + length ys) (lg ast) \<and>
     heap_ok t L1 (lrefs (drop (tx + length ys) (lg ast)) + R) xs1 \<and> shrinks h L xs t L1 xs1"
  have len: "length (lg ast) = ?n" using wf by (rule length_lg)
  have "\<exists>t. rfold rollback_entry (ast, h) [tx..<?n] = Inr t \<and> ?P [tx..<?n] t"
  proof (rule rfold_invariant [where P = ?P])
    have "\<exists>L1 xs1. heap_ok h L1 (lrefs (drop tx (lg ast)) + R) xs1 \<and> shrinks h L xs h L1 xs1"
      using ok shrinks_refl by blast
    with wf show "?P [] (ast, h)" by simp
    fix ys y s
    assume P: "?P ys s" and "\<exists>zs. [tx..<?n] = ys @ y # zs"
    then obtain zs where zs: "[tx..<?n] = ys @ y # zs" by blast
    have "length [tx..<?n] = length (ys @ y # zs)" "[tx..<?n] ! length ys = y" unfolding zs by simp_all
    then have y: "y = tx + length ys" "y < ?n" by simp_all
    obtain a t where s: "s = (a, t)" by (cases s)
    from P obtain L1 xs1 where t: "arr_wf (logs a)" "asize (logs a) = ?n" "take tx (lg a) = take tx (lg ast)"
      "last_linked a = last_linked ast" "parsed a = parsed ast"
      "drop y (lg a) = drop y (lg ast)" "heap_ok t L1 (lrefs (drop y (lg ast)) + R) xs1" "shrinks h L xs t L1 xs1"
      unfolding s y(1) by auto
    have la: "length (lg a) = ?n" using t(1,2) by (simp add: length_lg)
    have ay: "lg a ! y = lg ast ! y" using arg_cong [OF t(6), of hd] y(2) la len by (simp add: hd_drop_conv_nth)
    have d: "drop y (lg ast) = lg ast ! y # drop (Suc y) (lg ast)" using y(2) len by (simp add: Cons_nth_drop_Suc)
    have tl: "drop (Suc y) (lg a) = drop (Suc y) (lg ast)" using arg_cong [OF t(6), of tl] by (simp add: tl_drop drop_Suc)
    show "\<exists>s'. rollback_entry s y = Inr s' \<and> ?P (ys @ [y]) s'"
    proof (cases "is_ref (lg ast ! y)")
      case True
      let ?c = "lval (lg ast ! y)"
      have "heap_ok t L1 (add_mset ?c (lrefs (drop (Suc y) (lg ast)) + R)) xs1" using t(7) d True by simp
      from GC_RELEASE_ok [OF this] obtain t' L2 xs2 where
        r: "NODE_GC_RELEASE t ?c = Inr t'" "heap_ok t' L2 (lrefs (drop (Suc y) (lg ast)) + R) xs2" "shrinks t L1 xs1 t' L2 xs2" by blast
      from put_log_ok [OF t(1), of y "(lg ast ! y)\<lparr>lval := 0\<rparr>"] y(2) la obtain a' where
        a': "put_log a y ((lg ast ! y)\<lparr>lval := 0\<rparr>) = Inr a'" "arr_wf (logs a')" "lg a' = (lg a)[y := (lg ast ! y)\<lparr>lval := 0\<rparr>]"
          "last_linked a' = last_linked a" "parsed a' = parsed a"
        by auto
      have "asize (logs a') = ?n" using length_lg [OF a'(2)] a'(3) la by simp
      moreover from a'(1) obtain w where w: "ARRAY_set (logs a) y ((lg ast ! y)\<lparr>lval := 0\<rparr>) = Inr w" "a' = a\<lparr>logs := w\<rparr>"
        by (auto simp: put_log_def rbind_eq_Inr)
      then have "rollback_entry s y = Inr (a', t')"
        using True get_lg [OF t(1), of y] y(2) la ay r(1)
        by (simp add: rollback_entry_def s is_ref_def)
      moreover have "shrinks h L xs t' L2 xs2" using t(8) r(3) by (rule shrinks_trans)
      ultimately show ?thesis using a' r(2) t(3-5) tl y(1)
        by (intro exI [of _ "(a', t')"]) auto
    next
      case False
      have "rollback_entry s y = Inr (a, t)"
        using False get_lg [OF t(1), of y] y(2) la ay by (auto simp: rollback_entry_def s is_ref_def)
      with t tl d False y(1) s show ?thesis by auto
    qed
  qed
  then show ?thesis using tx len by auto
qed

lemma rollback_ok:
  assumes ok: "ast_ok ast h L R xs" and tx: "tx \<le> length (lg ast)"
  shows "\<exists>ast' h' L' xs'. ast_rollback_tx ast h tx = Inr (ast', h') \<and> ast_ok ast' h' L' R xs' \<and>
     lg ast' = take tx (lg ast) \<and> parsed ast' = parsed ast \<and> shrinks h L xs h' L' xs'"
proof -
  from ok have wf: "arr_wf (logs ast)" and h: "heap_ok h L (lrefs (drop tx (lg ast)) + (lrefs (take tx (lg ast)) + R)) xs"
    using lrefs_split [of "lg ast" tx] by (simp_all add: ast_ok_def ac_simps)
  have trunc: "arr_wf (logs (a\<lparr>logs := (logs a)\<lparr>asize := tx\<rparr>\<rparr>)) \<and> lg (a\<lparr>logs := (logs a)\<lparr>asize := tx\<rparr>\<rparr>) = take tx (lg ast)"
    if "arr_wf (logs a)" "asize (logs a) = asize (logs ast)" "take tx (lg a) = take tx (lg ast)" for a
  proof -
    have "tx \<le> asize (logs a)" using tx that(2) length_lg [OF wf] by simp
    then show ?thesis using that by (simp add: arr_wf_def lg_def elts_def min_def)
  qed
  show ?thesis
  proof (cases "tx < asize (logs ast)")
    case True
    from rollback_loop [OF wf h tx] obtain a h' L' xs' where
      "rfold rollback_entry (ast, h) [tx..<asize (logs ast)] = Inr (a, h')" "arr_wf (logs a)" "asize (logs a) = asize (logs ast)"
      "take tx (lg a) = take tx (lg ast)" "parsed a = parsed ast"
      "heap_ok h' L' (lrefs (take tx (lg ast)) + R) xs'" "shrinks h L xs h' L' xs'" by blast
    with True trunc [of a] show ?thesis by (auto simp: ast_rollback_tx_def ast_ok_def)
  next
    case False
    then have "tx = asize (logs ast)" "drop tx (lg ast) = []" "take tx (lg ast) = lg ast"
      using tx length_lg [OF wf] by simp_all
    moreover have "\<exists>L' xs'. heap_ok h L' (lrefs (lg ast) + R) xs' \<and> shrinks h L xs h L' xs'"
      using ok shrinks_refl unfolding ast_ok_def by blast
    ultimately show ?thesis using False trunc [of ast] wf
      by (simp add: ast_rollback_tx_def ast_ok_def)
  qed
qed

section \<open>Transactions\<close>

text \<open>The log with the heap is an instance of the savepoint contract.\<close>

definition ast_roll :: "AstMachine \<times> node_heap \<Rightarrow> nat \<Rightarrow> AstMachine \<times> node_heap" where
  "ast_roll s tx = (case ast_rollback_tx (fst s) (snd s) tx of Inl e \<Rightarrow> s | Inr s' \<Rightarrow> s')"

definition ast_inv :: "nptr multiset \<Rightarrow> AstMachine \<times> node_heap \<Rightarrow> bool" where
  "ast_inv R s \<longleftrightarrow> (\<exists>L xs. ast_ok (fst s) (snd s) L R xs)"

interpretation astlog: tx_log "\<lambda>s. ast_save_tx (fst s)" ast_roll "\<lambda>s. lg (fst s)" "ast_inv R" for R
proof
  fix s assume "ast_inv R s"
  then show "ast_save_tx (fst s) = length (lg (fst s))" by (auto simp: ast_inv_def ast_ok_def ast_save_tx_def length_lg)
next
  fix s n assume i: "ast_inv R s" "n \<le> length (lg (fst s))"
  from i(1) obtain L xs where "ast_ok (fst s) (snd s) L R xs" by (auto simp: ast_inv_def)
  from rollback_ok [OF this i(2)] obtain a h L' xs' where
    r: "ast_rollback_tx (fst s) (snd s) n = Inr (a, h)" "ast_ok a h L' R xs'" "lg a = take n (lg (fst s))" by blast
  then show "lg (fst (ast_roll s n)) = take n (lg (fst s))" "ast_inv R (ast_roll s n)"
    by (auto simp: ast_roll_def ast_inv_def)
qed

datatype ast_op = OpNew nat | OpCapture nat | OpTag nat | OpReplace nat | OpSwap nat u16 | OpPush | OpPop u16 | OpLink u16 nptr

fun ast_step :: "AstMachine \<times> node_heap \<Rightarrow> ast_op \<Rightarrow> (AstMachine \<times> node_heap) res" where
  "ast_step (ast, h) (OpNew p) = rbind (ast_log_new ast p) (\<lambda>ast. Inr (ast, h))"
| "ast_step (ast, h) (OpCapture p) = rbind (ast_log_capture ast p) (\<lambda>ast. Inr (ast, h))"
| "ast_step (ast, h) (OpTag t) = rbind (ast_log_tag ast t) (\<lambda>ast. Inr (ast, h))"
| "ast_step (ast, h) (OpReplace v) = rbind (ast_log_replace ast v) (\<lambda>ast. Inr (ast, h))"
| "ast_step (ast, h) (OpSwap p l) = rbind (ast_log_swap ast p l) (\<lambda>ast. Inr (ast, h))"
| "ast_step (ast, h) OpPush = rbind (ast_log_push ast) (\<lambda>ast. Inr (ast, h))"
| "ast_step (ast, h) (OpPop l) = rbind (ast_log_pop ast l) (\<lambda>ast. Inr (ast, h))"
| "ast_step (ast, h) (OpLink l n) = ast_log_link ast h l n"

fun op_node :: "ast_op \<Rightarrow> nptr" where
  "op_node (OpLink l n) = n"
| "op_node x = 0"

text \<open>Any operation appends one entry and touches no node but for its count.\<close>

lemma ast_step_ok:
  assumes ok: "ast_ok ast h L R xs" and small: "length (lg ast) + 1 < 2 ^ 29" and n: "op_node x = 0 \<or> op_node x \<in> L"
  shows "\<exists>ast' h' e. ast_step (ast, h) x = Inr (ast', h') \<and> ast_ok ast' h' L R xs \<and> lg ast' = lg ast @ [e] \<and>
     (\<forall>b. node_text (cells h' ! b) = node_text (cells h ! b) \<and> nentry (cells h' ! b) = nentry (cells h ! b) \<and>
        labelId (cells h' ! b) = labelId (cells h ! b))"
proof -
  have pl: "\<exists>ast' h' e. rbind (ast_log ast ty pos val) (\<lambda>ast. Inr (ast, h)) = Inr (ast', h') \<and> ast_ok ast' h' L R xs \<and>
      lg ast' = lg ast @ [e] \<and> (\<forall>b. node_text (cells h' ! b) = node_text (cells h ! b) \<and>
        nentry (cells h' ! b) = nentry (cells h ! b) \<and> labelId (cells h' ! b) = labelId (cells h ! b))"
    if "ty \<noteq> TypeLink" for ty pos val
    using ast_log_plain_ok [OF ok small that, of pos val] by auto
  show ?thesis
proof (cases x)
  case (OpLink l m)
  with ast_log_link_ok [OF ok small, of m l] n show ?thesis by fastforce
qed (simp only: ast_step.simps ast_log_new_def ast_log_capture_def ast_log_tag_def ast_log_replace_def
  ast_log_swap_def ast_log_push_def ast_log_pop_def; rule pl; simp)+
qed

lemma ast_steps_ok:
  assumes "ast_ok ast h L R xs" "length (lg ast) + length ops < 2 ^ 29" "\<forall>x \<in> set ops. op_node x = 0 \<or> op_node x \<in> L"
  shows "\<exists>ast' h' es. rfold ast_step (ast, h) ops = Inr (ast', h') \<and> ast_ok ast' h' L R xs \<and> lg ast' = lg ast @ es \<and>
     length es = length ops \<and>
     (\<forall>b. node_text (cells h' ! b) = node_text (cells h ! b) \<and> nentry (cells h' ! b) = nentry (cells h ! b) \<and>
        labelId (cells h' ! b) = labelId (cells h ! b))"
  using assms
proof (induction ops arbitrary: ast h)
  case (Cons x ops)
  from ast_step_ok [OF Cons.prems(1), of x] Cons.prems(2,3) obtain a t e where
    a: "ast_step (ast, h) x = Inr (a, t)" "ast_ok a t L R xs" "lg a = lg ast @ [e]"
      "\<forall>b. node_text (cells t ! b) = node_text (cells h ! b) \<and> nentry (cells t ! b) = nentry (cells h ! b) \<and>
        labelId (cells t ! b) = labelId (cells h ! b)" by auto
  from Cons.IH [OF a(2)] Cons.prems(2,3) a(3) obtain ast' h' es where
    "rfold ast_step (a, t) ops = Inr (ast', h')" "ast_ok ast' h' L R xs" "lg ast' = lg a @ es" "length es = length ops"
      "\<forall>b. node_text (cells h' ! b) = node_text (cells t ! b) \<and> nentry (cells h' ! b) = nentry (cells t ! b) \<and>
        labelId (cells h' ! b) = labelId (cells t ! b)" by auto
  with a show ?case by auto
qed simp

text \<open>C11: A transaction on the syntax-tree log is undone by rolling back: after any run of logging
operations, \<open>ast_rollback_tx\<close> to the savepoint taken before it succeeds and leaves the log as it
was; every link's reference is given back, so that all counts are exact, and the nodes that
stay have their text, elements and labels.\<close>

theorem ast_transaction:
  assumes "ast_ok ast h L R xs" "length (lg ast) + length ops < 2 ^ 29" "\<forall>x \<in> set ops. op_node x = 0 \<or> op_node x \<in> L"
  shows "\<exists>ast1 h1 ast' h' L' xs'. rfold ast_step (ast, h) ops = Inr (ast1, h1) \<and>
     ast_rollback_tx ast1 h1 (ast_save_tx ast) = Inr (ast', h') \<and> lg ast' = lg ast \<and>
     ast_ok ast' h' L' R xs' \<and> L' \<subseteq> L \<and>
     (\<forall>b \<in> L'. node_text (cells h' ! b) = node_text (cells h ! b) \<and> nentry (cells h' ! b) = nentry (cells h ! b) \<and>
        labelId (cells h' ! b) = labelId (cells h ! b))"
proof -
  from ast_steps_ok [OF assms] obtain a1 h1 es where
    s: "rfold ast_step (ast, h) ops = Inr (a1, h1)" "ast_ok a1 h1 L R xs" "lg a1 = lg ast @ es"
      "\<forall>b. node_text (cells h1 ! b) = node_text (cells h ! b) \<and> nentry (cells h1 ! b) = nentry (cells h ! b) \<and>
        labelId (cells h1 ! b) = labelId (cells h ! b)" by blast
  have inv: "ast_inv R (ast, h)" "ast_inv R (a1, h1)" using assms(1) s(2) by (auto simp: ast_inv_def)
  have tx: "ast_save_tx ast = length (lg ast)" using astlog.save_length [OF inv(1)] by simp
  then have le: "ast_save_tx ast \<le> length (lg a1)" using s(3) by simp
  from rollback_ok [OF s(2) le] obtain a2 h2 L' xs' where
    r: "ast_rollback_tx a1 h1 (ast_save_tx ast) = Inr (a2, h2)" "ast_ok a2 h2 L' R xs'" "shrinks h1 L xs h2 L' xs'" by blast
  have "lg a2 = lg ast" using astlog.restore [OF inv] s(3) r(1) by (simp add: ast_roll_def)
  moreover have "L' \<subseteq> L" using r(3) by (simp add: shrinks_def)
  moreover have "node_text (cells h2 ! b) = node_text (cells h1 ! b) \<and> nentry (cells h2 ! b) = nentry (cells h1 ! b) \<and>
        labelId (cells h2 ! b) = labelId (cells h1 ! b)" if b: "b \<in> L'" for b
  proof -
    from r(3) b obtain k where "cells h2 ! b = (cells h1 ! b)\<lparr>refc := k\<rparr>" by (rule shrinks_kept)
    then show ?thesis by (simp add: node_text_def)
  qed
  ultimately show ?thesis using s(1,4) r(1,2) by auto
qed

lemma ast_transaction_witness:
  "\<exists>ast1 h1 ast' h'. rfold ast_step (\<lparr>logs = ARRAY_init (replicate 4 0), last_linked = 0, parsed = 0, source = 0\<rparr>, example_heap)
       [OpNew 3, OpPush, OpLink 7 1, OpPop 2, OpCapture 5, OpLink 8 2] = Inr (ast1, h1) \<and>
     ast_rollback_tx ast1 h1 0 = Inr (ast', h') \<and> lg ast' = []"
proof -
  let ?ast = "\<lparr>logs = ARRAY_init (replicate 4 (0 :: AstLog)), last_linked = 0, parsed = 0, source = 0\<rparr>"
  have "lg ?ast = []" "ast_ok ?ast example_heap {1, 2} {#1, 2#} []" "ast_save_tx ?ast = 0"
    using example_heap_ok ARRAY_init_elts [of "replicate 4 (0 :: AstLog)"]
    by (simp_all add: lg_def ast_ok_def ast_save_tx_def ARRAY_init_def)
  with ast_transaction [of ?ast example_heap "{1, 2}" "{#1, 2#}" "[]"
      "[OpNew 3, OpPush, OpLink 7 1, OpPop 2, OpCapture 5, OpLink 8 2]"] show ?thesis by auto
qed

end
