(* ===== verification/Ast_Build.thy ===== *)
theory Ast_Build
  imports Ast
begin

text \<open>
  What \<open>ast_create_node\<close> and \<open>ast_commit_tx\<close> build: a tree is what a parser logs for it, and
  running over its log makes exactly that tree of new nodes, with every reference counted. The
  proof follows the nesting of the pushes and left folds of the tree.
\<close>

section \<open>The links a construction reads\<close>

text \<open>Labels and nodes of the links of a segment, skipping what a link has absorbed.\<close>

function scan :: "AstLog list \<Rightarrow> (nat \<times> nptr) list" where
  "scan [] = []"
| "scan (e # es) = (if ltype e = TypeLink then (lidx e, lval e) # scan (drop (lshift e) es) else scan es)"
  by pat_completeness auto

termination
  by (relation "measure length") auto

text \<open>A segment none of whose links reaches behind it.\<close>

definition closed :: "AstLog list \<Rightarrow> bool" where
  "closed es \<longleftrightarrow> (\<forall>fs. scan (es @ fs) = scan es @ scan fs)"

lemma closed_Nil [simp]: "closed []"
  by (simp add: closed_def)

lemma closed_append: "closed es \<Longrightarrow> closed fs \<Longrightarrow> closed (es @ fs)"
  by (simp add: closed_def)

lemma scan_append: "closed es \<Longrightarrow> scan (es @ fs) = scan es @ scan fs"
  by (simp add: closed_def)

lemma closed_plain: "ltype e \<noteq> TypeLink \<Longrightarrow> closed es \<Longrightarrow> closed (e # es)"
  by (simp add: closed_def)

lemma closed_link: "ltype e = TypeLink \<Longrightarrow> lshift e = length es \<Longrightarrow> closed (e # es)"
  by (simp add: closed_def)

lemma scan_link: "ltype e = TypeLink \<Longrightarrow> lshift e = length es \<Longrightarrow> scan (e # es) = [(lidx e, lval e)]"
  by simp

fun set_kids :: "node_heap \<Rightarrow> nptr \<Rightarrow> nat \<Rightarrow> (nat \<times> nptr) list \<Rightarrow> node_heap res" where
  "set_kids h a n [] = Inr h"
| "set_kids h a n ((l, c) # ks) =
     rbind (rassert (c \<noteq> 0)) (\<lambda>_. rbind (Node_set h a n (of_nat l) c) (\<lambda>h. set_kids h a (n + 1) ks))"

lemma drop_Cons_lg: "cur < length es \<Longrightarrow> drop cur es = es ! cur # drop (Suc cur) es"
  by (simp add: Cons_nth_drop_Suc)

lemma construct_loop_scan:
  assumes "arr_wf (logs ast)" "stop \<le> length (lg ast)"
  shows "construct_loop ast h a n cur stop = set_kids h a n (scan (take (stop - cur) (drop cur (lg ast))))"
  using assms
proof (induction ast h a n cur stop rule: construct_loop.induct)
  case (1 ast h a n cur stop)
  show ?case
  proof (cases "cur < stop")
    case False
    then show ?thesis by (simp add: construct_loop.simps [of ast h a n cur stop])
  next
    case True
    let ?l = "lg ast ! cur"
    have get: "ARRAY_get (logs ast) cur = Inr ?l" using get_lg "1.prems" True by simp
    have seg: "take (stop - cur) (drop cur (lg ast)) = ?l # take (stop - Suc cur) (drop (Suc cur) (lg ast))"
      using True "1.prems"(2) by (simp add: drop_Cons_lg take_Cons')
    have skip: "drop k (take (stop - Suc cur) (drop (Suc cur) (lg ast))) =
        take (stop - (cur + k + 1)) (drop (cur + k + 1) (lg ast))" for k
      by (simp add: drop_take add.commute add.left_commute)
    show ?thesis
    proof (cases "ltype ?l = TypeLink")
      case link: True
      show ?thesis
      proof (cases "Node_set h a n (of_nat (lidx ?l)) (lval ?l)")
        case (Inl e)
        then show ?thesis
          using True get link seg by (cases "lval ?l = 0") (simp_all add: construct_loop.simps [of ast h a n cur stop])
      next
        case (Inr g)
        show ?thesis
        proof (cases "lval ?l = 0")
          case False
          with 1(1) [OF True get link _ Inr "1.prems"]
          have "construct_loop ast g a (n + 1) (cur + lshift ?l + 1) stop =
              set_kids g a (n + 1) (scan (drop (lshift ?l) (take (stop - Suc cur) (drop (Suc cur) (lg ast)))))"
            unfolding skip by simp
          then show ?thesis using True get link seg Inr False
            by (simp add: construct_loop.simps [of ast h a n cur stop])
        qed (use True get link seg in \<open>simp add: construct_loop.simps [of ast h a n cur stop]\<close>)
      qed
    next
      case plain: False
      with 1(2) [OF True get plain "1.prems"] show ?thesis
        using True get seg by (simp add: construct_loop.simps [of ast h a n cur stop])
    qed
  qed
qed

text \<open>Filling the positions of a fresh node.\<close>

lemma set_kids_ok:
  assumes "heap_ok h L R xs" "a \<in> L" "refc (cells h ! a) = 0"
    and "entry_elems (nentry (cells h ! a)) = pre @ replicate (length ks) 0" "n = length pre"
    and "\<forall>(l, c) \<in> set ks. l < 2 ^ 16 \<and> c \<in> L \<and> c \<noteq> a" "2 * (length pre + length ks) + 1 < 2 ^ 29"
  shows "\<exists>h' xs'. set_kids h a n ks = Inr h' \<and> heap_ok h' L R xs' \<and> refc (cells h' ! a) = 0 \<and>
     entry_elems (nentry (cells h' ! a)) = pre @ map snd ks \<and>
     (\<forall>b \<in> L. node_text (cells h' ! b) = node_text (cells h ! b) \<and>
        (b \<noteq> a \<longrightarrow> nentry (cells h' ! b) = nentry (cells h ! b)) \<and>
        (b \<notin> snd ` set ks \<longrightarrow> labelId (cells h' ! b) = labelId (cells h ! b))) \<and>
     (\<forall>ks1 l c ks2. ks = ks1 @ (l, c) # ks2 \<longrightarrow> c \<notin> snd ` set ks2 \<longrightarrow> labelId (cells h' ! c) = int l)"
  using assms
proof (induction ks arbitrary: h xs pre n)
  case Nil
  then show ?case by auto
next
  case (Cons k ks)
  obtain l c where k: "k = (l, c)" by (cases k)
  with Cons.prems have c: "c \<in> L" "a \<noteq> c" "l < 2 ^ 16" by auto
  have es: "entry_elems (nentry (cells h ! a)) = pre @ 0 # replicate (length ks) 0" using Cons.prems(4) by simp
  have small: "n + 1 + length (entry_elems (nentry (cells h ! a))) < 2 ^ 29"
    using Cons.prems(5,7) unfolding es by simp
  from Node_set_ok [OF Cons.prems(1,2) c(1,2) Cons.prems(3) small, of "of_nat l"] obtain g L' xs1 where
    g: "Node_set h a n (of_nat l) c = Inr g" "heap_ok g L' R xs1"
      "entry_elems (nentry (cells g ! a)) = (pre @ 0 # replicate (length ks) 0)[n := c]"
      "refc (cells g ! a) = 0" "labelId (cells g ! c) = uint (of_nat l :: u16)" "L' = L"
      "\<forall>b \<in> L'. node_text (cells g ! b) = node_text (cells h ! b) \<and>
        (b \<noteq> a \<longrightarrow> nentry (cells g ! b) = nentry (cells h ! b)) \<and>
        (b \<noteq> c \<longrightarrow> labelId (cells g ! b) = labelId (cells h ! b))"
    unfolding es using Cons.prems(5) by (auto simp: nth_append)
  have lab: "uint (of_nat l :: u16) = int l" using c(3) by (simp add: unsigned_of_nat take_bit_eq_mod)
  have ga: "entry_elems (nentry (cells g ! a)) = (pre @ [c]) @ replicate (length ks) 0"
    using g(3) Cons.prems(5) by (simp add: list_update_append)
  from Cons.IH [of g xs1 "pre @ [c]" "n + 1"] g(2,4) ga Cons.prems k obtain h' xs' where
    r: "set_kids g a (n + 1) ks = Inr h'" "heap_ok h' L R xs'" "refc (cells h' ! a) = 0"
     "entry_elems (nentry (cells h' ! a)) = (pre @ [c]) @ map snd ks"
     "\<forall>b \<in> L. node_text (cells h' ! b) = node_text (cells g ! b) \<and>
        (b \<noteq> a \<longrightarrow> nentry (cells h' ! b) = nentry (cells g ! b)) \<and>
        (b \<notin> snd ` set ks \<longrightarrow> labelId (cells h' ! b) = labelId (cells g ! b))"
     "\<forall>ks1 l c ks2. ks = ks1 @ (l, c) # ks2 \<longrightarrow> c \<notin> snd ` set ks2 \<longrightarrow> labelId (cells h' ! c) = int l"
    unfolding g(6) by auto
  have "labelId (cells h' ! d) = int m" if "k # ks = ks1 @ (m, d) # ks2" "d \<notin> snd ` set ks2" for ks1 m d ks2
  proof (cases ks1)
    case Nil
    with that k have "d = c" "m = l" "ks2 = ks" by simp_all
    with that r(5) c(1) g(5) lab show ?thesis by auto
  next
    case (Cons k' ks1')
    with that have "ks = ks1' @ (m, d) # ks2" by simp
    with r(6) that(2) show ?thesis by blast
  qed
  moreover have "c \<noteq> 0" using heap_okD(1) [OF Cons.prems(1) c(1)] by simp
  ultimately show ?case using g(1,7) r k unfolding g(6)
    by (intro exI [of _ h'] exI [of _ xs']) auto
qed

text \<open>What \<open>constructLeft\<close> makes of a segment.\<close>

lemma construct_frame_ok:
  assumes ok: "ast_ok ast h L R xs" and stop: "stop \<le> length (lg ast)"
    and ks: "ks = scan (take (stop - head fr) (drop (head fr) (lg ast)))" "objSize fr = length ks"
    and kids: "\<forall>(l, c) \<in> set ks. l < 2 ^ 16 \<and> c \<in> L" and small: "length (lg ast) + 1 < 2 ^ 28"
    and len: "length ks \<le> length (lg ast)"
  shows "\<exists>a h' xs'. construct_frame ast h fr stop = Inr (a, h') \<and> a \<notin> L \<and> ast_ok ast h' (insert a L) R xs' \<and>
     refc (cells h' ! a) = 0 \<and> node_text (cells h' ! a) = (ctag fr, spos fr, node_span (spos fr) (epos fr), cvalue fr) \<and>
     entry_elems (nentry (cells h' ! a)) = map snd ks \<and>
     (\<forall>b \<in> L. node_text (cells h' ! b) = node_text (cells h ! b) \<and> nentry (cells h' ! b) = nentry (cells h ! b) \<and>
        (b \<notin> snd ` set ks \<longrightarrow> labelId (cells h' ! b) = labelId (cells h ! b))) \<and>
     (\<forall>ks1 l c ks2. ks = ks1 @ (l, c) # ks2 \<longrightarrow> c \<notin> snd ` set ks2 \<longrightarrow> labelId (cells h' ! c) = int l)"
proof -
  from ok have wf: "arr_wf (logs ast)" and h: "heap_ok h L (lrefs (lg ast) + R) xs" by (simp_all add: ast_ok_def)
  have "length ks < 2 ^ 29" using len small by simp
  from Node_new_ok [OF h this, of "ctag fr" "spos fr" "node_span (spos fr) (epos fr)" "cvalue fr"] obtain a g xs1 where
    g: "Node_new h (ctag fr) (spos fr) (node_span (spos fr) (epos fr)) (length ks) (cvalue fr) = Inr (a, g)" "a \<notin> L"
     "heap_ok g (insert a L) (lrefs (lg ast) + R) xs1" "refc (cells g ! a) = 0"
     "node_text (cells g ! a) = (ctag fr, spos fr, node_span (spos fr) (epos fr), cvalue fr)"
     "entry_elems (nentry (cells g ! a)) = replicate (length ks) 0" "\<forall>b \<in> L. cells g ! b = cells h ! b" by blast
  have kids': "\<forall>(l, c) \<in> set ks. l < 2 ^ 16 \<and> c \<in> insert a L \<and> c \<noteq> a" using kids g(2) by auto
  from set_kids_ok [OF g(3) _ g(4), of "[]" ks 0] g(6) kids' small len obtain h' xs' where
    r: "set_kids g a 0 ks = Inr h'" "heap_ok h' (insert a L) (lrefs (lg ast) + R) xs'" "refc (cells h' ! a) = 0"
     "entry_elems (nentry (cells h' ! a)) = map snd ks"
     "\<forall>b \<in> insert a L. node_text (cells h' ! b) = node_text (cells g ! b) \<and>
        (b \<noteq> a \<longrightarrow> nentry (cells h' ! b) = nentry (cells g ! b)) \<and>
        (b \<notin> snd ` set ks \<longrightarrow> labelId (cells h' ! b) = labelId (cells g ! b))"
     "\<forall>ks1 l c ks2. ks = ks1 @ (l, c) # ks2 \<longrightarrow> c \<notin> snd ` set ks2 \<longrightarrow> labelId (cells h' ! c) = int l"
    by auto
  have "construct_frame ast h fr stop = Inr (a, h')"
  proof (cases "ks = []")
    case True
    with g(1) r(1) ks(2) show ?thesis by (simp add: construct_frame_def constructLeft_def)
  next
    case False
    with g(1) r(1) ks(2) construct_loop_scan [OF wf stop, of g a 0 "head fr"] ks(1) show ?thesis
      by (simp add: construct_frame_def constructLeft_def)
  qed
  moreover have "ast_ok ast h' (insert a L) R xs'" using wf r(2) by (simp add: ast_ok_def)
  moreover have "\<forall>b \<in> L. b \<noteq> a" using g(2) by auto
  ultimately show ?thesis using g(2,5,7) r by (intro exI [of _ a] exI [of _ h'] exI [of _ xs']) auto
qed

section \<open>Trees and the logs that describe them\<close>

text \<open>
  What a parser logs for a node: its start, its elements, its tag, its replacement text and its
  end. An element is a tree of its own between a push and a labelled pop, or a labelled link to a
  node that exists. A left fold wraps what was built so far as the first element of a new node.
\<close>

datatype ltree =
    Base nat "lkid list" nat nat nat
  | Fold ltree nat u16 "lkid list" nat nat nat
and lkid =
    Sub u16 ltree
  | Ref u16 nptr

definition meta :: "nat \<Rightarrow> nat \<Rightarrow> nat \<Rightarrow> AstLog list" where
  "meta t v e = (if t \<noteq> 0 then [ent TypeTag 0 t] else []) @ (if v \<noteq> 0 then [ent TypeReplace 0 v] else []) @
     [ent TypeCapture 0 e]"

fun emit :: "ltree \<Rightarrow> AstLog list" and emits :: "lkid list \<Rightarrow> AstLog list" where
  "emit (Base s ks t v e) = ent TypeNew 0 s # emits ks @ meta t v e"
| "emit (Fold u s l ks t v e) = emit u @ ent TypeLeftFold (unat l) s # emits ks @ meta t v e"
| "emits [] = []"
| "emits (Sub l T # ks) = ent TypePush 0 0 # emit T @ ent TypePop 0 (unat l) # emits ks"
| "emits (Ref l n # ks) = ent TypeLink n (unat l) # emits ks"

fun tkids :: "ltree \<Rightarrow> lkid list" where
  "tkids (Base s ks t v e) = ks"
| "tkids (Fold u s l ks t v e) = Sub l u # ks"

fun ttext :: "ltree \<Rightarrow> nat \<times> nat \<times> nat \<times> nat" where
  "ttext (Base s ks t v e) = (t, s, node_span s e, v)"
| "ttext (Fold u s l ks t v e) = (t, s, node_span s e, v)"

fun klab :: "lkid \<Rightarrow> nat" where
  "klab (Sub l T) = unat l"
| "klab (Ref l n) = unat l"

fun trefs :: "ltree \<Rightarrow> nptr set" and krefs :: "lkid list \<Rightarrow> nptr set" where
  "trefs (Base s ks t v e) = krefs ks"
| "trefs (Fold u s l ks t v e) = trefs u \<union> krefs ks"
| "krefs [] = {}"
| "krefs (Sub l T # ks) = trefs T \<union> krefs ks"
| "krefs (Ref l n # ks) = insert n (krefs ks)"

lemma trefs_tkids: "trefs T = krefs (tkids T)"
  by (cases T) auto

text \<open>
  \<open>tree_at N h a T\<close>: the node \<open>a\<close> of heap \<open>h\<close> is the tree \<open>T\<close>, built of the nodes \<open>N\<close>; different
  elements are built of different nodes. \<open>kids_at\<close> says it of a list of elements, with their
  labels when \<open>lab\<close> is set.
\<close>

fun tree_at :: "nptr set \<Rightarrow> node_heap \<Rightarrow> nptr \<Rightarrow> ltree \<Rightarrow> bool"
  and kids_at :: "bool \<Rightarrow> nptr set \<Rightarrow> node_heap \<Rightarrow> nptr list \<Rightarrow> lkid list \<Rightarrow> bool" where
  "tree_at N h a (Base s ks t v e) \<longleftrightarrow> a \<in> N \<and> node_text (cells h ! a) = (t, s, node_span s e, v) \<and>
     kids_at True (N - {a}) h (entry_elems (nentry (cells h ! a))) ks"
| "tree_at N h a (Fold u s l ks t v e) \<longleftrightarrow> a \<in> N \<and> node_text (cells h ! a) = (t, s, node_span s e, v) \<and>
     (\<exists>c cs M. entry_elems (nentry (cells h ! a)) = c # cs \<and> M \<subseteq> N - {a} \<and> labelId (cells h ! c) = uint l \<and>
        tree_at M h c u \<and> kids_at True (N - {a} - M) h cs ks)"
| "kids_at lab N h cs [] \<longleftrightarrow> cs = []"
| "kids_at lab N h cs (Sub l T # ks) \<longleftrightarrow>
     (\<exists>c ds M. cs = c # ds \<and> M \<subseteq> N \<and> (lab \<longrightarrow> labelId (cells h ! c) = uint l) \<and>
        tree_at M h c T \<and> kids_at lab (N - M) h ds ks)"
| "kids_at lab N h cs (Ref l n # ks) \<longleftrightarrow> (\<exists>ds. cs = n # ds \<and> kids_at lab N h ds ks)"

lemma tree_at_iff:
  "tree_at N h a T \<longleftrightarrow> a \<in> N \<and> node_text (cells h ! a) = ttext T \<and>
     kids_at True (N - {a}) h (entry_elems (nentry (cells h ! a))) (tkids T)"
  by (cases T) auto

lemma tree_at_member: "tree_at N h a T \<Longrightarrow> a \<in> N"
  by (simp add: tree_at_iff)

text \<open>What leaves the nodes of a tree and the labels of its elements alone keeps the tree.\<close>

definition same_body :: "nptr set \<Rightarrow> node_heap \<Rightarrow> node_heap \<Rightarrow> bool" where
  "same_body N h h' \<longleftrightarrow> (\<forall>b \<in> N. node_text (cells h' ! b) = node_text (cells h ! b) \<and>
     nentry (cells h' ! b) = nentry (cells h ! b))"

definition same_label :: "nptr set \<Rightarrow> node_heap \<Rightarrow> node_heap \<Rightarrow> bool" where
  "same_label N h h' \<longleftrightarrow> (\<forall>b \<in> N. labelId (cells h' ! b) = labelId (cells h ! b))"

lemma same_mono:
  "same_body N h h' \<Longrightarrow> M \<subseteq> N \<Longrightarrow> same_body M h h'"
  "same_label N h h' \<Longrightarrow> M \<subseteq> N \<Longrightarrow> same_label M h h'"
  by (auto simp: same_body_def same_label_def)

lemma same_trans:
  "same_body N h h1 \<Longrightarrow> same_body N h1 h2 \<Longrightarrow> same_body N h h2"
  "same_label N h h1 \<Longrightarrow> same_label N h1 h2 \<Longrightarrow> same_label N h h2"
  by (simp_all add: same_body_def same_label_def)

lemma same_refl: "same_body N h h" "same_label N h h"
  by (simp_all add: same_body_def same_label_def)

lemma tree_at_kids_mono:
  "tree_at N h a T \<Longrightarrow> N \<subseteq> N' \<Longrightarrow> tree_at N' h a T"
  "kids_at lab M h cs ks \<Longrightarrow> M \<subseteq> M' \<Longrightarrow> kids_at lab M' h cs ks"
proof (induction N h a T and lab M h cs ks arbitrary: N' and M' rule: tree_at_kids_at.induct)
  case (1 N h a s ks t v e)
  have "kids_at True (N' - {a}) h (entry_elems (nentry (cells h ! a))) ks"
    by (rule "1.IH") (use "1.prems" in auto)
  with "1.prems" show ?case by auto
next
  case (2 N h a u s l ks t v e)
  from "2.prems"(1) obtain c cs M where c: "entry_elems (nentry (cells h ! a)) = c # cs" "M \<subseteq> N - {a}"
    "labelId (cells h ! c) = uint l" "tree_at M h c u" "kids_at True (N - {a} - M) h cs ks" by auto
  have "kids_at True (N' - {a} - M) h cs ks" by (rule "2.IH"(2) [OF c(5)]) (use "2.prems"(2) in auto)
  with c "2.prems" show ?case by auto
next
  case (4 lab N h cs l T ks)
  from "4.prems"(1) obtain c ds M where c: "cs = c # ds" "M \<subseteq> N" "lab \<longrightarrow> labelId (cells h ! c) = uint l"
    "tree_at M h c T" "kids_at lab (N - M) h ds ks" by auto
  have "kids_at lab (M' - M) h ds ks" by (rule "4.IH"(2) [OF c(5)]) (use "4.prems"(2) in auto)
  with c "4.prems" show ?case by auto
qed auto

lemma tree_at_kids_frame:
  "tree_at N h a T \<Longrightarrow> same_body N h h' \<Longrightarrow> same_label (N - {a}) h h' \<Longrightarrow> tree_at N h' a T"
  "kids_at lab M h cs ks \<Longrightarrow> same_body M h h' \<Longrightarrow> same_label M h h' \<Longrightarrow> kids_at lab M h' cs ks"
proof (induction N h a T and lab M h cs ks rule: tree_at_kids_at.induct)
  case (1 N h a s ks t v e)
  have "kids_at True (N - {a}) h' (entry_elems (nentry (cells h ! a))) ks"
    using 1 by (auto intro: same_mono)
  with 1 show ?case by (auto simp: same_body_def)
next
  case (2 N h a u s l ks t v e)
  from "2.prems"(1) obtain c cs M where c: "entry_elems (nentry (cells h ! a)) = c # cs" "M \<subseteq> N - {a}"
    "labelId (cells h ! c) = uint l" "tree_at M h c u" "kids_at True (N - {a} - M) h cs ks" by auto
  have "tree_at M h' c u" "kids_at True (N - {a} - M) h' cs ks"
    using "2.IH" c(4,5) "2.prems"(2,3) same_mono c(2) by (meson Diff_subset subset_trans)+
  moreover have "c \<in> N - {a}" using tree_at_member [OF c(4)] c(2) by auto
  ultimately show ?case using c "2.prems" by (auto simp: same_body_def same_label_def)
next
  case (4 lab N h cs l T ks)
  from "4.prems"(1) obtain c ds M where c: "cs = c # ds" "M \<subseteq> N" "lab \<longrightarrow> labelId (cells h ! c) = uint l"
    "tree_at M h c T" "kids_at lab (N - M) h ds ks" by auto
  have "tree_at M h' c T" "kids_at lab (N - M) h' ds ks"
    using "4.IH" c(4,5) "4.prems"(2,3) same_mono c(2) by (meson Diff_subset subset_trans)+
  moreover have "c \<in> N" using tree_at_member [OF c(4)] c(2) by auto
  ultimately show ?case using c "4.prems" by (auto simp: same_label_def)
qed auto

lemma kids_at_sub: "kids_at lab N h cs ks \<Longrightarrow> set cs \<subseteq> N \<union> krefs ks"
proof (induction ks arbitrary: N cs)
  case (Cons k ks)
  show ?case
  proof (cases k)
    case (Sub l T)
    with Cons.prems obtain c ds M where c: "cs = c # ds" "M \<subseteq> N" "tree_at M h c T" "kids_at lab (N - M) h ds ks" by auto
    from Cons.IH [OF c(4)] tree_at_member [OF c(3)] c(1,2) Sub show ?thesis by auto
  next
    case (Ref l n)
    with Cons.prems obtain ds where "cs = n # ds" "kids_at lab N h ds ks" by auto
    with Cons.IH [of N ds] Ref show ?thesis by auto
  qed
qed simp

text \<open>Labelling the elements: the labels of the new nodes are right when the last store wins.\<close>

lemma kids_at_label:
  assumes "kids_at False N h (map snd ps) ks" "map fst ps = map klab ks" "krefs ks \<inter> N = {}"
    and "same_body N h h'" "same_label (N - snd ` set ps) h h'"
    and "\<And>ps1 l c ps2. ps = ps1 @ (l, c) # ps2 \<Longrightarrow> c \<notin> snd ` set ps2 \<Longrightarrow> labelId (cells h' ! c) = int l"
  shows "kids_at True N h' (map snd ps) ks"
  using assms
proof (induction ks arbitrary: N ps)
  case (Cons k ks)
  from Cons.prems(2) obtain l c qs where ps: "ps = (l, c) # qs" "l = klab k" "map fst qs = map klab ks" by (cases ps) auto
  have tail: "labelId (cells h' ! d) = int m" if "qs = ps1 @ (m, d) # ps2" "d \<notin> snd ` set ps2" for ps1 m d ps2
    using Cons.prems(6) [of "(l, c) # ps1" m d ps2] that ps(1) by simp
  show ?case
  proof (cases k)
    case (Sub l' T)
    with Cons.prems(1) ps obtain M where M: "M \<subseteq> N" "tree_at M h c T" "kids_at False (N - M) h (map snd qs) ks" by auto
    have qs: "snd ` set qs \<subseteq> (N - M) \<union> krefs ks" using kids_at_sub [OF M(3)] by simp
    have cM: "c \<in> M" using M(2) by (rule tree_at_member)
    have "tree_at M h' c T"
    proof (rule tree_at_kids_frame(1) [OF M(2)])
      show "same_body M h h'" using Cons.prems(4) M(1) by (rule same_mono)
      have "M - {c} \<subseteq> N - snd ` set ps" using qs ps(1) M(1) Cons.prems(3) Sub by auto
      with Cons.prems(5) show "same_label (M - {c}) h h'" by (rule same_mono)
    qed
    moreover have "kids_at True (N - M) h' (map snd qs) ks"
    proof (rule Cons.IH [OF M(3) ps(3)])
      show "krefs ks \<inter> (N - M) = {}" using Cons.prems(3) Sub by auto
      show "same_body (N - M) h h'" using Cons.prems(4) by (rule same_mono) auto
      have "N - M - snd ` set qs \<subseteq> N - snd ` set ps" using cM ps(1) by auto
      with Cons.prems(5) show "same_label (N - M - snd ` set qs) h h'" by (rule same_mono)
    qed (rule tail)
    moreover have "c \<notin> snd ` set qs" using qs cM M(1) Cons.prems(3) Sub by auto
    then have "labelId (cells h' ! c) = uint l'" using Cons.prems(6) [of "[]" l c qs] ps Sub by simp
    ultimately show ?thesis using ps(1) M(1) Sub by auto
  next
    case (Ref l' n)
    with Cons.prems(1) ps have n: "c = n" "kids_at False N h (map snd qs) ks" by auto
    have "n \<notin> N" using Cons.prems(3) Ref by auto
    then have "N - snd ` set qs = N - snd ` set ps" using ps(1) n(1) by auto
    have "kids_at True N h' (map snd qs) ks"
    proof (rule Cons.IH [OF n(2) ps(3)])
      show "krefs ks \<inter> N = {}" using Cons.prems(3) Ref by auto
      show "same_body N h h'" by (rule Cons.prems(4))
      show "same_label (N - snd ` set qs) h h'" using Cons.prems(5) \<open>N - snd ` set qs = N - snd ` set ps\<close> by simp
    qed (rule tail)
    with Ref ps(1) n(1) show ?thesis by simp
  qed
qed simp

section \<open>Running over the log of a tree\<close>

text \<open>
  The state after the entries of \<open>T\<close> were read: the segment \<open>E\<close> from \<open>head\<close> on links the top
  elements of \<open>T\<close>, the frame holds its text, the new nodes are those in \<open>L\<close> but not in \<open>L0\<close>.
\<close>

definition built :: "ltree \<Rightarrow> AstMachine \<Rightarrow> node_heap \<Rightarrow> nptr set \<Rightarrow> AstLog list \<Rightarrow> AstLog list \<Rightarrow>
    AstMachine \<Rightarrow> node_heap \<Rightarrow> nptr set \<Rightarrow> nptr multiset \<Rightarrow> nptr list \<Rightarrow> cframe \<Rightarrow> bool" where
  "built T ast0 h0 L0 A B ast h L R xs fr \<longleftrightarrow>
     (\<exists>E0 E. lg ast = A @ E0 @ E @ B \<and> length E0 + length E = length (emit T) \<and>
       head fr = length A + length E0 \<and> closed E \<and> map fst (scan E) = map klab (tkids T) \<and>
       objSize fr = length (scan E) \<and> kids_at False (L - L0) h (map snd (scan E)) (tkids T)) \<and>
     (ctag fr, spos fr, node_span (spos fr) (epos fr), cvalue fr) = ttext T \<and>
     ast_ok ast h L R xs \<and> L0 \<subseteq> L \<and> same_body L0 h0 h \<and> same_label (L0 - trefs T) h0 h \<and> parsed ast = parsed ast0"

lemma length_scan: "length (scan es) \<le> length es"
proof (induction es rule: scan.induct)
  case (2 e es)
  then show ?case by (cases "ltype e = TypeLink") (simp_all add: le_diff_conv)
qed simp

lemma klab_less: "klab k < 2 ^ 16"
  by (cases k) simp_all

lemma lrefs_update:
  "i < length es \<Longrightarrow> \<not> is_ref (es ! i) \<Longrightarrow> is_ref e \<Longrightarrow> lrefs (es[i := e]) = add_mset (lval e) (lrefs es)"
proof -
  assume i: "i < length es" "\<not> is_ref (es ! i)" "is_ref e"
  have "es = take i es @ es ! i # drop (Suc i) es" using i(1) by (rule id_take_nth_drop)
  then have "lrefs es = lrefs (take i es) + lrefs (drop (Suc i) es)" using i(2) by (metis lrefs_simps(2,3))
  moreover have "es[i := e] = take i es @ e # drop (Suc i) es" using i(1) by (rule upd_conv_take_nth_drop)
  ultimately show ?thesis using i(3) by simp
qed

lemma finish_tree:
  assumes b: "built T ast0 h0 L0 A (X @ B) ast h L R xs fr" and X: "scan X = []"
    and stop: "stop = length A + length (emit T) + length X" and r: "trefs T \<subseteq> L0" and small: "length (lg ast) + 1 < 2 ^ 28"
  shows "\<exists>a h' xs'. construct_frame ast h fr stop = Inr (a, h') \<and> a \<notin> L \<and> ast_ok ast h' (insert a L) R xs' \<and>
     refc (cells h' ! a) = 0 \<and> tree_at (insert a L - L0) h' a T \<and> same_body L0 h0 h' \<and> same_label (L0 - trefs T) h0 h'"
proof -
  from b obtain E0 E where E: "lg ast = A @ E0 @ E @ X @ B" "length E0 + length E = length (emit T)"
      "head fr = length A + length E0" "closed E" "map fst (scan E) = map klab (tkids T)"
      "objSize fr = length (scan E)" "kids_at False (L - L0) h (map snd (scan E)) (tkids T)"
    and cont: "(ctag fr, spos fr, node_span (spos fr) (epos fr), cvalue fr) = ttext T"
    and ok: "ast_ok ast h L R xs" and sub: "L0 \<subseteq> L" and same: "same_body L0 h0 h" "same_label (L0 - trefs T) h0 h"
    by (auto simp: built_def)
  let ?ks = "scan E"
  have seg: "take (stop - head fr) (drop (head fr) (lg ast)) = E @ X"
    using E(1-3) stop by simp
  then have ks: "?ks = scan (take (stop - head fr) (drop (head fr) (lg ast)))" using scan_append [OF E(4)] X by simp
  have ptrs: "snd ` set ?ks \<subseteq> (L - L0) \<union> trefs T" using kids_at_sub [OF E(7)] trefs_tkids [of T] by simp
  have kids: "\<forall>(l, c) \<in> set ?ks. l < 2 ^ 16 \<and> c \<in> L"
  proof clarify
    fix l c assume lc: "(l, c) \<in> set ?ks"
    then have "l \<in> set (map klab (tkids T))" unfolding E(5) [symmetric] by force
    moreover have "c \<in> snd ` set ?ks" using lc by force
    ultimately show "l < 2 ^ 16 \<and> c \<in> L" using klab_less ptrs sub r by auto
  qed
  have "stop \<le> length (lg ast)" using E(1,2) stop by simp
  moreover have "length ?ks \<le> length (lg ast)" using length_scan [of E] E(1) by simp
  ultimately obtain a h' xs' where c: "construct_frame ast h fr stop = Inr (a, h')" "a \<notin> L" "ast_ok ast h' (insert a L) R xs'"
     "refc (cells h' ! a) = 0" "node_text (cells h' ! a) = (ctag fr, spos fr, node_span (spos fr) (epos fr), cvalue fr)"
     "entry_elems (nentry (cells h' ! a)) = map snd ?ks"
     "\<forall>b \<in> L. node_text (cells h' ! b) = node_text (cells h ! b) \<and> nentry (cells h' ! b) = nentry (cells h ! b) \<and>
        (b \<notin> snd ` set ?ks \<longrightarrow> labelId (cells h' ! b) = labelId (cells h ! b))"
     "\<forall>ks1 l c ks2. ?ks = ks1 @ (l, c) # ks2 \<longrightarrow> c \<notin> snd ` set ks2 \<longrightarrow> labelId (cells h' ! c) = int l"
    using construct_frame_ok [OF ok _ ks E(6) kids small] by blast
  have body: "same_body L h h'" and lab: "same_label (L - snd ` set ?ks) h h'"
    using c(7) by (auto simp: same_body_def same_label_def)
  have "kids_at True (L - L0) h' (map snd ?ks) (tkids T)"
  proof (rule kids_at_label [OF E(7,5)])
    show "krefs (tkids T) \<inter> (L - L0) = {}" using r trefs_tkids [of T] by auto
    show "same_body (L - L0) h h'" using body by (rule same_mono) auto
    show "same_label (L - L0 - snd ` set ?ks) h h'" using lab by (rule same_mono) auto
    show "labelId (cells h' ! c) = int l" if "?ks = ps1 @ (l, c) # ps2" "c \<notin> snd ` set ps2" for ps1 l c ps2
      using c(8) that by blast
  qed
  moreover have "insert a L - L0 - {a} = L - L0" "a \<notin> L0" using c(2) sub by auto
  ultimately have "tree_at (insert a L - L0) h' a T"
    unfolding tree_at_iff using c(5,6) cont by simp
  moreover have "same_body L0 h0 h'" using same(1) same_mono(1) [OF body sub] by (rule same_trans)
  moreover have "same_label (L0 - trefs T) h h'" using lab ptrs sub by (intro same_mono(2) [OF lab]) auto
  then have "same_label (L0 - trefs T) h0 h'" using same(2) same_trans(2) by blast
  ultimately show ?thesis using c(1-4) by blast
qed

text \<open>The new node counted once more, for the link that will hold it.\<close>

lemma pack_tree:
  assumes b: "built T ast0 h0 L0 A (X @ B) ast h L R xs fr" and X: "scan X = []"
    and stop: "stop = length A + length (emit T) + length X" and r: "trefs T \<subseteq> L0" and small: "length (lg ast) + 1 < 2 ^ 28"
    and i: "i < length (lg ast)" "\<not> is_ref (lg ast ! i)"
  shows "\<exists>a h1 h2 xs2. construct_frame ast h fr stop = Inr (a, h1) \<and> NODE_GC_RETAIN h1 a = Inr h2 \<and> a \<noteq> 0 \<and> a \<notin> L \<and>
     (\<forall>e. is_ref e \<longrightarrow> lval e = a \<longrightarrow> (\<exists>ast'. put_log ast i e = Inr ast' \<and> lg ast' = (lg ast)[i := e] \<and>
        ast_ok ast' h2 (insert a L) R xs2 \<and> parsed ast' = parsed ast)) \<and>
     tree_at (insert a L - L0) h2 a T \<and> same_body L0 h0 h2 \<and> same_label (L0 - trefs T) h0 h2"
proof -
  from finish_tree [OF b X stop r small] obtain a h1 xs1 where
    f: "construct_frame ast h fr stop = Inr (a, h1)" "a \<notin> L" "ast_ok ast h1 (insert a L) R xs1"
      "tree_at (insert a L - L0) h1 a T" "same_body L0 h0 h1" "same_label (L0 - trefs T) h0 h1" by blast
  from f(3) have wf: "arr_wf (logs ast)" and hk: "heap_ok h1 (insert a L) (lrefs (lg ast) + R) xs1"
    by (simp_all add: ast_ok_def)
  let ?h2 = "with_refc h1 a (refc (cells h1 ! a) + 1)"
  have a: "a \<in> insert a L" by simp
  from retain_ok [OF hk a] have ret: "NODE_GC_RETAIN h1 a = Inr ?h2"
    "heap_ok ?h2 (insert a L) (add_mset a (lrefs (lg ast) + R)) xs1" by simp_all
  have al: "0 < a" "a < length (cells h1)" using heap_okD [OF hk a] by simp_all
  have bl: "same_body UNIV h1 ?h2" "same_label UNIV h1 ?h2"
  proof -
    have "node_text (cells ?h2 ! b) = node_text (cells h1 ! b) \<and> nentry (cells ?h2 ! b) = nentry (cells h1 ! b) \<and>
       labelId (cells ?h2 ! b) = labelId (cells h1 ! b)" for b
      using al(2) by (cases "b = a") (simp_all add: node_text_def)
    then show "same_body UNIV h1 ?h2" "same_label UNIV h1 ?h2" by (simp_all add: same_body_def same_label_def)
  qed
  have "\<exists>ast'. put_log ast i e = Inr ast' \<and> lg ast' = (lg ast)[i := e] \<and>
        ast_ok ast' ?h2 (insert a L) R xs1 \<and> parsed ast' = parsed ast" if e: "is_ref e" "lval e = a" for e
    using put_log_ok [OF wf i(1), of e] lrefs_update [OF i e(1)] e(2) ret(2) by (auto simp: ast_ok_def)
  moreover have "tree_at (insert a L - L0) ?h2 a T"
    using f(4) same_mono(1) [OF bl(1)] same_mono(2) [OF bl(2)] by (intro tree_at_kids_frame(1) [OF f(4)]) auto
  moreover have "same_body L0 h0 ?h2" using f(5) same_mono(1) [OF bl(1)] same_trans(1) by blast
  moreover have "same_label (L0 - trefs T) h0 ?h2" using f(6) same_mono(2) [OF bl(2)] same_trans(2) by blast
  ultimately show ?thesis using f(1,2) ret(1) al(1) by blast
qed

lemma scan_meta [simp]: "scan (meta t v e) = []" "closed (meta t v e)"
  by (auto simp: meta_def intro!: closed_plain)

lemma create_loop_entry:
  assumes "arr_wf (logs ast)" "lg ast = A @ e # B" "F = Suc f"
  shows "cur = length A \<Longrightarrow> cur < asize (logs ast)" "ARRAY_get (logs ast) (length A) = Inr e"
  using assms get_lg [of ast "length A"] length_lg [of ast] by simp_all

text \<open>Tags, replacements and captures only change the frame.\<close>

fun meta_frame :: "cframe \<Rightarrow> AstLog \<Rightarrow> cframe" where
  "meta_frame fr x = (case ltype x of TypeTag \<Rightarrow> fr\<lparr>ctag := lidx x\<rparr> | TypeReplace \<Rightarrow> fr\<lparr>cvalue := lidx x\<rparr>
     | _ \<Rightarrow> fr\<lparr>epos := lidx x\<rparr>)"

declare meta_frame.simps [simp del]

lemma plain_steps:
  assumes "arr_wf (logs ast)" "lg ast = A @ ms @ B" "length (lg ast) - length A < F"
    and "\<forall>x \<in> set ms. ltype x = TypeTag \<or> ltype x = TypeReplace \<or> ltype x = TypeCapture"
  shows "\<exists>F'. create_loop F ast h fr (length A) pushed =
       create_loop F' ast h (foldl meta_frame fr ms) (length A + length ms) pushed \<and>
     length (lg ast) - (length A + length ms) < F'"
  using assms
proof (induction ms arbitrary: A F fr)
  case (Cons x ms)
  from Cons.prems(3) obtain f where F: "F = Suc f" by (cases F) auto
  have l: "lg ast = A @ x # (ms @ B)" using Cons.prems(2) by simp
  note e = create_loop_entry [OF Cons.prems(1) l F]
  have "create_loop F ast h fr (length A) pushed = create_loop f ast h (meta_frame fr x) (length (A @ [x])) pushed"
    using e Cons.prems(4) F by (auto simp: meta_frame.simps)
  moreover have "length (lg ast) - length (A @ [x]) < f" using Cons.prems(3) F l by simp
  with Cons.IH [of "A @ [x]" f "meta_frame fr x"] Cons.prems obtain F' where
    "create_loop f ast h (meta_frame fr x) (length (A @ [x])) pushed =
       create_loop F' ast h (foldl meta_frame (meta_frame fr x) ms) (length (A @ [x]) + length ms) pushed"
     "length (lg ast) - (length (A @ [x]) + length ms) < F'" by auto
  ultimately show ?case by auto
qed auto

lemma meta_step:
  assumes wf: "arr_wf (logs ast)" and l: "lg ast = A @ meta t v e @ B" and F: "length (lg ast) - length A < F"
    and fr: "ctag fr = 0" "cvalue fr = 0"
  shows "\<exists>F'. create_loop F ast h fr (length A) pushed =
       create_loop F' ast h (fr\<lparr>ctag := t, cvalue := v, epos := e\<rparr>) (length A + length (meta t v e)) pushed \<and>
     length (lg ast) - (length A + length (meta t v e)) < F'"
proof -
  have m: "\<forall>x \<in> set (meta t v e). ltype x = TypeTag \<or> ltype x = TypeReplace \<or> ltype x = TypeCapture"
    by (auto simp: meta_def)
  have "foldl meta_frame fr (meta t v e) = fr\<lparr>ctag := t, cvalue := v, epos := e\<rparr>"
    using fr by (auto simp: meta_def meta_frame.simps)
  with plain_steps [OF wf l F m, of h fr pushed] show ?thesis by simp
qed

definition tree_step :: "ltree \<Rightarrow> bool" where
  "tree_step T \<longleftrightarrow> (\<forall>F ast h L R xs fr0 A B pushed. lg ast = A @ emit T @ B \<longrightarrow> ast_ok ast h L R xs \<longrightarrow>
     trefs T \<subseteq> L \<longrightarrow> length (lg ast) + 1 < 2 ^ 28 \<longrightarrow> length (lg ast) - length A < F \<longrightarrow>
     (\<exists>F' ast' h' L' xs' fr. create_loop F ast h fr0 (length A) pushed =
          create_loop F' ast' h' fr (length A + length (emit T)) pushed \<and>
        length (lg ast) - (length A + length (emit T)) < F' \<and> built T ast h L A B ast' h' L' R xs' fr))"

definition kids_built :: "lkid list \<Rightarrow> AstMachine \<Rightarrow> node_heap \<Rightarrow> nptr set \<Rightarrow> AstLog list \<Rightarrow> AstLog list \<Rightarrow>
    AstMachine \<Rightarrow> node_heap \<Rightarrow> nptr set \<Rightarrow> nptr multiset \<Rightarrow> nptr list \<Rightarrow> AstLog list \<Rightarrow> bool" where
  "kids_built ks ast0 h0 L0 A B ast h L R xs E \<longleftrightarrow>
     lg ast = A @ E @ B \<and> length E = length (emits ks) \<and> closed E \<and> map fst (scan E) = map klab ks \<and>
     kids_at False (L - L0) h (map snd (scan E)) ks \<and>
     ast_ok ast h L R xs \<and> L0 \<subseteq> L \<and> same_body L0 h0 h \<and> same_label (L0 - krefs ks) h0 h \<and> parsed ast = parsed ast0"

definition kids_step :: "lkid list \<Rightarrow> bool" where
  "kids_step ks \<longleftrightarrow> (\<forall>F ast h L R xs fr A B pushed. lg ast = A @ emits ks @ B \<longrightarrow> ast_ok ast h L R xs \<longrightarrow>
     krefs ks \<subseteq> L \<longrightarrow> length (lg ast) + 1 < 2 ^ 28 \<longrightarrow> length (lg ast) - length A < F \<longrightarrow>
     (\<exists>F' ast' h' L' xs' E. create_loop F ast h fr (length A) pushed =
          create_loop F' ast' h' (fr\<lparr>objSize := objSize fr + length ks\<rparr>) (length A + length (emits ks)) pushed \<and>
        length (lg ast) - (length A + length (emits ks)) < F' \<and> kids_built ks ast h L A B ast' h' L' R xs' E))"

lemma tree_stepD:
  assumes "tree_step T" "lg ast = A @ emit T @ B" "ast_ok ast h L R xs" "trefs T \<subseteq> L"
    "length (lg ast) + 1 < 2 ^ 28" "length (lg ast) - length A < F"
  shows "\<exists>F' ast' h' L' xs' fr. create_loop F ast h fr0 (length A) pushed =
          create_loop F' ast' h' fr (length A + length (emit T)) pushed \<and>
    length (lg ast) - (length A + length (emit T)) < F' \<and> built T ast h L A B ast' h' L' R xs' fr"
  using assms(1) [unfolded tree_step_def, rule_format, OF assms(2-)] .

lemma kids_stepD:
  assumes "kids_step ks" "lg ast = A @ emits ks @ B" "ast_ok ast h L R xs" "krefs ks \<subseteq> L"
    "length (lg ast) + 1 < 2 ^ 28" "length (lg ast) - length A < F"
  shows "\<exists>F' ast' h' L' xs' E. create_loop F ast h fr (length A) pushed =
          create_loop F' ast' h' (fr\<lparr>objSize := objSize fr + length ks\<rparr>) (length A + length (emits ks)) pushed \<and>
    length (lg ast) - (length A + length (emits ks)) < F' \<and> kids_built ks ast h L A B ast' h' L' R xs' E"
  using assms(1) [unfolded kids_step_def, rule_format, OF assms(2-)] .

lemma kids_step_Nil: "kids_step []"
  unfolding kids_step_def
proof (intro allI impI)
  fix F ast h L R xs fr A B pushed
  assume "lg ast = A @ emits [] @ B" "ast_ok ast h L R xs" "length (lg ast) - length A < F"
  then show "\<exists>F' ast' h' L' xs' E. create_loop F ast h fr (length A) pushed =
          create_loop F' ast' h' (fr\<lparr>objSize := objSize fr + length []\<rparr>) (length A + length (emits [])) pushed \<and>
        length (lg ast) - (length A + length (emits [])) < F' \<and> kids_built [] ast h L A B ast' h' L' R xs' E"
    by (intro exI [of _ F] exI [of _ ast] exI [of _ h] exI [of _ L] exI [of _ xs] exI [of _ "[]"])
      (simp add: kids_built_def same_refl)
qed

lemma kids_step_Ref:
  assumes IH: "kids_step ks"
  shows "kids_step (Ref l n # ks)"
  unfolding kids_step_def
proof (intro allI impI)
  fix F ast h L R xs fr A B pushed
  assume l: "lg ast = A @ emits (Ref l n # ks) @ B" and ok: "ast_ok ast h L R xs" and r: "krefs (Ref l n # ks) \<subseteq> L"
    and small: "length (lg ast) + 1 < 2 ^ 28" and F: "length (lg ast) - length A < F"
  let ?e = "ent TypeLink n (unat l)"
  from F obtain f where f: "F = Suc f" by (cases F) auto
  have wf: "arr_wf (logs ast)" using ok by (simp add: ast_ok_def)
  have l1: "lg ast = A @ ?e # (emits ks @ B)" and l2: "lg ast = (A @ [?e]) @ emits ks @ B" using l by simp_all
  have step: "create_loop F ast h fr (length A) pushed = create_loop f ast h (fr\<lparr>objSize := objSize fr + 1\<rparr>) (length (A @ [?e])) pushed"
    using create_loop_entry [OF wf l1 f] f by simp
  have f': "length (lg ast) - length (A @ [?e]) < f" using F f l by simp
  have r': "krefs ks \<subseteq> L" using r by simp
  from kids_stepD [OF IH l2 ok r' small f', of "fr\<lparr>objSize := objSize fr + 1\<rparr>" pushed]
  obtain F' ast' h' L' xs' E where
    k: "create_loop f ast h (fr\<lparr>objSize := objSize fr + 1\<rparr>) (length (A @ [?e])) pushed = create_loop F' ast' h'
        (fr\<lparr>objSize := objSize fr + 1, objSize := objSize (fr\<lparr>objSize := objSize fr + 1\<rparr>) + length ks\<rparr>)
        (length (A @ [?e]) + length (emits ks)) pushed"
      "length (lg ast) - (length (A @ [?e]) + length (emits ks)) < F'" "kids_built ks ast h L (A @ [?e]) B ast' h' L' R xs' E"
    by blast
  have "kids_built (Ref l n # ks) ast h L A B ast' h' L' R xs' (?e # E)"
    using k(3) same_mono(2) [of "L - krefs ks" h h' "L - krefs (Ref l n # ks)"]
    by (auto simp: kids_built_def closed_def)
  with step k show "\<exists>F' ast' h' L' xs' E. create_loop F ast h fr (length A) pushed =
          create_loop F' ast' h' (fr\<lparr>objSize := objSize fr + length (Ref l n # ks)\<rparr>) (length A + length (emits (Ref l n # ks))) pushed \<and>
        length (lg ast) - (length A + length (emits (Ref l n # ks))) < F' \<and> kids_built (Ref l n # ks) ast h L A B ast' h' L' R xs' E"
    by (intro exI [of _ F'] exI [of _ ast'] exI [of _ h'] exI [of _ L'] exI [of _ xs'] exI [of _ "?e # E"]) simp
qed

text \<open>A packed element followed by the other elements.\<close>

lemma kids_built_Cons:
  assumes pack: "tree_at (L1 - L) h1 a T" "same_body L h h1" "same_label (L - trefs T) h h1" "L \<subseteq> L1" "parsed ast1 = parsed ast"
    and rest: "kids_built ks ast1 h1 L1 (A @ P) B ast' h' L' R xs' E"
    and P: "closed P" "scan P = [(unat l, a)]" and r: "krefs (Sub l T # ks) \<subseteq> L"
    and len: "length P = length (emit T) + 2"
  shows "kids_built (Sub l T # ks) ast h L A B ast' h' L' R xs' (P @ E)"
proof -
  have k: "lg ast' = (A @ P) @ E @ B" "length E = length (emits ks)" "closed E" "map fst (scan E) = map klab ks"
     "kids_at False (L' - L1) h' (map snd (scan E)) ks" "ast_ok ast' h' L' R xs'" "L1 \<subseteq> L'" "same_body L1 h1 h'"
     "same_label (L1 - krefs ks) h1 h'" "parsed ast' = parsed ast"
    using rest pack(5) by (auto simp: kids_built_def)
  have "tree_at (L1 - L) h' a T"
  proof (rule tree_at_kids_frame(1) [OF pack(1)])
    show "same_body (L1 - L) h1 h'" using k(8) by (rule same_mono) auto
    show "same_label (L1 - L - {a}) h1 h'" using k(9) by (rule same_mono) (use r in auto)
  qed
  moreover have "kids_at False (L' - L - (L1 - L)) h' (map snd (scan E)) ks"
    using k(5) by (rule tree_at_kids_mono) (use pack(4) in auto)
  moreover have "L1 - L \<subseteq> L' - L" using k(7) by auto
  ultimately have "kids_at False (L' - L) h' (a # map snd (scan E)) (Sub l T # ks)"
    by (simp only: kids_at.simps list.inject simp_thms) blast
  moreover have "same_body L h h'" using pack(2) same_mono(1) [OF k(8) pack(4)] by (rule same_trans)
  moreover have "same_label (L - krefs (Sub l T # ks)) h h'"
  proof (rule same_trans(2))
    show "same_label (L - krefs (Sub l T # ks)) h h1" using pack(3) by (rule same_mono) auto
    show "same_label (L - krefs (Sub l T # ks)) h1 h'" using k(9) by (rule same_mono) (use pack(4) in auto)
  qed
  ultimately show ?thesis
    using k pack(4) P closed_append [OF P(1) k(3)] scan_append [OF P(1)] len by (auto simp: kids_built_def)
qed

text \<open>The recursive call at a push reads the pushed tree up to its pop and links it.\<close>

lemma push_step:
  assumes IH: "tree_step T" and l: "lg ast = A @ ent TypePush 0 0 # emit T @ ent TypePop 0 (unat l) # C"
    and ok: "ast_ok ast h L R xs" and r: "trefs T \<subseteq> L" and small: "length (lg ast) + 1 < 2 ^ 28"
    and F: "length (lg ast) - length A < Suc f"
  shows "\<exists>a ast1 h1 L1 xs1 P. create_loop f ast h fr0 (length A + 1) (Some (length A)) = Inr (a, ast1, h1) \<and>
     lg ast1 = A @ P @ C \<and> length P = length (emit T) + 2 \<and> ltype (hd P) = TypeLink \<and>
     lshift (hd P) = length (emit T) + 1 \<and> closed P \<and> scan P = [(unat l, a)] \<and>
     ast_ok ast1 h1 L1 R xs1 \<and> L \<subseteq> L1 \<and> tree_at (L1 - L) h1 a T \<and> same_body L h h1 \<and>
     same_label (L - trefs T) h h1 \<and> parsed ast1 = parsed ast"
proof -
  let ?push = "ent TypePush 0 0" and ?pop = "ent TypePop 0 (unat l)"
  have l2: "lg ast = (A @ [?push]) @ emit T @ (?pop # C)" using l by simp
  have F2: "length (lg ast) - length (A @ [?push]) < f" using F l by simp
  from tree_stepD [OF IH l2 ok r small F2, of fr0 "Some (length A)"]
  obtain F1 ast1 h1 L1 xs1 fr where t: "create_loop f ast h fr0 (length (A @ [?push])) (Some (length A)) =
       create_loop F1 ast1 h1 fr (length (A @ [?push]) + length (emit T)) (Some (length A))"
     "length (lg ast) - (length (A @ [?push]) + length (emit T)) < F1"
     "built T ast h L (A @ [?push]) ([?pop] @ C) ast1 h1 L1 R xs1 fr" by auto
  from t(3) obtain M where lg1: "lg ast1 = (A @ [?push]) @ M @ ?pop # C" "length M = length (emit T)"
    and ok1: "ast_ok ast1 h1 L1 R xs1" and sub: "L \<subseteq> L1" and p1: "parsed ast1 = parsed ast"
    unfolding built_def by (metis append.assoc append_Cons append_Nil length_append)
  have wf1: "arr_wf (logs ast1)" using ok1 by (simp add: ast_ok_def)
  have small1: "length (lg ast1) + 1 < 2 ^ 28" using small l lg1 by simp
  let ?i = "length A" and ?cur = "length (A @ [?push] @ M)"
  from t(2) obtain f1 where f1: "F1 = Suc f1" by (cases F1) auto
  have lpop: "lg ast1 = (A @ [?push] @ M) @ ?pop # C" using lg1(1) by simp
  note e = create_loop_entry [OF wf1 lpop f1]
  have gi: "ARRAY_get (logs ast1) ?i = Inr ?push" "?i < length (lg ast1)" "lg ast1 ! ?i = ?push"
    using get_lg [OF wf1, of ?i] lg1(1) by simp_all
  have "\<not> is_ref (lg ast1 ! ?i)" using gi(3) by simp
  from pack_tree [OF t(3) _ _ r small1 gi(2) this, of "?cur + 1"] obtain a h2 h3 xs3 where
    a: "construct_frame ast1 h1 fr (?cur + 1) = Inr (a, h2)" "NODE_GC_RETAIN h2 a = Inr h3" "a \<noteq> 0" "a \<notin> L1"
      "\<forall>e. is_ref e \<longrightarrow> lval e = a \<longrightarrow> (\<exists>ast'. put_log ast1 ?i e = Inr ast' \<and> lg ast' = (lg ast1)[?i := e] \<and>
        ast_ok ast' h3 (insert a L1) R xs3 \<and> parsed ast' = parsed ast1)"
      "tree_at (insert a L1 - L) h3 a T" "same_body L h h3" "same_label (L - trefs T) h h3"
    using lg1(2) by auto
  let ?e = "?push\<lparr>lval := a, lidx := unat l, lshift := ?cur - ?i, ltype := TypeLink\<rparr>"
  have "is_ref ?e" "lval ?e = a" using a(3) by (simp_all add: is_ref_def)
  with a(5) obtain ast' where p: "put_log ast1 ?i ?e = Inr ast'" "lg ast' = (lg ast1)[?i := ?e]"
    "ast_ok ast' h3 (insert a L1) R xs3" "parsed ast' = parsed ast1" by blast
  let ?P = "?e # M @ [?pop]"
  have "create_loop F1 ast1 h1 fr ?cur (Some ?i) = Inr (a, ast', h3)"
    using e a(1,2) gi(1) p(1) f1 by simp
  then have "create_loop f ast h fr0 (?i + 1) (Some ?i) = Inr (a, ast', h3)" using t(1) lg1(2) by simp
  moreover have "lg ast' = A @ ?P @ C" using p(2) lg1(1) by (simp add: list_update_append)
  moreover have "closed ?P" "scan ?P = [(unat l, a)]"
    using lg1(2) closed_link [of ?e "M @ [?pop]"] scan_link [of ?e "M @ [?pop]"] by simp_all
  moreover have "L \<subseteq> insert a L1" using sub by auto
  ultimately show ?thesis using p(3,4) p1 a(6-8) lg1(2)
    by (intro exI [of _ a] exI [of _ ast'] exI [of _ h3] exI [of _ "insert a L1"] exI [of _ xs3] exI [of _ ?P]) simp
qed

lemma emit_ne: "0 < length (emit T)"
  by (induction T rule: emit_emits.induct(1) [where Q = "\<lambda>_. True"]) simp_all

lemma kids_step_Sub:
  assumes IHT: "tree_step T" and IH: "kids_step ks"
  shows "kids_step (Sub l T # ks)"
  unfolding kids_step_def
proof (intro allI impI)
  fix F ast h L R xs and fr :: cframe and A B pushed
  assume l: "lg ast = A @ emits (Sub l T # ks) @ B" and ok: "ast_ok ast h L R xs" and r: "krefs (Sub l T # ks) \<subseteq> L"
    and small: "length (lg ast) + 1 < 2 ^ 28" and F: "length (lg ast) - length A < F"
  from F obtain f where f: "F = Suc f" by (cases F) auto
  have wf: "arr_wf (logs ast)" using ok by (simp add: ast_ok_def)
  let ?push = "ent TypePush 0 0" and ?C = "emits ks @ B"
  have l1: "lg ast = A @ ?push # (emit T @ ent TypePop 0 (unat l) # ?C)" using l by simp
  note e = create_loop_entry [OF wf l1 f]
  have "length A + 1 < length (lg ast)" using l1 by simp
  then obtain l2 where n: "ARRAY_get (logs ast) (length A + 1) = Inr l2" using get_lg [OF wf] by blast
  have rT: "trefs T \<subseteq> L" and rk: "krefs ks \<subseteq> L" using r by simp_all
  from push_step [OF IHT l1 ok rT small F [unfolded f], of
      "\<lparr>head = length A + 1, spos = lidx l2, epos = lidx l2, objSize = 0, ctag = 0, cvalue = 0\<rparr>"]
  obtain a ast1 h1 L1 xs1 P where p: "create_loop f ast h
       \<lparr>head = length A + 1, spos = lidx l2, epos = lidx l2, objSize = 0, ctag = 0, cvalue = 0\<rparr>
       (length A + 1) (Some (length A)) = Inr (a, ast1, h1)"
     "lg ast1 = A @ P @ ?C" "length P = length (emit T) + 2" "ltype (hd P) = TypeLink" "lshift (hd P) = length (emit T) + 1"
     "closed P" "scan P = [(unat l, a)]" "ast_ok ast1 h1 L1 R xs1" "L \<subseteq> L1" "tree_at (L1 - L) h1 a T"
     "same_body L h h1" "same_label (L - trefs T) h h1" "parsed ast1 = parsed ast" by blast
  have wf1: "arr_wf (logs ast1)" using p(8) by (simp add: ast_ok_def)
  have g1: "ARRAY_get (logs ast1) (length A) = Inr (hd P)"
    using get_lg [OF wf1, of "length A"] p(2,3) by (cases P) simp_all
  let ?fr = "fr\<lparr>objSize := objSize fr + 1\<rparr>"
  have step: "create_loop F ast h fr (length A) pushed = create_loop f ast1 h1 ?fr (length (A @ P)) pushed"
    using e n p(1,3,4,5) g1 f by simp
  have len: "length (lg ast1) = length (lg ast)" using p(2,3) l by simp
  have k1: "lg ast1 = (A @ P) @ emits ks @ B" using p(2) by simp
  have k2: "krefs ks \<subseteq> L1" using rk p(9) by auto
  have k3: "length (lg ast1) + 1 < 2 ^ 28" using small len by simp
  have k4: "length (lg ast1) - length (A @ P) < f" using F f len p(2,3) by simp
  from kids_stepD [OF IH k1 p(8) k2 k3 k4, of ?fr pushed] obtain F' ast' h' L' xs' E where
    k: "create_loop f ast1 h1 ?fr (length (A @ P)) pushed =
       create_loop F' ast' h' (?fr\<lparr>objSize := objSize ?fr + length ks\<rparr>) (length (A @ P) + length (emits ks)) pushed"
     "length (lg ast1) - (length (A @ P) + length (emits ks)) < F'" "kids_built ks ast1 h1 L1 (A @ P) B ast' h' L' R xs' E"
    by blast
  from kids_built_Cons [OF p(10-12,9,13) k(3) p(6,7) r p(3)]
  have "kids_built (Sub l T # ks) ast h L A B ast' h' L' R xs' (P @ E)" .
  with step k(1,2) len p(3) show "\<exists>F' ast' h' L' xs' E. create_loop F ast h fr (length A) pushed =
          create_loop F' ast' h' (fr\<lparr>objSize := objSize fr + length (Sub l T # ks)\<rparr>)
            (length A + length (emits (Sub l T # ks))) pushed \<and>
        length (lg ast) - (length A + length (emits (Sub l T # ks))) < F' \<and>
        kids_built (Sub l T # ks) ast h L A B ast' h' L' R xs' E"
    by (intro exI [of _ F'] exI [of _ ast'] exI [of _ h'] exI [of _ L'] exI [of _ xs'] exI [of _ "P @ E"])
      (simp add: add.assoc add.commute add.left_commute)
qed

text \<open>The elements, the tag, the text and the end of a node whose first entry \<open>P\<close> was read.\<close>

lemma body_step:
  assumes IH: "kids_step ks" and l: "lg ast = A @ emits ks @ meta t v e @ B"
    and ok: "ast_ok ast h L R xs" and r: "krefs ks \<subseteq> L" and small: "length (lg ast) + 1 < 2 ^ 28"
    and F: "length (lg ast) - length A < F" and fr: "ctag fr = 0" "cvalue fr = 0"
  shows "\<exists>F' ast' h' L' xs' E. create_loop F ast h fr (length A) pushed =
       create_loop F' ast' h' (fr\<lparr>objSize := objSize fr + length ks, ctag := t, cvalue := v, epos := e\<rparr>)
         (length A + length (emits ks) + length (meta t v e)) pushed \<and>
     length (lg ast) - (length A + length (emits ks) + length (meta t v e)) < F' \<and>
     kids_built ks ast h L A (meta t v e @ B) ast' h' L' R xs' E"
proof -
  from kids_stepD [OF IH l ok r small F, of fr pushed] obtain F1 ast1 h1 L1 xs1 E where
    k: "create_loop F ast h fr (length A) pushed =
       create_loop F1 ast1 h1 (fr\<lparr>objSize := objSize fr + length ks\<rparr>) (length A + length (emits ks)) pushed"
     "length (lg ast) - (length A + length (emits ks)) < F1" "kids_built ks ast h L A (meta t v e @ B) ast1 h1 L1 R xs1 E"
    by blast
  from k(3) have lg1: "lg ast1 = (A @ E) @ meta t v e @ B" "length E = length (emits ks)" "ast_ok ast1 h1 L1 R xs1"
    by (simp_all add: kids_built_def)
  have wf1: "arr_wf (logs ast1)" using lg1(3) by (simp add: ast_ok_def)
  have "length (lg ast1) - length (A @ E) < F1" using k(2) l lg1 by simp
  from meta_step [OF wf1 lg1(1) this, of "fr\<lparr>objSize := objSize fr + length ks\<rparr>" h1 pushed] fr obtain F2 where
    "create_loop F1 ast1 h1 (fr\<lparr>objSize := objSize fr + length ks\<rparr>) (length (A @ E)) pushed =
     create_loop F2 ast1 h1 (fr\<lparr>objSize := objSize fr + length ks, ctag := t, cvalue := v, epos := e\<rparr>)
       (length (A @ E) + length (meta t v e)) pushed"
    "length (lg ast1) - (length (A @ E) + length (meta t v e)) < F2" by auto
  with k lg1 l show ?thesis
    by (intro exI [of _ F2] exI [of _ ast1] exI [of _ h1] exI [of _ L1] exI [of _ xs1] exI [of _ E]) simp
qed

lemma tree_step_Base:
  assumes IH: "kids_step ks"
  shows "tree_step (Base s ks t v e)"
  unfolding tree_step_def
proof (intro allI impI)
  fix F ast h L R xs and fr0 :: cframe and A B pushed
  let ?T = "Base s ks t v e"
  assume l: "lg ast = A @ emit ?T @ B" and ok: "ast_ok ast h L R xs" and r: "trefs ?T \<subseteq> L"
    and small: "length (lg ast) + 1 < 2 ^ 28" and F: "length (lg ast) - length A < F"
  from F obtain f where f: "F = Suc f" by (cases F) auto
  have wf: "arr_wf (logs ast)" using ok by (simp add: ast_ok_def)
  let ?new = "ent TypeNew 0 s"
  let ?fr = "\<lparr>head = length A, spos = s, epos = s, objSize = 0, ctag = 0, cvalue = 0\<rparr>"
  have l1: "lg ast = A @ ?new # (emits ks @ meta t v e @ B)" and l2: "lg ast = (A @ [?new]) @ emits ks @ meta t v e @ B"
    using l by simp_all
  have step: "create_loop F ast h fr0 (length A) pushed = create_loop f ast h ?fr (length (A @ [?new])) pushed"
    using create_loop_entry [OF wf l1 f] f by simp
  have rk: "krefs ks \<subseteq> L" using r by simp
  have "length (lg ast) - length (A @ [?new]) < f" using F f l by simp
  from body_step [OF IH l2 ok rk small this, of ?fr pushed] obtain F' ast' h' L' xs' E where
    k: "create_loop f ast h ?fr (length (A @ [?new])) pushed =
       create_loop F' ast' h' \<lparr>head = length A, spos = s, epos = e, objSize = length ks, ctag = t, cvalue = v\<rparr>
         (length (A @ [?new]) + length (emits ks) + length (meta t v e)) pushed"
     "length (lg ast) - (length (A @ [?new]) + length (emits ks) + length (meta t v e)) < F'"
     "kids_built ks ast h L (A @ [?new]) (meta t v e @ B) ast' h' L' R xs' E" by auto
  let ?fr' = "\<lparr>head = length A, spos = s, epos = e, objSize = length ks, ctag = t, cvalue = v\<rparr>"
  let ?E = "?new # E @ meta t v e"
  from k(3) have E: "closed E" "map fst (scan E) = map klab ks" by (simp_all add: kids_built_def)
  have "closed ?E" using closed_append [OF E(1) scan_meta(2)] by (intro closed_plain) simp_all
  moreover have "scan ?E = scan E" using scan_append [OF E(1)] by simp
  moreover have "length (scan E) = length ks" using arg_cong [OF E(2), of length] by simp
  ultimately have "built ?T ast h L A B ast' h' L' R xs' ?fr'"
    using k(3) unfolding built_def kids_built_def
    by (intro conjI exI [of _ "[]"] exI [of _ ?E]) simp_all
  with step k(1,2) show "\<exists>F' ast' h' L' xs' fr. create_loop F ast h fr0 (length A) pushed =
          create_loop F' ast' h' fr (length A + length (emit ?T)) pushed \<and>
        length (lg ast) - (length A + length (emit ?T)) < F' \<and> built ?T ast h L A B ast' h' L' R xs' fr"
    by (intro exI [of _ F'] exI [of _ ast'] exI [of _ h'] exI [of _ L'] exI [of _ xs'] exI [of _ ?fr']) (simp add: add.assoc)
qed

text \<open>A left fold packs the tree read so far and links it in place of its own entry.\<close>

lemma fold_step:
  assumes IH: "tree_step u" and l: "lg ast = A @ emit u @ ent TypeLeftFold (unat l) s # C"
    and ok: "ast_ok ast h L R xs" and r: "trefs u \<subseteq> L" and small: "length (lg ast) + 1 < 2 ^ 28"
    and F: "length (lg ast) - length A < F"
  shows "\<exists>F1 a ast1 h1 L1 xs1 M ep. create_loop F ast h fr0 (length A) pushed = create_loop F1 ast1 h1
       \<lparr>head = length A + length (emit u), spos = s, epos = ep, objSize = 1, ctag = 0, cvalue = 0\<rparr>
       (length A + length (emit u) + 1) pushed \<and>
     length (lg ast) - (length A + length (emit u) + 1) < F1 \<and>
     lg ast1 = A @ M @ ent TypeLink a (unat l) # C \<and> length M = length (emit u) \<and>
     ast_ok ast1 h1 L1 R xs1 \<and> L \<subseteq> L1 \<and> tree_at (L1 - L) h1 a u \<and> same_body L h h1 \<and>
     same_label (L - trefs u) h h1 \<and> parsed ast1 = parsed ast"
proof -
  let ?e0 = "ent TypeLeftFold (unat l) s"
  from tree_stepD [OF IH l ok r small F, of fr0 pushed]
  obtain F1 ast1 h1 L1 xs1 fr where t: "create_loop F ast h fr0 (length A) pushed =
       create_loop F1 ast1 h1 fr (length A + length (emit u)) pushed"
     "length (lg ast) - (length A + length (emit u)) < F1" "built u ast h L A ([?e0] @ C) ast1 h1 L1 R xs1 fr" by auto
  from t(3) obtain M where lg1: "lg ast1 = A @ M @ ?e0 # C" "length M = length (emit u)"
    and ok1: "ast_ok ast1 h1 L1 R xs1" and sub: "L \<subseteq> L1" and p1: "parsed ast1 = parsed ast"
    unfolding built_def by (metis append.assoc append_Cons append_Nil length_append)
  have wf1: "arr_wf (logs ast1)" using ok1 by (simp add: ast_ok_def)
  have small1: "length (lg ast1) + 1 < 2 ^ 28" using small l lg1 by simp
  let ?cur = "length (A @ M)"
  have "0 < F1" using t(2) by simp
  then obtain f1 where f1: "F1 = Suc f1" by (cases F1) auto
  have lf: "lg ast1 = (A @ M) @ ?e0 # C" using lg1(1) by simp
  note e = create_loop_entry [OF wf1 lf f1]
  have gi: "?cur < length (lg ast1)" "lg ast1 ! ?cur = ?e0" using lf by (simp_all add: nth_append)
  have "\<not> is_ref (lg ast1 ! ?cur)" using gi(2) by simp
  from pack_tree [OF t(3) _ _ r small1 gi(1) this, of "?cur + 1"] obtain a h2 h3 xs3 where
    a: "construct_frame ast1 h1 fr (?cur + 1) = Inr (a, h2)" "NODE_GC_RETAIN h2 a = Inr h3" "a \<noteq> 0" "a \<notin> L1"
      "\<forall>e. is_ref e \<longrightarrow> lval e = a \<longrightarrow> (\<exists>ast'. put_log ast1 ?cur e = Inr ast' \<and> lg ast' = (lg ast1)[?cur := e] \<and>
        ast_ok ast' h3 (insert a L1) R xs3 \<and> parsed ast' = parsed ast1)"
      "tree_at (insert a L1 - L) h3 a u" "same_body L h h3" "same_label (L - trefs u) h h3"
    using lg1(2) by auto
  let ?e = "?e0\<lparr>lval := a, lidx := unat l, ltype := TypeLink\<rparr>"
  have eq: "?e = ent TypeLink a (unat l)" by (simp add: ent_def)
  have "is_ref ?e" "lval ?e = a" using a(3) by (simp_all add: is_ref_def)
  with a(5) obtain ast' where p: "put_log ast1 ?cur ?e = Inr ast'" "lg ast' = (lg ast1)[?cur := ?e]"
    "ast_ok ast' h3 (insert a L1) R xs3" "parsed ast' = parsed ast1" by blast
  let ?fr = "\<lparr>head = length A + length (emit u), spos = s, epos = epos fr, objSize = 1, ctag = 0, cvalue = 0\<rparr>"
  have cur: "?cur = length A + length (emit u)" using lg1(2) by simp
  have fr: "fr\<lparr>spos := s, ctag := 0, cvalue := 0, objSize := 1, head := ?cur\<rparr> = ?fr"
    unfolding cur by (cases fr) simp
  have "create_loop F1 ast1 h1 fr ?cur pushed = create_loop f1 ast' h3 ?fr (?cur + 1) pushed"
    unfolding fr [symmetric] using e a(1,2) p(1) f1 by simp
  then have step: "create_loop F ast h fr0 (length A) pushed =
      create_loop f1 ast' h3 ?fr (length A + length (emit u) + 1) pushed"
    unfolding t(1) cur .
  have "lg ast' = A @ M @ ent TypeLink a (unat l) # C"
    using p(2) lf unfolding eq by (simp add: list_update_append)
  moreover have "L \<subseteq> insert a L1" using sub by auto
  moreover have "length (lg ast) - (length A + length (emit u) + 1) < f1" using t(2) f1 l by simp
  moreover have "parsed ast' = parsed ast" using p(4) p1 by simp
  ultimately show ?thesis using step p(3) a(6-8) lg1(2) by blast
qed

lemma tree_step_Fold:
  assumes IHu: "tree_step u" and IH: "kids_step ks"
  shows "tree_step (Fold u s l ks t v e)"
  unfolding tree_step_def
proof (intro allI impI)
  fix F ast h L R xs and fr0 :: cframe and A B pushed
  let ?T = "Fold u s l ks t v e"
  assume l: "lg ast = A @ emit ?T @ B" and ok: "ast_ok ast h L R xs" and r: "trefs ?T \<subseteq> L"
    and small: "length (lg ast) + 1 < 2 ^ 28" and F: "length (lg ast) - length A < F"
  let ?C = "emits ks @ meta t v e @ B" and ?n = "length A + length (emit u)"
  have l1: "lg ast = A @ emit u @ ent TypeLeftFold (unat l) s # ?C" using l by simp
  have ru: "trefs u \<subseteq> L" and rk: "krefs ks \<subseteq> L" using r by simp_all
  from fold_step [OF IHu l1 ok ru small F, of fr0 pushed] obtain F1 a ast1 h1 L1 xs1 M ep where
    p: "create_loop F ast h fr0 (length A) pushed = create_loop F1 ast1 h1
       \<lparr>head = ?n, spos = s, epos = ep, objSize = 1, ctag = 0, cvalue = 0\<rparr> (?n + 1) pushed"
     "length (lg ast) - (?n + 1) < F1" "lg ast1 = A @ M @ ent TypeLink a (unat l) # ?C" "length M = length (emit u)"
     "ast_ok ast1 h1 L1 R xs1" "L \<subseteq> L1" "tree_at (L1 - L) h1 a u" "same_body L h h1"
     "same_label (L - trefs u) h h1" "parsed ast1 = parsed ast" by blast
  let ?P = "M @ [ent TypeLink a (unat l)]" and ?fr = "\<lparr>head = ?n, spos = s, epos = ep, objSize = 1, ctag = 0, cvalue = 0\<rparr>"
  have len: "length (lg ast1) = length (lg ast)" "length (A @ ?P) = ?n + 1" using p(3,4) l by simp_all
  have k1: "lg ast1 = (A @ ?P) @ emits ks @ meta t v e @ B" using p(3) by simp
  have k2: "krefs ks \<subseteq> L1" using rk p(6) by auto
  have k3: "length (lg ast1) + 1 < 2 ^ 28" using small len by simp
  have k4: "length (lg ast1) - length (A @ ?P) < F1" using p(2) unfolding len .
  from body_step [OF IH k1 p(5) k2 k3 k4, of ?fr pushed] obtain F' ast' h' L' xs' E where
    k: "create_loop F1 ast1 h1 ?fr (length (A @ ?P)) pushed =
       create_loop F' ast' h' \<lparr>head = ?n, spos = s, epos = e, objSize = 1 + length ks, ctag = t, cvalue = v\<rparr>
         (length (A @ ?P) + length (emits ks) + length (meta t v e)) pushed"
     "length (lg ast1) - (length (A @ ?P) + length (emits ks) + length (meta t v e)) < F'"
     "kids_built ks ast1 h1 L1 (A @ ?P) (meta t v e @ B) ast' h' L' R xs' E" by auto
  let ?fr' = "\<lparr>head = ?n, spos = s, epos = e, objSize = 1 + length ks, ctag = t, cvalue = v\<rparr>"
  let ?E = "ent TypeLink a (unat l) # E @ meta t v e"
  from k(3) have E: "closed E" "map fst (scan E) = map klab ks" "lg ast' = (A @ ?P) @ E @ meta t v e @ B"
      "length E = length (emits ks)" "kids_at False (L' - L1) h' (map snd (scan E)) ks" "L1 \<subseteq> L'"
      "ast_ok ast' h' L' R xs'" "same_body L1 h1 h'" "same_label (L1 - krefs ks) h1 h'" "parsed ast' = parsed ast1"
    by (simp_all add: kids_built_def)
  have sE: "scan ?E = (unat l, a) # scan E" using scan_append [OF E(1)] by simp
  have cE: "closed ?E" using closed_append [OF E(1) scan_meta(2)] by (simp add: closed_def)
  have "length (scan E) = length ks" using arg_cong [OF E(2), of length] by simp
  moreover have "kids_at False (L' - L) h' (a # map snd (scan E)) (Sub l u # ks)"
  proof -
    have "tree_at (L1 - L) h' a u"
    proof (rule tree_at_kids_frame(1) [OF p(7)])
      show "same_body (L1 - L) h1 h'" using E(8) by (rule same_mono) auto
      show "same_label (L1 - L - {a}) h1 h'" using E(9) by (rule same_mono) (use rk in auto)
    qed
    moreover have "kids_at False (L' - L - (L1 - L)) h' (map snd (scan E)) ks"
      using E(5) by (rule tree_at_kids_mono) (use p(6) in auto)
    moreover have "L1 - L \<subseteq> L' - L" using E(6) by auto
    ultimately show ?thesis by (simp only: kids_at.simps list.inject simp_thms) blast
  qed
  moreover have "same_body L h h'" using p(8) same_mono(1) [OF E(8) p(6)] by (rule same_trans)
  moreover have "same_label (L - trefs ?T) h h'"
  proof (rule same_trans(2))
    show "same_label (L - trefs ?T) h h1" using p(9) by (rule same_mono) auto
    show "same_label (L - trefs ?T) h1 h'" using E(9) by (rule same_mono) (use p(6) in auto)
  qed
  moreover have "lg ast' = A @ M @ ?E @ B" "length M + length ?E = length (emit ?T)" using E(3,4) p(4) by simp_all
  ultimately have "built ?T ast h L A B ast' h' L' R xs' ?fr'"
    unfolding built_def using E(2,6,7,10) p(4,6,10) cE
    by (intro conjI exI [where P = "\<lambda>E0. \<exists>E. _ E0 E", of _ M] exI [of _ ?E]) (simp_all add: sE scan_append [OF E(1)])
  with p(1) k(1,2) len show "\<exists>F' ast' h' L' xs' fr. create_loop F ast h fr0 (length A) pushed =
          create_loop F' ast' h' fr (length A + length (emit ?T)) pushed \<and>
        length (lg ast) - (length A + length (emit ?T)) < F' \<and> built ?T ast h L A B ast' h' L' R xs' fr"
    by (intro exI [of _ F'] exI [of _ ast'] exI [of _ h'] exI [of _ L'] exI [of _ xs'] exI [of _ ?fr']) (simp add: add.assoc)
qed

lemma all_steps: "tree_step T" "kids_step ks"
  by (induction T and ks rule: emit_emits.induct)
    (simp_all add: tree_step_Base tree_step_Fold kids_step_Nil kids_step_Sub kids_step_Ref)

section \<open>What a rollback leaves of a tree\<close>

text \<open>A node that stays keeps its elements, so a tree whose root stays stays as a whole.\<close>

lemma kids_closed:
  assumes "heap_ok h L R xs" "a \<in> L" "c \<in> set (entry_elems (nentry (cells h ! a)))" "c \<noteq> 0"
  shows "c \<in> L"
proof -
  have fin: "finite L" and sub: "set_mset (refs h L + R) \<subseteq> L" using assms(1) by (simp_all add: heap_ok_def counted_def)
  have "c \<in># kids h a" using assms(3,4) by (simp add: kids_def)
  then have "c \<in># refs h L" using refs_remove [OF fin assms(2), of h] by simp
  then show ?thesis using sub by auto
qed

lemma shrinks_same:
  assumes "shrinks h L xs h' L' xs'" "b \<in> L'"
  shows "node_text (cells h' ! b) = node_text (cells h ! b)" "nentry (cells h' ! b) = nentry (cells h ! b)"
    "labelId (cells h' ! b) = labelId (cells h ! b)"
proof -
  from assms obtain r where "cells h' ! b = (cells h ! b)\<lparr>refc := r\<rparr>" by (rule shrinks_kept)
  then show "node_text (cells h' ! b) = node_text (cells h ! b)" "nentry (cells h' ! b) = nentry (cells h ! b)"
    "labelId (cells h' ! b) = labelId (cells h ! b)" by (simp_all add: node_text_def)
qed

lemma tree_at_kids_shrinks:
  assumes stay: "\<And>b. b \<in> L' \<Longrightarrow> set (entry_elems (nentry (cells h' ! b))) - {0} \<subseteq> L'" and L: "0 \<notin> L"
  shows "tree_at N h a T \<Longrightarrow> same_body L' h h' \<Longrightarrow> same_label L' h h' \<Longrightarrow> N \<subseteq> L \<Longrightarrow> a \<in> L' \<Longrightarrow>
      tree_at (N \<inter> L') h' a T \<and> trefs T - {0} \<subseteq> L'"
    and "kids_at lab N h cs ks \<Longrightarrow> same_body L' h h' \<Longrightarrow> same_label L' h h' \<Longrightarrow> N \<subseteq> L \<Longrightarrow> set cs - {0} \<subseteq> L' \<Longrightarrow>
      kids_at lab (N \<inter> L') h' cs ks \<and> krefs ks - {0} \<subseteq> L'"
proof (induction N h a T and lab N h cs ks rule: tree_at_kids_at.induct)
  case (1 N h a s ks t v e)
  have eq: "nentry (cells h ! a) = nentry (cells h' ! a)" "node_text (cells h ! a) = node_text (cells h' ! a)"
    using "1.prems"(2,5) by (simp_all add: same_body_def)
  have "kids_at True ((N - {a}) \<inter> L') h' (entry_elems (nentry (cells h ! a))) ks \<and> krefs ks - {0} \<subseteq> L'"
    using "1.prems" stay [OF "1.prems"(5)] eq by (intro "1.IH") auto
  moreover have "(N - {a}) \<inter> L' = N \<inter> L' - {a}" by auto
  ultimately show ?case using "1.prems"(1,5) eq by simp
next
  case (2 N h a u s l ks t v e)
  have eq: "nentry (cells h ! a) = nentry (cells h' ! a)" "node_text (cells h ! a) = node_text (cells h' ! a)"
    using "2.prems"(2,5) by (simp_all add: same_body_def)
  from "2.prems"(1) obtain c cs M where c: "entry_elems (nentry (cells h ! a)) = c # cs" "M \<subseteq> N - {a}"
    "labelId (cells h ! c) = uint l" "tree_at M h c u" "kids_at True (N - {a} - M) h cs ks" by auto
  have in': "set (c # cs) - {0} \<subseteq> L'" using stay [OF "2.prems"(5)] c(1) eq by simp
  have "c \<in> L'" using in' tree_at_member [OF c(4)] c(2) "2.prems"(4) L by auto
  then have 1: "tree_at (M \<inter> L') h' c u \<and> trefs u - {0} \<subseteq> L'"
    using "2.IH"(1) [OF c(4) "2.prems"(2,3)] c(2) "2.prems"(4) by auto
  have 2: "kids_at True ((N - {a} - M) \<inter> L') h' cs ks \<and> krefs ks - {0} \<subseteq> L'"
    using "2.IH"(2) [OF c(5) "2.prems"(2,3)] in' "2.prems"(4) by auto
  have 3: "(N - {a} - M) \<inter> L' = N \<inter> L' - {a} - M \<inter> L'" "M \<inter> L' \<subseteq> N \<inter> L' - {a}" using c(2) by auto
  have 4: "labelId (cells h' ! c) = uint l" using "2.prems"(3) \<open>c \<in> L'\<close> c(3) by (simp add: same_label_def)
  have "trefs (Fold u s l ks t v e) - {0} \<subseteq> L'" using 1 2 by auto
  moreover have "tree_at (N \<inter> L') h' a (Fold u s l ks t v e)"
    unfolding tree_at.simps
    using "2.prems"(1,5) eq 1 2 3 4 c(1) by (intro conjI exI [of _ c] exI [of _ cs] exI [of _ "M \<inter> L'"]) simp_all
  ultimately show ?case by simp
next
  case (4 lab N h cs l T ks)
  from "4.prems"(1) obtain c ds M where c: "cs = c # ds" "M \<subseteq> N" "lab \<longrightarrow> labelId (cells h ! c) = uint l"
    "tree_at M h c T" "kids_at lab (N - M) h ds ks" by auto
  have "c \<in> L'" using "4.prems"(4,5) tree_at_member [OF c(4)] c(1,2) L by auto
  then have 1: "tree_at (M \<inter> L') h' c T \<and> trefs T - {0} \<subseteq> L'"
    using "4.IH"(1) [OF c(4) "4.prems"(2,3)] c(2) "4.prems"(4) by auto
  have 2: "kids_at lab ((N - M) \<inter> L') h' ds ks \<and> krefs ks - {0} \<subseteq> L'"
    using "4.IH"(2) [OF c(5) "4.prems"(2,3)] c(1) "4.prems"(4,5) by auto
  have 3: "(N - M) \<inter> L' = N \<inter> L' - M \<inter> L'" by auto
  have 4: "lab \<longrightarrow> labelId (cells h' ! c) = uint l" using "4.prems"(3) \<open>c \<in> L'\<close> c(3) by (simp add: same_label_def)
  have "krefs (Sub l T # ks) - {0} \<subseteq> L'" using 1 2 by auto
  moreover have "kids_at lab (N \<inter> L') h' cs (Sub l T # ks)"
    unfolding kids_at.simps
    using 1 2 3 4 c(1,2) by (intro exI [of _ c] exI [of _ ds] exI [of _ "M \<inter> L'"]) auto
  ultimately show ?case by simp
next
  case (5 lab N h cs l n ks)
  from "5.prems"(1) obtain ds where c: "cs = n # ds" "kids_at lab N h ds ks" by auto
  have "kids_at lab (N \<inter> L') h' ds ks \<and> krefs ks - {0} \<subseteq> L'"
    using "5.IH" [OF c(2) "5.prems"(2-4)] "5.prems"(5) c(1) by auto
  then show ?case using c(1) "5.prems"(5) by auto
qed simp_all

section \<open>Creating a node\<close>

lemma create_node_tree:
  assumes l: "lg ast = A @ emit T" and ok: "ast_ok ast h L R xs" and r: "trefs T \<subseteq> L"
    and small: "length (lg ast) + 1 < 2 ^ 28"
  shows "\<exists>a ast' h' L' xs'. ast_create_node ast h (length A) None = Inr (a, ast', h') \<and> a \<in> L' - L \<and>
     ast_ok ast' h' L' R xs' \<and> L \<subseteq> L' \<and> refc (cells h' ! a) = 0 \<and> tree_at (L' - L) h' a T \<and> same_body L h h' \<and>
     same_label (L - trefs T) h h' \<and> take (length A) (lg ast') = A \<and> length (lg ast') = length (lg ast) \<and>
     parsed ast' = parsed ast"
proof -
  have wf: "arr_wf (logs ast)" using ok by (simp add: ast_ok_def)
  have len: "asize (logs ast) = length (lg ast)" using length_lg [OF wf] by simp
  have i: "length A < length (lg ast)" using l emit_ne [of T] by simp
  let ?F = "asize (logs ast) - length A + 1"
  let ?fr0 = "\<lparr>head = length A, spos = lidx (lg ast ! length A), epos = lidx (lg ast ! length A), objSize = 0, ctag = 0, cvalue = 0\<rparr>"
  have start: "ast_create_node ast h (length A) None = create_loop ?F ast h ?fr0 (length A) None"
    using get_lg [OF wf i] by (simp add: ast_create_node_def)
  have l': "lg ast = A @ emit T @ []" using l by simp
  have F: "length (lg ast) - length A < ?F" using len by simp
  from tree_stepD [OF all_steps(1) l' ok r small F] obtain F' ast1 h1 L1 xs1 fr where
    s: "create_loop ?F ast h ?fr0 (length A) None = create_loop F' ast1 h1 fr (length A + length (emit T)) None"
      "0 < F'" "built T ast h L A [] ast1 h1 L1 R xs1 fr" by fastforce
  have b: "length (lg ast1) = length A + length (emit T)" "take (length A) (lg ast1) = A" "ast_ok ast1 h1 L1 R xs1"
    "L \<subseteq> L1" "parsed ast1 = parsed ast" using s(3) by (auto simp: built_def)
  have wf1: "arr_wf (logs ast1)" using b(3) by (simp add: ast_ok_def)
  then have end': "asize (logs ast1) = length A + length (emit T)" using length_lg b(1) by simp
  have small1: "length (lg ast1) + 1 < 2 ^ 28" using small b(1) l by simp
  from s(3) have s3: "built T ast h L A ([] @ []) ast1 h1 L1 R xs1 fr" by simp
  have stop: "length A + length (emit T) = length A + length (emit T) + length []" by simp
  from finish_tree [OF s3 _ stop r small1] obtain a h2 xs2 where
    a: "construct_frame ast1 h1 fr (length A + length (emit T)) = Inr (a, h2)" "a \<notin> L1"
      "ast_ok ast1 h2 (insert a L1) R xs2" "refc (cells h2 ! a) = 0" "tree_at (insert a L1 - L) h2 a T"
      "same_body L h h2" "same_label (L - trefs T) h h2" by auto
  obtain f where f: "F' = Suc f" using s(2) by (cases F') auto
  have "ast_create_node ast h (length A) None = Inr (a, ast1, h2)"
    unfolding start s(1) f using end' a(1) by simp
  moreover have "a \<in> insert a L1 - L" "L \<subseteq> insert a L1" using a(2) b(4) by auto
  moreover have "length (lg ast1) = length (lg ast)" using b(1) l by simp
  ultimately show ?thesis using a(3-7) b(2,5) by blast
qed

text \<open>The rollback that follows keeps the tree.\<close>

lemma rollback_tree:
  assumes ok: "ast_ok ast h L R xs" and tx: "tx \<le> length (lg ast)" and T: "tree_at N h a T" "N \<subseteq> L" "a \<in> L"
    and r: "refc (cells h ! a) = 0"
  shows "\<exists>ast' h' L' xs'. ast_rollback_tx ast h tx = Inr (ast', h') \<and> ast_ok ast' h' L' R xs' \<and>
     lg ast' = take tx (lg ast) \<and> parsed ast' = parsed ast \<and> L' \<subseteq> L \<and> a \<in> L' \<and> tree_at (N \<inter> L') h' a T \<and>
     trefs T - {0} \<subseteq> L' \<and> same_body L' h h' \<and> same_label L' h h'"
proof -
  from rollback_ok [OF ok tx] obtain ast' h' L' xs' where
    b: "ast_rollback_tx ast h tx = Inr (ast', h')" "ast_ok ast' h' L' R xs'" "lg ast' = take tx (lg ast)"
      "parsed ast' = parsed ast" "shrinks h L xs h' L' xs'" by blast
  have "\<forall>b \<in> L - L'. 0 < refc (cells h ! b)" using b(5) by (simp add: shrinks_def)
  then have "a \<notin> L' \<Longrightarrow> 0 < refc (cells h ! a)" using T(3) by blast
  then have "a \<in> L'" using r by linarith
  have same: "same_body L' h h'" "same_label L' h h'"
    using shrinks_same [OF b(5)] by (simp_all add: same_body_def same_label_def)
  have hk: "heap_ok h' L' (lrefs (lg ast') + R) xs'" using b(2) by (simp add: ast_ok_def)
  have "set (entry_elems (nentry (cells h' ! b))) - {0} \<subseteq> L'" if "b \<in> L'" for b
    using kids_closed [OF hk that] by auto
  moreover have "0 \<notin> L" using ok by (auto simp: ast_ok_def heap_ok_def counted_def)
  ultimately have "tree_at (N \<inter> L') h' a T \<and> trefs T - {0} \<subseteq> L'"
    by (rule tree_at_kids_shrinks(1) [OF _ _ T(1) same T(2) \<open>a \<in> L'\<close>])
  moreover have "L' \<subseteq> L" using b(5) by (simp add: shrinks_def)
  ultimately show ?thesis using b \<open>a \<in> L'\<close> same by blast
qed

section \<open>The calls of a parser\<close>

text \<open>What the virtual machine calls while it parses the tree: see \<open>T*\<close> in \<open>instruction.def\<close>.\<close>

definition log_meta :: "nat \<Rightarrow> nat \<Rightarrow> nat \<Rightarrow> AstMachine \<Rightarrow> AstMachine res" where
  "log_meta t v e ast =
     rbind (if t \<noteq> 0 then ast_log_tag ast t else Inr ast) (\<lambda>ast.
     rbind (if v \<noteq> 0 then ast_log_replace ast v else Inr ast) (\<lambda>ast. ast_log_capture ast e))"

fun log_tree :: "ltree \<Rightarrow> AstMachine \<Rightarrow> node_heap \<Rightarrow> (AstMachine \<times> node_heap) res"
  and log_kids :: "lkid list \<Rightarrow> AstMachine \<Rightarrow> node_heap \<Rightarrow> (AstMachine \<times> node_heap) res" where
  "log_tree (Base s ks t v e) ast h =
     rbind (ast_log_new ast s) (\<lambda>ast. rbind (log_kids ks ast h) (\<lambda>(ast, h).
       rbind (log_meta t v e ast) (\<lambda>ast. Inr (ast, h))))"
| "log_tree (Fold u s l ks t v e) ast h =
     rbind (log_tree u ast h) (\<lambda>(ast, h). rbind (ast_log_swap ast s l) (\<lambda>ast. rbind (log_kids ks ast h) (\<lambda>(ast, h).
       rbind (log_meta t v e ast) (\<lambda>ast. Inr (ast, h)))))"
| "log_kids [] ast h = Inr (ast, h)"
| "log_kids (Sub l T # ks) ast h =
     rbind (ast_log_push ast) (\<lambda>ast. rbind (log_tree T ast h) (\<lambda>(ast, h). rbind (ast_log_pop ast l) (\<lambda>ast.
       log_kids ks ast h)))"
| "log_kids (Ref l n # ks) ast h = rbind (ast_log_link ast h l n) (\<lambda>(ast, h). log_kids ks ast h)"

definition logged :: "AstLog list \<Rightarrow> AstMachine \<Rightarrow> node_heap \<Rightarrow> nptr set \<Rightarrow> nptr multiset \<Rightarrow> nptr list \<Rightarrow>
    AstMachine \<Rightarrow> node_heap \<Rightarrow> bool" where
  "logged es ast h L R xs ast' h' \<longleftrightarrow> ast_ok ast' h' L R xs \<and> lg ast' = lg ast @ es \<and> parsed ast' = parsed ast \<and>
     same_body L h h' \<and> same_label L h h'"

lemma logged_trans:
  assumes "logged es ast h L R xs a1 h1" "logged fs a1 h1 L R xs a2 h2"
  shows "logged (es @ fs) ast h L R xs a2 h2"
  using assms unfolding logged_def by (auto dest: same_trans)

lemma logged_plain:
  assumes "ast_ok ast h L R xs" "length (lg ast) + 1 < 2 ^ 29" "ty \<noteq> TypeLink"
  shows "\<exists>ast'. ast_log ast ty pos val = Inr ast' \<and> logged [ent ty val pos] ast h L R xs ast' h"
  using ast_log_plain_ok [OF assms, of pos val] by (auto simp: logged_def same_refl)

lemma logged_link:
  assumes "ast_ok ast h L R xs" "length (lg ast) + 1 < 2 ^ 29" "n \<in> L"
  shows "\<exists>ast' h'. ast_log_link ast h l n = Inr (ast', h') \<and> logged [ent TypeLink n (unat l)] ast h L R xs ast' h'"
  using ast_log_link_ok [of ast h L R xs n l] assms by (auto simp: logged_def same_body_def same_label_def)

lemma logged_meta:
  assumes ok: "ast_ok ast h L R xs" and small: "length (lg ast) + length (meta t v e) < 2 ^ 29"
  shows "\<exists>ast'. log_meta t v e ast = Inr ast' \<and> logged (meta t v e) ast h L R xs ast' h"
proof -
  let ?t = "if t \<noteq> 0 then [ent TypeTag 0 t] else []" and ?v = "if v \<noteq> 0 then [ent TypeReplace 0 v] else []"
  have m: "meta t v e = ?t @ ?v @ [ent TypeCapture 0 e]" by (simp add: meta_def)
  have "\<exists>a. (if t \<noteq> 0 then ast_log_tag ast t else Inr ast) = Inr a \<and> logged ?t ast h L R xs a h"
    using logged_plain [OF ok, of TypeTag t 0] small ok by (auto simp: m ast_log_tag_def logged_def same_refl)
  then obtain a where a: "(if t \<noteq> 0 then ast_log_tag ast t else Inr ast) = Inr a" "logged ?t ast h L R xs a h" by blast
  then have oa: "ast_ok a h L R xs" "length (lg a) = length (lg ast) + length ?t" by (simp_all add: logged_def)
  have "\<exists>b. (if v \<noteq> 0 then ast_log_replace a v else Inr a) = Inr b \<and> logged ?v a h L R xs b h"
    using logged_plain [OF oa(1), of TypeReplace v 0] oa small by (auto simp: m ast_log_replace_def logged_def same_refl)
  then obtain b where b: "(if v \<noteq> 0 then ast_log_replace a v else Inr a) = Inr b" "logged ?v a h L R xs b h" by blast
  then have ob: "ast_ok b h L R xs" "length (lg b) = length (lg a) + length ?v" by (simp_all add: logged_def)
  have "length (lg b) + 1 < 2 ^ 29" using ob(2) oa(2) small by (simp add: m)
  from logged_plain [OF ob(1) this, of TypeCapture e 0] obtain c where
    c: "ast_log_capture b e = Inr c" "logged [ent TypeCapture 0 e] b h L R xs c h" by (auto simp: ast_log_capture_def)
  show ?thesis
    unfolding m using a(1) b(1) c(1) logged_trans [OF a(2) logged_trans [OF b(2) c(2)]] by (simp add: log_meta_def)
qed

lemma logged_len: "logged es ast h L R xs a h' \<Longrightarrow> length (lg a) = length (lg ast) + length es"
  by (simp add: logged_def)

lemma logged_ok: "logged es ast h L R xs a h' \<Longrightarrow> ast_ok a h' L R xs"
  by (simp add: logged_def)

lemma log_tree_kids_ok:
  shows "ast_ok ast h L R xs \<Longrightarrow> trefs T \<subseteq> L \<Longrightarrow> length (lg ast) + length (emit T) < 2 ^ 29 \<Longrightarrow>
      \<exists>ast' h'. log_tree T ast h = Inr (ast', h') \<and> logged (emit T) ast h L R xs ast' h'"
    and "ast_ok ast h L R xs \<Longrightarrow> krefs ks \<subseteq> L \<Longrightarrow> length (lg ast) + length (emits ks) < 2 ^ 29 \<Longrightarrow>
      \<exists>ast' h'. log_kids ks ast h = Inr (ast', h') \<and> logged (emits ks) ast h L R xs ast' h'"
proof (induction T and ks arbitrary: ast h and ast h rule: emit_emits.induct)
  case (1 s ks t v e)
  from logged_plain [OF "1.prems"(1), of TypeNew s 0] "1.prems"(3) obtain a where
    a: "ast_log_new ast s = Inr a" "logged [ent TypeNew 0 s] ast h L R xs a h" by (auto simp: ast_log_new_def)
  from "1.IH" [OF logged_ok [OF a(2)]] "1.prems"(2,3) logged_len [OF a(2)] obtain b h1 where
    b: "log_kids ks a h = Inr (b, h1)" "logged (emits ks) a h L R xs b h1" by auto
  from logged_meta [OF logged_ok [OF b(2)], of t v e] "1.prems"(3) logged_len [OF a(2)] logged_len [OF b(2)] obtain c where
    c: "log_meta t v e b = Inr c" "logged (meta t v e) b h1 L R xs c h1" by auto
  show ?case using a(1) b(1) c(1) logged_trans [OF a(2) logged_trans [OF b(2) c(2)]] by simp
next
  case (2 u s l ks t v e)
  from "2.IH"(1) [OF "2.prems"(1)] "2.prems"(2,3) obtain z h0 where
    z: "log_tree u ast h = Inr (z, h0)" "logged (emit u) ast h L R xs z h0" by auto
  from logged_plain [OF logged_ok [OF z(2)], of TypeLeftFold s "unat l"] "2.prems"(3) logged_len [OF z(2)] obtain a where
    a: "ast_log_swap z s l = Inr a" "logged [ent TypeLeftFold (unat l) s] z h0 L R xs a h0" by (auto simp: ast_log_swap_def)
  from "2.IH"(2) [OF logged_ok [OF a(2)]] "2.prems"(2,3) logged_len [OF z(2)] logged_len [OF a(2)] obtain b h1 where
    b: "log_kids ks a h0 = Inr (b, h1)" "logged (emits ks) a h0 L R xs b h1" by auto
  from logged_meta [OF logged_ok [OF b(2)], of t v e] "2.prems"(3) logged_len [OF z(2)] logged_len [OF a(2)]
      logged_len [OF b(2)] obtain c where
    c: "log_meta t v e b = Inr c" "logged (meta t v e) b h1 L R xs c h1" by auto
  show ?case using z(1) a(1) b(1) c(1) logged_trans [OF z(2) logged_trans [OF a(2) logged_trans [OF b(2) c(2)]]] by simp
next
  case 3
  then show ?case by (auto simp: logged_def same_refl)
next
  case (4 l T ks)
  from logged_plain [OF "4.prems"(1), of TypePush 0 0] "4.prems"(3) obtain z where
    z: "ast_log_push ast = Inr z" "logged [ent TypePush 0 0] ast h L R xs z h" by (auto simp: ast_log_push_def)
  from "4.IH"(1) [OF logged_ok [OF z(2)]] "4.prems"(2,3) logged_len [OF z(2)] obtain a h1 where
    a: "log_tree T z h = Inr (a, h1)" "logged (emit T) z h L R xs a h1" by auto
  from logged_plain [OF logged_ok [OF a(2)], of TypePop "unat l" 0] "4.prems"(3) logged_len [OF z(2)] logged_len [OF a(2)]
  obtain b where b: "ast_log_pop a l = Inr b" "logged [ent TypePop 0 (unat l)] a h1 L R xs b h1"
    by (auto simp: ast_log_pop_def)
  from "4.IH"(2) [OF logged_ok [OF b(2)]] "4.prems"(2,3) logged_len [OF z(2)] logged_len [OF a(2)] logged_len [OF b(2)]
  obtain c h2 where c: "log_kids ks b h1 = Inr (c, h2)" "logged (emits ks) b h1 L R xs c h2" by auto
  show ?case using z(1) a(1) b(1) c(1) logged_trans [OF z(2) logged_trans [OF a(2) logged_trans [OF b(2) c(2)]]] by simp
next
  case (5 l n ks)
  from logged_link [OF "5.prems"(1), of n l] "5.prems"(2,3) obtain a h1 where
    a: "ast_log_link ast h l n = Inr (a, h1)" "logged [ent TypeLink n (unat l)] ast h L R xs a h1" by auto
  from "5.IH" [OF logged_ok [OF a(2)]] "5.prems"(2,3) logged_len [OF a(2)] obtain c h2 where
    c: "log_kids ks a h1 = Inr (c, h2)" "logged (emits ks) a h1 L R xs c h2" by auto
  show ?case using a(1) c(1) logged_trans [OF a(2) c(2)] by simp
qed

section \<open>Committing and parsing\<close>

text \<open>C2: A commit builds the tree. After the calls a parser makes for any tree \<open>T\<close> (nested pushes
and pops, left folds, links to existing nodes), \<open>ast_commit_tx\<close> to the savepoint taken before
them never fails: the log is what it was plus one link, with the given label, to a new node
under which the heap holds exactly \<open>T\<close>, made of new nodes only; nodes that stay keep text and
elements (and their label, unless \<open>T\<close> links them) and all counts are exact.\<close>

theorem ast_commit_builds:
  assumes "ast_ok ast h L R xs" "trefs T \<subseteq> L" "length (lg ast) + length (emit T) + 1 < 2 ^ 28"
  shows "\<exists>ast1 h1 ast' h' a L' xs'. log_tree T ast h = Inr (ast1, h1) \<and>
     ast_commit_tx ast1 h1 l (ast_save_tx ast) = Inr (ast', h') \<and> ast_ok ast' h' L' R xs' \<and>
     lg ast' = lg ast @ [ent TypeLink a (unat l)] \<and> ast_get_last_linked_node ast' = a \<and>
     a \<in> L' - L \<and> tree_at (L' - L) h' a T \<and> trefs T \<subseteq> L' \<and>
     same_body (L \<inter> L') h h' \<and> same_label (L \<inter> L' - trefs T) h h'"
proof -
  have wf: "arr_wf (logs ast)" using assms(1) by (simp add: ast_ok_def)
  have tx: "ast_save_tx ast = length (lg ast)" using length_lg [OF wf] by (simp add: ast_save_tx_def)
  from log_tree_kids_ok(1) [OF assms(1,2)] assms(3) obtain a1 h1 where
    g: "log_tree T ast h = Inr (a1, h1)" "logged (emit T) ast h L R xs a1 h1" by auto
  then have l1: "lg a1 = lg ast @ emit T" and ok1: "ast_ok a1 h1 L R xs" and s1: "same_body L h h1" "same_label L h h1"
    by (simp_all add: logged_def)
  have small: "length (lg a1) + 1 < 2 ^ 28" using l1 assms(3) by simp
  from create_node_tree [OF l1 ok1 assms(2) small] obtain a a2 h2 L2 xs2 where
    c: "ast_create_node a1 h1 (length (lg ast)) None = Inr (a, a2, h2)" "a \<in> L2 - L" "ast_ok a2 h2 L2 R xs2" "L \<subseteq> L2"
      "refc (cells h2 ! a) = 0" "tree_at (L2 - L) h2 a T" "same_body L h1 h2" "same_label (L - trefs T) h1 h2"
      "take (length (lg ast)) (lg a2) = lg ast" "length (lg a2) = length (lg a1)" by blast
  have le: "length (lg ast) \<le> length (lg a2)" using c(10) l1 by simp
  have aL: "a \<in> L2" "L2 - L \<subseteq> L2" using c(2) by auto
  from rollback_tree [OF c(3) le c(6) aL(2,1) c(5)] obtain a3 h3 L3 xs3 where
    r: "ast_rollback_tx a2 h2 (length (lg ast)) = Inr (a3, h3)" "ast_ok a3 h3 L3 R xs3" "lg a3 = lg ast"
      "L3 \<subseteq> L2" "a \<in> L3" "tree_at ((L2 - L) \<inter> L3) h3 a T" "trefs T - {0} \<subseteq> L3" "same_body L3 h2 h3" "same_label L3 h2 h3"
    unfolding c(9) by blast
  have "(L2 - L) \<inter> L3 = L3 - L" using r(4) by auto
  with r(6) have t3: "tree_at (L3 - L) h3 a T" by simp
  have small3: "length (lg a3) + 1 < 2 ^ 29" using r(3) assms(3) by simp
  from logged_link [OF r(2) small3 r(5), of l] obtain a4 h4 where
    k: "ast_log_link a3 h3 l a = Inr (a4, h4)" "logged [ent TypeLink a (unat l)] a3 h3 L3 R xs3 a4 h4" by blast
  then have ok4: "ast_ok a4 h4 L3 R xs3" and l4: "lg a4 = lg ast @ [ent TypeLink a (unat l)]"
    and s4: "same_body L3 h3 h4" "same_label L3 h3 h4" using r(3) by (simp_all add: logged_def)
  have "0 \<notin> L" using assms(1) by (auto simp: ast_ok_def heap_ok_def counted_def)
  then have "trefs T \<subseteq> L3" using r(7) assms(2) by auto
  have "tree_at (L3 - L) h4 a T"
    by (rule tree_at_kids_frame(1) [OF t3]; rule same_mono(1) [OF s4(1)] same_mono(2) [OF s4(2)]; blast)
  moreover have "asize (logs a1) > length (lg ast)"
    using length_lg [of a1] ok1 emit_ne [of T] by (simp add: ast_ok_def l1 flip: length_greater_0_conv)
  then have "ast_commit_tx a1 h1 l (length (lg ast)) = Inr (a4, h4)"
    using c(1) r(1) k(1) r(2,5) by (auto simp: ast_commit_tx_def ast_ok_def heap_ok_def counted_def)
  moreover have "last_linked a4 = a" using k(1) by (auto simp: ast_log_link_def rbind_eq_Inr)
  moreover have "same_body (L \<inter> L3) h h4"
    using s1(1) c(7) r(8) s4(1) by (meson same_mono(1) same_trans(1) inf_le1 inf_le2)
  moreover have "same_label (L \<inter> L3 - trefs T) h h4"
  proof -
    have "L \<inter> L3 - trefs T \<subseteq> L" "L \<inter> L3 - trefs T \<subseteq> L - trefs T" "L \<inter> L3 - trefs T \<subseteq> L3" by auto
    then show ?thesis using s1(2) c(8) r(9) s4(2) by (meson same_mono(2) same_trans(2))
  qed
  moreover have "a \<in> L3 - L" using r(5) c(2) by auto
  ultimately show ?thesis unfolding tx ast_get_last_linked_node_def using g(1) ok4 l4 \<open>trefs T \<subseteq> L3\<close> by blast
qed

text \<open>The same for the tree of a whole parse.\<close>

lemma first_new_emit: "\<exists>s es. emit T = ent TypeNew 0 s # es"
  by (induction T rule: ltree.induct [where ?P2.0 = "\<lambda>_. True"]) auto

lemma get_parsed_tree:
  assumes l: "lg ast = emit T" and ok: "ast_ok ast h L R xs" and r: "trefs T \<subseteq> L" and p: "parsed ast = 0"
    and small: "length (lg ast) + 1 < 2 ^ 28"
  shows "\<exists>a ast' h' L' xs'. ast_get_parsed_node ast h = Inr (a, ast', h') \<and> lg ast' = [] \<and> parsed ast' = a \<and>
     ast_ok ast' h' L' (add_mset a R) xs' \<and> a \<in> L' - L \<and> tree_at (L' - L) h' a T \<and> trefs T \<subseteq> L'"
proof -
  have wf: "arr_wf (logs ast)" using ok by (simp add: ast_ok_def)
  obtain s es where e: "emit T = ent TypeNew 0 s # es" using first_new_emit by blast
  have n: "asize (logs ast) = length (lg ast)" "0 < length (lg ast)" using length_lg [OF wf] l e by simp_all
  have "[0..<asize (logs ast)] = 0 # [1..<asize (logs ast)]" using n by (simp add: upt_conv_Cons)
  moreover have "ARRAY_get (logs ast) 0 = Inr (ent TypeNew 0 s)" using get_lg [OF wf n(2)] l e by simp
  ultimately have new: "first_new ast [0..<asize (logs ast)] = Inr (Some 0)" by simp
  have l': "lg ast = [] @ emit T" using l by simp
  from create_node_tree [OF l' ok r small] obtain a a2 h2 L2 xs2 where
    c: "ast_create_node ast h 0 None = Inr (a, a2, h2)" "a \<in> L2 - L" "ast_ok a2 h2 L2 R xs2" "L \<subseteq> L2"
      "refc (cells h2 ! a) = 0" "tree_at (L2 - L) h2 a T" by auto
  have aL: "a \<in> L2" "L2 - L \<subseteq> L2" using c(2) by auto
  from rollback_tree [OF c(3) le0 c(6) aL(2,1) c(5)] obtain a3 h3 L3 xs3 where
    b: "ast_rollback_tx a2 h2 0 = Inr (a3, h3)" "ast_ok a3 h3 L3 R xs3" "lg a3 = []"
      "L3 \<subseteq> L2" "a \<in> L3" "tree_at ((L2 - L) \<inter> L3) h3 a T" "trefs T - {0} \<subseteq> L3" by auto
  have "(L2 - L) \<inter> L3 = L3 - L" using b(4) by auto
  with b(6) have t3: "tree_at (L3 - L) h3 a T" by simp
  have hk: "heap_ok h3 L3 R xs3" and wf3: "arr_wf (logs a3)" using b(2,3) by (simp_all add: ast_ok_def)
  let ?h4 = "with_refc h3 a (refc (cells h3 ! a) + 1)"
  from retain_ok [OF hk b(5)] have k: "NODE_GC_RETAIN h3 a = Inr ?h4" "heap_ok ?h4 L3 (add_mset a R) xs3" by simp_all
  have al: "a < length (cells h3)" using heap_okD [OF hk b(5)] by simp
  have "same_body UNIV h3 ?h4 \<and> same_label UNIV h3 ?h4"
    unfolding same_body_def same_label_def
  proof (intro conjI ballI)
    fix x show "node_text (cells ?h4 ! x) = node_text (cells h3 ! x)" "nentry (cells ?h4 ! x) = nentry (cells h3 ! x)"
      "labelId (cells ?h4 ! x) = labelId (cells h3 ! x)" using al by (cases "x = a"; simp add: node_text_def)+
  qed
  then have "tree_at (L3 - L) ?h4 a T"
    using tree_at_kids_frame(1) [OF t3] same_mono [of UNIV h3 ?h4] by simp
  moreover have "0 \<notin> L" using ok by (auto simp: ast_ok_def heap_ok_def counted_def)
  then have "trefs T \<subseteq> L3" using b(7) r by auto
  moreover have "ast_get_parsed_node ast h = Inr (a, a3\<lparr>parsed := a\<rparr>, ?h4)"
    using p n new c(1) b(1) k(1) by (simp add: ast_get_parsed_node_def)
  moreover have "ast_ok (a3\<lparr>parsed := a\<rparr>) ?h4 L3 (add_mset a R) xs3 \<and> lg (a3\<lparr>parsed := a\<rparr>) = []"
    using k(2) wf3 b(3) by (simp add: ast_ok_def lg_def)
  moreover have "a \<in> L3 - L" using b(5) c(2) by auto
  ultimately show ?thesis by (intro exI [of _ a] exI [of _ "a3\<lparr>parsed := a\<rparr>"] exI [of _ ?h4]) auto
qed

text \<open>C3: A parse returns its tree: on a machine with an empty log, after the calls a parser makes
for a tree \<open>T\<close>, \<open>ast_get_parsed_node\<close> returns a new node under which the heap holds exactly
\<open>T\<close>, empties the log, keeps one reference to the node, and returns the same node again when asked
again.\<close>

theorem ast_parse_returns_tree:
  assumes "ast_ok ast h L R xs" "lg ast = []" "parsed ast = 0" "trefs T \<subseteq> L" "length (emit T) + 1 < 2 ^ 28"
  shows "\<exists>ast1 h1 a ast' h' L' xs'. log_tree T ast h = Inr (ast1, h1) \<and>
     ast_get_parsed_node ast1 h1 = Inr (a, ast', h') \<and> lg ast' = [] \<and>
     ast_ok ast' h' L' (add_mset a R) xs' \<and> a \<in> L' - L \<and> tree_at (L' - L) h' a T \<and> trefs T \<subseteq> L' \<and>
     ast_get_parsed_node ast' h' = Inr (a, ast', h')"
proof -
  from log_tree_kids_ok(1) [OF assms(1,4)] assms(2,5) obtain a1 h1 where
    g: "log_tree T ast h = Inr (a1, h1)" "logged (emit T) ast h L R xs a1 h1" by auto
  then have 1: "lg a1 = emit T" "ast_ok a1 h1 L R xs" "parsed a1 = 0" using assms(2,3) by (simp_all add: logged_def)
  have small: "length (lg a1) + 1 < 2 ^ 28" using 1(1) assms(5) by simp
  from get_parsed_tree [OF 1(1,2) assms(4) 1(3) small] obtain a ast' h' L' xs' where
    r: "ast_get_parsed_node a1 h1 = Inr (a, ast', h')" "lg ast' = []" "parsed ast' = a"
     "ast_ok ast' h' L' (add_mset a R) xs'" "a \<in> L' - L" "tree_at (L' - L) h' a T" "trefs T \<subseteq> L'" by blast
  have "0 \<notin> L'" using r(4) by (auto simp: ast_ok_def heap_ok_def counted_def)
  then have "ast_get_parsed_node ast' h' = Inr (a, ast', h')"
    using r(3,5) by (auto simp: ast_get_parsed_node_def)
  with g(1) r show ?thesis by blast
qed

text \<open>C29: A parse that logged entries but no node start crashes when asked for its tree:
\<open>ast_get_parsed_node\<close> leaves \<open>parsed\<close> NULL and retains it. A log of one committed link is such.\<close>

theorem ast_get_parsed_null:
  assumes "ast_ok ast h L R xs" "parsed ast = 0" "lg ast \<noteq> []" "\<forall>e \<in> set (lg ast). ltype e \<noteq> TypeNew"
  shows "ast_get_parsed_node ast h = Inl NullDeref"
proof -
  have wf: "arr_wf (logs ast)" using assms(1) by (simp add: ast_ok_def)
  have n: "asize (logs ast) = length (lg ast)" using length_lg [OF wf] by simp
  have "first_new ast is = Inr None" if "set is \<subseteq> {..<length (lg ast)}" for "is"
    using that by (induction "is") (simp_all add: get_lg [OF wf] assms(4))
  from this [of "[0..<asize (logs ast)]"] have "first_new ast [0..<asize (logs ast)] = Inr None"
    using n by (simp add: lessThan_atLeast0)
  moreover obtain a3 h3 where "ast_rollback_tx ast h 0 = Inr (a3, h3)" using rollback_ok [OF assms(1) le0] by blast
  ultimately show ?thesis using assms(2,3) n
    by (simp add: ast_get_parsed_node_def NODE_GC_RETAIN_def nread_def)
qed

definition example_ast :: AstMachine where
  "example_ast = \<lparr>logs = ARRAY_init (replicate 4 0), last_linked = 0, parsed = 0, source = 0\<rparr>"

lemma example_ast_ok: "lg example_ast = []" "parsed example_ast = 0" "ast_ok example_ast example_heap {1, 2} {#1, 2#} []"
  using example_heap_ok ARRAY_init_elts [of "replicate 4 (0 :: AstLog)"]
  by (simp_all add: example_ast_def lg_def ast_ok_def)

definition example_tree :: ltree where
  "example_tree = Fold (Base 10 [Sub 3 (Base 11 [] 5 0 12), Ref 4 2] 7 0 13) 10 6 [] 8 0 20"

lemma ast_commit_builds_witness:
  "\<exists>ast1 h1 ast' h' a. log_tree example_tree example_ast example_heap = Inr (ast1, h1) \<and>
     ast_commit_tx ast1 h1 9 0 = Inr (ast', h') \<and> lg ast' = [ent TypeLink a 9]"
  using ast_commit_builds [OF example_ast_ok(3), of example_tree 9] example_ast_ok(1)
  by (auto simp: example_tree_def meta_def ast_save_tx_def example_ast_def ARRAY_init_def)

lemma ast_parse_returns_tree_witness:
  "\<exists>ast1 h1 a ast' h'. log_tree example_tree example_ast example_heap = Inr (ast1, h1) \<and>
     ast_get_parsed_node ast1 h1 = Inr (a, ast', h') \<and> lg ast' = []"
  using ast_parse_returns_tree [OF example_ast_ok(3,1,2), of example_tree]
  by (auto simp: example_tree_def meta_def)

lemma ast_get_parsed_null_witness:
  "\<exists>ast h. ast_log_link example_ast example_heap 9 2 = Inr (ast, h) \<and> ast_get_parsed_node ast h = Inl NullDeref"
proof -
  from ast_log_link_ok [OF example_ast_ok(3), of 2 9] example_ast_ok(1,2) obtain ast h where
    "ast_log_link example_ast example_heap 9 2 = Inr (ast, h)" "ast_ok ast h {1, 2} {#1, 2#} []"
    "lg ast = [ent TypeLink 2 9]" "parsed ast = 0" by auto
  with ast_get_parsed_null [of ast h "{1, 2}" "{#1, 2#}" "[]"] show ?thesis by auto
qed

end
