(* ===== verification/Instruction.thy ===== *)
theory Instruction
  imports Moz_Prelude
begin

text \<open>
  The instruction set of \<open>src/src/vm1/instruction.h\<close>: the enumeration of opcodes, the order of the
  dispatch table (\<open>OP_EACH\<close>), and the size of each instruction, which \<open>tool/vmgen.rb\<close> generates
  from the operands that \<open>instruction.def\<close> declares. Opcodes are ordered by their value.
\<close>

section \<open>Opcodes\<close>

datatype MozOpcode =
    O_Nop | O_Fail | O_Alt | O_Succ | O_Jump | O_Call | O_Ret | O_Pos | O_Back | O_Skip
  | O_Byte | O_Any | O_Str | O_Set | O_NByte | O_NAny | O_NStr | O_NSet
  | O_OByte | O_OAny | O_OStr | O_OSet | O_RByte | O_RAny | O_RStr | O_RSet
  | O_Consume | O_First | O_Lookup | O_Memo | O_MemoFail
  | O_TPush | O_TPop | O_TLeftFold | O_TNew | O_TCapture | O_TTag | O_TReplace | O_TStart | O_TCommit | O_TAbort
  | O_TLookup | O_TMemo
  | O_SOpen | O_SClose | O_SMask | O_SDef | O_SIsDef | O_SExists | O_SMatch | O_SIs | O_SIsa | O_SDefNum | O_SCount
  | O_Exit | O_TblJump1 | O_TblJump2 | O_TblJump3 | O_Label

text \<open>\<open>OP_EACH\<close>: the order of the dispatch table.\<close>

definition OP_EACH :: "MozOpcode list" where
  "OP_EACH =
    [O_Nop, O_Fail, O_Alt, O_Succ, O_Jump, O_Call, O_Ret, O_Pos, O_Back, O_Skip,
     O_Byte, O_Any, O_Str, O_Set, O_NByte, O_NAny, O_NStr, O_NSet,
     O_OByte, O_OAny, O_OStr, O_OSet, O_RByte, O_RAny, O_RStr, O_RSet,
     O_Consume, O_First, O_Lookup, O_Memo, O_MemoFail,
     O_TPush, O_TPop, O_TLeftFold, O_TNew, O_TCapture, O_TTag, O_TReplace, O_TStart, O_TCommit, O_TAbort,
     O_TLookup, O_TMemo,
     O_SOpen, O_SClose, O_SMask, O_SDef, O_SIsDef, O_SExists, O_SMatch, O_SIs, O_SIsa, O_SDefNum, O_SCount,
     O_Exit, O_TblJump1, O_TblJump2, O_TblJump3, O_Label]"

text \<open>The values of the enumeration.\<close>

primrec opcode_num :: "MozOpcode \<Rightarrow> nat" where
  "opcode_num O_Nop = 0" | "opcode_num O_Fail = 1" | "opcode_num O_Alt = 2" | "opcode_num O_Succ = 3"
| "opcode_num O_Jump = 4" | "opcode_num O_Call = 5" | "opcode_num O_Ret = 6" | "opcode_num O_Pos = 7"
| "opcode_num O_Back = 8" | "opcode_num O_Skip = 9"
| "opcode_num O_Byte = 10" | "opcode_num O_Any = 11" | "opcode_num O_Str = 12" | "opcode_num O_Set = 13"
| "opcode_num O_NByte = 14" | "opcode_num O_NAny = 15" | "opcode_num O_NStr = 16" | "opcode_num O_NSet = 17"
| "opcode_num O_OByte = 18" | "opcode_num O_OAny = 19" | "opcode_num O_OStr = 20" | "opcode_num O_OSet = 21"
| "opcode_num O_RByte = 22" | "opcode_num O_RAny = 23" | "opcode_num O_RStr = 24" | "opcode_num O_RSet = 25"
| "opcode_num O_Consume = 26" | "opcode_num O_First = 27"
| "opcode_num O_Lookup = 28" | "opcode_num O_Memo = 29" | "opcode_num O_MemoFail = 30"
| "opcode_num O_TPush = 31" | "opcode_num O_TPop = 32" | "opcode_num O_TLeftFold = 33" | "opcode_num O_TNew = 34"
| "opcode_num O_TCapture = 35" | "opcode_num O_TTag = 36" | "opcode_num O_TReplace = 37" | "opcode_num O_TStart = 38"
| "opcode_num O_TCommit = 39" | "opcode_num O_TAbort = 40" | "opcode_num O_TLookup = 41" | "opcode_num O_TMemo = 42"
| "opcode_num O_SOpen = 43" | "opcode_num O_SClose = 44" | "opcode_num O_SMask = 45" | "opcode_num O_SDef = 46"
| "opcode_num O_SIsDef = 47" | "opcode_num O_SExists = 48" | "opcode_num O_SMatch = 49" | "opcode_num O_SIs = 50"
| "opcode_num O_SIsa = 51" | "opcode_num O_SDefNum = 52" | "opcode_num O_SCount = 53" | "opcode_num O_Exit = 54"
| "opcode_num O_TblJump1 = 55" | "opcode_num O_TblJump2 = 56" | "opcode_num O_TblJump3 = 57" | "opcode_num O_Label = 127"

text \<open>The operands of an instruction in bytes, after the opcode: \<open>mozvm1_opcode_size\<close>.\<close>

primrec operand_size :: "MozOpcode \<Rightarrow> nat" where
  "operand_size O_Nop = 0" | "operand_size O_Fail = 0" | "operand_size O_Alt = 4" | "operand_size O_Succ = 0"
| "operand_size O_Jump = 4" | "operand_size O_Call = 8" | "operand_size O_Ret = 4" | "operand_size O_Pos = 0"
| "operand_size O_Back = 0" | "operand_size O_Skip = 0" | "operand_size O_Byte = 1" | "operand_size O_Any = 0"
| "operand_size O_Str = 2" | "operand_size O_Set = 2" | "operand_size O_NByte = 1" | "operand_size O_NAny = 0"
| "operand_size O_NStr = 2" | "operand_size O_NSet = 2" | "operand_size O_OByte = 1" | "operand_size O_OAny = 0"
| "operand_size O_OStr = 2" | "operand_size O_OSet = 2" | "operand_size O_RByte = 1" | "operand_size O_RAny = 0"
| "operand_size O_RStr = 2" | "operand_size O_RSet = 2" | "operand_size O_Consume = 1" | "operand_size O_First = 2"
| "operand_size O_Lookup = 7" | "operand_size O_Memo = 3" | "operand_size O_MemoFail = 3" | "operand_size O_TPush = 0"
| "operand_size O_TPop = 2" | "operand_size O_TLeftFold = 3" | "operand_size O_TNew = 1" | "operand_size O_TCapture = 1"
| "operand_size O_TTag = 2" | "operand_size O_TReplace = 2" | "operand_size O_TStart = 0" | "operand_size O_TCommit = 2"
| "operand_size O_TAbort = 0" | "operand_size O_TLookup = 9" | "operand_size O_TMemo = 3" | "operand_size O_SOpen = 0"
| "operand_size O_SClose = 0" | "operand_size O_SMask = 2" | "operand_size O_SDef = 2" | "operand_size O_SIsDef = 4"
| "operand_size O_SExists = 2" | "operand_size O_SMatch = 2" | "operand_size O_SIs = 2" | "operand_size O_SIsa = 2"
| "operand_size O_SDefNum = 0" | "operand_size O_SCount = 0" | "operand_size O_Exit = 1" | "operand_size O_TblJump1 = 2"
| "operand_size O_TblJump2 = 2" | "operand_size O_TblJump3 = 2" | "operand_size O_Label = 0"

definition mozvm1_opcode_size :: "MozOpcode \<Rightarrow> nat" where
  "mozvm1_opcode_size opc = 1 + operand_size opc"

section \<open>The order of opcodes\<close>

lemma OP_EACH_num: "OP_EACH ! min (opcode_num opc) 58 = opc"
  by (cases opc) (simp_all add: OP_EACH_def)

lemma opcode_num_inj: "opcode_num a = opcode_num b \<longleftrightarrow> a = b"
  using OP_EACH_num by metis

instantiation MozOpcode :: linorder
begin

definition less_eq_MozOpcode :: "MozOpcode \<Rightarrow> MozOpcode \<Rightarrow> bool" where
  "less_eq_MozOpcode a b \<longleftrightarrow> opcode_num a \<le> opcode_num b"

definition less_MozOpcode :: "MozOpcode \<Rightarrow> MozOpcode \<Rightarrow> bool" where
  "less_MozOpcode a b \<longleftrightarrow> opcode_num a < opcode_num b"

instance
  by standard (auto simp: less_eq_MozOpcode_def less_MozOpcode_def opcode_num_inj)

end

text \<open>The dispatch table agrees with the enumeration but for its last entry: every opcode
except \<open>Label\<close> is found at its value, the entries are sorted by value, and \<open>Label\<close>, whose value is
127, sits at index 58, so dispatching on the byte 127 reads behind the table.\<close>

theorem dispatch_table:
  "(if opc = O_Label then OP_EACH ! 58 = opc \<and> length OP_EACH \<le> opcode_num opc
    else opcode_num opc < length OP_EACH \<and> OP_EACH ! opcode_num opc = opc) \<and>
   sorted OP_EACH \<and> distinct OP_EACH"
proof (intro conjI)
  show "if opc = O_Label then OP_EACH ! 58 = opc \<and> length OP_EACH \<le> opcode_num opc
    else opcode_num opc < length OP_EACH \<and> OP_EACH ! opcode_num opc = opc"
    by (cases opc) (simp_all add: OP_EACH_def)
  have "map opcode_num OP_EACH = [0..<58] @ [127]" by (simp add: OP_EACH_def upt_rec)
  then have s: "sorted (map opcode_num OP_EACH)" "distinct (map opcode_num OP_EACH)" by (simp_all add: sorted_append)
  then show "distinct OP_EACH" by (simp add: distinct_map)
  have "(\<le>) = (\<lambda>x y. opcode_num x \<le> opcode_num y)" by (intro ext) (simp add: less_eq_MozOpcode_def)
  then show "sorted OP_EACH" using s(1) by (simp add: sorted_map)
qed

end
