(* ===== verification/VM1.thy ===== *)
theory VM1
  imports Instruction Jump_Table Symtable Memo Ast
begin

text \<open>
  The byte-code interpreter of \<open>src/src/vm1/mozvm1.c\<close> with the instructions of
  \<open>src/src/vm1/instruction.h\<close> and \<open>instruction.def\<close>: one definition per instruction handler, in
  the order of the file, and the dispatch loop. The configuration is the repository's: positions
  are pointers, indirect threading, 16-bit constant ids, no profiling, no just-in-time compiler.

  Pointers are indices into the object they belong to: a position is an address of the memory, a
  code pointer an index into the program (the four bytes \<open>bytecode_base\<close> behind it), a frame
  pointer an index into the stack. A stack word remembers which it is; using it as another kind
  is \<open>Inl BadSlot\<close>. The stack has a fixed size and no check: leaving it is \<open>Inl OutOfBounds\<close>.
\<close>

section \<open>State\<close>

datatype slot =
    SFrame nat
  | SPos addr
  | SCode nat
  | SNum nat

text \<open>The constants of a loaded program (\<open>mozvm_constant_t\<close>), its code and the memory.\<close>

record constants =
  sets :: "bitset_t list"
  tags :: "addr list"
  strs :: "addr list"
  tables :: "addr list"
  jumps :: "int list"
  jumps1 :: "jump_table_t list"
  jumps2 :: "jump_table_t list"
  jumps3 :: "jump_table_t list"
  code :: "u8 list"
  vmem :: mem
  stale :: token_t

text \<open>
  \<open>moz_runtime_t\<close> and the registers of \<open>moz_runtime_parse\<close>. \<open>vfp\<close> and \<open>vsp\<close> index \<open>stack_\<close>. The
  node heap is the static state of \<open>node.c\<close>.
\<close>

record vm =
  pc :: nat
  cur :: addr
  vsp :: nat
  vfp :: nat
  stack :: "slot list"
  hd_pos :: addr
  tl_pos :: addr
  vast :: AstMachine
  vheap :: node_heap
  vtable :: symtable_t
  vmemo :: memo

section \<open>Reading code\<close>

text \<open>\<open>bytecode_base\<close>: the two exits, for success and for failure.\<close>

definition bytecode_base :: "u8 list" where
  "bytecode_base = [54, 0, 54, 1]"

definition base_pc :: "constants \<Rightarrow> nat" where
  "base_pc C = length (code C) + 1"

definition fetch :: "constants \<Rightarrow> nat \<Rightarrow> u8 res" where
  "fetch C p = (if p < base_pc C then aread (code C) p else aread bytecode_base (p - base_pc C))"

definition read_uint8_t :: "constants \<Rightarrow> vm \<Rightarrow> (u8 \<times> vm) res" where
  "read_uint8_t C v = rbind (fetch C (pc v)) (\<lambda>b. Inr (b, v\<lparr>pc := pc v + 1\<rparr>))"

definition read_int8_t :: "constants \<Rightarrow> vm \<Rightarrow> (int \<times> vm) res" where
  "read_int8_t C v = rbind (read_uint8_t C v) (\<lambda>(b, v). Inr (sint b, v))"

definition read_uint16_t :: "constants \<Rightarrow> vm \<Rightarrow> (u16 \<times> vm) res" where
  "read_uint16_t C v =
     rbind (read_uint8_t C v) (\<lambda>(b0, v). rbind (read_uint8_t C v) (\<lambda>(b1, v).
       Inr (ucast b0 OR push_bit 8 (ucast b1), v)))"

text \<open>\<open>mozaddr_t\<close> is a 32-bit \<open>int\<close>.\<close>

definition read_mozaddr_t :: "constants \<Rightarrow> vm \<Rightarrow> (int \<times> vm) res" where
  "read_mozaddr_t C v =
     rbind (read_uint8_t C v) (\<lambda>(b0, v). rbind (read_uint8_t C v) (\<lambda>(b1, v).
     rbind (read_uint8_t C v) (\<lambda>(b2, v). rbind (read_uint8_t C v) (\<lambda>(b3, v).
       Inr (sint (ucast b0 OR push_bit 8 (ucast b1) OR push_bit 16 (ucast b2) OR push_bit 24 (ucast b3) :: u32), v)))))"

text \<open>\<open>PC + N\<close>: a pointer into the program, or one past it.\<close>

definition code_ptr :: "constants \<Rightarrow> vm \<Rightarrow> int \<Rightarrow> nat res" where
  "code_ptr C v n =
     (let t = int (pc v) + n
      in if pc v \<le> length (code C) \<and> 0 \<le> t \<and> t \<le> int (length (code C)) then Inr (nat t) else Inl OutOfBounds)"

definition JUMP :: "constants \<Rightarrow> vm \<Rightarrow> int \<Rightarrow> vm res" where
  "JUMP C v n = rbind (code_ptr C v n) (\<lambda>p. Inr (v\<lparr>pc := p\<rparr>))"

section \<open>Positions\<close>

text \<open>\<open>*GET_CURRENT()\<close>, a \<open>char\<close>; its value as an \<open>int\<close> and as an \<open>unsigned\<close>.\<close>

definition current :: "constants \<Rightarrow> vm \<Rightarrow> u8 res" where
  "current C v = mread (vmem C) (cur v)"

definition char_unsigned :: "u8 \<Rightarrow> nat" where
  "char_unsigned c = unat (scast c :: u32)"

definition EOS :: "vm \<Rightarrow> bool" where
  "EOS v \<longleftrightarrow> cur v = tl_pos v"

definition CONSUME_N :: "vm \<Rightarrow> int \<Rightarrow> vm" where
  "CONSUME_N v n = v\<lparr>cur := nat (int (cur v) + n)\<rparr>"

definition CONSUME :: "vm \<Rightarrow> vm" where
  "CONSUME v = v\<lparr>cur := cur v + 1\<rparr>"

section \<open>The stack\<close>

definition PUSH :: "vm \<Rightarrow> slot \<Rightarrow> vm res" where
  "PUSH v x = rbind (awrite (stack v) (vsp v) x) (\<lambda>s. Inr (v\<lparr>stack := s, vsp := vsp v + 1\<rparr>))"

definition POP :: "vm \<Rightarrow> (slot \<times> vm) res" where
  "POP v = rbind (rguard OutOfBounds (0 < vsp v)) (\<lambda>_. rbind (aread (stack v) (vsp v - 1)) (\<lambda>x.
     Inr (x, v\<lparr>vsp := vsp v - 1\<rparr>)))"

fun as_frame :: "slot \<Rightarrow> nat res" where
  "as_frame (SFrame n) = Inr n"
| "as_frame s = Inl BadSlot"

fun as_pos :: "slot \<Rightarrow> addr res" where
  "as_pos (SPos p) = Inr p"
| "as_pos s = Inl BadSlot"

fun as_code :: "slot \<Rightarrow> nat res" where
  "as_code (SCode p) = Inr p"
| "as_code s = Inl BadSlot"

fun as_num :: "slot \<Rightarrow> nat res" where
  "as_num (SNum n) = Inr n"
| "as_num s = Inl BadSlot"

definition FP_MAX :: nat where
  "FP_MAX = 5"

definition PUSH_FRAME :: "vm \<Rightarrow> addr \<Rightarrow> nat \<Rightarrow> nat \<Rightarrow> nat \<Rightarrow> vm res" where
  "PUSH_FRAME v pos next ast symtbl =
     rbind (awrite (stack v) (vsp v) (SFrame (vfp v))) (\<lambda>s.
     rbind (awrite s (vsp v + 1) (SPos pos)) (\<lambda>s.
     rbind (awrite s (vsp v + 2) (SCode next)) (\<lambda>s.
     rbind (awrite s (vsp v + 3) (SNum ast)) (\<lambda>s.
     rbind (awrite s (vsp v + 4) (SNum symtbl)) (\<lambda>s.
       Inr (v\<lparr>stack := s, vfp := vsp v, vsp := vsp v + FP_MAX\<rparr>))))))"

definition DROP_FRAME :: "vm \<Rightarrow> vm res" where
  "DROP_FRAME v =
     rbind (aread (stack v) (vfp v)) (\<lambda>x. rbind (as_frame x) (\<lambda>f. Inr (v\<lparr>vsp := vfp v, vfp := f\<rparr>)))"

definition POP_FRAME :: "vm \<Rightarrow> ((addr \<times> nat \<times> nat \<times> nat) \<times> vm) res" where
  "POP_FRAME v =
     rbind (rbind (aread (stack v) (vfp v + 4)) as_num) (\<lambda>symtbl.
     rbind (rbind (aread (stack v) (vfp v + 3)) as_num) (\<lambda>ast.
     rbind (rbind (aread (stack v) (vfp v + 2)) as_code) (\<lambda>next.
     rbind (rbind (aread (stack v) (vfp v + 1)) as_pos) (\<lambda>pos.
     rbind (DROP_FRAME v) (\<lambda>v. Inr ((pos, next, ast, symtbl), v))))))"

section \<open>Failing\<close>

definition FAIL_IMPL :: "vm \<Rightarrow> vm res" where
  "FAIL_IMPL v =
     rbind (POP_FRAME v) (\<lambda>((pos, jump, ast_tx, saved), v).
     let v = (if pos < cur v then v\<lparr>hd_pos := (if hd_pos v < cur v then cur v else hd_pos v), cur := pos\<rparr> else v)
     in rbind (ast_rollback_tx (vast v) (vheap v) ast_tx) (\<lambda>(ast, h).
        Inr (v\<lparr>vast := ast, vheap := h, vtable := symtable_rollback (vtable v) saved, pc := jump\<rparr>)))"

section \<open>The instructions\<close>

definition op_Nop :: "vm \<Rightarrow> vm res" where
  "op_Nop v = Inr v"

definition op_Fail :: "vm \<Rightarrow> vm res" where
  "op_Fail v = FAIL_IMPL v"

definition op_Alt :: "constants \<Rightarrow> vm \<Rightarrow> vm res" where
  "op_Alt C v =
     rbind (read_mozaddr_t C v) (\<lambda>(failjump, v).
     rbind (code_ptr C v failjump) (\<lambda>next.
       PUSH_FRAME v (cur v) next (ast_save_tx (vast v)) (symtable_savepoint (vtable v))))"

definition op_Succ :: "vm \<Rightarrow> vm res" where
  "op_Succ v = DROP_FRAME v"

definition op_Jump :: "constants \<Rightarrow> vm \<Rightarrow> vm res" where
  "op_Jump C v = rbind (read_mozaddr_t C v) (\<lambda>(jump, v). JUMP C v jump)"

definition op_Call :: "constants \<Rightarrow> vm \<Rightarrow> vm res" where
  "op_Call C v =
     rbind (read_mozaddr_t C v) (\<lambda>(next, v). rbind (read_mozaddr_t C v) (\<lambda>(jump, v).
     rbind (code_ptr C v next) (\<lambda>ret. rbind (PUSH v (SCode ret)) (\<lambda>v. JUMP C v jump))))"

definition op_Ret :: "constants \<Rightarrow> vm \<Rightarrow> vm res" where
  "op_Ret C v =
     rbind (read_mozaddr_t C v) (\<lambda>(dummy, v).
     rbind (POP v) (\<lambda>(x, v). rbind (as_code x) (\<lambda>next. Inr (v\<lparr>pc := next\<rparr>))))"

definition op_Pos :: "vm \<Rightarrow> vm res" where
  "op_Pos v = PUSH v (SPos (cur v))"

definition op_Back :: "vm \<Rightarrow> vm res" where
  "op_Back v = rbind (POP v) (\<lambda>(x, v). rbind (as_pos x) (\<lambda>p. Inr (v\<lparr>cur := p\<rparr>)))"

definition op_Skip :: "vm \<Rightarrow> vm res" where
  "op_Skip v =
     rbind (rbind (aread (stack v) (vfp v + 1)) as_pos) (\<lambda>pos.
       if pos = cur v then FAIL_IMPL v
       else
         rbind (awrite (stack v) (vfp v + 1) (SPos (cur v))) (\<lambda>s.
         rbind (awrite s (vfp v + 3) (SNum (ast_save_tx (vast v)))) (\<lambda>s.
         rbind (awrite s (vfp v + 4) (SNum (symtable_savepoint (vtable v)))) (\<lambda>s.
           Inr (v\<lparr>stack := s\<rparr>)))))"

text \<open>\<open>*GET_CURRENT()\<close> is a signed \<open>char\<close> and \<open>ch\<close> an \<open>uint8_t\<close>: they are compared as \<open>int\<close>.\<close>

definition op_Byte :: "constants \<Rightarrow> vm \<Rightarrow> vm res" where
  "op_Byte C v =
     rbind (read_uint8_t C v) (\<lambda>(ch, v). rbind (current C v) (\<lambda>c.
       if sint c \<noteq> uint ch then FAIL_IMPL v else Inr (CONSUME v)))"

definition op_Any :: "vm \<Rightarrow> vm res" where
  "op_Any v = (if EOS v then FAIL_IMPL v else Inr (CONSUME v))"

text \<open>The string of an instruction, its length, and whether it is next in the input.\<close>

definition read_STRING_t :: "constants \<Rightarrow> vm \<Rightarrow> (addr \<times> u32 \<times> vm) res" where
  "read_STRING_t C v =
     rbind (read_uint16_t C v) (\<lambda>(strId, v). rbind (aread (strs C) (unat strId)) (\<lambda>str.
     rbind (pstring_length (vmem C) str) (\<lambda>len. Inr (str, len, v))))"

definition starts :: "constants \<Rightarrow> vm \<Rightarrow> addr \<Rightarrow> u32 \<Rightarrow> bool res" where
  "starts C v str len = pstring_starts_with (vmem C) (cur v) str (unat len)"

definition op_Str :: "constants \<Rightarrow> vm \<Rightarrow> vm res" where
  "op_Str C v =
     rbind (read_STRING_t C v) (\<lambda>(str, len, v). rbind (starts C v str len) (\<lambda>b.
       if \<not> b then FAIL_IMPL v else Inr (CONSUME_N v (uint len))))"

definition read_BITSET_t :: "constants \<Rightarrow> vm \<Rightarrow> (bitset_t \<times> vm) res" where
  "read_BITSET_t C v =
     rbind (read_uint16_t C v) (\<lambda>(setId, v). rbind (aread (sets C) (unat setId)) (\<lambda>bs. Inr (bs, v)))"

text \<open>\<open>bitset_get(set, *GET_CURRENT())\<close>: the \<open>char\<close> is converted to \<open>unsigned\<close>.\<close>

definition in_set :: "constants \<Rightarrow> vm \<Rightarrow> bitset_t \<Rightarrow> bool res" where
  "in_set C v bs = rbind (current C v) (\<lambda>c. bitset_get bs (char_unsigned c))"

definition op_Set :: "constants \<Rightarrow> vm \<Rightarrow> vm res" where
  "op_Set C v =
     rbind (read_BITSET_t C v) (\<lambda>(bs, v). rbind (in_set C v bs) (\<lambda>b.
       if \<not> b then FAIL_IMPL v else Inr (CONSUME v)))"

definition op_NByte :: "constants \<Rightarrow> vm \<Rightarrow> vm res" where
  "op_NByte C v =
     rbind (read_uint8_t C v) (\<lambda>(ch, v). rbind (current C v) (\<lambda>c.
       if sint c = uint ch then FAIL_IMPL v else Inr v))"

definition op_NAny :: "vm \<Rightarrow> vm res" where
  "op_NAny v = (if \<not> EOS v then FAIL_IMPL v else Inr v)"

definition op_NStr :: "constants \<Rightarrow> vm \<Rightarrow> vm res" where
  "op_NStr C v =
     rbind (read_STRING_t C v) (\<lambda>(str, len, v). rbind (starts C v str len) (\<lambda>b.
       if b then FAIL_IMPL v else Inr v))"

definition op_NSet :: "constants \<Rightarrow> vm \<Rightarrow> vm res" where
  "op_NSet C v =
     rbind (read_BITSET_t C v) (\<lambda>(bs, v). rbind (in_set C v bs) (\<lambda>b.
       if b then FAIL_IMPL v else Inr v))"

definition op_OByte :: "constants \<Rightarrow> vm \<Rightarrow> vm res" where
  "op_OByte C v =
     rbind (read_uint8_t C v) (\<lambda>(ch, v). rbind (current C v) (\<lambda>c.
       Inr (if sint c = uint ch then CONSUME v else v)))"

definition op_OAny :: "vm \<Rightarrow> vm res" where
  "op_OAny v = Inl Int3"

definition op_OStr :: "constants \<Rightarrow> vm \<Rightarrow> vm res" where
  "op_OStr C v =
     rbind (read_STRING_t C v) (\<lambda>(str, len, v). rbind (starts C v str len) (\<lambda>b.
       Inr (if b then CONSUME_N v (uint len) else v)))"

definition op_OSet :: "constants \<Rightarrow> vm \<Rightarrow> vm res" where
  "op_OSet C v =
     rbind (read_BITSET_t C v) (\<lambda>(bs, v). rbind (in_set C v bs) (\<lambda>b.
       Inr (if b then CONSUME v else v)))"

definition op_RByte :: "constants \<Rightarrow> vm \<Rightarrow> vm res" where
  "op_RByte C v =
     rbind (read_uint8_t C v) (\<lambda>(ch, v). rbind (pstring_find_not_char (vmem C) (cur v) ch) (\<lambda>p.
       Inr (v\<lparr>cur := p\<rparr>)))"

definition op_RAny :: "vm \<Rightarrow> vm res" where
  "op_RAny v = Inl Int3"

text \<open>
  \<open>while (pstring_starts_with(GET_CURRENT(), str, len) == 1) CONSUME_N(len);\<close> with a step budget;
  it does not return for an empty string.
\<close>

fun rstr_loop :: "nat \<Rightarrow> constants \<Rightarrow> vm \<Rightarrow> addr \<Rightarrow> u32 \<Rightarrow> vm res" where
  "rstr_loop 0 C v str len = Inl NoFuel"
| "rstr_loop (Suc f) C v str len =
     rbind (starts C v str len) (\<lambda>b.
       if b then rstr_loop f C (CONSUME_N v (uint len)) str len else Inr v)"

definition op_RStr :: "constants \<Rightarrow> vm \<Rightarrow> vm res" where
  "op_RStr C v =
     rbind (read_STRING_t C v) (\<lambda>(str, len, v). rstr_loop (length (vmem C) + 1) C v str len)"

text \<open>\<open>while (bitset_get(set, *GET_CURRENT())) CONSUME();\<close>\<close>

fun rset_loop :: "nat \<Rightarrow> constants \<Rightarrow> vm \<Rightarrow> bitset_t \<Rightarrow> vm res" where
  "rset_loop 0 C v bs = Inl NoFuel"
| "rset_loop (Suc f) C v bs =
     rbind (in_set C v bs) (\<lambda>b. if b then rset_loop f C (CONSUME v) bs else Inr v)"

definition op_RSet :: "constants \<Rightarrow> vm \<Rightarrow> vm res" where
  "op_RSet C v = rbind (read_BITSET_t C v) (\<lambda>(bs, v). rset_loop (length (vmem C) + 1) C v bs)"

definition op_Consume :: "constants \<Rightarrow> vm \<Rightarrow> vm res" where
  "op_Consume C v = rbind (read_int8_t C v) (\<lambda>(d, v). Inr (CONSUME_N v d))"

definition op_First :: "constants \<Rightarrow> vm \<Rightarrow> vm res" where
  "op_First C v =
     rbind (read_uint16_t C v) (\<lambda>(tblId, v). rbind (current C v) (\<lambda>c.
     rbind (aread (jumps C) (256 * unat tblId + char_unsigned c)) (\<lambda>jump. JUMP C v jump)))"

text \<open>The table points of the memo instructions; \<open>MOZVM_USE_DYNAMIC_DEACTIVATION\<close> is off.\<close>

definition op_Lookup :: "constants \<Rightarrow> vm \<Rightarrow> vm res" where
  "op_Lookup C v =
     rbind (read_uint8_t C v) (\<lambda>(state, v). rbind (read_uint16_t C v) (\<lambda>(memoId, v).
     rbind (read_mozaddr_t C v) (\<lambda>(skip, v).
     rbind (memo_get (vmemo v) (cur v) (ucast memoId) state) (\<lambda>entry.
       case entry of
         None \<Rightarrow> Inr v
       | Some e \<Rightarrow>
           if mresult e = MEMO_ENTRY_FAILED then FAIL_IMPL v
           else JUMP C (CONSUME_N v (uint (consumed e))) skip))))"

text \<open>The length is a \<open>long\<close>, passed as an \<open>unsigned\<close>.\<close>

definition memo_length :: "addr \<Rightarrow> addr \<Rightarrow> u32" where
  "memo_length from to = word_of_int (int to - int from)"

definition op_Memo :: "constants \<Rightarrow> vm \<Rightarrow> vm res" where
  "op_Memo C v =
     rbind (read_uint8_t C v) (\<lambda>(state, v). rbind (read_uint16_t C v) (\<lambda>(memoId, v).
     rbind (POP_FRAME v) (\<lambda>((pos, jump, ast_tx, saved), v).
     rbind (memo_set (vmemo v) (vheap v) pos (ucast memoId) 0 (memo_length pos (cur v)) (uint state)) (\<lambda>(m, h).
       Inr (v\<lparr>vmemo := m, vheap := h\<rparr>)))))"

definition op_MemoFail :: "constants \<Rightarrow> vm \<Rightarrow> vm res" where
  "op_MemoFail C v =
     rbind (read_uint8_t C v) (\<lambda>(state, v). rbind (read_uint16_t C v) (\<lambda>(memoId, v).
     rbind (memo_fail (vmemo v) (vheap v) (cur v) (ucast memoId)) (\<lambda>(m, h).
       FAIL_IMPL (v\<lparr>vmemo := m, vheap := h\<rparr>))))"

definition on_ast :: "vm \<Rightarrow> AstMachine res \<Rightarrow> vm res" where
  "on_ast v r = rbind r (\<lambda>ast. Inr (v\<lparr>vast := ast\<rparr>))"

definition op_TPush :: "vm \<Rightarrow> vm res" where
  "op_TPush v = on_ast v (ast_log_push (vast v))"

definition op_TPop :: "constants \<Rightarrow> vm \<Rightarrow> vm res" where
  "op_TPop C v = rbind (read_uint16_t C v) (\<lambda>(tagId, v). on_ast v (ast_log_pop (vast v) tagId))"

text \<open>\<open>GET_POS() + shift\<close>\<close>

definition shifted :: "vm \<Rightarrow> int \<Rightarrow> addr" where
  "shifted v d = nat (int (cur v) + d)"

definition op_TLeftFold :: "constants \<Rightarrow> vm \<Rightarrow> vm res" where
  "op_TLeftFold C v =
     rbind (read_int8_t C v) (\<lambda>(d, v). rbind (read_uint16_t C v) (\<lambda>(tagId, v).
       on_ast v (ast_log_swap (vast v) (shifted v d) tagId)))"

definition op_TNew :: "constants \<Rightarrow> vm \<Rightarrow> vm res" where
  "op_TNew C v = rbind (read_int8_t C v) (\<lambda>(d, v). on_ast v (ast_log_new (vast v) (shifted v d)))"

definition op_TCapture :: "constants \<Rightarrow> vm \<Rightarrow> vm res" where
  "op_TCapture C v = rbind (read_int8_t C v) (\<lambda>(d, v). on_ast v (ast_log_capture (vast v) (shifted v d)))"

definition op_TTag :: "constants \<Rightarrow> vm \<Rightarrow> vm res" where
  "op_TTag C v =
     rbind (read_uint16_t C v) (\<lambda>(tagId, v). rbind (aread (tags C) (unat tagId)) (\<lambda>tag.
       on_ast v (ast_log_tag (vast v) tag)))"

definition op_TReplace :: "constants \<Rightarrow> vm \<Rightarrow> vm res" where
  "op_TReplace C v =
     rbind (read_uint16_t C v) (\<lambda>(strId, v). rbind (aread (strs C) (unat strId)) (\<lambda>str.
       on_ast v (ast_log_replace (vast v) str)))"

definition op_TStart :: "vm \<Rightarrow> vm res" where
  "op_TStart v = PUSH v (SNum (ast_save_tx (vast v)))"

definition op_TCommit :: "constants \<Rightarrow> vm \<Rightarrow> vm res" where
  "op_TCommit C v =
     rbind (read_uint16_t C v) (\<lambda>(tagId, v).
     rbind (POP v) (\<lambda>(x, v). rbind (as_num x) (\<lambda>tx.
     rbind (ast_commit_tx (vast v) (vheap v) tagId tx) (\<lambda>(ast, h).
       Inr (v\<lparr>vast := ast, vheap := h\<rparr>)))))"

definition op_TAbort :: "vm \<Rightarrow> vm res" where
  "op_TAbort v = Inl Int3"

definition op_TLookup :: "constants \<Rightarrow> vm \<Rightarrow> vm res" where
  "op_TLookup C v =
     rbind (read_uint8_t C v) (\<lambda>(state, v). rbind (read_uint16_t C v) (\<lambda>(tagId, v).
     rbind (read_uint16_t C v) (\<lambda>(memoId, v). rbind (read_mozaddr_t C v) (\<lambda>(skip, v).
     rbind (memo_get (vmemo v) (cur v) (ucast memoId) state) (\<lambda>entry.
       case entry of
         None \<Rightarrow> Inr v
       | Some e \<Rightarrow>
           if mresult e = MEMO_ENTRY_FAILED then FAIL_IMPL v
           else
             let v = CONSUME_N v (uint (consumed e))
             in rbind (ast_log_link (vast v) (vheap v) tagId (mresult e)) (\<lambda>(ast, h).
                  JUMP C (v\<lparr>vast := ast, vheap := h\<rparr>) skip))))))"

definition op_TMemo :: "constants \<Rightarrow> vm \<Rightarrow> vm res" where
  "op_TMemo C v =
     rbind (read_uint8_t C v) (\<lambda>(state, v). rbind (read_uint16_t C v) (\<lambda>(memoId, v).
     rbind (POP_FRAME v) (\<lambda>((pos, jump, ast_tx, saved), v).
     rbind (memo_set (vmemo v) (vheap v) pos (ucast memoId) (ast_get_last_linked_node (vast v))
         (memo_length pos (cur v)) (uint state)) (\<lambda>(m, h).
       Inr (v\<lparr>vmemo := m, vheap := h\<rparr>)))))"

definition op_SOpen :: "vm \<Rightarrow> vm res" where
  "op_SOpen v = PUSH v (SNum (symtable_savepoint (vtable v)))"

definition op_SClose :: "vm \<Rightarrow> vm res" where
  "op_SClose v =
     rbind (POP v) (\<lambda>(x, v). rbind (as_num x) (\<lambda>saved. Inr (v\<lparr>vtable := symtable_rollback (vtable v) saved\<rparr>)))"

definition read_table :: "constants \<Rightarrow> vm \<Rightarrow> (addr \<times> vm) res" where
  "read_table C v =
     rbind (read_uint16_t C v) (\<lambda>(tagId, v). rbind (aread (tables C) (unat tagId)) (\<lambda>name. Inr (name, v)))"

definition op_SMask :: "constants \<Rightarrow> vm \<Rightarrow> vm res" where
  "op_SMask C v =
     rbind (read_table C v) (\<lambda>(tableName, v).
     rbind (PUSH v (SNum (symtable_savepoint (vtable v)))) (\<lambda>v.
     rbind (symtable_add_symbol_mask (stale C) (vtable v) tableName) (\<lambda>t. Inr (v\<lparr>vtable := t\<rparr>))))"

text \<open>\<open>token_init(&captured, (const char * )POP(), GET_CURRENT())\<close>\<close>

definition pop_token :: "vm \<Rightarrow> (token_t \<times> vm) res" where
  "pop_token v = rbind (POP v) (\<lambda>(x, v). rbind (as_pos x) (\<lambda>p. Inr (token_init p (cur v), v)))"

definition op_SDef :: "constants \<Rightarrow> vm \<Rightarrow> vm res" where
  "op_SDef C v =
     rbind (read_table C v) (\<lambda>(tableName, v). rbind (pop_token v) (\<lambda>(captured, v).
     rbind (symtable_add_symbol (vmem C) (stale C) (vtable v) tableName captured) (\<lambda>t. Inr (v\<lparr>vtable := t\<rparr>))))"

definition op_SIsDef :: "constants \<Rightarrow> vm \<Rightarrow> vm res" where
  "op_SIsDef C v =
     rbind (read_table C v) (\<lambda>(tableName, v). rbind (read_STRING_t C v) (\<lambda>(symbol, len, v).
     rbind (symtable_contains (vmem C) (vtable v) tableName \<lparr>ts = symbol, tlen = unat len\<rparr>) (\<lambda>b.
       if \<not> b then FAIL_IMPL v else Inr v)))"

definition op_SExists :: "constants \<Rightarrow> vm \<Rightarrow> vm res" where
  "op_SExists C v =
     rbind (read_table C v) (\<lambda>(tableName, v). rbind (symtable_has_symbol (vtable v) tableName) (\<lambda>b.
       if \<not> b then FAIL_IMPL v else Inr v))"

definition op_SMatch :: "constants \<Rightarrow> vm \<Rightarrow> vm res" where
  "op_SMatch C v =
     rbind (read_table C v) (\<lambda>(tableName, v).
     rbind (symtable_get_symbol (vtable v) tableName (stale C)) (\<lambda>(found, t).
       if found then
         rbind (token_equal_string (vmem C) t (cur v)) (\<lambda>b.
           if b then Inr (CONSUME_N v (int (token_length t))) else FAIL_IMPL v)
       else FAIL_IMPL v))"

definition op_SIs :: "constants \<Rightarrow> vm \<Rightarrow> vm res" where
  "op_SIs C v =
     rbind (read_table C v) (\<lambda>(tableName, v).
     rbind (symtable_get_symbol (vtable v) tableName (stale C)) (\<lambda>(found, t).
       if found then
         rbind (pop_token v) (\<lambda>(captured, v). rbind (token_equal (vmem C) t captured) (\<lambda>b.
           if b then Inr v else FAIL_IMPL v))
       else FAIL_IMPL v))"

definition op_SIsa :: "constants \<Rightarrow> vm \<Rightarrow> vm res" where
  "op_SIsa C v =
     rbind (read_table C v) (\<lambda>(tableName, v). rbind (pop_token v) (\<lambda>(captured, v).
     rbind (symtable_contains (vmem C) (vtable v) tableName captured) (\<lambda>b.
       if \<not> b then FAIL_IMPL v else Inr v)))"

definition op_SDefNum :: "vm \<Rightarrow> vm res" where
  "op_SDefNum v = Inl Int3"

definition op_SCount :: "vm \<Rightarrow> vm res" where
  "op_SCount v = Inl Int3"

text \<open>The parameter of \<open>jump_table1_jump\<close> is an \<open>unsigned char\<close>.\<close>

definition op_TblJump1 :: "constants \<Rightarrow> vm \<Rightarrow> vm res" where
  "op_TblJump1 C v =
     rbind (read_uint16_t C v) (\<lambda>(tblId, v). rbind (aread (jumps1 C) (unat tblId)) (\<lambda>tbl.
     rbind (current C v) (\<lambda>c. rbind (jump_table1_jump tbl c) (\<lambda>jump. JUMP C v jump))))"

definition op_TblJump2 :: "constants \<Rightarrow> vm \<Rightarrow> vm res" where
  "op_TblJump2 C v =
     rbind (read_uint16_t C v) (\<lambda>(tblId, v). rbind (aread (jumps2 C) (unat tblId)) (\<lambda>tbl.
     rbind (current C v) (\<lambda>c. rbind (jump_table2_jump tbl c) (\<lambda>jump. JUMP C v jump))))"

definition op_TblJump3 :: "constants \<Rightarrow> vm \<Rightarrow> vm res" where
  "op_TblJump3 C v =
     rbind (read_uint16_t C v) (\<lambda>(tblId, v). rbind (aread (jumps3 C) (unat tblId)) (\<lambda>tbl.
     rbind (current C v) (\<lambda>c. rbind (jump_table3_jump tbl c) (\<lambda>jump. JUMP C v jump))))"

definition op_Label :: "vm \<Rightarrow> vm res" where
  "op_Label v = Inr v"

section \<open>Dispatch\<close>

datatype outcome =
    Running vm
  | Exited int vm

definition op_Exit :: "constants \<Rightarrow> vm \<Rightarrow> outcome res" where
  "op_Exit C v = rbind (read_int8_t C v) (\<lambda>(status, v). Inr (Exited status v))"

definition NEXT :: "vm res \<Rightarrow> outcome res" where
  "NEXT r = rbind r (\<lambda>v. Inr (Running v))"

primrec exec :: "constants \<Rightarrow> MozOpcode \<Rightarrow> vm \<Rightarrow> outcome res" where
  "exec C O_Nop v = NEXT (op_Nop v)" | "exec C O_Fail v = NEXT (op_Fail v)" | "exec C O_Alt v = NEXT (op_Alt C v)"
| "exec C O_Succ v = NEXT (op_Succ v)" | "exec C O_Jump v = NEXT (op_Jump C v)" | "exec C O_Call v = NEXT (op_Call C v)"
| "exec C O_Ret v = NEXT (op_Ret C v)" | "exec C O_Pos v = NEXT (op_Pos v)" | "exec C O_Back v = NEXT (op_Back v)"
| "exec C O_Skip v = NEXT (op_Skip v)" | "exec C O_Byte v = NEXT (op_Byte C v)" | "exec C O_Any v = NEXT (op_Any v)"
| "exec C O_Str v = NEXT (op_Str C v)" | "exec C O_Set v = NEXT (op_Set C v)" | "exec C O_NByte v = NEXT (op_NByte C v)"
| "exec C O_NAny v = NEXT (op_NAny v)" | "exec C O_NStr v = NEXT (op_NStr C v)" | "exec C O_NSet v = NEXT (op_NSet C v)"
| "exec C O_OByte v = NEXT (op_OByte C v)" | "exec C O_OAny v = NEXT (op_OAny v)" | "exec C O_OStr v = NEXT (op_OStr C v)"
| "exec C O_OSet v = NEXT (op_OSet C v)" | "exec C O_RByte v = NEXT (op_RByte C v)" | "exec C O_RAny v = NEXT (op_RAny v)"
| "exec C O_RStr v = NEXT (op_RStr C v)" | "exec C O_RSet v = NEXT (op_RSet C v)" | "exec C O_Consume v = NEXT (op_Consume C v)"
| "exec C O_First v = NEXT (op_First C v)" | "exec C O_Lookup v = NEXT (op_Lookup C v)" | "exec C O_Memo v = NEXT (op_Memo C v)"
| "exec C O_MemoFail v = NEXT (op_MemoFail C v)" | "exec C O_TPush v = NEXT (op_TPush v)" | "exec C O_TPop v = NEXT (op_TPop C v)"
| "exec C O_TLeftFold v = NEXT (op_TLeftFold C v)" | "exec C O_TNew v = NEXT (op_TNew C v)" | "exec C O_TCapture v = NEXT (op_TCapture C v)"
| "exec C O_TTag v = NEXT (op_TTag C v)" | "exec C O_TReplace v = NEXT (op_TReplace C v)" | "exec C O_TStart v = NEXT (op_TStart v)"
| "exec C O_TCommit v = NEXT (op_TCommit C v)" | "exec C O_TAbort v = NEXT (op_TAbort v)" | "exec C O_TLookup v = NEXT (op_TLookup C v)"
| "exec C O_TMemo v = NEXT (op_TMemo C v)" | "exec C O_SOpen v = NEXT (op_SOpen v)" | "exec C O_SClose v = NEXT (op_SClose v)"
| "exec C O_SMask v = NEXT (op_SMask C v)" | "exec C O_SDef v = NEXT (op_SDef C v)" | "exec C O_SIsDef v = NEXT (op_SIsDef C v)"
| "exec C O_SExists v = NEXT (op_SExists C v)" | "exec C O_SMatch v = NEXT (op_SMatch C v)" | "exec C O_SIs v = NEXT (op_SIs C v)"
| "exec C O_SIsa v = NEXT (op_SIsa C v)" | "exec C O_SDefNum v = NEXT (op_SDefNum v)" | "exec C O_SCount v = NEXT (op_SCount v)"
| "exec C O_TblJump1 v = NEXT (op_TblJump1 C v)" | "exec C O_TblJump2 v = NEXT (op_TblJump2 C v)" | "exec C O_TblJump3 v = NEXT (op_TblJump3 C v)"
| "exec C O_Label v = NEXT (op_Label v)" | "exec C O_Exit v = op_Exit C v"

text \<open>\<open>goto *__table[*PC++]\<close>\<close>

definition vm_step :: "constants \<Rightarrow> vm \<Rightarrow> outcome res" where
  "vm_step C v =
     rbind (read_uint8_t C v) (\<lambda>(b, v).
     rbind (rguard BadOpcode (unat b < length OP_EACH)) (\<lambda>_. exec C (OP_EACH ! unat b) v))"

text \<open>The dispatch loop with a step budget; the value is the status of \<open>Exit\<close>.\<close>

fun vm_run :: "nat \<Rightarrow> constants \<Rightarrow> vm \<Rightarrow> (int \<times> vm) res" where
  "vm_run 0 C v = Inl NoFuel"
| "vm_run (Suc f) C v =
     rbind (vm_step C v) (\<lambda>r. case r of Running v \<Rightarrow> vm_run f C v | Exited s v \<Rightarrow> Inr (s, v))"

definition moz_runtime_set_source :: "vm \<Rightarrow> addr \<Rightarrow> addr \<Rightarrow> vm" where
  "moz_runtime_set_source v str end_pos =
     v\<lparr>hd_pos := str, tl_pos := end_pos, vast := AstMachine_setSource (vast v) str\<rparr>"

definition moz_runtime_parse_init :: "constants \<Rightarrow> vm \<Rightarrow> addr \<Rightarrow> nat \<Rightarrow> vm res" where
  "moz_runtime_parse_init C v str entry =
     (let v = v\<lparr>vfp := vsp v\<rparr>
      in rbind (PUSH_FRAME v str (base_pc C + 2) (ast_save_tx (vast v)) (symtable_savepoint (vtable v))) (\<lambda>v.
         rbind (PUSH v (SCode (base_pc C))) (\<lambda>v. Inr (v\<lparr>pc := entry\<rparr>))))"

definition moz_runtime_parse :: "nat \<Rightarrow> constants \<Rightarrow> vm \<Rightarrow> addr \<Rightarrow> nat \<Rightarrow> (int \<times> vm) res" where
  "moz_runtime_parse f C v str entry = vm_run f C (v\<lparr>cur := str, pc := entry\<rparr>)"

end
