(* ===== verification/VM1_Run.thy ===== *)
theory VM1_Run
  imports VM1
begin

text \<open>
  Running the machine: code at an address, what a step does when an instruction is there, what a
  failure does to the choice point at the frame pointer, and runs of several steps.
\<close>

section \<open>Code\<close>

definition code_at :: "constants \<Rightarrow> nat \<Rightarrow> u8 list \<Rightarrow> bool" where
  "code_at C a bs \<longleftrightarrow> a + length bs \<le> length (code C) \<and> (\<forall>i < length bs. code C ! (a + i) = bs ! i)"

lemma code_at_Nil [simp]: "code_at C a [] \<longleftrightarrow> a \<le> length (code C)"
  by (simp add: code_at_def)

lemma code_at_Cons [simp]:
  "code_at C a (b # bs) \<longleftrightarrow> a < length (code C) \<and> code C ! a = b \<and> code_at C (Suc a) bs"
  by (auto simp: code_at_def nth_Cons all_conj_distrib less_Suc_eq_0_disj split: nat.splits)

lemma code_at_append [simp]: "code_at C a (xs @ ys) \<longleftrightarrow> code_at C a xs \<and> code_at C (a + length xs) ys"
proof (induction xs arbitrary: a)
  case Nil
  then show ?case by (auto simp: code_at_def)
qed simp

lemma fetch_code [simp]: "a < length (code C) \<Longrightarrow> fetch C a = Inr (code C ! a)"
  by (simp add: fetch_def base_pc_def aread_def)

lemma fetch_base: "i < 4 \<Longrightarrow> fetch C (base_pc C + i) = Inr (bytecode_base ! i)"
  by (simp add: fetch_def bytecode_base_def aread_def)

definition enc16 :: "u16 \<Rightarrow> u8 list" where
  "enc16 w = [ucast w, ucast (drop_bit 8 w)]"

definition enc32 :: "int \<Rightarrow> u8 list" where
  "enc32 n = store32 (word_of_int n)"

lemma length_enc [simp]: "length (enc16 w) = 2" "length (enc32 n) = 4"
  by (simp_all add: enc16_def enc32_def store32_def)

lemma join_bytes16: "ucast (ucast w :: u8) OR push_bit 8 (ucast (ucast (drop_bit 8 w) :: u8)) = (w :: u16)" (is "?w = w")
proof (rule bit_word_eqI)
  fix n assume "n < LENGTH(16)"
  then show "bit ?w n = bit w n" by (cases "n < 8") (auto simp: bit_simps)
qed

lemma read_uint8 [simp]:
  "pc v < length (code C) \<Longrightarrow> read_uint8_t C v = Inr (code C ! pc v, v\<lparr>pc := Suc (pc v)\<rparr>)"
  by (simp add: read_uint8_t_def)

lemma read_int8 [simp]:
  "pc v < length (code C) \<Longrightarrow> read_int8_t C v = Inr (sint (code C ! pc v), v\<lparr>pc := Suc (pc v)\<rparr>)"
  by (simp add: read_int8_t_def)

lemma read_uint16: "code_at C (pc v) (enc16 w) \<Longrightarrow> read_uint16_t C v = Inr (w, v\<lparr>pc := pc v + 2\<rparr>)"
  by (simp add: read_uint16_t_def enc16_def join_bytes16)

lemma read_mozaddr:
  assumes "code_at C (pc v) (enc32 n)" "- (2 ^ 31) \<le> n" "n < 2 ^ 31"
  shows "read_mozaddr_t C v = Inr (n, v\<lparr>pc := pc v + 4\<rparr>)"
proof -
  have "sint (word_of_int n :: u32) = n"
    using assms(2,3) by (simp add: signed_of_int signed_take_bit_int_eq_self)
  then show ?thesis
    using assms(1) join_bytes32 [of "word_of_int n"]
    by (simp add: read_mozaddr_t_def enc32_def store32_def)
qed

lemma jump_ok:
  "pc v \<le> length (code C) \<Longrightarrow> int (pc v) + n = int t \<Longrightarrow> t \<le> length (code C) \<Longrightarrow> JUMP C v n = Inr (v\<lparr>pc := t\<rparr>)"
  by (simp add: JUMP_def code_ptr_def Let_def)

lemma code_ptr_ok:
  "pc v \<le> length (code C) \<Longrightarrow> int (pc v) + n = int t \<Longrightarrow> t \<le> length (code C) \<Longrightarrow> code_ptr C v n = Inr t"
  by (simp add: code_ptr_def Let_def)

section \<open>Steps\<close>

lemma step_code:
  assumes "pc v < length (code C)" "unat (code C ! pc v) < 59"
  shows "vm_step C v = exec C (OP_EACH ! unat (code C ! pc v)) (v\<lparr>pc := Suc (pc v)\<rparr>)"
  using assms by (simp add: vm_step_def OP_EACH_def)

definition steps :: "constants \<Rightarrow> vm \<Rightarrow> vm \<Rightarrow> bool" where
  "steps C = (\<lambda>v w. vm_step C v = Inr (Running w))\<^sup>*\<^sup>*"

lemma steps_refl [simp]: "steps C v v"
  by (simp add: steps_def)

lemma steps_trans [trans]: "steps C v w \<Longrightarrow> steps C w u \<Longrightarrow> steps C v u"
  by (simp add: steps_def)

lemma steps_step: "vm_step C v = Inr (Running w) \<Longrightarrow> steps C w u \<Longrightarrow> steps C v u"
  unfolding steps_def by (rule converse_rtranclp_into_rtranclp)

lemma steps_one: "vm_step C v = Inr (Running w) \<Longrightarrow> steps C v w"
  unfolding steps_def by (rule r_into_rtranclp)

lemma steps_run:
  assumes "steps C v w"
  shows "\<exists>n. \<forall>f. vm_run (n + f) C v = vm_run f C w"
  using assms unfolding steps_def
proof (induction rule: converse_rtranclp_induct)
  case base
  show ?case by (rule exI [of _ 0]) simp
next
  case (step v u)
  then obtain n where "\<forall>f. vm_run (n + f) C u = vm_run f C w" by blast
  with step(1) show ?case by (intro exI [of _ "Suc n"]) simp
qed

section \<open>The stack\<close>

lemma PUSH_ok: "vsp v < length (stack v) \<Longrightarrow> PUSH v x = Inr (v\<lparr>stack := (stack v)[vsp v := x], vsp := Suc (vsp v)\<rparr>)"
  by (simp add: PUSH_def awrite_def)

lemma POP_ok: "0 < vsp v \<Longrightarrow> vsp v \<le> length (stack v) \<Longrightarrow> POP v = Inr (stack v ! (vsp v - 1), v\<lparr>vsp := vsp v - 1\<rparr>)"
  by (simp add: POP_def aread_def)

text \<open>A choice point at the frame pointer.\<close>

definition frame :: "vm \<Rightarrow> nat \<Rightarrow> addr \<Rightarrow> nat \<Rightarrow> nat \<Rightarrow> nat \<Rightarrow> bool" where
  "frame v f p l tx sy \<longleftrightarrow> vfp v + 5 \<le> length (stack v) \<and>
     take 5 (drop (vfp v) (stack v)) = [SFrame f, SPos p, SCode l, SNum tx, SNum sy]"

lemma frame_slots:
  assumes "frame v f p l tx sy"
  shows "stack v ! vfp v = SFrame f" "stack v ! (vfp v + 1) = SPos p" "stack v ! (vfp v + 2) = SCode l"
    "stack v ! (vfp v + 3) = SNum tx" "stack v ! (vfp v + 4) = SNum sy" "vfp v + 5 \<le> length (stack v)"
proof -
  have len: "vfp v + 5 \<le> length (stack v)" using assms by (simp add: frame_def)
  have nth: "stack v ! (vfp v + i) = [SFrame f, SPos p, SCode l, SNum tx, SNum sy] ! i" if "i < 5" for i
  proof -
    have "stack v ! (vfp v + i) = take 5 (drop (vfp v) (stack v)) ! i" using len that by simp
    then show ?thesis using assms by (simp only: frame_def)
  qed
  show "stack v ! vfp v = SFrame f" "stack v ! (vfp v + 1) = SPos p" "stack v ! (vfp v + 2) = SCode l"
    "stack v ! (vfp v + 3) = SNum tx" "stack v ! (vfp v + 4) = SNum sy"
    using nth [of 0] nth [of 1] nth [of 2] nth [of 3] nth [of 4] by (simp_all add: numeral_eq_Suc)
  show "vfp v + 5 \<le> length (stack v)" by (rule len)
qed

lemma PUSH_FRAME_ok:
  assumes "vsp v + 5 \<le> length (stack v)"
  shows "\<exists>w. PUSH_FRAME v p l tx sy = Inr w \<and> frame w (vfp v) p l tx sy \<and> vsp w = vsp v + 5 \<and> vfp w = vsp v \<and>
     length (stack w) = length (stack v) \<and> take (vsp v) (stack w) = take (vsp v) (stack v) \<and>
     w = v\<lparr>stack := stack w, vfp := vsp v, vsp := vsp v + 5\<rparr>"
proof -
  let ?s = "(stack v)[vsp v := SFrame (vfp v), vsp v + 1 := SPos p, vsp v + 2 := SCode l, vsp v + 3 := SNum tx, vsp v + 4 := SNum sy]"
  obtain xs ys where s: "stack v = xs @ ys" "length xs = vsp v" "5 \<le> length ys"
    using assms by (metis append_take_drop_id length_take length_drop add_leD1 min.absorb2 le_diff_conv2 add.commute)
  then obtain y0 y1 y2 y3 y4 zs where y: "ys = y0 # y1 # y2 # y3 # y4 # zs"
    by (auto simp: numeral_eq_Suc Suc_le_length_iff)
  have st: "?s = xs @ [SFrame (vfp v), SPos p, SCode l, SNum tx, SNum sy] @ zs"
    using s y by (simp add: list_update_append numeral_eq_Suc flip: s(2))
  show ?thesis
    using s y st assms
    by (intro exI [of _ "v\<lparr>stack := ?s, vfp := vsp v, vsp := vsp v + 5\<rparr>"])
      (simp add: PUSH_FRAME_def awrite_def FP_MAX_def frame_def)
qed

lemma DROP_FRAME_ok: "frame v f p l tx sy \<Longrightarrow> DROP_FRAME v = Inr (v\<lparr>vsp := vfp v, vfp := f\<rparr>)"
  using frame_slots [of v f p l tx sy] by (simp add: DROP_FRAME_def aread_def)

lemma POP_FRAME_ok: "frame v f p l tx sy \<Longrightarrow> POP_FRAME v = Inr ((p, l, tx, sy), v\<lparr>vsp := vfp v, vfp := f\<rparr>)"
  using frame_slots [of v f p l tx sy] DROP_FRAME_ok [of v f p l tx sy] by (simp add: POP_FRAME_def aread_def)

lemma FAIL_ok:
  assumes "frame v f p l tx sy" "p \<le> cur v" "ast_rollback_tx (vast v) (vheap v) tx = Inr (a, h)"
  shows "\<exists>x. FAIL_IMPL v = Inr (v\<lparr>vsp := vfp v, vfp := f, hd_pos := x, cur := p, vast := a, vheap := h,
      vtable := symtable_rollback (vtable v) sy, pc := l\<rparr>)"
proof (cases "p < cur v")
  case True
  then show ?thesis using POP_FRAME_ok [OF assms(1)] assms(3)
    by (intro exI [of _ "if hd_pos v < cur v then cur v else hd_pos v"]) (simp add: FAIL_IMPL_def Let_def)
next
  case False
  with assms(2) have "cur v = p" by simp
  with False show ?thesis using POP_FRAME_ok [OF assms(1)] assms(3)
    by (intro exI [of _ "hd_pos v"]) (simp add: FAIL_IMPL_def Let_def)
qed

end
