(* ===== verification/VM1_Peg.thy ===== *)
theory VM1_Peg
  imports VM1_Run
begin

text \<open>
  Parsing expressions on the interpreter. \<open>parse\<close> is the meaning of a parsing expression with
  ordered choice, repetition, predicates, tree construction and symbol tables; \<open>emit\<close> is the
  code the instructions of \<open>instruction.def\<close> are made for. The main theorem says that the machine
  runs the code of a grammar as the meaning says, as long as its stack of fixed size suffices.
\<close>

section \<open>Parsing expressions\<close>

datatype action = ANew u8 | ACapture u8 | ATag u16 | AReplace u16 | APush | APop u16 | AFold u8 u16

datatype symop = CDef u16 | CIs u16 | CIsa u16

datatype peg =
    PEmpty | PByte u8 | PAny | PStr u16 | PSet u16
  | PSeq peg peg | PChoice peg peg | POption peg | PStar peg | PAnd peg | PNot peg | PCall nat
  | PAct action | PLink u16 peg
  | PBlock peg | PLocal u16 peg | PSym symop peg | PExists u16 | PMatch u16

record pst =
  pcur :: addr
  past :: AstMachine
  pheap :: node_heap
  ptab :: symtable_t

datatype pres = POk pst | PFail pst

definition adv :: "pst \<Rightarrow> nat \<Rightarrow> pst" where
  "adv s n = s\<lparr>pcur := pcur s + n\<rparr>"

definition at_shift :: "pst \<Rightarrow> u8 \<Rightarrow> addr" where
  "at_shift s d = nat (int (pcur s) + sint d)"

fun act :: "constants \<Rightarrow> action \<Rightarrow> pst \<Rightarrow> AstMachine res" where
  "act C (ANew d) s = ast_log_new (past s) (at_shift s d)"
| "act C (ACapture d) s = ast_log_capture (past s) (at_shift s d)"
| "act C (ATag t) s = rbind (aread (tags C) (unat t)) (ast_log_tag (past s))"
| "act C (AReplace i) s = rbind (aread (strs C) (unat i)) (ast_log_replace (past s))"
| "act C APush s = ast_log_push (past s)"
| "act C (APop l) s = ast_log_pop (past s) l"
| "act C (AFold d l) s = ast_log_swap (past s) (at_shift s d) l"

text \<open>What is done with the text captured from position \<open>p\<close> on.\<close>

fun cap :: "constants \<Rightarrow> symop \<Rightarrow> addr \<Rightarrow> pst \<Rightarrow> (bool \<times> symtable_t) res" where
  "cap C (CDef t) p s = rbind (aread (tables C) (unat t)) (\<lambda>n.
     rbind (symtable_add_symbol (vmem C) (stale C) (ptab s) n (token_init p (pcur s))) (\<lambda>tb. Inr (True, tb)))"
| "cap C (CIs t) p s = rbind (aread (tables C) (unat t)) (\<lambda>n.
     rbind (symtable_get_symbol (ptab s) n (stale C)) (\<lambda>(found, tk).
       if found then rbind (token_equal (vmem C) tk (token_init p (pcur s))) (\<lambda>b. Inr (b, ptab s))
       else Inr (False, ptab s)))"
| "cap C (CIsa t) p s = rbind (aread (tables C) (unat t)) (\<lambda>n.
     rbind (symtable_contains (vmem C) (ptab s) n (token_init p (pcur s))) (\<lambda>b. Inr (b, ptab s)))"

definition sym_match :: "constants \<Rightarrow> u16 \<Rightarrow> pst \<Rightarrow> nat option res" where
  "sym_match C t s = rbind (aread (tables C) (unat t)) (\<lambda>n.
     rbind (symtable_get_symbol (ptab s) n (stale C)) (\<lambda>(found, tk).
       if found then rbind (token_equal_string (vmem C) tk (pcur s)) (\<lambda>b.
         Inr (if b then Some (token_length tk) else None))
       else Inr None))"

text \<open>The state a choice at \<open>s\<close> continues with after a failure in state \<open>s1\<close>.\<close>

definition restores :: "pst \<Rightarrow> pst \<Rightarrow> pst \<Rightarrow> bool" where
  "restores s s1 s2 \<longleftrightarrow> pcur s2 = pcur s \<and>
     ast_rollback_tx (past s1) (pheap s1) (ast_save_tx (past s)) = Inr (past s2, pheap s2) \<and>
     ptab s2 = symtable_rollback (ptab s1) (symtable_savepoint (ptab s))"

text \<open>
  \<open>parse C te G k e s r\<close>: with \<open>k\<close> words of stack left, expression \<open>e\<close> of grammar \<open>G\<close> takes
  state \<open>s\<close> to result \<open>r\<close>, \<open>te\<close> being the end of the input. \<open>loop\<close> is a repetition that has
  already set its choice point; it always succeeds.
\<close>

inductive parse :: "constants \<Rightarrow> addr \<Rightarrow> peg list \<Rightarrow> nat \<Rightarrow> peg \<Rightarrow> pst \<Rightarrow> pres \<Rightarrow> bool"
  and loop :: "constants \<Rightarrow> addr \<Rightarrow> peg list \<Rightarrow> nat \<Rightarrow> peg \<Rightarrow> pst \<Rightarrow> pst \<Rightarrow> bool"
  for C :: constants and te :: addr and G :: "peg list" where
  Empty: "parse C te G k PEmpty s (POk s)"
| Byte: "mread (vmem C) (pcur s) = Inr d \<Longrightarrow>
    parse C te G k (PByte c) s (if d = c then POk (adv s 1) else PFail s)"
| Any: "parse C te G k PAny s (if pcur s = te then PFail s else POk (adv s 1))"
| Str_ok: "aread (strs C) (unat i) = Inr p \<Longrightarrow> pstring_at (vmem C) p t \<Longrightarrow> valid (vmem C) (pcur s) (length t) \<Longrightarrow>
    bytes (vmem C) (pcur s) (length t) = t \<Longrightarrow> parse C te G k (PStr i) s (POk (adv s (length t)))"
| Str_no: "aread (strs C) (unat i) = Inr p \<Longrightarrow> pstring_at (vmem C) p t \<Longrightarrow> n \<le> length t \<Longrightarrow> valid (vmem C) (pcur s) n \<Longrightarrow>
    bytes (vmem C) (pcur s) n \<noteq> take n t \<Longrightarrow> parse C te G k (PStr i) s (PFail s)"
| Set: "aread (sets C) (unat i) = Inr b \<Longrightarrow> bitset_wf b \<Longrightarrow> mread (vmem C) (pcur s) = Inr d \<Longrightarrow> unat d < 128 \<Longrightarrow>
    parse C te G k (PSet i) s (if unat d \<in> elems b then POk (adv s 1) else PFail s)"
| Seq_ok: "parse C te G k e1 s (POk s1) \<Longrightarrow> parse C te G k e2 s1 r \<Longrightarrow> parse C te G k (PSeq e1 e2) s r"
| Seq_no: "parse C te G k e1 s (PFail s1) \<Longrightarrow> parse C te G k (PSeq e1 e2) s (PFail s1)"
| Choice_ok: "parse C te G k e1 s (POk s1) \<Longrightarrow> parse C te G (k + 5) (PChoice e1 e2) s (POk s1)"
| Choice_no: "parse C te G k e1 s (PFail s1) \<Longrightarrow> restores s s1 s2 \<Longrightarrow> parse C te G (k + 5) e2 s2 r \<Longrightarrow>
    parse C te G (k + 5) (PChoice e1 e2) s r"
| Option_ok: "parse C te G k e s (POk s1) \<Longrightarrow> parse C te G (k + 5) (POption e) s (POk s1)"
| Option_no: "parse C te G k e s (PFail s1) \<Longrightarrow> restores s s1 s2 \<Longrightarrow> parse C te G (k + 5) (POption e) s (POk s2)"
| Star: "loop C te G k e s s1 \<Longrightarrow> parse C te G (k + 5) (PStar e) s (POk s1)"
| Loop_end: "parse C te G k e s (PFail s1) \<Longrightarrow> restores s s1 s2 \<Longrightarrow> loop C te G k e s s2"
| Loop_stuck: "parse C te G k e s (POk s1) \<Longrightarrow> pcur s1 = pcur s \<Longrightarrow> restores s s1 s2 \<Longrightarrow> loop C te G k e s s2"
| Loop_more: "parse C te G k e s (POk s1) \<Longrightarrow> pcur s1 \<noteq> pcur s \<Longrightarrow> loop C te G k e s1 s2 \<Longrightarrow> loop C te G k e s s2"
| And_ok: "parse C te G k e s (POk s1) \<Longrightarrow> parse C te G (k + 1) (PAnd e) s (POk (s1\<lparr>pcur := pcur s\<rparr>))"
| And_no: "parse C te G k e s (PFail s1) \<Longrightarrow> parse C te G (k + 1) (PAnd e) s (PFail s1)"
| Not_ok: "parse C te G k e s (PFail s1) \<Longrightarrow> restores s s1 s2 \<Longrightarrow> parse C te G (k + 5) (PNot e) s (POk s2)"
| Not_no: "parse C te G k e s (POk s1) \<Longrightarrow> parse C te G (k + 5) (PNot e) s (PFail s1)"
| Call: "X < length G \<Longrightarrow> parse C te G k (G ! X) s r \<Longrightarrow> parse C te G (k + 1) (PCall X) s r"
| Act: "act C x s = Inr a \<Longrightarrow> parse C te G k (PAct x) s (POk (s\<lparr>past := a\<rparr>))"
| Link_ok: "parse C te G k e s (POk s1) \<Longrightarrow> ast_commit_tx (past s1) (pheap s1) l (ast_save_tx (past s)) = Inr (a, h) \<Longrightarrow>
    parse C te G (k + 1) (PLink l e) s (POk (s1\<lparr>past := a, pheap := h\<rparr>))"
| Link_no: "parse C te G k e s (PFail s1) \<Longrightarrow> parse C te G (k + 1) (PLink l e) s (PFail s1)"
| Block_ok: "parse C te G k e s (POk s1) \<Longrightarrow>
    parse C te G (k + 1) (PBlock e) s (POk (s1\<lparr>ptab := symtable_rollback (ptab s1) (symtable_savepoint (ptab s))\<rparr>))"
| Block_no: "parse C te G k e s (PFail s1) \<Longrightarrow> parse C te G (k + 1) (PBlock e) s (PFail s1)"
| Local_ok: "aread (tables C) (unat t) = Inr n \<Longrightarrow> symtable_add_symbol_mask (stale C) (ptab s) n = Inr tb \<Longrightarrow>
    parse C te G k e (s\<lparr>ptab := tb\<rparr>) (POk s1) \<Longrightarrow> parse C te G (k + 1) (PLocal t e) s
      (POk (s1\<lparr>ptab := symtable_rollback (ptab s1) (symtable_savepoint (ptab s))\<rparr>))"
| Local_no: "aread (tables C) (unat t) = Inr n \<Longrightarrow> symtable_add_symbol_mask (stale C) (ptab s) n = Inr tb \<Longrightarrow>
    parse C te G k e (s\<lparr>ptab := tb\<rparr>) (PFail s1) \<Longrightarrow> parse C te G (k + 1) (PLocal t e) s (PFail s1)"
| Sym_ok: "parse C te G k e s (POk s1) \<Longrightarrow> cap C x (pcur s) s1 = Inr (b, tb) \<Longrightarrow>
    parse C te G (k + 1) (PSym x e) s (if b then POk (s1\<lparr>ptab := tb\<rparr>) else PFail s1)"
| Sym_no: "parse C te G k e s (PFail s1) \<Longrightarrow> parse C te G (k + 1) (PSym x e) s (PFail s1)"
| Exists: "aread (tables C) (unat t) = Inr n \<Longrightarrow> symtable_has_symbol (ptab s) n = Inr b \<Longrightarrow>
    parse C te G k (PExists t) s (if b then POk s else PFail s)"
| Match: "sym_match C t s = Inr x \<Longrightarrow>
    parse C te G k (PMatch t) s (case x of Some n \<Rightarrow> POk (adv s n) | None \<Rightarrow> PFail s)"

section \<open>Code\<close>

fun act_code :: "action \<Rightarrow> u8 list" where
  "act_code (ANew d) = [34, d]"
| "act_code (ACapture d) = [35, d]"
| "act_code (ATag t) = 36 # enc16 t"
| "act_code (AReplace i) = 37 # enc16 i"
| "act_code APush = [31]"
| "act_code (APop l) = 32 # enc16 l"
| "act_code (AFold d l) = 33 # d # enc16 l"

fun sym_code :: "symop \<Rightarrow> u8 list" where
  "sym_code (CDef t) = 46 # enc16 t"
| "sym_code (CIs t) = 50 # enc16 t"
| "sym_code (CIsa t) = 51 # enc16 t"

fun clen :: "peg \<Rightarrow> nat" where
  "clen PEmpty = 0"
| "clen (PByte c) = 2"
| "clen PAny = 1"
| "clen (PStr i) = 3"
| "clen (PSet i) = 3"
| "clen (PSeq x y) = clen x + clen y"
| "clen (PChoice x y) = clen x + clen y + 11"
| "clen (POption x) = clen x + 6"
| "clen (PStar x) = clen x + 11"
| "clen (PAnd x) = clen x + 2"
| "clen (PNot x) = clen x + 7"
| "clen (PCall X) = 9"
| "clen (PAct x) = length (act_code x)"
| "clen (PLink l x) = clen x + 4"
| "clen (PBlock x) = clen x + 2"
| "clen (PLocal t x) = clen x + 4"
| "clen (PSym y x) = clen x + 4"
| "clen (PExists t) = 3"
| "clen (PMatch t) = 3"

text \<open>\<open>emit A a e\<close>: the code of \<open>e\<close> at address \<open>a\<close>, \<open>A\<close> giving the addresses of the rules.\<close>

fun emit :: "(nat \<Rightarrow> nat) \<Rightarrow> nat \<Rightarrow> peg \<Rightarrow> u8 list" where
  "emit A a PEmpty = []"
| "emit A a (PByte c) = [10, c]"
| "emit A a PAny = [11]"
| "emit A a (PStr i) = 12 # enc16 i"
| "emit A a (PSet i) = 13 # enc16 i"
| "emit A a (PSeq x y) = emit A a x @ emit A (a + clen x) y"
| "emit A a (PChoice x y) =
    2 # enc32 (int (clen x + 6)) @ emit A (a + 5) x @ [3, 4] @ enc32 (int (clen y)) @ emit A (a + 11 + clen x) y"
| "emit A a (POption x) = 2 # enc32 (int (clen x + 1)) @ emit A (a + 5) x @ [3]"
| "emit A a (PStar x) = 2 # enc32 (int (clen x + 6)) @ emit A (a + 5) x @ [9, 4] @ enc32 (- int (clen x + 6))"
| "emit A a (PAnd x) = 7 # emit A (a + 1) x @ [8]"
| "emit A a (PNot x) = 2 # enc32 (int (clen x + 2)) @ emit A (a + 5) x @ [3, 1]"
| "emit A a (PCall X) = 5 # enc32 0 @ enc32 (int (A X) - int a - 9)"
| "emit A a (PAct x) = act_code x"
| "emit A a (PLink l x) = 38 # emit A (a + 1) x @ [39] @ enc16 l"
| "emit A a (PBlock x) = 43 # emit A (a + 1) x @ [44]"
| "emit A a (PLocal t x) = [45] @ enc16 t @ emit A (a + 3) x @ [44]"
| "emit A a (PSym y x) = 7 # emit A (a + 1) x @ sym_code y"
| "emit A a (PExists t) = 48 # enc16 t"
| "emit A a (PMatch t) = 49 # enc16 t"

lemma length_emit [simp]: "length (emit A a e) = clen e"
  by (induction e arbitrary: a) (auto split: symop.splits, (case_tac x1; simp)+)

text \<open>A rule is its expression and \<open>Ret\<close>; the rules follow one another.\<close>

definition rule_code :: "(nat \<Rightarrow> nat) \<Rightarrow> nat \<Rightarrow> peg \<Rightarrow> u8 list" where
  "rule_code A a e = emit A a e @ [6] @ enc32 0"

definition rule_addr :: "peg list \<Rightarrow> nat \<Rightarrow> nat" where
  "rule_addr G X = sum_list (map (\<lambda>e. clen e + 5) (take X G))"

definition program :: "peg list \<Rightarrow> u8 list" where
  "program G = concat (map (\<lambda>X. rule_code (rule_addr G) (rule_addr G X) (G ! X)) [0..<length G])"

text \<open>The interpreter compares a \<open>char\<close> with a byte as \<open>int\<close>, so only ASCII bytes are found.\<close>

fun ascii :: "peg \<Rightarrow> bool" where
  "ascii (PByte c) \<longleftrightarrow> unat c < 128"
| "ascii (PSeq x y) \<longleftrightarrow> ascii x \<and> ascii y"
| "ascii (PChoice x y) \<longleftrightarrow> ascii x \<and> ascii y"
| "ascii (POption x) \<longleftrightarrow> ascii x"
| "ascii (PStar x) \<longleftrightarrow> ascii x"
| "ascii (PAnd x) \<longleftrightarrow> ascii x"
| "ascii (PNot x) \<longleftrightarrow> ascii x"
| "ascii (PLink l x) \<longleftrightarrow> ascii x"
| "ascii (PBlock x) \<longleftrightarrow> ascii x"
| "ascii (PLocal t x) \<longleftrightarrow> ascii x"
| "ascii (PSym y x) \<longleftrightarrow> ascii x"
| "ascii _ \<longleftrightarrow> True"

end
