(* ===== verification/VM1_Sim.thy ===== *)
theory VM1_Sim
  imports VM1_Peg
begin

text \<open>
  The simulation of a parsing expression by its code: what one instruction of \<open>src/src/vm1/instruction.def\<close>
  does to the state of the machine, and the runs of the codes for sequences, choices, repetitions,
  predicates and calls.
\<close>

section \<open>Instructions\<close>

lemma OP_EACH_nth:
  "OP_EACH ! 1 = O_Fail" "OP_EACH ! Suc 0 = O_Fail" "OP_EACH ! 2 = O_Alt" "OP_EACH ! 3 = O_Succ" "OP_EACH ! 4 = O_Jump"
  "OP_EACH ! 5 = O_Call" "OP_EACH ! 6 = O_Ret" "OP_EACH ! 7 = O_Pos" "OP_EACH ! 8 = O_Back" "OP_EACH ! 9 = O_Skip"
  "OP_EACH ! 10 = O_Byte" "OP_EACH ! 11 = O_Any" "OP_EACH ! 12 = O_Str" "OP_EACH ! 13 = O_Set"
  "OP_EACH ! 31 = O_TPush" "OP_EACH ! 32 = O_TPop" "OP_EACH ! 33 = O_TLeftFold" "OP_EACH ! 34 = O_TNew"
  "OP_EACH ! 35 = O_TCapture" "OP_EACH ! 36 = O_TTag" "OP_EACH ! 37 = O_TReplace" "OP_EACH ! 38 = O_TStart"
  "OP_EACH ! 39 = O_TCommit" "OP_EACH ! 43 = O_SOpen" "OP_EACH ! 44 = O_SClose" "OP_EACH ! 45 = O_SMask"
  "OP_EACH ! 46 = O_SDef" "OP_EACH ! 48 = O_SExists" "OP_EACH ! 49 = O_SMatch" "OP_EACH ! 50 = O_SIs"
  "OP_EACH ! 51 = O_SIsa" "OP_EACH ! 54 = O_Exit"
  by (simp_all add: OP_EACH_def)

lemma step_op:
  "code_at C (pc v) (b # bs) \<Longrightarrow> unat b < 59 \<Longrightarrow> vm_step C v = exec C (OP_EACH ! unat b) (v\<lparr>pc := Suc (pc v)\<rparr>)"
  by (simp add: step_code)

section \<open>What stays\<close>

definition st_of :: "vm \<Rightarrow> pst" where
  "st_of v = \<lparr>pcur = cur v, past = vast v, pheap = vheap v, ptab = vtable v\<rparr>"

lemma st_of_simps [simp]:
  "pcur (st_of v) = cur v" "past (st_of v) = vast v" "pheap (st_of v) = vheap v" "ptab (st_of v) = vtable v"
  by (simp_all add: st_of_def)

definition keep :: "vm \<Rightarrow> vm \<Rightarrow> bool" where
  "keep v w \<longleftrightarrow> vfp w = vfp v \<and> length (stack w) = length (stack v) \<and> take (vsp v) (stack w) = take (vsp v) (stack v) \<and>
     tl_pos w = tl_pos v \<and> vmemo w = vmemo v"

lemma keep_refl [simp]: "keep v v"
  by (simp add: keep_def)

lemma take_le_cong: "take b xs = take b ys \<Longrightarrow> a \<le> b \<Longrightarrow> take a xs = take a ys"
  by (metis min.absorb1 take_take)

lemma keep_trans: "keep v w \<Longrightarrow> keep w u \<Longrightarrow> vsp v \<le> vsp w \<Longrightarrow> keep v u"
  using take_le_cong [of "vsp w" "stack u" "stack w" "vsp v"] by (simp add: keep_def)

text \<open>How the code of an expression ends: behind it, or in the failure of an instruction.\<close>

fun runs :: "constants \<Rightarrow> vm \<Rightarrow> nat \<Rightarrow> pres \<Rightarrow> bool" where
  "runs C v e (POk s) \<longleftrightarrow> (\<exists>w. steps C v w \<and> keep v w \<and> vsp w = vsp v \<and> pc w = e \<and> st_of w = s)"
| "runs C v e (PFail s) \<longleftrightarrow> (\<exists>u w. steps C v u \<and> vm_step C u = NEXT (FAIL_IMPL w) \<and> keep v w \<and> st_of w = s)"

lemma runs_fail_above:
  assumes "steps C v w" "keep v w" "vsp v \<le> vsp w" "runs C w e (PFail s)"
  shows "runs C v e' (PFail s)"
proof -
  from assms(4) obtain x y where x: "steps C w x" "vm_step C x = NEXT (FAIL_IMPL y)" "keep w y" "st_of y = s" by auto
  have "steps C v x" using assms(1) x(1) by (rule steps_trans)
  moreover have "keep v y" using assms(2) x(3) assms(3) by (rule keep_trans)
  ultimately show ?thesis using x(2,4) by auto
qed

lemma runs_steps:
  assumes "steps C v w" "keep v w" "vsp w = vsp v" "runs C w e r"
  shows "runs C v e r"
proof (cases r)
  case (POk s)
  with assms(4) obtain x where x: "steps C w x" "keep w x" "vsp x = vsp w" "pc x = e" "st_of x = s" by auto
  have "steps C v x" using assms(1) x(1) by (rule steps_trans)
  moreover have "keep v x" using assms(2) x(2) by (rule keep_trans) (simp add: assms(3))
  ultimately show ?thesis using x(3-5) POk assms(3) by auto
next
  case (PFail s)
  with assms(4) runs_fail_above [OF assms(1,2)] assms(3) show ?thesis by simp
qed

lemma runs_next:
  assumes "vm_step C v = Inr (Running w)" "keep v w" "vsp w = vsp v" "runs C w e r"
  shows "runs C v e r"
  using runs_steps [OF steps_one [OF assms(1)] assms(2-4)] .

lemma runs_fail: "vm_step C v = NEXT (FAIL_IMPL w) \<Longrightarrow> keep v w \<Longrightarrow> st_of w = s \<Longrightarrow> runs C v e (PFail s)"
  by (auto intro: exI [of _ v])

lemma runs_ok: "vm_step C v = Inr (Running w) \<Longrightarrow> keep v w \<Longrightarrow> vsp w = vsp v \<Longrightarrow> pc w = e \<Longrightarrow> st_of w = s \<Longrightarrow> runs C v e (POk s)"
  by (auto intro: steps_one)

section \<open>Choice points\<close>

lemma step_Alt:
  assumes c: "code_at C (pc v) (2 # enc32 n)" and n: "- (2 ^ 31) \<le> n" "n < 2 ^ 31"
    and l: "int (pc v) + 5 + n = int l" "l \<le> length (code C)" and s: "vsp v + 5 \<le> length (stack v)"
  shows "\<exists>w. vm_step C v = Inr (Running w) \<and> frame w (vfp v) (cur v) l (ast_save_tx (vast v)) (symtable_savepoint (vtable v)) \<and>
     vsp w = vsp v + 5 \<and> vfp w = vsp v \<and> pc w = pc v + 5 \<and> st_of w = st_of v \<and> length (stack w) = length (stack v) \<and>
     take (vsp v) (stack w) = take (vsp v) (stack v) \<and> tl_pos w = tl_pos v \<and> vmemo w = vmemo v"
proof -
  let ?v = "v\<lparr>pc := pc v + 5\<rparr>"
  have r: "read_mozaddr_t C (v\<lparr>pc := Suc (pc v)\<rparr>) = Inr (n, ?v)"
    using read_mozaddr [of C "v\<lparr>pc := Suc (pc v)\<rparr>" n] c n by simp
  have "pc v + 5 \<le> length (code C)" using c by (simp add: code_at_def)
  then have p: "code_ptr C ?v n = Inr l" using l by (intro code_ptr_ok) auto
  from PUSH_FRAME_ok [of ?v "cur v" l "ast_save_tx (vast v)" "symtable_savepoint (vtable v)"] s obtain w where
    w: "PUSH_FRAME ?v (cur v) l (ast_save_tx (vast v)) (symtable_savepoint (vtable v)) = Inr w"
      "frame w (vfp v) (cur v) l (ast_save_tx (vast v)) (symtable_savepoint (vtable v))" "vsp w = vsp v + 5" "vfp w = vsp v"
      "length (stack w) = length (stack v)" "take (vsp v) (stack w) = take (vsp v) (stack v)"
      "w = ?v\<lparr>stack := stack w, vfp := vsp v, vsp := vsp v + 5\<rparr>" by auto
  have "vm_step C v = Inr (Running w)"
    using c r p w(1) by (simp add: step_code OP_EACH_nth op_Alt_def NEXT_def)
  moreover have "pc w = pc v + 5" "st_of w = st_of v" "tl_pos w = tl_pos v" "vmemo w = vmemo v"
    by (subst w(7), simp add: st_of_def)+
  ultimately show ?thesis using w(2-6) by blast
qed

text \<open>The state below a choice point.\<close>

definition below :: "vm \<Rightarrow> nat \<Rightarrow> vm \<Rightarrow> bool" where
  "below w f u \<longleftrightarrow> vfp u = f \<and> vsp u = vfp w \<and> length (stack u) = length (stack w) \<and>
     take (vfp w) (stack u) = take (vfp w) (stack w) \<and> tl_pos u = tl_pos w \<and> vmemo u = vmemo w"

lemma keep_frame:
  assumes "keep w u" "vsp w = vfp w + 5" "frame w f p l tx sy"
  shows "frame u f p l tx sy" "take (vfp w) (stack u) = take (vfp w) (stack w)" "vfp u = vfp w" "length (stack u) = length (stack w)"
    "tl_pos u = tl_pos w" "vmemo u = vmemo w"
proof -
  have t: "take (vfp w + 5) (stack u) = take (vfp w + 5) (stack w)" using assms(1,2) by (simp add: keep_def)
  have "take 5 (drop (vfp w) (stack u)) = take 5 (drop (vfp w) (stack w))"
    using arg_cong [OF t, of "drop (vfp w)"] by (simp add: drop_take)
  with assms(1,3) show "frame u f p l tx sy" by (simp add: frame_def keep_def)
  show "take (vfp w) (stack u) = take (vfp w) (stack w)" using t by (rule take_le_cong) simp
qed (use assms(1) in \<open>simp_all add: keep_def\<close>)

text \<open>A failure above a choice point continues at its handler, with the state restored.\<close>

lemma resume:
  assumes fr: "frame w f (pcur s) l (ast_save_tx (past s)) (symtable_savepoint (ptab s))" and sp: "vsp w = vfp w + 5"
    and r: "runs C w e (PFail s1)" and le: "pcur s \<le> pcur s1" and rs: "restores s s1 s2"
  shows "\<exists>u. steps C w u \<and> below w f u \<and> pc u = l \<and> st_of u = s2"
proof -
  from r obtain x y where x: "steps C w x" "vm_step C x = NEXT (FAIL_IMPL y)" "keep w y" "st_of y = s1" by auto
  note k = keep_frame [OF x(3) sp fr]
  have "pcur s \<le> cur y" "ast_rollback_tx (vast y) (vheap y) (ast_save_tx (past s)) = Inr (past s2, pheap s2)"
    using le rs x(4) by (auto simp: restores_def)
  from FAIL_ok [OF k(1) this] obtain z where z: "FAIL_IMPL y = Inr (y\<lparr>vsp := vfp y, vfp := f, hd_pos := z, cur := pcur s,
      vast := past s2, vheap := pheap s2, vtable := symtable_rollback (vtable y) (symtable_savepoint (ptab s)), pc := l\<rparr>)"
    (is "_ = Inr ?u") by blast
  have "steps C w ?u" using x(1) steps_one [of C x ?u] x(2) z by (auto simp: NEXT_def intro: steps_trans)
  moreover have "below w f ?u" using k by (simp add: below_def)
  moreover have "st_of ?u = s2" using rs x(4) by (cases s2) (auto simp: st_of_def restores_def)
  ultimately show ?thesis by (intro exI [of _ ?u]) simp
qed

text \<open>A success above a choice point drops it with \<open>Succ\<close>.\<close>

lemma step_Succ:
  assumes "code_at C (pc w) [3]" "frame w f p l tx sy"
  shows "\<exists>u. vm_step C w = Inr (Running u) \<and> below w f u \<and> pc u = Suc (pc w) \<and> st_of u = st_of w"
proof -
  have "frame (w\<lparr>pc := Suc (pc w)\<rparr>) f p l tx sy" using assms(2) by (simp add: frame_def)
  from DROP_FRAME_ok [OF this] show ?thesis
    using assms(1) by (intro exI [of _ "w\<lparr>pc := Suc (pc w), vsp := vfp w, vfp := f\<rparr>"])
      (simp add: step_code OP_EACH_nth op_Succ_def NEXT_def below_def st_of_def)
qed

lemma commit_choice:
  assumes "frame w f p l tx sy" "vsp w = vfp w + 5" "runs C w e (POk s)" "code_at C e [3]"
  shows "\<exists>u. steps C w u \<and> below w f u \<and> pc u = Suc e \<and> st_of u = s"
proof -
  from assms(3) obtain x where x: "steps C w x" "keep w x" "vsp x = vsp w" "pc x = e" "st_of x = s" by auto
  note k = keep_frame [OF x(2) assms(2,1)]
  from step_Succ [of C x, OF _ k(1)] assms(4) x(4) obtain u where
    u: "vm_step C x = Inr (Running u)" "below x f u" "pc u = Suc e" "st_of u = s" unfolding x(5) by auto
  have "below w f u" using u(2) k by (simp add: below_def)
  moreover have "steps C w u" using x(1) steps_one [OF u(1)] by (rule steps_trans)
  ultimately show ?thesis using u(3,4) by blast
qed

end
