(* ===== verification/VM1_Correct.thy ===== *)
theory VM1_Correct
  imports VM1_Sim
begin

text \<open>
  The theorem about the code of a whole grammar: by induction over the meaning of an expression, the
  machine that runs its code ends in the state the meaning gives, as long as its stack suffices.
\<close>

section \<open>Positions never go back\<close>

fun pres_st :: "pres \<Rightarrow> pst" where
  "pres_st (POk s) = s"
| "pres_st (PFail s) = s"

lemma parse_forward:
  "parse C te G k e s r \<Longrightarrow> pcur s \<le> pcur (pres_st r)"
  "loop C te G k e s s' \<Longrightarrow> pcur s \<le> pcur s'"
  by (induction rule: parse_loop.inducts) (auto simp: adv_def restores_def split: option.splits)

section \<open>Bytes as characters\<close>

lemma sint_ascii: "unat c < 128 \<Longrightarrow> sint c = uint c" for c :: u8
proof -
  assume "unat c < 128"
  then have "uint c < 128" by (metis of_nat_less_iff of_nat_numeral uint_nat)
  moreover have "0 \<le> uint c" by simp
  ultimately have "signed_take_bit 7 (uint c) = uint c"
    by (intro signed_take_bit_int_eq_self order_trans [of "- (2 ^ 7)" 0 "uint c"]) simp_all
  then show "sint c = uint c" by (simp add: sint_uint)
qed

lemma char_eq: "unat c < 128 \<Longrightarrow> sint d = uint c \<longleftrightarrow> d = c" for c d :: u8
proof -
  assume "unat c < 128"
  then have "sint c = uint c" by (rule sint_ascii)
  moreover have "(word_of_int (sint d) :: u8) = d" "(word_of_int (sint c) :: u8) = c" by simp_all
  ultimately show "sint d = uint c \<longleftrightarrow> d = c" by metis
qed

lemma char_unsigned_ascii: "unat d < 128 \<Longrightarrow> char_unsigned d = unat d"
proof -
  assume d: "unat d < 128"
  have "scast d = (word_of_int (sint d) :: u32)" by simp
  also have "\<dots> = ucast d" using sint_ascii [OF d] by simp
  finally show ?thesis using unat_u8 [of d] by (simp add: char_unsigned_def unsigned_ucast_eq take_bit_nat_eq_self del: unat_u8)
qed

section \<open>The simulation, one rule at a time\<close>

definition sim :: "constants \<Rightarrow> addr \<Rightarrow> (nat \<Rightarrow> nat) \<Rightarrow> nat \<Rightarrow> peg \<Rightarrow> pst \<Rightarrow> pres \<Rightarrow> bool" where
  "sim C te A k e s r \<longleftrightarrow> (\<forall>v a. pc v = a \<longrightarrow> code_at C a (emit A a e) \<longrightarrow> st_of v = s \<longrightarrow> tl_pos v = te \<longrightarrow>
     vsp v + k \<le> length (stack v) \<longrightarrow> runs C v (a + clen e) r)"

lemma simI:
  assumes "\<And>v. code_at C (pc v) (emit A (pc v) e) \<Longrightarrow> st_of v = s \<Longrightarrow> tl_pos v = te \<Longrightarrow>
     vsp v + k \<le> length (stack v) \<Longrightarrow> runs C v (pc v + clen e) r"
  shows "sim C te A k e s r"
  using assms by (simp add: sim_def)

lemma simD:
  assumes "sim C te A k e s r" "code_at C a (emit A a e)" "pc v = a" "st_of v = s" "tl_pos v = te" "vsp v + k \<le> length (stack v)"
  shows "runs C v (a + clen e) r"
  using assms unfolding sim_def by blast

lemma sim_Empty: "sim C te A k PEmpty s (POk s)"
  by (intro simI) (auto intro: exI [of _ v for v] steps_refl keep_refl)

lemma sim_Byte:
  assumes "mread (vmem C) (pcur s) = Inr d" "unat c < 128"
  shows "sim C te A k (PByte c) s (if d = c then POk (adv s 1) else PFail s)"
proof (intro simI)
  fix v assume v: "code_at C (pc v) (emit A (pc v) (PByte c))" "st_of v = s"
  let ?w = "v\<lparr>pc := pc v + 2\<rparr>"
  have step: "vm_step C v = NEXT (if d = c then Inr (CONSUME ?w) else FAIL_IMPL ?w)"
    using v assms by (auto simp: step_code OP_EACH_nth op_Byte_def current_def char_eq)
  show "runs C v (pc v + clen (PByte c)) (if d = c then POk (adv s 1) else PFail s)"
  proof (cases "d = c")
    case True
    then show ?thesis using step v(2)
      by (auto simp: NEXT_def CONSUME_def keep_def adv_def st_of_def intro!: exI [of _ "CONSUME ?w"] steps_one)
  next
    case False
    then show ?thesis using runs_fail [of C v ?w s] step v(2) by (simp add: keep_def st_of_def)
  qed
qed

lemma sim_Any: "sim C te A k PAny s (if pcur s = te then PFail s else POk (adv s 1))"
proof (intro simI)
  fix v assume v: "code_at C (pc v) (emit A (pc v) PAny)" "st_of v = s" "tl_pos v = te"
  let ?w = "v\<lparr>pc := Suc (pc v)\<rparr>"
  have step: "vm_step C v = NEXT (if pcur s = te then FAIL_IMPL ?w else Inr (CONSUME ?w))"
    using v by (auto simp: step_code OP_EACH_nth op_Any_def EOS_def)
  show "runs C v (pc v + clen PAny) (if pcur s = te then PFail s else POk (adv s 1))"
  proof (cases "pcur s = te")
    case True
    then show ?thesis using runs_fail [of C v ?w s] step v(2) by (simp add: keep_def st_of_def)
  next
    case False
    then show ?thesis using step v(2)
      by (auto simp: NEXT_def CONSUME_def keep_def adv_def st_of_def intro!: exI [of _ "CONSUME ?w"] steps_one)
  qed
qed

lemma one_ok:
  "vm_step C v = NEXT (Inr w) \<Longrightarrow> keep v w \<Longrightarrow> vsp w = vsp v \<Longrightarrow> pc w = e \<Longrightarrow> st_of w = s \<Longrightarrow> runs C v e (POk s)"
  by (rule runs_ok) (simp_all add: NEXT_def)

lemma read_STRING:
  assumes "code_at C (pc v) (enc16 i)" "aread (strs C) (unat i) = Inr p" "pstring_at (vmem C) p t"
  shows "read_STRING_t C v = Inr (p, of_nat (length t), v\<lparr>pc := pc v + 2\<rparr>)"
  using read_uint16 [OF assms(1)] assms(2) pstring_length_ok [OF assms(3)] by (simp add: read_STRING_t_def)

lemma cmp_bytes_mismatch:
  "valid m p n \<Longrightarrow> valid m q k \<Longrightarrow> n \<le> k \<Longrightarrow> bytes m p n \<noteq> bytes m q n \<Longrightarrow> cmp_bytes m p q k = Inr False"
proof (induction k arbitrary: p q n)
  case (Suc k)
  then obtain j where n: "n = Suc j" by (cases n) auto
  have v: "valid m p 1" "valid m q 1" using Suc.prems n by (simp_all add: valid_def)
  have q: "bytes m q n = m ! q # bytes m (Suc q) j"
    using bytes_Suc [of m q j] Suc.prems n by (simp add: valid_def)
  have p: "bytes m p n = m ! p # bytes m (Suc p) j" using bytes_Suc [of m p j] Suc.prems n by simp
  show ?case
  proof (cases "m ! p = m ! q")
    case True
    then have "bytes m (Suc p) j \<noteq> bytes m (Suc q) j" using Suc.prems(4) p q by simp
    with Suc.IH [of "Suc p" j "Suc q"] Suc.prems n have "cmp_bytes m (Suc p) (Suc q) k = Inr False"
      by (simp add: valid_Suc)
    then show ?thesis using v by simp
  qed (use v in simp)
qed simp

lemma starts_ok:
  assumes "pstring_at (vmem C) p t" "valid (vmem C) (cur v) (length t)"
  shows "starts C v p (of_nat (length t)) = Inr (bytes (vmem C) (cur v) (length t) = t)"
  using assms cmp_bytes_ok [of "vmem C" "cur v" "length t" p]
  by (simp add: starts_def pstring_starts_with_def pstring_at_def unat_of_nat_u32)

lemma starts_no:
  assumes "pstring_at (vmem C) p t" "n \<le> length t" "valid (vmem C) (cur v) n" "bytes (vmem C) (cur v) n \<noteq> take n t"
  shows "starts C v p (of_nat (length t)) = Inr False"
proof -
  have "bytes (vmem C) p n = take n (bytes (vmem C) p (length t))" using assms(2) by (simp add: bytes_def min_absorb1)
  then have "bytes (vmem C) p n = take n t" using assms(1) by (simp add: pstring_at_def)
  then show ?thesis using assms cmp_bytes_mismatch [of "vmem C" "cur v" n p "length t"]
    by (simp add: starts_def pstring_starts_with_def pstring_at_def unat_of_nat_u32)
qed

lemma step_Str:
  assumes "code_at C (pc v) (12 # enc16 i)" "aread (strs C) (unat i) = Inr p" "pstring_at (vmem C) p t"
    "starts C v p (of_nat (length t)) = Inr b"
  shows "vm_step C v = NEXT (if b then Inr (CONSUME_N (v\<lparr>pc := pc v + 3\<rparr>) (int (length t))) else FAIL_IMPL (v\<lparr>pc := pc v + 3\<rparr>))"
proof -
  have "read_STRING_t C (v\<lparr>pc := Suc (pc v)\<rparr>) = Inr (p, of_nat (length t), v\<lparr>pc := pc v + 3\<rparr>)"
    using read_STRING [of C "v\<lparr>pc := Suc (pc v)\<rparr>" i p t] assms(1-3) by (simp add: numeral_3_eq_3)
  moreover have "starts C (v\<lparr>pc := pc v + 3\<rparr>) p (of_nat (length t)) = Inr b" using assms(4) by (simp add: starts_def)
  moreover have "uint (of_nat (length t) :: u32) = int (length t)"
    using assms(3) unat_of_nat_u32 [of "length t"] by (simp add: pstring_at_def uint_nat)
  ultimately show ?thesis using assms(1) by (simp add: step_code OP_EACH_nth op_Str_def)
qed

lemma sim_Str_ok:
  assumes "aread (strs C) (unat i) = Inr p" "pstring_at (vmem C) p t" "valid (vmem C) (pcur s) (length t)"
    "bytes (vmem C) (pcur s) (length t) = t"
  shows "sim C te A k (PStr i) s (POk (adv s (length t)))"
proof (intro simI)
  fix v assume v: "code_at C (pc v) (emit A (pc v) (PStr i))" "st_of v = s"
  then have "starts C v p (of_nat (length t)) = Inr True" using starts_ok [OF assms(2), of v] assms(3,4) by auto
  from step_Str [OF _ assms(1,2) this] v show "runs C v (pc v + clen (PStr i)) (POk (adv s (length t)))"
    by (intro one_ok [of C v "CONSUME_N (v\<lparr>pc := pc v + 3\<rparr>) (int (length t))"])
      (auto simp: keep_def CONSUME_N_def adv_def st_of_def nat_int_add)
qed

lemma sim_Str_no:
  assumes "aread (strs C) (unat i) = Inr p" "pstring_at (vmem C) p t" "n \<le> length t" "valid (vmem C) (pcur s) n"
    "bytes (vmem C) (pcur s) n \<noteq> take n t"
  shows "sim C te A k (PStr i) s (PFail s)"
proof (intro simI)
  fix v assume v: "code_at C (pc v) (emit A (pc v) (PStr i))" "st_of v = s"
  then have "starts C v p (of_nat (length t)) = Inr False" using starts_no [OF assms(2,3), of v] assms(4,5) by auto
  from step_Str [OF _ assms(1,2) this] v show "runs C v (pc v + clen (PStr i)) (PFail s)"
    by (intro runs_fail [of C v "v\<lparr>pc := pc v + 3\<rparr>"]) (auto simp: keep_def st_of_def)
qed

lemma sim_Set:
  assumes "aread (sets C) (unat i) = Inr b" "bitset_wf b" "mread (vmem C) (pcur s) = Inr d" "unat d < 128"
  shows "sim C te A k (PSet i) s (if unat d \<in> elems b then POk (adv s 1) else PFail s)"
proof (intro simI)
  fix v assume v: "code_at C (pc v) (emit A (pc v) (PSet i))" "st_of v = s"
  let ?w = "v\<lparr>pc := pc v + 3\<rparr>"
  have "read_BITSET_t C (v\<lparr>pc := Suc (pc v)\<rparr>) = Inr (b, ?w)"
    using read_uint16 [of C "v\<lparr>pc := Suc (pc v)\<rparr>" i] v(1) assms(1) by (simp add: read_BITSET_t_def numeral_3_eq_3)
  moreover have "in_set C ?w b = Inr (unat d \<in> elems b)"
    using assms v(2) by (auto simp: in_set_def current_def char_unsigned_ascii bitset_get_elems)
  ultimately have step: "vm_step C v = NEXT (if unat d \<in> elems b then Inr (CONSUME ?w) else FAIL_IMPL ?w)"
    using v(1) by (simp add: step_code OP_EACH_nth op_Set_def)
  show "runs C v (pc v + clen (PSet i)) (if unat d \<in> elems b then POk (adv s 1) else PFail s)"
  proof (cases "unat d \<in> elems b")
    case True
    then show ?thesis using step v(2)
      by (simp only: if_True) (rule one_ok [of C v "CONSUME ?w"]; auto simp: CONSUME_def keep_def adv_def st_of_def)
  next
    case False
    then show ?thesis using runs_fail [of C v ?w s] step v(2) by (simp add: keep_def st_of_def)
  qed
qed

section \<open>Sequences and choices\<close>

lemma sim_Seq_ok:
  assumes "sim C te A k e1 s (POk s1)" "sim C te A k e2 s1 r"
  shows "sim C te A k (PSeq e1 e2) s r"
proof (intro simI)
  fix v assume v: "code_at C (pc v) (emit A (pc v) (PSeq e1 e2))" "st_of v = s" "tl_pos v = te" "vsp v + k \<le> length (stack v)"
  have "runs C v (pc v + clen e1) (POk s1)" using v by (intro simD [OF assms(1)]) simp_all
  then obtain w where w: "steps C v w" "keep v w" "vsp w = vsp v" "pc w = pc v + clen e1" "st_of w = s1" by auto
  have "runs C w (pc w + clen e2) r" using v w by (intro simD [OF assms(2)]) (simp_all add: keep_def)
  then show "runs C v (pc v + clen (PSeq e1 e2)) r" using runs_steps [OF w(1-3)] w(4) by (simp add: add.assoc)
qed

lemma sim_Seq_no:
  assumes "sim C te A k e1 s (PFail s1)"
  shows "sim C te A k (PSeq e1 e2) s (PFail s1)"
proof (intro simI)
  fix v assume v: "code_at C (pc v) (emit A (pc v) (PSeq e1 e2))" "st_of v = s" "tl_pos v = te" "vsp v + k \<le> length (stack v)"
  have "runs C v (pc v + clen e1) (PFail s1)" using v by (intro simD [OF assms(1)]) simp_all
  then show "runs C v (pc v + clen (PSeq e1 e2)) (PFail s1)" by simp
qed

text \<open>Entering a choice: the code after \<open>Alt\<close>, above a choice point for the state it was entered in.\<close>

definition entered :: "constants \<Rightarrow> vm \<Rightarrow> nat \<Rightarrow> pst \<Rightarrow> vm \<Rightarrow> bool" where
  "entered C v l s w \<longleftrightarrow> steps C v w \<and>
     frame w (vfp v) (pcur s) l (ast_save_tx (past s)) (symtable_savepoint (ptab s)) \<and>
     vsp w = vfp w + 5 \<and> vfp w = vsp v \<and> pc w = pc v + 5 \<and> st_of w = s \<and> length (stack w) = length (stack v) \<and>
     take (vsp v) (stack w) = take (vsp v) (stack v) \<and> tl_pos w = tl_pos v \<and> vmemo w = vmemo v"

lemma enter:
  assumes "code_at C (pc v) (2 # enc32 (int n))" "n < 2 ^ 31" "pc v + 5 + n \<le> length (code C)"
    "vsp v + 5 \<le> length (stack v)" "st_of v = s"
  shows "\<exists>w. entered C v (pc v + 5 + n) s w"
proof -
  have "- (2 ^ 31) \<le> int n" "int n < 2 ^ 31" "int (pc v) + 5 + int n = int (pc v + 5 + n)" using assms(2) by simp_all
  from step_Alt [OF assms(1) this assms(3,4)] assms(5) show ?thesis by (auto simp: entered_def intro: steps_one)
qed

text \<open>Leaving it: what is below the choice point is as before.\<close>

lemma left_keep: "entered C v l s w \<Longrightarrow> below w (vfp v) u \<Longrightarrow> keep v u \<and> vsp u = vsp v"
  by (simp add: entered_def below_def keep_def)

lemma choice_fail:
  assumes e: "entered C v l s w" and r: "runs C w x (PFail s1)" and p: "pcur s \<le> pcur s1" and rs: "restores s s1 s2"
  shows "\<exists>u. steps C v u \<and> keep v u \<and> vsp u = vsp v \<and> pc u = l \<and> st_of u = s2"
proof -
  from e have f: "frame w (vfp v) (pcur s) l (ast_save_tx (past s)) (symtable_savepoint (ptab s))" "vsp w = vfp w + 5"
    by (simp_all add: entered_def)
  from resume [OF f r p rs] obtain u where u: "steps C w u" "below w (vfp v) u" "pc u = l" "st_of u = s2" by blast
  have "steps C v u" using e u(1) by (auto simp: entered_def intro: steps_trans)
  with u left_keep [OF e u(2)] show ?thesis by blast
qed

lemma choice_succ:
  assumes e: "entered C v l s w" and r: "runs C w x (POk s1)" and c: "code_at C x [3]"
  shows "\<exists>u. steps C v u \<and> keep v u \<and> vsp u = vsp v \<and> pc u = Suc x \<and> st_of u = s1"
proof -
  from e have f: "frame w (vfp v) (pcur s) l (ast_save_tx (past s)) (symtable_savepoint (ptab s))" "vsp w = vfp w + 5"
    by (simp_all add: entered_def)
  from commit_choice [OF f r c] obtain u where u: "steps C w u" "below w (vfp v) u" "pc u = Suc x" "st_of u = s1" by blast
  have "steps C v u" using e u(1) by (auto simp: entered_def intro: steps_trans)
  with u left_keep [OF e u(2)] show ?thesis by blast
qed

lemma code_at_le: "code_at C a bs \<Longrightarrow> a + length bs \<le> length (code C)"
  by (simp add: code_at_def)

lemma step_Jump:
  assumes "code_at C (pc v) (4 # enc32 n)" "- (2 ^ 31) \<le> n" "n < 2 ^ 31" "int (pc v) + 5 + n = int t" "t \<le> length (code C)"
  shows "vm_step C v = Inr (Running (v\<lparr>pc := t\<rparr>))"
proof -
  have "read_mozaddr_t C (v\<lparr>pc := Suc (pc v)\<rparr>) = Inr (n, v\<lparr>pc := pc v + 5\<rparr>)"
    using read_mozaddr [of C "v\<lparr>pc := Suc (pc v)\<rparr>" n] assms(1-3) by simp
  moreover have "JUMP C (v\<lparr>pc := pc v + 5\<rparr>) n = Inr (v\<lparr>pc := t\<rparr>)"
    using jump_ok [of "v\<lparr>pc := pc v + 5\<rparr>" C n t] code_at_le [OF assms(1)] assms(4,5) by simp
  ultimately show ?thesis using assms(1) by (simp add: step_code OP_EACH_nth op_Jump_def NEXT_def)
qed

text \<open>Continuing from a state that was reached with the stack as before.\<close>

lemma runs_after:
  assumes "\<exists>u. steps C v u \<and> keep v u \<and> vsp u = vsp v \<and> pc u = l \<and> st_of u = s"
    and "\<And>u. keep v u \<Longrightarrow> vsp u = vsp v \<Longrightarrow> pc u = l \<Longrightarrow> st_of u = s \<Longrightarrow> runs C u e r"
  shows "runs C v e r"
  using assms runs_steps by blast

text \<open>The code of an expression, in pieces.\<close>

lemma code_Choice:
  assumes "code_at C a (emit A a (PChoice x y))"
  shows "code_at C a (2 # enc32 (int (clen x + 6)))" "code_at C (a + 5) (emit A (a + 5) x)"
    "code_at C (a + 5 + clen x) [3]" "code_at C (a + 6 + clen x) (4 # enc32 (int (clen y)))"
    "code_at C (a + 11 + clen x) (emit A (a + 11 + clen x) y)" "a + 11 + clen x + clen y \<le> length (code C)"
  using assms code_at_le [OF assms] by (simp_all add: ac_simps)

lemma code_Option:
  assumes "code_at C a (emit A a (POption x))"
  shows "code_at C a (2 # enc32 (int (clen x + 1)))" "code_at C (a + 5) (emit A (a + 5) x)"
    "code_at C (a + 5 + clen x) [3]" "a + 6 + clen x \<le> length (code C)"
  using assms code_at_le [OF assms] by (simp_all add: ac_simps)

lemma code_Not:
  assumes "code_at C a (emit A a (PNot x))"
  shows "code_at C a (2 # enc32 (int (clen x + 2)))" "code_at C (a + 5) (emit A (a + 5) x)"
    "code_at C (a + 5 + clen x) [3]" "code_at C (a + 6 + clen x) [1]" "a + 7 + clen x \<le> length (code C)"
  using assms code_at_le [OF assms] by (simp_all add: ac_simps)

lemma sim_Choice_ok:
  assumes IH: "sim C te A k e1 s (POk s1)" and small: "length (code C) < 2 ^ 31"
  shows "sim C te A (k + 5) (PChoice e1 e2) s (POk s1)"
proof (intro simI)
  fix v assume v: "code_at C (pc v) (emit A (pc v) (PChoice e1 e2))" "st_of v = s" "tl_pos v = te" "vsp v + (k + 5) \<le> length (stack v)"
  note c = code_Choice [OF v(1)]
  let ?e = "pc v + clen (PChoice e1 e2)"
  have "clen e1 + 6 < 2 ^ 31" "pc v + 5 + (clen e1 + 6) \<le> length (code C)" "vsp v + 5 \<le> length (stack v)"
    using c(6) small v(4) by simp_all
  from enter [OF c(1) this v(2)] obtain w where w: "entered C v (pc v + 5 + (clen e1 + 6)) s w" by blast
  then have pw: "pc w = pc v + 5" by (simp add: entered_def)
  have "runs C w (pc v + 5 + clen e1) (POk s1)"
    using c(2) v w by (intro simD [OF IH]) (simp_all add: entered_def)
  from choice_succ [OF w this c(3)] show "runs C v ?e (POk s1)"
  proof (rule runs_after)
    fix u assume u: "keep v u" "vsp u = vsp v" "pc u = Suc (pc v + 5 + clen e1)" "st_of u = s1"
    have "vm_step C u = Inr (Running (u\<lparr>pc := ?e\<rparr>))"
      using u(3) c(4,6) small by (intro step_Jump [of C u "int (clen e2)"]) (simp_all add: ac_simps)
    then show "runs C u ?e (POk s1)" by (rule runs_ok) (use u in \<open>simp_all add: keep_def st_of_def\<close>)
  qed
qed

lemma sim_Choice_no:
  assumes IH1: "sim C te A k e1 s (PFail s1)" and le: "pcur s \<le> pcur s1" and rs: "restores s s1 s2"
    and IH2: "sim C te A (k + 5) e2 s2 r" and small: "length (code C) < 2 ^ 31"
  shows "sim C te A (k + 5) (PChoice e1 e2) s r"
proof (intro simI)
  fix v assume v: "code_at C (pc v) (emit A (pc v) (PChoice e1 e2))" "st_of v = s" "tl_pos v = te" "vsp v + (k + 5) \<le> length (stack v)"
  note c = code_Choice [OF v(1)]
  have "clen e1 + 6 < 2 ^ 31" "pc v + 5 + (clen e1 + 6) \<le> length (code C)" "vsp v + 5 \<le> length (stack v)"
    using c(6) small v(4) by simp_all
  from enter [OF c(1) this v(2)] obtain w where w: "entered C v (pc v + 5 + (clen e1 + 6)) s w" by blast
  have "runs C w (pc v + 5 + clen e1) (PFail s1)"
    using c(2) v w by (intro simD [OF IH1]) (simp_all add: entered_def)
  from choice_fail [OF w this le rs] show "runs C v (pc v + clen (PChoice e1 e2)) r"
  proof (rule runs_after)
    fix u assume u: "keep v u" "vsp u = vsp v" "pc u = pc v + 5 + (clen e1 + 6)" "st_of u = s2"
    then have "pc u = pc v + 11 + clen e1" by simp
    with u c(5) v(3,4) have "runs C u (pc v + 11 + clen e1 + clen e2) r"
      by (intro simD [OF IH2]) (simp_all add: keep_def)
    then show "runs C u (pc v + clen (PChoice e1 e2)) r" by (simp add: ac_simps)
  qed
qed

text \<open>What \<open>POption\<close> and \<open>PNot\<close> share: an expression between \<open>Alt\<close> and \<open>Succ\<close>.\<close>

lemma guarded:
  assumes IH: "sim C te A k e s r" and small: "length (code C) < 2 ^ 31"
    and c: "code_at C (pc v) (2 # enc32 (int (clen e + n)))" "code_at C (pc v + 5) (emit A (pc v + 5) e)"
      "code_at C (pc v + 5 + clen e) [3]" "pc v + 5 + clen e + n \<le> length (code C)"
    and v: "st_of v = s" "tl_pos v = te" "vsp v + (k + 5) \<le> length (stack v)"
  shows "r = POk s1 \<Longrightarrow> \<exists>u. steps C v u \<and> keep v u \<and> vsp u = vsp v \<and> pc u = pc v + 6 + clen e \<and> st_of u = s1"
    and "r = PFail s1 \<Longrightarrow> pcur s \<le> pcur s1 \<Longrightarrow> restores s s1 s2 \<Longrightarrow>
      \<exists>u. steps C v u \<and> keep v u \<and> vsp u = vsp v \<and> pc u = pc v + 5 + clen e + n \<and> st_of u = s2"
proof -
  have "clen e + n < 2 ^ 31" "pc v + 5 + (clen e + n) \<le> length (code C)" "vsp v + 5 \<le> length (stack v)"
    using c(4) small v(3) by simp_all
  from enter [OF c(1) this v(1)] obtain w where w: "entered C v (pc v + 5 + (clen e + n)) s w" by blast
  have run: "runs C w (pc v + 5 + clen e) r"
    using c(2) v w by (intro simD [OF IH]) (simp_all add: entered_def)
  show "r = POk s1 \<Longrightarrow> \<exists>u. steps C v u \<and> keep v u \<and> vsp u = vsp v \<and> pc u = pc v + 6 + clen e \<and> st_of u = s1"
    using choice_succ [OF w _ c(3), of s1] run by (simp add: ac_simps)
  show "r = PFail s1 \<Longrightarrow> pcur s \<le> pcur s1 \<Longrightarrow> restores s s1 s2 \<Longrightarrow>
      \<exists>u. steps C v u \<and> keep v u \<and> vsp u = vsp v \<and> pc u = pc v + 5 + clen e + n \<and> st_of u = s2"
    using choice_fail [OF w, of "pc v + 5 + clen e" s1 s2] run by (simp add: ac_simps)
qed

lemma sim_Option_ok:
  assumes IH: "sim C te A k e s (POk s1)" and small: "length (code C) < 2 ^ 31"
  shows "sim C te A (k + 5) (POption e) s (POk s1)"
proof (intro simI)
  fix v assume v: "code_at C (pc v) (emit A (pc v) (POption e))" "st_of v = s" "tl_pos v = te" "vsp v + (k + 5) \<le> length (stack v)"
  note c = code_Option [OF v(1)]
  from guarded(1) [OF IH small c(1-3) _ v(2-4) refl] c(4) show "runs C v (pc v + clen (POption e)) (POk s1)"
    by (simp add: ac_simps)
qed

lemma sim_Option_no:
  assumes IH: "sim C te A k e s (PFail s1)" and le: "pcur s \<le> pcur s1" and rs: "restores s s1 s2"
    and small: "length (code C) < 2 ^ 31"
  shows "sim C te A (k + 5) (POption e) s (POk s2)"
proof (intro simI)
  fix v assume v: "code_at C (pc v) (emit A (pc v) (POption e))" "st_of v = s" "tl_pos v = te" "vsp v + (k + 5) \<le> length (stack v)"
  note c = code_Option [OF v(1)]
  from guarded(2) [OF IH small c(1-3) _ v(2-4) refl le rs] c(4) show "runs C v (pc v + clen (POption e)) (POk s2)"
    by (simp add: ac_simps)
qed

lemma sim_Not_ok:
  assumes IH: "sim C te A k e s (PFail s1)" and le: "pcur s \<le> pcur s1" and rs: "restores s s1 s2"
    and small: "length (code C) < 2 ^ 31"
  shows "sim C te A (k + 5) (PNot e) s (POk s2)"
proof (intro simI)
  fix v assume v: "code_at C (pc v) (emit A (pc v) (PNot e))" "st_of v = s" "tl_pos v = te" "vsp v + (k + 5) \<le> length (stack v)"
  note c = code_Not [OF v(1)]
  from guarded(2) [OF IH small c(1-3) _ v(2-4) refl le rs] c(5) show "runs C v (pc v + clen (PNot e)) (POk s2)"
    by (simp add: ac_simps)
qed

lemma step_Fail: "code_at C (pc v) [1] \<Longrightarrow> vm_step C v = NEXT (FAIL_IMPL (v\<lparr>pc := Suc (pc v)\<rparr>))"
  by (simp add: step_code OP_EACH_nth op_Fail_def)

lemma sim_Not_no:
  assumes IH: "sim C te A k e s (POk s1)" and small: "length (code C) < 2 ^ 31"
  shows "sim C te A (k + 5) (PNot e) s (PFail s1)"
proof (intro simI)
  fix v assume v: "code_at C (pc v) (emit A (pc v) (PNot e))" "st_of v = s" "tl_pos v = te" "vsp v + (k + 5) \<le> length (stack v)"
  note c = code_Not [OF v(1)]
  have "pc v + 5 + clen e + 2 \<le> length (code C)" using c(5) by simp
  from guarded(1) [OF IH small c(1-3) this v(2-4) refl] show "runs C v (pc v + clen (PNot e)) (PFail s1)"
  proof (rule runs_after)
    fix u assume u: "keep v u" "pc u = pc v + 6 + clen e" "st_of u = s1"
    have "vm_step C u = NEXT (FAIL_IMPL (u\<lparr>pc := Suc (pc u)\<rparr>))" using c(4) u(2) by (intro step_Fail) simp
    then show "runs C u (pc v + clen (PNot e)) (PFail s1)"
      by (rule runs_fail) (use u(3) in \<open>auto simp: keep_def st_of_def\<close>)
  qed
qed

section \<open>Repetition\<close>

definition sim_loop :: "constants \<Rightarrow> addr \<Rightarrow> (nat \<Rightarrow> nat) \<Rightarrow> nat \<Rightarrow> peg \<Rightarrow> pst \<Rightarrow> pst \<Rightarrow> bool" where
  "sim_loop C te A k e s s' \<longleftrightarrow> (\<forall>v f. code_at C (pc v) (emit A (pc v) e) \<longrightarrow>
     code_at C (pc v + clen e) [9] \<longrightarrow> code_at C (pc v + clen e + 1) (4 # enc32 (- int (clen e + 6))) \<longrightarrow>
     frame v f (pcur s) (pc v + clen e + 6) (ast_save_tx (past s)) (symtable_savepoint (ptab s)) \<longrightarrow>
     vsp v = vfp v + 5 \<longrightarrow> st_of v = s \<longrightarrow> tl_pos v = te \<longrightarrow> vsp v + k \<le> length (stack v) \<longrightarrow>
     (\<exists>u. steps C v u \<and> below v f u \<and> pc u = pc v + clen e + 6 \<and> st_of u = s'))"

lemma code_Star:
  assumes "code_at C a (emit A a (PStar x))"
  shows "code_at C a (2 # enc32 (int (clen x + 6)))" "code_at C (a + 5) (emit A (a + 5) x)"
    "code_at C (a + 5 + clen x) [9]" "code_at C (a + 5 + clen x + 1) (4 # enc32 (- int (clen x + 6)))"
    "a + 11 + clen x \<le> length (code C)"
  using assms code_at_le [OF assms] by (simp_all add: ac_simps)

lemma sim_Star:
  assumes IH: "sim_loop C te A k e s s1" and small: "length (code C) < 2 ^ 31"
  shows "sim C te A (k + 5) (PStar e) s (POk s1)"
proof (intro simI)
  fix v assume v: "code_at C (pc v) (emit A (pc v) (PStar e))" "st_of v = s" "tl_pos v = te" "vsp v + (k + 5) \<le> length (stack v)"
  note c = code_Star [OF v(1)]
  have "clen e + 6 < 2 ^ 31" "pc v + 5 + (clen e + 6) \<le> length (code C)" "vsp v + 5 \<le> length (stack v)"
    using c(5) small v(4) by simp_all
  from enter [OF c(1) this v(2)] obtain w where w: "entered C v (pc v + 5 + (clen e + 6)) s w" by blast
  then have pw: "pc w = pc v + 5" by (simp add: entered_def)
  have "\<exists>u. steps C w u \<and> below w (vfp v) u \<and> pc u = pc w + clen e + 6 \<and> st_of u = s1"
    using IH [unfolded sim_loop_def, rule_format, of w "vfp v"] c(2-4) w v(3,4)
    by (simp add: entered_def pw ac_simps)
  then obtain u where u: "steps C w u" "below w (vfp v) u" "pc u = pc w + clen e + 6" "st_of u = s1" by blast
  have "steps C v u" using w u(1) by (auto simp: entered_def intro: steps_trans)
  then show "runs C v (pc v + clen (PStar e)) (POk s1)"
    using left_keep [OF w u(2)] u(3,4) pw by (auto intro!: exI [of _ u] simp: ac_simps)
qed

lemma sim_Loop_end:
  assumes IH: "sim C te A k e s (PFail s1)" and le: "pcur s \<le> pcur s1" and rs: "restores s s1 s2"
  shows "sim_loop C te A k e s s2"
  unfolding sim_loop_def
proof (intro allI impI)
  fix v f assume c: "code_at C (pc v) (emit A (pc v) e)"
    and fr: "frame v f (pcur s) (pc v + clen e + 6) (ast_save_tx (past s)) (symtable_savepoint (ptab s))"
    and v: "vsp v = vfp v + 5" "st_of v = s" "tl_pos v = te" "vsp v + k \<le> length (stack v)"
  have "runs C v (pc v + clen e) (PFail s1)" using c v by (intro simD [OF IH]) simp_all
  from resume [OF fr v(1) this le rs] show "\<exists>u. steps C v u \<and> below v f u \<and> pc u = pc v + clen e + 6 \<and> st_of u = s2" .
qed

lemma Skip_stuck:
  assumes "code_at C (pc w) [9]" "frame w f (cur w) l tx sy"
  shows "vm_step C w = NEXT (FAIL_IMPL (w\<lparr>pc := Suc (pc w)\<rparr>))"
  using assms frame_slots [OF assms(2)] by (simp add: step_code OP_EACH_nth op_Skip_def aread_def)

lemma Skip_move:
  assumes c: "code_at C (pc w) [9]" and fr: "frame w f p l tx sy" and p: "p \<noteq> cur w"
  shows "\<exists>u. vm_step C w = Inr (Running u) \<and> frame u f (cur w) l (ast_save_tx (vast w)) (symtable_savepoint (vtable w)) \<and>
     u = w\<lparr>pc := Suc (pc w), stack := stack u\<rparr> \<and> length (stack u) = length (stack w) \<and>
     take (vfp w) (stack u) = take (vfp w) (stack w)"
proof -
  note sl = frame_slots [OF fr]
  let ?s = "(stack w)[vfp w + 1 := SPos (cur w), vfp w + 3 := SNum (ast_save_tx (vast w)),
      vfp w + 4 := SNum (symtable_savepoint (vtable w))]"
  let ?u = "w\<lparr>pc := Suc (pc w), stack := ?s\<rparr>"
  have "vm_step C w = Inr (Running ?u)"
    using c p sl by (simp add: step_code OP_EACH_nth op_Skip_def aread_def awrite_def NEXT_def)
  moreover have "take 5 (drop (vfp w) ?s) = [SFrame f, SPos (cur w), SCode l, SNum (ast_save_tx (vast w)), SNum (symtable_savepoint (vtable w))]"
  proof -
    have "take 5 (drop (vfp w) (stack w)) = [SFrame f, SPos p, SCode l, SNum tx, SNum sy]" using fr by (simp add: frame_def)
    then show ?thesis by (simp add: drop_update_swap take_update_swap)
  qed
  then have "frame ?u f (cur w) l (ast_save_tx (vast w)) (symtable_savepoint (vtable w))"
    using sl by (simp add: frame_def)
  ultimately show ?thesis by (intro exI [of _ ?u]) simp
qed

lemma sim_Loop_stuck:
  assumes IH: "sim C te A k e s (POk s1)" and eq: "pcur s1 = pcur s" and rs: "restores s s1 s2"
  shows "sim_loop C te A k e s s2"
  unfolding sim_loop_def
proof (intro allI impI)
  fix v f assume c: "code_at C (pc v) (emit A (pc v) e)" "code_at C (pc v + clen e) [9]"
    and fr: "frame v f (pcur s) (pc v + clen e + 6) (ast_save_tx (past s)) (symtable_savepoint (ptab s))"
    and v: "vsp v = vfp v + 5" "st_of v = s" "tl_pos v = te" "vsp v + k \<le> length (stack v)"
  have "runs C v (pc v + clen e) (POk s1)" using c v by (intro simD [OF IH]) simp_all
  then obtain w where w: "steps C v w" "keep v w" "vsp w = vsp v" "pc w = pc v + clen e" "st_of w = s1" by auto
  note k = keep_frame [OF w(2) v(1) fr]
  have "cur w = pcur s" using w(5) eq by auto
  then have "vm_step C w = NEXT (FAIL_IMPL (w\<lparr>pc := Suc (pc w)\<rparr>))" using Skip_stuck [of C w] k(1) c(2) w(4) by auto
  then have "runs C w (pc v + clen e) (PFail s1)"
    by (rule runs_fail) (use w(5) in \<open>auto simp: keep_def st_of_def\<close>)
  then have "runs C v (pc v + clen e) (PFail s1)" using runs_fail_above [OF w(1,2)] w(3) by auto
  from resume [OF fr v(1) this _ rs] eq show "\<exists>u. steps C v u \<and> below v f u \<and> pc u = pc v + clen e + 6 \<and> st_of u = s2"
    by simp
qed

lemma sim_Loop_more:
  assumes IH: "sim C te A k e s (POk s1)" and ne: "pcur s1 \<noteq> pcur s" and IH2: "sim_loop C te A k e s1 s2"
    and small: "length (code C) < 2 ^ 31"
  shows "sim_loop C te A k e s s2"
  unfolding sim_loop_def
proof (intro allI impI)
  fix v f assume c: "code_at C (pc v) (emit A (pc v) e)" "code_at C (pc v + clen e) [9]"
      "code_at C (pc v + clen e + 1) (4 # enc32 (- int (clen e + 6)))"
    and fr: "frame v f (pcur s) (pc v + clen e + 6) (ast_save_tx (past s)) (symtable_savepoint (ptab s))"
    and v: "vsp v = vfp v + 5" "st_of v = s" "tl_pos v = te" "vsp v + k \<le> length (stack v)"
  have "runs C v (pc v + clen e) (POk s1)" using c v by (intro simD [OF IH]) simp_all
  then obtain w where w: "steps C v w" "keep v w" "vsp w = vsp v" "pc w = pc v + clen e" "st_of w = s1" by auto
  note k = keep_frame [OF w(2) v(1) fr]
  have "pcur s \<noteq> cur w" using w(5) ne by auto
  from Skip_move [of C w, OF _ k(1) this] c(2) w(4) obtain x where
    x: "vm_step C w = Inr (Running x)"
      "frame x f (cur w) (pc v + clen e + 6) (ast_save_tx (vast w)) (symtable_savepoint (vtable w))"
      "x = w\<lparr>pc := Suc (pc w), stack := stack x\<rparr>" "length (stack x) = length (stack w)"
      "take (vfp w) (stack x) = take (vfp w) (stack w)" by auto
  let ?y = "x\<lparr>pc := pc v\<rparr>"
  have px: "pc x = pc v + clen e + 1" using x(3) w(4) by (metis add.commute plus_1_eq_Suc vm.select_convs(1) vm.surjective vm.update_convs(1) vm.update_convs(5))
  have le: "pc v + clen e + 6 \<le> length (code C)" using code_at_le [OF c(3)] by simp
  have "vm_step C x = Inr (Running ?y)"
    using c(3) px le small by (intro step_Jump [of C x "- int (clen e + 6)"]) simp_all
  then have st: "steps C v ?y" using w(1) steps_one [OF x(1)] steps_one by (blast intro: steps_trans)
  have xs: "vsp x = vsp w" "vfp x = vfp w" "st_of x = s1" "tl_pos x = tl_pos w" "vmemo x = vmemo w"
    using w(5) by (subst x(3), simp add: st_of_def)+
  have "frame ?y f (pcur s1) (pc v + clen e + 6) (ast_save_tx (past s1)) (symtable_savepoint (ptab s1))"
    using x(2) w(5) by (auto simp: frame_def)
  then have "\<exists>u. steps C ?y u \<and> below ?y f u \<and> pc u = pc ?y + clen e + 6 \<and> st_of u = s2"
    using c v xs x(4) w(3) k by (intro IH2 [unfolded sim_loop_def, rule_format]) (simp_all add: st_of_def)
  then obtain u where u: "steps C ?y u" "below ?y f u" "pc u = pc v + clen e + 6" "st_of u = s2" by auto
  have "below v f u" using u(2) xs k x(4,5) by (simp add: below_def)
  then show "\<exists>u. steps C v u \<and> below v f u \<and> pc u = pc v + clen e + 6 \<and> st_of u = s2"
    using st u by (blast intro: steps_trans)
qed

section \<open>Expressions above a pushed word\<close>

text \<open>\<open>pushed C v x w\<close>: the instruction at \<open>v\<close> pushed \<open>x\<close> and went on to \<open>w\<close>.\<close>

definition pushed :: "constants \<Rightarrow> vm \<Rightarrow> slot \<Rightarrow> vm \<Rightarrow> bool" where
  "pushed C v x w \<longleftrightarrow> vm_step C v = Inr (Running w) \<and> keep v w \<and> vsp w = Suc (vsp v) \<and>
     vsp w \<le> length (stack w) \<and> stack w ! vsp v = x"

lemma pushed_fail: "pushed C v x w \<Longrightarrow> runs C w e (PFail s) \<Longrightarrow> runs C v e' (PFail s)"
  by (rule runs_fail_above [of C v w]) (auto simp: pushed_def intro: steps_one)

lemma pushed_ok:
  assumes p: "pushed C v x w" and r: "runs C w e (POk s)"
  shows "\<exists>u. steps C v u \<and> keep v u \<and> vsp u = Suc (vsp v) \<and> pc u = e \<and> st_of u = s \<and>
     POP (u\<lparr>pc := n\<rparr>) = Inr (x, u\<lparr>pc := n, vsp := vsp v\<rparr>)"
proof -
  from r obtain u where u: "steps C w u" "keep w u" "vsp u = vsp w" "pc u = e" "st_of u = s" by auto
  have "steps C v u" using p u(1) by (auto simp: pushed_def intro: steps_step)
  moreover have "keep v u" using p u(2) keep_trans [of v w u] by (simp add: pushed_def)
  moreover have "take (vsp w) (stack u) ! vsp v = take (vsp w) (stack w) ! vsp v" using u(2) by (simp add: keep_def)
  then have "stack u ! vsp v = x" using p by (simp add: pushed_def)
  then have "POP (u\<lparr>pc := n\<rparr>) = Inr (x, u\<lparr>pc := n, vsp := vsp v\<rparr>)"
    using POP_ok [of "u\<lparr>pc := n\<rparr>"] p u(2,3) by (simp add: pushed_def keep_def)
  ultimately show ?thesis using u(3-5) p by (auto simp: pushed_def)
qed

lemma pushed_PUSH:
  assumes "vm_step C v = NEXT (PUSH v1 x)" "vsp v < length (stack v)" "keep v v1" "vsp v1 = vsp v"
  shows "\<exists>w. pushed C v x w \<and> pc w = pc v1 \<and> st_of w = st_of v1"
proof -
  have "vsp v1 < length (stack v1)" using assms(2-4) by (simp add: keep_def)
  note PUSH_ok [OF this, of x]
  then show ?thesis using assms
    by (intro exI [of _ "v1\<lparr>stack := (stack v1)[vsp v1 := x], vsp := Suc (vsp v1)\<rparr>"])
      (simp add: pushed_def NEXT_def keep_def st_of_def)
qed

text \<open>Reaching the end of the expression, popping the word and finishing.\<close>

lemma popped_ok:
  assumes p: "pushed C v x w" and r: "runs C w e (POk s)"
    and step: "\<And>u. pc u = e \<Longrightarrow> st_of u = s \<Longrightarrow> vsp u = Suc (vsp v) \<Longrightarrow>
      POP (u\<lparr>pc := n\<rparr>) = Inr (x, u\<lparr>pc := n, vsp := vsp v\<rparr>) \<Longrightarrow>
      \<exists>t. vm_step C u = NEXT (Inr t) \<and> keep (u\<lparr>vsp := vsp v\<rparr>) t \<and> vsp t = vsp v \<and> pc t = e' \<and> st_of t = s'"
  shows "runs C v e' (POk s')"
proof -
  from pushed_ok [OF p r, of n] obtain u where u: "steps C v u" "keep v u" "vsp u = Suc (vsp v)" "pc u = e" "st_of u = s"
     "POP (u\<lparr>pc := n\<rparr>) = Inr (x, u\<lparr>pc := n, vsp := vsp v\<rparr>)" by blast
  from step [OF u(4,5,3,6)] obtain t where t: "vm_step C u = NEXT (Inr t)" "keep (u\<lparr>vsp := vsp v\<rparr>) t" "vsp t = vsp v"
    "pc t = e'" "st_of t = s'" by blast
  have "steps C v t" using u(1) steps_one [of C u t] t(1) by (auto simp: NEXT_def intro: steps_trans)
  moreover have "keep v t" using keep_trans [of v "u\<lparr>vsp := vsp v\<rparr>" t] u(2) t(2) by (simp add: keep_def)
  ultimately show ?thesis using t(3-5) by auto
qed

lemma sim_And_ok:
  assumes IH: "sim C te A k e s (POk s1)"
  shows "sim C te A (k + 1) (PAnd e) s (POk (s1\<lparr>pcur := pcur s\<rparr>))"
proof (intro simI)
  fix v assume v: "code_at C (pc v) (emit A (pc v) (PAnd e))" "st_of v = s" "tl_pos v = te" "vsp v + (k + 1) \<le> length (stack v)"
  have c: "code_at C (pc v) [7]" "code_at C (pc v + 1) (emit A (pc v + 1) e)" "code_at C (pc v + 1 + clen e) [8]"
    using v(1) by simp_all
  let ?v = "v\<lparr>pc := pc v + 1\<rparr>"
  have "vm_step C v = NEXT (PUSH ?v (SPos (pcur s)))" using c(1) v(2) by (auto simp: step_code OP_EACH_nth op_Pos_def)
  from pushed_PUSH [OF this] v(4) obtain w where w: "pushed C v (SPos (pcur s)) w" "pc w = pc v + 1" "st_of w = st_of ?v"
    by (auto simp: keep_def)
  have run: "runs C w (pc v + 1 + clen e) (POk s1)"
    using c(2) w v by (intro simD [OF IH]) (auto simp: pushed_def keep_def st_of_def)
  show "runs C v (pc v + clen (PAnd e)) (POk (s1\<lparr>pcur := pcur s\<rparr>))"
  proof (rule popped_ok [OF w(1) run, of "pc v + 1 + clen e + 1"], goal_cases)
    case (1 u)
    let ?t = "u\<lparr>pc := pc v + 1 + clen e + 1, vsp := vsp v, cur := pcur s\<rparr>"
    have "vm_step C u = NEXT (Inr ?t)" using 1(1,4) c(3) by (simp add: step_code OP_EACH_nth op_Back_def)
    then show ?case using 1(2) by (intro exI [of _ ?t]) (auto simp: keep_def st_of_def)
  qed
qed

lemma sim_And_no:
  assumes IH: "sim C te A k e s (PFail s1)"
  shows "sim C te A (k + 1) (PAnd e) s (PFail s1)"
proof (intro simI)
  fix v assume v: "code_at C (pc v) (emit A (pc v) (PAnd e))" "st_of v = s" "tl_pos v = te" "vsp v + (k + 1) \<le> length (stack v)"
  let ?v = "v\<lparr>pc := pc v + 1\<rparr>"
  have "vm_step C v = NEXT (PUSH ?v (SPos (pcur s)))" using v(1,2) by (auto simp: step_code OP_EACH_nth op_Pos_def)
  from pushed_PUSH [OF this] v(4) obtain w where w: "pushed C v (SPos (pcur s)) w" "pc w = pc v + 1" "st_of w = st_of ?v"
    by (auto simp: keep_def)
  have "runs C w (pc v + 1 + clen e) (PFail s1)"
    using w v by (intro simD [OF IH]) (auto simp: pushed_def keep_def st_of_def)
  then show "runs C v (pc v + clen (PAnd e)) (PFail s1)" by (rule pushed_fail [OF w(1)])
qed

end
