(* ===== verification/VM1_Scopes.thy ===== *)
theory VM1_Scopes
  imports VM1_Correct
begin

text \<open>
  The simulation for the expressions that open a scope: links and nodes of the tree log, scopes and
  lookups of the symbol table, whose savepoints lie on the stack of the machine.
\<close>

section \<open>Links, scopes and symbols\<close>

text \<open>An expression above a pushed word, as it is used by the rules below.\<close>

lemma bracket_run:
  assumes "sim C te A k e s' r" "pushed C v x w" "pc w = b" "st_of w = s'"
    "code_at C b (emit A b e)" "tl_pos v = te" "vsp v + (k + 1) \<le> length (stack v)"
  shows "runs C w (b + clen e) r"
  using assms by (intro simD [OF assms(1)]) (auto simp: pushed_def keep_def)

lemma bracket_no:
  assumes "sim C te A k e s' (PFail s1)" "pushed C v x w" "pc w = b" "st_of w = s'"
    "code_at C b (emit A b e)" "tl_pos v = te" "vsp v + (k + 1) \<le> length (stack v)"
  shows "runs C v e' (PFail s1)"
  using pushed_fail [OF assms(2) bracket_run [OF assms]] .

lemma bracket_ok:
  assumes "sim C te A k e s' (POk s1)" "pushed C v x w" "pc w = b" "st_of w = s'"
    "code_at C b (emit A b e)" "tl_pos v = te" "vsp v + (k + 1) \<le> length (stack v)"
    and step: "\<And>u. pc u = b + clen e \<Longrightarrow> st_of u = s1 \<Longrightarrow> vsp u = Suc (vsp v) \<Longrightarrow>
      POP (u\<lparr>pc := n\<rparr>) = Inr (x, u\<lparr>pc := n, vsp := vsp v\<rparr>) \<Longrightarrow>
      \<exists>t. vm_step C u = NEXT (Inr t) \<and> keep (u\<lparr>vsp := vsp v\<rparr>) t \<and> vsp t = vsp v \<and> pc t = e' \<and> st_of t = s2"
  shows "runs C v e' (POk s2)"
  using popped_ok [OF assms(2) bracket_run [OF assms(1-7)], of n] step by blast

lemma push_TStart:
  assumes "code_at C (pc v) [38]" "st_of v = s" "vsp v + (k + 1) \<le> length (stack v)"
  shows "\<exists>w. pushed C v (SNum (ast_save_tx (past s))) w \<and> pc w = pc v + 1 \<and> st_of w = s"
proof -
  let ?v = "v\<lparr>pc := pc v + 1\<rparr>"
  have "vm_step C v = NEXT (PUSH ?v (SNum (ast_save_tx (past s))))"
    using assms by (auto simp: step_code OP_EACH_nth op_TStart_def)
  from pushed_PUSH [OF this] assms(2,3) show ?thesis by (auto simp: keep_def st_of_def)
qed

lemma push_SOpen:
  assumes "code_at C (pc v) [43]" "st_of v = s" "vsp v + (k + 1) \<le> length (stack v)"
  shows "\<exists>w. pushed C v (SNum (symtable_savepoint (ptab s))) w \<and> pc w = pc v + 1 \<and> st_of w = s"
proof -
  let ?v = "v\<lparr>pc := pc v + 1\<rparr>"
  have "vm_step C v = NEXT (PUSH ?v (SNum (symtable_savepoint (ptab s))))"
    using assms by (auto simp: step_code OP_EACH_nth op_SOpen_def)
  from pushed_PUSH [OF this] assms(2,3) show ?thesis by (auto simp: keep_def st_of_def)
qed

lemma push_Pos:
  assumes "code_at C (pc v) [7]" "st_of v = s" "vsp v + (k + 1) \<le> length (stack v)"
  shows "\<exists>w. pushed C v (SPos (pcur s)) w \<and> pc w = pc v + 1 \<and> st_of w = s"
proof -
  let ?v = "v\<lparr>pc := pc v + 1\<rparr>"
  have "vm_step C v = NEXT (PUSH ?v (SPos (pcur s)))"
    using assms by (auto simp: step_code OP_EACH_nth op_Pos_def)
  from pushed_PUSH [OF this] assms(2,3) show ?thesis by (auto simp: keep_def st_of_def)
qed

lemma read_table_ok:
  assumes "code_at C (pc v) (enc16 t)" "aread (tables C) (unat t) = Inr n"
  shows "read_table C v = Inr (n, v\<lparr>pc := pc v + 2\<rparr>)"
  using read_uint16 [OF assms(1)] assms(2) by (simp add: read_table_def)

lemma push_SMask:
  assumes c: "code_at C (pc v) (45 # enc16 t)" and s: "st_of v = s" "vsp v + (k + 1) \<le> length (stack v)"
    and t: "aread (tables C) (unat t) = Inr n" "symtable_add_symbol_mask (stale C) (ptab s) n = Inr tb"
  shows "\<exists>w. pushed C v (SNum (symtable_savepoint (ptab s))) w \<and> pc w = pc v + 3 \<and> st_of w = s\<lparr>ptab := tb\<rparr>"
proof -
  let ?v = "v\<lparr>pc := pc v + 3\<rparr>"
  have r: "read_table C (v\<lparr>pc := Suc (pc v)\<rparr>) = Inr (n, ?v)"
    using read_table_ok [of C "v\<lparr>pc := Suc (pc v)\<rparr>" t n] c t(1) by (simp add: numeral_3_eq_3)
  have p: "PUSH ?v (SNum (symtable_savepoint (vtable v))) =
      Inr (?v\<lparr>stack := (stack v)[vsp v := SNum (symtable_savepoint (vtable v))], vsp := Suc (vsp v)\<rparr>)" (is "_ = Inr ?u")
    using PUSH_ok [of ?v] s(2) by simp
  let ?w = "?u\<lparr>vtable := tb\<rparr>"
  have "vm_step C v = Inr (Running ?w)"
    using c r p t(2) s(1) by (auto simp: step_code OP_EACH_nth op_SMask_def NEXT_def)
  then show ?thesis using s by (intro exI [of _ ?w]) (auto simp: pushed_def keep_def st_of_def)
qed

lemma code_Link:
  assumes "code_at C a (emit A a (PLink l e))"
  shows "code_at C a [38]" "code_at C (a + 1) (emit A (a + 1) e)" "code_at C (a + 1 + clen e) (39 # enc16 l)"
  using assms by simp_all

lemma sim_Link_ok:
  assumes IH: "sim C te A k e s (POk s1)"
    and cm: "ast_commit_tx (past s1) (pheap s1) l (ast_save_tx (past s)) = Inr (a, h)"
  shows "sim C te A (k + 1) (PLink l e) s (POk (s1\<lparr>past := a, pheap := h\<rparr>))"
proof (intro simI)
  fix v assume v: "code_at C (pc v) (emit A (pc v) (PLink l e))" "st_of v = s" "tl_pos v = te" "vsp v + (k + 1) \<le> length (stack v)"
  note c = code_Link [OF v(1)]
  from push_TStart [OF c(1) v(2,4)] obtain w where w: "pushed C v (SNum (ast_save_tx (past s))) w" "pc w = pc v + 1" "st_of w = s" by blast
  show "runs C v (pc v + clen (PLink l e)) (POk (s1\<lparr>past := a, pheap := h\<rparr>))"
  proof (rule bracket_ok [OF IH w c(2) v(3,4), of "pc v + 1 + clen e + 3"], goal_cases)
    case (1 u)
    let ?t = "u\<lparr>pc := pc v + 1 + clen e + 3, vsp := vsp v, vast := a, vheap := h\<rparr>"
    have "read_uint16_t C (u\<lparr>pc := Suc (pc u)\<rparr>) = Inr (l, u\<lparr>pc := pc v + 1 + clen e + 3\<rparr>)"
      using read_uint16 [of C "u\<lparr>pc := Suc (pc u)\<rparr>" l] c(3) 1(1) by (simp add: numeral_3_eq_3)
    then have "vm_step C u = NEXT (Inr ?t)"
      using 1 c(3) cm by (auto simp: step_code OP_EACH_nth op_TCommit_def)
    then show ?case using 1(2) by (intro exI [of _ ?t]) (auto simp: keep_def st_of_def)
  qed
qed

lemma sim_Link_no:
  assumes IH: "sim C te A k e s (PFail s1)"
  shows "sim C te A (k + 1) (PLink l e) s (PFail s1)"
proof (intro simI)
  fix v assume v: "code_at C (pc v) (emit A (pc v) (PLink l e))" "st_of v = s" "tl_pos v = te" "vsp v + (k + 1) \<le> length (stack v)"
  note c = code_Link [OF v(1)]
  from push_TStart [OF c(1) v(2,4)] obtain w where w: "pushed C v (SNum (ast_save_tx (past s))) w" "pc w = pc v + 1" "st_of w = s" by blast
  show "runs C v (pc v + clen (PLink l e)) (PFail s1)" by (rule bracket_no [OF IH w c(2) v(3,4)])
qed

text \<open>\<open>SClose\<close> ends a block and a local scope.\<close>

lemma step_SClose:
  assumes "code_at C (pc u) [44]" "POP (u\<lparr>pc := Suc (pc u)\<rparr>) = Inr (SNum sp, u\<lparr>pc := Suc (pc u), vsp := b\<rparr>)" "st_of u = s1"
  shows "\<exists>t. vm_step C u = NEXT (Inr t) \<and> keep (u\<lparr>vsp := b\<rparr>) t \<and> vsp t = b \<and> pc t = Suc (pc u) \<and>
    st_of t = s1\<lparr>ptab := symtable_rollback (ptab s1) sp\<rparr>"
proof -
  let ?t = "u\<lparr>pc := Suc (pc u), vsp := b, vtable := symtable_rollback (ptab s1) sp\<rparr>"
  have "vm_step C u = NEXT (Inr ?t)" using assms by (auto simp: step_code OP_EACH_nth op_SClose_def)
  then show ?thesis using assms(3) by (intro exI [of _ ?t]) (auto simp: keep_def st_of_def)
qed

lemma scope_ok:
  assumes IH: "sim C te A k e s' (POk s1)" and w: "pushed C v (SNum sp) w" "pc w = b" "st_of w = s'"
    and c: "code_at C b (emit A b e)" "code_at C (b + clen e) [44]" and v: "tl_pos v = te" "vsp v + (k + 1) \<le> length (stack v)"
  shows "runs C v (Suc (b + clen e)) (POk (s1\<lparr>ptab := symtable_rollback (ptab s1) sp\<rparr>))"
proof (rule bracket_ok [OF IH w c(1) v, of "Suc (b + clen e)"], goal_cases)
  case (1 u)
  with step_SClose [of C u sp "vsp v" s1] c(2) show ?case by simp
qed

lemma sim_Block_ok:
  assumes IH: "sim C te A k e s (POk s1)"
  shows "sim C te A (k + 1) (PBlock e) s (POk (s1\<lparr>ptab := symtable_rollback (ptab s1) (symtable_savepoint (ptab s))\<rparr>))"
proof (intro simI)
  fix v assume v: "code_at C (pc v) (emit A (pc v) (PBlock e))" "st_of v = s" "tl_pos v = te" "vsp v + (k + 1) \<le> length (stack v)"
  have c: "code_at C (pc v) [43]" "code_at C (pc v + 1) (emit A (pc v + 1) e)" "code_at C (pc v + 1 + clen e) [44]"
    using v(1) by simp_all
  from push_SOpen [OF c(1) v(2,4)] obtain w where w: "pushed C v (SNum (symtable_savepoint (ptab s))) w" "pc w = pc v + 1" "st_of w = s" by blast
  from scope_ok [OF IH w c(2,3) v(3,4)]
  show "runs C v (pc v + clen (PBlock e)) (POk (s1\<lparr>ptab := symtable_rollback (ptab s1) (symtable_savepoint (ptab s))\<rparr>))" by simp
qed

lemma sim_Block_no:
  assumes IH: "sim C te A k e s (PFail s1)"
  shows "sim C te A (k + 1) (PBlock e) s (PFail s1)"
proof (intro simI)
  fix v assume v: "code_at C (pc v) (emit A (pc v) (PBlock e))" "st_of v = s" "tl_pos v = te" "vsp v + (k + 1) \<le> length (stack v)"
  have c: "code_at C (pc v) [43]" "code_at C (pc v + 1) (emit A (pc v + 1) e)" using v(1) by simp_all
  from push_SOpen [OF c(1) v(2,4)] obtain w where w: "pushed C v (SNum (symtable_savepoint (ptab s))) w" "pc w = pc v + 1" "st_of w = s" by blast
  show "runs C v (pc v + clen (PBlock e)) (PFail s1)" by (rule bracket_no [OF IH w c(2) v(3,4)])
qed

lemma code_Local:
  assumes "code_at C a (emit A a (PLocal t e))"
  shows "code_at C a (45 # enc16 t)" "code_at C (a + 3) (emit A (a + 3) e)" "code_at C (a + 3 + clen e) [44]"
  using assms by (simp_all add: numeral_3_eq_3)

lemma sim_Local_ok:
  assumes t: "aread (tables C) (unat t) = Inr n" "symtable_add_symbol_mask (stale C) (ptab s) n = Inr tb"
    and IH: "sim C te A k e (s\<lparr>ptab := tb\<rparr>) (POk s1)"
  shows "sim C te A (k + 1) (PLocal t e) s (POk (s1\<lparr>ptab := symtable_rollback (ptab s1) (symtable_savepoint (ptab s))\<rparr>))"
proof (intro simI)
  fix v assume v: "code_at C (pc v) (emit A (pc v) (PLocal t e))" "st_of v = s" "tl_pos v = te" "vsp v + (k + 1) \<le> length (stack v)"
  note c = code_Local [OF v(1)]
  from push_SMask [OF c(1) v(2,4) t] obtain w where
    w: "pushed C v (SNum (symtable_savepoint (ptab s))) w" "pc w = pc v + 3" "st_of w = s\<lparr>ptab := tb\<rparr>" by blast
  from scope_ok [OF IH w c(2,3) v(3,4)]
  show "runs C v (pc v + clen (PLocal t e)) (POk (s1\<lparr>ptab := symtable_rollback (ptab s1) (symtable_savepoint (ptab s))\<rparr>))"
    by (simp add: ac_simps numeral_3_eq_3 numeral_eq_Suc)
qed

lemma sim_Local_no:
  assumes t: "aread (tables C) (unat t) = Inr n" "symtable_add_symbol_mask (stale C) (ptab s) n = Inr tb"
    and IH: "sim C te A k e (s\<lparr>ptab := tb\<rparr>) (PFail s1)"
  shows "sim C te A (k + 1) (PLocal t e) s (PFail s1)"
proof (intro simI)
  fix v assume v: "code_at C (pc v) (emit A (pc v) (PLocal t e))" "st_of v = s" "tl_pos v = te" "vsp v + (k + 1) \<le> length (stack v)"
  note c = code_Local [OF v(1)]
  from push_SMask [OF c(1) v(2,4) t] obtain w where
    w: "pushed C v (SNum (symtable_savepoint (ptab s))) w" "pc w = pc v + 3" "st_of w = s\<lparr>ptab := tb\<rparr>" by blast
  show "runs C v (pc v + clen (PLocal t e)) (PFail s1)" by (rule bracket_no [OF IH w c(2) v(3,4)])
qed

text \<open>The instruction that ends a captured symbol: from \<open>u\<close>, with the word on top popped.\<close>

definition ends :: "constants \<Rightarrow> vm \<Rightarrow> nat \<Rightarrow> pst \<Rightarrow> bool \<Rightarrow> symtable_t \<Rightarrow> bool" where
  "ends C u q s b tb \<longleftrightarrow> (\<exists>t. keep (u\<lparr>vsp := q\<rparr>) t \<and>
     (if b then vm_step C u = NEXT (Inr t) \<and> vsp t = q \<and> pc t = pc u + 3 \<and> st_of t = s\<lparr>ptab := tb\<rparr>
      else vm_step C u = NEXT (FAIL_IMPL t) \<and> st_of t = s))"

lemma ends_okI:
  "vm_step C u = NEXT (Inr (u\<lparr>pc := pc u + 3, vsp := q, vtable := tb\<rparr>)) \<Longrightarrow> st_of u = s \<Longrightarrow> ends C u q s True tb"
  unfolding ends_def by (rule exI [of _ "u\<lparr>pc := pc u + 3, vsp := q, vtable := tb\<rparr>"]) (auto simp: keep_def st_of_def)

lemma ends_noI:
  "vm_step C u = NEXT (FAIL_IMPL (u\<lparr>pc := pc u + 3, vsp := q'\<rparr>)) \<Longrightarrow> st_of u = s \<Longrightarrow> ends C u q s False tb"
  unfolding ends_def by (rule exI [of _ "u\<lparr>pc := pc u + 3, vsp := q'\<rparr>"]) (auto simp: keep_def st_of_def)

lemma step_cap:
  assumes c: "code_at C (pc u) (sym_code x)" and s: "st_of u = s1" and cp: "cap C x p s1 = Inr (b, tb)"
    and pop: "POP (u\<lparr>pc := pc u + 3\<rparr>) = Inr (SPos p, u\<lparr>pc := pc u + 3, vsp := q\<rparr>)"
  shows "ends C u q s1 b tb"
proof -
  let ?u = "u\<lparr>pc := pc u + 3\<rparr>"
  have tok: "pop_token ?u = Inr (token_init p (cur u), ?u\<lparr>vsp := q\<rparr>)" using pop by (simp add: pop_token_def)
  have rd: "read_table C (u\<lparr>pc := Suc (pc u)\<rparr>) = Inr (n, ?u)"
    if "code_at C (Suc (pc u)) (enc16 t)" "aread (tables C) (unat t) = Inr n" for t n
    using read_table_ok [of C "u\<lparr>pc := Suc (pc u)\<rparr>" t n] that by (simp add: numeral_3_eq_3)
  have same: "u\<lparr>pc := n, vsp := m, vtable := vtable u\<rparr> = u\<lparr>pc := n, vsp := m\<rparr>" for n m by (cases u) simp
  have id: "u\<lparr>pc := n, vsp := vsp u\<rparr> = u\<lparr>pc := n\<rparr>" for n by (cases u) simp
  show ?thesis
  proof (cases x)
    case (CDef t)
    with cp s obtain n where n: "aread (tables C) (unat t) = Inr n"
      "symtable_add_symbol (vmem C) (stale C) (vtable u) n (token_init p (cur u)) = Inr tb" "b"
      by (auto simp: rbind_eq_Inr)
    have "vm_step C u = NEXT (Inr (u\<lparr>pc := pc u + 3, vsp := q, vtable := tb\<rparr>))"
      using c CDef rd [OF _ n(1)] tok n(2) by (simp add: step_code OP_EACH_nth op_SDef_def)
    from ends_okI [OF this s] n(3) show ?thesis by simp
  next
    case (CIs t)
    with cp s obtain n where n1: "aread (tables C) (unat t) = Inr n"
      "rbind (symtable_get_symbol (vtable u) n (stale C)) (\<lambda>(found, tk).
         if found then rbind (token_equal (vmem C) tk (token_init p (cur u))) (\<lambda>b. Inr (b, vtable u))
         else Inr (False, vtable u)) = Inr (b, tb)" by (auto simp: rbind_eq_Inr [of "aread _ _"] cong: if_cong)
    then obtain found tk where n2: "symtable_get_symbol (vtable u) n (stale C) = Inr (found, tk)"
      "(if found then rbind (token_equal (vmem C) tk (token_init p (cur u))) (\<lambda>b. Inr (b, vtable u))
         else Inr (False, vtable u)) = Inr (b, tb)" by (auto simp: rbind_eq_Inr [of "symtable_get_symbol _ _ _"])
    then have n: "aread (tables C) (unat t) = Inr n"
      "symtable_get_symbol (vtable u) n (stale C) = Inr (found, tk)" "tb = vtable u"
      "found \<Longrightarrow> token_equal (vmem C) tk (token_init p (cur u)) = Inr b" "\<not> found \<Longrightarrow> \<not> b"
      using n1(1) by (auto simp: rbind_eq_Inr split: if_splits)
    have step: "vm_step C u = NEXT (if found then if b then Inr (?u\<lparr>vsp := q\<rparr>) else FAIL_IMPL (?u\<lparr>vsp := q\<rparr>) else FAIL_IMPL ?u)"
      using c CIs rd [OF _ n(1)] tok n(2,4) by (auto simp: step_code OP_EACH_nth op_SIs_def)
    show ?thesis
    proof (cases b)
      case True
      with n(5) have "found" by blast
      with True step same n(3) have "vm_step C u = NEXT (Inr (u\<lparr>pc := pc u + 3, vsp := q, vtable := tb\<rparr>))" by simp
      from ends_okI [OF this s] True show ?thesis by simp
    next
      case False
      have "vm_step C u = NEXT (FAIL_IMPL (u\<lparr>pc := pc u + 3, vsp := if found then q else vsp u\<rparr>))"
        using step False id by simp
      from ends_noI [OF this s] False show ?thesis by simp
    qed
  next
    case (CIsa t)
    with cp s obtain n where n: "aread (tables C) (unat t) = Inr n" "tb = vtable u"
      "symtable_contains (vmem C) (vtable u) n (token_init p (cur u)) = Inr b"
      by (auto simp: rbind_eq_Inr)
    have step: "vm_step C u = NEXT (if b then Inr (?u\<lparr>vsp := q\<rparr>) else FAIL_IMPL (?u\<lparr>vsp := q\<rparr>))"
      using c CIsa rd [OF _ n(1)] tok n(3) by (auto simp: step_code OP_EACH_nth op_SIsa_def)
    show ?thesis
    proof (cases b)
      case True
      with step same n(2) have "vm_step C u = NEXT (Inr (u\<lparr>pc := pc u + 3, vsp := q, vtable := tb\<rparr>))" by simp
      from ends_okI [OF this s] True show ?thesis by simp
    next
      case False
      with step have "vm_step C u = NEXT (FAIL_IMPL (u\<lparr>pc := pc u + 3, vsp := q\<rparr>))" by simp
      from ends_noI [OF this s] False show ?thesis by simp
    qed
  qed
qed

lemma length_sym_code [simp]: "length (sym_code x) = 3"
  by (cases x) simp_all

lemma code_Sym:
  assumes "code_at C a (emit A a (PSym x e))"
  shows "code_at C a [7]" "code_at C (a + 1) (emit A (a + 1) e)" "code_at C (a + 1 + clen e) (sym_code x)"
  using assms by simp_all

lemma sim_Sym_ok:
  assumes IH: "sim C te A k e s (POk s1)" and cp: "cap C x (pcur s) s1 = Inr (b, tb)"
  shows "sim C te A (k + 1) (PSym x e) s (if b then POk (s1\<lparr>ptab := tb\<rparr>) else PFail s1)"
proof (intro simI)
  fix v assume v: "code_at C (pc v) (emit A (pc v) (PSym x e))" "st_of v = s" "tl_pos v = te" "vsp v + (k + 1) \<le> length (stack v)"
  note c = code_Sym [OF v(1)]
  let ?e = "pc v + clen (PSym x e)" and ?m = "pc v + 1 + clen e"
  from push_Pos [OF c(1) v(2,4)] obtain w where w: "pushed C v (SPos (pcur s)) w" "pc w = pc v + 1" "st_of w = s" by blast
  have e: "ends C u (vsp v) s1 b tb" if "pc u = ?m" "st_of u = s1"
    "POP (u\<lparr>pc := ?m + 3\<rparr>) = Inr (SPos (pcur s), u\<lparr>pc := ?m + 3, vsp := vsp v\<rparr>)" for u
    using step_cap [of C u x s1 "pcur s" b tb "vsp v"] that c(3) cp by simp
  show "runs C v ?e (if b then POk (s1\<lparr>ptab := tb\<rparr>) else PFail s1)"
  proof (cases b)
    case True
    have "runs C v ?e (POk (s1\<lparr>ptab := tb\<rparr>))"
    proof (rule bracket_ok [OF IH w c(2) v(3,4), of "?m + 3"], goal_cases)
      case (1 u)
      with e [of u] True show ?case by (auto simp: ends_def)
    qed
    with True show ?thesis by simp
  next
    case False
    from pushed_ok [OF w(1) bracket_run [OF IH w c(2) v(3,4)], of "?m + 3"] obtain u where
      u: "steps C v u" "keep v u" "pc u = ?m" "st_of u = s1"
        "POP (u\<lparr>pc := ?m + 3\<rparr>) = Inr (SPos (pcur s), u\<lparr>pc := ?m + 3, vsp := vsp v\<rparr>)" by blast
    from e [OF u(3-5)] False obtain t where t: "vm_step C u = NEXT (FAIL_IMPL t)" "keep (u\<lparr>vsp := vsp v\<rparr>) t" "st_of t = s1"
      by (auto simp: ends_def)
    have "keep v t" using keep_trans [of v "u\<lparr>vsp := vsp v\<rparr>" t] u(2) t(2) by (simp add: keep_def)
    with u(1) t False show ?thesis by auto
  qed
qed

lemma sim_Sym_no:
  assumes IH: "sim C te A k e s (PFail s1)"
  shows "sim C te A (k + 1) (PSym x e) s (PFail s1)"
proof (intro simI)
  fix v assume v: "code_at C (pc v) (emit A (pc v) (PSym x e))" "st_of v = s" "tl_pos v = te" "vsp v + (k + 1) \<le> length (stack v)"
  note c = code_Sym [OF v(1)]
  from push_Pos [OF c(1) v(2,4)] obtain w where w: "pushed C v (SPos (pcur s)) w" "pc w = pc v + 1" "st_of w = s" by blast
  show "runs C v (pc v + clen (PSym x e)) (PFail s1)" by (rule bracket_no [OF IH w c(2) v(3,4)])
qed

section \<open>Actions\<close>

lemma at_shift_eq: "st_of v = s \<Longrightarrow> shifted v (sint d) = at_shift s d"
  by (auto simp: shifted_def at_shift_def)

lemma read2:
  assumes "code_at C (Suc (pc v)) (enc16 w)"
  shows "read_uint16_t C (v\<lparr>pc := Suc (pc v)\<rparr>) = Inr (w, v\<lparr>pc := pc v + 3\<rparr>)"
  using read_uint16 [of C "v\<lparr>pc := Suc (pc v)\<rparr>" w] assms by (simp add: numeral_3_eq_3)

lemma read2':
  assumes "code_at C (Suc (Suc (pc v))) (enc16 w)"
  shows "read_uint16_t C (v\<lparr>pc := Suc (Suc (pc v))\<rparr>) = Inr (w, v\<lparr>pc := pc v + 4\<rparr>)"
  using read_uint16 [of C "v\<lparr>pc := Suc (Suc (pc v))\<rparr>" w] assms by (simp add: numeral_eq_Suc)

lemma shifted_pc [simp]: "shifted (v\<lparr>pc := n\<rparr>) d = shifted v d"
  by (simp add: shifted_def)

lemma step_act:
  assumes c: "code_at C (pc v) (act_code x)" and s: "st_of v = s" and a: "act C x s = Inr a"
  shows "vm_step C v = NEXT (Inr (v\<lparr>pc := pc v + length (act_code x), vast := a\<rparr>))"
  using assms at_shift_eq [OF s]
  by (cases x) (auto simp: step_code OP_EACH_nth read2 read2' on_ast_def op_TNew_def op_TCapture_def op_TTag_def
      op_TReplace_def op_TPush_def op_TPop_def op_TLeftFold_def rbind_eq_Inr)

lemma sim_Act:
  assumes "act C x s = Inr a"
  shows "sim C te A k (PAct x) s (POk (s\<lparr>past := a\<rparr>))"
proof (intro simI)
  fix v assume v: "code_at C (pc v) (emit A (pc v) (PAct x))" "st_of v = s"
  then have "vm_step C v = NEXT (Inr (v\<lparr>pc := pc v + length (act_code x), vast := a\<rparr>))"
    using step_act [of C v x s a] assms by simp
  then show "runs C v (pc v + clen (PAct x)) (POk (s\<lparr>past := a\<rparr>))"
    by (rule one_ok) (use v(2) in \<open>auto simp: keep_def st_of_def\<close>)
qed

lemma sim_Exists:
  assumes t: "aread (tables C) (unat t) = Inr n" "symtable_has_symbol (ptab s) n = Inr b"
  shows "sim C te A k (PExists t) s (if b then POk s else PFail s)"
proof (intro simI)
  fix v assume v: "code_at C (pc v) (emit A (pc v) (PExists t))" "st_of v = s"
  let ?w = "v\<lparr>pc := pc v + 3\<rparr>"
  have "vm_step C v = NEXT (if b then Inr ?w else FAIL_IMPL ?w)"
    using v t by (auto simp: step_code OP_EACH_nth op_SExists_def read_table_def read2)
  then show "runs C v (pc v + clen (PExists t)) (if b then POk s else PFail s)"
    using one_ok [of C v ?w] runs_fail [of C v ?w s] v(2) by (cases b) (simp_all add: keep_def st_of_def)
qed

lemma sim_Match:
  assumes m: "sym_match C t s = Inr x"
  shows "sim C te A k (PMatch t) s (case x of Some n \<Rightarrow> POk (adv s n) | None \<Rightarrow> PFail s)"
proof (intro simI)
  fix v assume v: "code_at C (pc v) (emit A (pc v) (PMatch t))" "st_of v = s"
  let ?w = "v\<lparr>pc := pc v + 3\<rparr>"
  have "vm_step C v = NEXT (case x of Some n \<Rightarrow> Inr (CONSUME_N ?w (int n)) | None \<Rightarrow> FAIL_IMPL ?w)"
    using v m by (auto simp: step_code OP_EACH_nth op_SMatch_def read_table_def read2 sym_match_def rbind_eq_Inr split: if_splits)
  note step = this
  show "runs C v (pc v + clen (PMatch t)) (case x of Some n \<Rightarrow> POk (adv s n) | None \<Rightarrow> PFail s)"
  proof (cases x)
    case None
    with step runs_fail [of C v ?w s] v(2) show ?thesis by (simp add: keep_def st_of_def)
  next
    case (Some n)
    with step have "vm_step C v = NEXT (Inr (CONSUME_N ?w (int n)))" by simp
    then have "runs C v (pc v + clen (PMatch t)) (POk (adv s n))"
      by (rule one_ok) (use v(2) in \<open>auto simp: keep_def st_of_def CONSUME_N_def adv_def nat_int_add\<close>)
    with Some show ?thesis by simp
  qed
qed

section \<open>Calls\<close>

text \<open>The rules of the grammar are in the code, each at its address.\<close>

definition linked :: "constants \<Rightarrow> (nat \<Rightarrow> nat) \<Rightarrow> peg list \<Rightarrow> bool" where
  "linked C A G \<longleftrightarrow> length (code C) < 2 ^ 31 \<and> (\<forall>X < length G. code_at C (A X) (rule_code A (A X) (G ! X)) \<and> ascii (G ! X))"

lemma linkedD:
  assumes "linked C A G" "X < length G"
  shows "code_at C (A X) (emit A (A X) (G ! X))" "code_at C (A X + clen (G ! X)) (6 # enc32 0)" "ascii (G ! X)"
    "A X + clen (G ! X) + 5 \<le> length (code C)"
  using assms code_at_le [of C "A X" "rule_code A (A X) (G ! X)"] by (auto simp: linked_def rule_code_def)

lemma small: "linked C A G \<Longrightarrow> length (code C) < 2 ^ 31"
  by (simp add: linked_def)

lemma step_Call:
  assumes c: "code_at C (pc v) (5 # enc32 0 @ enc32 (int t - int (pc v) - 9))" and t: "t \<le> length (code C)"
    and small: "length (code C) < 2 ^ 31" and sp: "vsp v < length (stack v)"
  shows "\<exists>w. pushed C v (SCode (pc v + 9)) w \<and> pc w = t \<and> st_of w = st_of v"
proof -
  have le: "pc v + 9 \<le> length (code C)" using code_at_le [OF c] by simp
  let ?r = "int t - int (pc v) - 9"
  have b: "- (2 ^ 31) \<le> ?r" "?r < 2 ^ 31" using le t small by simp_all
  have cc: "code_at C (Suc (pc v)) (enc32 0)" "code_at C (pc v + 5) (enc32 ?r)" using c by (simp_all add: numeral_eq_Suc)
  have r1: "read_mozaddr_t C (v\<lparr>pc := Suc (pc v)\<rparr>) = Inr (0, v\<lparr>pc := pc v + 5\<rparr>)"
    using read_mozaddr [of C "v\<lparr>pc := Suc (pc v)\<rparr>" 0] cc(1) by simp
  have r2: "read_mozaddr_t C (v\<lparr>pc := pc v + 5\<rparr>) = Inr (?r, v\<lparr>pc := pc v + 9\<rparr>)"
    using read_mozaddr [of C "v\<lparr>pc := pc v + 5\<rparr>" ?r] cc(2) b by simp
  have p: "code_ptr C (v\<lparr>pc := pc v + 9\<rparr>) 0 = Inr (pc v + 9)" using le by (intro code_ptr_ok) simp_all
  let ?u = "v\<lparr>pc := pc v + 9, stack := (stack v)[vsp v := SCode (pc v + 9)], vsp := Suc (vsp v)\<rparr>"
  have pu: "PUSH (v\<lparr>pc := pc v + 9\<rparr>) (SCode (pc v + 9)) = Inr ?u" using PUSH_ok [of "v\<lparr>pc := pc v + 9\<rparr>"] sp by simp
  have j: "JUMP C ?u ?r = Inr (?u\<lparr>pc := t\<rparr>)" using le t by (intro jump_ok) simp_all
  have "vm_step C v = Inr (Running (?u\<lparr>pc := t\<rparr>))"
    using c r1 r2 p pu j by (simp add: step_code OP_EACH_nth op_Call_def NEXT_def)
  then show ?thesis using sp by (intro exI [of _ "?u\<lparr>pc := t\<rparr>"]) (simp add: pushed_def keep_def st_of_def)
qed

lemma step_Ret:
  assumes c: "code_at C (pc u) (6 # enc32 0)" and pop: "POP (u\<lparr>pc := pc u + 5\<rparr>) = Inr (SCode r, u\<lparr>pc := pc u + 5, vsp := q\<rparr>)"
  shows "vm_step C u = NEXT (Inr (u\<lparr>vsp := q, pc := r\<rparr>))"
proof -
  have "read_mozaddr_t C (u\<lparr>pc := Suc (pc u)\<rparr>) = Inr (0, u\<lparr>pc := pc u + 5\<rparr>)"
    using read_mozaddr [of C "u\<lparr>pc := Suc (pc u)\<rparr>" 0] c by simp
  then show ?thesis using c pop by (simp add: step_code OP_EACH_nth op_Ret_def)
qed

lemma sim_Call:
  assumes L: "linked C A G" and X: "X < length G" and IH: "sim C te A k (G ! X) s r"
  shows "sim C te A (k + 1) (PCall X) s r"
proof (intro simI)
  fix v assume v: "code_at C (pc v) (emit A (pc v) (PCall X))" "st_of v = s" "tl_pos v = te" "vsp v + (k + 1) \<le> length (stack v)"
  note l = linkedD [OF L X]
  have "length (code C) < 2 ^ 31" "A X \<le> length (code C)" "vsp v < length (stack v)" using L l(4) v(4) by (simp_all add: linked_def)
  with step_Call [of C v "A X"] v(1,2) obtain w where w: "pushed C v (SCode (pc v + 9)) w" "pc w = A X" "st_of w = s" by auto
  show "runs C v (pc v + clen (PCall X)) r"
  proof (cases r)
    case (POk s1)
    have "runs C v (pc v + 9) (POk s1)"
    proof (rule bracket_ok [OF IH [unfolded POk] w l(1) v(3,4), of "A X + clen (G ! X) + 5"], goal_cases)
      case (1 u)
      let ?t = "u\<lparr>vsp := vsp v, pc := pc v + 9\<rparr>"
      have "vm_step C u = NEXT (Inr ?t)" using 1 l(2) by (intro step_Ret) simp_all
      then show ?case using 1(2) by (intro exI [of _ ?t]) (auto simp: keep_def st_of_def)
    qed
    with POk show ?thesis by simp
  next
    case (PFail s1)
    from bracket_no [OF IH [unfolded PFail] w l(1) v(3,4)] PFail show ?thesis by simp
  qed
qed

section \<open>The simulation\<close>

lemma fail_forward: "parse C te G k e s (PFail s1) \<Longrightarrow> pcur s \<le> pcur s1"
  using parse_forward(1) [of C te G k e s "PFail s1"] by simp

lemma simulation:
  assumes L: "linked C A G"
  shows "parse C te G k e s r \<Longrightarrow> ascii e \<Longrightarrow> sim C te A k e s r"
    and "loop C te G k e s s' \<Longrightarrow> ascii e \<Longrightarrow> sim_loop C te A k e s s'"
proof (induction rule: parse_loop.inducts)
  case Empty
  then show ?case using small [OF L] by (auto dest: fail_forward simp del: One_nat_def intro!: sim_Empty)
next
  case Byte
  then show ?case using small [OF L] by (intro sim_Byte) simp_all
next
  case Any
  then show ?case using small [OF L] by (simp only: sim_Any)
next
  case Str_ok
  then show ?case using small [OF L] by (auto dest: fail_forward simp del: One_nat_def intro!: sim_Str_ok)
next
  case Str_no
  then show ?case using small [OF L] by (auto dest: fail_forward simp del: One_nat_def intro!: sim_Str_no)
next
  case Set
  then show ?case using small [OF L] by (intro sim_Set) simp_all
next
  case Seq_ok
  then show ?case using small [OF L] by (auto dest: fail_forward simp del: One_nat_def intro!: sim_Seq_ok)
next
  case Seq_no
  then show ?case using small [OF L] by (auto dest: fail_forward simp del: One_nat_def intro!: sim_Seq_no)
next
  case Choice_ok
  then show ?case using small [OF L] by (auto dest: fail_forward simp del: One_nat_def intro!: sim_Choice_ok)
next
  case Choice_no
  then show ?case using small [OF L] by (auto dest: fail_forward simp del: One_nat_def intro!: sim_Choice_no)
next
  case Option_ok
  then show ?case using small [OF L] by (auto dest: fail_forward simp del: One_nat_def intro!: sim_Option_ok)
next
  case Option_no
  then show ?case using small [OF L] by (auto dest: fail_forward simp del: One_nat_def intro!: sim_Option_no)
next
  case Star
  then show ?case using small [OF L] by (auto dest: fail_forward simp del: One_nat_def intro!: sim_Star)
next
  case Loop_end
  then show ?case using small [OF L] by (auto dest: fail_forward simp del: One_nat_def intro!: sim_Loop_end)
next
  case (Loop_stuck k e s s1 s2)
  with sim_Loop_stuck [of C te A k e s s1 s2] show ?case by blast
next
  case (Loop_more k e s s1 s2)
  with sim_Loop_more [of C te A k e s s1 s2] small [OF L] show ?case by blast
next
  case And_ok
  then show ?case using small [OF L] by (auto dest: fail_forward simp del: One_nat_def intro!: sim_And_ok)
next
  case And_no
  then show ?case using small [OF L] by (auto dest: fail_forward simp del: One_nat_def intro!: sim_And_no)
next
  case Not_ok
  then show ?case using small [OF L] by (auto dest: fail_forward simp del: One_nat_def intro!: sim_Not_ok)
next
  case Not_no
  then show ?case using small [OF L] by (auto dest: fail_forward simp del: One_nat_def intro!: sim_Not_no)
next
  case Call
  with sim_Call [OF L] linkedD(3) [OF L] show ?case by blast
next
  case Act
  then show ?case using small [OF L] by (auto dest: fail_forward simp del: One_nat_def intro!: sim_Act)
next
  case Link_ok
  then show ?case using small [OF L] by (auto dest: fail_forward simp del: One_nat_def intro!: sim_Link_ok)
next
  case Link_no
  then show ?case using small [OF L] by (auto dest: fail_forward simp del: One_nat_def intro!: sim_Link_no)
next
  case Block_ok
  then show ?case using small [OF L] by (auto dest: fail_forward simp del: One_nat_def intro!: sim_Block_ok)
next
  case Block_no
  then show ?case using small [OF L] by (auto dest: fail_forward simp del: One_nat_def intro!: sim_Block_no)
next
  case Local_ok
  then show ?case using small [OF L] by (auto dest: fail_forward simp del: One_nat_def intro!: sim_Local_ok)
next
  case Local_no
  then show ?case using small [OF L] by (auto dest: fail_forward simp del: One_nat_def intro!: sim_Local_no)
next
  case Sym_ok
  then show ?case using small [OF L] by (intro sim_Sym_ok) simp_all
next
  case Sym_no
  then show ?case using small [OF L] by (auto dest: fail_forward simp del: One_nat_def intro!: sim_Sym_no)
next
  case Exists
  then show ?case using small [OF L] by (intro sim_Exists) simp_all
next
  case Match
  then show ?case using small [OF L] by (intro sim_Match) simp_all
qed

end
