(* ===== verification/VM1_Parse.thy ===== *)
theory VM1_Parse
  imports VM1_Scopes
begin

text \<open>
  A whole parse: the code of a grammar is \<open>program G\<close>, \<open>moz_runtime_parse_init\<close> pushes the choice
  point and the return address of the two exits, and \<open>moz_runtime_parse\<close> returns the status.
\<close>

section \<open>The rules of a program\<close>

lemma length_rule_code [simp]: "length (rule_code A a e) = clen e + 5"
  by (simp add: rule_code_def)

lemma code_at_concat:
  assumes "code C = concat xs" "X < length xs"
  shows "code_at C (sum_list (map length (take X xs))) (xs ! X)"
proof -
  have "concat xs = concat (take X xs) @ xs ! X @ concat (drop (Suc X) xs)"
    by (metis append.assoc assms(2) concat.simps(2) concat_append id_take_nth_drop append_Cons append_Nil)
  then show ?thesis using assms(1)
    by (auto simp: code_at_def length_concat nth_append take_map)
qed

lemma program_linked:
  assumes "code C = program G" "length (program G) < 2 ^ 31" "\<forall>e \<in> set G. ascii e"
  shows "linked C (rule_addr G) G"
  unfolding linked_def
proof (intro conjI allI impI)
  show "length (code C) < 2 ^ 31" using assms by simp
  fix X assume X: "X < length G"
  show "ascii (G ! X)" using assms(3) X by simp
  let ?xs = "map (\<lambda>X. rule_code (rule_addr G) (rule_addr G X) (G ! X)) [0..<length G]"
  have "map length (take X ?xs) = map (\<lambda>e. clen e + 5) (take X G)"
    using X by (intro nth_equalityI) simp_all
  with code_at_concat [of C ?xs X] assms(1) X
  show "code_at C (rule_addr G X) (rule_code (rule_addr G) (rule_addr G X) (G ! X))"
    by (simp add: program_def rule_addr_def)
qed

section \<open>The parser\<close>

lemma exit_step:
  assumes "pc v = base_pc C \<or> pc v = base_pc C + 2"
  shows "vm_step C v = Inr (Exited (if pc v = base_pc C then 0 else 1) (v\<lparr>pc := pc v + 2\<rparr>))"
proof -
  have "fetch C (base_pc C) = Inr 54" "fetch C (Suc (base_pc C)) = Inr 0" "fetch C (base_pc C + 2) = Inr 54"
      "fetch C (Suc (base_pc C + 2)) = Inr 1"
    using fetch_base [of 0 C] fetch_base [of 1 C] fetch_base [of 2 C] fetch_base [of 3 C]
    by (simp_all add: bytecode_base_def numeral_eq_Suc)
  with assms show ?thesis
    by (auto simp: vm_step_def read_uint8_t_def read_int8_t_def op_Exit_def OP_EACH_def)
qed

definition moz_parse :: "nat \<Rightarrow> constants \<Rightarrow> vm \<Rightarrow> addr \<Rightarrow> (int \<times> vm) res" where
  "moz_parse f C v str = rbind (moz_runtime_parse_init C v str 0) (\<lambda>v. moz_runtime_parse f C v str 0)"

lemma parse_init_ok:
  assumes "vsp v + 6 \<le> length (stack v)" "st_of (v\<lparr>cur := str\<rparr>) = s"
  shows "\<exists>w. moz_runtime_parse_init C v str 0 = Inr w \<and>
     frame w (vsp v) str (base_pc C + 2) (ast_save_tx (past s)) (symtable_savepoint (ptab s)) \<and>
     vfp w = vsp v \<and> vsp w = vsp v + 6 \<and> length (stack w) = length (stack v) \<and> stack w ! (vsp v + 5) = SCode (base_pc C) \<and>
     st_of (w\<lparr>cur := str\<rparr>) = s \<and> tl_pos w = tl_pos v \<and> vmemo w = vmemo v"
proof -
  let ?v = "v\<lparr>vfp := vsp v\<rparr>"
  from PUSH_FRAME_ok [of ?v str "base_pc C + 2" "ast_save_tx (vast v)" "symtable_savepoint (vtable v)"] assms(1) obtain w where
    w: "PUSH_FRAME ?v str (base_pc C + 2) (ast_save_tx (vast v)) (symtable_savepoint (vtable v)) = Inr w"
      "frame w (vsp v) str (base_pc C + 2) (ast_save_tx (vast v)) (symtable_savepoint (vtable v))" "vsp w = vsp v + 5" "vfp w = vsp v"
      "length (stack w) = length (stack v)" "w = ?v\<lparr>stack := stack w, vfp := vsp v, vsp := vsp v + 5\<rparr>" by auto
  let ?w = "w\<lparr>stack := (stack w)[vsp w := SCode (base_pc C)], vsp := Suc (vsp w)\<rparr>"
  have p: "PUSH w (SCode (base_pc C)) = Inr ?w" using PUSH_ok [of w] w(3,5) assms(1) by simp
  have eq: "vast w = vast v" "vheap w = vheap v" "vtable w = vtable v" "tl_pos w = tl_pos v" "vmemo w = vmemo v"
    by (subst w(6), simp)+
  have "frame ?w (vsp v) str (base_pc C + 2) (ast_save_tx (vast v)) (symtable_savepoint (vtable v))"
    using w(2-4) by (simp add: frame_def take_update_swap drop_update_swap flip: take_drop)
  then show ?thesis using w(1,3-5) p assms eq
    by (intro exI [of _ "?w\<lparr>pc := 0\<rparr>"]) (auto simp: moz_runtime_parse_init_def frame_def st_of_def)
qed

text \<open>Both exits, behind a run of the start rule.\<close>

lemma run_exit:
  assumes "steps C v w" "pc w = base_pc C \<or> pc w = base_pc C + 2"
  shows "\<exists>n. \<forall>f. vm_run (n + f) C v = Inr (if pc w = base_pc C then 0 else 1, w\<lparr>pc := pc w + 2\<rparr>)"
proof -
  from steps_run [OF assms(1)] obtain n where n: "\<And>f. vm_run (n + f) C v = vm_run f C w" by blast
  have "vm_run (Suc n + f) C v = Inr (if pc w = base_pc C then 0 else 1, w\<lparr>pc := pc w + 2\<rparr>)" for f
    using n [of "Suc f"] exit_step [OF assms(2)] by simp
  then show ?thesis by blast
qed

definition parsed :: "constants \<Rightarrow> vm \<Rightarrow> addr \<Rightarrow> int \<Rightarrow> pst \<Rightarrow> bool" where
  "parsed C v str status s \<longleftrightarrow> (\<exists>n w. st_of w = s \<and> vmemo w = vmemo v \<and> length (stack w) = length (stack v) \<and>
     (\<forall>f. moz_parse (n + f) C v str = Inr (status, w)))"

text \<open>The start rule, from the state \<open>moz_runtime_parse_init\<close> leaves.\<close>

lemma start_rule:
  assumes L: "linked C (rule_addr G) G" and G: "0 < length G" and run: "parse C (tl_pos v) G k (G ! 0) s r"
    and w: "vsp w = vsp v + 6" "length (stack w) = length (stack v)" "st_of (w\<lparr>cur := str\<rparr>) = s" "tl_pos w = tl_pos v"
    and sp: "vsp v + 6 + k \<le> length (stack v)"
  shows "runs C (w\<lparr>cur := str, pc := 0\<rparr>) (clen (G ! 0)) r"
proof -
  have "ascii (G ! 0)" using linkedD(3) [OF L G] .
  with simulation(1) [OF L run] have s: "sim C (tl_pos v) (rule_addr G) k (G ! 0) s r" by simp
  have A: "rule_addr G 0 = 0" by (simp add: rule_addr_def)
  have "runs C (w\<lparr>cur := str, pc := 0\<rparr>) (0 + clen (G ! 0)) r"
    using linkedD(1) [OF L G] w sp by (intro simD [OF s]) (simp_all add: A st_of_def)
  then show ?thesis by simp
qed

lemma parse_success:
  assumes L: "linked C (rule_addr G) G" and G: "0 < length G" and run: "parse C (tl_pos v) G k (G ! 0) s (POk s')"
    and s: "st_of (v\<lparr>cur := str\<rparr>) = s" and sp: "vsp v + 6 + k \<le> length (stack v)"
  shows "parsed C v str 0 s'"
proof -
  from parse_init_ok [of v str s C] s sp obtain w where w: "moz_runtime_parse_init C v str 0 = Inr w"
    "vsp w = vsp v + 6" "length (stack w) = length (stack v)" "stack w ! (vsp v + 5) = SCode (base_pc C)"
    "st_of (w\<lparr>cur := str\<rparr>) = s" "tl_pos w = tl_pos v" "vmemo w = vmemo v" by auto
  let ?w = "w\<lparr>cur := str, pc := 0\<rparr>"
  from start_rule [OF L G run w(2,3,5,6) sp] obtain u where
    u: "steps C ?w u" "keep ?w u" "vsp u = vsp v + 6" "pc u = clen (G ! 0)" "st_of u = s'" using w(2) by auto
  have "take (vsp v + 6) (stack u) ! (vsp v + 5) = take (vsp v + 6) (stack w) ! (vsp v + 5)"
    using u(2) w(2) by (simp add: keep_def)
  then have "stack u ! (5 + vsp v) = SCode (base_pc C)" using w(4) by (simp add: add.commute)
  then have pop: "POP (u\<lparr>pc := pc u + 5\<rparr>) = Inr (SCode (base_pc C), u\<lparr>pc := pc u + 5, vsp := vsp v + 5\<rparr>)"
    using POP_ok [of "u\<lparr>pc := pc u + 5\<rparr>"] u(2,3) w(3) sp by (simp add: keep_def)
  let ?t = "u\<lparr>vsp := vsp v + 5, pc := base_pc C\<rparr>"
  have "code_at C (pc u) (6 # enc32 0)" using linkedD(2) [OF L G] u(4) by (simp add: rule_addr_def)
  from step_Ret [OF this pop] have "steps C ?w ?t"
    using u(1) steps_one [of C u ?t] by (auto simp: NEXT_def intro: steps_trans)
  from run_exit [OF this] obtain n where "\<forall>f. vm_run (n + f) C ?w = Inr (0, ?t\<lparr>pc := base_pc C + 2\<rparr>)" by auto
  then have "\<forall>f. moz_parse (n + f) C v str = Inr (0, ?t\<lparr>pc := base_pc C + 2\<rparr>)"
    using w(1) by (simp add: moz_parse_def moz_runtime_parse_def)
  moreover have "st_of (?t\<lparr>pc := base_pc C + 2\<rparr>) = s'" using u(5) by (simp add: st_of_def)
  moreover have "vmemo (?t\<lparr>pc := base_pc C + 2\<rparr>) = vmemo v" "length (stack (?t\<lparr>pc := base_pc C + 2\<rparr>)) = length (stack v)"
    using u(2) w(3,7) by (simp_all add: keep_def)
  ultimately show ?thesis unfolding parsed_def by blast
qed

lemma parse_failure:
  assumes L: "linked C (rule_addr G) G" and G: "0 < length G" and run: "parse C (tl_pos v) G k (G ! 0) s (PFail s1)"
    and s: "st_of (v\<lparr>cur := str\<rparr>) = s" and sp: "vsp v + 6 + k \<le> length (stack v)" and rs: "restores s s1 s2"
  shows "parsed C v str 1 s2"
proof -
  from parse_init_ok [of v str s C] s sp obtain w where w: "moz_runtime_parse_init C v str 0 = Inr w"
    "frame w (vsp v) str (base_pc C + 2) (ast_save_tx (past s)) (symtable_savepoint (ptab s))" "vfp w = vsp v"
    "vsp w = vsp v + 6" "length (stack w) = length (stack v)" "st_of (w\<lparr>cur := str\<rparr>) = s" "tl_pos w = tl_pos v" "vmemo w = vmemo v" by auto
  let ?w = "w\<lparr>cur := str, pc := 0\<rparr>"
  let ?z = "?w\<lparr>vsp := vsp v + 5\<rparr>"
  from start_rule [OF L G run w(4-7) sp] obtain u y where
    u: "steps C ?w u" "vm_step C u = NEXT (FAIL_IMPL y)" "keep ?w y" "st_of y = s1" by auto
  have fr: "frame ?z (vsp v) (pcur s) (base_pc C + 2) (ast_save_tx (past s)) (symtable_savepoint (ptab s))" "vsp ?z = vfp ?z + 5"
    using w(2,3) s by (auto simp: frame_def st_of_def)
  have "keep ?z ?w" using w(4) by (simp add: keep_def)
  then have "keep ?z y" using u(3) by (rule keep_trans) (simp add: w(4))
  from keep_frame(1) [OF this fr(2,1)] have fy: "frame y (vsp v) (pcur s) (base_pc C + 2) (ast_save_tx (past s)) (symtable_savepoint (ptab s))" .
  have "pcur s \<le> cur y" "ast_rollback_tx (vast y) (vheap y) (ast_save_tx (past s)) = Inr (past s2, pheap s2)"
    using fail_forward [OF run] rs u(4) by (auto simp: restores_def)
  from FAIL_ok [OF fy this] obtain x where x: "FAIL_IMPL y = Inr (y\<lparr>vsp := vfp y, vfp := vsp v, hd_pos := x, cur := pcur s,
      vast := past s2, vheap := pheap s2, vtable := symtable_rollback (vtable y) (symtable_savepoint (ptab s)), pc := base_pc C + 2\<rparr>)"
    (is "_ = Inr ?t") by blast
  have "steps C ?w ?t" using u(1) steps_one [of C u ?t] u(2) x by (auto simp: NEXT_def intro: steps_trans)
  from run_exit [OF this] obtain n where "\<forall>f. vm_run (n + f) C ?w = Inr (1, ?t\<lparr>pc := base_pc C + 4\<rparr>)"
    by (auto simp: numeral_eq_Suc)
  then have "\<forall>f. moz_parse (n + f) C v str = Inr (1, ?t\<lparr>pc := base_pc C + 4\<rparr>)"
    using w(1) by (simp add: moz_parse_def moz_runtime_parse_def)
  moreover have "st_of (?t\<lparr>pc := base_pc C + 4\<rparr>) = s2" using rs u(4) by (cases s2) (auto simp: st_of_def restores_def)
  moreover have "vmemo (?t\<lparr>pc := base_pc C + 4\<rparr>) = vmemo v" "length (stack (?t\<lparr>pc := base_pc C + 4\<rparr>)) = length (stack v)"
    using u(3) w(5,8) by (simp_all add: keep_def)
  ultimately show ?thesis unfolding parsed_def by blast
qed

section \<open>What the interpreter computes\<close>

text \<open>C1: The interpreter is correct: for the code of any grammar over ASCII bytes, a parse from the
state \<open>moz_runtime_parse_init\<close> makes ends with status 0 in the state the meaning of the start rule
gives when that rule succeeds (position, log of the tree, node heap, symbol table), and with status
1 in the state rolled back to the start when it fails; the memo table and the size of the stack stay.
The stack must have \<open>k + 6\<close> free words.\<close>

theorem vm1_parses:
  assumes "code C = program G" "length (program G) < 2 ^ 31" "\<forall>e \<in> set G. ascii e" "0 < length G"
    and "parse C (tl_pos v) G k (G ! 0) s r" "st_of (v\<lparr>cur := str\<rparr>) = s" "vsp v + 6 + k \<le> length (stack v)"
  shows "case r of POk s' \<Rightarrow> parsed C v str 0 s' | PFail s1 \<Rightarrow> (\<forall>s2. restores s s1 s2 \<longrightarrow> parsed C v str 1 s2)"
proof (cases r)
  case (POk s')
  with assms parse_success [OF program_linked [OF assms(1-3)]] show ?thesis by simp
next
  case (PFail s1)
  with assms parse_failure [OF program_linked [OF assms(1-3)]] show ?thesis by simp
qed

text \<open>A grammar with a choice whose first alternative is undone, a call and a predicate: the start
rule is \<open>{ 'b' / 'a' R1\<close> with \<open>R1 = !.\<close>, on the input \<open>a\<close>.\<close>

definition example_G :: "peg list" where
  "example_G = [PChoice (PSeq (PAct (ANew 0)) (PByte 98)) (PSeq (PByte 97) (PCall 1)), PNot PAny]"

definition example_C :: constants where
  "example_C = \<lparr>sets = [], tags = [], strs = [], tables = [], jumps = [], jumps1 = [], jumps2 = [], jumps3 = [],
     code = program example_G, vmem = [0, 97, 0], stale = 0\<rparr>"

definition example_state :: "addr \<Rightarrow> AstLog list \<Rightarrow> pst" where
  "example_state p ls = \<lparr>pcur = p, past = \<lparr>logs = ARRAY_init ls, last_linked = 0, parsed = 0, source = 1\<rparr>,
     pheap = \<lparr>cells = [], free_list = 0, free_object_count = 0, current_page = []\<rparr>, ptab = \<lparr>sstate = 0, table = ARRAY_init []\<rparr>\<rparr>"

definition example_vm :: vm where
  "example_vm = (let s = example_state 1 [0, 0] in \<lparr>pc = 0, cur = 0, vsp = 0, vfp = 0, stack = replicate 20 (SNum 0),
     hd_pos = 1, tl_pos = 2, vast = past s, vheap = pheap s, vtable = ptab s,
     vmemo = \<lparr>ary = ARRAY_init [], shift = 0, mask = 0\<rparr>\<rparr>)"

lemma example_act: "act example_C (ANew 0) (example_state 1 [0, 0]) =
    Inr ((past (example_state 1 [0, 0]))\<lparr>logs := \<lparr>asize = 1, capacity = 2, alist = [ent TypeNew 0 1, 0]\<rparr>\<rparr>)"
  by code_simp

lemma example_parse:
  "parse example_C 2 example_G 6 (example_G ! 0) (example_state 1 [0, 0]) (POk (example_state 2 [ent TypeNew 0 1, 0]))"
proof -
  let ?s = "example_state 1 [0, 0]" and ?s2 = "example_state 1 [ent TypeNew 0 1, 0]" and ?s3 = "example_state 2 [ent TypeNew 0 1, 0]"
  let ?p = "parse example_C 2 example_G"
  let ?s1 = "?s\<lparr>past := (past ?s)\<lparr>logs := \<lparr>asize = 1, capacity = 2, alist = [ent TypeNew 0 1, 0]\<rparr>\<rparr>\<rparr>"
  have m: "mread (vmem example_C) (pcur ?s1) = Inr 97" "mread (vmem example_C) (pcur ?s2) = Inr 97"
    by (simp_all add: example_C_def example_state_def mread_def aread_def)
  have "?p 1 (PSeq (PAct (ANew 0)) (PByte 98)) ?s (PFail ?s1)"
    using parse_loop.Seq_ok [OF parse_loop.Act [OF example_act] parse_loop.Byte [OF m(1), of _ _ _ 98]] by simp
  moreover have "restores ?s ?s1 ?s2"
    by (simp add: restores_def example_state_def ARRAY_init_def ast_save_tx_def ast_rollback_tx_def rollback_entry_def
        ARRAY_get_def ent_def symtable_rollback_def symtable_savepoint_def)
  moreover have "?p 6 (PSeq (PByte 97) (PCall 1)) ?s2 (POk ?s3)"
  proof (rule parse_loop.Seq_ok)
    show "?p 6 (PByte 97) ?s2 (POk ?s3)"
      using parse_loop.Byte [OF m(2), of 2 example_G 6 97] by (simp add: adv_def example_state_def numeral_2_eq_2)
    have "?p 0 PAny ?s3 (PFail ?s3)" using parse_loop.Any [of example_C 2 example_G 0 ?s3] by (simp add: example_state_def)
    moreover have "restores ?s3 ?s3 ?s3"
    by (simp add: restores_def example_state_def ARRAY_init_def ast_save_tx_def ast_rollback_tx_def
        symtable_rollback_def symtable_savepoint_def)
    ultimately have "?p (0 + 5) (PNot PAny) ?s3 (POk ?s3)" by (rule parse_loop.Not_ok)
    then have "?p (5 + 1) (PCall 1) ?s3 (POk ?s3)" by (intro parse_loop.Call) (simp_all add: example_G_def)
    then show "?p 6 (PCall 1) ?s3 (POk ?s3)" by simp
  qed
  ultimately have "?p (1 + 5) (PChoice (PSeq (PAct (ANew 0)) (PByte 98)) (PSeq (PByte 97) (PCall 1))) ?s (POk ?s3)"
    by (intro parse_loop.Choice_no) simp_all
  then show ?thesis by (simp add: example_G_def)
qed

lemma vm1_parses_witness: "parsed example_C example_vm 1 0 (example_state 2 [ent TypeNew 0 1, 0])"
proof -
  have "code example_C = program example_G" by (simp add: example_C_def)
  moreover have "length (program example_G) < 2 ^ 31" by (simp add: program_def example_G_def)
  moreover have "\<forall>e \<in> set example_G. ascii e" "0 < length example_G" by (simp_all add: example_G_def)
  moreover have "tl_pos example_vm = 2" "st_of (example_vm\<lparr>cur := 1\<rparr>) = example_state 1 [0, 0]"
      "vsp example_vm + 6 + 6 \<le> length (stack example_vm)"
    by (simp_all add: example_vm_def st_of_def example_state_def Let_def)
  ultimately show ?thesis
    using vm1_parses [of example_C example_G example_vm 6 "example_state 1 [0, 0]" _ 1] example_parse by fastforce
qed

end
