(* ===== verification/VM1_Chars.thy ===== *)
theory VM1_Chars
  imports VM1_Correct
begin

text \<open>
  Single instructions at the edges: bytes above 127, whose \<open>char\<close> is negative, and the loops of
  the repetition instructions.
\<close>

section \<open>Bytes above 127\<close>

lemma u8_range: "uint c < 256" "- 128 \<le> sint c" "sint c < 128" for c :: u8
  using uint_range_size [of c] sint_range_size [of c] by (simp_all add: word_size)

lemma sint_high: "128 \<le> unat c \<Longrightarrow> sint c < 0" for c :: u8
proof -
  assume c: "128 \<le> unat c"
  have "unat c < 256" by simp
  then have "unat c div 2 ^ 7 = 1" using c by (intro div_nat_eqI) simp_all
  then have "bit (unat c) 7" by (simp add: bit_iff_odd)
  then have "bit c 7" by (simp add: bit_unsigned_iff)
  then show ?thesis by (simp add: bit_last_iff [of c, simplified, symmetric])
qed

lemma char_unsigned_high: "128 \<le> unat c \<Longrightarrow> 256 \<le> char_unsigned c"
proof -
  assume c: "128 \<le> unat c"
  have "scast c = (word_of_int (sint c) :: u32)" by simp
  then have "uint (scast c :: u32) = sint c mod 2 ^ 32" by (simp only: uint_word_of_int) simp
  also have "sint c mod 2 ^ 32 = (sint c + 2 ^ 32) mod 2 ^ 32" by simp
  also have "\<dots> = sint c + 2 ^ 32" using sint_high [OF c] u8_range(2) [of c] by (intro mod_pos_pos_trivial) simp_all
  finally have "256 \<le> uint (scast c :: u32)" using u8_range(2) [of c] by simp
  then show ?thesis unfolding char_unsigned_def unat_eq_nat_uint by linarith
qed

text \<open>C32: A byte above 127 is never matched by the byte instructions, because the input byte is read
as a signed \<open>char\<close> and the operand as an unsigned one: \<open>Byte\<close> always fails, \<open>NByte\<close> never fails,
\<open>OByte\<close> and \<open>RByte\<close> never consume, whatever the input byte.\<close>

theorem vm1_high_bytes_never_match:
  assumes "pc v < length (code C)" "128 \<le> unat (code C ! pc v)" "current C v = Inr c"
  shows "op_Byte C v = FAIL_IMPL (v\<lparr>pc := Suc (pc v)\<rparr>) \<and> op_NByte C v = Inr (v\<lparr>pc := Suc (pc v)\<rparr>) \<and>
    op_OByte C v = Inr (v\<lparr>pc := Suc (pc v)\<rparr>) \<and> op_RByte C v = Inr (v\<lparr>pc := Suc (pc v)\<rparr>)"
proof -
  have "128 \<le> uint (code C ! pc v)" using assms(2) unfolding uint_nat by linarith
  then have ne: "sint c \<noteq> uint (code C ! pc v)" using u8_range(3) [of c] by linarith
  have cur: "current C (v\<lparr>pc := Suc (pc v)\<rparr>) = Inr c" using assms(3) by (simp add: current_def)
  have "pstring_find_not_char (vmem C) (cur v) (code C ! pc v) = Inr (cur v)"
    using ne assms(3) by (subst pstring_find_not_char.simps) (simp add: current_def)
  then show ?thesis using assms(1) ne cur by (simp add: op_Byte_def op_NByte_def op_OByte_def op_RByte_def)
qed

text \<open>The machine of the examples: one free word of stack, at the first byte of the code and at address 1.\<close>

definition edge_C :: "u8 list \<Rightarrow> u8 list \<Rightarrow> constants" where
  "edge_C cs m = \<lparr>sets = [\<lparr>bdata = [0x0600000000000000, 0, 0, 0]\<rparr>], tags = [], strs = [], tables = [], jumps = [], jumps1 = [],
     jumps2 = [], jumps3 = [], code = cs, vmem = m, stale = 0\<rparr>"

definition edge_vm :: vm where
  "edge_vm = \<lparr>pc = 0, cur = 1, vsp = 0, vfp = 0, stack = [SNum 0], hd_pos = 1, tl_pos = 2,
     vast = \<lparr>logs = ARRAY_init [], last_linked = 0, parsed = 0, source = 1\<rparr>,
     vheap = \<lparr>cells = [], free_list = 0, free_object_count = 0, current_page = []\<rparr>,
     vtable = \<lparr>sstate = 0, table = ARRAY_init []\<rparr>, vmemo = \<lparr>ary = ARRAY_init [], shift = 0, mask = 0\<rparr>\<rparr>"

lemma vm1_high_bytes_never_match_witness:
  "op_OByte (edge_C [0xC3] [0, 0xC3, 0]) edge_vm = Inr (edge_vm\<lparr>pc := 1\<rparr>)"
  using vm1_high_bytes_never_match [of edge_vm "edge_C [0xC3] [0, 0xC3, 0]" "0xC3"]
  by (simp add: edge_vm_def edge_C_def current_def mread_def)

text \<open>C33: The set instructions do not handle input bytes above 127: the negative \<open>char\<close> is converted to
\<open>unsigned\<close>, and \<open>Set\<close>, \<open>NSet\<close>, \<open>OSet\<close> and \<open>RSet\<close> read behind the 256 bits of the set.\<close>

theorem vm1_sets_leave_bitset:
  assumes "read_BITSET_t C v = Inr (b, w)" "bitset_wf b" "current C v = Inr c" "128 \<le> unat c"
  shows "op_Set C v = Inl OutOfBounds \<and> op_NSet C v = Inl OutOfBounds \<and> op_OSet C v = Inl OutOfBounds \<and>
    op_RSet C v = Inl OutOfBounds"
proof -
  have "current C w = Inr c" using assms(1,3)
    by (auto simp: read_BITSET_t_def read_uint16_t_def read_uint8_t_def rbind_eq_Inr current_def)
  moreover have "bitset_get b (char_unsigned c) = Inl OutOfBounds"
    using char_unsigned_high [OF assms(4)] assms(2) div_le_mono [of 256 "char_unsigned c" BITS]
    by (simp add: bitset_get_def bitset_wf_def BITS_def)
  ultimately have "in_set C w b = Inl OutOfBounds" by (simp add: in_set_def)
  then show ?thesis using assms(1) by (simp add: op_Set_def op_NSet_def op_OSet_def op_RSet_def)
qed

lemma edge_read_set:
  "read_BITSET_t (edge_C [0, 0] m) edge_vm = Inr (\<lparr>bdata = [0x0600000000000000, 0, 0, 0]\<rparr>, edge_vm\<lparr>pc := 2\<rparr>)"
  by (simp add: edge_vm_def edge_C_def read_BITSET_t_def read_uint16_t_def read_uint8_t_def fetch_def base_pc_def numeral_2_eq_2)

lemma vm1_sets_leave_bitset_witness: "op_Set (edge_C [0, 0] [0, 0x80, 0]) edge_vm = Inl OutOfBounds"
proof -
  have "128 \<le> unat (0x80 :: u8)" by simp
  moreover have "current (edge_C [0, 0] [0, 0x80, 0]) edge_vm = Inr 0x80"
    by (simp add: edge_vm_def edge_C_def current_def mread_def)
  ultimately show ?thesis
    using vm1_sets_leave_bitset [OF edge_read_set, of "[0, 0x80, 0]" "0x80"] by (simp only: bitset_wf_def BITS_def) simp
qed

section \<open>Repetition\<close>

lemma rset_loop_ok:
  assumes "bitset_wf b" "valid (vmem C) (cur v) (Suc n)" "n < f"
    "\<forall>i \<le> n. unat (vmem C ! (cur v + i)) < 128 \<and> (unat (vmem C ! (cur v + i)) \<in> elems b \<longleftrightarrow> i < n)"
  shows "rset_loop f C v b = Inr (v\<lparr>cur := cur v + n\<rparr>)"
  using assms(2-)
proof (induction n arbitrary: f v)
  case 0
  then obtain g where "f = Suc g" by (cases f) auto
  with 0 assms(1) show ?case
    by (simp add: in_set_def current_def char_unsigned_ascii bitset_get_elems)
next
  case (Suc n)
  then obtain g where f: "f = Suc g" "n < g" by (cases f) auto
  have "in_set C v b = Inr True" using Suc.prems(1,3) assms(1)
    by (auto simp: in_set_def current_def char_unsigned_ascii bitset_get_elems dest: spec [of _ 0])
  moreover have "rset_loop g C (CONSUME v) b = Inr ((CONSUME v)\<lparr>cur := cur (CONSUME v) + n\<rparr>)"
  proof (rule Suc.IH [OF _ f(2)])
    show "valid (vmem C) (cur (CONSUME v)) (Suc n)" using Suc.prems(1) by (simp add: CONSUME_def valid_Suc)
    show "\<forall>i \<le> n. unat (vmem C ! (cur (CONSUME v) + i)) < 128 \<and> (unat (vmem C ! (cur (CONSUME v) + i)) \<in> elems b \<longleftrightarrow> i < n)"
      using Suc.prems(3) by (auto simp: CONSUME_def dest: spec [of _ "Suc i" for i])
  qed
  ultimately show ?case using f(1) by (simp add: CONSUME_def)
qed

text \<open>C31: \<open>RSet\<close> returns: on ASCII input the loop stops at the first byte outside the set, however
many bytes are in it, with the position there and nothing else changed. The terminating zero of the
input is such a byte unless the set contains it.\<close>

theorem vm1_rset_returns:
  assumes "read_BITSET_t C v = Inr (b, w)" "bitset_wf b" "valid (vmem C) (cur w) (Suc n)"
    "\<forall>i \<le> n. unat (vmem C ! (cur w + i)) < 128 \<and> (unat (vmem C ! (cur w + i)) \<in> elems b \<longleftrightarrow> i < n)"
  shows "op_RSet C v = Inr (w\<lparr>cur := cur w + n\<rparr>)"
  using rset_loop_ok [OF assms(2,3) _ assms(4), of "length (vmem C) + 1"] assms(1,3)
  by (simp add: op_RSet_def valid_def)

lemma vm1_rset_returns_witness:
  "op_RSet (edge_C [0, 0] [0, 57, 58, 57, 0]) edge_vm = Inr (edge_vm\<lparr>pc := 2, cur := 4\<rparr>)"
proof -
  let ?C = "edge_C [0, 0] [0, 57, 58, 57, 0]" and ?b = "\<lparr>bdata = [0x0600000000000000, 0, 0, 0]\<rparr> :: bitset_t"
  have e: "57 \<in> elems ?b" "58 \<in> elems ?b" "0 \<notin> elems ?b" by (simp_all add: elems_def) code_simp+
  have "\<forall>i \<le> 3. unat ([0, 57, 58, 57, 0 :: u8] ! (1 + i)) < 128 \<and> (unat ([0, 57, 58, 57, 0 :: u8] ! (1 + i)) \<in> elems ?b \<longleftrightarrow> i < 3)"
  proof (intro allI impI)
    fix i :: nat assume "i \<le> 3"
    then consider "i = 0" | "i = 1" | "i = 2" | "i = 3" by linarith
    then show "unat ([0, 57, 58, 57, 0 :: u8] ! (1 + i)) < 128 \<and> (unat ([0, 57, 58, 57, 0 :: u8] ! (1 + i)) \<in> elems ?b \<longleftrightarrow> i < 3)"
      by cases (use e in \<open>simp_all add: nth_Cons'\<close>)
  qed
  with vm1_rset_returns [OF edge_read_set, of "[0, 57, 58, 57, 0]" 3] show ?thesis
    by (simp add: bitset_wf_def BITS_def edge_C_def edge_vm_def valid_def)
qed

text \<open>C34: \<open>RStr\<close> with an empty string never returns: no number of passes of its loop is enough.\<close>

theorem vm1_rstr_empty_loops: "rstr_loop f C v str 0 = Inl NoFuel"
  by (induction f arbitrary: v) (simp_all add: starts_def pstring_starts_with_def)

end
