(* ===== verification/Runtime.thy ===== *)
theory Runtime
  imports VM1
begin

text \<open>
  The life cycle of a runtime, \<open>src/src/runtime.c\<close>: building it, resetting it between two inputs
  and disposing it. The blocks \<open>malloc\<close> returns for the log, the symbol table and the memo table
  are arguments, of unspecified content.
\<close>

section \<open>Operations\<close>

definition MOZ_DEFAULT_STACK_SIZE :: nat where
  "MOZ_DEFAULT_STACK_SIZE = 1024"

definition MOZ_AST_MACHINE_DEFAULT_LOG_SIZE :: nat where
  "MOZ_AST_MACHINE_DEFAULT_LOG_SIZE = 128"

definition MOZ_MEMO_DEFAULT_WINDOW_SIZE :: u32 where
  "MOZ_MEMO_DEFAULT_WINDOW_SIZE = 32"

text \<open>The stack is filled with \<open>0xaa\<close>, its last 15 words with \<open>0xbb\<close>.\<close>

definition init_stack :: "slot list" where
  "init_stack = replicate (MOZ_DEFAULT_STACK_SIZE - 0xf) (SNum 0xaaaaaaaaaaaaaaaa) @ replicate 0xf (SNum 0xbbbbbbbbbbbbbbbb)"

definition moz_runtime_init :: "AstLog list \<Rightarrow> entry_t list \<Rightarrow> memo_entry list \<Rightarrow> node_heap \<Rightarrow> u32 \<Rightarrow> vm res" where
  "moz_runtime_init lblock sblock mblock h n =
     rbind (rassert (length lblock = MOZ_AST_MACHINE_DEFAULT_LOG_SIZE)) (\<lambda>_.
     rbind (AstMachine_init lblock 0) (\<lambda>ast.
     rbind (symtable_init sblock) (\<lambda>tbl.
     rbind (memo_init mblock MOZ_MEMO_DEFAULT_WINDOW_SIZE n) (\<lambda>m.
       Inr \<lparr>pc = 0, cur = 0, vsp = 0xf, vfp = 0xf, stack = init_stack, hd_pos = 0, tl_pos = 0,
         vast = ast, vheap = h, vtable = tbl, vmemo = m\<rparr>))))"

text \<open>What \<open>moz_runtime_reset1\<close> and \<open>moz_runtime_dispose\<close> start with: the tree log gives back its links,
the memo table its results.\<close>

definition dispose_parts :: "vm \<Rightarrow> vm res" where
  "dispose_parts v =
     rbind (AstMachine_dispose (vast v) (vheap v)) (\<lambda>(ast, h).
     let tbl = symtable_dispose (vtable v)
     in rbind (memo_dispose (vmemo v) h) (\<lambda>(m, h). Inr (v\<lparr>vast := ast, vtable := tbl, vmemo := m, vheap := h\<rparr>)))"

definition moz_runtime_reset1 :: "AstLog list \<Rightarrow> entry_t list \<Rightarrow> memo_entry list \<Rightarrow> vm \<Rightarrow> u32 \<Rightarrow> vm res" where
  "moz_runtime_reset1 lblock sblock mblock v n =
     rbind (dispose_parts v) (\<lambda>v.
     rbind (rassert (length lblock = MOZ_AST_MACHINE_DEFAULT_LOG_SIZE)) (\<lambda>_.
     rbind (AstMachine_init lblock 0) (\<lambda>ast.
     rbind (symtable_init sblock) (\<lambda>tbl.
     rbind (memo_init mblock MOZ_MEMO_DEFAULT_WINDOW_SIZE n) (\<lambda>m.
       Inr (v\<lparr>vast := ast, vtable := tbl, vmemo := m, vsp := 0xf, vfp := 0xf\<rparr>))))))"

text \<open>Nothing of a disposed runtime is left but the node heap; the constants are only freed.\<close>

definition moz_runtime_dispose :: "vm \<Rightarrow> node_heap res" where
  "moz_runtime_dispose v = rbind (dispose_parts v) (\<lambda>v. Inr (vheap v))"

section \<open>References\<close>

definition vm_refs :: "vm \<Rightarrow> nptr multiset" where
  "vm_refs v = lrefs (lg (vast v)) + memo_refs (vmemo v)"

definition vm_ok :: "vm \<Rightarrow> nptr set \<Rightarrow> nptr multiset \<Rightarrow> nptr list \<Rightarrow> bool" where
  "vm_ok v L R xs \<longleftrightarrow> arr_wf (logs (vast v)) \<and> memo_wf (vmemo v) \<and> heap_ok (vheap v) L (vm_refs v + R) xs"

lemma dispose_parts_ok:
  assumes "vm_ok v L R xs"
  shows "\<exists>w L' xs'. dispose_parts v = Inr w \<and> heap_ok (vheap w) L' R xs' \<and> L' \<subseteq> L \<and>
    pc w = pc v \<and> cur w = cur v \<and> stack w = stack v \<and> hd_pos w = hd_pos v \<and> tl_pos w = tl_pos v"
proof -
  from assms have "ast_ok (vast v) (vheap v) L (memo_refs (vmemo v) + R) xs"
    by (simp add: vm_ok_def ast_ok_def vm_refs_def ac_simps)
  from rollback_ok [OF this, of 0] obtain a h L1 xs1 where
    a: "ast_rollback_tx (vast v) (vheap v) 0 = Inr (a, h)" "ast_ok a h L1 (memo_refs (vmemo v) + R) xs1" "lg a = []"
      "L1 \<subseteq> L" by (auto simp: shrinks_def)
  from a(2,3) have "heap_ok h L1 (memo_refs (vmemo v) + R) xs1" by (simp add: ast_ok_def)
  moreover have "memo_wf (vmemo v)" using assms by (simp add: vm_ok_def)
  ultimately obtain h' L' xs' where
    m: "rfold (\<lambda>h i. rbind (ARRAY_get (ary (vmemo v)) i) (memo_drop h)) h [0..<asize (ary (vmemo v))] = Inr h'"
      "heap_ok h' L' R xs'" "L' \<subseteq> L1" using dispose_loop by blast
  have "dispose_parts v = Inr (v\<lparr>vast := a\<lparr>logs := ARRAY_dispose (logs a)\<rparr>, vtable := symtable_dispose (vtable v),
      vmemo := (vmemo v)\<lparr>ary := ARRAY_dispose (ary (vmemo v))\<rparr>, vheap := h'\<rparr>)" (is "_ = Inr ?w")
    using a(1) m(1) by (simp add: dispose_parts_def AstMachine_dispose_def memo_dispose_def memo_elastic_dispose_def Let_def)
  moreover have "heap_ok (vheap ?w) L' R xs'" using m(2) by simp
  moreover have "L' \<subseteq> L" using m(3) a(4) by blast
  ultimately show ?thesis by (intro exI [of _ ?w] exI [of _ L'] exI [of _ xs']) simp
qed

lemma memo_len:
  assumes "LOG2 n < 24"
  shows "unat (MOZ_MEMO_DEFAULT_WINDOW_SIZE * 2 ^ LOG2 n) = 2 ^ (LOG2 n + 5)"
proof -
  have "2 ^ (LOG2 n + 5) < (2 :: nat) ^ 32" using assms by (intro power_strict_increasing) simp_all
  moreover have "MOZ_MEMO_DEFAULT_WINDOW_SIZE * 2 ^ LOG2 n = of_nat (2 ^ (LOG2 n + 5))"
    by (simp add: MOZ_MEMO_DEFAULT_WINDOW_SIZE_def power_add)
  ultimately show ?thesis by (simp only: unat_of_nat_u32)
qed

definition blocks_ok :: "AstLog list \<Rightarrow> entry_t list \<Rightarrow> memo_entry list \<Rightarrow> u32 \<Rightarrow> bool" where
  "blocks_ok lblock sblock mblock n \<longleftrightarrow> length lblock = 128 \<and> length sblock = 4 \<and> LOG2 n < 24 \<and> length mblock = 2 ^ (LOG2 n + 5)"

lemma parts_init_ok:
  assumes "blocks_ok lblock sblock mblock n"
  shows "AstMachine_init lblock 0 = Inr \<lparr>logs = ARRAY_init lblock, last_linked = 0, parsed = 0, source = 0\<rparr>"
    and "symtable_init sblock = Inr \<lparr>sstate = 0, table = ARRAY_init sblock\<rparr>"
    and "\<exists>m. memo_init mblock MOZ_MEMO_DEFAULT_WINDOW_SIZE n = Inr m \<and> memo_wf m \<and>
      elts (ary m) = replicate (2 ^ (LOG2 n + 5)) 0 \<and> memo_refs m = {#}"
proof -
  have l: "length lblock = 128" "length sblock = 4" "LOG2 n < 24" "length mblock = 2 ^ (LOG2 n + 5)"
    using assms by (simp_all add: blocks_ok_def)
  show "AstMachine_init lblock 0 = Inr \<lparr>logs = ARRAY_init lblock, last_linked = 0, parsed = 0, source = 0\<rparr>"
    using l(1) by (simp add: AstMachine_init_def ARRAY_ensureSize_def ARRAY_init_def)
  show "symtable_init sblock = Inr \<lparr>sstate = 0, table = ARRAY_init sblock\<rparr>" using l(2) by (simp add: symtable_init_def)
  have "2 ^ (LOG2 n + 5) < (2 :: nat) ^ 29" using l(3) by (intro power_strict_increasing) simp_all
  with memo_init_ok [of n MOZ_MEMO_DEFAULT_WINDOW_SIZE mblock] l(3,4) show "\<exists>m. memo_init mblock MOZ_MEMO_DEFAULT_WINDOW_SIZE n = Inr m \<and>
      memo_wf m \<and> elts (ary m) = replicate (2 ^ (LOG2 n + 5)) 0 \<and> memo_refs m = {#}"
    unfolding memo_len [OF l(3)] by auto
qed

text \<open>A runtime as \<open>moz_runtime_init\<close> leaves it, but for the stack, the registers and the input.\<close>

definition fresh :: "u32 \<Rightarrow> vm \<Rightarrow> bool" where
  "fresh n v \<longleftrightarrow> lg (vast v) = [] \<and> parsed (vast v) = 0 \<and> log (vtable v) = [] \<and>
     elts (ary (vmemo v)) = replicate (2 ^ (LOG2 n + 5)) 0 \<and> vsp v = 15 \<and> vfp v = 15"

section \<open>Properties\<close>

lemma empty_parts:
  "length lblock = 128 \<Longrightarrow> arr_wf (ARRAY_init lblock) \<and> elts (ARRAY_init lblock) = []"
  by (intro ARRAY_init_elts) simp

text \<open>A new runtime is well formed, empty and holds no node: the initial log, symbol table and
memo table hold no reference, and the stack has 1009 free words.\<close>

theorem runtime_init_fresh:
  assumes "blocks_ok lblock sblock mblock n" "heap_ok h L R xs"
  shows "\<exists>v. moz_runtime_init lblock sblock mblock h n = Inr v \<and> vm_ok v L R xs \<and> fresh n v \<and>
    vm_refs v = {#} \<and> length (stack v) = 1024"
proof -
  from parts_init_ok(3) [OF assms(1)] obtain m where m: "memo_init mblock MOZ_MEMO_DEFAULT_WINDOW_SIZE n = Inr m" "memo_wf m"
    "elts (ary m) = replicate (2 ^ (LOG2 n + 5)) 0" "memo_refs m = {#}" by blast
  have l: "length lblock = 128" using assms(1) by (simp add: blocks_ok_def)
  show ?thesis
    using parts_init_ok(1,2) [OF assms(1)] m l empty_parts [OF l] assms(2)
    by (simp add: moz_runtime_init_def MOZ_AST_MACHINE_DEFAULT_LOG_SIZE_def vm_ok_def vm_refs_def lg_def fresh_def log_def
        ARRAY_init_def elts_def init_stack_def MOZ_DEFAULT_STACK_SIZE_def)
qed

lemma example_blocks: "blocks_ok (replicate 128 0) (replicate 4 0) (replicate 128 0) 3"
  by (simp add: blocks_ok_def LOG2_bitlen bitlen_pos)

lemma runtime_init_fresh_witness:
  "\<exists>v. moz_runtime_init (replicate 128 0) (replicate 4 0) (replicate 128 0) example_heap 3 = Inr v \<and> vm_ok v {1, 2} {#1, 2#} [] \<and>
    fresh 3 v \<and> vm_refs v = {#} \<and> length (stack v) = 1024"
  using runtime_init_fresh [OF example_blocks example_heap_ok] .

lemma reset1_ok:
  assumes "vm_ok v L R xs" "blocks_ok lblock sblock mblock n"
  shows "\<exists>u m L' xs'. moz_runtime_reset1 lblock sblock mblock v n =
      Inr (u\<lparr>vast := \<lparr>logs = ARRAY_init lblock, last_linked = 0, parsed = 0, source = 0\<rparr>,
        vtable := \<lparr>sstate = 0, table = ARRAY_init sblock\<rparr>, vmemo := m, vsp := 0xf, vfp := 0xf\<rparr>) \<and>
    memo_init mblock MOZ_MEMO_DEFAULT_WINDOW_SIZE n = Inr m \<and> dispose_parts v = Inr u \<and> heap_ok (vheap u) L' R xs' \<and>
    L' \<subseteq> L \<and> stack u = stack v"
proof -
  from dispose_parts_ok [OF assms(1)] obtain u L' xs' where
    u: "dispose_parts v = Inr u" "heap_ok (vheap u) L' R xs'" "L' \<subseteq> L" "stack u = stack v" by blast
  from parts_init_ok(3) [OF assms(2)] obtain m where m: "memo_init mblock MOZ_MEMO_DEFAULT_WINDOW_SIZE n = Inr m" by blast
  have l: "length lblock = 128" using assms(2) by (simp add: blocks_ok_def)
  have "moz_runtime_reset1 lblock sblock mblock v n = Inr (u\<lparr>vast := \<lparr>logs = ARRAY_init lblock, last_linked = 0, parsed = 0, source = 0\<rparr>,
    vtable := \<lparr>sstate = 0, table = ARRAY_init sblock\<rparr>, vmemo := m, vsp := 0xf, vfp := 0xf\<rparr>)"
    using u(1) m l parts_init_ok(1,2) [OF assms(2)] by (simp add: moz_runtime_reset1_def MOZ_AST_MACHINE_DEFAULT_LOG_SIZE_def)
  with u m show ?thesis by blast
qed

text \<open>C17: Resetting and disposing release what the runtime holds: \<open>moz_runtime_reset1\<close> gives back
exactly the references of the tree log and of the memo table and leaves a fresh runtime, and
\<open>moz_runtime_dispose\<close> leaves the node heap with the references of others only.\<close>

theorem runtime_reset_releases:
  assumes "vm_ok v L R xs" "blocks_ok lblock sblock mblock n"
  shows "(\<exists>w L' xs'. moz_runtime_reset1 lblock sblock mblock v n = Inr w \<and> vm_ok w L' R xs' \<and> L' \<subseteq> L \<and> fresh n w \<and>
      vm_refs w = {#} \<and> stack w = stack v) \<and>
    (\<exists>h' L' xs'. moz_runtime_dispose v = Inr h' \<and> heap_ok h' L' R xs' \<and> L' \<subseteq> L)"
proof -
  from reset1_ok [OF assms] obtain u m L' xs' where
    u: "moz_runtime_reset1 lblock sblock mblock v n = Inr (u\<lparr>vast := \<lparr>logs = ARRAY_init lblock, last_linked = 0, parsed = 0, source = 0\<rparr>,
        vtable := \<lparr>sstate = 0, table = ARRAY_init sblock\<rparr>, vmemo := m, vsp := 0xf, vfp := 0xf\<rparr>)" (is "_ = Inr ?w")
      "memo_init mblock MOZ_MEMO_DEFAULT_WINDOW_SIZE n = Inr m" "dispose_parts v = Inr u" "heap_ok (vheap u) L' R xs'" "L' \<subseteq> L"
      "stack u = stack v" by blast
  have m: "memo_wf m" "elts (ary m) = replicate (2 ^ (LOG2 n + 5)) 0" "memo_refs m = {#}"
    using parts_init_ok(3) [OF assms(2)] u(2) by auto
  have l: "length lblock = 128" using assms(2) by (simp add: blocks_ok_def)
  have "vm_ok ?w L' R xs'" "fresh n ?w" "vm_refs ?w = {#}"
    using m empty_parts [OF l] u(4) by (simp_all add: vm_ok_def vm_refs_def lg_def fresh_def log_def ARRAY_init_def elts_def)
  then have "\<exists>w L' xs'. moz_runtime_reset1 lblock sblock mblock v n = Inr w \<and> vm_ok w L' R xs' \<and> L' \<subseteq> L \<and> fresh n w \<and>
      vm_refs w = {#} \<and> stack w = stack v" using u(1,5,6) by (intro exI [of _ ?w] exI [of _ L'] exI [of _ xs']) simp
  then show ?thesis using u(3-5) unfolding moz_runtime_dispose_def by auto
qed

text \<open>A runtime whose log holds one link to node 1.\<close>

lemma runtime_reset_releases_witness:
  "\<exists>m w L' xs'. moz_runtime_reset1 (replicate 128 0) (replicate 4 0) (replicate 128 0)
     \<lparr>pc = 0, cur = 3, vsp = 15, vfp = 15, stack = init_stack, hd_pos = 1, tl_pos = 9,
       vast = \<lparr>logs = \<lparr>asize = 1, capacity = 2, alist = [ent TypeLink 1 7, 0]\<rparr>, last_linked = 1, parsed = 0, source = 1\<rparr>,
       vheap = example_heap, vtable = \<lparr>sstate = 0, table = ARRAY_init (replicate 4 0)\<rparr>, vmemo = m\<rparr> 3 = Inr w \<and>
     vm_ok w L' {#2#} xs' \<and> fresh 3 w"
proof -
  from parts_init_ok(3) [OF example_blocks] obtain m where m: "memo_wf m" "memo_refs m = {#}" by blast
  let ?v = "\<lparr>pc = 0, cur = 3, vsp = 15, vfp = 15, stack = init_stack, hd_pos = 1, tl_pos = 9,
       vast = \<lparr>logs = \<lparr>asize = 1, capacity = 2, alist = [ent TypeLink 1 7, 0]\<rparr>, last_linked = 1, parsed = 0, source = 1\<rparr>,
       vheap = example_heap, vtable = \<lparr>sstate = 0, table = ARRAY_init (replicate 4 0)\<rparr>, vmemo = m\<rparr>"
  have "vm_refs ?v = {#1#}" using m(2) by (simp add: vm_refs_def lg_def elts_def)
  then have "vm_ok ?v {1, 2} {#2#} []" using m(1) example_heap_ok by (simp add: vm_ok_def arr_wf_def add_mset_commute)
  from runtime_reset_releases [OF this example_blocks] show ?thesis by blast
qed

end
