(* ===== verification/Loader.thy ===== *)
theory Loader
  imports Runtime Buffer
begin

text \<open>
  The byte-code loader, \<open>src/src/loader.c\<close>: it reads a Nez byte-code file (big-endian, jumps to
  instruction numbers), builds the constants of the runtime and the code of the first virtual
  machine (native order, jumps relative to the next instruction), in two passes. The dump of the
  loaded code is only compiled in debug configurations.

  The stream has the bytes of the file; reading behind them is \<open>OutOfBounds\<close>. Strings are
  allocated behind the memory in use, \<open>fill n\<close> being the content of a new block of \<open>n\<close> bytes. A
  production's begin and end are offsets into the code, as before \<open>mozvm_loader_freeze\<close>.
\<close>

section \<open>The input stream\<close>

record input_stream_t =
  ipos :: nat
  iend :: nat
  idata :: "u8 list"

definition skip :: "input_stream_t \<Rightarrow> nat \<Rightarrow> input_stream_t" where
  "skip is n = is\<lparr>ipos := ipos is + n\<rparr>"

definition read8 :: "input_stream_t \<Rightarrow> (u8 \<times> input_stream_t) res" where
  "read8 is = rbind (aread (idata is) (ipos is)) (\<lambda>b. Inr (b, is\<lparr>ipos := ipos is + 1\<rparr>))"

definition peek8 :: "input_stream_t \<Rightarrow> u8 res" where
  "peek8 is = aread (idata is) (ipos is)"

definition read16 :: "input_stream_t \<Rightarrow> (u16 \<times> input_stream_t) res" where
  "read16 is =
     rbind (read8 is) (\<lambda>(d1, is). rbind (read8 is) (\<lambda>(d2, is). Inr (push_bit 8 (ucast d1) OR ucast d2, is)))"

definition read24 :: "input_stream_t \<Rightarrow> (u32 \<times> input_stream_t) res" where
  "read24 is =
     rbind (read8 is) (\<lambda>(d1, is). rbind (read8 is) (\<lambda>(d2, is). rbind (read8 is) (\<lambda>(d3, is).
       Inr (push_bit 16 (ucast d1) OR push_bit 8 (ucast d2) OR ucast d3, is))))"

definition read32 :: "input_stream_t \<Rightarrow> (u32 \<times> input_stream_t) res" where
  "read32 is =
     rbind (read16 is) (\<lambda>(d1, is). rbind (read16 is) (\<lambda>(d2, is). Inr (push_bit 16 (ucast d1) OR ucast d2, is)))"

section \<open>The loader\<close>

record production =
  pbegin :: nat
  pend :: nat
  pname :: addr

record loader =
  inst_size :: nat
  jmptbl_id :: nat
  jmptbl1_id :: nat
  jmptbl2_id :: nat
  jmptbl3_id :: nat
  lC :: constants
  lprods :: "production list"
  ltable :: "nat list"
  lbuf :: "u8 ARRAY"

text \<open>\<open>tblock\<close> and \<open>bblock\<close> are the blocks for the table and the buffer.\<close>

definition mozvm_loader_init :: "loader \<Rightarrow> nat list \<Rightarrow> u8 list \<Rightarrow> nat \<Rightarrow> loader res" where
  "mozvm_loader_init L tblock bblock n =
     rbind (rassert (length tblock = n \<and> length bblock = 4)) (\<lambda>_.
       Inr (L\<lparr>jmptbl_id := 0, jmptbl1_id := 0, jmptbl2_id := 0, jmptbl3_id := 0, ltable := tblock, lbuf := ARRAY_init bblock\<rparr>))"

definition mozvm_loader_write8 :: "loader \<Rightarrow> u8 \<Rightarrow> loader res" where
  "mozvm_loader_write8 L v = rbind (ARRAY_add (lbuf L) v) (\<lambda>b. Inr (L\<lparr>lbuf := b\<rparr>))"

text \<open>Room for all bytes, the bytes at the end, and the new size.\<close>

definition lput :: "loader \<Rightarrow> u8 list \<Rightarrow> loader res" where
  "lput L bs =
     rbind (ARRAY_ensureSize (lbuf L) (length bs)) (\<lambda>a.
     rbind (rguard OutOfBounds (asize a + length bs \<le> length (alist a))) (\<lambda>_.
       Inr (L\<lparr>lbuf := a\<lparr>alist := take (asize a) (alist a) @ bs @ drop (asize a + length bs) (alist a),
                          asize := asize a + length bs\<rparr>\<rparr>)))"

definition mozvm_loader_write16 :: "loader \<Rightarrow> u16 \<Rightarrow> loader res" where
  "mozvm_loader_write16 L v = lput L [ucast v, ucast (drop_bit 8 v)]"

definition mozvm_loader_write32 :: "loader \<Rightarrow> u32 \<Rightarrow> loader res" where
  "mozvm_loader_write32 L v = lput L (store32 v)"

definition mozvm_loader_write_opcode :: "loader \<Rightarrow> u8 \<Rightarrow> loader res" where
  "mozvm_loader_write_opcode L opc = mozvm_loader_write8 L opc"

definition mozvm_loader_write_addr :: "loader \<Rightarrow> u32 \<Rightarrow> loader res" where
  "mozvm_loader_write_addr L addr = mozvm_loader_write32 L addr"

text \<open>Ids are small in the configuration; the pointer is not written.\<close>

definition mozvm_loader_write_id :: "loader \<Rightarrow> u16 \<Rightarrow> loader res" where
  "mozvm_loader_write_id L i = mozvm_loader_write16 L i"

section \<open>Jump tables\<close>

definition zero_jump_table :: "nat \<Rightarrow> jump_table_t" where
  "zero_jump_table w = \<lparr>jb = replicate w \<lparr>bdata = replicate 4 0\<rparr>, jjumps = replicate (2 ^ w) 0\<rparr>"

text \<open>\<open>VM_REALLOC\<close> to \<open>tblId + 1\<close> tables; the new one is cleared.\<close>

definition alloc_tables :: "nat \<Rightarrow> jump_table_t list \<Rightarrow> nat \<Rightarrow> jump_table_t list res" where
  "alloc_tables w tg i =
     rbind (rguard OutOfBounds (i \<le> length tg)) (\<lambda>_. Inr (take i tg @ [zero_jump_table w]))"

definition alloc_jump_table1 :: "constants \<Rightarrow> nat \<Rightarrow> constants res" where
  "alloc_jump_table1 C i = rbind (alloc_tables 1 (jumps1 C) i) (\<lambda>tg. Inr (C\<lparr>jumps1 := tg\<rparr>))"

definition alloc_jump_table2 :: "constants \<Rightarrow> nat \<Rightarrow> constants res" where
  "alloc_jump_table2 C i = rbind (alloc_tables 2 (jumps2 C) i) (\<lambda>tg. Inr (C\<lparr>jumps2 := tg\<rparr>))"

definition alloc_jump_table3 :: "constants \<Rightarrow> nat \<Rightarrow> constants res" where
  "alloc_jump_table3 C i = rbind (alloc_tables 3 (jumps3 C) i) (\<lambda>tg. Inr (C\<lparr>jumps3 := tg\<rparr>))"

text \<open>\<open>alloc_jump_table\<close> and the copy of the first 256 entries that follows it.\<close>

definition MOZ_JMPTABLE_SIZE :: nat where
  "MOZ_JMPTABLE_SIZE = 256"

definition alloc_jump_table :: "constants \<Rightarrow> nat \<Rightarrow> int list \<Rightarrow> constants res" where
  "alloc_jump_table C i tbl =
     rbind (rguard OutOfBounds (MOZ_JMPTABLE_SIZE * i \<le> length (jumps C))) (\<lambda>_.
       Inr (C\<lparr>jumps := take (MOZ_JMPTABLE_SIZE * i) (jumps C) @ take MOZ_JMPTABLE_SIZE tbl\<rparr>))"

text \<open>The 257 targets of a \<open>First\<close>, and the distinct ones in the order they appear.\<close>

definition read_targets :: "input_stream_t \<Rightarrow> (int list \<times> input_stream_t) res" where
  "read_targets is =
     rfold (\<lambda>(tbl, is) _. rbind (read24 is) (\<lambda>(v, is). Inr (tbl @ [uint v], is))) ([], is) [0..<257]"

definition distinct_targets :: "int list \<Rightarrow> int list" where
  "distinct_targets tbl = foldl (\<lambda>tg v. if v \<in> set tg then tg else tg @ [v]) [] tbl"

text \<open>The array \<open>target\<close>, zero behind the distinct targets.\<close>

definition target_array :: "int list \<Rightarrow> int list" where
  "target_array tg = tg @ replicate (257 - length tg) 0"

definition load_first :: "bool \<Rightarrow> loader \<Rightarrow> input_stream_t \<Rightarrow> (loader \<times> input_stream_t) res" where
  "load_first opt L is =
     rbind (read_targets is) (\<lambda>(tbl, is).
     let tg = distinct_targets tbl
     in if opt \<and> length tg \<le> 1 then
          let i = jmptbl1_id L mod 65536
          in rbind (alloc_jump_table1 (lC L) i) (\<lambda>C. rbind (aread (jumps1 C) i) (\<lambda>impl.
             rbind (jump_table1_init impl (target_array tg) tbl) (\<lambda>impl.
             rbind (mozvm_loader_write_opcode (L\<lparr>jmptbl1_id := jmptbl1_id L + 1, lC := C\<lparr>jumps1 := (jumps1 C)[i := impl]\<rparr>\<rparr>) 55) (\<lambda>L.
             rbind (mozvm_loader_write16 L (of_nat i)) (\<lambda>L. Inr (L, is))))))
        else if opt \<and> length tg \<le> 4 then
          let i = jmptbl2_id L mod 65536
          in rbind (alloc_jump_table2 (lC L) i) (\<lambda>C. rbind (aread (jumps2 C) i) (\<lambda>impl.
             rbind (jump_table2_init impl (target_array tg) tbl) (\<lambda>impl.
             rbind (mozvm_loader_write_opcode (L\<lparr>jmptbl2_id := jmptbl2_id L + 1, lC := C\<lparr>jumps2 := (jumps2 C)[i := impl]\<rparr>\<rparr>) 56) (\<lambda>L.
             rbind (mozvm_loader_write16 L (of_nat i)) (\<lambda>L. Inr (L, is))))))
        else if opt \<and> length tg \<le> 8 then
          let i = jmptbl3_id L mod 65536
          in rbind (alloc_jump_table3 (lC L) i) (\<lambda>C. rbind (aread (jumps3 C) i) (\<lambda>impl.
             rbind (jump_table3_init impl (target_array tg) tbl) (\<lambda>impl.
             rbind (mozvm_loader_write_opcode (L\<lparr>jmptbl3_id := jmptbl3_id L + 1, lC := C\<lparr>jumps3 := (jumps3 C)[i := impl]\<rparr>\<rparr>) 57) (\<lambda>L.
             rbind (mozvm_loader_write16 L (of_nat i)) (\<lambda>L. Inr (L, is))))))
        else
          let i = jmptbl_id L mod 65536
          in rbind (alloc_jump_table (lC L) i tbl) (\<lambda>C.
             rbind (mozvm_loader_write_opcode (L\<lparr>jmptbl_id := jmptbl_id L + 1, lC := C\<rparr>) 27) (\<lambda>L.
             rbind (mozvm_loader_write16 L (of_nat i)) (\<lambda>L. Inr (L, is)))))"

section \<open>Instructions\<close>

text \<open>The operands of one instruction: read from the stream, written to the buffer.\<close>

type_synonym ld = "loader \<times> input_stream_t"

definition ld8 :: "ld \<Rightarrow> ld res" where
  "ld8 = (\<lambda>(L, is). rbind (read8 is) (\<lambda>(b, is). rbind (mozvm_loader_write8 L b) (\<lambda>L. Inr (L, is))))"

definition ld_addr :: "ld \<Rightarrow> ld res" where
  "ld_addr = (\<lambda>(L, is). rbind (read24 is) (\<lambda>(a, is). rbind (mozvm_loader_write_addr L a) (\<lambda>L. Inr (L, is))))"

text \<open>An id of one of the constant arrays \<open>f C\<close>, which is looked up; sets are not.\<close>

definition ld_id :: "(constants \<Rightarrow> addr list) \<Rightarrow> ld \<Rightarrow> ld res" where
  "ld_id f = (\<lambda>(L, is). rbind (read16 is) (\<lambda>(i, is). rbind (aread (f (lC L)) (unat i)) (\<lambda>impl.
     rbind (mozvm_loader_write_id L i) (\<lambda>L. Inr (L, is)))))"

definition ld_set :: "ld \<Rightarrow> ld res" where
  "ld_set = (\<lambda>(L, is). rbind (read16 is) (\<lambda>(i, is). rbind (mozvm_loader_write_id L i) (\<lambda>L. Inr (L, is))))"

text \<open>State and memo point, the id cut to 16 bits.\<close>

definition ld_memo :: "ld \<Rightarrow> ld res" where
  "ld_memo = (\<lambda>(L, is). rbind (read8 is) (\<lambda>(st, is). rbind (read32 is) (\<lambda>(i, is).
     rbind (mozvm_loader_write8 L st) (\<lambda>L. rbind (mozvm_loader_write16 L (ucast i)) (\<lambda>L. Inr (L, is))))))"

definition ld_lookup :: "ld \<Rightarrow> ld res" where
  "ld_lookup = (\<lambda>(L, is). rbind (read8 is) (\<lambda>(st, is). rbind (read32 is) (\<lambda>(i, is). rbind (read24 is) (\<lambda>(sk, is).
     rbind (mozvm_loader_write8 L st) (\<lambda>L. rbind (mozvm_loader_write16 L (ucast i)) (\<lambda>L.
     rbind (mozvm_loader_write_addr L sk) (\<lambda>L. Inr (L, is))))))))"

definition ld_tlookup :: "ld \<Rightarrow> ld res" where
  "ld_tlookup = (\<lambda>(L, is). rbind (read8 is) (\<lambda>(st, is). rbind (read32 is) (\<lambda>(i, is). rbind (read24 is) (\<lambda>(sk, is).
     rbind (read16 is) (\<lambda>(tagId, is). rbind (aread (tags (lC L)) (unat tagId)) (\<lambda>impl.
     rbind (mozvm_loader_write8 L st) (\<lambda>L. rbind (mozvm_loader_write_id L tagId) (\<lambda>L.
     rbind (mozvm_loader_write16 L (ucast i)) (\<lambda>L. rbind (mozvm_loader_write_addr L sk) (\<lambda>L. Inr (L, is)))))))))))"

definition ld_call :: "ld \<Rightarrow> ld res" where
  "ld_call = (\<lambda>(L, is). rbind (read24 is) (\<lambda>(next, is). rbind (read16 is) (\<lambda>(prod, is). rbind (read24 is) (\<lambda>(jump, is).
     rbind (mozvm_loader_write_addr L next) (\<lambda>L. rbind (mozvm_loader_write_addr L jump) (\<lambda>L. Inr (L, is)))))))"

definition ld_ret :: "ld \<Rightarrow> ld res" where
  "ld_ret = (\<lambda>(L, is). rbind (mozvm_loader_write_addr L 0) (\<lambda>L. Inr (L, is)))"

definition ld_tleftfold :: "ld \<Rightarrow> ld res" where
  "ld_tleftfold = (\<lambda>(L, is).
     rbind (read8 is) (\<lambda>(d, is). rbind (read16 is) (\<lambda>(tagId, is). rbind (aread (tags (lC L)) (unat tagId)) (\<lambda>impl.
     rbind (mozvm_loader_write8 L d) (\<lambda>L. rbind (mozvm_loader_write_id L tagId) (\<lambda>L. Inr (L, is)))))))"

definition ld_sisdef :: "ld \<Rightarrow> ld res" where
  "ld_sisdef = (\<lambda>(L, is).
     rbind (read16 is) (\<lambda>(tblId, is). rbind (read16 is) (\<lambda>(strId, is).
     rbind (aread (tables (lC L)) (unat tblId)) (\<lambda>impl1. rbind (aread (strs (lC L)) (unat strId)) (\<lambda>impl2.
     rbind (mozvm_loader_write_id L tblId) (\<lambda>L. rbind (mozvm_loader_write_id L strId) (\<lambda>L. Inr (L, is))))))))"

text \<open>A label is the number of a production; nothing is written.\<close>

definition ld_label :: "bool \<Rightarrow> ld \<Rightarrow> (ld \<times> bool \<times> u16) res" where
  "ld_label hj = (\<lambda>(L, is). rbind (read16 is) (\<lambda>(label, is). Inr ((L, is), hj, label)))"

text \<open>\<open>case\<close> labels: the opcode with a number, if there is one.\<close>

definition opcode_of :: "nat \<Rightarrow> MozOpcode option" where
  "opcode_of n = find (\<lambda>opc. opcode_num opc = n) OP_EACH"

text \<open>The \<open>switch\<close>: operands written, whether a jump is still to be written, and the production.\<close>

definition done_ld :: "bool \<Rightarrow> ld res \<Rightarrow> (ld \<times> bool \<times> u16) res" where
  "done_ld hj r = rbind r (\<lambda>s. Inr (s, hj, 0))"

primrec load_operands :: "bool \<Rightarrow> bool \<Rightarrow> MozOpcode \<Rightarrow> ld \<Rightarrow> (ld \<times> bool \<times> u16) res" where
  "load_operands opt hj O_Nop s = done_ld hj (Inr s)"
| "load_operands opt hj O_Fail s = done_ld hj (Inr s)"
| "load_operands opt hj O_Succ s = done_ld hj (Inr s)"
| "load_operands opt hj O_Alt s = done_ld hj (ld_addr s)"
| "load_operands opt hj O_Jump s = done_ld False (ld_addr s)"
| "load_operands opt hj O_Call s = done_ld False (ld_call s)"
| "load_operands opt hj O_Ret s = done_ld hj (ld_ret s)"
| "load_operands opt hj O_Pos s = done_ld hj (Inr s)"
| "load_operands opt hj O_Back s = done_ld hj (Inr s)"
| "load_operands opt hj O_Skip s = done_ld hj (Inr s)"
| "load_operands opt hj O_Byte s = done_ld hj (ld8 s)"
| "load_operands opt hj O_NByte s = done_ld hj (ld8 s)"
| "load_operands opt hj O_OByte s = done_ld hj (ld8 s)"
| "load_operands opt hj O_RByte s = done_ld hj (ld8 s)"
| "load_operands opt hj O_Any s = done_ld hj (Inr s)"
| "load_operands opt hj O_NAny s = done_ld hj (Inr s)"
| "load_operands opt hj O_OAny s = done_ld hj (Inr s)"
| "load_operands opt hj O_RAny s = done_ld hj (Inr s)"
| "load_operands opt hj O_Str s = done_ld hj (ld_id strs s)"
| "load_operands opt hj O_NStr s = done_ld hj (ld_id strs s)"
| "load_operands opt hj O_OStr s = done_ld hj (ld_id strs s)"
| "load_operands opt hj O_RStr s = done_ld hj (ld_id strs s)"
| "load_operands opt hj O_Set s = done_ld hj (ld_set s)"
| "load_operands opt hj O_NSet s = done_ld hj (ld_set s)"
| "load_operands opt hj O_OSet s = done_ld hj (ld_set s)"
| "load_operands opt hj O_RSet s = done_ld hj (ld_set s)"
| "load_operands opt hj O_Consume s = done_ld hj (ld8 s)"
| "load_operands opt hj O_First s = done_ld hj (case s of (L, is) \<Rightarrow> load_first opt L is)"
| "load_operands opt hj O_Lookup s = done_ld hj (ld_lookup s)"
| "load_operands opt hj O_Memo s = done_ld hj (ld_memo s)"
| "load_operands opt hj O_MemoFail s = done_ld hj (ld_memo s)"
| "load_operands opt hj O_TPush s = done_ld hj (Inr s)"
| "load_operands opt hj O_TPop s = done_ld hj (ld_id tags s)"
| "load_operands opt hj O_TLeftFold s = done_ld hj (ld_tleftfold s)"
| "load_operands opt hj O_TNew s = done_ld hj (ld8 s)"
| "load_operands opt hj O_TCapture s = done_ld hj (ld8 s)"
| "load_operands opt hj O_TTag s = done_ld hj (ld_id tags s)"
| "load_operands opt hj O_TReplace s = done_ld hj (ld_id strs s)"
| "load_operands opt hj O_TStart s = done_ld hj (Inr s)"
| "load_operands opt hj O_TAbort s = Inl Int3"
| "load_operands opt hj O_TCommit s = done_ld hj (ld_id tags s)"
| "load_operands opt hj O_TLookup s = done_ld hj (ld_tlookup s)"
| "load_operands opt hj O_TMemo s = done_ld hj (ld_memo s)"
| "load_operands opt hj O_SOpen s = done_ld hj (Inr s)"
| "load_operands opt hj O_SClose s = done_ld hj (Inr s)"
| "load_operands opt hj O_SIsDef s = done_ld hj (ld_sisdef s)"
| "load_operands opt hj O_SMask s = done_ld hj (ld_id tables s)"
| "load_operands opt hj O_SDef s = done_ld hj (ld_id tables s)"
| "load_operands opt hj O_SExists s = done_ld hj (ld_id tables s)"
| "load_operands opt hj O_SMatch s = done_ld hj (ld_id tables s)"
| "load_operands opt hj O_SIs s = done_ld hj (ld_id tables s)"
| "load_operands opt hj O_SIsa s = done_ld hj (ld_id tables s)"
| "load_operands opt hj O_SDefNum s = Inl Int3"
| "load_operands opt hj O_SCount s = Inl Int3"
| "load_operands opt hj O_Exit s = done_ld hj (ld8 s)"
| "load_operands opt hj O_TblJump1 s = done_ld hj (Inr s)"
| "load_operands opt hj O_TblJump2 s = done_ld hj (Inr s)"
| "load_operands opt hj O_TblJump3 s = done_ld hj (Inr s)"
| "load_operands opt hj O_Label s = ld_label hj s"

definition mozvm_loader_load_inst :: "bool \<Rightarrow> loader \<Rightarrow> input_stream_t \<Rightarrow> (u16 \<times> loader \<times> input_stream_t) res" where
  "mozvm_loader_load_inst opt L is =
     rbind (read8 is) (\<lambda>(b, is).
     let hj = b AND 0x80 \<noteq> 0; opcode = b AND 0x7f
     in rbind (if opt \<and> (opcode = 0 \<or> opcode = 27 \<or> opcode = 127) then Inr L else mozvm_loader_write_opcode L opcode) (\<lambda>L.
        rbind (case opcode_of (unat opcode) of None \<Rightarrow> Inr ((L, is), hj, 0) | Some opc \<Rightarrow> load_operands opt hj opc (L, is))
          (\<lambda>((L, is), hj, prod).
        if hj then
          rbind (read24 is) (\<lambda>(jump, is). rbind (mozvm_loader_write_opcode L 4) (\<lambda>L.
          rbind (mozvm_loader_write_addr L jump) (\<lambda>L. Inr (prod, L, is))))
        else Inr (prod, L, is))))"

section \<open>Loading\<close>

definition set_begin :: "loader \<Rightarrow> u16 \<Rightarrow> nat \<Rightarrow> loader res" where
  "set_begin L p n = rbind (aread (lprods L) (unat p)) (\<lambda>e. Inr (L\<lparr>lprods := (lprods L)[unat p := e\<lparr>pbegin := n\<rparr>]\<rparr>))"

definition set_end :: "loader \<Rightarrow> u16 \<Rightarrow> nat \<Rightarrow> loader res" where
  "set_end L p n = rbind (aread (lprods L) (unat p)) (\<lambda>e. Inr (L\<lparr>lprods := (lprods L)[unat p := e\<lparr>pend := n\<rparr>]\<rparr>))"

text \<open>The first pass: \<open>while (is->pos < is->end)\<close>, every pass reads a byte. \<open>i\<close> and \<open>prod_id\<close> are the
local variables.\<close>

fun load_loop :: "nat \<Rightarrow> bool \<Rightarrow> loader \<Rightarrow> input_stream_t \<Rightarrow> nat \<Rightarrow> u16 \<Rightarrow> loader res" where
  "load_loop 0 opt L is i prod_id = Inl NoFuel"
| "load_loop (Suc f) opt L is i prod_id =
     (if ipos is < iend is then
        rbind (peek8 is) (\<lambda>opcode.
        let begin = asize (lbuf L)
        in rbind (awrite (ltable L) i (asize (lbuf L))) (\<lambda>t.
           rbind (mozvm_loader_load_inst opt (L\<lparr>inst_size := inst_size L + 1, ltable := t\<rparr>) is) (\<lambda>(prod, L, is).
           rbind (if opcode = 127 then set_begin L prod begin else Inr L) (\<lambda>L.
           let prod_id = (if opcode = 127 then prod else prod_id)
           in rbind (set_end L prod_id (asize (lbuf L))) (\<lambda>L.
              load_loop f opt L is (i + 1) prod_id)))))
      else Inr L)"

definition get_opcode :: "loader \<Rightarrow> int \<Rightarrow> u8 res" where
  "get_opcode L idx = (if idx < 0 then Inl OutOfBounds else ARRAY_get (lbuf L) (nat idx))"

definition set_opcode :: "loader \<Rightarrow> int \<Rightarrow> u8 \<Rightarrow> loader res" where
  "set_opcode L idx opc =
     (if idx < 0 then Inl OutOfBounds else rbind (ARRAY_set (lbuf L) (nat idx) opc) (\<lambda>b. Inr (L\<lparr>lbuf := b\<rparr>)))"

text \<open>\<open>mozvm1_opcode_size\<close> of a byte, \<open>(unsigned)-1\<close> for a byte that is no opcode; added to an \<open>int\<close>
it is -1.\<close>

definition opcode_shift :: "u8 \<Rightarrow> int" where
  "opcode_shift b = (case opcode_of (unat b) of None \<Rightarrow> - 1 | Some opc \<Rightarrow> int (mozvm1_opcode_size opc))"

text \<open>\<open>GET_JUMP_ADDR\<close>, read and written: a \<open>mozaddr_t\<close> in the buffer.\<close>

definition get_ref :: "loader \<Rightarrow> int \<Rightarrow> int res" where
  "get_ref L k =
     rbind (get_opcode L k) (\<lambda>b0. rbind (get_opcode L (k + 1)) (\<lambda>b1.
     rbind (get_opcode L (k + 2)) (\<lambda>b2. rbind (get_opcode L (k + 3)) (\<lambda>b3.
       Inr (sint (ucast b0 OR push_bit 8 (ucast b1) OR push_bit 16 (ucast b2) OR push_bit 24 (ucast b3) :: u32))))))"

definition set_ref :: "loader \<Rightarrow> int \<Rightarrow> int \<Rightarrow> loader res" where
  "set_ref L k v =
     rfold (\<lambda>L (i, b). set_opcode L (k + int i) b) L (enumerate 0 (store32 (word_of_int v)))"

definition get_id :: "loader \<Rightarrow> int \<Rightarrow> nat res" where
  "get_id L k =
     rbind (get_opcode L k) (\<lambda>b0. rbind (get_opcode L (k + 1)) (\<lambda>b1. Inr (unat (ucast b0 OR push_bit 8 (ucast b1) :: u16))))"

text \<open>The offset of an instruction number.\<close>

definition table_at :: "loader \<Rightarrow> int \<Rightarrow> int res" where
  "table_at L i = (if i < 0 then Inl OutOfBounds else rbind (aread (ltable L) (nat i)) (\<lambda>t. Inr (int t)))"

definition reloc_ref :: "loader \<Rightarrow> int \<Rightarrow> int \<Rightarrow> loader res" where
  "reloc_ref L k from = rbind (get_ref L k) (\<lambda>r. rbind (table_at L r) (\<lambda>t. set_ref L k (t - from)))"

definition INT_MAX :: int where
  "INT_MAX = 2 ^ 31 - 1"

text \<open>\<open>L_encode_jumps\<close>: the first \<open>n\<close> targets of a table; target 0 counts as no target.\<close>

definition encode_jumps :: "loader \<Rightarrow> int \<Rightarrow> nat \<Rightarrow> jump_table_t \<Rightarrow> jump_table_t res" where
  "encode_jumps L from n tbl =
     rfold (\<lambda>tbl i. rbind (aread (jjumps tbl) i) (\<lambda>v.
       if v \<noteq> 0 then
         rbind (table_at L v) (\<lambda>t. rbind (awrite (jjumps tbl) i (t - from)) (\<lambda>js.
         rbind (rassert (t - from \<noteq> INT_MAX)) (\<lambda>_. Inr (tbl\<lparr>jjumps := js\<rparr>))))
       else rbind (awrite (jjumps tbl) i INT_MAX) (\<lambda>js. Inr (tbl\<lparr>jjumps := js\<rparr>)))) tbl [0..<n]"

definition reloc_first :: "loader \<Rightarrow> int \<Rightarrow> nat \<Rightarrow> loader res" where
  "reloc_first L from i =
     rfold (\<lambda>L k. rbind (aread (jumps (lC L)) (MOZ_JMPTABLE_SIZE * i + k)) (\<lambda>v. rbind (table_at L v) (\<lambda>t.
       rbind (awrite (jumps (lC L)) (MOZ_JMPTABLE_SIZE * i + k) (t - from)) (\<lambda>js.
         Inr (L\<lparr>lC := (lC L)\<lparr>jumps := js\<rparr>\<rparr>))))) L [0..<MOZ_JMPTABLE_SIZE]"

text \<open>One instruction of the second pass, at \<open>j\<close>, the next one being at \<open>from\<close>.\<close>

definition reloc_inst :: "loader \<Rightarrow> u8 \<Rightarrow> int \<Rightarrow> int \<Rightarrow> loader res" where
  "reloc_inst L opcode j from =
     (case opcode_of (unat opcode) of
        Some O_Jump \<Rightarrow>
          rbind (get_ref L (from - 4)) (\<lambda>r. rbind (table_at L r) (\<lambda>t.
          rbind (if mozvm1_opcode_size O_Jump = mozvm1_opcode_size O_Ret then
                   rbind (get_opcode L t) (\<lambda>opc. if opc = 6 then set_opcode L j 6 else Inr L)
                 else Inr L) (\<lambda>L.
            reloc_ref L (from - 4) from)))
      | Some O_Call \<Rightarrow> rbind (reloc_ref L (from - 8) from) (\<lambda>L. reloc_ref L (from - 4) from)
      | Some O_Alt \<Rightarrow> reloc_ref L (from - 4) from
      | Some O_Lookup \<Rightarrow> reloc_ref L (from - 4) from
      | Some O_TLookup \<Rightarrow> reloc_ref L (from - 4) from
      | Some O_First \<Rightarrow> rbind (get_id L (from - 2)) (reloc_first L from)
      | Some O_TblJump1 \<Rightarrow>
          rbind (get_id L (from - 2)) (\<lambda>i. rbind (aread (jumps1 (lC L)) i) (\<lambda>tbl. rbind (encode_jumps L from 2 tbl) (\<lambda>tbl.
            Inr (L\<lparr>lC := (lC L)\<lparr>jumps1 := (jumps1 (lC L))[i := tbl]\<rparr>\<rparr>))))
      | Some O_TblJump2 \<Rightarrow>
          rbind (get_id L (from - 2)) (\<lambda>i. rbind (aread (jumps2 (lC L)) i) (\<lambda>tbl. rbind (encode_jumps L from 4 tbl) (\<lambda>tbl.
            Inr (L\<lparr>lC := (lC L)\<lparr>jumps2 := (jumps2 (lC L))[i := tbl]\<rparr>\<rparr>))))
      | Some O_TblJump3 \<Rightarrow>
          rbind (get_id L (from - 2)) (\<lambda>i. rbind (aread (jumps3 (lC L)) i) (\<lambda>tbl. rbind (encode_jumps L from 8 tbl) (\<lambda>tbl.
            Inr (L\<lparr>lC := (lC L)\<lparr>jumps3 := (jumps3 (lC L))[i := tbl]\<rparr>\<rparr>))))
      | _ \<Rightarrow> Inr L)"

text \<open>The second pass. A byte that is no opcode steps back by one, so the loop has a step budget.\<close>

fun reloc_loop :: "nat \<Rightarrow> loader \<Rightarrow> int \<Rightarrow> loader res" where
  "reloc_loop 0 L j = Inl NoFuel"
| "reloc_loop (Suc f) L j =
     (if j < int (asize (lbuf L)) then
        rbind (get_opcode L j) (\<lambda>opcode.
        rbind (reloc_inst L opcode j (j + opcode_shift opcode)) (\<lambda>L.
          reloc_loop f L (j + opcode_shift opcode)))
      else Inr L)"

definition mozvm_loader_load :: "bool \<Rightarrow> loader \<Rightarrow> input_stream_t \<Rightarrow> loader res" where
  "mozvm_loader_load opt L is =
     rbind (load_loop (iend is - ipos is + 1) opt L is 0 0) (\<lambda>L. reloc_loop (2 * asize (lbuf L) + 1) L 0)"

section \<open>The file\<close>

definition checkFileType :: "input_stream_t \<Rightarrow> (bool \<times> input_stream_t) res" where
  "checkFileType is =
     rbind (read8 is) (\<lambda>(c, is). if c \<noteq> 78 then Inr (False, is)
     else rbind (read8 is) (\<lambda>(c, is). if c \<noteq> 69 then Inr (False, is)
     else rbind (read8 is) (\<lambda>(c, is). Inr (c = 90, is))))"

definition MOZ_SUPPORTED_NEZ_VERSION :: nat where
  "MOZ_SUPPORTED_NEZ_VERSION = 0"

definition checkVersion :: "input_stream_t \<Rightarrow> (bool \<times> input_stream_t) res" where
  "checkVersion is = rbind (read8 is) (\<lambda>(v, is). Inr (MOZ_SUPPORTED_NEZ_VERSION \<le> unat v, is))"

text \<open>A string of the file: its length, its characters and a byte that is skipped. The new string is
put behind the memory \<open>m\<close>.\<close>

definition load_string :: "(nat \<Rightarrow> u8 list) \<Rightarrow> mem \<Rightarrow> input_stream_t \<Rightarrow> (addr \<times> mem \<times> input_stream_t) res" where
  "load_string fill m is =
     rbind (read16 is) (\<lambda>(len, is).
     let str = ipos is; is' = skip is (unat len + 1)
     in rbind (rguard OutOfBounds (str + unat len \<le> length (idata is))) (\<lambda>_.
        rbind (pstring_alloc m (fill (8 + unat len + 1)) (take (unat len) (drop str (idata is)))) (\<lambda>(s, m).
          Inr (s, m, is'))))"

definition load_strings :: "(nat \<Rightarrow> u8 list) \<Rightarrow> nat \<Rightarrow> mem \<Rightarrow> input_stream_t \<Rightarrow> (addr list \<times> mem \<times> input_stream_t) res" where
  "load_strings fill n m is =
     rfold (\<lambda>(ss, m, is) _. rbind (load_string fill m is) (\<lambda>(s, m, is). Inr (ss @ [s], m, is))) ([], m, is) [0..<n]"

text \<open>A set: eight words, bit \<open>k\<close> of word \<open>j\<close> being byte \<open>k + 32 * j\<close>. \<open>b\<close> is the new memory.\<close>

definition load_set :: "bitset_t \<Rightarrow> input_stream_t \<Rightarrow> (bitset_t \<times> input_stream_t) res" where
  "load_set b is =
     rfold (\<lambda>(b, is) j. rbind (read32 is) (\<lambda>(v, is).
       rbind (rfold (\<lambda>b k. if v AND push_bit k 1 = push_bit k 1 then bitset_set b (k + 32 * j) else Inr b) b [0..<32]) (\<lambda>b.
         Inr (b, is)))) (bitset_init b, is) [0..<8]"

definition load_sets :: "nat \<Rightarrow> input_stream_t \<Rightarrow> (bitset_t list \<times> input_stream_t) res" where
  "load_sets n is =
     rfold (\<lambda>(bs, is) _. rbind (load_set \<lparr>bdata = replicate 4 0\<rparr> is) (\<lambda>(b, is). Inr (bs @ [b], is))) ([], is) [0..<n]"

text \<open>\<open>mozvm_loader_freeze\<close>: the table is freed; the offsets of the productions become pointers, which
are indices into the code.\<close>

definition mozvm_loader_freeze :: "loader \<Rightarrow> loader" where
  "mozvm_loader_freeze L = L\<lparr>ltable := [], lC := (lC L)\<lparr>code := elts (lbuf L)\<rparr>\<rparr>"

definition mozvm_loader_dispose :: "loader \<Rightarrow> loader" where
  "mozvm_loader_dispose L = L\<lparr>lbuf := ARRAY_dispose (lbuf L)\<rparr>"

text \<open>The blocks for the runtime (its log, symbol table and memo table), and the node heap.\<close>

record rt_blocks =
  rlog :: "AstLog list"
  rsym :: "entry_t list"
  rmemo :: "memo_entry list"
  rheap :: node_heap

text \<open>
  \<open>mozvm_loader_load_syntax2\<close>: header, runtime, productions, sets, strings, tags, tables, code. The
  memory \<open>m\<close> is what is in use before; \<open>fill\<close> gives the content of new blocks.
\<close>

definition mozvm_loader_load_syntax2 ::
  "(nat \<Rightarrow> u8 list) \<Rightarrow> rt_blocks \<Rightarrow> nat list \<Rightarrow> mem \<Rightarrow> loader \<Rightarrow> u8 list \<Rightarrow> bool \<Rightarrow> (loader \<times> vm) res" where
  "mozvm_loader_load_syntax2 fill B tblock m L memory opt =
     (let is = \<lparr>ipos = 0, iend = length memory, idata = memory\<rparr>
      in rbind (checkFileType is) (\<lambda>(b, is). rbind (rguard ExitFailure b) (\<lambda>_.
         rbind (checkVersion is) (\<lambda>(b, is). rbind (rguard ExitFailure b) (\<lambda>_.
         rbind (read16 is) (\<lambda>(isize, is). rbind (read16 is) (\<lambda>(memo_size, is).
         rbind (read16 is) (\<lambda>(jmptbl_size, is). rbind (read16 is) (\<lambda>(prod_size, is).
         rbind (mozvm_loader_init L tblock (fill 4) (unat isize)) (\<lambda>L.
         rbind (moz_runtime_init (rlog B) (rsym B) (rmemo B) (rheap B) (ucast memo_size)) (\<lambda>R.
         rbind (load_strings fill (unat prod_size) m is) (\<lambda>(prods, m, is).
         rbind (read16 is) (\<lambda>(set_size, is). rbind (load_sets (unat set_size) is) (\<lambda>(bs, is).
         rbind (read16 is) (\<lambda>(str_size, is). rbind (load_strings fill (unat str_size) m is) (\<lambda>(ss, m, is).
         rbind (read16 is) (\<lambda>(tag_size, is). rbind (load_strings fill (unat tag_size) m is) (\<lambda>(tg, m, is).
         rbind (read16 is) (\<lambda>(table_size, is). rbind (load_strings fill (unat table_size) m is) (\<lambda>(tb, m, is).
         rbind (mozvm_loader_load opt
             (L\<lparr>lC := \<lparr>sets = bs, tags = tg, strs = ss, tables = tb, jumps = [], jumps1 = [], jumps2 = [], jumps3 = [],
                        code = [], vmem = m, stale = stale (lC L)\<rparr>,
                lprods := map (\<lambda>s. \<lparr>pbegin = 0, pend = 0, pname = s\<rparr>) prods\<rparr>) is) (\<lambda>L.
           Inr (mozvm_loader_freeze L, R))))))))))))))))))))))"

text \<open>The data is copied; its copy is freed at the end.\<close>

definition mozvm_loader_load_syntax ::
  "(nat \<Rightarrow> u8 list) \<Rightarrow> rt_blocks \<Rightarrow> nat list \<Rightarrow> mem \<Rightarrow> loader \<Rightarrow> u8 list \<Rightarrow> bool \<Rightarrow> (loader \<times> vm) res" where
  "mozvm_loader_load_syntax fill B tblock m L memory opt = mozvm_loader_load_syntax2 fill B tblock m L memory opt"

end
