(* ===== verification/IR.thy ===== *)
theory IR
  imports KArray Bitset
begin

text \<open>
  The intermediate representation of the compiler: the instructions of
  \<open>src/src/compiler/ir.h\<close>, the basic blocks of \<open>block.c\<close> and \<open>block.h\<close> and the worklists of
  \<open>worklist.h\<close>.

  Blocks and instructions are heap objects that are changed through pointers, so both live in a
  store: a pointer is an index, a freed instruction is \<open>None\<close> and reading it is \<open>NullDeref\<close>. The
  growable arrays of pointers are lists; that an array of \<open>karray.h\<close> is the list of its elements,
  operation by operation, is what the theory \<open>KArray\<close> shows.
\<close>

section \<open>Instructions\<close>

datatype ir_type =
    ILabel | IExit | IJump | ITableJump | IInvoke | IPLoad | IPStore | IRet | IFail
  | IAny | IByte | IStr | ISet | IUByte | IUSet | INAny | INByte | INStr | INSet
  | IRByte | IRAny | IRStr | IRSet | IRUByte | IRUSet | IOByte | IOStr | IOSet | IOUByte | IOUSet
  | ILookup | IMemo | IMemoFail | ITStart | ITCommit | ITAbort | ITPush | ITPop | ITFoldL | ITNew
  | ITCapture | ITTag | ITReplace | ITLookup | ITMemo
  | ISOpen | ISClose | ISMask | ISDef | ISIsDef | ISExists | ISMatch | ISIs | ISIsa

definition FOR_EACH_IR :: "ir_type list" where
  "FOR_EACH_IR =
    [ILabel, IExit, IJump, ITableJump, IInvoke, IPLoad, IPStore, IRet, IFail,
     IAny, IByte, IStr, ISet, IUByte, IUSet, INAny, INByte, INStr, INSet,
     IRByte, IRAny, IRStr, IRSet, IRUByte, IRUSet, IOByte, IOStr, IOSet, IOUByte, IOUSet,
     ILookup, IMemo, IMemoFail, ITStart, ITCommit, ITAbort, ITPush, ITPop, ITFoldL, ITNew,
     ITCapture, ITTag, ITReplace, ITLookup, ITMemo,
     ISOpen, ISClose, ISMask, ISDef, ISIsDef, ISExists, ISMatch, ISIs, ISIsa]"

text \<open>The value of an enumerator is its place in the list.\<close>

fun index_of :: "'a \<Rightarrow> 'a list \<Rightarrow> nat" where
  "index_of x [] = 0"
| "index_of x (y # ys) = (if x = y then 0 else Suc (index_of x ys))"

definition ir_num :: "ir_type \<Rightarrow> nat" where
  "ir_num t = index_of t FOR_EACH_IR"

text \<open>
  The structures extend \<open>IR_t\<close> by these fields: one for each combination of fields there is. A pointer
  to a block or to a declaration is its index.
\<close>

type_synonym block_ptr = nat
type_synonym ir_ptr = nat

datatype ir_arg =
    NoArg
  | ExitArg u8                  \<comment> \<open>\<open>exitStatus\<close>\<close>
  | ByteArg u8                  \<comment> \<open>\<open>byte\<close>\<close>
  | UByteArg u32                \<comment> \<open>\<open>unsigned byte\<close>\<close>
  | IdArg u16                   \<comment> \<open>\<open>tblId\<close>, \<open>strId\<close>, \<open>setId\<close> or \<open>tagId\<close>\<close>
  | BlockArg block_ptr          \<comment> \<open>\<open>v.target\<close>\<close>
  | DeclArg "nat option"             \<comment> \<open>\<open>v.decl\<close>\<close>
  | LookupArg u8 u16 u32        \<comment> \<open>\<open>state\<close>, \<open>memoId\<close>, \<open>skip\<close>\<close>
  | MemoArg u8 u16              \<comment> \<open>\<open>state\<close>, \<open>memoId\<close>\<close>
  | ShiftArg u8                 \<comment> \<open>\<open>shift\<close>\<close>
  | ShiftTagArg u8 u16          \<comment> \<open>\<open>shift\<close>, \<open>tagId\<close>\<close>
  | TLookupArg u8 u16 u16 u32   \<comment> \<open>\<open>state\<close>, \<open>tagId\<close>, \<open>memoId\<close>, \<open>skip\<close>\<close>
  | TagStrArg u16 u16           \<comment> \<open>\<open>tagId\<close>, \<open>strId\<close>\<close>

text \<open>The fields of the structure of an instruction type.\<close>

definition has_fields :: "ir_type \<Rightarrow> ir_arg \<Rightarrow> bool" where
  "has_fields t arg =
     (case arg of
        NoArg \<Rightarrow> t \<in> {ILabel, IPLoad, IPStore, IRet, IFail, IAny, INAny, IRAny, ITStart, ITAbort, ITPush, ISOpen, ISClose}
      | ExitArg _ \<Rightarrow> t = IExit
      | ByteArg _ \<Rightarrow> t \<in> {IByte, INByte, IRByte, IOByte}
      | UByteArg _ \<Rightarrow> t \<in> {IUByte, IRUByte, IOUByte}
      | IdArg _ \<Rightarrow> t \<in> {ITableJump, IStr, ISet, IUSet, INStr, INSet, IRStr, IRSet, IRUSet, IOStr, IOSet, IOUSet, ITCommit,
          ITPop, ITTag, ITReplace, ISMask, ISDef, ISExists, ISMatch, ISIs, ISIsa}
      | BlockArg _ \<Rightarrow> t = IJump
      | DeclArg _ \<Rightarrow> t = IInvoke
      | LookupArg _ _ _ \<Rightarrow> t = ILookup
      | MemoArg _ _ \<Rightarrow> t \<in> {IMemo, IMemoFail, ITMemo}
      | ShiftArg _ \<Rightarrow> t \<in> {ITNew, ITCapture}
      | ShiftTagArg _ _ \<Rightarrow> t = ITFoldL
      | TLookupArg _ _ _ _ \<Rightarrow> t = ITLookup
      | TagStrArg _ _ \<Rightarrow> t = ISIsDef)"

record IR =
  irid :: nat
  irtype :: ir_type
  parent :: "block_ptr option"
  irfail :: block_ptr
  irarg :: ir_arg

section \<open>Blocks\<close>

definition BLOCK_DEFAULT :: u32 where "BLOCK_DEFAULT = 1"
definition BLOCK_ENTRY :: u32 where "BLOCK_ENTRY = 2"
definition BLOCK_EXIT :: u32 where "BLOCK_EXIT = 4"
definition BLOCK_FAIL :: u32 where "BLOCK_FAIL = 8"
definition BLOCK_HANDLER :: u32 where "BLOCK_HANDLER = 16"
definition BLOCK_LOOP_HEAD :: u32 where "BLOCK_LOOP_HEAD = 32"

record block =
  bid :: nat
  btype :: u32
  insts :: "ir_ptr list"
  preds :: "block_ptr list"
  succs :: "block_ptr list"

text \<open>The store: all blocks and instructions ever made, and the two counters.\<close>

record store =
  bheap :: "block list"
  iheap :: "IR option list"
  max_block_id :: nat
  max_ir_id :: nat

definition get_block :: "store \<Rightarrow> block_ptr \<Rightarrow> block res" where
  "get_block s b = aread (bheap s) b"

definition put_block :: "store \<Rightarrow> block_ptr \<Rightarrow> block \<Rightarrow> store res" where
  "put_block s b v = rbind (awrite (bheap s) b v) (\<lambda>h. Inr (s\<lparr>bheap := h\<rparr>))"

definition get_ir :: "store \<Rightarrow> ir_ptr \<Rightarrow> IR res" where
  "get_ir s i = rbind (aread (iheap s) i) (\<lambda>x. case x of None \<Rightarrow> Inl NullDeref | Some ir \<Rightarrow> Inr ir)"

definition put_ir :: "store \<Rightarrow> ir_ptr \<Rightarrow> IR option \<Rightarrow> store res" where
  "put_ir s i v = rbind (awrite (iheap s) i v) (\<lambda>h. Inr (s\<lparr>iheap := h\<rparr>))"

subsection \<open>Arrays of pointers\<close>

definition array_add_once :: "nat list \<Rightarrow> nat \<Rightarrow> nat list" where
  "array_add_once xs v = (if v \<in> set xs then xs else xs @ [v])"

definition array_remove_element :: "nat list \<Rightarrow> nat \<Rightarrow> nat list res" where
  "array_remove_element xs v = rbind (rassert (xs \<noteq> [])) (\<lambda>_. Inr (remove1 v xs))"

subsection \<open>Operations of block.c\<close>

definition block_set_type :: "store \<Rightarrow> block_ptr \<Rightarrow> u32 \<Rightarrow> store res" where
  "block_set_type s b t = rbind (get_block s b) (\<lambda>bb. put_block s b (bb\<lparr>btype := btype bb OR t\<rparr>))"

definition block_is :: "block \<Rightarrow> u32 \<Rightarrow> bool" where
  "block_is bb t \<longleftrightarrow> btype bb AND t = t"

definition block_new :: "store \<Rightarrow> u32 \<Rightarrow> (block_ptr \<times> store) res" where
  "block_new s t =
     (let b = length (bheap s);
          s = s\<lparr>bheap := bheap s @ [\<lparr>bid = max_block_id s, btype = 0, insts = [], preds = [], succs = []\<rparr>],
                max_block_id := max_block_id s + 1\<rparr>
      in rbind (block_set_type s b t) (\<lambda>s. Inr (b, s)))"

definition block_size :: "block \<Rightarrow> nat" where
  "block_size bb = length (insts bb)"

definition block_link :: "store \<Rightarrow> block_ptr \<Rightarrow> block_ptr \<Rightarrow> store res" where
  "block_link s pred succ =
     rbind (get_block s pred) (\<lambda>p. rbind (put_block s pred (p\<lparr>succs := array_add_once (succs p) succ\<rparr>)) (\<lambda>s.
     rbind (get_block s succ) (\<lambda>q. put_block s succ (q\<lparr>preds := array_add_once (preds q) pred\<rparr>))))"

definition block_unlink :: "store \<Rightarrow> block_ptr \<Rightarrow> block_ptr \<Rightarrow> store res" where
  "block_unlink s pred succ =
     rbind (get_block s pred) (\<lambda>p. rbind (array_remove_element (succs p) succ) (\<lambda>xs.
     rbind (put_block s pred (p\<lparr>succs := xs\<rparr>)) (\<lambda>s.
     rbind (get_block s succ) (\<lambda>q. rbind (array_remove_element (preds q) pred) (\<lambda>ys.
       put_block s succ (q\<lparr>preds := ys\<rparr>))))))"

definition block_append :: "store \<Rightarrow> block_ptr \<Rightarrow> ir_ptr \<Rightarrow> store res" where
  "block_append s b i =
     rbind (get_block s b) (\<lambda>bb. rbind (put_block s b (bb\<lparr>insts := insts bb @ [i]\<rparr>)) (\<lambda>s.
     rbind (get_ir s i) (\<lambda>ir. put_ir s i (Some (ir\<lparr>parent := Some b\<rparr>)))))"

definition block_remove :: "store \<Rightarrow> block_ptr \<Rightarrow> ir_ptr \<Rightarrow> store res" where
  "block_remove s b i =
     rbind (get_block s b) (\<lambda>bb. rbind (array_remove_element (insts bb) i) (\<lambda>xs. put_block s b (bb\<lparr>insts := xs\<rparr>)))"

definition block_insert_before :: "store \<Rightarrow> block_ptr \<Rightarrow> ir_ptr \<Rightarrow> ir_ptr \<Rightarrow> store res" where
  "block_insert_before s b target i =
     rbind (get_block s b) (\<lambda>bb.
     rbind (rassert (insts bb \<noteq> [])) (\<lambda>_.
     rbind (rassert (target \<in> set (insts bb))) (\<lambda>_.
     let idx = index_of target (insts bb)
     in put_block s b (bb\<lparr>insts := take idx (insts bb) @ i # drop idx (insts bb)\<rparr>))))"

definition block_get :: "block \<Rightarrow> nat \<Rightarrow> ir_ptr res" where
  "block_get bb i = aread (insts bb) i"

definition block_get_last :: "store \<Rightarrow> block_ptr \<Rightarrow> ir_ptr option res" where
  "block_get_last s b =
     rbind (get_block s b) (\<lambda>bb.
       if block_size bb = 0 then Inr None else rbind (block_get bb (block_size bb - 1)) (\<lambda>i. Inr (Some i)))"

section \<open>Worklists\<close>

text \<open>The list of a worklist; its context is the state \<open>'c\<close> the functions change.\<close>

definition worklist_empty :: "nat list \<Rightarrow> bool" where
  "worklist_empty w \<longleftrightarrow> length w = 0"

definition worklist_push :: "nat list \<Rightarrow> nat \<Rightarrow> nat list" where
  "worklist_push w v = array_add_once w v"

definition worklist_pop :: "nat list \<Rightarrow> (nat \<times> nat list) res" where
  "worklist_pop w = rbind (rassert (\<not> worklist_empty w)) (\<lambda>_. Inr (last w, butlast w))"

text \<open>The loop of \<open>apply\<close>, with a step budget: \<open>func\<close> may push again.\<close>

fun worklist_loop ::
  "nat \<Rightarrow> ('c \<Rightarrow> nat list \<Rightarrow> nat \<Rightarrow> (nat \<times> 'c \<times> nat list) res) \<Rightarrow> 'c \<Rightarrow> nat list \<Rightarrow> nat \<Rightarrow> (nat \<times> 'c) res" where
  "worklist_loop 0 func c w modified = Inl NoFuel"
| "worklist_loop (Suc f) func c w modified =
     (if worklist_empty w then Inr (modified, c)
      else rbind (worklist_pop w) (\<lambda>(obj, w). rbind (func c w obj) (\<lambda>(n, c, w).
        worklist_loop f func c w (modified + n))))"

definition worklist_apply ::
  "nat \<Rightarrow> 'c \<Rightarrow> ('c \<Rightarrow> nat list \<Rightarrow> nat list res) \<Rightarrow> ('c \<Rightarrow> nat list \<Rightarrow> nat \<Rightarrow> (nat \<times> 'c \<times> nat list) res) \<Rightarrow> (nat \<times> 'c) res" where
  "worklist_apply f c start func = rbind (start c []) (\<lambda>w. worklist_loop f func c w 0)"

end
