(* ===== verification/Expression.thy ===== *)
theory Expression
  imports Bitset
begin

text \<open>
  Parsing expressions of the compiler, \<open>src/src/compiler/expression.h\<close>: one constructor for each
  entry of \<open>FOR_EACH_BASE_AST\<close>, in its order, with the fields of its structure. A declaration that is
  invoked is named by its index in the list of declarations, if there is one.
\<close>

type_synonym name_t = "u8 list"

datatype expr =
    E_Empty
  | E_Invoke name_t "nat option"
  | E_Any
  | E_Byte u8
  | E_Str "u8 list"
  | E_Set bitset_t
  | E_And expr
  | E_Choice "expr list"
  | E_Fail
  | E_Not expr
  | E_Option expr
  | E_Sequence "expr list"
  | E_Repetition "expr list"
  | E_Tcapture
  | E_Tdetree
  | E_Tlfold
  | E_Tpush
  | E_Tpop name_t
  | E_Tnew
  | E_Treplace
  | E_Ttag name_t
  | E_Xblock expr
  | E_Xexists name_t
  | E_Xif
  | E_Xis name_t
  | E_Xisa name_t
  | E_Xon
  | E_Xmatch
  | E_Xlocal name_t expr
  | E_Xsymbol name_t expr

text \<open>\<open>inst\<close> is the entry block once the declaration is compiled.\<close>

record decl =
  drefc :: nat
  dname :: name_t
  dbody :: expr
  dinst :: "nat option"

end
