(* ===== verification/Compiler.thy ===== *)
theory Compiler
  imports IR Expression
begin

text \<open>
  The code generator, \<open>src/src/compiler/compiler.c\<close>: expressions to basic blocks of instructions,
  and the simplification of the blocks. Names and strings are lists of bytes; the dumps are output
  only.
\<close>

section \<open>State\<close>

record compiler =
  cstore :: store
  decls :: "decl list"
  blocks :: "block_ptr list"
  cstrs :: "u8 list list"
  ctags :: "u8 list list"
  csets :: "bitset_t list"

record moz_state =
  shead :: block_ptr
  scur :: block_ptr
  snext :: block_ptr
  sfail :: block_ptr

definition on_store :: "compiler \<Rightarrow> (store \<Rightarrow> store res) \<Rightarrow> compiler res" where
  "on_store C f = rbind (f (cstore C)) (\<lambda>s. Inr (C\<lparr>cstore := s\<rparr>))"

text \<open>The arrays are empty; their first blocks hold one element.\<close>

definition moz_compiler_init :: "compiler" where
  "moz_compiler_init = \<lparr>cstore = \<lparr>bheap = [], iheap = [], max_block_id = 0, max_ir_id = 0\<rparr>, decls = [], blocks = [],
     cstrs = [], ctags = [], csets = []\<rparr>"

definition moz_compiler_dispose :: "compiler \<Rightarrow> compiler" where
  "moz_compiler_dispose C = C\<lparr>blocks := [], cstrs := [], ctags := [], csets := [], decls := []\<rparr>"

section \<open>Constants\<close>

text \<open>\<open>strncmp(p, q, n) == 0\<close> for strings of \<open>n\<close> bytes: equal up to the first zero byte.\<close>

fun strncmp_list :: "u8 list \<Rightarrow> u8 list \<Rightarrow> bool" where
  "strncmp_list (x # xs) (y # ys) = (if x \<noteq> y then False else if x = 0 then True else strncmp_list xs ys)"
| "strncmp_list xs ys = True"

fun find_index :: "('a \<Rightarrow> bool) \<Rightarrow> 'a list \<Rightarrow> nat \<Rightarrow> nat option" where
  "find_index p [] i = None"
| "find_index p (x # xs) i = (if p x then Some i else find_index p xs (Suc i))"

definition moz_compiler_add_string_id :: "u8 list list \<Rightarrow> u8 list \<Rightarrow> nat \<times> u8 list list" where
  "moz_compiler_add_string_id ary name =
     (case find_index (\<lambda>x. length x = length name \<and> strncmp_list x name) ary 0 of
        Some i \<Rightarrow> (i, ary)
      | None \<Rightarrow> (length ary, ary @ [name]))"

text \<open>The ids are 16 bits wide.\<close>

definition moz_compiler_add_string :: "compiler \<Rightarrow> u8 list \<Rightarrow> u16 \<times> compiler" where
  "moz_compiler_add_string C str =
     (case moz_compiler_add_string_id (cstrs C) str of (i, a) \<Rightarrow> (of_nat i, C\<lparr>cstrs := a\<rparr>))"

definition moz_compiler_add_tag :: "compiler \<Rightarrow> name_t \<Rightarrow> u16 \<times> compiler" where
  "moz_compiler_add_tag C name =
     (case moz_compiler_add_string_id (ctags C) name of (i, a) \<Rightarrow> (of_nat i, C\<lparr>ctags := a\<rparr>))"

definition moz_compiler_add_set :: "compiler \<Rightarrow> bitset_t \<Rightarrow> u16 \<times> compiler" where
  "moz_compiler_add_set C s =
     (case find_index (\<lambda>x. bitset_equal s x) (csets C) 0 of
        Some i \<Rightarrow> (of_nat i, C)
      | None \<Rightarrow> (of_nat (length (csets C)), C\<lparr>csets := csets C @ [bitset_copy s s]\<rparr>))"

section \<open>Instructions and blocks\<close>

definition ir_alloc :: "compiler \<Rightarrow> moz_state \<Rightarrow> ir_type \<Rightarrow> ir_arg \<Rightarrow> (ir_ptr \<times> compiler) res" where
  "ir_alloc C S t arg =
     (let s = cstore C;
          ir = \<lparr>irid = max_ir_id s, irtype = t, parent = None, irfail = sfail S, irarg = arg\<rparr>;
          i = length (iheap s);
          s = s\<lparr>iheap := iheap s @ [Some ir], max_ir_id := max_ir_id s + 1\<rparr>
      in rbind (get_block s (sfail S)) (\<lambda>f.
         rbind (if block_is f BLOCK_HANDLER then Inr s else block_set_type s (sfail S) BLOCK_HANDLER) (\<lambda>s.
           Inr (i, C\<lparr>cstore := s\<rparr>))))"

definition moz_compiler_create_named_block :: "compiler \<Rightarrow> u32 \<Rightarrow> (block_ptr \<times> compiler) res" where
  "moz_compiler_create_named_block C t =
     rbind (block_new (cstore C) t) (\<lambda>(b, s). Inr (b, C\<lparr>cstore := s, blocks := blocks C @ [b]\<rparr>))"

definition moz_compiler_create_block :: "compiler \<Rightarrow> (block_ptr \<times> compiler) res" where
  "moz_compiler_create_block C = moz_compiler_create_named_block C BLOCK_DEFAULT"

text \<open>\<open>for (i = 0; i < n; i++) blocks[i] = moz_compiler_create_block(C);\<close>\<close>

definition create_blocks :: "compiler \<Rightarrow> nat \<Rightarrow> (block_ptr list \<times> compiler) res" where
  "create_blocks C n =
     rfold (\<lambda>(bs, C) _. rbind (moz_compiler_create_block C) (\<lambda>(b, C). Inr (bs @ [b], C))) ([], C) [0..<n]"

definition moz_state_init :: "compiler \<Rightarrow> (moz_state \<times> compiler) res" where
  "moz_state_init C =
     rbind (moz_compiler_create_named_block C BLOCK_ENTRY) (\<lambda>(h, C).
     rbind (moz_compiler_create_named_block C BLOCK_EXIT) (\<lambda>(n, C).
     rbind (moz_compiler_create_named_block C BLOCK_FAIL) (\<lambda>(f, C).
       Inr (\<lparr>shead = h, scur = h, snext = n, sfail = f\<rparr>, C))))"

definition moz_compiler_set_label :: "moz_state \<Rightarrow> block_ptr \<Rightarrow> moz_state" where
  "moz_compiler_set_label S b = S\<lparr>scur := b\<rparr>"

definition moz_compiler_add :: "compiler \<Rightarrow> moz_state \<Rightarrow> ir_ptr \<Rightarrow> compiler res" where
  "moz_compiler_add C S i =
     rbind (block_get_last (cstore C) (scur S)) (\<lambda>last.
     rbind (case last of None \<Rightarrow> Inr () | Some l \<Rightarrow> rbind (get_ir (cstore C) l) (\<lambda>ir. rassert (irtype ir \<noteq> IJump))) (\<lambda>_.
       on_store C (\<lambda>s. block_append s (scur S) i)))"

definition moz_compiler_link :: "compiler \<Rightarrow> moz_state \<Rightarrow> block_ptr \<Rightarrow> block_ptr \<Rightarrow> compiler res" where
  "moz_compiler_link C S b1 b2 =
     rbind (rassert (b1 \<noteq> b2)) (\<lambda>_.
     rbind (ir_alloc C S IJump (BlockArg b2)) (\<lambda>(i, C).
     rbind (moz_compiler_add C S i) (\<lambda>C. on_store C (\<lambda>s. block_link s b1 b2))))"

section \<open>Expressions to instructions\<close>

text \<open>
  A translation changes the state only in the current block, which it returns. The translations of
  expressions with parts take the translation \<open>tr\<close> of the parts as an argument.
\<close>

type_synonym to_ir = "compiler \<Rightarrow> moz_state \<Rightarrow> expr \<Rightarrow> (compiler \<times> block_ptr) res"

text \<open>An instruction is allocated and added.\<close>

definition emit_ir :: "compiler \<Rightarrow> moz_state \<Rightarrow> ir_type \<Rightarrow> ir_arg \<Rightarrow> (compiler \<times> block_ptr) res" where
  "emit_ir C S t arg =
     rbind (ir_alloc C S t arg) (\<lambda>(i, C). rbind (moz_compiler_add C S i) (\<lambda>C. Inr (C, scur S)))"

text \<open>The same with the id of a constant; the constant is added after the instruction is allocated, which
makes no difference.\<close>

definition emit_id :: "compiler \<Rightarrow> moz_state \<Rightarrow> ir_type \<Rightarrow> u16 \<times> compiler \<Rightarrow> (compiler \<times> block_ptr) res" where
  "emit_id C S t r = (case r of (i, C') \<Rightarrow> emit_ir C' S t (IdArg i))"

definition moz_Empty_to_ir :: "compiler \<Rightarrow> moz_state \<Rightarrow> (compiler \<times> block_ptr) res" where
  "moz_Empty_to_ir C S = Inr (C, scur S)"

definition moz_Invoke_to_ir :: "compiler \<Rightarrow> moz_state \<Rightarrow> nat option \<Rightarrow> (compiler \<times> block_ptr) res" where
  "moz_Invoke_to_ir C S d = emit_ir C S IInvoke (DeclArg d)"

definition moz_Any_to_ir :: "compiler \<Rightarrow> moz_state \<Rightarrow> (compiler \<times> block_ptr) res" where
  "moz_Any_to_ir C S = emit_ir C S IAny NoArg"

definition moz_Byte_to_ir :: "compiler \<Rightarrow> moz_state \<Rightarrow> u8 \<Rightarrow> (compiler \<times> block_ptr) res" where
  "moz_Byte_to_ir C S c = emit_ir C S IByte (ByteArg c)"

definition moz_Str_to_ir :: "compiler \<Rightarrow> moz_state \<Rightarrow> u8 list \<Rightarrow> (compiler \<times> block_ptr) res" where
  "moz_Str_to_ir C S t = emit_id C S IStr (moz_compiler_add_string C t)"

definition moz_Set_to_ir :: "compiler \<Rightarrow> moz_state \<Rightarrow> bitset_t \<Rightarrow> (compiler \<times> block_ptr) res" where
  "moz_Set_to_ir C S b = emit_id C S ISet (moz_compiler_add_set C b)"

definition moz_Choice_to_ir :: "to_ir \<Rightarrow> compiler \<Rightarrow> moz_state \<Rightarrow> expr list \<Rightarrow> (compiler \<times> block_ptr) res" where
  "moz_Choice_to_ir tr C S es =
     rbind (create_blocks C (length es)) (\<lambda>(bs, C).
     let bs = bs @ [sfail S]
     in rbind (moz_compiler_create_block C) (\<lambda>(next, C).
        rbind (aread bs 0) (\<lambda>b0. rbind (moz_compiler_link C S (scur S) b0) (\<lambda>C.
        rbind (rfold (\<lambda>(C, state) (i, x).
            rbind (aread bs (i + 1)) (\<lambda>f. rbind (aread bs i) (\<lambda>b.
            let state = moz_compiler_set_label (state\<lparr>snext := next, sfail := f\<rparr>) b
            in rbind (tr C state x) (\<lambda>(C, cur).
               let state = state\<lparr>scur := cur\<rparr>
               in rbind (moz_compiler_link C state (scur state) (snext state)) (\<lambda>C. Inr (C, state)))))) (C, S) (enumerate 0 es))
          (\<lambda>(C, state). Inr (C, snext state))))))"

definition moz_Fail_to_ir :: "compiler \<Rightarrow> moz_state \<Rightarrow> (compiler \<times> block_ptr) res" where
  "moz_Fail_to_ir C S = emit_ir C S IJump (BlockArg (sfail S))"

definition moz_And_to_ir :: "to_ir \<Rightarrow> compiler \<Rightarrow> moz_state \<Rightarrow> expr \<Rightarrow> (compiler \<times> block_ptr) res" where
  "moz_And_to_ir tr C S e =
     rbind (moz_compiler_create_block C) (\<lambda>(hd_b, C).
     rbind (moz_compiler_create_block C) (\<lambda>(next, C).
     rbind (moz_compiler_create_block C) (\<lambda>(fail, C).
     rbind (moz_compiler_link C S (scur S) hd_b) (\<lambda>C.
     let state = moz_compiler_set_label (S\<lparr>snext := next, sfail := fail\<rparr>) hd_b
     in rbind (emit_ir C state IPStore NoArg) (\<lambda>(C, _).
        rbind (tr C state e) (\<lambda>(C, cur).
        let state = state\<lparr>scur := cur\<rparr>
        in rbind (moz_compiler_link C state (scur state) (snext state)) (\<lambda>C.
           let state = moz_compiler_set_label state (snext state)
           in rbind (emit_ir C (state\<lparr>sfail := sfail S\<rparr>) IPLoad NoArg) (\<lambda>(C, _).
              let state = moz_compiler_set_label state (sfail state)
              in rbind (moz_compiler_link C state (sfail state) (sfail S)) (\<lambda>C. Inr (C, snext state)))))))))) "

definition moz_Not_Any_to_NAny :: "compiler \<Rightarrow> moz_state \<Rightarrow> (compiler \<times> block_ptr) res" where
  "moz_Not_Any_to_NAny C S = emit_ir C S INAny NoArg"

definition moz_Not_to_ir :: "to_ir \<Rightarrow> compiler \<Rightarrow> moz_state \<Rightarrow> expr \<Rightarrow> (compiler \<times> block_ptr) res" where
  "moz_Not_to_ir tr C S e =
     (if e = E_Any then moz_Not_Any_to_NAny C S
      else
        rbind (moz_compiler_create_block C) (\<lambda>(hd_b, C).
        rbind (moz_compiler_create_block C) (\<lambda>(next, C).
        rbind (moz_compiler_create_block C) (\<lambda>(fail, C).
        rbind (moz_compiler_link C S (scur S) hd_b) (\<lambda>C.
        let state = moz_compiler_set_label (S\<lparr>snext := fail, sfail := next\<rparr>) hd_b
        in rbind (emit_ir C state IPStore NoArg) (\<lambda>(C, _).
           rbind (tr C state e) (\<lambda>(C, cur).
           let state = state\<lparr>scur := cur\<rparr>
           in rbind (moz_compiler_link C state (scur state) (snext state)) (\<lambda>C.
              let state = moz_compiler_set_label state (snext state)
              in rbind (moz_compiler_link C state (snext state) (sfail S)) (\<lambda>C.
                 let state = moz_compiler_set_label state (sfail state)
                 in rbind (emit_ir C (state\<lparr>sfail := sfail S\<rparr>) IPLoad NoArg) (\<lambda>(C, _). Inr (C, sfail state)))))))))))"

definition moz_Option_to_OSet :: "compiler \<Rightarrow> moz_state \<Rightarrow> bitset_t \<Rightarrow> (compiler \<times> block_ptr) res" where
  "moz_Option_to_OSet C S b = emit_id C S IOSet (moz_compiler_add_set C b)"

definition moz_Option_to_OStr :: "compiler \<Rightarrow> moz_state \<Rightarrow> u8 list \<Rightarrow> (compiler \<times> block_ptr) res" where
  "moz_Option_to_OStr C S t = emit_id C S IOStr (moz_compiler_add_string C t)"

definition moz_Option_to_OByte :: "compiler \<Rightarrow> moz_state \<Rightarrow> u8 \<Rightarrow> (compiler \<times> block_ptr) res" where
  "moz_Option_to_OByte C S c = emit_ir C S IOByte (ByteArg c)"

text \<open>The general case of an option.\<close>

definition option_default :: "to_ir \<Rightarrow> compiler \<Rightarrow> moz_state \<Rightarrow> expr \<Rightarrow> (compiler \<times> block_ptr) res" where
  "option_default tr C S e =
     rbind (moz_compiler_create_block C) (\<lambda>(b, C).
     let state = S\<lparr>snext := b, sfail := b\<rparr>
     in rbind (tr C state e) (\<lambda>(C, cur).
        let state = state\<lparr>scur := cur\<rparr>
        in rbind (moz_compiler_link C state (scur state) (sfail state)) (\<lambda>C. Inr (C, sfail state))))"

definition moz_Option_to_ir :: "to_ir \<Rightarrow> compiler \<Rightarrow> moz_state \<Rightarrow> expr \<Rightarrow> (compiler \<times> block_ptr) res" where
  "moz_Option_to_ir tr C S e =
     (case e of
        E_Set b \<Rightarrow> moz_Option_to_OSet C S b
      | E_Byte c \<Rightarrow> moz_Option_to_OByte C S c
      | E_Str t \<Rightarrow> moz_Option_to_OStr C S t
      | _ \<Rightarrow> option_default tr C S e)"

definition moz_Sequence_to_ir :: "to_ir \<Rightarrow> compiler \<Rightarrow> moz_state \<Rightarrow> expr list \<Rightarrow> (compiler \<times> block_ptr) res" where
  "moz_Sequence_to_ir tr C S es =
     rbind (moz_compiler_create_block C) (\<lambda>(next, C).
     rbind (create_blocks C (length es)) (\<lambda>(bs, C).
     rbind (rfold (\<lambda>(C, state) (i, x).
         rbind (aread bs i) (\<lambda>b. rbind (moz_compiler_link C state (scur state) b) (\<lambda>C.
         let state = moz_compiler_set_label state b
         in rbind (tr C state x) (\<lambda>(C, cur). Inr (C, state\<lparr>scur := cur\<rparr>))))) (C, S\<lparr>snext := next\<rparr>) (enumerate 0 es))
       (\<lambda>(C, state). rbind (moz_compiler_link C state (scur state) (snext state)) (\<lambda>C. Inr (C, snext state)))))"

definition moz_Repetition_to_RAny :: "compiler \<Rightarrow> moz_state \<Rightarrow> (compiler \<times> block_ptr) res" where
  "moz_Repetition_to_RAny C S = emit_ir C S IRAny NoArg"

definition moz_Repetition_to_RSet :: "compiler \<Rightarrow> moz_state \<Rightarrow> bitset_t \<Rightarrow> (compiler \<times> block_ptr) res" where
  "moz_Repetition_to_RSet C S b = emit_id C S IRSet (moz_compiler_add_set C b)"

definition moz_Repetition_to_RStr :: "compiler \<Rightarrow> moz_state \<Rightarrow> u8 list \<Rightarrow> (compiler \<times> block_ptr) res" where
  "moz_Repetition_to_RStr C S t = emit_id C S IRStr (moz_compiler_add_string C t)"

definition moz_Repetition_to_RByte :: "compiler \<Rightarrow> moz_state \<Rightarrow> u8 \<Rightarrow> (compiler \<times> block_ptr) res" where
  "moz_Repetition_to_RByte C S c = emit_ir C S IRByte (ByteArg c)"

text \<open>The general case of a repetition: the last part jumps back to the block it was entered from.\<close>

definition repetition_default :: "to_ir \<Rightarrow> compiler \<Rightarrow> moz_state \<Rightarrow> expr list \<Rightarrow> (compiler \<times> block_ptr) res" where
  "repetition_default tr C S es =
     rbind (create_blocks C (length es)) (\<lambda>(bs, C).
     let bs = bs @ [scur S]
     in rbind (on_store C (\<lambda>s. block_set_type s (scur S) BLOCK_LOOP_HEAD)) (\<lambda>C.
        rbind (moz_compiler_create_block C) (\<lambda>(fail, C).
        rbind (aread bs 0) (\<lambda>b0. rbind (moz_compiler_link C (S\<lparr>sfail := fail\<rparr>) (scur S) b0) (\<lambda>C.
        rbind (rfold (\<lambda>(C, state) (i, x).
            rbind (aread bs i) (\<lambda>b. rbind (aread bs (i + 1)) (\<lambda>n.
            let state = (moz_compiler_set_label state b)\<lparr>snext := n, sfail := fail\<rparr>
            in rbind (tr C state x) (\<lambda>(C, cur).
               let state = state\<lparr>scur := cur\<rparr>
               in rbind (moz_compiler_link C state (scur state) n) (\<lambda>C. Inr (C, state))))))
            (C, S\<lparr>sfail := fail\<rparr>) (enumerate 0 es))
          (\<lambda>(C, state). Inr (C, fail)))))))"

definition moz_Repetition_to_ir :: "to_ir \<Rightarrow> compiler \<Rightarrow> moz_state \<Rightarrow> expr list \<Rightarrow> (compiler \<times> block_ptr) res" where
  "moz_Repetition_to_ir tr C S es =
     (case es of
        [E_Any] \<Rightarrow> moz_Repetition_to_RAny C S
      | [E_Set b] \<Rightarrow> moz_Repetition_to_RSet C S b
      | [E_Byte c] \<Rightarrow> moz_Repetition_to_RByte C S c
      | [E_Str t] \<Rightarrow> moz_Repetition_to_RStr C S t
      | _ \<Rightarrow> repetition_default tr C S es)"

text \<open>The fields of a new instruction are zero.\<close>

definition moz_Tcapture_to_ir :: "compiler \<Rightarrow> moz_state \<Rightarrow> (compiler \<times> block_ptr) res" where
  "moz_Tcapture_to_ir C S = emit_ir C S ITCapture (ShiftArg 0)"

definition moz_Tpush_to_ir :: "compiler \<Rightarrow> moz_state \<Rightarrow> (compiler \<times> block_ptr) res" where
  "moz_Tpush_to_ir C S = emit_ir C S ITPush NoArg"

definition moz_Tpop_to_ir :: "compiler \<Rightarrow> moz_state \<Rightarrow> name_t \<Rightarrow> (compiler \<times> block_ptr) res" where
  "moz_Tpop_to_ir C S n = emit_id C S ITPop (moz_compiler_add_tag C n)"

definition moz_Tnew_to_ir :: "compiler \<Rightarrow> moz_state \<Rightarrow> (compiler \<times> block_ptr) res" where
  "moz_Tnew_to_ir C S = emit_ir C S ITNew (ShiftArg 0)"

definition moz_Ttag_to_ir :: "compiler \<Rightarrow> moz_state \<Rightarrow> name_t \<Rightarrow> (compiler \<times> block_ptr) res" where
  "moz_Ttag_to_ir C S n = emit_id C S ITTag (moz_compiler_add_tag C n)"

text \<open>\<open>TODO(e)\<close> of the other translations is a failing assertion.\<close>

definition todo_to_ir :: "(compiler \<times> block_ptr) res" where
  "todo_to_ir = Inl AssertFail"

lemma rfold_cong_set [fundef_cong]:
  assumes "s = s'" "xs = ys" "\<And>t x. x \<in> set ys \<Longrightarrow> f t x = g t x"
  shows "rfold f s xs = rfold g s' ys"
proof -
  have "rfold f s ys = rfold g s ys" if "\<And>t x. x \<in> set ys \<Longrightarrow> f t x = g t x" for ys s
    using that by (induction ys arbitrary: s) (auto intro!: arg_cong [of _ _ "rbind _"])
  with assms show ?thesis by simp
qed

text \<open>The translations of the parts are only used on the parts.\<close>

lemma to_ir_cong [fundef_cong]:
  "\<lbrakk>C = C'; S = S'; es = es'; \<And>C S x. x \<in> set es' \<Longrightarrow> tr C S x = tr' C S x\<rbrakk> \<Longrightarrow>
    moz_Choice_to_ir tr C S es = moz_Choice_to_ir tr' C' S' es'"
  "\<lbrakk>C = C'; S = S'; es = es'; \<And>C S x. x \<in> set es' \<Longrightarrow> tr C S x = tr' C S x\<rbrakk> \<Longrightarrow>
    moz_Sequence_to_ir tr C S es = moz_Sequence_to_ir tr' C' S' es'"
  "\<lbrakk>C = C'; S = S'; es = es'; \<And>C S x. x \<in> set es' \<Longrightarrow> tr C S x = tr' C S x\<rbrakk> \<Longrightarrow>
    repetition_default tr C S es = repetition_default tr' C' S' es'"
  "\<lbrakk>C = C'; S = S'; e = e'; \<And>C S. tr C S e' = tr' C S e'\<rbrakk> \<Longrightarrow> moz_And_to_ir tr C S e = moz_And_to_ir tr' C' S' e'"
  "\<lbrakk>C = C'; S = S'; e = e'; \<And>C S. tr C S e' = tr' C S e'\<rbrakk> \<Longrightarrow> moz_Not_to_ir tr C S e = moz_Not_to_ir tr' C' S' e'"
  "\<lbrakk>C = C'; S = S'; e = e'; \<And>C S. tr C S e' = tr' C S e'\<rbrakk> \<Longrightarrow> option_default tr C S e = option_default tr' C' S' e'"
  by (auto simp: moz_Choice_to_ir_def moz_Sequence_to_ir_def repetition_default_def moz_And_to_ir_def moz_Not_to_ir_def
      option_default_def Let_def in_set_enumerate_eq split: prod.splits
      intro!: rbind_cong rfold_cong_set dest!: nth_mem)

lemma Option_cong [fundef_cong]:
  "\<lbrakk>C = C'; S = S'; e = e'; \<And>C S. tr C S e' = tr' C S e'\<rbrakk> \<Longrightarrow> moz_Option_to_ir tr C S e = moz_Option_to_ir tr' C' S' e'"
  using to_ir_cong(6) [of C C' S S' e e' tr tr'] by (auto simp: moz_Option_to_ir_def split: expr.splits)

lemma Repetition_cong [fundef_cong]:
  "\<lbrakk>C = C'; S = S'; es = es'; \<And>C S x. x \<in> set es' \<Longrightarrow> tr C S x = tr' C S x\<rbrakk> \<Longrightarrow>
    moz_Repetition_to_ir tr C S es = moz_Repetition_to_ir tr' C' S' es'"
  using to_ir_cong(3) [of C C' S S' es es' tr tr'] by (auto simp: moz_Repetition_to_ir_def split: list.splits expr.splits)

fun moz_expr_to_ir :: "compiler \<Rightarrow> moz_state \<Rightarrow> expr \<Rightarrow> (compiler \<times> block_ptr) res" where
  "moz_expr_to_ir C S E_Empty = moz_Empty_to_ir C S"
| "moz_expr_to_ir C S (E_Invoke n d) = moz_Invoke_to_ir C S d"
| "moz_expr_to_ir C S E_Any = moz_Any_to_ir C S"
| "moz_expr_to_ir C S (E_Byte c) = moz_Byte_to_ir C S c"
| "moz_expr_to_ir C S (E_Str t) = moz_Str_to_ir C S t"
| "moz_expr_to_ir C S (E_Set b) = moz_Set_to_ir C S b"
| "moz_expr_to_ir C S (E_And e) = moz_And_to_ir moz_expr_to_ir C S e"
| "moz_expr_to_ir C S (E_Choice es) = moz_Choice_to_ir moz_expr_to_ir C S es"
| "moz_expr_to_ir C S E_Fail = moz_Fail_to_ir C S"
| "moz_expr_to_ir C S (E_Not e) = moz_Not_to_ir moz_expr_to_ir C S e"
| "moz_expr_to_ir C S (E_Option e) = moz_Option_to_ir moz_expr_to_ir C S e"
| "moz_expr_to_ir C S (E_Sequence es) = moz_Sequence_to_ir moz_expr_to_ir C S es"
| "moz_expr_to_ir C S (E_Repetition es) = moz_Repetition_to_ir moz_expr_to_ir C S es"
| "moz_expr_to_ir C S E_Tcapture = moz_Tcapture_to_ir C S"
| "moz_expr_to_ir C S E_Tdetree = todo_to_ir"
| "moz_expr_to_ir C S E_Tlfold = todo_to_ir"
| "moz_expr_to_ir C S E_Tpush = moz_Tpush_to_ir C S"
| "moz_expr_to_ir C S (E_Tpop n) = moz_Tpop_to_ir C S n"
| "moz_expr_to_ir C S E_Tnew = moz_Tnew_to_ir C S"
| "moz_expr_to_ir C S E_Treplace = todo_to_ir"
| "moz_expr_to_ir C S (E_Ttag n) = moz_Ttag_to_ir C S n"
| "moz_expr_to_ir C S (E_Xblock e) = todo_to_ir"
| "moz_expr_to_ir C S (E_Xexists n) = todo_to_ir"
| "moz_expr_to_ir C S E_Xif = todo_to_ir"
| "moz_expr_to_ir C S (E_Xis n) = todo_to_ir"
| "moz_expr_to_ir C S (E_Xisa n) = todo_to_ir"
| "moz_expr_to_ir C S E_Xon = todo_to_ir"
| "moz_expr_to_ir C S E_Xmatch = todo_to_ir"
| "moz_expr_to_ir C S (E_Xlocal n e) = todo_to_ir"
| "moz_expr_to_ir C S (E_Xsymbol n e) = todo_to_ir"


section \<open>Declarations\<close>

text \<open>\<open>IR_ALLOC\<close> and \<open>moz_compiler_add\<close> for the two terminators of a declaration.\<close>

definition moz_decl_to_ir :: "compiler \<Rightarrow> decl \<Rightarrow> (decl \<times> compiler) res" where
  "moz_decl_to_ir C d =
     rbind (moz_state_init C) (\<lambda>(S, C).
     let S = moz_compiler_set_label S (shead S)
     in rbind (moz_expr_to_ir C S (dbody d)) (\<lambda>(C, cur).
        let S = S\<lparr>scur := cur\<rparr>
        in rbind (moz_compiler_link C S (scur S) (snext S)) (\<lambda>C.
           let S = moz_compiler_set_label S (snext S)
           in rbind (emit_ir C S IRet NoArg) (\<lambda>(C, _).
              let S = moz_compiler_set_label S (sfail S)
              in rbind (emit_ir C S IFail NoArg) (\<lambda>(C, _). Inr (d\<lparr>dinst := Some (shead S)\<rparr>, C))))))"

definition moz_ast_to_ir :: "compiler \<Rightarrow> compiler res" where
  "moz_ast_to_ir C =
     rfold (\<lambda>C i. rbind (aread (decls C) i) (\<lambda>d.
        if drefc d > 0 then rbind (moz_decl_to_ir C d) (\<lambda>(d, C). Inr (C\<lparr>decls := (decls C)[i := d]\<rparr>)) else Inr C))
       C [0..<length (decls C)]"

section \<open>Simplification of the blocks\<close>

definition block_get_terminator :: "store \<Rightarrow> block_ptr \<Rightarrow> ir_ptr option res" where
  "block_get_terminator s b =
     rbind (block_get_last s b) (\<lambda>last. case last of
        None \<Rightarrow> Inr None
      | Some i \<Rightarrow> rbind (get_ir s i) (\<lambda>ir.
          Inr (if irtype ir \<in> {IExit, IJump, ITableJump, IRet, IFail} then Some i else None)))"

text \<open>Every call frees the instruction.\<close>

definition remove_from_parent :: "store \<Rightarrow> ir_ptr \<Rightarrow> store res" where
  "remove_from_parent s i =
     rbind (get_ir s i) (\<lambda>ir. case parent ir of
        None \<Rightarrow> Inl NullDeref
      | Some b \<Rightarrow> rbind (block_remove s b i) (\<lambda>s. put_ir s i None))"

text \<open>The terminator of a block when it is a jump: \<open>term == NULL || term->type != IJump\<close> skips the block.\<close>

definition jump_terminator :: "store \<Rightarrow> block_ptr \<Rightarrow> (ir_ptr \<times> IR) option res" where
  "jump_terminator s b =
     rbind (block_get_terminator s b) (\<lambda>t. case t of
        None \<Rightarrow> Inr None
      | Some t \<Rightarrow> rbind (get_ir s t) (\<lambda>ir. Inr (if irtype ir = IJump then Some (t, ir) else None)))"

text \<open>The instructions of the list are inserted before the terminator of \<open>pred\<close>.\<close>

definition insert_all :: "store \<Rightarrow> block_ptr \<Rightarrow> ir_ptr \<Rightarrow> ir_ptr list \<Rightarrow> store res" where
  "insert_all s pred t xs = rfold (\<lambda>s x. block_insert_before s pred t x) s xs"

text \<open>One step of the loop that removes an indirect jump: the worklist and the number of changes.\<close>

definition merge_into_pred ::
  "block_ptr \<Rightarrow> block_ptr \<Rightarrow> ir_ptr \<Rightarrow> store \<times> nat list \<times> nat \<Rightarrow> block_ptr \<Rightarrow> (store \<times> nat list \<times> nat) res" where
  "merge_into_pred bb succ inst st pred =
     (case st of (s, w, modified) \<Rightarrow>
        if pred = bb then Inr st
        else rbind (jump_terminator s pred) (\<lambda>t. case t of
            None \<Rightarrow> Inr st
          | Some (t, _) \<Rightarrow>
              rbind (get_block s bb) (\<lambda>B.
              rbind (insert_all s pred t (filter (\<lambda>x. x \<noteq> inst) (insts B))) (\<lambda>s.
              rbind (get_ir s t) (\<lambda>tir. rbind (put_ir s t (Some (tir\<lparr>irarg := BlockArg succ\<rparr>))) (\<lambda>s.
              rbind (block_set_type s pred (btype B)) (\<lambda>s.
              rbind (block_unlink s pred bb) (\<lambda>s.
              rbind (block_link s pred succ) (\<lambda>s.
                Inr (s, worklist_push w pred, modified + 1)))))))) ))"

text \<open>One step of the loop that copies an exit block into a predecessor.\<close>

definition merge_exit ::
  "block_ptr \<Rightarrow> store \<times> nat list \<times> nat \<Rightarrow> block_ptr \<Rightarrow> (store \<times> nat list \<times> nat) res" where
  "merge_exit bb st pred =
     (case st of (s, w, modified) \<Rightarrow>
        rbind (jump_terminator s pred) (\<lambda>t. case t of
            None \<Rightarrow> Inr st
          | Some (t, _) \<Rightarrow>
              rbind (get_block s bb) (\<lambda>B.
              rbind (insert_all s pred t (insts B)) (\<lambda>s.
              rbind (remove_from_parent s t) (\<lambda>s.
              rbind (block_set_type s pred (btype B)) (\<lambda>s.
              rbind (block_unlink s pred bb) (\<lambda>s.
                Inr (s, worklist_push w pred, modified + 1))))))))"

text \<open>
  The loops read the predecessors from the last to the first; a step removes at most the one it is
  at. \<open>Inr (Some _)\<close> is the early return of 1; \<open>None\<close> goes on with the exit block.
\<close>

definition simplify_jump ::
  "compiler \<Rightarrow> nat list \<Rightarrow> block_ptr \<Rightarrow> ir_ptr option \<Rightarrow> (bool \<times> compiler \<times> nat list) res" where
  "simplify_jump C w bb inst =
     rbind (get_block (cstore C) bb) (\<lambda>B.
     rbind (aread (succs B) 0) (\<lambda>succ. case inst of
        None \<Rightarrow> Inl NullDeref
      | Some inst \<Rightarrow> rbind (get_ir (cstore C) inst) (\<lambda>ir.
          if irtype ir \<noteq> IJump then Inr (False, C, w)
          else
            rbind (rfold (merge_into_pred bb succ inst) (cstore C, w, 0) (rev (preds B))) (\<lambda>(s, w, modified).
            rbind (if modified = length (preds B)
                   then rbind (block_unlink s bb succ) (\<lambda>s. rbind (remove_from_parent s inst) (\<lambda>s.
                        rbind (get_block s bb) (\<lambda>B. rbind (put_block s bb (B\<lparr>insts := []\<rparr>)) (\<lambda>s.
                        rbind (array_remove_element (blocks C) bb) (\<lambda>bs. Inr (C\<lparr>cstore := s, blocks := bs\<rparr>))))))
                   else Inr (C\<lparr>cstore := s\<rparr>)) (\<lambda>C.
              if modified > 0 then Inr (True, C, worklist_push w succ) else Inr (False, C, w))))))"

definition simplify_exit ::
  "compiler \<Rightarrow> nat list \<Rightarrow> block_ptr \<Rightarrow> ir_ptr option \<Rightarrow> (nat \<times> compiler \<times> nat list) res" where
  "simplify_exit C w bb inst =
     (case inst of None \<Rightarrow> Inr (0, C, w)
      | Some inst \<Rightarrow> rbind (get_ir (cstore C) inst) (\<lambda>ir.
          if irtype ir \<noteq> IRet then Inr (0, C, w)
          else
            rbind (get_block (cstore C) bb) (\<lambda>B.
            rbind (rassert (length (succs B) = 0 \<and> block_is B BLOCK_EXIT)) (\<lambda>_.
            rbind (rfold (merge_exit bb) (cstore C, w, 0) (rev (preds B))) (\<lambda>(s, w, modified).
            rbind (if modified = length (preds B)
                   then rbind (array_remove_element (blocks C) bb) (\<lambda>bs. Inr (C\<lparr>cstore := s, blocks := bs\<rparr>))
                   else Inr (C\<lparr>cstore := s\<rparr>)) (\<lambda>C.
              Inr (if modified > 0 then 1 else 0, C, w)))))))"

definition simplify_cfg :: "compiler \<Rightarrow> nat list \<Rightarrow> block_ptr \<Rightarrow> (nat \<times> compiler \<times> nat list) res" where
  "simplify_cfg C w bb =
     rbind (get_block (cstore C) bb) (\<lambda>B.
       if length (insts B) = 0 then Inr (0, C, w)
       else if block_is B BLOCK_ENTRY \<or> block_is B BLOCK_FAIL \<or> block_is B BLOCK_LOOP_HEAD \<or> block_is B BLOCK_HANDLER
       then Inr (0, C, w)
       else if bb \<in> set (preds B) then Inr (0, C, w)
       else
         rbind (block_get_terminator (cstore C) bb) (\<lambda>inst.
         rbind (if length (succs B) = 1 then simplify_jump C w bb inst else Inr (False, C, w)) (\<lambda>(done, C, w).
           if done then Inr (1, C, w) else simplify_exit C w bb inst)))"

text \<open>The handlers \<open>fail == bb\<close> of the instructions of all remaining blocks become \<open>succ\<close>.\<close>

definition replace_handler :: "store \<Rightarrow> block_ptr list \<Rightarrow> block_ptr \<Rightarrow> block_ptr \<Rightarrow> store res" where
  "replace_handler s bs bb succ =
     rfold (\<lambda>s b. rbind (get_block s b) (\<lambda>B.
        rfold (\<lambda>s x. rbind (get_ir s x) (\<lambda>ir.
          if irfail ir = bb then put_ir s x (Some (ir\<lparr>irfail := succ\<rparr>)) else Inr s)) s (insts B))) s bs"

definition remove_indirect_jump_handler :: "compiler \<Rightarrow> nat list \<Rightarrow> block_ptr \<Rightarrow> (nat \<times> compiler \<times> nat list) res" where
  "remove_indirect_jump_handler C w bb =
     rbind (get_block (cstore C) bb) (\<lambda>B.
     rbind (rassert (block_is B BLOCK_HANDLER)) (\<lambda>_.
       if length (succs B) = 1 \<and> length (preds B) = 0 then
         rbind (block_get_terminator (cstore C) bb) (\<lambda>inst.
         rbind (aread (succs B) 0) (\<lambda>succ.
           if length (insts B) \<noteq> 1 then Inr (0, C, w)
           else case inst of None \<Rightarrow> Inl NullDeref
           | Some inst \<Rightarrow> rbind (get_ir (cstore C) inst) (\<lambda>ir. rbind (get_block (cstore C) succ) (\<lambda>Q.
               if irtype ir \<noteq> IJump \<or> length (preds Q) \<noteq> 1 then Inr (0, C, w)
               else
                 rbind (block_unlink (cstore C) bb succ) (\<lambda>s.
                 rbind (remove_from_parent s inst) (\<lambda>s.
                 rbind (get_block s bb) (\<lambda>B. rbind (put_block s bb (B\<lparr>insts := []\<rparr>)) (\<lambda>s.
                 rbind (array_remove_element (blocks C) bb) (\<lambda>bs.
                 rbind (replace_handler s bs bb succ) (\<lambda>s.
                   Inr (1, C\<lparr>cstore := s, blocks := bs\<rparr>, worklist_push w succ)))))))))))
       else Inr (0, C, w)))"

definition add_all_blocks :: "compiler \<Rightarrow> nat list \<Rightarrow> nat list res" where
  "add_all_blocks C w = Inr (fold (\<lambda>b w. worklist_push w b) (blocks C) w)"

definition add_handler_block :: "compiler \<Rightarrow> nat list \<Rightarrow> nat list res" where
  "add_handler_block C w =
     rfold (\<lambda>w b. rbind (get_block (cstore C) b) (\<lambda>B.
        Inr (if block_is B BLOCK_HANDLER then worklist_push w b else w))) w (blocks C)"

text \<open>\<open>while (modified)\<close>, with a budget of rounds and of steps in a round.\<close>

fun optimize_loop :: "nat \<Rightarrow> nat \<Rightarrow> compiler \<Rightarrow> compiler res" where
  "optimize_loop 0 f C = Inl NoFuel"
| "optimize_loop (Suc r) f C =
     rbind (worklist_apply f C add_all_blocks simplify_cfg) (\<lambda>(m1, C).
     rbind (worklist_apply f C add_handler_block remove_indirect_jump_handler) (\<lambda>(m2, C).
       if m1 + m2 = 0 then Inr C else optimize_loop r f C))"

definition moz_ir_optimize :: "nat \<Rightarrow> compiler \<Rightarrow> compiler res" where
  "moz_ir_optimize f C =
     rbind (rfold (\<lambda>_ b. rbind (block_get_terminator (cstore C) b) (\<lambda>t. rassert (t \<noteq> None))) () (blocks C)) (\<lambda>_.
       optimize_loop f f C)"

end
