(* ===== verification/Module.thy ===== *)
theory Module
  imports Compiler Runtime Buffer
begin

text \<open>
  The linker \<open>src/src/compiler/linker.c\<close> and the module \<open>src/src/compiler/module.c\<close>: the blocks of
  the compiler are written as byte code, the labels are resolved, and the code with its constants
  becomes a module. The machine is little-endian. The dumps are output only.
\<close>

section \<open>The linker\<close>

text \<open>\<open>mozaddr_t\<close> is a 32-bit \<open>int\<close>; the tables have an entry for every instruction id.\<close>

record mozlinker =
  address_head :: "u32 list"
  address_tail :: "u32 list"
  address_size :: nat
  labels :: "u32 list"
  targets :: "u32 list"

record writer =
  wbuf :: moz_buffer_t
  linker :: mozlinker

definition mozlinker_init :: "u32 list \<Rightarrow> u32 list \<Rightarrow> nat \<Rightarrow> mozlinker" where
  "mozlinker_init ah at n = \<lparr>address_head = ah, address_tail = at, address_size = n, labels = [], targets = []\<rparr>"

definition mozlinker_dispose :: "mozlinker \<Rightarrow> mozlinker" where
  "mozlinker_dispose L = L\<lparr>labels := [], targets := []\<rparr>"

definition write8 :: "writer \<Rightarrow> u8 \<Rightarrow> writer res" where
  "write8 W v = rbind (moz_buffer_writer_write8 (wbuf W) v) (\<lambda>b. Inr (W\<lparr>wbuf := b\<rparr>))"

definition write16 :: "writer \<Rightarrow> u16 \<Rightarrow> writer res" where
  "write16 W v = rbind (moz_buffer_writer_write16 True (wbuf W) v) (\<lambda>b. Inr (W\<lparr>wbuf := b\<rparr>))"

definition write32 :: "writer \<Rightarrow> u32 \<Rightarrow> writer res" where
  "write32 W v = rbind (moz_buffer_writer_write32 True (wbuf W) v) (\<lambda>b. Inr (W\<lparr>wbuf := b\<rparr>))"

text \<open>The label is recorded with the id of the first instruction of its block; in its place the id of
the caller is written.\<close>

definition mozlinker_add_label :: "compiler \<Rightarrow> writer \<Rightarrow> block_ptr \<Rightarrow> nat \<Rightarrow> writer res" where
  "mozlinker_add_label C W target calleeId =
     rbind (get_block (cstore C) target) (\<lambda>B.
     rbind (aread (insts B) 0) (\<lambda>i. rbind (get_ir (cstore C) i) (\<lambda>first.
     let L = linker W;
         L = L\<lparr>labels := labels L @ [of_nat (moz_buffer_writer_length (wbuf W))], targets := targets L @ [of_nat (irid first)]\<rparr>
     in write32 (W\<lparr>linker := L\<rparr>) (of_nat calleeId))))"

text \<open>\<open>*(int * )(code + p)\<close>, read and written; \<open>at_index\<close> is an array access with an \<open>int\<close>.\<close>

definition at_index :: "'a list \<Rightarrow> u32 \<Rightarrow> 'a res" where
  "at_index xs i = (if sint i < 0 then Inl OutOfBounds else aread xs (nat (sint i)))"

definition code_load32 :: "u8 list \<Rightarrow> u32 \<Rightarrow> u32 res" where
  "code_load32 c p =
     (if sint p < 0 \<or> nat (sint p) + 4 > length c then Inl OutOfBounds
      else let q = nat (sint p)
           in Inr (ucast (c ! q) OR push_bit 8 (ucast (c ! (q + 1))) OR push_bit 16 (ucast (c ! (q + 2))) OR
                   push_bit 24 (ucast (c ! (q + 3)))))"

definition code_store32 :: "u8 list \<Rightarrow> u32 \<Rightarrow> u32 \<Rightarrow> u8 list res" where
  "code_store32 c p v =
     (if sint p < 0 \<or> nat (sint p) + 4 > length c then Inl OutOfBounds
      else Inr (take (nat (sint p)) c @ bytes32 v @ drop (nat (sint p) + 4) c))"

definition resolve_label :: "mozlinker \<Rightarrow> u8 list \<Rightarrow> nat \<Rightarrow> u8 list res" where
  "resolve_label L c i =
     rbind (aread (labels L) i) (\<lambda>labelOffset. rbind (aread (targets L) i) (\<lambda>targetId.
     rbind (code_load32 c labelOffset) (\<lambda>callerId.
     rbind (at_index (address_head L) targetId) (\<lambda>callee_addr_head.
     rbind (at_index (address_tail L) callerId) (\<lambda>caller_addr_tail.
       code_store32 c labelOffset (callee_addr_head - caller_addr_tail))))))"

definition mozlinker_resolve :: "mozlinker \<Rightarrow> u8 list \<Rightarrow> u8 list res" where
  "mozlinker_resolve L c =
     rbind (rassert (length (labels L) = length (targets L))) (\<lambda>_.
       rfold (resolve_label L) c [0..<length (labels L)])"

section \<open>The encoders\<close>

text \<open>
  An encoder reads the field its structure has; an instruction has the field its type asks for. The
  encoders that are missing stop with \<open>int3\<close>.
\<close>

definition byte_arg :: "IR \<Rightarrow> u8 res" where
  "byte_arg ir = (case irarg ir of ByteArg b \<Rightarrow> Inr b | _ \<Rightarrow> Inl BadSlot)"

definition id_arg :: "IR \<Rightarrow> u16 res" where
  "id_arg ir = (case irarg ir of IdArg i \<Rightarrow> Inr i | _ \<Rightarrow> Inl BadSlot)"

definition block_arg :: "IR \<Rightarrow> block_ptr res" where
  "block_arg ir = (case irarg ir of BlockArg b \<Rightarrow> Inr b | _ \<Rightarrow> Inl BadSlot)"

text \<open>\<open>ir->v.decl->inst\<close>, NULL for a declaration that was not compiled.\<close>

definition decl_arg :: "compiler \<Rightarrow> IR \<Rightarrow> block_ptr res" where
  "decl_arg C ir =
     (case irarg ir of
        DeclArg (Some d) \<Rightarrow> rbind (aread (decls C) d) (\<lambda>d. case dinst d of None \<Rightarrow> Inl NullDeref | Some b \<Rightarrow> Inr b)
      | DeclArg None \<Rightarrow> Inl NullDeref
      | _ \<Rightarrow> Inl BadSlot)"

definition moz_ILabel_encode :: "writer \<Rightarrow> IR \<Rightarrow> writer res" where
  "moz_ILabel_encode W ir = Inr W"

definition moz_IExit_encode :: "writer \<Rightarrow> IR \<Rightarrow> writer res" where
  "moz_IExit_encode W ir = Inl Int3"

definition moz_IJump_encode :: "compiler \<Rightarrow> writer \<Rightarrow> IR \<Rightarrow> writer res" where
  "moz_IJump_encode C W ir = rbind (block_arg ir) (\<lambda>b. mozlinker_add_label C W b (irid ir))"

definition moz_ITableJump_encode :: "writer \<Rightarrow> IR \<Rightarrow> writer res" where
  "moz_ITableJump_encode W ir = Inl Int3"

definition moz_IInvoke_encode :: "compiler \<Rightarrow> writer \<Rightarrow> IR \<Rightarrow> writer res" where
  "moz_IInvoke_encode C W ir = rbind (mozlinker_add_label C W (irfail ir) (irid ir)) (\<lambda>W. rbind (decl_arg C ir) (\<lambda>b. mozlinker_add_label C W b (irid ir)))"

definition moz_IPLoad_encode :: "writer \<Rightarrow> IR \<Rightarrow> writer res" where
  "moz_IPLoad_encode W ir = Inr W"

definition moz_IPStore_encode :: "writer \<Rightarrow> IR \<Rightarrow> writer res" where
  "moz_IPStore_encode W ir = Inr W"

definition moz_IRet_encode :: "writer \<Rightarrow> IR \<Rightarrow> writer res" where
  "moz_IRet_encode W ir = Inr W"

definition moz_IFail_encode :: "writer \<Rightarrow> IR \<Rightarrow> writer res" where
  "moz_IFail_encode W ir = Inr W"

definition moz_IAny_encode :: "compiler \<Rightarrow> writer \<Rightarrow> IR \<Rightarrow> writer res" where
  "moz_IAny_encode C W ir = mozlinker_add_label C W (irfail ir) (irid ir)"

definition moz_IByte_encode :: "compiler \<Rightarrow> writer \<Rightarrow> IR \<Rightarrow> writer res" where
  "moz_IByte_encode C W ir = rbind (mozlinker_add_label C W (irfail ir) (irid ir)) (\<lambda>W. rbind (byte_arg ir) (write8 W))"

definition moz_IStr_encode :: "compiler \<Rightarrow> writer \<Rightarrow> IR \<Rightarrow> writer res" where
  "moz_IStr_encode C W ir = rbind (mozlinker_add_label C W (irfail ir) (irid ir)) (\<lambda>W. rbind (id_arg ir) (write16 W))"

definition moz_ISet_encode :: "compiler \<Rightarrow> writer \<Rightarrow> IR \<Rightarrow> writer res" where
  "moz_ISet_encode C W ir = rbind (mozlinker_add_label C W (irfail ir) (irid ir)) (\<lambda>W. rbind (id_arg ir) (write16 W))"

definition moz_IUByte_encode :: "writer \<Rightarrow> IR \<Rightarrow> writer res" where
  "moz_IUByte_encode W ir = Inl Int3"

definition moz_IUSet_encode :: "writer \<Rightarrow> IR \<Rightarrow> writer res" where
  "moz_IUSet_encode W ir = Inl Int3"

definition moz_INAny_encode :: "compiler \<Rightarrow> writer \<Rightarrow> IR \<Rightarrow> writer res" where
  "moz_INAny_encode C W ir = mozlinker_add_label C W (irfail ir) (irid ir)"

definition moz_INByte_encode :: "compiler \<Rightarrow> writer \<Rightarrow> IR \<Rightarrow> writer res" where
  "moz_INByte_encode C W ir = rbind (mozlinker_add_label C W (irfail ir) (irid ir)) (\<lambda>W. rbind (byte_arg ir) (write8 W))"

definition moz_INStr_encode :: "compiler \<Rightarrow> writer \<Rightarrow> IR \<Rightarrow> writer res" where
  "moz_INStr_encode C W ir = rbind (mozlinker_add_label C W (irfail ir) (irid ir)) (\<lambda>W. rbind (id_arg ir) (write16 W))"

definition moz_INSet_encode :: "compiler \<Rightarrow> writer \<Rightarrow> IR \<Rightarrow> writer res" where
  "moz_INSet_encode C W ir = rbind (mozlinker_add_label C W (irfail ir) (irid ir)) (\<lambda>W. rbind (id_arg ir) (write16 W))"

definition moz_IRAny_encode :: "writer \<Rightarrow> IR \<Rightarrow> writer res" where
  "moz_IRAny_encode W ir = Inr W"

definition moz_IRByte_encode :: "writer \<Rightarrow> IR \<Rightarrow> writer res" where
  "moz_IRByte_encode W ir = rbind (byte_arg ir) (write8 W)"

definition moz_IRStr_encode :: "writer \<Rightarrow> IR \<Rightarrow> writer res" where
  "moz_IRStr_encode W ir = rbind (id_arg ir) (write16 W)"

definition moz_IRSet_encode :: "writer \<Rightarrow> IR \<Rightarrow> writer res" where
  "moz_IRSet_encode W ir = rbind (id_arg ir) (write16 W)"

definition moz_IRUByte_encode :: "writer \<Rightarrow> IR \<Rightarrow> writer res" where
  "moz_IRUByte_encode W ir = Inl Int3"

definition moz_IRUSet_encode :: "writer \<Rightarrow> IR \<Rightarrow> writer res" where
  "moz_IRUSet_encode W ir = Inl Int3"

definition moz_IOByte_encode :: "writer \<Rightarrow> IR \<Rightarrow> writer res" where
  "moz_IOByte_encode W ir = rbind (byte_arg ir) (write8 W)"

definition moz_IOStr_encode :: "writer \<Rightarrow> IR \<Rightarrow> writer res" where
  "moz_IOStr_encode W ir = rbind (id_arg ir) (write16 W)"

definition moz_IOSet_encode :: "writer \<Rightarrow> IR \<Rightarrow> writer res" where
  "moz_IOSet_encode W ir = rbind (id_arg ir) (write16 W)"

definition moz_IOUByte_encode :: "writer \<Rightarrow> IR \<Rightarrow> writer res" where
  "moz_IOUByte_encode W ir = Inl Int3"

definition moz_IOUSet_encode :: "writer \<Rightarrow> IR \<Rightarrow> writer res" where
  "moz_IOUSet_encode W ir = Inl Int3"

definition moz_ILookup_encode :: "writer \<Rightarrow> IR \<Rightarrow> writer res" where
  "moz_ILookup_encode W ir = Inl Int3"

definition moz_IMemo_encode :: "writer \<Rightarrow> IR \<Rightarrow> writer res" where
  "moz_IMemo_encode W ir = Inl Int3"

definition moz_IMemoFail_encode :: "writer \<Rightarrow> IR \<Rightarrow> writer res" where
  "moz_IMemoFail_encode W ir = Inl Int3"

definition moz_ITStart_encode :: "writer \<Rightarrow> IR \<Rightarrow> writer res" where
  "moz_ITStart_encode W ir = Inl Int3"

definition moz_ITCommit_encode :: "writer \<Rightarrow> IR \<Rightarrow> writer res" where
  "moz_ITCommit_encode W ir = Inl Int3"

definition moz_ITAbort_encode :: "writer \<Rightarrow> IR \<Rightarrow> writer res" where
  "moz_ITAbort_encode W ir = Inl Int3"

definition moz_ITPush_encode :: "writer \<Rightarrow> IR \<Rightarrow> writer res" where
  "moz_ITPush_encode W ir = Inr W"

definition moz_ITPop_encode :: "writer \<Rightarrow> IR \<Rightarrow> writer res" where
  "moz_ITPop_encode W ir = rbind (id_arg ir) (write16 W)"

definition moz_ITFoldL_encode :: "writer \<Rightarrow> IR \<Rightarrow> writer res" where
  "moz_ITFoldL_encode W ir = Inl Int3"

definition moz_ITNew_encode :: "writer \<Rightarrow> IR \<Rightarrow> writer res" where
  "moz_ITNew_encode W ir = write8 W 0"

definition moz_ITCapture_encode :: "writer \<Rightarrow> IR \<Rightarrow> writer res" where
  "moz_ITCapture_encode W ir = write8 W 0"

definition moz_ITTag_encode :: "writer \<Rightarrow> IR \<Rightarrow> writer res" where
  "moz_ITTag_encode W ir = rbind (id_arg ir) (write16 W)"

definition moz_ITReplace_encode :: "writer \<Rightarrow> IR \<Rightarrow> writer res" where
  "moz_ITReplace_encode W ir = Inl Int3"

definition moz_ITLookup_encode :: "writer \<Rightarrow> IR \<Rightarrow> writer res" where
  "moz_ITLookup_encode W ir = Inl Int3"

definition moz_ITMemo_encode :: "writer \<Rightarrow> IR \<Rightarrow> writer res" where
  "moz_ITMemo_encode W ir = Inl Int3"

definition moz_ISOpen_encode :: "writer \<Rightarrow> IR \<Rightarrow> writer res" where
  "moz_ISOpen_encode W ir = Inl Int3"

definition moz_ISClose_encode :: "writer \<Rightarrow> IR \<Rightarrow> writer res" where
  "moz_ISClose_encode W ir = Inl Int3"

definition moz_ISMask_encode :: "writer \<Rightarrow> IR \<Rightarrow> writer res" where
  "moz_ISMask_encode W ir = Inl Int3"

definition moz_ISDef_encode :: "writer \<Rightarrow> IR \<Rightarrow> writer res" where
  "moz_ISDef_encode W ir = Inl Int3"

definition moz_ISIsDef_encode :: "writer \<Rightarrow> IR \<Rightarrow> writer res" where
  "moz_ISIsDef_encode W ir = Inl Int3"

definition moz_ISExists_encode :: "writer \<Rightarrow> IR \<Rightarrow> writer res" where
  "moz_ISExists_encode W ir = Inl Int3"

definition moz_ISMatch_encode :: "writer \<Rightarrow> IR \<Rightarrow> writer res" where
  "moz_ISMatch_encode W ir = Inl Int3"

definition moz_ISIs_encode :: "writer \<Rightarrow> IR \<Rightarrow> writer res" where
  "moz_ISIs_encode W ir = Inl Int3"

definition moz_ISIsa_encode :: "writer \<Rightarrow> IR \<Rightarrow> writer res" where
  "moz_ISIsa_encode W ir = Inl Int3"

text \<open>\<open>encode[ir->type](W, ir)\<close>\<close>

primrec encode_op :: "compiler \<Rightarrow> writer \<Rightarrow> IR \<Rightarrow> ir_type \<Rightarrow> writer res" where
  "encode_op C W ir ILabel = moz_ILabel_encode W ir" | "encode_op C W ir IExit = moz_IExit_encode W ir"
| "encode_op C W ir IJump = moz_IJump_encode C W ir" | "encode_op C W ir ITableJump = moz_ITableJump_encode W ir"
| "encode_op C W ir IInvoke = moz_IInvoke_encode C W ir" | "encode_op C W ir IPLoad = moz_IPLoad_encode W ir"
| "encode_op C W ir IPStore = moz_IPStore_encode W ir" | "encode_op C W ir IRet = moz_IRet_encode W ir"
| "encode_op C W ir IFail = moz_IFail_encode W ir" | "encode_op C W ir IAny = moz_IAny_encode C W ir"
| "encode_op C W ir IByte = moz_IByte_encode C W ir" | "encode_op C W ir IStr = moz_IStr_encode C W ir"
| "encode_op C W ir ISet = moz_ISet_encode C W ir" | "encode_op C W ir IUByte = moz_IUByte_encode W ir"
| "encode_op C W ir IUSet = moz_IUSet_encode W ir" | "encode_op C W ir INAny = moz_INAny_encode C W ir"
| "encode_op C W ir INByte = moz_INByte_encode C W ir" | "encode_op C W ir INStr = moz_INStr_encode C W ir"
| "encode_op C W ir INSet = moz_INSet_encode C W ir" | "encode_op C W ir IRByte = moz_IRByte_encode W ir"
| "encode_op C W ir IRAny = moz_IRAny_encode W ir" | "encode_op C W ir IRStr = moz_IRStr_encode W ir"
| "encode_op C W ir IRSet = moz_IRSet_encode W ir" | "encode_op C W ir IRUByte = moz_IRUByte_encode W ir"
| "encode_op C W ir IRUSet = moz_IRUSet_encode W ir" | "encode_op C W ir IOByte = moz_IOByte_encode W ir"
| "encode_op C W ir IOStr = moz_IOStr_encode W ir" | "encode_op C W ir IOSet = moz_IOSet_encode W ir"
| "encode_op C W ir IOUByte = moz_IOUByte_encode W ir" | "encode_op C W ir IOUSet = moz_IOUSet_encode W ir"
| "encode_op C W ir ILookup = moz_ILookup_encode W ir" | "encode_op C W ir IMemo = moz_IMemo_encode W ir"
| "encode_op C W ir IMemoFail = moz_IMemoFail_encode W ir" | "encode_op C W ir ITStart = moz_ITStart_encode W ir"
| "encode_op C W ir ITCommit = moz_ITCommit_encode W ir" | "encode_op C W ir ITAbort = moz_ITAbort_encode W ir"
| "encode_op C W ir ITPush = moz_ITPush_encode W ir" | "encode_op C W ir ITPop = moz_ITPop_encode W ir"
| "encode_op C W ir ITFoldL = moz_ITFoldL_encode W ir" | "encode_op C W ir ITNew = moz_ITNew_encode W ir"
| "encode_op C W ir ITCapture = moz_ITCapture_encode W ir" | "encode_op C W ir ITTag = moz_ITTag_encode W ir"
| "encode_op C W ir ITReplace = moz_ITReplace_encode W ir" | "encode_op C W ir ITLookup = moz_ITLookup_encode W ir"
| "encode_op C W ir ITMemo = moz_ITMemo_encode W ir" | "encode_op C W ir ISOpen = moz_ISOpen_encode W ir"
| "encode_op C W ir ISClose = moz_ISClose_encode W ir" | "encode_op C W ir ISMask = moz_ISMask_encode W ir"
| "encode_op C W ir ISDef = moz_ISDef_encode W ir" | "encode_op C W ir ISIsDef = moz_ISIsDef_encode W ir"
| "encode_op C W ir ISExists = moz_ISExists_encode W ir" | "encode_op C W ir ISMatch = moz_ISMatch_encode W ir"
| "encode_op C W ir ISIs = moz_ISIs_encode W ir" | "encode_op C W ir ISIsa = moz_ISIsa_encode W ir"

definition moz_ir_encode :: "compiler \<Rightarrow> writer \<Rightarrow> IR \<Rightarrow> writer res" where
  "moz_ir_encode C W ir =
     (let p = of_nat (moz_buffer_writer_length (wbuf W))
      in rbind (write8 W (of_nat (ir_num (irtype ir)))) (\<lambda>W.
         rbind (encode_op C W ir (irtype ir)) (\<lambda>W.
         rbind (awrite (address_head (linker W)) (irid ir) p) (\<lambda>ah.
         rbind (awrite (address_tail (linker W)) (irid ir) (of_nat (moz_buffer_writer_length (wbuf W)))) (\<lambda>at.
           Inr (W\<lparr>linker := (linker W)\<lparr>address_head := ah, address_tail := at\<rparr>\<rparr>))))))"

section \<open>Modules\<close>

text \<open>
  The runtime is the one \<open>moz_runtime_init(0)\<close> returned. \<open>str_at\<close> is where the characters of a
  string are: the strings of the compiler are length-prefixed strings of the memory. The sizes of
  the constant arrays are not recorded, nor are jump tables and symbol tables.
\<close>

record vm2_module =
  mruntime :: vm
  mconst :: constants

definition moz_vm2_module_new ::
  "vm \<Rightarrow> mem \<Rightarrow> token_t \<Rightarrow> (u8 list \<Rightarrow> addr) \<Rightarrow> compiler \<Rightarrow> u8 list \<Rightarrow> vm2_module" where
  "moz_vm2_module_new v m st str_at C c =
     \<lparr>mruntime = v,
      mconst = \<lparr>sets = csets C, tags = map str_at (ctags C), strs = map str_at (cstrs C), tables = [], jumps = [],
        jumps1 = [], jumps2 = [], jumps3 = [], code = c, vmem = m, stale = st\<rparr>\<rparr>"

definition moz_vm2_module_dispose :: "vm2_module \<Rightarrow> node_heap res" where
  "moz_vm2_module_dispose M = moz_runtime_dispose (mruntime M)"

text \<open>The code of the blocks: all instructions encoded in the order of the blocks, then linked.
\<open>wblock\<close> is the first block of the buffer.\<close>

definition encode_blocks :: "compiler \<Rightarrow> writer \<Rightarrow> writer res" where
  "encode_blocks C W =
     rfold (\<lambda>W b. rbind (get_block (cstore C) b) (\<lambda>B.
        rfold (\<lambda>W x. rbind (get_ir (cstore C) x) (moz_ir_encode C W)) W (insts B))) W (blocks C)"

definition writer_init :: "u8 list \<Rightarrow> compiler \<Rightarrow> writer" where
  "writer_init wblock C =
     (let n = max_ir_id (cstore C)
      in \<lparr>wbuf = moz_buffer_writer_init wblock, linker = mozlinker_init (replicate n 0) (replicate n 0) n\<rparr>)"

definition module_code :: "u8 list \<Rightarrow> compiler \<Rightarrow> u8 list res" where
  "module_code wblock C =
     rbind (encode_blocks C (writer_init wblock C)) (\<lambda>W.
       mozlinker_resolve (linker W) (written (moz_buffer_reader_init_from_writer (wbuf W))))"

definition moz_vm2_module_compile ::
  "u8 list \<Rightarrow> vm \<Rightarrow> mem \<Rightarrow> token_t \<Rightarrow> (u8 list \<Rightarrow> addr) \<Rightarrow> compiler \<Rightarrow> vm2_module res" where
  "moz_vm2_module_compile wblock v m st str_at C =
     rbind (module_code wblock C) (\<lambda>c. Inr (moz_vm2_module_new v m st str_at C c))"

end
