(* ===== verification/VM2.thy ===== *)
theory VM2
  imports Module
begin

text \<open>
  The interpreter of the compiled grammars: \<open>src/src/vm2/mozvm2.c\<close> with the instructions of
  \<open>src/src/vm2/vm2.vmdef\<close>. It runs on the same runtime as the interpreter of byte code, so its state
  is the record \<open>vm\<close>; a frame is 4 words, and a failing instruction jumps to its handler. \<open>CURRENT\<close>
  is a pointer to \<open>unsigned char\<close>.
\<close>

section \<open>Reading code\<close>

text \<open>\<open>bytecode\<close>: \<open>IExit\<close> with 0 for success and with 1 for failure.\<close>

definition bytecode2 :: "u8 list" where
  "bytecode2 = [1, 0, 1, 1]"

definition fetch2 :: "constants \<Rightarrow> nat \<Rightarrow> u8 res" where
  "fetch2 C p = (if p < base_pc C then aread (code C) p else aread bytecode2 (p - base_pc C))"

definition read2_uint8_t :: "constants \<Rightarrow> vm \<Rightarrow> (u8 \<times> vm) res" where
  "read2_uint8_t C v = rbind (fetch2 C (pc v)) (\<lambda>b. Inr (b, v\<lparr>pc := pc v + 1\<rparr>))"

definition read2_int8_t :: "constants \<Rightarrow> vm \<Rightarrow> (int \<times> vm) res" where
  "read2_int8_t C v = rbind (read2_uint8_t C v) (\<lambda>(b, v). Inr (sint b, v))"

definition read2_uint16_t :: "constants \<Rightarrow> vm \<Rightarrow> (u16 \<times> vm) res" where
  "read2_uint16_t C v =
     rbind (read2_uint8_t C v) (\<lambda>(b0, v). rbind (read2_uint8_t C v) (\<lambda>(b1, v).
       Inr (ucast b0 OR push_bit 8 (ucast b1), v)))"

definition read2_mozaddr_t :: "constants \<Rightarrow> vm \<Rightarrow> (int \<times> vm) res" where
  "read2_mozaddr_t C v =
     rbind (read2_uint8_t C v) (\<lambda>(b0, v). rbind (read2_uint8_t C v) (\<lambda>(b1, v).
     rbind (read2_uint8_t C v) (\<lambda>(b2, v). rbind (read2_uint8_t C v) (\<lambda>(b3, v).
       Inr (sint (ucast b0 OR push_bit 8 (ucast b1) OR push_bit 16 (ucast b2) OR push_bit 24 (ucast b3) :: u32), v)))))"

definition read2_STRING_t :: "constants \<Rightarrow> vm \<Rightarrow> ((addr \<times> u32) \<times> vm) res" where
  "read2_STRING_t C v =
     rbind (read2_uint16_t C v) (\<lambda>(strId, v). rbind (aread (strs C) (unat strId)) (\<lambda>str.
     rbind (pstring_length (vmem C) str) (\<lambda>len. Inr ((str, len), v))))"

definition read2_BITSET_t :: "constants \<Rightarrow> vm \<Rightarrow> (bitset_t \<times> vm) res" where
  "read2_BITSET_t C v =
     rbind (read2_uint16_t C v) (\<lambda>(setId, v). rbind (aread (sets C) (unat setId)) (\<lambda>bs. Inr (bs, v)))"

definition read2_table :: "constants \<Rightarrow> vm \<Rightarrow> (addr \<times> vm) res" where
  "read2_table C v =
     rbind (read2_uint16_t C v) (\<lambda>(tagId, v). rbind (aread (tables C) (unat tagId)) (\<lambda>name. Inr (name, v)))"

section \<open>Frames\<close>

definition FP_MAX2 :: nat where
  "FP_MAX2 = 4"

text \<open>The value of an \<open>int\<close> in a word of the stack.\<close>

definition long_of :: "int \<Rightarrow> nat" where
  "long_of i = unat (word_of_int i :: u64)"

definition PUSH2_FRAME :: "vm \<Rightarrow> addr \<Rightarrow> slot \<Rightarrow> slot \<Rightarrow> vm res" where
  "PUSH2_FRAME v pos next fail =
     rbind (awrite (stack v) (vsp v) (SFrame (vfp v))) (\<lambda>s.
     rbind (awrite s (vsp v + 1) (SPos pos)) (\<lambda>s.
     rbind (awrite s (vsp v + 2) next) (\<lambda>s.
     rbind (awrite s (vsp v + 3) fail) (\<lambda>s.
       Inr (v\<lparr>stack := s, vfp := vsp v, vsp := vsp v + FP_MAX2\<rparr>)))))"

text \<open>The two code pointers are cast when they are read and used only when they are jumped to.\<close>

definition POP2_FRAME :: "vm \<Rightarrow> ((addr \<times> slot \<times> slot) \<times> vm) res" where
  "POP2_FRAME v =
     rbind (aread (stack v) (vfp v + 2)) (\<lambda>next.
     rbind (aread (stack v) (vfp v + 3)) (\<lambda>fail.
     rbind (rbind (aread (stack v) (vfp v + 1)) as_pos) (\<lambda>pos.
     rbind (DROP_FRAME v) (\<lambda>v. Inr ((pos, next, fail), v)))))"

section \<open>The instructions\<close>

definition in_set2 :: "constants \<Rightarrow> vm \<Rightarrow> bitset_t \<Rightarrow> bool res" where
  "in_set2 C v bs = rbind (current C v) (\<lambda>c. bitset_get bs (unat c))"

text \<open>The loops of the repetitions, with a step budget.\<close>

fun rany_loop :: "nat \<Rightarrow> vm \<Rightarrow> vm res" where
  "rany_loop 0 v = Inl NoFuel"
| "rany_loop (Suc f) v = (if \<not> EOS v then rany_loop f (CONSUME v) else Inr v)"

fun rbyte_loop :: "nat \<Rightarrow> constants \<Rightarrow> vm \<Rightarrow> u8 \<Rightarrow> vm res" where
  "rbyte_loop 0 C v ch = Inl NoFuel"
| "rbyte_loop (Suc f) C v ch =
     rbind (current C v) (\<lambda>c. if c = ch then rbyte_loop f C (CONSUME v) ch else Inr v)"

fun rset2_loop :: "nat \<Rightarrow> constants \<Rightarrow> vm \<Rightarrow> bitset_t \<Rightarrow> vm res" where
  "rset2_loop 0 C v bs = Inl NoFuel"
| "rset2_loop (Suc f) C v bs =
     rbind (in_set2 C v bs) (\<lambda>b. if b then rset2_loop f C (CONSUME v) bs else Inr v)"

text \<open>\<open>IExit\<close> leaves the position in the runtime.\<close>

definition vm2_IExit :: "constants \<Rightarrow> vm \<Rightarrow> outcome res" where
  "vm2_IExit C v = rbind (read2_int8_t C v) (\<lambda>(status, v). Inr (Exited status v))"

definition vm2_ILabel :: "vm \<Rightarrow> vm res" where
  "vm2_ILabel v =
     Inr v"

definition vm2_IJump :: "constants \<Rightarrow> vm \<Rightarrow> vm res" where
  "vm2_IJump C v =
     rbind (read2_mozaddr_t C v) (\<lambda>(jump, v). JUMP C v jump)"

definition vm2_ITableJump :: "constants \<Rightarrow> vm \<Rightarrow> vm res" where
  "vm2_ITableJump C v =
     rbind (read2_uint16_t C v) (\<lambda>(tblId, v). rbind (aread (jumps3 C) (unat tblId)) (\<lambda>tbl.
     rbind (current C v) (\<lambda>c. rbind (jump_table3_jump tbl c) (\<lambda>jump. JUMP C v jump))))"

definition vm2_IPLoad :: "vm \<Rightarrow> vm res" where
  "vm2_IPLoad v =
     rbind (POP v) (\<lambda>(x, v). rbind (as_pos x) (\<lambda>p. Inr (v\<lparr>cur := p\<rparr>)))"

definition vm2_IPStore :: "vm \<Rightarrow> vm res" where
  "vm2_IPStore v =
     PUSH v (SPos (cur v))"

definition vm2_IInvoke :: "constants \<Rightarrow> vm \<Rightarrow> vm res" where
  "vm2_IInvoke C v =
     rbind (read2_mozaddr_t C v) (\<lambda>(fail, v). rbind (read2_mozaddr_t C v) (\<lambda>(funcaddr, v). 
     rbind (PUSH2_FRAME v (cur v) (SCode (pc v)) (SNum (long_of fail))) (\<lambda>v. JUMP C v funcaddr)))"

definition vm2_IRet :: "vm \<Rightarrow> vm res" where
  "vm2_IRet v =
     rbind (POP2_FRAME v) (\<lambda>((pos, next, fail), v). rbind (as_code next) (\<lambda>p. Inr (v\<lparr>pc := p\<rparr>)))"

definition vm2_IFail :: "vm \<Rightarrow> vm res" where
  "vm2_IFail v =
     rbind (POP2_FRAME v) (\<lambda>((pos, next, fail), v). rbind (as_code fail) (\<lambda>p. Inr (v\<lparr>cur := pos, pc := p\<rparr>)))"

definition vm2_IAny :: "constants \<Rightarrow> vm \<Rightarrow> vm res" where
  "vm2_IAny C v =
     rbind (read2_mozaddr_t C v) (\<lambda>(fail, v). if EOS v then JUMP C v fail else Inr (CONSUME v))"

definition vm2_IByte :: "constants \<Rightarrow> vm \<Rightarrow> vm res" where
  "vm2_IByte C v =
     rbind (read2_mozaddr_t C v) (\<lambda>(fail, v). rbind (read2_uint8_t C v) (\<lambda>(ch, v). rbind (current C v) (\<lambda>c.
     if c \<noteq> ch then JUMP C v fail else Inr (CONSUME v))))"

definition vm2_IStr :: "constants \<Rightarrow> vm \<Rightarrow> vm res" where
  "vm2_IStr C v =
     rbind (read2_mozaddr_t C v) (\<lambda>(fail, v). rbind (read2_STRING_t C v) (\<lambda>((str, len), v). rbind (starts C v str len) (\<lambda>b.
     if \<not> b then JUMP C v fail else Inr (CONSUME_N v (uint len)))))"

definition vm2_ISet :: "constants \<Rightarrow> vm \<Rightarrow> vm res" where
  "vm2_ISet C v =
     rbind (read2_mozaddr_t C v) (\<lambda>(fail, v). rbind (read2_BITSET_t C v) (\<lambda>(bs, v). rbind (in_set2 C v bs) (\<lambda>b.
     if \<not> b then JUMP C v fail else Inr (CONSUME v))))"

definition vm2_IUByte :: "vm \<Rightarrow> vm res" where
  "vm2_IUByte v =
     Inl Int3"

definition vm2_IUSet :: "vm \<Rightarrow> vm res" where
  "vm2_IUSet v =
     Inl Int3"

definition vm2_INAny :: "constants \<Rightarrow> vm \<Rightarrow> vm res" where
  "vm2_INAny C v =
     rbind (read2_mozaddr_t C v) (\<lambda>(fail, v). if \<not> EOS v then JUMP C v fail else Inr v)"

definition vm2_INByte :: "constants \<Rightarrow> vm \<Rightarrow> vm res" where
  "vm2_INByte C v =
     rbind (read2_mozaddr_t C v) (\<lambda>(fail, v). rbind (read2_uint8_t C v) (\<lambda>(ch, v). rbind (current C v) (\<lambda>c. if c = ch then JUMP C v fail else Inr v)))"

definition vm2_INStr :: "constants \<Rightarrow> vm \<Rightarrow> vm res" where
  "vm2_INStr C v =
     rbind (read2_mozaddr_t C v) (\<lambda>(fail, v). rbind (read2_STRING_t C v) (\<lambda>((str, len), v). rbind (starts C v str len) (\<lambda>b.
     if b then JUMP C v fail else Inr v)))"

definition vm2_INSet :: "constants \<Rightarrow> vm \<Rightarrow> vm res" where
  "vm2_INSet C v =
     rbind (read2_mozaddr_t C v) (\<lambda>(fail, v). rbind (read2_BITSET_t C v) (\<lambda>(bs, v). rbind (in_set2 C v bs) (\<lambda>b. if b then JUMP C v fail else Inr v)))"

definition vm2_IRAny :: "constants \<Rightarrow> vm \<Rightarrow> vm res" where
  "vm2_IRAny C v =
     rany_loop (length (vmem C) + 1) v"

definition vm2_IRByte :: "constants \<Rightarrow> vm \<Rightarrow> vm res" where
  "vm2_IRByte C v =
     rbind (read2_uint8_t C v) (\<lambda>(ch, v). rbyte_loop (length (vmem C) + 1) C v ch)"

definition vm2_IRStr :: "constants \<Rightarrow> vm \<Rightarrow> vm res" where
  "vm2_IRStr C v =
     rbind (read2_STRING_t C v) (\<lambda>((str, len), v). rstr_loop (length (vmem C) + 1) C v str len)"

definition vm2_IRSet :: "constants \<Rightarrow> vm \<Rightarrow> vm res" where
  "vm2_IRSet C v =
     rbind (read2_BITSET_t C v) (\<lambda>(bs, v). rset2_loop (length (vmem C) + 1) C v bs)"

definition vm2_IRUByte :: "vm \<Rightarrow> vm res" where
  "vm2_IRUByte v =
     Inl Int3"

definition vm2_IRUSet :: "vm \<Rightarrow> vm res" where
  "vm2_IRUSet v =
     Inl Int3"

definition vm2_IOByte :: "constants \<Rightarrow> vm \<Rightarrow> vm res" where
  "vm2_IOByte C v =
     rbind (read2_uint8_t C v) (\<lambda>(ch, v). rbind (current C v) (\<lambda>c. Inr (if c = ch then CONSUME v else v)))"

definition vm2_IOStr :: "constants \<Rightarrow> vm \<Rightarrow> vm res" where
  "vm2_IOStr C v =
     rbind (read2_STRING_t C v) (\<lambda>((str, len), v). rbind (starts C v str len) (\<lambda>b.
     Inr (if b then CONSUME_N v (uint len) else v)))"

definition vm2_IOSet :: "constants \<Rightarrow> vm \<Rightarrow> vm res" where
  "vm2_IOSet C v =
     rbind (read2_BITSET_t C v) (\<lambda>(bs, v). rbind (in_set2 C v bs) (\<lambda>b. Inr (if b then CONSUME v else v)))"

definition vm2_IOUByte :: "vm \<Rightarrow> vm res" where
  "vm2_IOUByte v =
     Inl Int3"

definition vm2_IOUSet :: "vm \<Rightarrow> vm res" where
  "vm2_IOUSet v =
     Inl Int3"

definition vm2_ILookup :: "vm \<Rightarrow> vm res" where
  "vm2_ILookup v =
     Inl Int3"

definition vm2_IMemo :: "vm \<Rightarrow> vm res" where
  "vm2_IMemo v =
     Inl Int3"

definition vm2_IMemoFail :: "constants \<Rightarrow> vm \<Rightarrow> vm res" where
  "vm2_IMemoFail C v =
     rbind (read2_mozaddr_t C v) (\<lambda>(fail, v). rbind (read2_uint16_t C v) (\<lambda>(memoId, v). 
     rbind (memo_fail (vmemo v) (vheap v) (cur v) (ucast memoId)) (\<lambda>(m, h). JUMP C (v\<lparr>vmemo := m, vheap := h\<rparr>) fail)))"

definition vm2_ITStart :: "vm \<Rightarrow> vm res" where
  "vm2_ITStart v =
     PUSH v (SNum (ast_save_tx (vast v)))"

definition vm2_ITCommit :: "constants \<Rightarrow> vm \<Rightarrow> vm res" where
  "vm2_ITCommit C v =
     rbind (read2_uint16_t C v) (\<lambda>(tagId, v). rbind (POP v) (\<lambda>(x, v). rbind (as_num x) (\<lambda>tx.
     rbind (ast_commit_tx (vast v) (vheap v) tagId tx) (\<lambda>(ast, h). Inr (v\<lparr>vast := ast, vheap := h\<rparr>)))))"

definition vm2_ITAbort :: "vm \<Rightarrow> vm res" where
  "vm2_ITAbort v =
     Inl Int3"

definition vm2_ITPush :: "vm \<Rightarrow> vm res" where
  "vm2_ITPush v =
     on_ast v (ast_log_push (vast v))"

definition vm2_ITPop :: "constants \<Rightarrow> vm \<Rightarrow> vm res" where
  "vm2_ITPop C v =
     rbind (read2_uint16_t C v) (\<lambda>(tagId, v). on_ast v (ast_log_pop (vast v) tagId))"

definition vm2_ITFoldL :: "constants \<Rightarrow> vm \<Rightarrow> vm res" where
  "vm2_ITFoldL C v =
     rbind (read2_int8_t C v) (\<lambda>(d, v). rbind (read2_uint16_t C v) (\<lambda>(tagId, v). on_ast v (ast_log_swap (vast v) (shifted v d) tagId)))"

definition vm2_ITNew :: "constants \<Rightarrow> vm \<Rightarrow> vm res" where
  "vm2_ITNew C v =
     rbind (read2_int8_t C v) (\<lambda>(d, v). on_ast v (ast_log_new (vast v) (shifted v d)))"

definition vm2_ITCapture :: "constants \<Rightarrow> vm \<Rightarrow> vm res" where
  "vm2_ITCapture C v =
     rbind (read2_int8_t C v) (\<lambda>(d, v). on_ast v (ast_log_capture (vast v) (shifted v d)))"

definition vm2_ITTag :: "constants \<Rightarrow> vm \<Rightarrow> vm res" where
  "vm2_ITTag C v =
     rbind (read2_uint16_t C v) (\<lambda>(tagId, v). rbind (aread (tags C) (unat tagId)) (\<lambda>tag. on_ast v (ast_log_tag (vast v) tag)))"

definition vm2_ITReplace :: "constants \<Rightarrow> vm \<Rightarrow> vm res" where
  "vm2_ITReplace C v =
     rbind (read2_uint16_t C v) (\<lambda>(strId, v). rbind (aread (strs C) (unat strId)) (\<lambda>str. on_ast v (ast_log_replace (vast v) str)))"

definition vm2_ITLookup :: "vm \<Rightarrow> vm res" where
  "vm2_ITLookup v =
     Inl Int3"

definition vm2_ITMemo :: "vm \<Rightarrow> vm res" where
  "vm2_ITMemo v =
     Inl Int3"

definition vm2_ISOpen :: "vm \<Rightarrow> vm res" where
  "vm2_ISOpen v =
     PUSH v (SNum (symtable_savepoint (vtable v)))"

definition vm2_ISClose :: "vm \<Rightarrow> vm res" where
  "vm2_ISClose v =
     rbind (POP v) (\<lambda>(x, v). rbind (as_num x) (\<lambda>saved. Inr (v\<lparr>vtable := symtable_rollback (vtable v) saved\<rparr>)))"

definition vm2_ISMask :: "constants \<Rightarrow> vm \<Rightarrow> vm res" where
  "vm2_ISMask C v =
     rbind (read2_table C v) (\<lambda>(tableName, v). 
     rbind (PUSH v (SNum (symtable_savepoint (vtable v)))) (\<lambda>v.
     rbind (symtable_add_symbol_mask (stale C) (vtable v) tableName) (\<lambda>t. Inr (v\<lparr>vtable := t\<rparr>))))"

definition vm2_ISDef :: "constants \<Rightarrow> vm \<Rightarrow> vm res" where
  "vm2_ISDef C v =
     rbind (read2_table C v) (\<lambda>(tableName, v). rbind (pop_token v) (\<lambda>(captured, v).
     rbind (symtable_add_symbol (vmem C) (stale C) (vtable v) tableName captured) (\<lambda>t. Inr (v\<lparr>vtable := t\<rparr>))))"

definition vm2_ISIsDef :: "constants \<Rightarrow> vm \<Rightarrow> vm res" where
  "vm2_ISIsDef C v =
     rbind (read2_mozaddr_t C v) (\<lambda>(fail, v). rbind (read2_table C v) (\<lambda>(tableName, v). rbind (read2_STRING_t C v) (\<lambda>((symbol, len), v). 
     rbind (symtable_contains (vmem C) (vtable v) tableName \<lparr>ts = symbol, tlen = unat len\<rparr>) (\<lambda>b.
       if \<not> b then JUMP C v fail else Inr v))))"

definition vm2_ISExists :: "constants \<Rightarrow> vm \<Rightarrow> vm res" where
  "vm2_ISExists C v =
     rbind (read2_mozaddr_t C v) (\<lambda>(fail, v). rbind (read2_table C v) (\<lambda>(tableName, v). 
     rbind (symtable_has_symbol (vtable v) tableName) (\<lambda>b. if \<not> b then JUMP C v fail else Inr v)))"

definition vm2_ISMatch :: "constants \<Rightarrow> vm \<Rightarrow> vm res" where
  "vm2_ISMatch C v =
     rbind (read2_mozaddr_t C v) (\<lambda>(fail, v). rbind (read2_table C v) (\<lambda>(tableName, v). 
     rbind (symtable_get_symbol (vtable v) tableName (stale C)) (\<lambda>(found, t).
       if found then
         rbind (token_equal_string (vmem C) t (cur v)) (\<lambda>b.
           if b then Inr (CONSUME_N v (int (token_length t))) else JUMP C v fail)
       else JUMP C v fail)))"

definition vm2_ISIs :: "constants \<Rightarrow> vm \<Rightarrow> vm res" where
  "vm2_ISIs C v =
     rbind (read2_mozaddr_t C v) (\<lambda>(fail, v). rbind (read2_table C v) (\<lambda>(tableName, v). 
     rbind (symtable_get_symbol (vtable v) tableName (stale C)) (\<lambda>(found, t).
       if found then
         rbind (pop_token v) (\<lambda>(captured, v). rbind (token_equal (vmem C) t captured) (\<lambda>b.
           if b then Inr v else JUMP C v fail))
       else JUMP C v fail)))"

definition vm2_ISIsa :: "constants \<Rightarrow> vm \<Rightarrow> vm res" where
  "vm2_ISIsa C v =
     rbind (read2_mozaddr_t C v) (\<lambda>(fail, v). rbind (read2_table C v) (\<lambda>(tableName, v). 
     rbind (pop_token v) (\<lambda>(captured, v). rbind (symtable_contains (vmem C) (vtable v) tableName captured) (\<lambda>b.
       if \<not> b then JUMP C v fail else Inr v))))"

section \<open>Dispatch\<close>

primrec exec2 :: "constants \<Rightarrow> ir_type \<Rightarrow> vm \<Rightarrow> outcome res" where
  "exec2 C ILabel v = NEXT (vm2_ILabel v)" | "exec2 C IExit v = vm2_IExit C v" | "exec2 C IJump v = NEXT (vm2_IJump C v)"
| "exec2 C ITableJump v = NEXT (vm2_ITableJump C v)" | "exec2 C IInvoke v = NEXT (vm2_IInvoke C v)" | "exec2 C IPLoad v = NEXT (vm2_IPLoad v)"
| "exec2 C IPStore v = NEXT (vm2_IPStore v)" | "exec2 C IRet v = NEXT (vm2_IRet v)" | "exec2 C IFail v = NEXT (vm2_IFail v)"
| "exec2 C IAny v = NEXT (vm2_IAny C v)" | "exec2 C IByte v = NEXT (vm2_IByte C v)" | "exec2 C IStr v = NEXT (vm2_IStr C v)"
| "exec2 C ISet v = NEXT (vm2_ISet C v)" | "exec2 C IUByte v = NEXT (vm2_IUByte v)" | "exec2 C IUSet v = NEXT (vm2_IUSet v)"
| "exec2 C INAny v = NEXT (vm2_INAny C v)" | "exec2 C INByte v = NEXT (vm2_INByte C v)" | "exec2 C INStr v = NEXT (vm2_INStr C v)"
| "exec2 C INSet v = NEXT (vm2_INSet C v)" | "exec2 C IRByte v = NEXT (vm2_IRByte C v)" | "exec2 C IRAny v = NEXT (vm2_IRAny C v)"
| "exec2 C IRStr v = NEXT (vm2_IRStr C v)" | "exec2 C IRSet v = NEXT (vm2_IRSet C v)" | "exec2 C IRUByte v = NEXT (vm2_IRUByte v)"
| "exec2 C IRUSet v = NEXT (vm2_IRUSet v)" | "exec2 C IOByte v = NEXT (vm2_IOByte C v)" | "exec2 C IOStr v = NEXT (vm2_IOStr C v)"
| "exec2 C IOSet v = NEXT (vm2_IOSet C v)" | "exec2 C IOUByte v = NEXT (vm2_IOUByte v)" | "exec2 C IOUSet v = NEXT (vm2_IOUSet v)"
| "exec2 C ILookup v = NEXT (vm2_ILookup v)" | "exec2 C IMemo v = NEXT (vm2_IMemo v)" | "exec2 C IMemoFail v = NEXT (vm2_IMemoFail C v)"
| "exec2 C ITStart v = NEXT (vm2_ITStart v)" | "exec2 C ITCommit v = NEXT (vm2_ITCommit C v)" | "exec2 C ITAbort v = NEXT (vm2_ITAbort v)"
| "exec2 C ITPush v = NEXT (vm2_ITPush v)" | "exec2 C ITPop v = NEXT (vm2_ITPop C v)" | "exec2 C ITFoldL v = NEXT (vm2_ITFoldL C v)"
| "exec2 C ITNew v = NEXT (vm2_ITNew C v)" | "exec2 C ITCapture v = NEXT (vm2_ITCapture C v)" | "exec2 C ITTag v = NEXT (vm2_ITTag C v)"
| "exec2 C ITReplace v = NEXT (vm2_ITReplace C v)" | "exec2 C ITLookup v = NEXT (vm2_ITLookup v)" | "exec2 C ITMemo v = NEXT (vm2_ITMemo v)"
| "exec2 C ISOpen v = NEXT (vm2_ISOpen v)" | "exec2 C ISClose v = NEXT (vm2_ISClose v)" | "exec2 C ISMask v = NEXT (vm2_ISMask C v)"
| "exec2 C ISDef v = NEXT (vm2_ISDef C v)" | "exec2 C ISIsDef v = NEXT (vm2_ISIsDef C v)" | "exec2 C ISExists v = NEXT (vm2_ISExists C v)"
| "exec2 C ISMatch v = NEXT (vm2_ISMatch C v)" | "exec2 C ISIs v = NEXT (vm2_ISIs C v)" | "exec2 C ISIsa v = NEXT (vm2_ISIsa C v)"

definition vm2_step :: "constants \<Rightarrow> vm \<Rightarrow> outcome res" where
  "vm2_step C v =
     rbind (read2_uint8_t C v) (\<lambda>(b, v).
     rbind (rguard BadOpcode (unat b < length FOR_EACH_IR)) (\<lambda>_. exec2 C (FOR_EACH_IR ! unat b) v))"

fun vm2_run :: "nat \<Rightarrow> constants \<Rightarrow> vm \<Rightarrow> (int \<times> vm) res" where
  "vm2_run 0 C v = Inl NoFuel"
| "vm2_run (Suc f) C v =
     rbind (vm2_step C v) (\<lambda>r. case r of Running v \<Rightarrow> vm2_run f C v | Exited s v \<Rightarrow> Inr (s, v))"

definition moz_vm2_runtime_parse :: "nat \<Rightarrow> constants \<Rightarrow> vm \<Rightarrow> nat \<Rightarrow> addr \<Rightarrow> addr \<Rightarrow> (int \<times> vm) res" where
  "moz_vm2_runtime_parse f C v entry str endp =
     (let v = v\<lparr>cur := str, hd_pos := str, tl_pos := endp\<rparr>
      in rbind (PUSH2_FRAME v (cur v) (SCode (base_pc C)) (SCode (base_pc C + 2))) (\<lambda>v.
           vm2_run f C (v\<lparr>pc := entry\<rparr>)))"

text \<open>\<open>moz_vm2_module_parse\<close>: parsing starts with the first instruction; the tree is built afterwards, in
either case.\<close>

definition moz_vm2_module_parse :: "nat \<Rightarrow> vm2_module \<Rightarrow> addr \<Rightarrow> nat \<Rightarrow> (int \<times> nptr \<times> vm2_module) res" where
  "moz_vm2_module_parse f M input input_size =
     rbind (moz_vm2_runtime_parse f (mconst M) (mruntime M) 0 input (input + input_size)) (\<lambda>(result, v).
     rbind (ast_get_parsed_node (vast v) (vheap v)) (\<lambda>(n, ast, h).
       Inr (result, n, M\<lparr>mruntime := v\<lparr>vast := ast, vheap := h\<rparr>\<rparr>)))"

end
