(* ===== verification/Cfg.thy ===== *)
theory Cfg
  imports Compiler
begin

text \<open>
  What the code generator builds: well-formed control flow graphs. The invariant says that the edges
  of the graph are symmetric, that every pointer is in range, that every instruction belongs to one
  block and has the fields of its structure, and that its constant is there.
\<close>

section \<open>Well-formed programs\<close>

abbreviation nb :: "compiler \<Rightarrow> nat" where "nb C \<equiv> length (bheap (cstore C))"
abbreviation ni :: "compiler \<Rightarrow> nat" where "ni C \<equiv> length (iheap (cstore C))"
abbreviation blk :: "compiler \<Rightarrow> nat \<Rightarrow> block" where "blk C b \<equiv> bheap (cstore C) ! b"
abbreviation irn :: "compiler \<Rightarrow> nat \<Rightarrow> IR" where "irn C i \<equiv> the (iheap (cstore C) ! i)"

definition edges_ok :: "compiler \<Rightarrow> nat \<Rightarrow> bool" where
  "edges_ok C b \<longleftrightarrow> distinct (preds (blk C b)) \<and> distinct (succs (blk C b)) \<and>
     (\<forall>q \<in> set (succs (blk C b)). q < nb C \<and> b \<in> set (preds (blk C q))) \<and>
     (\<forall>p \<in> set (preds (blk C b)). p < nb C \<and> b \<in> set (succs (blk C p)))"

definition insts_ok :: "compiler \<Rightarrow> nat \<Rightarrow> bool" where
  "insts_ok C b \<longleftrightarrow> distinct (insts (blk C b)) \<and> (\<forall>i \<in> set (insts (blk C b)). i < ni C \<and> parent (irn C i) = Some b)"

text \<open>The field of an instruction names something that exists; \<open>pool\<close> is the number of constants its id
ranges over.\<close>

definition pool :: "compiler \<Rightarrow> ir_type \<Rightarrow> nat" where
  "pool C t =
     (if t \<in> {IStr, IRStr, IOStr} then length (cstrs C)
      else if t \<in> {ISet, IRSet, IOSet} then length (csets C)
      else if t \<in> {ITTag, ITPop} then length (ctags C) else 65536)"

definition arg_ok :: "compiler \<Rightarrow> ir_type \<Rightarrow> ir_arg \<Rightarrow> bool" where
  "arg_ok C t arg \<longleftrightarrow> has_fields t arg \<and>
     (case arg of
        BlockArg b \<Rightarrow> b < nb C
      | DeclArg (Some d) \<Rightarrow> d < length (decls C)
      | IdArg i \<Rightarrow> unat i < pool C t
      | _ \<Rightarrow> True)"

definition ir_ok :: "compiler \<Rightarrow> nat \<Rightarrow> bool" where
  "ir_ok C i \<longleftrightarrow> iheap (cstore C) ! i \<noteq> None \<and> irid (irn C i) = i \<and> irfail (irn C i) < nb C \<and>
     arg_ok C (irtype (irn C i)) (irarg (irn C i))"

definition cfg_wf :: "compiler \<Rightarrow> bool" where
  "cfg_wf C \<longleftrightarrow> (\<forall>b < nb C. edges_ok C b \<and> insts_ok C b) \<and> (\<forall>i < ni C. ir_ok C i) \<and>
     max_ir_id (cstore C) = ni C \<and> blocks C = [0..<nb C]"

text \<open>The type of the last instruction of a block; a block is open when an instruction can be added.\<close>

definition last_type :: "compiler \<Rightarrow> nat \<Rightarrow> ir_type option" where
  "last_type C b = (if insts (blk C b) = [] then None else Some (irtype (irn C (last (insts (blk C b))))))"

definition open_block :: "compiler \<Rightarrow> nat \<Rightarrow> bool" where
  "open_block C b \<longleftrightarrow> b < nb C \<and> last_type C b \<noteq> Some IJump"

definition terminators :: "ir_type set" where
  "terminators = {IExit, IJump, ITableJump, IRet, IFail}"

definition closed_block :: "compiler \<Rightarrow> nat \<Rightarrow> bool" where
  "closed_block C b \<longleftrightarrow> (\<exists>t \<in> terminators. last_type C b = Some t)"

section \<open>One instruction\<close>

definition mark_handler :: "block list \<Rightarrow> nat \<Rightarrow> block list" where
  "mark_handler h b = (if block_is (h ! b) BLOCK_HANDLER then h else h[b := (h ! b)\<lparr>btype := btype (h ! b) OR BLOCK_HANDLER\<rparr>])"

lemma nth_update_same: "f v = f (h ! b) \<Longrightarrow> f (h[b := v] ! k) = f (h ! k)"
  by (cases "k = b"; cases "b < length h") (simp_all add: list_update_beyond)

lemma mark_handler_sel [simp]:
  "length (mark_handler h b) = length h"
  "insts (mark_handler h b ! k) = insts (h ! k)"
  "preds (mark_handler h b ! k) = preds (h ! k)"
  "succs (mark_handler h b ! k) = succs (h ! k)"
  by (simp_all add: mark_handler_def nth_update_same [of insts] nth_update_same [of preds] nth_update_same [of succs])

text \<open>The compiler after one more instruction in the current block.\<close>

definition add_ir :: "compiler \<Rightarrow> moz_state \<Rightarrow> ir_type \<Rightarrow> ir_arg \<Rightarrow> compiler" where
  "add_ir C S t arg =
     (let s = cstore C; h = mark_handler (bheap s) (sfail S)
      in C\<lparr>cstore := s\<lparr>bheap := h[scur S := (h ! scur S)\<lparr>insts := insts (h ! scur S) @ [length (iheap s)]\<rparr>],
             iheap := iheap s @ [Some \<lparr>irid = max_ir_id s, irtype = t, parent = Some (scur S), irfail = sfail S, irarg = arg\<rparr>],
             max_ir_id := max_ir_id s + 1\<rparr>\<rparr>)"

lemma insts_lt: "cfg_wf C \<Longrightarrow> b < nb C \<Longrightarrow> i \<in> set (insts (blk C b)) \<Longrightarrow> i < ni C"
  by (auto simp: cfg_wf_def insts_ok_def)

lemma ir_some: "cfg_wf C \<Longrightarrow> i < ni C \<Longrightarrow> \<exists>ir. iheap (cstore C) ! i = Some ir"
  by (auto simp: cfg_wf_def ir_ok_def)

lemma ir_alloc_eq:
  assumes "sfail S < nb C"
  shows "ir_alloc C S t arg = Inr (ni C, C\<lparr>cstore := (cstore C)\<lparr>bheap := mark_handler (bheap (cstore C)) (sfail S),
     iheap := iheap (cstore C) @ [Some \<lparr>irid = max_ir_id (cstore C), irtype = t, parent = None, irfail = sfail S, irarg = arg\<rparr>],
     max_ir_id := max_ir_id (cstore C) + 1\<rparr>\<rparr>)"
  using assms by (simp add: ir_alloc_def Let_def get_block_def put_block_def block_set_type_def mark_handler_def)

lemma add_eq:
  assumes "cfg_wf C" "open_block C (scur S)" "sfail S < nb C"
  shows "rbind (ir_alloc C S t arg) (\<lambda>(i, C). moz_compiler_add C S i) = Inr (add_ir C S t arg)"
proof -
  let ?C = "C\<lparr>cstore := (cstore C)\<lparr>bheap := mark_handler (bheap (cstore C)) (sfail S),
     iheap := iheap (cstore C) @ [Some \<lparr>irid = max_ir_id (cstore C), irtype = t, parent = None, irfail = sfail S, irarg = arg\<rparr>],
     max_ir_id := max_ir_id (cstore C) + 1\<rparr>\<rparr>"
  have b: "scur S < nb C" using assms(2) by (simp add: open_block_def)
  have "rbind (block_get_last (cstore ?C) (scur S)) (\<lambda>last. case last of None \<Rightarrow> Inr () | Some l \<Rightarrow>
      rbind (get_ir (cstore ?C) l) (\<lambda>ir. rassert (irtype ir \<noteq> IJump))) = Inr ()"
  proof (cases "insts (blk C (scur S))" rule: rev_cases)
    case (snoc xs l)
    then have l: "l < ni C" using insts_lt [OF assms(1) b] by simp
    from ir_some [OF assms(1) l] obtain ir where ir: "iheap (cstore C) ! l = Some ir" by blast
    with assms(2) snoc have "irtype ir \<noteq> IJump" by (simp add: open_block_def last_type_def)
    then show ?thesis using b snoc l ir
      by (simp add: block_get_last_def get_block_def block_size_def block_get_def get_ir_def nth_append)
  qed (use b in \<open>simp add: block_get_last_def get_block_def block_size_def\<close>)
  then have "moz_compiler_add ?C S (ni C) = on_store ?C (\<lambda>s. block_append s (scur S) (ni C))"
    unfolding moz_compiler_add_def rbind_assoc [symmetric] by simp
  then show ?thesis using b
    by (simp add: ir_alloc_eq [OF assms(3)] on_store_def block_append_def get_block_def put_block_def
        get_ir_def put_ir_def nth_append add_ir_def Let_def)
qed

lemma emit_eq:
  assumes "cfg_wf C" "open_block C (scur S)" "sfail S < nb C"
  shows "emit_ir C S t arg = Inr (add_ir C S t arg, scur S)"
proof -
  have "emit_ir C S t arg = rbind (rbind (ir_alloc C S t arg) (\<lambda>(i, C). moz_compiler_add C S i)) (\<lambda>C. Inr (C, scur S))"
    unfolding emit_ir_def rbind_assoc by (rule rbind_cong) (auto split: prod.splits)
  then show ?thesis using add_eq [OF assms] by simp
qed

lemma add_ir_sel:
  assumes "scur S < nb C"
  shows "nb (add_ir C S t arg) = nb C" "ni (add_ir C S t arg) = Suc (ni C)"
    "insts (blk (add_ir C S t arg) b) = (if b = scur S then insts (blk C b) @ [ni C] else insts (blk C b))"
    "preds (blk (add_ir C S t arg) b) = preds (blk C b)" "succs (blk (add_ir C S t arg) b) = succs (blk C b)"
    "i < ni C \<Longrightarrow> iheap (cstore (add_ir C S t arg)) ! i = iheap (cstore C) ! i"
    "iheap (cstore (add_ir C S t arg)) ! ni C =
       Some \<lparr>irid = max_ir_id (cstore C), irtype = t, parent = Some (scur S), irfail = sfail S, irarg = arg\<rparr>"
    "decls (add_ir C S t arg) = decls C" "blocks (add_ir C S t arg) = blocks C"
    "cstrs (add_ir C S t arg) = cstrs C" "ctags (add_ir C S t arg) = ctags C" "csets (add_ir C S t arg) = csets C"
    "max_ir_id (cstore (add_ir C S t arg)) = Suc (max_ir_id (cstore C))"
  using assms by (auto simp: add_ir_def Let_def nth_append nth_list_update)

lemma pool_mono:
  "\<lbrakk>length (cstrs C) \<le> length (cstrs C'); length (ctags C) \<le> length (ctags C'); length (csets C) \<le> length (csets C')\<rbrakk> \<Longrightarrow>
    pool C t \<le> pool C' t"
  by (simp add: pool_def)

lemma arg_ok_mono:
  assumes "arg_ok C t arg" "nb C \<le> nb C'" "length (decls C) = length (decls C')" "pool C t \<le> pool C' t"
  shows "arg_ok C' t arg"
proof (cases arg)
  case (DeclArg d)
  then show ?thesis using assms by (cases d) (simp_all add: arg_ok_def)
qed (use assms in \<open>simp_all add: arg_ok_def\<close>)

lemma wf_add_ir:
  assumes w: "cfg_wf C" and b: "scur S < nb C" and f: "sfail S < nb C" and a: "arg_ok C t arg"
  shows "cfg_wf (add_ir C S t arg)"
proof -
  let ?C = "add_ir C S t arg"
  note sel = add_ir_sel [OF b, where t = t and arg = arg]
  note sl = sel(1,8,10,11,12)
  have po: "pool ?C u = pool C u" for u by (simp only: pool_def sl)
  have ao: "arg_ok ?C u x = arg_ok C u x" for u x by (rule iffI; erule arg_ok_mono; simp only: po sl order.refl)
  have e: "edges_ok ?C k" if "k < nb C" for k
  proof -
    have "edges_ok C k" using w that by (simp add: cfg_wf_def)
    then show ?thesis by (simp only: edges_ok_def sel) blast
  qed
  have "insts_ok ?C k" if "k < nb C" for k
  proof -
    have o: "insts_ok C k" using w that by (simp add: cfg_wf_def)
    then have "i < ni C" if "i \<in> set (insts (blk C k))" for i using that by (simp add: insts_ok_def)
    then show ?thesis using o by (auto simp: insts_ok_def sel less_SucI)
  qed
  moreover have "ir_ok ?C i" if "i < Suc (ni C)" for i
  proof (cases "i = ni C")
    case True
    then show ?thesis using w f a by (simp add: ir_ok_def sel ao cfg_wf_def)
  next
    case False
    then have i: "i < ni C" using that by simp
    then have "ir_ok C i" using w by (simp add: cfg_wf_def)
    then show ?thesis using i by (simp add: ir_ok_def sel ao)
  qed
  ultimately show ?thesis using e w by (simp add: cfg_wf_def sel)
qed


section \<open>Edges and blocks\<close>

text \<open>The compiler after the edge from \<open>p\<close> to \<open>q\<close>.\<close>

definition add_edge :: "compiler \<Rightarrow> nat \<Rightarrow> nat \<Rightarrow> compiler" where
  "add_edge C p q =
     (let h = bheap (cstore C);
          h = h[p := (h ! p)\<lparr>succs := array_add_once (succs (h ! p)) q\<rparr>];
          h = h[q := (h ! q)\<lparr>preds := array_add_once (preds (h ! q)) p\<rparr>]
      in C\<lparr>cstore := (cstore C)\<lparr>bheap := h\<rparr>\<rparr>)"

lemma array_add_once_simps [simp]:
  "set (array_add_once xs v) = insert v (set xs)" "distinct (array_add_once xs v) = distinct xs"
  by (auto simp: array_add_once_def)

lemma link_edge_eq:
  assumes "p < nb C" "q < nb C" "p \<noteq> q"
  shows "on_store C (\<lambda>s. block_link s p q) = Inr (add_edge C p q)"
  using assms by (simp add: on_store_def block_link_def get_block_def put_block_def add_edge_def Let_def nth_list_update)

lemma add_edge_sel:
  assumes "p < nb C" "q < nb C" "p \<noteq> q"
  shows "nb (add_edge C p q) = nb C" "iheap (cstore (add_edge C p q)) = iheap (cstore C)"
    "insts (blk (add_edge C p q) b) = insts (blk C b)"
    "preds (blk (add_edge C p q) b) = (if b = q then array_add_once (preds (blk C b)) p else preds (blk C b))"
    "succs (blk (add_edge C p q) b) = (if b = p then array_add_once (succs (blk C b)) q else succs (blk C b))"
    "decls (add_edge C p q) = decls C" "blocks (add_edge C p q) = blocks C"
    "cstrs (add_edge C p q) = cstrs C" "ctags (add_edge C p q) = ctags C" "csets (add_edge C p q) = csets C"
    "max_ir_id (cstore (add_edge C p q)) = max_ir_id (cstore C)"
  using assms by (simp_all add: add_edge_def Let_def nth_list_update)

lemma wf_add_edge:
  assumes w: "cfg_wf C" and b: "p < nb C" "q < nb C" "p \<noteq> q"
  shows "cfg_wf (add_edge C p q)"
proof -
  note sel = add_edge_sel [OF b]
  have "pool (add_edge C p q) u = pool C u" for u by (simp only: pool_def sel)
  then have ao: "arg_ok (add_edge C p q) u x = arg_ok C u x" for u x
    by (metis arg_ok_mono order.refl sel(1,6))
  have "edges_ok (add_edge C p q) k" if "k < nb C" for k
  proof -
    have e: "edges_ok C j" if "j < nb C" for j using w that by (simp add: cfg_wf_def)
    show ?thesis using e [OF that] e [OF b(1)] e [OF b(2)] b unfolding edges_ok_def sel by auto
  qed
  moreover have "insts_ok (add_edge C p q) k" if "k < nb C" for k
    using w that unfolding cfg_wf_def insts_ok_def sel by blast
  moreover have "ir_ok (add_edge C p q) i" if "i < ni C" for i
    using w that unfolding cfg_wf_def ir_ok_def sel ao by blast
  ultimately show ?thesis using w unfolding cfg_wf_def sel by blast
qed

text \<open>The compiler after a new block.\<close>

definition add_block :: "compiler \<Rightarrow> u32 \<Rightarrow> compiler" where
  "add_block C t =
     C\<lparr>cstore := (cstore C)\<lparr>bheap := bheap (cstore C) @ [\<lparr>bid = max_block_id (cstore C), btype = t, insts = [], preds = [], succs = []\<rparr>],
        max_block_id := max_block_id (cstore C) + 1\<rparr>, blocks := blocks C @ [nb C]\<rparr>"

lemma create_eq: "moz_compiler_create_named_block C t = Inr (nb C, add_block C t)"
  by (simp add: moz_compiler_create_named_block_def block_new_def Let_def block_set_type_def get_block_def put_block_def
      nth_append add_block_def)

lemma add_block_sel:
  "nb (add_block C t) = Suc (nb C)" "iheap (cstore (add_block C t)) = iheap (cstore C)"
  "b < nb C \<Longrightarrow> blk (add_block C t) b = blk C b"
  "insts (blk (add_block C t) (nb C)) = []" "preds (blk (add_block C t) (nb C)) = []" "succs (blk (add_block C t) (nb C)) = []"
  "decls (add_block C t) = decls C" "blocks (add_block C t) = blocks C @ [nb C]"
  "cstrs (add_block C t) = cstrs C" "ctags (add_block C t) = ctags C" "csets (add_block C t) = csets C"
  "max_ir_id (cstore (add_block C t)) = max_ir_id (cstore C)"
  by (simp_all add: add_block_def nth_append)

lemma wf_add_block:
  assumes w: "cfg_wf C"
  shows "cfg_wf (add_block C t)"
proof -
  note sel = add_block_sel [where C = C and t = t]
  have po: "pool (add_block C t) u = pool C u" for u by (simp only: pool_def sel)
  have ao: "arg_ok C u x \<Longrightarrow> arg_ok (add_block C t) u x" for u x
    by (erule arg_ok_mono) (simp_all add: po sel(1,7))
  have "edges_ok (add_block C t) k" if "k < Suc (nb C)" for k
  proof (cases "k = nb C")
    case False
    then have k: "k < nb C" using that by simp
    then have "edges_ok C k" using w by (simp add: cfg_wf_def)
    then show ?thesis using k unfolding edges_ok_def by (auto simp: sel less_SucI)
  qed (simp add: edges_ok_def sel)
  moreover have "insts_ok (add_block C t) k" if "k < Suc (nb C)" for k
  proof (cases "k = nb C")
    case False
    then have k: "k < nb C" using that by simp
    then have "insts_ok C k" using w by (simp add: cfg_wf_def)
    then show ?thesis using k unfolding insts_ok_def by (simp add: sel)
  qed (simp add: insts_ok_def sel)
  moreover have "ir_ok (add_block C t) i" if "i < ni C" for i
  proof -
    have "ir_ok C i" using w that by (simp add: cfg_wf_def)
    then show ?thesis using ao by (simp add: ir_ok_def sel less_SucI)
  qed
  ultimately show ?thesis using w by (simp add: cfg_wf_def sel)
qed


section \<open>Progress\<close>

text \<open>From \<open>C\<close> to \<open>C'\<close> only the blocks of \<open>M\<close> and new blocks got instructions.\<close>

definition upd :: "nat set \<Rightarrow> compiler \<Rightarrow> compiler \<Rightarrow> bool" where
  "upd M C C' \<longleftrightarrow> cfg_wf C' \<and> nb C \<le> nb C' \<and> ni C \<le> ni C' \<and> decls C' = decls C \<and>
     (\<forall>b < nb C. b \<notin> M \<longrightarrow> insts (blk C' b) = insts (blk C b)) \<and>
     (\<forall>i < ni C. irtype (irn C' i) = irtype (irn C i))"

lemma upd_wf: "upd M C C' \<Longrightarrow> cfg_wf C'"
  by (simp add: upd_def)

lemma upd_nb: "upd M C C' \<Longrightarrow> nb C \<le> nb C'"
  by (simp add: upd_def)

lemma upd_decls: "upd M C C' \<Longrightarrow> decls C' = decls C"
  by (simp add: upd_def)

lemma upd_refl: "cfg_wf C \<Longrightarrow> upd M C C"
  by (simp add: upd_def)

lemma upd_trans:
  assumes "upd M C D" "upd N D E"
  shows "upd (M \<union> N) C E"
  using assms unfolding upd_def by (metis Un_iff order.trans order.strict_trans2)

lemma upd_weaken: "upd M C D \<Longrightarrow> (\<And>b. b \<in> M \<Longrightarrow> b < nb C \<Longrightarrow> b \<in> N) \<Longrightarrow> upd N C D"
  unfolding upd_def by blast

lemma last_type_upd:
  assumes "cfg_wf C" "upd M C C'" "b < nb C" "b \<notin> M"
  shows "last_type C' b = last_type C b"
proof -
  have i: "insts (blk C' b) = insts (blk C b)" using assms by (simp add: upd_def)
  show ?thesis
  proof (cases "insts (blk C b) = []")
    case False
    then have "last (insts (blk C b)) < ni C" using insts_lt [OF assms(1,3)] by simp
    then show ?thesis using i assms(2) by (simp add: last_type_def upd_def)
  qed (simp add: last_type_def i)
qed

lemma upd_add_ir:
  assumes "cfg_wf C" "scur S < nb C" "sfail S < nb C" "arg_ok C t arg"
  shows "upd {scur S} C (add_ir C S t arg)" "last_type (add_ir C S t arg) (scur S) = Some t"
proof -
  note sel = add_ir_sel [OF assms(2), where t = t and arg = arg]
  show "upd {scur S} C (add_ir C S t arg)" using wf_add_ir [OF assms] by (simp add: upd_def sel)
  show "last_type (add_ir C S t arg) (scur S) = Some t" by (simp add: last_type_def sel)
qed

lemma upd_add_edge:
  assumes "cfg_wf C" "p < nb C" "q < nb C" "p \<noteq> q"
  shows "upd {} C (add_edge C p q)"
  using wf_add_edge [OF assms] by (simp add: upd_def add_edge_sel [OF assms(2-4)])

lemma upd_add_block:
  assumes "cfg_wf C"
  shows "upd {} C (add_block C t)" "last_type (add_block C t) (nb C) = None"
  using wf_add_block [OF assms, of t] by (simp_all add: upd_def add_block_sel last_type_def)

text \<open>
  A translation started in block \<open>x\<close> of \<open>C0\<close> has come to \<open>C\<close>: the blocks it has touched are closed but for
  the pending ones.
\<close>

definition touched :: "compiler \<Rightarrow> nat \<Rightarrow> nat \<Rightarrow> bool" where
  "touched C0 x b \<longleftrightarrow> b = x \<or> nb C0 \<le> b"

definition prog :: "compiler \<Rightarrow> nat \<Rightarrow> nat set \<Rightarrow> compiler \<Rightarrow> bool" where
  "prog C0 x P C \<longleftrightarrow> x < nb C0 \<and> upd {x} C0 C \<and> (\<forall>b < nb C. touched C0 x b \<and> b \<notin> P \<longrightarrow> closed_block C b)"

lemma prog_wf: "prog C0 x P C \<Longrightarrow> cfg_wf C"
  by (simp add: prog_def upd_def)

lemma prog_nb: "prog C0 x P C \<Longrightarrow> nb C0 \<le> nb C"
  by (simp add: prog_def upd_def)

lemma prog_decls: "prog C0 x P C \<Longrightarrow> length (decls C) = length (decls C0)"
  by (simp add: prog_def upd_def)

lemma prog_start: "cfg_wf C \<Longrightarrow> x < nb C \<Longrightarrow> prog C x {x} C"
  by (auto simp: prog_def upd_refl touched_def)

text \<open>A step that touches only the blocks \<open>M\<close> and leaves \<open>Q\<close> of them and of the new blocks pending.\<close>

lemma prog_step:
  assumes p: "prog C0 x P C" and u: "upd M C D" and m: "\<And>b. b \<in> M \<Longrightarrow> touched C0 x b"
    and c: "\<And>b. b < nb D \<Longrightarrow> b \<in> M \<or> nb C \<le> b \<Longrightarrow> b \<notin> Q \<Longrightarrow> closed_block D b"
  shows "prog C0 x (P - M \<union> Q) D"
proof -
  have w: "cfg_wf C" using p by (rule prog_wf)
  have "upd {x} C0 D"
  proof -
    from p have "upd {x} C0 C" by (simp add: prog_def)
    from upd_trans [OF this u] show ?thesis by (rule upd_weaken) (use m in \<open>force simp: touched_def\<close>)
  qed
  moreover have "closed_block D b" if b: "b < nb D" "touched C0 x b" "b \<notin> P - M \<union> Q" for b
  proof (cases "b \<in> M \<or> nb C \<le> b")
    case True
    then show ?thesis using c b by blast
  next
    case False
    then have b': "b < nb C" "b \<notin> M" by auto
    then have "closed_block C b" using p b by (auto simp: prog_def)
    then show ?thesis using last_type_upd [OF w u b'] by (simp add: closed_block_def)
  qed
  ultimately show ?thesis using p by (simp add: prog_def)
qed

lemma open_upd: "open_block C b \<Longrightarrow> cfg_wf C \<Longrightarrow> upd M C D \<Longrightarrow> b \<notin> M \<Longrightarrow> open_block D b"
  using last_type_upd [of C M D b] upd_nb [of M C D] by (auto simp: open_block_def)


lemma prog_mono: "prog C0 x P C \<Longrightarrow> P \<subseteq> Q \<Longrightarrow> prog C0 x Q C"
  by (auto simp: prog_def)

lemma prog_new:
  assumes "prog C0 x P C"
  shows "\<exists>D. moz_compiler_create_block C = Inr (nb C, D) \<and> nb D = Suc (nb C) \<and> prog C0 x (insert (nb C) P) D \<and>
    upd {} C D \<and> open_block D (nb C)"
proof -
  have w: "cfg_wf C" using assms by (rule prog_wf)
  have "prog C0 x (P - {} \<union> {nb C}) (add_block C BLOCK_DEFAULT)"
    by (rule prog_step [OF assms upd_add_block(1) [OF w]]) (auto simp: add_block_sel)
  then have "prog C0 x (insert (nb C) P) (add_block C BLOCK_DEFAULT)" by simp
  then show ?thesis using upd_add_block [OF w, of BLOCK_DEFAULT]
    by (simp add: moz_compiler_create_block_def create_eq add_block_sel open_block_def)
qed

lemma prog_emit:
  assumes p: "prog C0 x P C" and c: "scur S \<in> P" "touched C0 x (scur S)" "open_block C (scur S)" "sfail S < nb C"
    and a: "arg_ok C t arg"
  shows "\<exists>D. emit_ir C S t arg = Inr (D, scur S) \<and> nb D = nb C \<and> prog C0 x P D \<and> upd {scur S} C D \<and>
    last_type D (scur S) = Some t"
proof -
  let ?D = "add_ir C S t arg"
  have w: "cfg_wf C" using p by (rule prog_wf)
  have b: "scur S < nb C" using c(3) by (simp add: open_block_def)
  note u = upd_add_ir [OF w b c(4) a]
  have n: "nb ?D = nb C" using b by (rule add_ir_sel)
  have "prog C0 x (P - {scur S} \<union> {scur S}) ?D"
    by (rule prog_step [OF p u(1)]) (use c n in auto)
  moreover have "P - {scur S} \<union> {scur S} = P" using c(1) by blast
  ultimately show ?thesis using emit_eq [OF w c(3,4)] u n by simp
qed

lemma prog_link:
  assumes p: "prog C0 x P C" and c: "touched C0 x (scur S)" "open_block C (scur S)" "sfail S < nb C"
    and b: "b2 < nb C" "scur S \<noteq> b2"
  shows "\<exists>D. moz_compiler_link C S (scur S) b2 = Inr D \<and> nb D = nb C \<and> prog C0 x (P - {scur S}) D \<and> upd {scur S} C D"
proof -
  let ?A = "add_ir C S IJump (BlockArg b2)"
  let ?D = "add_edge ?A (scur S) b2"
  have w: "cfg_wf C" using p by (rule prog_wf)
  have b1: "scur S < nb C" using c(2) by (simp add: open_block_def)
  have a: "arg_ok C IJump (BlockArg b2)" using b(1) by (simp add: arg_ok_def has_fields_def)
  note n = add_ir_sel(1) [OF b1]
  note u = upd_add_ir [OF w b1 c(3) a]
  have u2: "upd {} ?A ?D" by (rule upd_add_edge) (use upd_wf [OF u(1)] b1 b n in auto)
  have ud: "upd {scur S} C ?D" using upd_trans [OF u(1) u2] by simp
  have "last_type ?D (scur S) = Some IJump" using last_type_upd [OF upd_wf [OF u(1)] u2] u(2) b1 n by simp
  then have cl: "closed_block ?D (scur S)" by (simp add: closed_block_def terminators_def)
  have nd: "nb ?D = nb C" using b1 b n by (simp add: add_edge_sel)
  have "prog C0 x (P - {scur S} \<union> {}) ?D"
    by (rule prog_step [OF p ud]) (use c nd cl in auto)
  moreover have "moz_compiler_link C S (scur S) b2 = Inr ?D"
  proof -
    have "moz_compiler_link C S (scur S) b2 =
        rbind (rbind (ir_alloc C S IJump (BlockArg b2)) (\<lambda>(i, C). moz_compiler_add C S i)) (\<lambda>C. on_store C (\<lambda>s. block_link s (scur S) b2))"
      using b(2) unfolding moz_compiler_link_def by (auto simp: rbind_assoc intro!: rbind_cong split: prod.splits)
    also have "\<dots> = on_store ?A (\<lambda>s. block_link s (scur S) b2)" using add_eq [OF w c(2,3)] by simp
    also have "\<dots> = Inr ?D" by (rule link_edge_eq) (use b1 b n in auto)
    finally show ?thesis .
  qed
  ultimately show ?thesis using ud nd by simp
qed

text \<open>What a translation promises, and when it can be used.\<close>

definition good :: "compiler \<Rightarrow> moz_state \<Rightarrow> (compiler \<times> block_ptr) res \<Rightarrow> bool" where
  "good C S r \<longleftrightarrow> (\<exists>D cur. r = Inr (D, cur) \<and> prog C (scur S) {cur} D \<and> open_block D cur \<and> touched C (scur S) cur)"

definition ready :: "compiler \<Rightarrow> moz_state \<Rightarrow> bool" where
  "ready C S \<longleftrightarrow> cfg_wf C \<and> open_block C (scur S) \<and> sfail S < nb C"

definition promises :: "to_ir \<Rightarrow> nat \<Rightarrow> expr \<Rightarrow> bool" where
  "promises tr n e \<longleftrightarrow> (\<forall>C S. ready C S \<and> length (decls C) = n \<longrightarrow> good C S (tr C S e))"

lemma goodI:
  "\<lbrakk>r = Inr (D, cur); prog C (scur S) P D; P \<subseteq> {cur}; open_block D cur; touched C (scur S) cur\<rbrakk> \<Longrightarrow> good C S r"
  unfolding good_def using prog_mono by blast

lemma prog_tr:
  assumes p: "prog C0 x P C" and g: "good C S r" and c: "touched C0 x (scur S)"
  shows "\<exists>D cur. r = Inr (D, cur) \<and> nb C \<le> nb D \<and> prog C0 x (P - {scur S} \<union> {cur}) D \<and> upd {scur S} C D \<and>
    open_block D cur \<and> touched C0 x cur \<and> (cur = scur S \<or> nb C \<le> cur)"
proof -
  from g obtain D cur where g: "r = Inr (D, cur)" "prog C (scur S) {cur} D" "open_block D cur" "touched C (scur S) cur"
    by (auto simp: good_def)
  then have u: "upd {scur S} C D" by (simp add: prog_def)
  have cl: "closed_block D b" if "b < nb D" "b \<in> {scur S} \<or> nb C \<le> b" "b \<notin> {cur}" for b
    using g(2) that by (auto simp: prog_def touched_def)
  have "prog C0 x (P - {scur S} \<union> {cur}) D"
    by (rule prog_step [OF p u _ cl]) (use c in auto)
  moreover have "touched C0 x cur" using g(4) c prog_nb [OF p] by (auto simp: touched_def)
  moreover have "cur = scur S \<or> nb C \<le> cur" using g(4) by (simp add: touched_def)
  ultimately show ?thesis using g u upd_nb [OF u] by blast
qed

text \<open>A part in a block of its own, and the jump to the block that follows.\<close>

lemma prog_part:
  assumes p: "prog C0 x P C" and e: "promises tr n e" "length (decls C0) = n"
    and c: "touched C0 x (scur S)" "open_block C (scur S)" "sfail S < nb C" and nx: "nx < nb C" "nx \<noteq> scur S"
  shows "\<exists>D cur E. tr C S e = Inr (D, cur) \<and> moz_compiler_link D (S\<lparr>scur := cur\<rparr>) cur nx = Inr E \<and> nb C \<le> nb E \<and>
    prog C0 x (P - {scur S}) E \<and> upd {scur S} C E"
proof -
  have "good C S (tr C S e)"
    using e c prog_wf [OF p] prog_decls [OF p] by (simp add: promises_def ready_def)
  from prog_tr [OF p this c(1)] obtain D cur where
    d: "tr C S e = Inr (D, cur)" "nb C \<le> nb D" "prog C0 x (P - {scur S} \<union> {cur}) D" "upd {scur S} C D" "open_block D cur"
      "touched C0 x cur" "cur = scur S \<or> nb C \<le> cur" by blast
  let ?S = "S\<lparr>scur := cur\<rparr>"
  have "cur \<noteq> nx" "nx < nb D" "sfail ?S < nb D" using d(2,7) nx c(3) by auto
  with prog_link [of C0 x _ D ?S nx] d obtain E where
    l: "moz_compiler_link D ?S cur nx = Inr E" "nb E = nb D" "prog C0 x (P - {scur S} \<union> {cur} - {cur}) E" "upd {cur} D E"
    by force
  have "prog C0 x (P - {scur S}) E" by (rule prog_mono [OF l(3)]) blast
  moreover have "upd {scur S} C E"
    by (rule upd_weaken [OF upd_trans [OF d(4) l(4)]]) (use d(7) in auto)
  ultimately show ?thesis using d(1,2) l(1,2) by auto
qed

lemma prog_blocks:
  assumes "prog C0 x P C"
  shows "\<exists>D. create_blocks C n = Inr ([nb C..<nb C + n], D) \<and> nb D = nb C + n \<and> prog C0 x (P \<union> {nb C..<nb C + n}) D \<and>
    upd {} C D \<and> (\<forall>b \<in> {nb C..<nb C + n}. open_block D b)"
proof (induction n)
  case 0
  then show ?case using assms upd_refl [OF prog_wf [OF assms]] by (simp add: create_blocks_def)
next
  case (Suc n)
  then obtain D where d: "create_blocks C n = Inr ([nb C..<nb C + n], D)" "nb D = nb C + n"
    "prog C0 x (P \<union> {nb C..<nb C + n}) D" "upd {} C D" "\<forall>b \<in> {nb C..<nb C + n}. open_block D b" by blast
  from prog_new [OF d(3)] obtain E where e: "moz_compiler_create_block D = Inr (nb D, E)" "nb E = Suc (nb D)"
    "prog C0 x (insert (nb D) (P \<union> {nb C..<nb C + n})) E" "upd {} D E" "open_block E (nb D)" by blast
  have "create_blocks C (Suc n) = Inr ([nb C..<nb C + Suc n], E)"
    using d(1,2) e(1) by (simp add: create_blocks_def rfold_append)
  moreover have "insert (nb D) (P \<union> {nb C..<nb C + n}) = P \<union> {nb C..<nb C + Suc n}" using d(2) by auto
  moreover have "\<forall>b \<in> {nb C..<nb C + Suc n}. open_block E b"
    using d(5) e(5) open_upd [OF _ prog_wf [OF d(3)] e(4)] d(2) by (auto simp: less_Suc_eq)
  ultimately show ?case using d(2) e(2,3) upd_trans [OF d(4) e(4)] by auto
qed


section \<open>Constants\<close>

text \<open>Only constants are added.\<close>

definition grown :: "compiler \<Rightarrow> compiler \<Rightarrow> bool" where
  "grown C D \<longleftrightarrow> cstore D = cstore C \<and> decls D = decls C \<and> blocks D = blocks C \<and> length (cstrs C) \<le> length (cstrs D) \<and>
     length (ctags C) \<le> length (ctags D) \<and> length (csets C) \<le> length (csets D)"

lemma grown_upd:
  assumes "cfg_wf C" "grown C D"
  shows "upd {} C D"
proof -
  have s: "cstore D = cstore C" "decls D = decls C" "blocks D = blocks C" using assms(2) by (simp_all add: grown_def)
  have "pool C t \<le> pool D t" for t using assms(2) by (intro pool_mono) (simp_all add: grown_def)
  then have "arg_ok D t a" if "arg_ok C t a" for t a using arg_ok_mono [OF that] by (simp add: s)
  then have "cfg_wf D" using assms(1) unfolding cfg_wf_def edges_ok_def insts_ok_def ir_ok_def s by blast
  then show ?thesis by (simp add: upd_def s)
qed

lemma find_index_bound: "find_index p xs i = Some j \<Longrightarrow> i \<le> j \<and> j < i + length xs \<and> p (xs ! (j - i))"
  by (induction xs arbitrary: i) (auto split: if_splits simp: nth_Cons' Suc_diff_le dest!: Suc_leD, fastforce+)

lemma unat_of_nat_u16_le: "i < n \<Longrightarrow> unat (of_nat i :: u16) < n"
  by (simp add: unsigned_of_nat take_bit_eq_mod order.strict_trans1 [OF mod_less_eq_dividend])

lemma add_string_id_bound:
  "moz_compiler_add_string_id ary name = (i, ary') \<Longrightarrow> i < length ary' \<and> length ary \<le> length ary'"
  by (auto simp: moz_compiler_add_string_id_def split: option.splits dest: find_index_bound)

lemma add_constant:
  "moz_compiler_add_string C str = (i, D) \<Longrightarrow> grown C D \<and> unat i < length (cstrs D)"
  "moz_compiler_add_tag C str = (i, D) \<Longrightarrow> grown C D \<and> unat i < length (ctags D)"
  "moz_compiler_add_set C b = (i, D) \<Longrightarrow> grown C D \<and> unat i < length (csets D)"
  by (auto simp: moz_compiler_add_string_def moz_compiler_add_tag_def moz_compiler_add_set_def grown_def
      split: prod.splits option.splits dest!: add_string_id_bound find_index_bound intro: unat_of_nat_u16_le)

section \<open>The translations\<close>

lemma good_emit:
  assumes "ready C S" "arg_ok C t arg" "t \<noteq> IJump"
  shows "good C S (emit_ir C S t arg)"
proof -
  have r: "cfg_wf C" "open_block C (scur S)" "sfail S < nb C" using assms(1) by (auto simp: ready_def)
  then have b: "scur S < nb C" by (simp add: open_block_def)
  from prog_emit [OF prog_start [OF r(1) b], of S t arg] r assms(2) obtain D where
    d: "emit_ir C S t arg = Inr (D, scur S)" "nb D = nb C" "prog C (scur S) {scur S} D" "last_type D (scur S) = Some t"
    by (auto simp: touched_def)
  then show ?thesis using assms(3) b by (intro goodI [OF d(1,3)]) (auto simp: open_block_def touched_def)
qed

lemma good_emit_id:
  assumes r: "ready C S" and g: "grown C D" "unat i < pool D t" and t: "has_fields t (IdArg i)"
  shows "good C S (emit_id C S t (i, D))"
proof -
  have w: "cfg_wf C" "cfg_wf D" using r g grown_upd [of C D] upd_wf by (auto simp: ready_def)
  have st: "cstore D = cstore C" using g(1) by (simp add: grown_def)
  have "open_block D b \<longleftrightarrow> open_block C b" for b by (simp add: open_block_def last_type_def st)
  then have "ready D S" using r w(2) st by (simp add: ready_def)
  moreover have "arg_ok D t (IdArg i)" using g(2) t by (simp add: arg_ok_def)
  moreover have "t \<noteq> IJump" using t by (auto simp: has_fields_def)
  ultimately have "good D S (emit_ir D S t (IdArg i))" by (rule good_emit)
  moreover have "upd M C E" if "upd M D E" for M E using upd_trans [OF grown_upd [OF w(1) g(1)] that] by simp
  ultimately show ?thesis by (auto simp: good_def emit_id_def prog_def touched_def st)
qed

text \<open>Parts one after another, each in its own block \<open>bs i\<close> with handler \<open>fl i\<close> and a jump to \<open>nx i\<close>.\<close>

lemma parts_loop:
  assumes step: "\<And>i x C st. (i, x) \<in> set (enumerate k xs) \<Longrightarrow> f (C, st) (i, x) =
      rbind (tr C (mk st i) x) (\<lambda>(C, cur). rbind (moz_compiler_link C ((mk st i)\<lparr>scur := cur\<rparr>) cur (nx i)) (\<lambda>C.
        Inr (C, (mk st i)\<lparr>scur := cur\<rparr>)))"
    and mk: "\<And>st i. scur (mk st i) = bs i \<and> sfail (mk st i) = fl i \<and> snext (mk st i) = sn i"
    and e: "\<And>x. x \<in> set xs \<Longrightarrow> promises tr n x" "length (decls C0) = n"
    and p: "prog C0 x0 P C"
    and b: "\<And>i. k \<le> i \<Longrightarrow> i < k + length xs \<Longrightarrow>
      touched C0 x0 (bs i) \<and> open_block C (bs i) \<and> fl i < nb C \<and> nx i < nb C \<and> nx i \<noteq> bs i"
    and d: "inj_on bs {k..<k + length xs}"
  shows "\<exists>D st'. rfold f (C, st) (enumerate k xs) = Inr (D, st') \<and> nb C \<le> nb D \<and>
    prog C0 x0 (P - bs ` {k..<k + length xs}) D \<and> upd (bs ` {k..<k + length xs}) C D \<and>
    (xs \<noteq> [] \<longrightarrow> snext st' = sn (k + length xs - 1))"
  using assms
proof (induction xs arbitrary: k C st P)
  case Nil
  then show ?case using upd_refl [OF prog_wf [OF Nil(5)]] by simp
next
  case (Cons a xs)
  note step = Cons.prems(1) and mk = Cons.prems(2) and e = Cons.prems(3,4) and p = Cons.prems(5) and b = Cons.prems(6)
  note d = Cons.prems(7)
  have bk: "touched C0 x0 (bs k)" "open_block C (bs k)" "fl k < nb C" "nx k < nb C" "nx k \<noteq> bs k" using b [of k] by auto
  have "promises tr n a" using e(1) by simp
  from prog_part [OF p this e(2), of "mk st k" "nx k"] bk mk [of st k] obtain D cur E where
    E: "tr C (mk st k) a = Inr (D, cur)" "moz_compiler_link D ((mk st k)\<lparr>scur := cur\<rparr>) cur (nx k) = Inr E" "nb C \<le> nb E"
      "prog C0 x0 (P - {bs k}) E" "upd {bs k} C E" by auto
  let ?st = "(mk st k)\<lparr>scur := cur\<rparr>"
  have f: "f (C, st) (k, a) = Inr (E, ?st)" using step [of k a C st] E(1,2) by simp
  have w: "cfg_wf C" using p by (rule prog_wf)
  have b': "touched C0 x0 (bs i) \<and> open_block E (bs i) \<and> fl i < nb E \<and> nx i < nb E \<and> nx i \<noteq> bs i"
    if i: "Suc k \<le> i" "i < Suc k + length xs" for i
  proof -
    have "bs i \<noteq> bs k" using d i inj_onD [of bs _ i k] by fastforce
    moreover have "touched C0 x0 (bs i) \<and> open_block C (bs i) \<and> fl i < nb C \<and> nx i < nb C \<and> nx i \<noteq> bs i" using b [of i] i by simp
    ultimately show ?thesis using open_upd [OF _ w E(5), of "bs i"] E(3) by auto
  qed
  have d': "inj_on bs {Suc k..<Suc k + length xs}" by (rule inj_on_subset [OF d]) auto
  have st': "f (C, st) (i, x) =
      rbind (tr C (mk st i) x) (\<lambda>(C, cur). rbind (moz_compiler_link C ((mk st i)\<lparr>scur := cur\<rparr>) cur (nx i)) (\<lambda>C.
        Inr (C, (mk st i)\<lparr>scur := cur\<rparr>)))" if "(i, x) \<in> set (enumerate (Suc k) xs)" for i x C st
    using step [of i x C st] that by simp
  have e1: "promises tr n x" if "x \<in> set xs" for x using e(1) that by simp
  from Cons.IH [where k = "Suc k" and C = E and P = "P - {bs k}" and st = ?st, OF st' mk e1 e(2) E(4) b' d'] obtain F st' where
    F: "rfold f (E, ?st) (enumerate (Suc k) xs) = Inr (F, st')" "nb E \<le> nb F"
      "prog C0 x0 (P - {bs k} - bs ` {Suc k..<Suc k + length xs}) F" "upd (bs ` {Suc k..<Suc k + length xs}) E F"
      "xs \<noteq> [] \<longrightarrow> snext st' = sn (Suc k + length xs - 1)" by blast
  have r: "{k..<k + length (a # xs)} = insert k {Suc k..<Suc k + length xs}" by auto
  have "rfold f (C, st) (enumerate k (a # xs)) = Inr (F, st')" using f F(1) by simp
  moreover have "P - {bs k} - bs ` {Suc k..<Suc k + length xs} = P - bs ` {k..<k + length (a # xs)}" unfolding r by auto
  moreover have "upd (bs ` {k..<k + length (a # xs)}) C F"
    by (rule upd_weaken [OF upd_trans [OF E(5) F(4)]]) (auto simp: r)
  moreover have "snext st' = sn (k + length (a # xs) - 1)"
  proof (cases "xs = []")
    case True
    then show ?thesis using F(1) mk [of st k] by auto
  qed (use F(5) in simp)
  ultimately show ?case using F(2,3) E(3) by auto
qed


lemma readyD: "ready C S \<Longrightarrow> cfg_wf C \<and> scur S < nb C \<and> open_block C (scur S) \<and> sfail S < nb C"
  by (auto simp: ready_def open_block_def)

lemma prog_ready: "ready C S \<Longrightarrow> prog C (scur S) {scur S} C"
  using readyD prog_start by blast

lemma open_range: "open_block C b \<Longrightarrow> b < nb C"
  by (simp add: open_block_def)

lemma good_Choice:
  assumes r: "ready C S" and e: "\<And>x. x \<in> set es \<Longrightarrow> promises tr (length (decls C)) x" and ne: "es \<noteq> []"
  shows "good C S (moz_Choice_to_ir tr C S es)"
proof -
  let ?n = "length es" and ?x = "scur S"
  let ?N = "{nb C..<nb C + ?n}"
  note r' = readyD [OF r] and p0 = prog_ready [OF r]
  from prog_blocks [OF p0, of ?n] obtain D where D: "create_blocks C ?n = Inr ([nb C..<nb C + ?n], D)" "nb D = nb C + ?n"
    "prog C ?x ({?x} \<union> ?N) D" "upd {} C D" "\<forall>b \<in> ?N. open_block D b" by blast
  from prog_new [OF D(3)] obtain E where E: "moz_compiler_create_block D = Inr (nb D, E)" "nb E = Suc (nb D)"
    "prog C ?x (insert (nb D) ({?x} \<union> ?N)) E" "upd {} D E" "open_block E (nb D)" by blast
  have ox: "open_block E ?x" using open_upd [OF open_upd] r' D(4) E(4) prog_wf [OF D(3)] by blast
  have oN: "open_block E b" if "b \<in> ?N" for b using that D(5) open_upd [OF _ prog_wf [OF D(3)] E(4)] by blast
  define L where "L = [nb C..<nb C + ?n] @ [sfail S]"
  have Ln: "L ! i = nb C + i" if "i < ?n" for i using that by (simp add: L_def nth_append)
  have L_last: "L ! ?n = sfail S" by (simp add: L_def nth_append)
  have n0: "0 < ?n" using ne by simp
  have l0: "nb C < nb E" "?x \<noteq> nb C" using n0 D(2) E(2) r' by auto
  from prog_link [OF E(3), of S "nb C"] ox r' l0 E(2) D(2) obtain F where
    F: "moz_compiler_link E S ?x (nb C) = Inr F" "nb F = nb E" "prog C ?x (insert (nb D) ({?x} \<union> ?N) - {?x}) F" "upd {?x} E F"
    by (auto simp: touched_def)
  have oF: "open_block F b" if "b \<in> ?N" for b
    using that oN open_upd [OF _ prog_wf [OF E(3)] F(4)] r' by auto
  have xF: "open_block F (nb D)" using E(5) open_upd [OF _ prog_wf [OF E(3)] F(4)] r' D(2) by auto
  let ?mk = "\<lambda>st i. moz_compiler_set_label (st\<lparr>snext := nb D, sfail := L ! (i + 1)\<rparr>) (L ! i)"
  let ?f = "\<lambda>(C, state) (i, x).
            rbind (aread L (i + 1)) (\<lambda>f. rbind (aread L i) (\<lambda>b.
            let state = moz_compiler_set_label (state\<lparr>snext := nb D, sfail := f\<rparr>) b
            in rbind (tr C state x) (\<lambda>(C, cur).
               let state = state\<lparr>scur := cur\<rparr>
               in rbind (moz_compiler_link C state (scur state) (snext state)) (\<lambda>C. Inr (C, state)))))"
  have "\<exists>G st'. rfold ?f (F, S) (enumerate 0 es) = Inr (G, st') \<and> nb F \<le> nb G \<and>
    prog C ?x (insert (nb D) ({?x} \<union> ?N) - {?x} - (\<lambda>i. L ! i) ` {0..<0 + ?n}) G \<and>
    upd ((\<lambda>i. L ! i) ` {0..<0 + ?n}) F G \<and> (es \<noteq> [] \<longrightarrow> snext st' = nb D)"
  proof (rule parts_loop [where tr = tr and mk = ?mk and fl = "\<lambda>i. L ! (i + 1)" and nx = "\<lambda>_. nb D" and sn = "\<lambda>_. nb D"
        and n = "length (decls C)"])
    show "?f (C, st) (i, x) = rbind (tr C (?mk st i) x) (\<lambda>(C, cur).
        rbind (moz_compiler_link C ((?mk st i)\<lparr>scur := cur\<rparr>) cur (nb D)) (\<lambda>C. Inr (C, (?mk st i)\<lparr>scur := cur\<rparr>)))"
      if "(i, x) \<in> set (enumerate 0 es)" for i x C st
      using that by (auto simp: in_set_enumerate_eq L_def moz_compiler_set_label_def Let_def intro!: rbind_cong split: prod.splits)
    show "touched C ?x (L ! i) \<and> open_block F (L ! i) \<and> L ! (i + 1) < nb F \<and> nb D < nb F \<and> nb D \<noteq> L ! i"
      if i: "0 \<le> i" "i < 0 + ?n" for i
    proof -
      have "L ! (i + 1) < nb F"
        using i Ln [of "i + 1"] L_last F(2) E(2) D(2) r' by (cases "i + 1 = ?n") auto
      then show ?thesis using i Ln [of i] oF [of "nb C + i"] F(2) E(2) D(2) by (simp add: touched_def)
    qed
    show "inj_on (\<lambda>i. L ! i) {0..<0 + ?n}" by (rule inj_onI) (use Ln in auto)
  qed (use e F(3) in \<open>auto simp: moz_compiler_set_label_def\<close>)
  then obtain G st' where G: "rfold ?f (F, S) (enumerate 0 es) = Inr (G, st')" "nb F \<le> nb G"
    "prog C ?x (insert (nb D) ({?x} \<union> ?N) - {?x} - (\<lambda>i. L ! i) ` {0..<?n}) G" "upd ((\<lambda>i. L ! i) ` {0..<?n}) F G" "snext st' = nb D"
    using ne by auto
  have img: "(\<lambda>i. L ! i) ` {0..<?n} = ?N"
  proof -
    have "(\<lambda>i. L ! i) ` {0..<?n} = (\<lambda>i. nb C + i) ` {0..<?n}" using Ln by (intro image_cong) auto
    then show ?thesis by (simp add: image_add_atLeastLessThan add.commute)
  qed
  have "aread L 0 = Inr (L ! 0)" "L ! 0 = nb C" using Ln [OF n0] by (simp_all add: L_def)
  then have "moz_Choice_to_ir tr C S es = Inr (G, nb D)"
    using D(1) E(1) F(1) G(1,5) by (simp add: moz_Choice_to_ir_def L_def [symmetric])
  moreover have "open_block G (nb D)"
    using xF open_upd [OF _ prog_wf [OF F(3)] G(4), of "nb D"] img D(2) by auto
  ultimately show ?thesis
    by (intro goodI [OF _ G(3)]) (auto simp: img touched_def D(2))
qed


lemma good_Sequence:
  assumes r: "ready C S" and e: "\<And>x. x \<in> set es \<Longrightarrow> promises tr (length (decls C)) x"
  shows "good C S (moz_Sequence_to_ir tr C S es)"
proof -
  let ?n = "length es" and ?x = "scur S"
  note r' = readyD [OF r] and p0 = prog_ready [OF r]
  from prog_new [OF p0] obtain D where D: "moz_compiler_create_block C = Inr (nb C, D)" "nb D = Suc (nb C)"
    "prog C ?x {nb C, ?x} D" "upd {} C D" "open_block D (nb C)" by auto
  let ?N = "{nb D..<nb D + ?n}"
  from prog_blocks [OF D(3), of ?n] obtain E where E: "create_blocks D ?n = Inr ([nb D..<nb D + ?n], E)" "nb E = nb D + ?n"
    "prog C ?x ({nb C, ?x} \<union> ?N) E" "upd {} D E" "\<forall>b \<in> ?N. open_block E b" by blast
  define L where "L = [nb D..<nb D + ?n]"
  let ?f = "\<lambda>(C, state) (i, x).
         rbind (aread L i) (\<lambda>b. rbind (moz_compiler_link C state (scur state) b) (\<lambda>C.
         let state = moz_compiler_set_label state b
         in rbind (tr C state x) (\<lambda>(C, cur). Inr (C, state\<lparr>scur := cur\<rparr>))))"
  have loop: "\<exists>G st'. rfold ?f (F, st) (enumerate k xs) = Inr (G, st') \<and> nb F \<le> nb G \<and> open_block G (scur st') \<and>
      touched C ?x (scur st') \<and> scur st' \<noteq> nb C \<and> snext st' = nb C \<and> sfail st' = sfail S \<and> open_block G (nb C) \<and>
      prog C ?x {scur st', nb C} G"
    if "set xs \<subseteq> set es" "k + length xs = ?n" "prog C ?x ({scur st, nb C} \<union> {nb D + k..<nb D + ?n}) F"
      "open_block F (scur st)" "touched C ?x (scur st)" "scur st \<noteq> nb C" "scur st \<notin> {nb D + k..<nb D + ?n}"
      "open_block F (nb C)" "\<forall>b \<in> {nb D + k..<nb D + ?n}. open_block F b" "snext st = nb C" "sfail st = sfail S"
    for xs k F st
    using that
  proof (induction xs arbitrary: k F st)
    case Nil
    then show ?case by simp
  next
    case (Cons a xs)
    note p = Cons.prems
    let ?b = "nb D + k"
    have b: "?b \<in> {nb D + k..<nb D + ?n}" using p(2) by simp
    have sf: "sfail st < nb F" using r' prog_nb [OF p(3)] p(11) by simp
    have ob: "open_block F ?b" using p(9) b by blast
    have neq: "scur st \<noteq> ?b" "?b \<noteq> nb C" using p(7) b D(2) by auto
    from prog_link [OF p(3,5,4) sf open_range [OF ob] neq(1)] obtain G where
      G: "moz_compiler_link F st (scur st) ?b = Inr G" "nb G = nb F"
        "prog C ?x ({scur st, nb C} \<union> {nb D + k..<nb D + ?n} - {scur st}) G" "upd {scur st} F G" by blast
    have w: "cfg_wf F" using prog_wf [OF p(3)] .
    let ?st = "moz_compiler_set_label st ?b"
    have sel: "scur ?st = ?b" "sfail ?st = sfail S" "snext ?st = nb C" using p(10,11) by (simp_all add: moz_compiler_set_label_def)
    have tb: "touched C ?x ?b" using D(2) by (simp add: touched_def)
    have "open_block G ?b" using open_upd [OF ob w G(4)] neq by simp
    then have "ready G ?st" using upd_wf [OF G(4)] sel sf G(2) p(11) by (simp add: ready_def)
    moreover have "promises tr (length (decls C)) a" using e p(1) by simp
    ultimately have "good G ?st (tr G ?st a)" using prog_decls [OF G(3)] by (simp add: promises_def)
    from prog_tr [OF G(3) this] tb sel obtain H cur where
      H: "tr G ?st a = Inr (H, cur)" "nb G \<le> nb H"
        "prog C ?x ({scur st, nb C} \<union> {nb D + k..<nb D + ?n} - {scur st} - {?b} \<union> {cur}) H" "upd {?b} G H" "open_block H cur"
        "touched C ?x cur" "cur = ?b \<or> nb G \<le> cur" by auto
    have old: "open_block H j" if "open_block F j" "j \<noteq> scur st" "j \<noteq> ?b" for j
      using open_upd [OF open_upd [OF that(1) w G(4)] prog_wf [OF G(3)] H(4)] that by simp
    let ?st2 = "?st\<lparr>scur := cur\<rparr>"
    have "?f (F, st) (k, a) = Inr (H, ?st2)"
      using G(1) H(1) b by (simp add: L_def Let_def)
    moreover have "\<exists>G st'. rfold ?f (H, ?st2) (enumerate (Suc k) xs) = Inr (G, st') \<and> nb H \<le> nb G \<and> open_block G (scur st') \<and>
      touched C ?x (scur st') \<and> scur st' \<noteq> nb C \<and> snext st' = nb C \<and> sfail st' = sfail S \<and> open_block G (nb C) \<and>
      prog C ?x {scur st', nb C} G"
    proof (rule Cons.IH)
      have r: "{nb D + k..<nb D + ?n} = insert ?b {nb D + Suc k..<nb D + ?n}" using p(2) by auto
      show "prog C ?x ({scur ?st2, nb C} \<union> {nb D + Suc k..<nb D + ?n}) H"
        by (rule prog_mono [OF H(3)]) (auto simp: r)
      show "scur ?st2 \<noteq> nb C" using H(7) G(2) neq(2) open_range [OF p(8)] by auto
      show "scur ?st2 \<notin> {nb D + Suc k..<nb D + ?n}"
        using H(7) p(9) open_range G(2) by (auto simp: Ball_def) (meson leD le_trans nat_le_linear not_less open_range Suc_leD less_Suc_eq_le)
      show "open_block H (nb C)" using old [OF p(8)] p(6) neq by auto
      show "\<forall>b \<in> {nb D + Suc k..<nb D + ?n}. open_block H b" using old p(7,9) by auto
    qed (use p H(5,6) sel in auto)
    ultimately show ?case using H(2) G(2) by auto
  qed
  have ox: "open_block E ?x" using open_upd [OF open_upd] r' D(4) E(4) prog_wf [OF D(3)] by blast
  have oN: "open_block E (nb C)" using D(5) open_upd [OF _ prog_wf [OF D(3)] E(4)] by blast
  have s: "{?x, nb C} \<union> {nb D + 0..<nb D + ?n} = {nb C, ?x} \<union> ?N" by auto
  from loop [of es 0 "S\<lparr>snext := nb C\<rparr>" E] E ox oN r' D(2) s obtain G st' where
    G: "rfold ?f (E, S\<lparr>snext := nb C\<rparr>) (enumerate 0 es) = Inr (G, st')" "nb E \<le> nb G" "open_block G (scur st')"
      "touched C ?x (scur st')" "scur st' \<noteq> nb C" "snext st' = nb C" "sfail st' = sfail S" "open_block G (nb C)"
      "prog C ?x {scur st', nb C} G" by (auto simp: touched_def)
  have "sfail st' < nb G" using r' prog_nb [OF G(9)] G(7) by simp
  from prog_link [OF G(9,4,3) this open_range [OF G(8)] G(5)] obtain H where
    H: "moz_compiler_link G st' (scur st') (nb C) = Inr H" "prog C ?x ({scur st', nb C} - {scur st'}) H" "upd {scur st'} G H" by blast
  have "moz_Sequence_to_ir tr C S es = Inr (H, nb C)"
    using D(1) E(1) G(1,6) H(1) by (simp add: moz_Sequence_to_ir_def L_def)
  then show ?thesis
    by (rule goodI [OF _ H(2)]) (use open_upd [OF G(8) prog_wf [OF G(9)] H(3)] G(5) in \<open>auto simp: touched_def\<close>)
qed


lemma set_label_sel [simp]:
  "scur (moz_compiler_set_label S b) = b" "snext (moz_compiler_set_label S b) = snext S"
  "sfail (moz_compiler_set_label S b) = sfail S" "shead (moz_compiler_set_label S b) = shead S"
  by (simp_all add: moz_compiler_set_label_def)

text \<open>\<open>And\<close> and \<open>Not\<close> begin alike: three new blocks, a jump to the first, and the position is saved there.\<close>

lemma save_block:
  assumes r: "ready C S"
  shows "\<exists>D E F G. moz_compiler_create_block C = Inr (nb C, D) \<and> nb D = nb C + 1 \<and>
    moz_compiler_create_block D = Inr (nb D, E) \<and> moz_compiler_create_block E = Inr (nb D + 1, F) \<and>
    moz_compiler_link F S (scur S) (nb C) = Inr G \<and> nb G = nb C + 3 \<and>
    prog C (scur S) {nb C, nb C + 1, nb C + 2} G \<and> upd {scur S} C G \<and>
    open_block G (nb C) \<and> open_block G (nb C + 1) \<and> open_block G (nb C + 2)"
proof -
  let ?x = "scur S"
  note r' = readyD [OF r] and p0 = prog_ready [OF r]
  from prog_new [OF p0] obtain D where D: "moz_compiler_create_block C = Inr (nb C, D)" "nb D = Suc (nb C)"
    "prog C ?x {nb C, ?x} D" "upd {} C D" "open_block D (nb C)" by blast
  from prog_new [OF D(3)] obtain E where E: "moz_compiler_create_block D = Inr (nb D, E)" "nb E = Suc (nb D)"
    "prog C ?x {nb D, nb C, ?x} E" "upd {} D E" "open_block E (nb D)" by blast
  from prog_new [OF E(3)] obtain F where F: "moz_compiler_create_block E = Inr (nb E, F)" "nb F = Suc (nb E)"
    "prog C ?x {nb E, nb D, nb C, ?x} F" "upd {} E F" "open_block F (nb E)" by blast
  have w: "cfg_wf D" "cfg_wf E" "cfg_wf F" using D(3) E(3) F(3) prog_wf by blast+
  have o: "open_block F (nb C)" "open_block F (nb D)" "open_block F ?x"
    using open_upd [OF open_upd [OF D(5) w(1) E(4)] w(2) F(4)] open_upd [OF E(5) w(2) F(4)]
      open_upd [OF open_upd [OF open_upd [of C ?x] w(1) E(4)] w(2) F(4)] r' D(4) by auto
  from prog_link [OF F(3), of S "nb C"] o r' F(2) E(2) D(2) obtain G where
    G: "moz_compiler_link F S ?x (nb C) = Inr G" "nb G = nb F" "prog C ?x ({nb E, nb D, nb C, ?x} - {?x}) G" "upd {?x} F G"
    by (auto simp: touched_def)
  have "open_block G b" if "open_block F b" "b \<noteq> ?x" for b using open_upd [OF that(1) w(3) G(4)] that(2) by simp
  then have "open_block G (nb C)" "open_block G (nb D)" "open_block G (nb E)" using o F(5) r' D(2) E(2) by auto
  moreover have "upd {?x} C G" using upd_trans [OF upd_trans [OF upd_trans [OF D(4) E(4)] F(4)] G(4)] by simp
  moreover have "prog C ?x {nb C, nb C + 1, nb C + 2} G" by (rule prog_mono [OF G(3)]) (auto simp: D(2) E(2))
  ultimately show ?thesis using D(1,2) E(1,2) F(1,2) G(1,2) by auto
qed

lemma arg_ok_NoArg: "has_fields t NoArg \<Longrightarrow> arg_ok C t NoArg"
  by (simp add: arg_ok_def)

lemma good_And:
  assumes r: "ready C S" and e: "promises tr (length (decls C)) e"
  shows "good C S (moz_And_to_ir tr C S e)"
proof -
  let ?x = "scur S" and ?h = "nb C" and ?n = "nb C + 1" and ?f = "nb C + 2"
  note r' = readyD [OF r]
  from save_block [OF r] obtain D E F G where
    B: "moz_compiler_create_block C = Inr (?h, D)" "nb D = ?n" "moz_compiler_create_block D = Inr (nb D, E)"
      "moz_compiler_create_block E = Inr (nb D + 1, F)" "moz_compiler_link F S ?x ?h = Inr G" and
    G: "nb G = nb C + 3" "prog C ?x {?h, ?n, ?f} G" "upd {?x} C G" "open_block G ?h" "open_block G ?n" "open_block G ?f" by blast
  let ?st = "moz_compiler_set_label (S\<lparr>snext := ?n, sfail := ?f\<rparr>) ?h"
  have sel: "scur ?st = ?h" "sfail ?st = ?f" "snext ?st = ?n" by (simp_all add: moz_compiler_set_label_def)
  from prog_emit [OF G(2), of ?st IPStore NoArg] G(1,4) obtain H where
    H: "emit_ir G ?st IPStore NoArg = Inr (H, ?h)" "nb H = nb G" "prog C ?x {?h, ?n, ?f} H" "upd {?h} G H"
      "last_type H ?h = Some IPStore" by (auto simp: sel touched_def arg_ok_NoArg has_fields_def)
  have oH: "open_block H ?n" "open_block H ?f" "open_block H ?h"
    using open_upd [OF G(5) prog_wf [OF G(2)] H(4)] open_upd [OF G(6) prog_wf [OF G(2)] H(4)] H(2,5) G(1)
    by (simp_all add: open_block_def)
  from prog_part [OF H(3) e refl, of ?st ?n] oH H(2) G(1) obtain I cur J where
    I: "tr H ?st e = Inr (I, cur)" "moz_compiler_link I (?st\<lparr>scur := cur\<rparr>) cur ?n = Inr J" "nb H \<le> nb J"
      "prog C ?x ({?h, ?n, ?f} - {?h}) J" "upd {?h} H J" by (auto simp: sel touched_def)
  have oJ: "open_block J ?n" "open_block J ?f"
    using open_upd [OF oH(1) prog_wf [OF H(3)] I(5)] open_upd [OF oH(2) prog_wf [OF H(3)] I(5)] by simp_all
  let ?s1 = "moz_compiler_set_label (?st\<lparr>scur := cur\<rparr>) ?n"
  have sel1: "scur (?s1\<lparr>sfail := sfail S\<rparr>) = ?n" "sfail (?s1\<lparr>sfail := sfail S\<rparr>) = sfail S" "snext ?s1 = ?n" "sfail ?s1 = ?f"
    by (simp_all add: moz_compiler_set_label_def)
  from prog_emit [OF I(4), of "?s1\<lparr>sfail := sfail S\<rparr>" IPLoad NoArg] oJ(1) r' I(3) H(2) G(1) obtain K where
    K: "emit_ir J (?s1\<lparr>sfail := sfail S\<rparr>) IPLoad NoArg = Inr (K, ?n)" "nb K = nb J" "prog C ?x ({?h, ?n, ?f} - {?h}) K"
      "upd {?n} J K" "last_type K ?n = Some IPLoad" by (auto simp: sel1 touched_def arg_ok_NoArg has_fields_def)
  have oK: "open_block K ?n" "open_block K ?f"
    using K(2,5) open_range [OF oJ(1)] open_upd [OF oJ(2) prog_wf [OF I(4)] K(4)] by (simp_all add: open_block_def)
  let ?s2 = "moz_compiler_set_label ?s1 ?f"
  have sel2: "scur ?s2 = ?f" "sfail ?s2 = ?f" by (simp_all add: moz_compiler_set_label_def)
  from prog_link [OF K(3), of ?s2 "sfail S"] oK(2) open_range [OF oK(2)] r' obtain L where
    L: "moz_compiler_link K ?s2 ?f (sfail S) = Inr L" "prog C ?x ({?h, ?n, ?f} - {?h} - {?f}) L" "upd {?f} K L"
    by (auto simp: sel2 touched_def)
  have "moz_And_to_ir tr C S e = Inr (L, ?n)"
    using B H(1) I(1,2) K(1) L(1) unfolding moz_And_to_ir_def Let_def by (simp add: sel sel1 sel2 moz_compiler_set_label_def)
  then show ?thesis
    by (rule goodI [OF _ L(2)]) (use open_upd [OF oK(1) prog_wf [OF K(3)] L(3)] in \<open>auto simp: touched_def\<close>)
qed

lemma good_Not:
  assumes r: "ready C S" and e: "promises tr (length (decls C)) e"
  shows "good C S (moz_Not_to_ir tr C S e)"
proof (cases "e = E_Any")
  case True
  then show ?thesis using good_emit [OF r arg_ok_NoArg, of INAny]
    by (simp add: moz_Not_to_ir_def moz_Not_Any_to_NAny_def has_fields_def)
next
  case False
  let ?x = "scur S" and ?h = "nb C" and ?n = "nb C + 1" and ?f = "nb C + 2"
  note r' = readyD [OF r]
  from save_block [OF r] obtain D E F G where
    B: "moz_compiler_create_block C = Inr (?h, D)" "nb D = ?n" "moz_compiler_create_block D = Inr (nb D, E)"
      "moz_compiler_create_block E = Inr (nb D + 1, F)" "moz_compiler_link F S ?x ?h = Inr G" and
    G: "nb G = nb C + 3" "prog C ?x {?h, ?n, ?f} G" "upd {?x} C G" "open_block G ?h" "open_block G ?n" "open_block G ?f" by blast
  let ?st = "moz_compiler_set_label (S\<lparr>snext := ?f, sfail := ?n\<rparr>) ?h"
  have sel: "scur ?st = ?h" "sfail ?st = ?n" "snext ?st = ?f" by (simp_all add: moz_compiler_set_label_def)
  from prog_emit [OF G(2), of ?st IPStore NoArg] G(1,4) obtain H where
    H: "emit_ir G ?st IPStore NoArg = Inr (H, ?h)" "nb H = nb G" "prog C ?x {?h, ?n, ?f} H" "upd {?h} G H"
      "last_type H ?h = Some IPStore" by (auto simp: sel touched_def arg_ok_NoArg has_fields_def)
  have oH: "open_block H ?n" "open_block H ?f" "open_block H ?h"
    using open_upd [OF G(5) prog_wf [OF G(2)] H(4)] open_upd [OF G(6) prog_wf [OF G(2)] H(4)] H(2,5) G(1)
    by (simp_all add: open_block_def)
  from prog_part [OF H(3) e refl, of ?st ?f] oH H(2) G(1) obtain I cur J where
    I: "tr H ?st e = Inr (I, cur)" "moz_compiler_link I (?st\<lparr>scur := cur\<rparr>) cur ?f = Inr J" "nb H \<le> nb J"
      "prog C ?x ({?h, ?n, ?f} - {?h}) J" "upd {?h} H J" by (auto simp: sel touched_def)
  have oJ: "open_block J ?n" "open_block J ?f"
    using open_upd [OF oH(1) prog_wf [OF H(3)] I(5)] open_upd [OF oH(2) prog_wf [OF H(3)] I(5)] by simp_all
  let ?s1 = "moz_compiler_set_label (?st\<lparr>scur := cur\<rparr>) ?f"
  have sel1: "scur ?s1 = ?f" "sfail ?s1 = ?n" "snext ?s1 = ?f" by (simp_all add: moz_compiler_set_label_def)
  from prog_link [OF I(4), of ?s1 "sfail S"] oJ open_range [OF oJ(1)] r' I(3) H(2) G(1) obtain K where
    K: "moz_compiler_link J ?s1 ?f (sfail S) = Inr K" "nb K = nb J" "prog C ?x ({?h, ?n, ?f} - {?h} - {?f}) K" "upd {?f} J K"
    by (auto simp: sel1 touched_def)
  have oK: "open_block K ?n" using open_upd [OF oJ(1) prog_wf [OF I(4)] K(4)] by simp
  let ?s2 = "(moz_compiler_set_label ?s1 ?n)\<lparr>sfail := sfail S\<rparr>"
  have sel2: "scur ?s2 = ?n" "sfail ?s2 = sfail S" by (simp_all add: moz_compiler_set_label_def)
  from prog_emit [OF K(3), of ?s2 IPLoad NoArg] oK r' I(3) H(2) G(1) K(2) obtain L where
    L: "emit_ir K ?s2 IPLoad NoArg = Inr (L, ?n)" "nb L = nb K" "prog C ?x ({?h, ?n, ?f} - {?h} - {?f}) L"
      "last_type L ?n = Some IPLoad" by (auto simp: sel2 touched_def arg_ok_NoArg has_fields_def)
  have "moz_Not_to_ir tr C S e = Inr (L, ?n)"
    using False B H(1) I(1,2) K(1) L(1) unfolding moz_Not_to_ir_def Let_def
    by (simp add: sel sel1 sel2 moz_compiler_set_label_def)
  then show ?thesis
    by (rule goodI [OF _ L(3)]) (use L(2,4) open_range [OF oK] in \<open>auto simp: touched_def open_block_def\<close>)
qed


lemma good_constants:
  assumes r: "ready C S"
  shows "t \<in> {IStr, IRStr, IOStr} \<Longrightarrow> good C S (emit_id C S t (moz_compiler_add_string C str))"
    and "t \<in> {ITTag, ITPop} \<Longrightarrow> good C S (emit_id C S t (moz_compiler_add_tag C name))"
    and "t \<in> {ISet, IRSet, IOSet} \<Longrightarrow> good C S (emit_id C S t (moz_compiler_add_set C b))"
  using add_constant(1) [of C str] add_constant(2) [of C name] add_constant(3) [of C b]
  by (cases "moz_compiler_add_string C str" "moz_compiler_add_tag C name" rule: prod.exhaust [case_product prod.exhaust],
      cases "moz_compiler_add_set C b", auto intro!: good_emit_id [OF r] simp: pool_def has_fields_def)+

lemma good_option_default:
  assumes r: "ready C S" and e: "promises tr (length (decls C)) e"
  shows "good C S (option_default tr C S e)"
proof -
  let ?x = "scur S"
  note r' = readyD [OF r] and p0 = prog_ready [OF r]
  from prog_new [OF p0] obtain D where D: "moz_compiler_create_block C = Inr (nb C, D)" "nb D = Suc (nb C)"
    "prog C ?x {nb C, ?x} D" "upd {} C D" "open_block D (nb C)" by auto
  have ox: "open_block D ?x" using open_upd r' D(4) by blast
  from prog_part [OF D(3) e refl, of "S\<lparr>snext := nb C, sfail := nb C\<rparr>" "nb C"] ox r' D(2) obtain E cur F where
    E: "tr D (S\<lparr>snext := nb C, sfail := nb C\<rparr>) e = Inr (E, cur)"
      "moz_compiler_link E (S\<lparr>snext := nb C, sfail := nb C, scur := cur\<rparr>) cur (nb C) = Inr F"
      "prog C ?x ({nb C, ?x} - {?x}) F" "upd {?x} D F" by (auto simp: touched_def)
  have "option_default tr C S e = Inr (F, nb C)" using D(1) E(1,2) by (simp add: option_default_def Let_def)
  then show ?thesis
    by (rule goodI [OF _ E(3)]) (use open_upd [OF D(5) prog_wf [OF D(3)] E(4)] r' in \<open>auto simp: touched_def\<close>)
qed

lemma good_Option:
  assumes r: "ready C S" and e: "promises tr (length (decls C)) e"
  shows "good C S (moz_Option_to_ir tr C S e)"
  using good_option_default [OF assms] good_constants [OF r] good_emit [OF r, of IOByte]
  by (cases e) (simp_all add: moz_Option_to_ir_def moz_Option_to_OSet_def moz_Option_to_OStr_def moz_Option_to_OByte_def
      arg_ok_def has_fields_def)

lemma set_type_upd:
  assumes w: "cfg_wf C" and b: "b < nb C"
  shows "\<exists>D. on_store C (\<lambda>s. block_set_type s b t) = Inr D \<and> nb D = nb C \<and> upd {} C D"
proof -
  let ?D = "C\<lparr>cstore := (cstore C)\<lparr>bheap := (bheap (cstore C))[b := (blk C b)\<lparr>btype := btype (blk C b) OR t\<rparr>]\<rparr>\<rparr>"
  have sel: "nb ?D = nb C" "insts (blk ?D k) = insts (blk C k)" "preds (blk ?D k) = preds (blk C k)"
    "succs (blk ?D k) = succs (blk C k)" "iheap (cstore ?D) = iheap (cstore C)" "max_ir_id (cstore ?D) = max_ir_id (cstore C)"
    "blocks ?D = blocks C" "decls ?D = decls C" for k
    by (simp_all add: nth_update_same [of insts] nth_update_same [of preds] nth_update_same [of succs])
  have "pool ?D u = pool C u" for u by (simp add: pool_def)
  then have "arg_ok ?D u a = arg_ok C u a" for u a by (metis arg_ok_mono order.refl sel(1,8))
  then have "cfg_wf ?D" using w unfolding cfg_wf_def edges_ok_def insts_ok_def ir_ok_def sel by blast
  then have "upd {} C ?D" unfolding upd_def sel by simp
  then show ?thesis using b by (intro exI [of _ ?D]) (simp add: on_store_def block_set_type_def get_block_def put_block_def)
qed

lemma good_repetition_default:
  assumes r: "ready C S" and e: "\<And>x. x \<in> set es \<Longrightarrow> promises tr (length (decls C)) x" and ne: "es \<noteq> []"
  shows "good C S (repetition_default tr C S es)"
proof -
  let ?n = "length es" and ?x = "scur S"
  let ?N = "{nb C..<nb C + ?n}"
  note r' = readyD [OF r] and p0 = prog_ready [OF r]
  from prog_blocks [OF p0, of ?n] obtain D where D: "create_blocks C ?n = Inr ([nb C..<nb C + ?n], D)" "nb D = nb C + ?n"
    "prog C ?x ({?x} \<union> ?N) D" "upd {} C D" "\<forall>b \<in> ?N. open_block D b" by blast
  have wD: "cfg_wf D" "?x < nb D" using prog_wf [OF D(3)] r' D(2) by auto
  from set_type_upd [OF wD, of BLOCK_LOOP_HEAD] obtain D' where
    D': "on_store D (\<lambda>s. block_set_type s ?x BLOCK_LOOP_HEAD) = Inr D'" "nb D' = nb D" "upd {} D D'" by blast
  have "prog C ?x ({?x} \<union> ?N - {} \<union> {}) D'" by (rule prog_step [OF D(3) D'(3)]) (simp_all add: D'(2))
  then have pD': "prog C ?x ({?x} \<union> ?N) D'" by simp
  from prog_new [OF pD'] obtain E where E: "moz_compiler_create_block D' = Inr (nb D, E)" "nb E = Suc (nb D)"
    "prog C ?x (insert (nb D) ({?x} \<union> ?N)) E" "upd {} D' E" "open_block E (nb D)" unfolding D'(2) by blast
  have keep: "open_block E b" if "open_block D b" for b
    using open_upd [OF open_upd [OF that wD(1) D'(3)] prog_wf [OF pD'] E(4)] by simp
  have ox: "open_block E ?x" using keep open_upd [OF _ _ D(4)] r' by blast
  define L where "L = [nb C..<nb C + ?n] @ [?x]"
  have Ln: "L ! i = nb C + i" if "i < ?n" for i using that by (simp add: L_def nth_append)
  have L_last: "L ! ?n = ?x" by (simp add: L_def nth_append)
  have n0: "0 < ?n" using ne by simp
  have l0: "nb C < nb E" "?x \<noteq> nb C" using n0 D(2) E(2) r' by auto
  from prog_link [OF E(3), of "S\<lparr>sfail := nb D\<rparr>" "nb C"] ox r' l0 E(2) D(2) obtain F where
    F: "moz_compiler_link E (S\<lparr>sfail := nb D\<rparr>) ?x (nb C) = Inr F" "nb F = nb E"
      "prog C ?x (insert (nb D) ({?x} \<union> ?N) - {?x}) F" "upd {?x} E F"
    by (auto simp: touched_def)
  have oF: "open_block F b" if "b \<in> ?N" for b
    using that keep D(5) open_upd [OF _ prog_wf [OF E(3)] F(4)] r' by auto
  have xF: "open_block F (nb D)" using E(5) open_upd [OF _ prog_wf [OF E(3)] F(4)] r' D(2) by auto
  let ?mk = "\<lambda>st i. (moz_compiler_set_label st (L ! i))\<lparr>snext := L ! (i + 1), sfail := nb D\<rparr>"
  let ?f = "\<lambda>(C, state) (i, x).
            rbind (aread L i) (\<lambda>b. rbind (aread L (i + 1)) (\<lambda>n.
            let state = (moz_compiler_set_label state b)\<lparr>snext := n, sfail := nb D\<rparr>
            in rbind (tr C state x) (\<lambda>(C, cur).
               let state = state\<lparr>scur := cur\<rparr>
               in rbind (moz_compiler_link C state (scur state) n) (\<lambda>C. Inr (C, state)))))"
  let ?S = "S\<lparr>sfail := nb D\<rparr>"
  have "\<exists>G st'. rfold ?f (F, ?S) (enumerate 0 es) = Inr (G, st') \<and> nb F \<le> nb G \<and>
    prog C ?x (insert (nb D) ({?x} \<union> ?N) - {?x} - (\<lambda>i. L ! i) ` {0..<0 + ?n}) G \<and>
    upd ((\<lambda>i. L ! i) ` {0..<0 + ?n}) F G \<and> (es \<noteq> [] \<longrightarrow> snext st' = L ! (0 + ?n - 1 + 1))"
  proof (rule parts_loop [where tr = tr and mk = ?mk and fl = "\<lambda>i. nb D" and nx = "\<lambda>i. L ! (i + 1)" and sn = "\<lambda>i. L ! (i + 1)"
        and n = "length (decls C)"])
    show "?f (C, st) (i, x) = rbind (tr C (?mk st i) x) (\<lambda>(C, cur).
        rbind (moz_compiler_link C ((?mk st i)\<lparr>scur := cur\<rparr>) cur (L ! (i + 1))) (\<lambda>C. Inr (C, (?mk st i)\<lparr>scur := cur\<rparr>)))"
      if "(i, x) \<in> set (enumerate 0 es)" for i x C st
      using that by (auto simp: in_set_enumerate_eq L_def moz_compiler_set_label_def Let_def intro!: rbind_cong split: prod.splits)
    show "touched C ?x (L ! i) \<and> open_block F (L ! i) \<and> nb D < nb F \<and> L ! (i + 1) < nb F \<and> L ! (i + 1) \<noteq> L ! i"
      if i: "0 \<le> i" "i < 0 + ?n" for i
    proof -
      have "L ! (i + 1) < nb F \<and> L ! (i + 1) \<noteq> nb C + i"
        using i Ln [of "i + 1"] L_last F(2) E(2) D(2) r' by (cases "i + 1 = ?n") auto
      then show ?thesis using i Ln [of i] oF [of "nb C + i"] F(2) E(2) D(2) by (simp add: touched_def)
    qed
    show "inj_on (\<lambda>i. L ! i) {0..<0 + ?n}" by (rule inj_onI) (use Ln in auto)
  qed (use e F(3) in \<open>auto simp: moz_compiler_set_label_def\<close>)
  then obtain G st' where G: "rfold ?f (F, ?S) (enumerate 0 es) = Inr (G, st')" "nb F \<le> nb G"
    "prog C ?x (insert (nb D) ({?x} \<union> ?N) - {?x} - (\<lambda>i. L ! i) ` {0..<?n}) G" "upd ((\<lambda>i. L ! i) ` {0..<?n}) F G"
    by auto
  have img: "(\<lambda>i. L ! i) ` {0..<?n} = ?N"
  proof -
    have "(\<lambda>i. L ! i) ` {0..<?n} = (\<lambda>i. nb C + i) ` {0..<?n}" using Ln by (intro image_cong) auto
    then show ?thesis by (simp add: image_add_atLeastLessThan add.commute)
  qed
  have "aread L 0 = Inr (L ! 0)" "L ! 0 = nb C" using Ln [OF n0] by (simp_all add: L_def)
  then have "repetition_default tr C S es = Inr (G, nb D)"
    using D(1) D'(1) E(1) F(1) G(1) by (simp add: repetition_default_def L_def [symmetric])
  moreover have "open_block G (nb D)"
    using xF open_upd [OF _ prog_wf [OF F(3)] G(4), of "nb D"] img D(2) by auto
  ultimately show ?thesis
    by (intro goodI [OF _ G(3)]) (auto simp: img touched_def D(2))
qed

lemma good_Repetition:
  assumes r: "ready C S" and e: "\<And>x. x \<in> set es \<Longrightarrow> promises tr (length (decls C)) x" and ne: "es \<noteq> []"
  shows "good C S (moz_Repetition_to_ir tr C S es)"
  using good_repetition_default [OF assms] good_constants [OF r] good_emit [OF r, of IRByte] good_emit [OF r, of IRAny NoArg]
  by (auto simp: moz_Repetition_to_ir_def moz_Repetition_to_RAny_def moz_Repetition_to_RSet_def moz_Repetition_to_RStr_def
      moz_Repetition_to_RByte_def arg_ok_def has_fields_def split: list.splits expr.splits)

text \<open>The expressions the compiler can translate, with \<open>n\<close> declarations: no \<open>Fail\<close>, no empty choice or
repetition and none of the expressions whose translation is missing.\<close>

fun compilable :: "nat \<Rightarrow> expr \<Rightarrow> bool" where
  "compilable n (E_Invoke name d) = (case d of None \<Rightarrow> True | Some k \<Rightarrow> k < n)"
| "compilable n (E_And e) = compilable n e"
| "compilable n (E_Not e) = compilable n e"
| "compilable n (E_Option e) = compilable n e"
| "compilable n (E_Choice es) = (es \<noteq> [] \<and> (\<forall>e \<in> set es. compilable n e))"
| "compilable n (E_Sequence es) = (\<forall>e \<in> set es. compilable n e)"
| "compilable n (E_Repetition es) = (es \<noteq> [] \<and> (\<forall>e \<in> set es. compilable n e))"
| "compilable n e = (e \<in> {E_Empty, E_Any, E_Tcapture, E_Tpush, E_Tnew} \<or>
     (case e of E_Byte _ \<Rightarrow> True | E_Str _ \<Rightarrow> True | E_Set _ \<Rightarrow> True | E_Tpop _ \<Rightarrow> True | E_Ttag _ \<Rightarrow> True | _ \<Rightarrow> False))"

lemma expr_to_ir_promise: "compilable n e \<Longrightarrow> promises moz_expr_to_ir n e"
proof (induction n e rule: compilable.induct)
  case (2 n e)
  then show ?case by (auto simp: promises_def intro!: good_And)
next
  case (3 n e)
  then show ?case by (auto simp: promises_def intro!: good_Not)
next
  case (4 n e)
  then show ?case by (auto simp: promises_def intro!: good_Option)
next
  case (5 n es)
  then show ?case using good_Choice [of _ _ es moz_expr_to_ir] by (auto simp: promises_def)
next
  case (6 n es)
  then show ?case using good_Sequence [of _ _ es moz_expr_to_ir] by (auto simp: promises_def)
next
  case (7 n es)
  then show ?case using good_Repetition [of _ _ es moz_expr_to_ir] by (auto simp: promises_def)
qed (auto simp: promises_def moz_Empty_to_ir_def moz_Invoke_to_ir_def moz_Any_to_ir_def moz_Byte_to_ir_def moz_Str_to_ir_def
    moz_Set_to_ir_def moz_Tcapture_to_ir_def moz_Tpush_to_ir_def moz_Tpop_to_ir_def moz_Tnew_to_ir_def moz_Ttag_to_ir_def
    intro!: good_emit good_constants goodI [OF refl prog_ready] simp: arg_ok_def has_fields_def touched_def dest: readyD
    split: option.splits)


section \<open>Declarations\<close>

definition all_closed :: "compiler \<Rightarrow> bool" where
  "all_closed C \<longleftrightarrow> cfg_wf C \<and> (\<forall>b < nb C. closed_block C b)"

lemma state_init_eq:
  "moz_state_init C = Inr (\<lparr>shead = nb C, scur = nb C, snext = nb C + 1, sfail = nb C + 2\<rparr>,
     add_block (add_block (add_block C BLOCK_ENTRY) BLOCK_EXIT) BLOCK_FAIL)"
  by (simp add: moz_state_init_def create_eq add_block_sel)

lemma closed_upd: "closed_block C b \<Longrightarrow> cfg_wf C \<Longrightarrow> upd M C D \<Longrightarrow> b < nb C \<Longrightarrow> b \<notin> M \<Longrightarrow> closed_block D b"
  using last_type_upd [of C M D b] by (simp add: closed_block_def)

lemma decl_ok:
  assumes c: "all_closed C" and e: "compilable (length (decls C)) (dbody d)"
  shows "\<exists>D. moz_decl_to_ir C d = Inr (d\<lparr>dinst := Some (nb C)\<rparr>, D) \<and> all_closed D \<and> upd {} C D \<and> nb C < nb D"
proof -
  let ?A = "add_block C BLOCK_ENTRY"
  let ?B = "add_block ?A BLOCK_EXIT"
  let ?C = "add_block ?B BLOCK_FAIL"
  let ?h = "nb C" and ?n = "nb C + 1" and ?f = "nb C + 2"
  let ?S = "\<lparr>shead = ?h, scur = ?h, snext = ?n, sfail = ?f\<rparr>"
  have w: "cfg_wf C" using c by (simp add: all_closed_def)
  note uA = upd_add_block [OF w, of BLOCK_ENTRY]
  note uB = upd_add_block [OF upd_wf [OF uA(1)], of BLOCK_EXIT]
  note uC = upd_add_block [OF upd_wf [OF uB(1)], of BLOCK_FAIL]
  have nA: "nb ?A = ?n" "nb ?B = ?f" "nb ?C = nb C + 3" by (simp_all add: add_block_sel)
  have wC: "cfg_wf ?C" using upd_wf [OF uC(1)] .
  have u0: "upd {} C ?C" using upd_trans [OF upd_trans [OF uA(1) uB(1)] uC(1)] by simp
  have lt: "last_type ?C ?h = None" "last_type ?C ?n = None" "last_type ?C ?f = None"
    using uA(2) uB(2) uC(2) last_type_upd [OF upd_wf [OF uA(1)] uB(1), of ?h] last_type_upd [OF upd_wf [OF uB(1)] uC(1), of ?h]
      last_type_upd [OF upd_wf [OF uB(1)] uC(1), of ?n] nA by auto
  have "ready ?C ?S" using wC lt(1) nA by (simp add: ready_def open_block_def)
  moreover have "length (decls ?C) = length (decls C)" by (simp add: add_block_sel)
  ultimately have "good ?C ?S (moz_expr_to_ir ?C ?S (dbody d))" using expr_to_ir_promise [OF e] by (simp add: promises_def)
  then obtain D cur where D: "moz_expr_to_ir ?C ?S (dbody d) = Inr (D, cur)" "prog ?C ?h {cur} D" "open_block D cur"
    "touched ?C ?h cur" by (auto simp: good_def)
  have uD: "upd {?h} ?C D" using D(2) by (simp add: prog_def)
  have cn: "cur \<noteq> ?n" "cur \<noteq> ?f" using D(4) nA by (auto simp: touched_def)
  let ?S1 = "?S\<lparr>scur := cur\<rparr>"
  have nD: "nb C + 3 \<le> nb D" using prog_nb [OF D(2)] nA by simp
  from prog_link [OF D(2), of ?S1 ?n] D(3,4) cn nD obtain E where
    E: "moz_compiler_link D ?S1 cur ?n = Inr E" "nb E = nb D" "prog ?C ?h ({cur} - {cur}) E" "upd {cur} D E" by auto
  have uE: "upd {?h, cur} ?C E" by (rule upd_weaken [OF upd_trans [OF uD E(4)]]) auto
  have wE: "cfg_wf E" using upd_wf [OF E(4)] .
  have ltE: "last_type E ?n = None" "last_type E ?f = None"
    using last_type_upd [OF wC uE] lt nA cn by auto
  let ?S2 = "moz_compiler_set_label ?S1 ?n"
  have "arg_ok E IRet NoArg" "?n < nb E" "?f < nb E" using nD E(2) by (simp_all add: arg_ok_def has_fields_def)
  with emit_eq [OF wE, of ?S2 IRet NoArg] upd_add_ir [OF wE, of ?S2 IRet NoArg] ltE(1) obtain F where
    F: "emit_ir E ?S2 IRet NoArg = Inr (F, ?n)" "upd {?n} E F" "last_type F ?n = Some IRet" "nb F = nb E"
    using add_ir_sel(1) [of ?S2 E IRet NoArg] by (auto simp: open_block_def)
  have wF: "cfg_wf F" using upd_wf [OF F(2)] .
  have ltF: "last_type F ?f = None" using last_type_upd [OF wE F(2), of ?f] ltE nD E(2) by simp
  let ?S3 = "moz_compiler_set_label ?S2 ?f"
  have "arg_ok F IFail NoArg" "?f < nb F" using nD E(2) F(4) by (simp_all add: arg_ok_def has_fields_def)
  with emit_eq [OF wF, of ?S3 IFail NoArg] upd_add_ir [OF wF, of ?S3 IFail NoArg] ltF obtain G where
    G: "emit_ir F ?S3 IFail NoArg = Inr (G, ?f)" "upd {?f} F G" "last_type G ?f = Some IFail" "nb G = nb F"
    using add_ir_sel(1) [of ?S3 F IFail NoArg] by (auto simp: open_block_def)
  have uG: "upd {?n, ?f} E G" by (rule upd_weaken [OF upd_trans [OF F(2) G(2)]]) auto
  have "closed_block G b" if b: "b < nb G" for b
  proof -
    consider "b < nb C" | "b = ?n" | "b = ?f" | "touched ?C ?h b" using nA by (force simp: touched_def)
    then show ?thesis
    proof cases
      case 1
      then have "closed_block C b" using c by (simp add: all_closed_def)
      then have "closed_block ?C b" using closed_upd [OF _ w u0] 1 by simp
      then have "closed_block E b" using closed_upd [OF _ wC uE, of b] 1 nA D(4) by (auto simp: touched_def)
      then show ?thesis using closed_upd [OF _ wE uG, of b] 1 nD E(2) by simp
    next
      case 2
      then show ?thesis using last_type_upd [OF wF G(2), of ?n] F(3,4) E(2) nD by (simp add: closed_block_def terminators_def)
    next
      case 3
      then show ?thesis using G(3) by (simp add: closed_block_def terminators_def)
    next
      case 4
      then have "b \<noteq> ?n" "b \<noteq> ?f" using nA by (auto simp: touched_def)
      moreover have "closed_block E b" using E(3) 4 b G(4) F(4) by (simp add: prog_def)
      ultimately show ?thesis using closed_upd [OF _ wE uG, of b] b G(4) F(4) by simp
    qed
  qed
  then have "all_closed G" using upd_wf [OF G(2)] by (simp add: all_closed_def)
  moreover have "moz_decl_to_ir C d = Inr (d\<lparr>dinst := Some (nb C)\<rparr>, G)"
  proof -
    show ?thesis using D(1) E(1) F(1) G(1)
      by (simp add: moz_decl_to_ir_def state_init_eq Let_def moz_compiler_set_label_def)
  qed
  moreover have "upd {} C G"
    by (rule upd_weaken [OF upd_trans [OF u0 upd_trans [OF uE uG]]]) (use D(4) nA in \<open>auto simp: touched_def\<close>)
  moreover have "nb C < nb G" using G(4) F(4) E(2) nD by simp
  ultimately show ?thesis by blast
qed

lemma decls_update_closed:
  assumes "all_closed C" "length ds = length (decls C)"
  shows "all_closed (C\<lparr>decls := ds\<rparr>)"
proof -
  have w: "cfg_wf C" using assms(1) by (simp add: all_closed_def)
  have "pool (C\<lparr>decls := ds\<rparr>) u = pool C u" for u by (simp add: pool_def)
  then have "arg_ok (C\<lparr>decls := ds\<rparr>) u a" if "arg_ok C u a" for u a using arg_ok_mono [OF that] assms(2) by simp
  moreover have "cstore (C\<lparr>decls := ds\<rparr>) = cstore C" "blocks (C\<lparr>decls := ds\<rparr>) = blocks C" by simp_all
  ultimately have "cfg_wf (C\<lparr>decls := ds\<rparr>)"
    using w unfolding cfg_wf_def edges_ok_def insts_ok_def ir_ok_def by (metis (no_types, lifting))
  moreover have "closed_block (C\<lparr>decls := ds\<rparr>) b = closed_block C b" for b by (simp add: closed_block_def last_type_def)
  ultimately show ?thesis using assms(1) by (simp add: all_closed_def)
qed

lemma closed_terminator:
  assumes "cfg_wf C" "b < nb C" "closed_block C b"
  shows "\<exists>t. block_get_terminator (cstore C) b = Inr (Some t)"
proof -
  from assms(3) obtain t where t: "t \<in> terminators" "last_type C b = Some t" by (auto simp: closed_block_def)
  then have n: "insts (blk C b) \<noteq> []" by (auto simp: last_type_def split: if_splits)
  let ?l = "last (insts (blk C b))"
  have "?l < ni C" using insts_lt [OF assms(1,2)] n by simp
  moreover from ir_some [OF assms(1) this] obtain ir where "iheap (cstore C) ! ?l = Some ir" by blast
  moreover have "irtype ir = t" using t(2) n calculation(2) by (simp add: last_type_def)
  ultimately show ?thesis using t(1) n assms(2)
    by (simp add: block_get_terminator_def block_get_last_def get_block_def block_size_def block_get_def get_ir_def
        last_conv_nth terminators_def)
qed


text \<open>The declarations compiled so far have their entry block; the others and all bodies are as they were.\<close>

definition compiled_upto :: "decl list \<Rightarrow> nat \<Rightarrow> compiler \<Rightarrow> bool" where
  "compiled_upto ds k C \<longleftrightarrow> all_closed C \<and> length (decls C) = length ds \<and>
     (\<forall>i < length ds. drefc (decls C ! i) = drefc (ds ! i) \<and> dbody (decls C ! i) = dbody (ds ! i)) \<and>
     (\<forall>i < k. drefc (ds ! i) > 0 \<longrightarrow> (\<exists>b < nb C. dinst (decls C ! i) = Some b))"

lemma ast_step:
  assumes c: "compiled_upto ds k C" and k: "k < length ds"
    and e: "drefc (ds ! k) > 0 \<Longrightarrow> compilable (length ds) (dbody (ds ! k))"
  shows "\<exists>D. rbind (aread (decls C) k) (\<lambda>d.
        if drefc d > 0 then rbind (moz_decl_to_ir C d) (\<lambda>(d, C). Inr (C\<lparr>decls := (decls C)[k := d]\<rparr>)) else Inr C) = Inr D \<and>
    compiled_upto ds (Suc k) D"
proof (cases "drefc (ds ! k) > 0")
  case False
  then show ?thesis using c k by (auto simp: compiled_upto_def less_Suc_eq)
next
  case True
  let ?d = "decls C ! k"
  have cs: "all_closed C" "length (decls C) = length ds" "drefc ?d > 0" "dbody ?d = dbody (ds ! k)"
    using c k True by (simp_all add: compiled_upto_def)
  then have "compilable (length (decls C)) (dbody ?d)" using e [OF True] by simp
  from decl_ok [OF cs(1) this] obtain D where
    D: "moz_decl_to_ir C ?d = Inr (?d\<lparr>dinst := Some (nb C)\<rparr>, D)" "all_closed D" "upd {} C D" "nb C < nb D" by blast
  have dd: "decls D = decls C" using upd_decls [OF D(3)] .
  let ?E = "D\<lparr>decls := (decls D)[k := ?d\<lparr>dinst := Some (nb C)\<rparr>]\<rparr>"
  have "all_closed ?E" using D(2) by (rule decls_update_closed) simp
  moreover have "\<exists>b < nb D. dinst (decls ?E ! i) = Some b" if "i < Suc k" "drefc (ds ! i) > 0" for i
    using that c D(4) k cs(2) dd by (cases "i = k") (auto simp: compiled_upto_def nth_list_update less_Suc_eq intro: order.strict_trans)
  ultimately have "compiled_upto ds (Suc k) ?E"
    using c k dd cs by (auto simp: compiled_upto_def nth_list_update)
  then show ?thesis using D(1) k cs by auto
qed

text \<open>C9: The code generator is total on what it can translate, and its output is well formed. If every
declaration that is used has a body without \<open>Fail\<close>, empty choices and unimplemented operators, no
assertion fails; the blocks and instructions have only pointers in range and symmetric edges, every
instruction has the fields of its structure and an existing constant, every block ends with a
terminator, which is what the optimiser asserts, and every used declaration has its entry block.\<close>

theorem compile_total:
  assumes "\<And>d. d \<in> set ds \<Longrightarrow> drefc d > 0 \<Longrightarrow> compilable (length ds) (dbody d)"
  shows "\<exists>C. moz_ast_to_ir (moz_compiler_init\<lparr>decls := ds\<rparr>) = Inr C \<and> cfg_wf C \<and>
    (\<forall>b \<in> set (blocks C). \<exists>t. block_get_terminator (cstore C) b = Inr (Some t)) \<and>
    (\<forall>i < length ds. drefc (ds ! i) > 0 \<longrightarrow> (\<exists>b \<in> set (blocks C). dinst (decls C ! i) = Some b))"
proof -
  let ?C0 = "moz_compiler_init\<lparr>decls := ds\<rparr>"
  let ?f = "\<lambda>C i. rbind (aread (decls C) i) (\<lambda>d.
        if drefc d > 0 then rbind (moz_decl_to_ir C d) (\<lambda>(d, C). Inr (C\<lparr>decls := (decls C)[i := d]\<rparr>)) else Inr C)"
  have "compiled_upto ds 0 ?C0"
    by (simp add: compiled_upto_def all_closed_def cfg_wf_def moz_compiler_init_def)
  moreover have "\<exists>D. rfold ?f C [k..<length ds] = Inr D \<and> compiled_upto ds (length ds) D"
    if "compiled_upto ds k C" "k \<le> length ds" for k C
    using that
  proof (induction "length ds - k" arbitrary: k C)
    case (Suc j)
    then have k: "k < length ds" by simp
    from ast_step [OF Suc(3) k] assms k obtain D where D: "?f C k = Inr D" "compiled_upto ds (Suc k) D" by auto
    with Suc(1) [of "Suc k" D] Suc(2) k show ?case by (simp add: upt_conv_Cons)
  qed simp
  ultimately obtain C where C: "rfold ?f ?C0 [0..<length ds] = Inr C" "compiled_upto ds (length ds) C" by blast
  have "moz_ast_to_ir ?C0 = Inr C" using C(1) by (simp add: moz_ast_to_ir_def)
  moreover have w: "cfg_wf C" "all_closed C" using C(2) by (simp_all add: compiled_upto_def all_closed_def)
  moreover have "set (blocks C) = {..<nb C}" using w(1) by (auto simp: cfg_wf_def)
  ultimately show ?thesis using C(2) closed_terminator [of C] by (auto simp: compiled_upto_def all_closed_def)
qed

text \<open>The declarations \<open>s = a s / \<close> and \<open>a = [\<dots>]\<close>.\<close>

lemma compile_total_witness:
  "\<exists>C. moz_ast_to_ir (moz_compiler_init\<lparr>decls := [\<lparr>drefc = 1, dname = [0x73], dbody = E_Choice [E_Sequence [E_Invoke [0x61] (Some 1), E_Byte 0x62], E_Empty], dinst = None\<rparr>,
      \<lparr>drefc = 1, dname = [0x61], dbody = E_Repetition [E_Not (E_Str [0x63, 0x64]), E_Any], dinst = None\<rparr>]\<rparr>) = Inr C \<and> cfg_wf C \<and>
    (\<forall>b \<in> set (blocks C). \<exists>t. block_get_terminator (cstore C) b = Inr (Some t)) \<and>
    (\<forall>i < length [\<lparr>drefc = 1, dname = [0x73], dbody = E_Choice [E_Sequence [E_Invoke [0x61] (Some 1), E_Byte 0x62], E_Empty], dinst = None\<rparr>,
      \<lparr>drefc = 1, dname = [0x61], dbody = E_Repetition [E_Not (E_Str [0x63, 0x64]), E_Any], dinst = None\<rparr>].
      drefc ([\<lparr>drefc = 1, dname = [0x73], dbody = E_Choice [E_Sequence [E_Invoke [0x61] (Some 1), E_Byte 0x62], E_Empty], dinst = None\<rparr>,
      \<lparr>drefc = 1, dname = [0x61], dbody = E_Repetition [E_Not (E_Str [0x63, 0x64]), E_Any], dinst = None\<rparr>] ! i) > 0 \<longrightarrow>
      (\<exists>b \<in> set (blocks C). dinst (decls C ! i) = Some b))"
  by (rule compile_total) auto

end
