(* ===== verification/Link.thy ===== *)
theory Link
  imports Cfg Module
begin

text \<open>
  What the linker promises: the code of a module is the encoding of the instructions in the order of
  the blocks, every label being the address of the first instruction of its block minus the end of
  the instruction it stands in.
\<close>

section \<open>The specification\<close>

definition layout :: "compiler \<Rightarrow> ir_ptr list" where
  "layout C = concat (map (\<lambda>b. insts (blk C b)) (blocks C))"

text \<open>The blocks an instruction refers to, in the order of its labels, and the bytes that follow.\<close>

definition labels_of :: "compiler \<Rightarrow> IR \<Rightarrow> block_ptr list" where
  "labels_of C ir =
     (case irarg ir of
        BlockArg b \<Rightarrow> [b]
      | DeclArg (Some d) \<Rightarrow> [irfail ir, the (dinst (decls C ! d))]
      | _ \<Rightarrow> if irtype ir \<in> {IAny, IByte, IStr, ISet, INAny, INByte, INStr, INSet} then [irfail ir] else [])"

definition operand_bytes :: "IR \<Rightarrow> u8 list" where
  "operand_bytes ir = (case irarg ir of ByteArg b \<Rightarrow> [b] | IdArg i \<Rightarrow> bytes16 i | ShiftArg _ \<Rightarrow> [0] | _ \<Rightarrow> [])"

definition inst_size :: "compiler \<Rightarrow> IR \<Rightarrow> nat" where
  "inst_size C ir = 1 + 4 * length (labels_of C ir) + length (operand_bytes ir)"

definition total_size :: "compiler \<Rightarrow> ir_ptr list \<Rightarrow> nat" where
  "total_size C xs = sum_list (map (\<lambda>i. inst_size C (irn C i)) xs)"

text \<open>The address of an instruction: the size of the instructions before it.\<close>

definition addr_of :: "compiler \<Rightarrow> ir_ptr \<Rightarrow> nat" where
  "addr_of C i = total_size C (takeWhile (\<lambda>j. j \<noteq> i) (layout C))"

definition first_inst :: "compiler \<Rightarrow> block_ptr \<Rightarrow> ir_ptr" where
  "first_inst C b = hd (insts (blk C b))"

definition label_bytes :: "compiler \<Rightarrow> ir_ptr \<Rightarrow> block_ptr \<Rightarrow> u8 list" where
  "label_bytes C i b = bytes32 (of_nat (addr_of C (first_inst C b)) - of_nat (addr_of C i + inst_size C (irn C i)))"

definition linked_inst :: "compiler \<Rightarrow> ir_ptr \<Rightarrow> u8 list" where
  "linked_inst C i =
     of_nat (ir_num (irtype (irn C i))) # concat (map (label_bytes C i) (labels_of C (irn C i))) @ operand_bytes (irn C i)"

definition linked_code :: "compiler \<Rightarrow> u8 list" where
  "linked_code C = concat (map (linked_inst C) (layout C))"

text \<open>What can be encoded: every label has an instruction in the layout, and the encoder is there.\<close>

definition has_encoder :: "ir_type \<Rightarrow> bool" where
  "has_encoder t \<longleftrightarrow> t \<in> {ILabel, IJump, IInvoke, IPLoad, IPStore, IRet, IFail, IAny, IByte, IStr, ISet, INAny, INByte, INStr,
     INSet, IRAny, IRByte, IRStr, IRSet, IOByte, IOStr, IOSet, ITPush, ITPop, ITNew, ITCapture, ITTag}"

definition encodable :: "compiler \<Rightarrow> IR \<Rightarrow> bool" where
  "encodable C ir \<longleftrightarrow> has_encoder (irtype ir) \<and> has_fields (irtype ir) (irarg ir) \<and>
     (case irarg ir of DeclArg d \<Rightarrow> (\<exists>k < length (decls C). d = Some k \<and> dinst (decls C ! k) \<noteq> None) | _ \<Rightarrow> True) \<and>
     (\<forall>b \<in> set (labels_of C ir). b < nb C \<and> insts (blk C b) \<noteq> [] \<and> first_inst C b \<in> set (layout C))"

definition link_ok :: "compiler \<Rightarrow> bool" where
  "link_ok C \<longleftrightarrow> distinct (layout C) \<and> max_ir_id (cstore C) < 2 ^ 31 \<and> (\<forall>b \<in> set (blocks C). b < nb C) \<and>
     (\<forall>i \<in> set (layout C). i < ni C \<and> iheap (cstore C) ! i \<noteq> None \<and> irid (irn C i) = i \<and> i < max_ir_id (cstore C) \<and>
        encodable C (irn C i))"

section \<open>Encoding\<close>

text \<open>An instruction before its labels are resolved: the id of the instruction stands for them.\<close>

definition open_inst :: "compiler \<Rightarrow> ir_ptr \<Rightarrow> u8 list" where
  "open_inst C i =
     of_nat (ir_num (irtype (irn C i))) #
     concat (map (\<lambda>_. bytes32 (of_nat (irid (irn C i)))) (labels_of C (irn C i))) @ operand_bytes (irn C i)"

lemma length_bytes32 [simp]: "length (bytes32 v) = 4"
  by (simp add: bytes32_def)

lemma length_label_bytes [simp]: "length (label_bytes C i b) = 4"
  by (simp add: label_bytes_def)

lemma length_label_concat [simp]: "(\<And>b. length (f b) = 4) \<Longrightarrow> length (concat (map f ls)) = 4 * length ls"
  by (induction ls) simp_all

lemma length_inst [simp]:
  "length (open_inst C i) = inst_size C (irn C i)" "length (linked_inst C i) = inst_size C (irn C i)"
  by (simp_all add: open_inst_def linked_inst_def inst_size_def)

lemma length_open_code: "length (concat (map (open_inst C) xs)) = total_size C xs"
  by (induction xs) (simp_all add: total_size_def)

definition write_operand :: "writer \<Rightarrow> ir_arg \<Rightarrow> writer res" where
  "write_operand W arg = (case arg of ByteArg b \<Rightarrow> write8 W b | IdArg i \<Rightarrow> write16 W i | ShiftArg _ \<Rightarrow> write8 W 0 | _ \<Rightarrow> Inr W)"

lemma rbind_Inr_id [simp]: "rbind r Inr = r"
  by (cases r) simp_all

lemmas encoder_defs =
  moz_ILabel_encode_def moz_IJump_encode_def moz_IInvoke_encode_def moz_IPLoad_encode_def moz_IPStore_encode_def
  moz_IRet_encode_def moz_IFail_encode_def moz_IAny_encode_def moz_IByte_encode_def moz_IStr_encode_def moz_ISet_encode_def
  moz_INAny_encode_def moz_INByte_encode_def moz_INStr_encode_def moz_INSet_encode_def moz_IRAny_encode_def
  moz_IRByte_encode_def moz_IRStr_encode_def moz_IRSet_encode_def moz_IOByte_encode_def moz_IOStr_encode_def
  moz_IOSet_encode_def moz_ITPush_encode_def moz_ITPop_encode_def moz_ITNew_encode_def moz_ITCapture_encode_def
  moz_ITTag_encode_def

lemma encode_op_eq:
  assumes "encodable C ir"
  shows "encode_op C W ir (irtype ir) =
    rbind (rfold (\<lambda>W b. mozlinker_add_label C W b (irid ir)) W (labels_of C ir)) (\<lambda>W. write_operand W (irarg ir))"
proof -
  note defs = labels_of_def write_operand_def encoder_defs has_encoder_def has_fields_def byte_arg_def id_arg_def block_arg_def
  have h: "has_encoder (irtype ir)" "has_fields (irtype ir) (irarg ir)" using assms by (simp_all add: encodable_def)
  show ?thesis
  proof (cases "irarg ir")
    case NoArg
    with h show ?thesis by (cases "irtype ir") (simp_all add: defs)
  next
    case (ByteArg b)
    with h show ?thesis by (cases "irtype ir") (simp_all add: defs)
  next
    case (IdArg i)
    with h show ?thesis by (cases "irtype ir") (simp_all add: defs)
  next
    case (BlockArg b)
    with h show ?thesis by (cases "irtype ir") (simp_all add: defs)
  next
    case (ShiftArg d)
    with h show ?thesis by (cases "irtype ir") (simp_all add: defs)
  next
    case (DeclArg d)
    then obtain k b where "d = Some k" "k < length (decls C)" "dinst (decls C ! k) = Some b"
      using assms by (auto simp: encodable_def)
    with h DeclArg show ?thesis by (cases "irtype ir") (simp_all add: defs decl_arg_def rbind_assoc)
  qed (use h in \<open>auto simp: has_fields_def has_encoder_def\<close>)
qed

text \<open>One write of some bytes; the labels and addresses stay.\<close>

definition writes :: "writer \<Rightarrow> u8 list \<Rightarrow> writer res \<Rightarrow> bool" where
  "writes W bs r \<longleftrightarrow> (\<exists>V. r = Inr V \<and> buf_wf (wbuf V) \<and> written (wbuf V) = written (wbuf W) @ bs \<and> linker V = linker W)"

definition fits :: "writer \<Rightarrow> nat \<Rightarrow> bool" where
  "fits W n \<longleftrightarrow> buf_wf (wbuf W) \<and> length (written (wbuf W)) + n < 2 ^ 29"

lemma writer_writes:
  "fits W 1 \<Longrightarrow> writes W [b] (write8 W b)"
  "fits W 2 \<Longrightarrow> writes W (bytes16 h) (write16 W h)"
  "fits W 4 \<Longrightarrow> writes W (bytes32 v) (write32 W v)"
  using write8_ok [of "wbuf W" b] writer_store_ok [of "wbuf W" "bytes16 h"] writer_store_ok [of "wbuf W" "bytes32 v"]
  by (auto simp: fits_def writes_def write8_def write16_def write32_def moz_buffer_writer_write16_def
      moz_buffer_writer_write32_def native_def bytes16_def)

lemma write_operand_writes:
  assumes "fits W (length (operand_bytes ir))"
  shows "writes W (operand_bytes ir) (write_operand W (irarg ir))"
proof (cases "irarg ir")
  case (IdArg i)
  then show ?thesis using writer_writes(2) [of W i] assms by (simp add: operand_bytes_def write_operand_def bytes16_def numeral_2_eq_2)
qed (use assms writer_writes(1) in \<open>simp_all add: operand_bytes_def write_operand_def writes_def fits_def\<close>)

lemma labels_write:
  assumes "fits W (4 * length ls)"
    and "\<And>b. b \<in> set ls \<Longrightarrow> b < nb C \<and> insts (blk C b) \<noteq> [] \<and> first_inst C b < ni C \<and> iheap (cstore C) ! first_inst C b \<noteq> None"
  shows "\<exists>V. rfold (\<lambda>W b. mozlinker_add_label C W b k) W ls = Inr V \<and> buf_wf (wbuf V) \<and>
    written (wbuf V) = written (wbuf W) @ concat (map (\<lambda>_. bytes32 (of_nat k)) ls) \<and>
    linker V = (linker W)\<lparr>labels := labels (linker W) @ map (\<lambda>j. of_nat (length (written (wbuf W)) + 4 * j)) [0..<length ls],
      targets := targets (linker W) @ map (\<lambda>b. of_nat (irid (irn C (first_inst C b)))) ls\<rparr>"
  using assms
proof (induction ls arbitrary: W)
  case Nil
  then show ?case by (simp add: fits_def)
next
  case (Cons b ls)
  let ?n = "length (written (wbuf W))"
  let ?L = "(linker W)\<lparr>labels := labels (linker W) @ [of_nat ?n],
      targets := targets (linker W) @ [of_nat (irid (irn C (first_inst C b)))]\<rparr>"
  have b: "b < nb C" "insts (blk C b) \<noteq> []" "first_inst C b < ni C" "iheap (cstore C) ! first_inst C b \<noteq> None"
    using Cons.prems(2) [of b] by auto
  then have i0: "insts (blk C b) ! 0 = first_inst C b" "0 < length (insts (blk C b))" by (simp_all add: first_inst_def hd_conv_nth)
  have len: "moz_buffer_writer_length (wbuf W) = ?n" using Cons.prems(1) by (simp add: fits_def moz_buffer_writer_length_def)
  have "fits (W\<lparr>linker := ?L\<rparr>) 4" using Cons.prems(1) by (auto simp: fits_def)
  from writer_writes(3) [OF this, of "of_nat k"] obtain V where
    V: "write32 (W\<lparr>linker := ?L\<rparr>) (of_nat k) = Inr V" "buf_wf (wbuf V)" "written (wbuf V) = written (wbuf W) @ bytes32 (of_nat k)"
      "linker V = ?L" by (auto simp: writes_def)
  have "mozlinker_add_label C W b k = Inr V"
    using b i0 V(1) len by (auto simp: mozlinker_add_label_def get_block_def get_ir_def)
  moreover have "fits V (4 * length ls)" using Cons.prems(1) V(2,3) by (auto simp: fits_def)
  moreover have "of_nat (?n + 4) + 4 * x = (of_nat (?n + 4 * (1 + y)) :: u32)" if "x = of_nat y" for x y using that by simp
  ultimately show ?case using Cons.IH [of V] Cons.prems(2) V(3,4)
    by (auto simp: upt_conv_Cons map_Suc_upt [symmetric] simp del: upt_Suc)
qed


text \<open>The labels an instruction at position \<open>p\<close> leaves behind.\<close>

definition label_offsets :: "nat \<Rightarrow> compiler \<Rightarrow> ir_ptr \<Rightarrow> u32 list" where
  "label_offsets p C i = map (\<lambda>j. of_nat (p + 1 + 4 * j)) [0..<length (labels_of C (irn C i))]"

definition label_targets :: "compiler \<Rightarrow> ir_ptr \<Rightarrow> u32 list" where
  "label_targets C i = map (\<lambda>b. of_nat (irid (irn C (first_inst C b)))) (labels_of C (irn C i))"

lemma link_ok_first:
  assumes "link_ok C" "i \<in> set (layout C)" "b \<in> set (labels_of C (irn C i))"
  shows "b < nb C \<and> insts (blk C b) \<noteq> [] \<and> first_inst C b \<in> set (layout C) \<and> first_inst C b < ni C \<and>
    iheap (cstore C) ! first_inst C b \<noteq> None \<and> irid (irn C (first_inst C b)) = first_inst C b \<and>
    first_inst C b < max_ir_id (cstore C)"
  using assms by (auto simp: link_ok_def encodable_def)

lemma ir_encode_ok:
  assumes ok: "link_ok C" and i: "i \<in> set (layout C)" and f: "fits W (inst_size C (irn C i))"
    and l: "length (address_head (linker W)) = max_ir_id (cstore C)" "length (address_tail (linker W)) = max_ir_id (cstore C)"
  shows "\<exists>V. moz_ir_encode C W (irn C i) = Inr V \<and> buf_wf (wbuf V) \<and> written (wbuf V) = written (wbuf W) @ open_inst C i \<and>
    linker V = (linker W)\<lparr>labels := labels (linker W) @ label_offsets (length (written (wbuf W))) C i,
      targets := targets (linker W) @ label_targets C i,
      address_head := (address_head (linker W))[i := of_nat (length (written (wbuf W)))],
      address_tail := (address_tail (linker W))[i := of_nat (length (written (wbuf W)) + inst_size C (irn C i))]\<rparr>"
proof -
  let ?ir = "irn C i" and ?n = "length (written (wbuf W))"
  have ir: "irid ?ir = i" "i < max_ir_id (cstore C)" "encodable C ?ir" using ok i by (auto simp: link_ok_def)
  have len: "moz_buffer_writer_length (wbuf W) = ?n" using f by (simp add: fits_def moz_buffer_writer_length_def)
  have "fits W 1" using f by (auto simp: fits_def inst_size_def)
  from writer_writes(1) [OF this, of "of_nat (ir_num (irtype ?ir))"] obtain A where
    A: "write8 W (of_nat (ir_num (irtype ?ir))) = Inr A" "buf_wf (wbuf A)"
      "written (wbuf A) = written (wbuf W) @ [of_nat (ir_num (irtype ?ir))]" "linker A = linker W" by (auto simp: writes_def)
  have "fits A (4 * length (labels_of C ?ir))" using f A(2,3) by (auto simp: fits_def inst_size_def)
  from labels_write [OF this, of C "irid ?ir"] link_ok_first [OF ok i] obtain B where
    B: "rfold (\<lambda>W b. mozlinker_add_label C W b (irid ?ir)) A (labels_of C ?ir) = Inr B" "buf_wf (wbuf B)"
      "written (wbuf B) = written (wbuf A) @ concat (map (\<lambda>_. bytes32 (of_nat (irid ?ir))) (labels_of C ?ir))"
      "linker B = (linker A)\<lparr>labels := labels (linker A) @ map (\<lambda>j. of_nat (length (written (wbuf A)) + 4 * j)) [0..<length (labels_of C ?ir)],
        targets := targets (linker A) @ map (\<lambda>b. of_nat (irid (irn C (first_inst C b)))) (labels_of C ?ir)\<rparr>" by blast
  have "fits B (length (operand_bytes ?ir))" using f A(2,3) B(2,3) by (auto simp: fits_def inst_size_def)
  from write_operand_writes [OF this] obtain V where
    V: "write_operand B (irarg ?ir) = Inr V" "buf_wf (wbuf V)" "written (wbuf V) = written (wbuf B) @ operand_bytes ?ir"
      "linker V = linker B" by (auto simp: writes_def)
  have w: "written (wbuf V) = written (wbuf W) @ open_inst C i" using A(3) B(3) V(3) by (simp add: open_inst_def)
  have lenV: "moz_buffer_writer_length (wbuf V) = ?n + inst_size C ?ir"
  proof -
    have "moz_buffer_writer_length (wbuf V) = length (written (wbuf V))" using V(2) by (simp add: moz_buffer_writer_length_def)
    then show ?thesis by (simp add: w)
  qed
  have "encode_op C A ?ir (irtype ?ir) = Inr V" using encode_op_eq [OF ir(3)] B(1) V(1) by simp
  moreover have "length (written (wbuf A)) = ?n + 1" using A(3) by simp
  ultimately have "moz_ir_encode C W ?ir = Inr (V\<lparr>linker := (linker V)\<lparr>address_head := (address_head (linker V))[i := of_nat ?n],
      address_tail := (address_tail (linker V))[i := of_nat (?n + inst_size C ?ir)]\<rparr>\<rparr>)"
    using A(1) B(4) V(4) A(4) l ir(1,2) lenV len by (simp add: moz_ir_encode_def Let_def)
  then show ?thesis using V(2) w B(4) V(4) A(4) \<open>length (written (wbuf A)) = ?n + 1\<close>
    by (simp add: label_offsets_def label_targets_def)
qed

text \<open>The state after some instructions of the layout.\<close>

fun label_list :: "compiler \<Rightarrow> nat \<Rightarrow> ir_ptr list \<Rightarrow> (u32 \<times> u32) list" where
  "label_list C p [] = []"
| "label_list C p (x # xs) = zip (label_offsets p C x) (label_targets C x) @ label_list C (p + inst_size C (irn C x)) xs"

lemma total_size_simps [simp]:
  "total_size C [] = 0" "total_size C (x # xs) = inst_size C (irn C x) + total_size C xs"
  "total_size C (xs @ ys) = total_size C xs + total_size C ys"
  by (simp_all add: total_size_def)

lemma label_list_append: "label_list C p (xs @ ys) = label_list C p xs @ label_list C (p + total_size C xs) ys"
  by (induction xs arbitrary: p) (simp_all add: ac_simps)

lemma length_labels [simp]: "length (label_offsets p C i) = length (label_targets C i)"
  by (simp add: label_offsets_def label_targets_def)

definition encoded :: "compiler \<Rightarrow> ir_ptr list \<Rightarrow> writer \<Rightarrow> bool" where
  "encoded C xs W \<longleftrightarrow> buf_wf (wbuf W) \<and> written (wbuf W) = concat (map (open_inst C) xs) \<and>
     length (labels (linker W)) = length (targets (linker W)) \<and> zip (labels (linker W)) (targets (linker W)) = label_list C 0 xs \<and>
     length (address_head (linker W)) = max_ir_id (cstore C) \<and> length (address_tail (linker W)) = max_ir_id (cstore C) \<and>
     (\<forall>k < length xs. address_head (linker W) ! (xs ! k) = of_nat (total_size C (take k xs)) \<and>
        address_tail (linker W) ! (xs ! k) = of_nat (total_size C (take k xs) + inst_size C (irn C (xs ! k))))"

lemma encoded_step:
  assumes ok: "link_ok C" and lay: "layout C = xs @ y # ys" and e: "encoded C xs W"
    and small: "total_size C (layout C) < 2 ^ 29"
  shows "\<exists>V. moz_ir_encode C W (irn C y) = Inr V \<and> encoded C (xs @ [y]) V"
proof -
  have y: "y \<in> set (layout C)" "y < max_ir_id (cstore C)" "distinct (xs @ [y])" using ok lay by (auto simp: link_ok_def)
  have len: "length (written (wbuf W)) = total_size C xs" using e by (simp only: encoded_def length_open_code)
  have "fits W (inst_size C (irn C y))" using e small len lay by (auto simp: fits_def encoded_def)
  from ir_encode_ok [OF ok y(1) this] e len obtain V where
    V: "moz_ir_encode C W (irn C y) = Inr V" "buf_wf (wbuf V)" "written (wbuf V) = written (wbuf W) @ open_inst C y"
      "linker V = (linker W)\<lparr>labels := labels (linker W) @ label_offsets (total_size C xs) C y,
      targets := targets (linker W) @ label_targets C y,
      address_head := (address_head (linker W))[y := of_nat (total_size C xs)],
      address_tail := (address_tail (linker W))[y := of_nat (total_size C xs + inst_size C (irn C y))]\<rparr>"
    unfolding encoded_def by auto
  have "y \<noteq> xs ! k" if "k < length xs" for k using y(3) that by auto
  then have "encoded C (xs @ [y]) V" using e V(2,3,4) y(2)
    by (auto simp: encoded_def label_list_append nth_append less_Suc_eq)
  with V(1) show ?thesis by blast
qed


lemma rfold_concat: "rfold (\<lambda>s xs. rfold f s xs) s xss = rfold f s (concat xss)"
  by (induction xss arbitrary: s) (auto simp: rfold_append intro: rbind_cong)

lemma encode_blocks_ok:
  assumes ok: "link_ok C" and small: "total_size C (layout C) < 2 ^ 29" and wb: "length wblock = 32"
  shows "\<exists>W. encode_blocks C (writer_init wblock C) = Inr W \<and> encoded C (layout C) W"
proof -
  have "encoded C [] (writer_init wblock C)"
    using wb ARRAY_init_elts [of wblock]
    by (simp add: encoded_def writer_init_def Let_def mozlinker_init_def buf_wf_def written_def moz_buffer_writer_init_def)
  then have "\<exists>W. rfold (\<lambda>W x. moz_ir_encode C W (irn C x)) (writer_init wblock C) (layout C) = Inr W \<and> encoded C (layout C) W"
    using encoded_step [OF ok _ _ small] by (intro rfold_invariant) auto
  moreover have "encode_blocks C (writer_init wblock C) = rfold (\<lambda>W x. moz_ir_encode C W (irn C x)) (writer_init wblock C) (layout C)"
  proof -
    have "rbind (get_block (cstore C) b) (\<lambda>B. rfold (\<lambda>W x. rbind (get_ir (cstore C) x) (moz_ir_encode C W)) W (insts B)) =
        rfold (\<lambda>W x. moz_ir_encode C W (irn C x)) W (insts (blk C b))" if b: "b \<in> set (blocks C)" for b W
    proof -
      have "x < ni C \<and> iheap (cstore C) ! x \<noteq> None" if "x \<in> set (insts (blk C b))" for x
        using ok b that by (auto simp: link_ok_def layout_def)
      then have "rfold (\<lambda>W x. rbind (get_ir (cstore C) x) (moz_ir_encode C W)) W (insts (blk C b)) =
          rfold (\<lambda>W x. moz_ir_encode C W (irn C x)) W (insts (blk C b))"
        by (intro rfold_cong_set) (force simp: get_ir_def)+
      then show ?thesis using ok b by (simp add: get_block_def link_ok_def)
    qed
    then have "encode_blocks C (writer_init wblock C) =
        rfold (\<lambda>W b. rfold (\<lambda>W x. moz_ir_encode C W (irn C x)) W (insts (blk C b))) (writer_init wblock C) (blocks C)"
      unfolding encode_blocks_def by (intro rfold_cong_set) auto
    then show ?thesis
      by (simp add: layout_def rfold_concat [symmetric] rfold_map)
  qed
  ultimately show ?thesis by simp
qed

section \<open>Resolving\<close>

lemma sint_of_nat_u32: "n < 2 ^ 31 \<Longrightarrow> sint (of_nat n :: u32) = int n"
  by (simp add: signed_of_nat signed_take_bit_int_eq_self)

lemma bytes32_join:
  "ucast (bytes32 v ! 0) OR push_bit 8 (ucast (bytes32 v ! 1)) OR push_bit 16 (ucast (bytes32 v ! 2)) OR
     push_bit 24 (ucast (bytes32 v ! 3)) = (v :: u32)"
  using join_bytes32 [of v] by (simp add: bytes32_def numeral_2_eq_2 numeral_3_eq_3)

lemma load_store_at:
  assumes "length A + 4 + length B < 2 ^ 31" "p = of_nat (length A)"
  shows "code_load32 (A @ bytes32 v @ B) p = Inr v" "code_store32 (A @ bytes32 v @ B) p w = Inr (A @ bytes32 w @ B)"
proof -
  have s: "nat (sint p) = length A" "\<not> sint p < 0" using assms sint_of_nat_u32 [of "length A"] by simp_all
  have "(A @ bytes32 v @ B) ! (length A + k) = bytes32 v ! k" if "k < 4" for k using that by (simp add: nth_append)
  from this [of 0] this [of 1] this [of 2] this [of 3] show "code_load32 (A @ bytes32 v @ B) p = Inr v"
    using s bytes32_join [of v] by (simp add: code_load32_def Let_def)
  show "code_store32 (A @ bytes32 v @ B) p w = Inr (A @ bytes32 w @ B)" using s by (simp add: code_store32_def)
qed

text \<open>Resolving the labels one by one, as pairs of offset and target.\<close>

definition resolve_pair :: "mozlinker \<Rightarrow> u8 list \<Rightarrow> u32 \<times> u32 \<Rightarrow> u8 list res" where
  "resolve_pair L c = (\<lambda>(labelOffset, targetId).
     rbind (code_load32 c labelOffset) (\<lambda>callerId.
     rbind (at_index (address_head L) targetId) (\<lambda>callee_addr_head.
     rbind (at_index (address_tail L) callerId) (\<lambda>caller_addr_tail.
       code_store32 c labelOffset (callee_addr_head - caller_addr_tail)))))"

lemma resolve_pairs:
  assumes "length (labels L) = length (targets L)"
  shows "mozlinker_resolve L c = rfold (resolve_pair L) c (zip (labels L) (targets L))"
proof -
  have z: "zip (labels L) (targets L) = map (\<lambda>i. (labels L ! i, targets L ! i)) [0..<length (labels L)]"
    using assms by (auto intro: nth_equalityI)
  have "rfold (resolve_label L) c [0..<length (labels L)] =
      rfold (\<lambda>c i. resolve_pair L c (labels L ! i, targets L ! i)) c [0..<length (labels L)]"
    by (rule rfold_cong_set) (use assms in \<open>auto simp: resolve_label_def resolve_pair_def\<close>)
  then show ?thesis using assms by (simp add: mozlinker_resolve_def z rfold_map)
qed

definition resolved :: "compiler \<Rightarrow> mozlinker \<Rightarrow> bool" where
  "resolved C L \<longleftrightarrow> length (address_head L) = max_ir_id (cstore C) \<and> length (address_tail L) = max_ir_id (cstore C) \<and>
     (\<forall>i \<in> set (layout C). address_head L ! i = of_nat (addr_of C i) \<and>
        address_tail L ! i = of_nat (addr_of C i + inst_size C (irn C i)))"

lemma resolve_labels:
  assumes ok: "link_ok C" and r: "resolved C L" and i: "i \<in> set (layout C)"
    and ls: "set ls \<subseteq> set (labels_of C (irn C i))" and small: "length A + 4 * length ls + length B < 2 ^ 29"
  shows "rfold (resolve_pair L) (A @ concat (map (\<lambda>_. bytes32 (of_nat i)) ls) @ B)
      (zip (map (\<lambda>j. of_nat (length A + 4 * j)) [0..<length ls]) (map (\<lambda>b. of_nat (first_inst C b)) ls)) =
    Inr (A @ concat (map (label_bytes C i) ls) @ B)"
  using ls small
proof (induction ls arbitrary: A)
  case (Cons b ls)
  let ?t = "of_nat (first_inst C b) :: u32" and ?p = "of_nat (length A) :: u32"
  let ?B = "concat (map (\<lambda>_. bytes32 (of_nat i)) ls) @ B"
  have ir: "i < max_ir_id (cstore C)" "max_ir_id (cstore C) < 2 ^ 31" using ok i by (auto simp: link_ok_def)
  have f: "first_inst C b \<in> set (layout C)" "first_inst C b < max_ir_id (cstore C)"
    using link_ok_first [OF ok i, of b] Cons.prems(1) by auto
  have at: "at_index xs (of_nat k) = Inr (xs ! k)" if "k < length xs" "k < 2 ^ 31" for k and xs :: "u32 list"
    using that sint_of_nat_u32 [of k] by (simp add: at_index_def)
  have "resolve_pair L (A @ bytes32 (of_nat i) @ ?B) (?p, ?t) = Inr (A @ label_bytes C i b @ ?B)"
    using load_store_at [of A ?B ?p] at [of "first_inst C b" "address_head L"] at [of i "address_tail L"] Cons.prems(2) ir f r i
    by (simp add: resolve_pair_def resolved_def label_bytes_def)
  moreover have "rfold (resolve_pair L) ((A @ label_bytes C i b) @ ?B)
      (zip (map (\<lambda>j. of_nat (length (A @ label_bytes C i b) + 4 * j)) [0..<length ls]) (map (\<lambda>b. of_nat (first_inst C b)) ls)) =
    Inr ((A @ label_bytes C i b) @ concat (map (label_bytes C i) ls) @ B)"
    by (rule Cons.IH) (use Cons.prems in simp_all)
  ultimately show ?case
    by (simp add: upt_conv_Cons map_Suc_upt [symmetric] comp_def ac_simps del: upt_Suc)
qed simp

lemma resolve_insts:
  assumes ok: "link_ok C" and r: "resolved C L" and xs: "set xs \<subseteq> set (layout C)" and small: "length A + total_size C xs < 2 ^ 29"
  shows "rfold (resolve_pair L) (A @ concat (map (open_inst C) xs)) (label_list C (length A) xs) =
    Inr (A @ concat (map (linked_inst C) xs))"
  using xs small
proof (induction xs arbitrary: A)
  case (Cons i xs)
  let ?ls = "labels_of C (irn C i)" and ?op = "of_nat (ir_num (irtype (irn C i))) :: u8"
  let ?B = "operand_bytes (irn C i) @ concat (map (open_inst C) xs)"
  have i: "i \<in> set (layout C)" using Cons.prems(1) by simp
  then have id: "irid (irn C i) = i" using ok by (simp add: link_ok_def)
  have "length (A @ [?op]) + 4 * length ?ls + length ?B < 2 ^ 29"
    using Cons.prems(2) length_open_code [of C xs] by (simp add: inst_size_def)
  note one = resolve_labels [OF ok r i order.refl this]
  have "label_targets C i = map (\<lambda>b. of_nat (first_inst C b)) ?ls"
    using link_ok_first [OF ok i] by (simp add: label_targets_def)
  then have "rfold (resolve_pair L) (A @ concat (map (open_inst C) (i # xs))) (zip (label_offsets (length A) C i) (label_targets C i)) =
      Inr ((A @ linked_inst C i) @ concat (map (open_inst C) xs))"
    using one by (simp add: open_inst_def linked_inst_def label_offsets_def id)
  moreover have "rfold (resolve_pair L) ((A @ linked_inst C i) @ concat (map (open_inst C) xs)) (label_list C (length (A @ linked_inst C i)) xs) =
      Inr ((A @ linked_inst C i) @ concat (map (linked_inst C) xs))"
    by (rule Cons.IH) (use Cons.prems in simp_all)
  ultimately show ?case by (simp add: rfold_append)
qed simp


lemma takeWhile_neq_take: "distinct xs \<Longrightarrow> k < length xs \<Longrightarrow> takeWhile (\<lambda>j. j \<noteq> xs ! k) xs = take k xs"
  by (rule takeWhile_eq_take_P_nth) (auto simp: nth_eq_iff_index_eq)

lemma addr_of_nth: "distinct (layout C) \<Longrightarrow> k < length (layout C) \<Longrightarrow> addr_of C (layout C ! k) = total_size C (take k (layout C))"
  by (simp add: addr_of_def takeWhile_neq_take)

lemma linked_code_at:
  assumes "distinct (layout C)" "i \<in> set (layout C)"
  shows "take (inst_size C (irn C i)) (drop (addr_of C i) (linked_code C)) = linked_inst C i"
proof -
  from assms(2) obtain k where k: "k < length (layout C)" "i = layout C ! k" by (auto simp: in_set_conv_nth)
  have "linked_code C = concat (map (linked_inst C) (take k (layout C))) @ linked_inst C i @ concat (map (linked_inst C) (drop (Suc k) (layout C)))"
    using k id_take_nth_drop [OF k(1)] unfolding linked_code_def by (metis concat.simps(2) concat_append list.simps(9) map_append)
  moreover have "length (concat (map (linked_inst C) xs)) = total_size C xs" for xs by (induction xs) simp_all
  moreover have "addr_of C i = total_size C (take k (layout C))" using addr_of_nth [OF assms(1) k(1)] k(2) by simp
  ultimately show ?thesis by simp
qed


text \<open>The blocks of the declaration \<open>s = .\<close> once they are simplified: the entry block, the exit block, which
is no longer in the program, and the failure block.\<close>

definition example_link :: compiler where
  "example_link =
     \<lparr>cstore = \<lparr>bheap = [\<lparr>bid = 0, btype = 7, insts = [0, 2], preds = [], succs = []\<rparr>,
          \<lparr>bid = 1, btype = 4, insts = [2], preds = [], succs = []\<rparr>,
          \<lparr>bid = 2, btype = 24, insts = [3], preds = [], succs = []\<rparr>],
        iheap = [Some \<lparr>irid = 0, irtype = IAny, parent = Some 0, irfail = 2, irarg = NoArg\<rparr>, None,
          Some \<lparr>irid = 2, irtype = IRet, parent = Some 1, irfail = 2, irarg = NoArg\<rparr>,
          Some \<lparr>irid = 3, irtype = IFail, parent = Some 2, irfail = 2, irarg = NoArg\<rparr>],
        max_block_id = 3, max_ir_id = 4\<rparr>,
      decls = [\<lparr>drefc = 1, dname = [0x73], dbody = E_Any, dinst = Some 0\<rparr>], blocks = [0, 2], cstrs = [], ctags = [], csets = []\<rparr>"


end
