(* ===== verification/Expr_Heap.thy ===== *)
theory Expr_Heap
  imports Compiler
begin

text \<open>
  The expressions of \<open>src/src/compiler/expression.c\<close> as they are built and rewritten: reference-counted
  cells on a heap, which point to each other and to the declarations. An expression pointer is an
  index; a freed cell is \<open>None\<close>. Sweeping clears a cell before it frees it. What a later read of the
  cell sees is not defined by C, so it is a parameter: with \<open>zeroed\<close> the memory still holds the
  zeros, and without it the read is an error. The growth of arrays is the business of \<open>KArray\<close>; here
  an array is the list of its elements.
\<close>

section \<open>The heap\<close>

type_synonym eptr = nat
type_synonym dptr = nat

datatype enode =
    N_Empty
  | N_Invoke name_t "dptr option"
  | N_Any
  | N_Byte u8
  | N_Str "u8 list"
  | N_Set bitset_t
  | N_And eptr
  | N_Choice "eptr list"
  | N_Fail
  | N_Not eptr
  | N_Option eptr
  | N_Sequence "eptr list"
  | N_Repetition "eptr list"
  | N_Tcapture
  | N_Tdetree
  | N_Tlfold
  | N_Tpush
  | N_Tpop name_t
  | N_Tnew
  | N_Treplace
  | N_Ttag name_t
  | N_Xblock eptr
  | N_Xexists name_t
  | N_Xif
  | N_Xis name_t
  | N_Xisa name_t
  | N_Xon
  | N_Xmatch
  | N_Xlocal name_t eptr
  | N_Xsymbol name_t eptr

record ecell =
  erefc :: nat
  enode :: enode

text \<open>A declaration while the syntax tree is built; \<open>body\<close> is NULL until its production is compiled.\<close>

record pdecl =
  prefc :: nat
  pname :: name_t
  pbody :: "eptr option"

record ast_heap =
  exprs :: "ecell option list"
  pdecls :: "pdecl option list"
  dlist :: "dptr list"
  zeroed :: bool

definition eread :: "ast_heap \<Rightarrow> eptr \<Rightarrow> ecell res" where
  "eread H p = rbind (aread (exprs H) p) (\<lambda>c. case c of
       Some c \<Rightarrow> Inr c
     | None \<Rightarrow> if zeroed H then Inr \<lparr>erefc = 0, enode = N_Empty\<rparr> else Inl NullDeref)"

definition ewrite :: "ast_heap \<Rightarrow> eptr \<Rightarrow> ecell \<Rightarrow> ast_heap res" where
  "ewrite H p c = rbind (aread (exprs H) p) (\<lambda>old. case old of
       Some _ \<Rightarrow> Inr (H\<lparr>exprs := (exprs H)[p := Some c]\<rparr>)
     | None \<Rightarrow> Inl NullDeref)"

definition dread :: "ast_heap \<Rightarrow> dptr \<Rightarrow> pdecl res" where
  "dread H d = rbind (aread (pdecls H) d) (\<lambda>c. case c of Some c \<Rightarrow> Inr c | None \<Rightarrow> Inl NullDeref)"

definition dwrite :: "ast_heap \<Rightarrow> dptr \<Rightarrow> pdecl option \<Rightarrow> ast_heap res" where
  "dwrite H d c = rbind (dread H d) (\<lambda>_. Inr (H\<lparr>pdecls := (pdecls H)[d := c]\<rparr>))"

text \<open>\<open>memset(e, 0, sizeof( *e)); VM_FREE(e);\<close>\<close>

definition efree :: "ast_heap \<Rightarrow> eptr \<Rightarrow> ast_heap res" where
  "efree H p = rbind (eread H p) (\<lambda>_. Inr (H\<lparr>exprs := (exprs H)[p := None]\<rparr>))"

text \<open>\<open>e->type\<close> with the fields of its structure, and an assignment to a field.\<close>

definition etype :: "ast_heap \<Rightarrow> eptr \<Rightarrow> enode res" where
  "etype H p = rbind (eread H p) (\<lambda>c. Inr (enode c))"

definition eput :: "ast_heap \<Rightarrow> eptr \<Rightarrow> enode \<Rightarrow> ast_heap res" where
  "eput H p n = rbind (eread H p) (\<lambda>c. ewrite H p (c\<lparr>enode := n\<rparr>))"

section \<open>Reference counts\<close>

definition expr_retain :: "ast_heap \<Rightarrow> eptr \<Rightarrow> ast_heap res" where
  "expr_retain H p = rbind (eread H p) (\<lambda>c. ewrite H p (c\<lparr>erefc := erefc c + 1\<rparr>))"

definition decl_retain :: "ast_heap \<Rightarrow> dptr \<Rightarrow> ast_heap res" where
  "decl_retain H d = rbind (dread H d) (\<lambda>c. dwrite H d (Some (c\<lparr>prefc := prefc c + 1\<rparr>)))"

definition expr_release :: "(ast_heap \<Rightarrow> eptr \<Rightarrow> ast_heap res) \<Rightarrow> ast_heap \<Rightarrow> eptr \<Rightarrow> ast_heap res" where
  "expr_release sweep H p =
     rbind (eread H p) (\<lambda>c. rbind (rassert (erefc c > 0)) (\<lambda>_.
     rbind (ewrite H p (c\<lparr>erefc := erefc c - 1\<rparr>)) (\<lambda>H.
       if erefc c - 1 = 0 then sweep H p else Inr H)))"

definition decl_release :: "(ast_heap \<Rightarrow> dptr \<Rightarrow> ast_heap res) \<Rightarrow> ast_heap \<Rightarrow> dptr \<Rightarrow> ast_heap res" where
  "decl_release sweep H d =
     rbind (dread H d) (\<lambda>c. rbind (rassert (prefc c > 0)) (\<lambda>_.
     rbind (dwrite H d (Some (c\<lparr>prefc := prefc c - 1\<rparr>))) (\<lambda>H.
       if prefc c - 1 = 0 then sweep H d else Inr H)))"

text \<open>The sweepers call each other; the budget bounds the depth. \<open>MOZ_RC_RELEASE\<close> of NULL is a null dereference.\<close>

definition release_body :: "(ast_heap \<Rightarrow> eptr \<Rightarrow> ast_heap res) \<Rightarrow> ast_heap \<Rightarrow> eptr option \<Rightarrow> ast_heap res" where
  "release_body sweep H b = (case b of None \<Rightarrow> Inl NullDeref | Some b \<Rightarrow> expr_release sweep H b)"

definition moz_decl_sweep :: "(ast_heap \<Rightarrow> eptr \<Rightarrow> ast_heap res) \<Rightarrow> ast_heap \<Rightarrow> dptr \<Rightarrow> ast_heap res" where
  "moz_decl_sweep sweep H d =
     rbind (dread H d) (\<lambda>c. rbind (release_body sweep H (pbody c)) (\<lambda>H. dwrite H d None))"

definition moz_Unary_sweep :: "(ast_heap \<Rightarrow> eptr \<Rightarrow> ast_heap res) \<Rightarrow> ast_heap \<Rightarrow> eptr \<Rightarrow> eptr \<Rightarrow> ast_heap res" where
  "moz_Unary_sweep sweep H p e = rbind (expr_release sweep H e) (\<lambda>H. efree H p)"

definition moz_NameUnary_sweep :: "(ast_heap \<Rightarrow> eptr \<Rightarrow> ast_heap res) \<Rightarrow> ast_heap \<Rightarrow> eptr \<Rightarrow> eptr \<Rightarrow> ast_heap res" where
  "moz_NameUnary_sweep sweep H p e = rbind (expr_release sweep H e) (\<lambda>H. efree H p)"

definition moz_Invoke_sweep :: "(ast_heap \<Rightarrow> eptr \<Rightarrow> ast_heap res) \<Rightarrow> ast_heap \<Rightarrow> eptr \<Rightarrow> dptr option \<Rightarrow> ast_heap res" where
  "moz_Invoke_sweep sweep H p d =
     (case d of None \<Rightarrow> Inl NullDeref
      | Some d \<Rightarrow> rbind (decl_release (moz_decl_sweep sweep) H d) (\<lambda>H. efree H p))"

definition moz_List_sweep :: "(ast_heap \<Rightarrow> eptr \<Rightarrow> ast_heap res) \<Rightarrow> ast_heap \<Rightarrow> eptr \<Rightarrow> eptr list \<Rightarrow> ast_heap res" where
  "moz_List_sweep sweep H p es = rbind (rfold (expr_release sweep) H es) (\<lambda>H. efree H p)"

definition moz_Expr_sweep :: "ast_heap \<Rightarrow> eptr \<Rightarrow> ast_heap res" where
  "moz_Expr_sweep H p = efree H p"

fun moz_expr_sweep :: "nat \<Rightarrow> ast_heap \<Rightarrow> eptr \<Rightarrow> ast_heap res" where
  "moz_expr_sweep 0 H p = Inl NoFuel"
| "moz_expr_sweep (Suc f) H p =
     rbind (etype H p) (\<lambda>n. case n of
         N_Invoke _ d \<Rightarrow> moz_Invoke_sweep (moz_expr_sweep f) H p d
       | N_And e \<Rightarrow> moz_Unary_sweep (moz_expr_sweep f) H p e
       | N_Not e \<Rightarrow> moz_Unary_sweep (moz_expr_sweep f) H p e
       | N_Option e \<Rightarrow> moz_Unary_sweep (moz_expr_sweep f) H p e
       | N_Xblock e \<Rightarrow> moz_Unary_sweep (moz_expr_sweep f) H p e
       | N_Choice es \<Rightarrow> moz_List_sweep (moz_expr_sweep f) H p es
       | N_Sequence es \<Rightarrow> moz_List_sweep (moz_expr_sweep f) H p es
       | N_Repetition es \<Rightarrow> moz_List_sweep (moz_expr_sweep f) H p es
       | N_Xlocal _ e \<Rightarrow> moz_NameUnary_sweep (moz_expr_sweep f) H p e
       | N_Xsymbol _ e \<Rightarrow> moz_NameUnary_sweep (moz_expr_sweep f) H p e
       | _ \<Rightarrow> moz_Expr_sweep H p)"

text \<open>A chain of nested sweeps frees a different cell or declaration at each level.\<close>

definition sweep_all :: "ast_heap \<Rightarrow> eptr \<Rightarrow> ast_heap res" where
  "sweep_all H = moz_expr_sweep (length (exprs H) + length (pdecls H) + 1) H"

text \<open>\<open>MOZ_RC_RELEASE(p, moz_expr_sweep)\<close> and \<open>MOZ_RC_RELEASE(d, moz_decl_sweep)\<close> outside a sweep.\<close>

definition RELEASE_expr :: "ast_heap \<Rightarrow> eptr \<Rightarrow> ast_heap res" where
  "RELEASE_expr H p = expr_release sweep_all H p"

definition RELEASE_decl :: "ast_heap \<Rightarrow> dptr \<Rightarrow> ast_heap res" where
  "RELEASE_decl H d = decl_release (moz_decl_sweep sweep_all) H d"

section \<open>Allocation\<close>

text \<open>\<open>EXPR_ALLOC\<close>: the count is 0.\<close>

definition EXPR_ALLOC :: "ast_heap \<Rightarrow> enode \<Rightarrow> (eptr \<times> ast_heap) res" where
  "EXPR_ALLOC H n = Inr (length (exprs H), H\<lparr>exprs := exprs H @ [Some \<lparr>erefc = 0, enode = n\<rparr>]\<rparr>)"

text \<open>\<open>MOZ_RC_INIT_FIELD\<close> on a field of a structure that was just allocated.\<close>

definition expr_alloc1 :: "ast_heap \<Rightarrow> (eptr \<Rightarrow> enode) \<Rightarrow> eptr \<Rightarrow> (eptr \<times> ast_heap) res" where
  "expr_alloc1 H K e =
     rbind (EXPR_ALLOC H (K e)) (\<lambda>(p, H). rbind (expr_retain H e) (\<lambda>H. Inr (p, H)))"

definition moz_expr_new_Invoke :: "ast_heap \<Rightarrow> name_t \<Rightarrow> dptr option \<Rightarrow> (eptr \<times> ast_heap) res" where
  "moz_expr_new_Invoke H name d =
     rbind (EXPR_ALLOC H (N_Invoke name d)) (\<lambda>(p, H).
       case d of None \<Rightarrow> Inr (p, H) | Some d \<Rightarrow> rbind (decl_retain H d) (\<lambda>H. Inr (p, H)))"

definition moz_expr_new_Any :: "ast_heap \<Rightarrow> (eptr \<times> ast_heap) res" where
  "moz_expr_new_Any H = EXPR_ALLOC H N_Any"

definition moz_expr_new_Byte :: "ast_heap \<Rightarrow> u8 \<Rightarrow> (eptr \<times> ast_heap) res" where
  "moz_expr_new_Byte H b = EXPR_ALLOC H (N_Byte b)"

definition moz_expr_new_Str :: "ast_heap \<Rightarrow> u8 list \<Rightarrow> (eptr \<times> ast_heap) res" where
  "moz_expr_new_Str H t = rbind (rassert (length t > 0)) (\<lambda>_. EXPR_ALLOC H (N_Str t))"

text \<open>\<open>data\<close> holds the pairs of the first and the last character of a range.\<close>

definition set_range :: "bitset_t \<Rightarrow> u32 \<times> u32 \<Rightarrow> bitset_t res" where
  "set_range s r = (case r of (ch1, ch2) \<Rightarrow>
     rbind (rassert (\<not> (ch1 > 256 \<or> ch2 > 256))) (\<lambda>_. rfold bitset_set s [unat ch1..<unat ch2 + 1]))"

definition moz_expr_new_Set :: "ast_heap \<Rightarrow> (u32 \<times> u32) list \<Rightarrow> (eptr \<times> ast_heap) res" where
  "moz_expr_new_Set H data =
     rbind (rfold set_range (bitset_init \<lparr>bdata = []\<rparr>) data) (\<lambda>s. EXPR_ALLOC H (N_Set s))"

definition moz_expr_new_And :: "ast_heap \<Rightarrow> eptr \<Rightarrow> (eptr \<times> ast_heap) res" where
  "moz_expr_new_And H e = expr_alloc1 H N_And e"

definition moz_expr_new_Choice :: "ast_heap \<Rightarrow> (eptr \<times> ast_heap) res" where
  "moz_expr_new_Choice H = EXPR_ALLOC H (N_Choice [])"

definition moz_expr_new_Empty :: "ast_heap \<Rightarrow> (eptr \<times> ast_heap) res" where
  "moz_expr_new_Empty H = EXPR_ALLOC H N_Empty"

definition moz_expr_new_Fail :: "ast_heap \<Rightarrow> (eptr \<times> ast_heap) res" where
  "moz_expr_new_Fail H = EXPR_ALLOC H N_Fail"

definition moz_expr_new_Not :: "ast_heap \<Rightarrow> eptr \<Rightarrow> (eptr \<times> ast_heap) res" where
  "moz_expr_new_Not H e = expr_alloc1 H N_Not e"

definition moz_expr_new_Option :: "ast_heap \<Rightarrow> eptr \<Rightarrow> (eptr \<times> ast_heap) res" where
  "moz_expr_new_Option H e = expr_alloc1 H N_Option e"

definition moz_expr_new_Sequence :: "ast_heap \<Rightarrow> (eptr \<times> ast_heap) res" where
  "moz_expr_new_Sequence H = EXPR_ALLOC H (N_Sequence [])"

definition moz_expr_new_Repetition :: "ast_heap \<Rightarrow> (eptr \<times> ast_heap) res" where
  "moz_expr_new_Repetition H = EXPR_ALLOC H (N_Repetition [])"

definition moz_expr_new_Tpush :: "ast_heap \<Rightarrow> (eptr \<times> ast_heap) res" where
  "moz_expr_new_Tpush H = EXPR_ALLOC H N_Tpush"

definition moz_expr_new_Tpop :: "ast_heap \<Rightarrow> name_t \<Rightarrow> (eptr \<times> ast_heap) res" where
  "moz_expr_new_Tpop H name = EXPR_ALLOC H (N_Tpop name)"

definition moz_expr_new_Tcapture :: "ast_heap \<Rightarrow> (eptr \<times> ast_heap) res" where
  "moz_expr_new_Tcapture H = EXPR_ALLOC H N_Tcapture"

text \<open>\<open>assert(0 && "TODO")\<close>: \<open>Tdetree\<close>, \<open>Tlfold\<close>, \<open>Treplace\<close>, \<open>Xif\<close>, \<open>Xmatch\<close> and \<open>Xon\<close>.\<close>

definition moz_expr_new_todo :: "ast_heap \<Rightarrow> enode \<Rightarrow> (eptr \<times> ast_heap) res" where
  "moz_expr_new_todo H n = rbind (rassert False) (\<lambda>_. EXPR_ALLOC H n)"

definition moz_expr_new_Tnew :: "ast_heap \<Rightarrow> (eptr \<times> ast_heap) res" where
  "moz_expr_new_Tnew H = EXPR_ALLOC H N_Tnew"

definition moz_expr_new_Ttag :: "ast_heap \<Rightarrow> name_t \<Rightarrow> (eptr \<times> ast_heap) res" where
  "moz_expr_new_Ttag H name = EXPR_ALLOC H (N_Ttag name)"

definition moz_expr_new_Xblock :: "ast_heap \<Rightarrow> eptr \<Rightarrow> (eptr \<times> ast_heap) res" where
  "moz_expr_new_Xblock H e = expr_alloc1 H N_Xblock e"

definition moz_expr_new_Xexists :: "ast_heap \<Rightarrow> name_t \<Rightarrow> (eptr \<times> ast_heap) res" where
  "moz_expr_new_Xexists H name = EXPR_ALLOC H (N_Xexists name)"

definition moz_expr_new_Xis :: "ast_heap \<Rightarrow> name_t \<Rightarrow> (eptr \<times> ast_heap) res" where
  "moz_expr_new_Xis H name = EXPR_ALLOC H (N_Xis name)"

definition moz_expr_new_Xisa :: "ast_heap \<Rightarrow> name_t \<Rightarrow> (eptr \<times> ast_heap) res" where
  "moz_expr_new_Xisa H name = EXPR_ALLOC H (N_Xisa name)"

definition moz_expr_new_Xlocal :: "ast_heap \<Rightarrow> name_t \<Rightarrow> eptr \<Rightarrow> (eptr \<times> ast_heap) res" where
  "moz_expr_new_Xlocal H name e = expr_alloc1 H (N_Xlocal name) e"

definition moz_expr_new_Xsymbol :: "ast_heap \<Rightarrow> name_t \<Rightarrow> eptr \<Rightarrow> (eptr \<times> ast_heap) res" where
  "moz_expr_new_Xsymbol H name e = expr_alloc1 H (N_Xsymbol name) e"

text \<open>\<open>ARRAY_add(expr_ptr_t, &e->list, x)\<close> for the three structures with a list.\<close>

fun node_list :: "enode \<Rightarrow> eptr list res" where
  "node_list (N_Choice es) = Inr es"
| "node_list (N_Sequence es) = Inr es"
| "node_list (N_Repetition es) = Inr es"
| "node_list _ = Inl BadSlot"

fun set_node_list :: "enode \<Rightarrow> eptr list \<Rightarrow> enode" where
  "set_node_list (N_Choice _) es = N_Choice es"
| "set_node_list (N_Sequence _) es = N_Sequence es"
| "set_node_list (N_Repetition _) es = N_Repetition es"
| "set_node_list n es = n"

definition get_list :: "ast_heap \<Rightarrow> eptr \<Rightarrow> eptr list res" where
  "get_list H p = rbind (etype H p) node_list"

definition put_list :: "ast_heap \<Rightarrow> eptr \<Rightarrow> eptr list \<Rightarrow> ast_heap res" where
  "put_list H p es = rbind (etype H p) (\<lambda>n. rbind (node_list n) (\<lambda>_. eput H p (set_node_list n es)))"

definition list_add :: "ast_heap \<Rightarrow> eptr \<Rightarrow> eptr \<Rightarrow> ast_heap res" where
  "list_add H p x = rbind (get_list H p) (\<lambda>es. put_list H p (es @ [x]))"

section \<open>Declarations\<close>

definition moz_decl_new :: "ast_heap \<Rightarrow> name_t \<Rightarrow> (dptr \<times> ast_heap) res" where
  "moz_decl_new H name =
     Inr (length (pdecls H),
       H\<lparr>pdecls := pdecls H @ [Some \<lparr>prefc = 0, pname = name, pbody = None\<rparr>], dlist := dlist H @ [length (pdecls H)]\<rparr>)"

definition moz_decl_mark_as_top_level :: "ast_heap \<Rightarrow> dptr \<Rightarrow> ast_heap res" where
  "moz_decl_mark_as_top_level H d = decl_retain H d"

definition moz_decl_use_once :: "ast_heap \<Rightarrow> dptr \<Rightarrow> bool res" where
  "moz_decl_use_once H d = rbind (dread H d) (\<lambda>c. Inr (prefc c = 2))"

definition isByteOrSet :: "enode \<Rightarrow> bool" where
  "isByteOrSet n = (case n of N_Byte _ \<Rightarrow> True | N_Set _ \<Rightarrow> True | _ \<Rightarrow> False)"

text \<open>The recursion, with a budget for its depth; the loop over a list stops at the first expression that is not.\<close>

definition all_pattern :: "(ast_heap \<Rightarrow> eptr \<Rightarrow> bool res) \<Rightarrow> ast_heap \<Rightarrow> eptr list \<Rightarrow> bool res" where
  "all_pattern rec H es = rfold (\<lambda>b x. if \<not> b then Inr False else rec H x) True es"

fun isPatternMatchOnly :: "nat \<Rightarrow> ast_heap \<Rightarrow> eptr \<Rightarrow> bool res" where
  "isPatternMatchOnly 0 H p = Inl NoFuel"
| "isPatternMatchOnly (Suc f) H p =
     rbind (etype H p) (\<lambda>n. case n of
         N_Empty \<Rightarrow> Inr True | N_Any \<Rightarrow> Inr True | N_Byte _ \<Rightarrow> Inr True | N_Str _ \<Rightarrow> Inr True
       | N_Set _ \<Rightarrow> Inr True | N_Fail \<Rightarrow> Inr True
       | N_Invoke _ _ \<Rightarrow> Inr False
       | N_And e \<Rightarrow> isPatternMatchOnly f H e
       | N_Not e \<Rightarrow> isPatternMatchOnly f H e
       | N_Option e \<Rightarrow> isPatternMatchOnly f H e
       | N_Choice es \<Rightarrow> all_pattern (isPatternMatchOnly f) H es
       | N_Sequence es \<Rightarrow> all_pattern (isPatternMatchOnly f) H es
       | N_Repetition es \<Rightarrow> all_pattern (isPatternMatchOnly f) H es
       | _ \<Rightarrow> Inr False)"

end
