(* ===== verification/Expr_Opt.thy ===== *)
theory Expr_Opt
  imports Expr_Heap
begin

text \<open>
  The optimiser of the syntax tree, \<open>moz_ast_optimize\<close> in \<open>src/src/compiler/expression.c\<close>: inlining of
  declarations, choices of bytes as sets, flattening of sequences and merging of strings. An
  expression is rewritten in place or replaced in the field that points to it, its location.
\<close>

section \<open>Locations\<close>

text \<open>The \<open>expr_t **ref\<close> of the optimiser: the body of a declaration, the only child of an expression, or an
element of its list.\<close>

datatype loc = LBody dptr | LUnary eptr | LElem eptr nat

fun node_child :: "enode \<Rightarrow> eptr res" where
  "node_child (N_And e) = Inr e"
| "node_child (N_Not e) = Inr e"
| "node_child (N_Option e) = Inr e"
| "node_child (N_Xblock e) = Inr e"
| "node_child (N_Xlocal _ e) = Inr e"
| "node_child (N_Xsymbol _ e) = Inr e"
| "node_child _ = Inl BadSlot"

fun set_node_child :: "enode \<Rightarrow> eptr \<Rightarrow> enode" where
  "set_node_child (N_And _) e = N_And e"
| "set_node_child (N_Not _) e = N_Not e"
| "set_node_child (N_Option _) e = N_Option e"
| "set_node_child (N_Xblock _) e = N_Xblock e"
| "set_node_child (N_Xlocal n _) e = N_Xlocal n e"
| "set_node_child (N_Xsymbol n _) e = N_Xsymbol n e"
| "set_node_child n e = n"

definition loc_read :: "ast_heap \<Rightarrow> loc \<Rightarrow> eptr res" where
  "loc_read H l = (case l of
       LBody d \<Rightarrow> rbind (dread H d) (\<lambda>c. case pbody c of None \<Rightarrow> Inl NullDeref | Some b \<Rightarrow> Inr b)
     | LUnary p \<Rightarrow> rbind (etype H p) node_child
     | LElem p i \<Rightarrow> rbind (get_list H p) (\<lambda>es. aread es i))"

definition loc_write :: "ast_heap \<Rightarrow> loc \<Rightarrow> eptr \<Rightarrow> ast_heap res" where
  "loc_write H l x = (case l of
       LBody d \<Rightarrow> rbind (dread H d) (\<lambda>c. dwrite H d (Some (c\<lparr>pbody := Some x\<rparr>)))
     | LUnary p \<Rightarrow> rbind (etype H p) (\<lambda>n. rbind (node_child n) (\<lambda>_. eput H p (set_node_child n x)))
     | LElem p i \<Rightarrow> rbind (get_list H p) (\<lambda>es. rbind (awrite es i x) (\<lambda>es. put_list H p es)))"

text \<open>\<open>MOZ_RC_ASSIGN( *ref, o, moz_expr_sweep)\<close>\<close>

definition RC_ASSIGN :: "ast_heap \<Rightarrow> loc \<Rightarrow> eptr \<Rightarrow> ast_heap res" where
  "RC_ASSIGN H ref x =
     rbind (expr_retain H x) (\<lambda>H. rbind (loc_read H ref) (\<lambda>v. rbind (RELEASE_expr H v) (\<lambda>H. loc_write H ref x)))"

text \<open>\<open>ARRAY_dispose\<close> of the list of a structure that may just have been freed: the list of cleared
memory is NULL.\<close>

definition dispose_list :: "ast_heap \<Rightarrow> eptr \<Rightarrow> ast_heap res" where
  "dispose_list H p = rbind (etype H p) (\<lambda>n. case n of N_Empty \<Rightarrow> Inr H | _ \<Rightarrow> put_list H p [])"

section \<open>The rewriting of an expression\<close>

type_synonym optimizer = "ast_heap \<Rightarrow> loc \<Rightarrow> eptr \<Rightarrow> (bool \<times> ast_heap) res"

definition moz_Unary_optimize :: "optimizer \<Rightarrow> ast_heap \<Rightarrow> eptr \<Rightarrow> eptr \<Rightarrow> (bool \<times> ast_heap) res" where
  "moz_Unary_optimize rec H e child = rec H (LUnary e) child"

definition moz_NameUnary_optimize :: "optimizer \<Rightarrow> ast_heap \<Rightarrow> eptr \<Rightarrow> eptr \<Rightarrow> (bool \<times> ast_heap) res" where
  "moz_NameUnary_optimize rec H e child = rec H (LUnary e) child"

definition moz_Not_optimize :: "optimizer \<Rightarrow> ast_heap \<Rightarrow> eptr \<Rightarrow> eptr \<Rightarrow> (bool \<times> ast_heap) res" where
  "moz_Not_optimize rec H e child = rec H (LUnary e) child"

definition moz_Option_optimize :: "optimizer \<Rightarrow> ast_heap \<Rightarrow> eptr \<Rightarrow> eptr \<Rightarrow> (bool \<times> ast_heap) res" where
  "moz_Option_optimize rec H e child = rec H (LUnary e) child"

text \<open>The loop of \<open>_moz_List_optimize\<close>, \<open>moz_Sequence_optimize\<close> and \<open>moz_Repetition_optimize\<close>.\<close>

definition optimize_elem :: "optimizer \<Rightarrow> eptr \<Rightarrow> bool \<times> ast_heap \<Rightarrow> nat \<Rightarrow> (bool \<times> ast_heap) res" where
  "optimize_elem rec e st i = (case st of (modified, H) \<Rightarrow>
     rbind (loc_read H (LElem e i)) (\<lambda>x. rbind (rec H (LElem e i) x) (\<lambda>(m, H). Inr (modified \<or> m, H))))"

definition moz_List_optimize :: "optimizer \<Rightarrow> ast_heap \<Rightarrow> eptr \<Rightarrow> (bool \<times> ast_heap) res" where
  "moz_List_optimize rec H e =
     rbind (get_list H e) (\<lambda>es. rfold (optimize_elem rec e) (False, H) [0..<length es])"

definition moz_ast_do_inline :: "ast_heap \<Rightarrow> loc \<Rightarrow> eptr \<Rightarrow> dptr \<Rightarrow> ast_heap res" where
  "moz_ast_do_inline H ref e d =
     rbind (loc_read H ref) (\<lambda>v. rbind (rassert (v = e)) (\<lambda>_. rbind (dread H d) (\<lambda>c.
       case pbody c of None \<Rightarrow> Inl NullDeref | Some b \<Rightarrow> RC_ASSIGN H ref b)))"

text \<open>The depth of an expression is at most the number of cells, unless expressions form a cycle.\<close>

definition pattern_body :: "ast_heap \<Rightarrow> dptr \<Rightarrow> bool res" where
  "pattern_body H d = rbind (dread H d) (\<lambda>c. case pbody c of None \<Rightarrow> Inl NullDeref
     | Some b \<Rightarrow> isPatternMatchOnly (length (exprs H) + 1) H b)"

definition single_body :: "ast_heap \<Rightarrow> dptr \<Rightarrow> bool res" where
  "single_body H d = rbind (dread H d) (\<lambda>c. rbind (rassert (pbody c \<noteq> None)) (\<lambda>_.
     rbind (etype H (the (pbody c))) (\<lambda>n. Inr (case n of
         N_Empty \<Rightarrow> True | N_Any \<Rightarrow> True | N_Byte _ \<Rightarrow> True | N_Str _ \<Rightarrow> True | N_Set _ \<Rightarrow> True | N_Fail \<Rightarrow> True
       | _ \<Rightarrow> False))))"

definition moz_Invoke_optimize :: "ast_heap \<Rightarrow> loc \<Rightarrow> eptr \<Rightarrow> dptr option \<Rightarrow> (bool \<times> ast_heap) res" where
  "moz_Invoke_optimize H ref e d =
     (case d of None \<Rightarrow> Inr (False, H)
      | Some d \<Rightarrow>
          rbind (moz_decl_use_once H d) (\<lambda>once.
          rbind (if once then Inr True else pattern_body H d) (\<lambda>b.
            if b then rbind (moz_ast_do_inline H ref e d) (\<lambda>H. Inr (True, H))
            else rbind (single_body H d) (\<lambda>b.
              if b then rbind (moz_ast_do_inline H ref e d) (\<lambda>H. Inr (True, H)) else Inr (False, H)))))"

definition useByteMapOptimization :: "ast_heap \<Rightarrow> eptr list \<Rightarrow> bool res" where
  "useByteMapOptimization H es =
     rfold (\<lambda>b x. if \<not> b then Inr False
        else rbind (etype H x) (\<lambda>n. case n of
            N_Byte _ \<Rightarrow> Inr True
          | N_Set _ \<Rightarrow> Inr True
          | N_Not y \<Rightarrow> rbind (etype H y) (\<lambda>n. Inr (isByteOrSet n))
          | _ \<Rightarrow> Inr False)) True es"

text \<open>One turn of the loop that builds the set; the branch for \<open>Not\<close> starts with \<open>assert(0 && "not tested")\<close>.\<close>

definition put_node :: "bitset_t \<Rightarrow> enode \<Rightarrow> bitset_t res" where
  "put_node s n = (case n of
       N_Byte b \<Rightarrow> rbind (bitset_set s (unat b)) (\<lambda>s. Inr (bitset_or s (bitset_init \<lparr>bdata = []\<rparr>)))
     | N_Set t \<Rightarrow> Inr (bitset_or (bitset_or s t) (bitset_init \<lparr>bdata = []\<rparr>))
     | N_Not _ \<Rightarrow> Inl AssertFail
     | _ \<Rightarrow> Inr (bitset_or s (bitset_init \<lparr>bdata = []\<rparr>)))"

definition moz_Choice_optimize :: "optimizer \<Rightarrow> ast_heap \<Rightarrow> loc \<Rightarrow> eptr \<Rightarrow> (bool \<times> ast_heap) res" where
  "moz_Choice_optimize rec H ref e =
     rbind (moz_List_optimize rec H e) (\<lambda>(modified, H). rbind (get_list H e) (\<lambda>es.
       if length es = 1 then
         rbind (RC_ASSIGN H ref (es ! 0)) (\<lambda>H. rbind (dispose_list H e) (\<lambda>H. Inr (True, H)))
       else rbind (useByteMapOptimization H es) (\<lambda>b.
         if b then
           rbind (EXPR_ALLOC H (N_Set (bitset_init \<lparr>bdata = []\<rparr>))) (\<lambda>(p, H).
           rbind (rfold (\<lambda>s x. rbind (etype H x) (put_node s)) (bitset_init \<lparr>bdata = []\<rparr>) es) (\<lambda>s.
           rbind (eput H p (N_Set s)) (\<lambda>H. rbind (RC_ASSIGN H ref p) (\<lambda>H. Inr (True, H)))))
         else Inr (modified, H))))"

section \<open>Sequences\<close>

text \<open>\<open>ARRAY_remove\<close> and \<open>ARRAY_insert\<close> on the list of an expression.\<close>

definition list_remove :: "ast_heap \<Rightarrow> eptr \<Rightarrow> nat \<Rightarrow> ast_heap res" where
  "list_remove H e i =
     rbind (get_list H e) (\<lambda>es. rbind (rassert (length es > 0)) (\<lambda>_. rbind (aread es i) (\<lambda>_.
       put_list H e (take i es @ drop (i + 1) es))))"

definition list_insert :: "ast_heap \<Rightarrow> eptr \<Rightarrow> nat \<Rightarrow> eptr \<Rightarrow> ast_heap res" where
  "list_insert H e i x =
     rbind (get_list H e) (\<lambda>es. rbind (rassert (i \<le> length es)) (\<lambda>_. put_list H e (take i es @ x # drop i es)))"

definition list_set :: "ast_heap \<Rightarrow> eptr \<Rightarrow> nat \<Rightarrow> eptr \<Rightarrow> ast_heap res" where
  "list_set H e i x = rbind (get_list H e) (\<lambda>es. rbind (awrite es i x) (put_list H e))"

text \<open>The elements of \<open>seq\<close> are inserted at the offset, one behind the other.\<close>

definition flatten_elem :: "eptr \<Rightarrow> nat \<Rightarrow> eptr \<Rightarrow> ast_heap \<Rightarrow> nat \<Rightarrow> ast_heap res" where
  "flatten_elem e offset seq H i =
     rbind (loc_read H (LElem seq i)) (\<lambda>x. rbind (list_insert H e (offset + i) x) (\<lambda>H. expr_retain H x))"

definition moz_Sequence_do_flatten :: "ast_heap \<Rightarrow> eptr \<Rightarrow> nat \<Rightarrow> eptr \<Rightarrow> ast_heap res" where
  "moz_Sequence_do_flatten H e offset seq =
     rbind (list_remove H e offset) (\<lambda>H. rbind (get_list H seq) (\<lambda>xs.
     rbind (rfold (flatten_elem e offset seq) H [0..<length xs]) (\<lambda>H. RELEASE_expr H seq)))"

definition moz_Sequence_concatString :: "ast_heap \<Rightarrow> u8 list \<Rightarrow> u8 list \<Rightarrow> (eptr \<times> ast_heap) res" where
  "moz_Sequence_concatString H s1 s2 = EXPR_ALLOC H (N_Str (s1 @ s2))"

definition moz_Sequence_concatByte :: "ast_heap \<Rightarrow> u8 \<Rightarrow> u8 \<Rightarrow> (eptr \<times> ast_heap) res" where
  "moz_Sequence_concatByte H b1 b2 = EXPR_ALLOC H (N_Str [b1, b2])"

text \<open>The four steps of a turn of \<open>_moz_Sequence_optimize\<close>; \<open>child\<close> stays the expression read at the start
of the turn. \<open>has_next\<close> is \<open>i + 1 < (int)ARRAY_size(e->list)\<close>.\<close>

definition has_next :: "ast_heap \<Rightarrow> eptr \<Rightarrow> nat \<Rightarrow> bool res" where
  "has_next H e i = rbind (get_list H e) (\<lambda>es. Inr (i + 1 < length es))"

definition seq_flatten :: "eptr \<Rightarrow> nat \<Rightarrow> eptr \<Rightarrow> bool \<times> ast_heap \<Rightarrow> (bool \<times> ast_heap) res" where
  "seq_flatten e i child st = (case st of (modified, H) \<Rightarrow>
     rbind (etype H child) (\<lambda>n. case n of
         N_Sequence _ \<Rightarrow> rbind (moz_Sequence_do_flatten H e i child) (\<lambda>H. Inr (True, H))
       | _ \<Rightarrow> Inr (modified, H)))"

definition seq_bytes :: "eptr \<Rightarrow> nat \<Rightarrow> eptr \<Rightarrow> bool \<times> ast_heap \<Rightarrow> (bool \<times> ast_heap) res" where
  "seq_bytes e i child st = (case st of (modified, H) \<Rightarrow>
     rbind (etype H child) (\<lambda>n. case n of
         N_Byte b1 \<Rightarrow> rbind (has_next H e i) (\<lambda>more. if \<not> more then Inr (modified, H) else
           rbind (loc_read H (LElem e (i + 1))) (\<lambda>child2. rbind (etype H child2) (\<lambda>n2. case n2 of
               N_Byte b2 \<Rightarrow>
                 rbind (moz_Sequence_concatByte H b1 b2) (\<lambda>(p, H). rbind (list_set H e i p) (\<lambda>H.
                 rbind (expr_retain H p) (\<lambda>H. rbind (RELEASE_expr H child) (\<lambda>H.
                 rbind (RELEASE_expr H child2) (\<lambda>H. rbind (list_remove H e (i + 1)) (\<lambda>H. Inr (True, H)))))))
             | _ \<Rightarrow> Inr (modified, H))))
       | _ \<Rightarrow> Inr (modified, H)))"

text \<open>Every turn of the \<open>while\<close> loop that goes on shortens the list.\<close>

fun seq_strings :: "nat \<Rightarrow> eptr \<Rightarrow> nat \<Rightarrow> eptr \<Rightarrow> bool \<times> ast_heap \<Rightarrow> (bool \<times> ast_heap) res" where
  "seq_strings 0 e i child st = Inl NoFuel"
| "seq_strings (Suc f) e i child (modified, H) =
     rbind (etype H child) (\<lambda>n. case n of
         N_Str s1 \<Rightarrow> rbind (has_next H e i) (\<lambda>more. if \<not> more then Inr (modified, H) else
           rbind (loc_read H (LElem e (i + 1))) (\<lambda>child2. rbind (etype H child2) (\<lambda>n2. case n2 of
               N_Byte b \<Rightarrow>
                 rbind (eput H child (N_Str (s1 @ [b]))) (\<lambda>H. rbind (RELEASE_expr H child2) (\<lambda>H.
                 rbind (list_remove H e (i + 1)) (\<lambda>H. seq_strings f e i child (True, H))))
             | N_Str s2 \<Rightarrow>
                 rbind (moz_Sequence_concatString H s1 s2) (\<lambda>(p, H). rbind (list_set H e i p) (\<lambda>H.
                 rbind (eput H child (N_Str [])) (\<lambda>H. rbind (eput H child2 (N_Str [])) (\<lambda>H.
                 rbind (list_remove H e (i + 1)) (\<lambda>H. rbind (expr_retain H p) (\<lambda>H.
                 rbind (RELEASE_expr H child) (\<lambda>H. rbind (RELEASE_expr H child2) (\<lambda>H.
                   seq_strings f e i child (True, H)))))))))
             | _ \<Rightarrow> Inr (modified, H))))
       | _ \<Rightarrow> Inr (modified, H))"

definition seq_not_any :: "eptr \<Rightarrow> nat \<Rightarrow> eptr \<Rightarrow> bool \<times> ast_heap \<Rightarrow> (bool \<times> ast_heap) res" where
  "seq_not_any e i child st = (case st of (modified, H) \<Rightarrow>
     rbind (etype H child) (\<lambda>n. case n of
         N_Not x \<Rightarrow> rbind (has_next H e i) (\<lambda>more. if \<not> more then Inr (modified, H) else
           rbind (loc_read H (LElem e (i + 1))) (\<lambda>child2. rbind (etype H x) (\<lambda>nx. case nx of
               N_Byte b \<Rightarrow> rbind (etype H child2) (\<lambda>n2. case n2 of
                   N_Any \<Rightarrow>
                     rbind (bitset_set (bitset_init \<lparr>bdata = []\<rparr>) (unat b)) (\<lambda>s. rbind (bitset_set s 0) (\<lambda>s.
                     rbind (EXPR_ALLOC H (N_Set (bitset_flip s))) (\<lambda>(p, H).
                     rbind (list_set H e i p) (\<lambda>H. rbind (list_remove H e (i + 1)) (\<lambda>H.
                     rbind (expr_retain H p) (\<lambda>H. rbind (RELEASE_expr H child) (\<lambda>H.
                     rbind (RELEASE_expr H child2) (\<lambda>H. Inr (True, H)))))))))
                 | _ \<Rightarrow> Inr (modified, H))
             | _ \<Rightarrow> Inr (modified, H))))
       | _ \<Rightarrow> Inr (modified, H)))"

text \<open>The loop over the elements; its length changes as it runs.\<close>

fun seq_loop :: "nat \<Rightarrow> eptr \<Rightarrow> nat \<Rightarrow> bool \<times> ast_heap \<Rightarrow> (bool \<times> ast_heap) res" where
  "seq_loop 0 e i st = Inl NoFuel"
| "seq_loop (Suc f) e i (modified, H) =
     rbind (get_list H e) (\<lambda>es.
       if \<not> i < length es then Inr (modified, H)
       else
         let child = es ! i
         in rbind (seq_flatten e i child (modified, H)) (\<lambda>st. rbind (seq_bytes e i child st) (\<lambda>st.
            rbind (seq_strings f e i child st) (\<lambda>st. rbind (seq_not_any e i child st) (\<lambda>st.
              seq_loop f e (i + 1) st)))))"

definition moz_Sequence_optimize_list :: "nat \<Rightarrow> ast_heap \<Rightarrow> eptr \<Rightarrow> (bool \<times> ast_heap) res" where
  "moz_Sequence_optimize_list f H e = seq_loop f e 0 (False, H)"

text \<open>The loop that removes the empty expressions runs from the last element to the first.\<close>

definition remove_empty :: "eptr \<Rightarrow> bool \<times> ast_heap \<Rightarrow> nat \<Rightarrow> (bool \<times> ast_heap) res" where
  "remove_empty e st i = (case st of (modified, H) \<Rightarrow>
     rbind (loc_read H (LElem e i)) (\<lambda>child. rbind (etype H child) (\<lambda>n. case n of
         N_Empty \<Rightarrow> rbind (list_remove H e i) (\<lambda>H. rbind (RELEASE_expr H child) (\<lambda>H. Inr (True, H)))
       | _ \<Rightarrow> Inr (modified, H))))"

definition moz_Sequence_optimize :: "nat \<Rightarrow> optimizer \<Rightarrow> ast_heap \<Rightarrow> loc \<Rightarrow> eptr \<Rightarrow> (bool \<times> ast_heap) res" where
  "moz_Sequence_optimize f rec H ref e =
     rbind (moz_List_optimize rec H e) (\<lambda>(m1, H).
     rbind (moz_Sequence_optimize_list f H e) (\<lambda>(m2, H).
     rbind (get_list H e) (\<lambda>es.
     rbind (rfold (remove_empty e) (m1 \<or> m2, H) (rev [0..<length es])) (\<lambda>(modified, H).
     rbind (get_list H e) (\<lambda>es.
       if length es = 1 then
         rbind (RC_ASSIGN H ref (es ! 0)) (\<lambda>H. rbind (dispose_list H e) (\<lambda>H. Inr (True, H)))
       else Inr (modified, H))))))"

definition moz_Repetition_optimize :: "optimizer \<Rightarrow> ast_heap \<Rightarrow> eptr \<Rightarrow> (bool \<times> ast_heap) res" where
  "moz_Repetition_optimize rec H e = moz_List_optimize rec H e"

text \<open>The budget bounds the depth of the recursion and the loops over a sequence.\<close>

fun moz_expr_optimize :: "nat \<Rightarrow> ast_heap \<Rightarrow> loc \<Rightarrow> eptr \<Rightarrow> (bool \<times> ast_heap) res" where
  "moz_expr_optimize 0 H ref e = Inl NoFuel"
| "moz_expr_optimize (Suc f) H ref e =
     rbind (etype H e) (\<lambda>n. case n of
         N_Invoke _ d \<Rightarrow> moz_Invoke_optimize H ref e d
       | N_And x \<Rightarrow> moz_Unary_optimize (moz_expr_optimize f) H e x
       | N_Choice _ \<Rightarrow> moz_Choice_optimize (moz_expr_optimize f) H ref e
       | N_Not x \<Rightarrow> moz_Not_optimize (moz_expr_optimize f) H e x
       | N_Option x \<Rightarrow> moz_Option_optimize (moz_expr_optimize f) H e x
       | N_Sequence _ \<Rightarrow> moz_Sequence_optimize f (moz_expr_optimize f) H ref e
       | N_Repetition _ \<Rightarrow> moz_Repetition_optimize (moz_expr_optimize f) H e
       | N_Xblock x \<Rightarrow> moz_Unary_optimize (moz_expr_optimize f) H e x
       | N_Xlocal _ x \<Rightarrow> moz_NameUnary_optimize (moz_expr_optimize f) H e x
       | N_Xsymbol _ x \<Rightarrow> moz_NameUnary_optimize (moz_expr_optimize f) H e x
       | _ \<Rightarrow> Inr (False, H))"

section \<open>The declarations\<close>

definition moz_ast_mark_live_decl :: "ast_heap \<Rightarrow> ast_heap res" where
  "moz_ast_mark_live_decl H = rfold decl_retain H (dlist H)"

text \<open>\<open>ARRAY_remove_element\<close>: the first occurrence.\<close>

definition remove_decl :: "dptr list \<Rightarrow> dptr \<Rightarrow> dptr list res" where
  "remove_decl ds d = rbind (rassert (length ds > 0)) (\<lambda>_. Inr (remove1 d ds))"

definition unused_decl :: "dptr list \<times> ast_heap \<Rightarrow> dptr \<Rightarrow> (dptr list \<times> ast_heap) res" where
  "unused_decl st d = (case st of (removed, H) \<Rightarrow>
     rbind (dread H d) (\<lambda>c. rbind (RELEASE_decl H d) (\<lambda>H.
       Inr (if prefc c = 1 then removed @ [d] else removed, H))))"

definition moz_ast_remove_unused_decl :: "ast_heap \<Rightarrow> ast_heap res" where
  "moz_ast_remove_unused_decl H =
     rbind (rfold unused_decl ([], H) (dlist H)) (\<lambda>(removed, H).
     rbind (rfold remove_decl (dlist H) removed) (\<lambda>ds. Inr (H\<lparr>dlist := ds\<rparr>)))"

definition optimize_decl :: "nat \<Rightarrow> bool \<times> ast_heap \<Rightarrow> dptr \<Rightarrow> (bool \<times> ast_heap) res" where
  "optimize_decl f st d = (case st of (modified, H) \<Rightarrow>
     rbind (loc_read H (LBody d)) (\<lambda>b. rbind (moz_expr_optimize f H (LBody d) b) (\<lambda>(m, H). Inr (modified \<or> m, H))))"

text \<open>\<open>while (modified)\<close>, with a budget of rounds.\<close>

fun moz_ast_optimize :: "nat \<Rightarrow> nat \<Rightarrow> ast_heap \<Rightarrow> ast_heap res" where
  "moz_ast_optimize 0 f H = Inl NoFuel"
| "moz_ast_optimize (Suc r) f H =
     rbind (moz_ast_mark_live_decl H) (\<lambda>H. rbind (rfold (optimize_decl f) (False, H) (dlist H)) (\<lambda>(modified, H).
     rbind (moz_ast_remove_unused_decl H) (\<lambda>H. if modified then moz_ast_optimize r f H else Inr H)))"

end
