(* ===== verification/Expr_Peg.thy ===== *)
theory Expr_Peg
  imports Expression
begin

text \<open>
  The meaning of the parsing expressions of \<open>Expression\<close> on lists of bytes, and the rewriting that the
  optimiser of \<open>src/src/compiler/expression.c\<close> does, as a function on trees. What the operators for
  syntax trees and symbols do to the state is left open: it is given by an interpretation.
\<close>

section \<open>Meaning\<close>

datatype scope_kind = InBlock | InLocal name_t | InSymbol name_t

text \<open>The interpretation: what an operator without parts consumes and makes of the state, if it
succeeds, and what happens to the state where a scope begins and ends.\<close>

record 's sem =
  leaf :: "expr \<Rightarrow> u8 list \<Rightarrow> 's \<Rightarrow> (nat \<times> 's) option"
  scope_in :: "scope_kind \<Rightarrow> u8 list \<Rightarrow> 's \<Rightarrow> 's"
  scope_out :: "scope_kind \<Rightarrow> u8 list \<times> 's \<Rightarrow> u8 list \<times> 's \<Rightarrow> 's option"

fun is_leaf :: "expr \<Rightarrow> bool" where
  "is_leaf E_Tcapture = True"
| "is_leaf E_Tdetree = True"
| "is_leaf E_Tlfold = True"
| "is_leaf E_Tpush = True"
| "is_leaf (E_Tpop _) = True"
| "is_leaf E_Tnew = True"
| "is_leaf E_Treplace = True"
| "is_leaf (E_Ttag _) = True"
| "is_leaf (E_Xexists _) = True"
| "is_leaf E_Xif = True"
| "is_leaf (E_Xis _) = True"
| "is_leaf (E_Xisa _) = True"
| "is_leaf E_Xon = True"
| "is_leaf E_Xmatch = True"
| "is_leaf _ = False"

fun scope_of :: "expr \<Rightarrow> (scope_kind \<times> expr) option" where
  "scope_of (E_Xblock e) = Some (InBlock, e)"
| "scope_of (E_Xlocal n e) = Some (InLocal n, e)"
| "scope_of (E_Xsymbol n e) = Some (InSymbol n, e)"
| "scope_of _ = None"

text \<open>One byte that satisfies a test.\<close>

definition one :: "(u8 \<Rightarrow> bool) \<Rightarrow> u8 list \<Rightarrow> 's \<Rightarrow> (u8 list \<times> 's) option" where
  "one P i s = (case i of [] \<Rightarrow> None | c # r \<Rightarrow> if P c then Some (r, s) else None)"

text \<open>
  \<open>D\<close> gives the bodies of the declarations. The result is the rest of the input with the state, or a
  failure. There is no result where the parser does not stop.
\<close>

inductive yields :: "(nat \<Rightarrow> expr option) \<Rightarrow> 's sem \<Rightarrow> expr \<Rightarrow> u8 list \<Rightarrow> 's \<Rightarrow> (u8 list \<times> 's) option \<Rightarrow> bool"
  and yields_seq :: "(nat \<Rightarrow> expr option) \<Rightarrow> 's sem \<Rightarrow> expr list \<Rightarrow> u8 list \<Rightarrow> 's \<Rightarrow> (u8 list \<times> 's) option \<Rightarrow> bool"
  and yields_alt :: "(nat \<Rightarrow> expr option) \<Rightarrow> 's sem \<Rightarrow> expr list \<Rightarrow> u8 list \<Rightarrow> 's \<Rightarrow> (u8 list \<times> 's) option \<Rightarrow> bool"
  for D :: "nat \<Rightarrow> expr option" and I :: "'s sem" where
  Empty: "yields D I E_Empty i s (Some (i, s))"
| Invoke: "D d = Some e \<Longrightarrow> yields D I e i s r \<Longrightarrow> yields D I (E_Invoke n (Some d)) i s r"
| Any: "yields D I E_Any i s (one (\<lambda>_. True) i s)"
| Byte: "yields D I (E_Byte b) i s (one (\<lambda>c. c = b) i s)"
| Str: "yields D I (E_Str t) i s (if take (length t) i = t then Some (drop (length t) i, s) else None)"
| Set: "yields D I (E_Set b) i s (one (\<lambda>c. unat c \<in> elems b) i s)"
| Fail: "yields D I E_Fail i s None"
| And_ok: "yields D I e i s (Some (i', s')) \<Longrightarrow> yields D I (E_And e) i s (Some (i, s'))"
| And_no: "yields D I e i s None \<Longrightarrow> yields D I (E_And e) i s None"
| Not_ok: "yields D I e i s None \<Longrightarrow> yields D I (E_Not e) i s (Some (i, s))"
| Not_no: "yields D I e i s (Some x) \<Longrightarrow> yields D I (E_Not e) i s None"
| Option_ok: "yields D I e i s (Some x) \<Longrightarrow> yields D I (E_Option e) i s (Some x)"
| Option_no: "yields D I e i s None \<Longrightarrow> yields D I (E_Option e) i s (Some (i, s))"
| Choice: "yields_alt D I es i s r \<Longrightarrow> yields D I (E_Choice es) i s r"
| Sequence: "yields_seq D I es i s r \<Longrightarrow> yields D I (E_Sequence es) i s r"
| Rep_end: "yields_seq D I es i s None \<Longrightarrow> yields D I (E_Repetition es) i s (Some (i, s))"
| Rep_more: "yields_seq D I es i s (Some (i', s')) \<Longrightarrow> yields D I (E_Repetition es) i' s' r \<Longrightarrow> yields D I (E_Repetition es) i s r"
| Leaf: "is_leaf e \<Longrightarrow> yields D I e i s (map_option (\<lambda>(n, s'). (drop n i, s')) (leaf I e i s))"
| Scope_ok: "scope_of x = Some (k, e) \<Longrightarrow> yields D I e i (scope_in I k i s) (Some (i', s')) \<Longrightarrow>
    yields D I x i s (map_option (\<lambda>s'. (i', s')) (scope_out I k (i, s) (i', s')))"
| Scope_no: "scope_of x = Some (k, e) \<Longrightarrow> yields D I e i (scope_in I k i s) None \<Longrightarrow> yields D I x i s None"
| Seq_Nil: "yields_seq D I [] i s (Some (i, s))"
| Seq_no: "yields D I e i s None \<Longrightarrow> yields_seq D I (e # es) i s None"
| Seq_more: "yields D I e i s (Some (i', s')) \<Longrightarrow> yields_seq D I es i' s' r \<Longrightarrow> yields_seq D I (e # es) i s r"
| Alt_Nil: "yields_alt D I [] i s None"
| Alt_ok: "yields D I e i s (Some x) \<Longrightarrow> yields_alt D I (e # es) i s (Some x)"
| Alt_no: "yields D I e i s None \<Longrightarrow> yields_alt D I es i s r \<Longrightarrow> yields_alt D I (e # es) i s r"

inductive_simps peg_simps [simp]:
  "yields D I E_Empty i s r"
  "yields D I (E_Invoke n d) i s r"
  "yields D I E_Any i s r"
  "yields D I (E_Byte b) i s r"
  "yields D I (E_Str t) i s r"
  "yields D I (E_Set b) i s r"
  "yields D I E_Fail i s r"
  "yields D I (E_And e) i s r"
  "yields D I (E_Not e) i s r"
  "yields D I (E_Option e) i s r"
  "yields D I (E_Choice es) i s r"
  "yields D I (E_Sequence es) i s r"

inductive_simps peg_seq_simps [simp]:
  "yields_seq D I [] i s r"
  "yields_seq D I (e # es) i s r"

inductive_simps peg_alt_simps [simp]:
  "yields_alt D I [] i s r"
  "yields_alt D I (e # es) i s r"

text \<open>What is left is a rest of the input.\<close>

lemma peg_rest:
  "yields D I e i s r \<Longrightarrow> (case r of None \<Rightarrow> True | Some (i', _) \<Rightarrow> set i' \<subseteq> set i)"
  "yields_seq D I es i s r \<Longrightarrow> (case r of None \<Rightarrow> True | Some (i', _) \<Rightarrow> set i' \<subseteq> set i)"
  "yields_alt D I es i s r \<Longrightarrow> (case r of None \<Rightarrow> True | Some (i', _) \<Rightarrow> set i' \<subseteq> set i)"
  by (induction rule: yields_yields_seq_yields_alt.inducts)
    (auto simp: one_def split: list.splits option.splits dest: in_set_dropD)

lemma peg_rest_Some:
  "yields D I e i s (Some (i', s')) \<Longrightarrow> (0 :: u8) \<notin> set i \<Longrightarrow> 0 \<notin> set i'"
  "yields_seq D I es i s (Some (i', s')) \<Longrightarrow> (0 :: u8) \<notin> set i \<Longrightarrow> 0 \<notin> set i'"
  using peg_rest by fastforce+

section \<open>Equivalence on input without zero bytes\<close>

text \<open>A zero byte in the input is the end of the input to the rest of the program.\<close>

definition peg_equiv :: "(nat \<Rightarrow> expr option) \<Rightarrow> 's sem \<Rightarrow> expr \<Rightarrow> expr \<Rightarrow> bool" where
  "peg_equiv D I e e' \<longleftrightarrow> (\<forall>i s r. 0 \<notin> set i \<longrightarrow> yields D I e i s r = yields D I e' i s r)"

definition seq_equiv :: "(nat \<Rightarrow> expr option) \<Rightarrow> 's sem \<Rightarrow> expr list \<Rightarrow> expr list \<Rightarrow> bool" where
  "seq_equiv D I es es' \<longleftrightarrow> (\<forall>i s r. 0 \<notin> set i \<longrightarrow> yields_seq D I es i s r = yields_seq D I es' i s r)"

lemma equiv_refl [simp]: "peg_equiv D I e e" "seq_equiv D I es es"
  by (simp_all add: peg_equiv_def seq_equiv_def)

lemma equiv_sym: "peg_equiv D I e e' \<Longrightarrow> peg_equiv D I e' e" "seq_equiv D I es es' \<Longrightarrow> seq_equiv D I es' es"
  by (simp_all add: peg_equiv_def seq_equiv_def)

lemma equiv_trans:
  "peg_equiv D I e1 e2 \<Longrightarrow> peg_equiv D I e2 e3 \<Longrightarrow> peg_equiv D I e1 e3"
  "seq_equiv D I es1 es2 \<Longrightarrow> seq_equiv D I es2 es3 \<Longrightarrow> seq_equiv D I es1 es3"
  by (simp_all add: peg_equiv_def seq_equiv_def)

lemma seq_equiv_Cons:
  "peg_equiv D I e e' \<Longrightarrow> seq_equiv D I es es' \<Longrightarrow> seq_equiv D I (e # es) (e' # es')"
  unfolding peg_equiv_def seq_equiv_def
  by (simp only: peg_seq_simps) (metis peg_rest_Some(1))

lemma seq_equiv_list:
  "list_all2 (peg_equiv D I) es es' \<Longrightarrow> seq_equiv D I es es'"
  by (induction rule: list_all2_induct) (simp_all add: seq_equiv_Cons)

lemma alt_equiv_list:
  "list_all2 (peg_equiv D I) es es' \<Longrightarrow> 0 \<notin> set i \<Longrightarrow> yields_alt D I es i s r = yields_alt D I es' i s r"
  by (induction arbitrary: r rule: list_all2_induct) (auto simp: peg_equiv_def)

lemma rep_mono:
  assumes "seq_equiv D I es es'"
  shows "yields D I (E_Repetition es) i s r \<Longrightarrow> 0 \<notin> set i \<Longrightarrow> yields D I (E_Repetition es') i s r"
proof (induction "E_Repetition es" i s r rule: yields_yields_seq_yields_alt.inducts(1)
    [where ?P2.0 = "\<lambda>_ _ _ _. True" and ?P3.0 = "\<lambda>_ _ _ _. True"])
  case (Rep_end i s)
  then show ?case using assms by (auto simp: seq_equiv_def intro: yields_yields_seq_yields_alt.Rep_end)
next
  case (Rep_more i s i' s' r)
  then have "0 \<notin> set i'" by (auto dest: peg_rest_Some(2))
  with Rep_more assms show ?case by (auto simp: seq_equiv_def intro: yields_yields_seq_yields_alt.Rep_more)
qed simp_all

lemma peg_equiv_cong:
  "peg_equiv D I e e' \<Longrightarrow> peg_equiv D I (E_And e) (E_And e')"
  "peg_equiv D I e e' \<Longrightarrow> peg_equiv D I (E_Not e) (E_Not e')"
  "peg_equiv D I e e' \<Longrightarrow> peg_equiv D I (E_Option e) (E_Option e')"
  "list_all2 (peg_equiv D I) es es' \<Longrightarrow> peg_equiv D I (E_Choice es) (E_Choice es')"
  "seq_equiv D I es es' \<Longrightarrow> peg_equiv D I (E_Sequence es) (E_Sequence es')"
  "seq_equiv D I es es' \<Longrightarrow> peg_equiv D I (E_Repetition es) (E_Repetition es')"
proof -
  assume "list_all2 (peg_equiv D I) es es'"
  then show "peg_equiv D I (E_Choice es) (E_Choice es')" by (simp add: peg_equiv_def [of _ _ "E_Choice _"] alt_equiv_list)
next
  assume eq: "seq_equiv D I es es'"
  show "peg_equiv D I (E_Repetition es) (E_Repetition es')"
    using rep_mono [OF eq] rep_mono [OF equiv_sym(2) [OF eq]] unfolding peg_equiv_def by blast
qed (auto simp: peg_equiv_def seq_equiv_def)

lemma peg_scope:
  assumes "scope_of x = Some (k, e)"
  shows "yields D I x i s r \<longleftrightarrow>
    (\<exists>i' s'. yields D I e i (scope_in I k i s) (Some (i', s')) \<and> r = map_option (\<lambda>s'. (i', s')) (scope_out I k (i, s) (i', s'))) \<or>
    yields D I e i (scope_in I k i s) None \<and> r = None"
  using assms by (subst yields.simps) (auto, (cases x; auto)+)

lemma peg_equiv_scope:
  "peg_equiv D I e e' \<Longrightarrow> scope_of x = Some (k, e) \<Longrightarrow> scope_of x' = Some (k, e') \<Longrightarrow> peg_equiv D I x x'"
  by (simp add: peg_equiv_def peg_scope)

lemma peg_seq_append:
  "yields_seq D I (es @ fs) i s r \<longleftrightarrow>
     yields_seq D I es i s None \<and> r = None \<or> (\<exists>i' s'. yields_seq D I es i s (Some (i', s')) \<and> yields_seq D I fs i' s' r)"
  by (induction es arbitrary: i s r) (auto, blast+)

end
