(* ===== verification/Expr_Rewrite.thy ===== *)
theory Expr_Rewrite
  imports Expr_Peg
begin

text \<open>
  The optimiser as a function on trees: what \<open>moz_expr_optimize\<close> of \<open>src/src/compiler/expression.c\<close>
  makes of an expression that shares nothing, without declarations to inline. It keeps the meaning
  of every expression on input without zero bytes, and every rewriting makes the tree smaller.
\<close>

section \<open>The rewriting\<close>

definition ins_byte :: "bitset_t \<Rightarrow> u8 \<Rightarrow> bitset_t" where
  "ins_byte s b = (case bitset_set s (unat b) of Inr t \<Rightarrow> t | Inl _ \<Rightarrow> s)"

definition no_bytes :: bitset_t where
  "no_bytes = bitset_init \<lparr>bdata = []\<rparr>"

text \<open>The set for \<open>!b .\<close>\<close>

definition other_bytes :: "u8 \<Rightarrow> bitset_t" where
  "other_bytes b = bitset_flip (ins_byte (ins_byte no_bytes b) 0)"

fun put_expr :: "bitset_t \<Rightarrow> expr \<Rightarrow> bitset_t" where
  "put_expr s (E_Byte b) = bitset_or (ins_byte s b) no_bytes"
| "put_expr s (E_Set t) = bitset_or (bitset_or s t) no_bytes"
| "put_expr s _ = s"

fun byte_or_set :: "expr \<Rightarrow> bool" where
  "byte_or_set (E_Byte _) = True"
| "byte_or_set (E_Set _) = True"
| "byte_or_set _ = False"

fun mappable :: "expr \<Rightarrow> bool" where
  "mappable (E_Not e) = byte_or_set e"
| "mappable e = byte_or_set e"

text \<open>A string takes the bytes that follow it, and one string.\<close>

fun take_text :: "u8 list \<Rightarrow> expr list \<Rightarrow> u8 list \<times> expr list" where
  "take_text t (E_Byte b # es) = take_text (t @ [b]) es"
| "take_text t (E_Str u # es) = (t @ u, es)"
| "take_text t es = (t, es)"

text \<open>The elements of a flattened sequence are visited from the second one on.\<close>

fun weight :: "expr \<Rightarrow> nat" and weights :: "expr list \<Rightarrow> nat" where
  "weight (E_And e) = 1 + weight e"
| "weight (E_Not e) = 1 + weight e"
| "weight (E_Option e) = 1 + weight e"
| "weight (E_Xblock e) = 1 + weight e"
| "weight (E_Xlocal _ e) = 1 + weight e"
| "weight (E_Xsymbol _ e) = 1 + weight e"
| "weight (E_Choice es) = 2 + weights es"
| "weight (E_Sequence es) = 1 + weights es"
| "weight (E_Repetition es) = 1 + weights es"
| "weight _ = 1"
| "weights [] = 0"
| "weights (e # es) = weight e + weights es"

lemma weights_append [simp]: "weights (es @ fs) = weights es + weights fs"
  by (induction es) simp_all

lemma weight_pos [simp]: "0 < weight e"
  by (cases e) simp_all

lemma weights_sum: "weights es = sum_list (map weight es)"
  by (induction es) simp_all

lemma take_text_weights: "weights (snd (take_text t es)) \<le> weights es"
  by (induction t es rule: take_text.induct) auto

fun next_byte :: "expr list \<Rightarrow> (u8 \<times> expr list) option" where
  "next_byte (E_Byte b # es) = Some (b, es)"
| "next_byte _ = None"

fun next_any :: "expr list \<Rightarrow> expr list option" where
  "next_any (E_Any # es) = Some es"
| "next_any _ = None"

fun the_byte :: "expr \<Rightarrow> u8 option" where
  "the_byte (E_Byte b) = Some b"
| "the_byte _ = None"

lemma next_Some:
  "next_byte es = Some (b, fs) \<longleftrightarrow> es = E_Byte b # fs"
  "next_any es = Some fs \<longleftrightarrow> es = E_Any # fs"
  "the_byte e = Some b \<longleftrightarrow> e = E_Byte b"
  "Some (b, fs) = next_byte es \<longleftrightarrow> es = E_Byte b # fs"
  "Some fs = next_any es \<longleftrightarrow> es = E_Any # fs"
  "Some b = the_byte e \<longleftrightarrow> e = E_Byte b"
proof -
  show b: "next_byte es = Some (b, fs) \<longleftrightarrow> es = E_Byte b # fs" by (cases es rule: next_byte.cases) auto
  show a: "next_any es = Some fs \<longleftrightarrow> es = E_Any # fs" by (cases es rule: next_any.cases) auto
  show c: "the_byte e = Some b \<longleftrightarrow> e = E_Byte b" by (cases e) auto
  show "Some (b, fs) = next_byte es \<longleftrightarrow> es = E_Byte b # fs" "Some fs = next_any es \<longleftrightarrow> es = E_Any # fs"
    "Some b = the_byte e \<longleftrightarrow> e = E_Byte b"
    using a b c by metis+
qed

lemma weights_flat: "xs @ es = y # ys \<Longrightarrow> weights ys < weights xs + weights es"
  using weight_pos [of y] by (metis weights_append weights.simps(2) less_add_same_cancel2)

function seq_rewrite :: "expr list \<Rightarrow> expr list" where
  "seq_rewrite [] = []"
| "seq_rewrite (e # es) = (case e of
       E_Sequence xs \<Rightarrow> (case xs @ es of [] \<Rightarrow> [] | y # ys \<Rightarrow> y # seq_rewrite ys)
     | E_Byte a \<Rightarrow> (case next_byte es of Some (b, fs) \<Rightarrow> E_Str [a, b] # seq_rewrite fs | None \<Rightarrow> e # seq_rewrite es)
     | E_Str t \<Rightarrow> E_Str (fst (take_text t es)) # seq_rewrite (snd (take_text t es))
     | E_Not x \<Rightarrow> (case (the_byte x, next_any es) of
           (Some b, Some fs) \<Rightarrow> E_Set (other_bytes b) # seq_rewrite fs
         | _ \<Rightarrow> e # seq_rewrite es)
     | _ \<Rightarrow> e # seq_rewrite es)"
  by pat_completeness auto

termination
  by (relation "measure weights") (auto simp: less_Suc_eq_le take_text_weights next_Some dest!: weights_flat)

declare seq_rewrite.simps(2) [simp del]

text \<open>The cases of an element: it is kept, flattened, or taken together with what follows.\<close>

definition kept :: "expr \<Rightarrow> expr list \<Rightarrow> bool" where
  "kept e es \<longleftrightarrow> (case e of
       E_Sequence _ \<Rightarrow> False
     | E_Str _ \<Rightarrow> False
     | E_Byte _ \<Rightarrow> next_byte es = None
     | E_Not x \<Rightarrow> the_byte x = None \<or> next_any es = None
     | _ \<Rightarrow> True)"

lemma seq_rewrite_simps [simp]:
  "seq_rewrite (E_Sequence xs # es) = (case xs @ es of [] \<Rightarrow> [] | y # ys \<Rightarrow> y # seq_rewrite ys)"
  "seq_rewrite (E_Byte a # E_Byte b # es) = E_Str [a, b] # seq_rewrite es"
  "seq_rewrite (E_Str t # es) = E_Str (fst (take_text t es)) # seq_rewrite (snd (take_text t es))"
  "seq_rewrite (E_Not (E_Byte b) # E_Any # es) = E_Set (other_bytes b) # seq_rewrite es"
  by (simp_all add: seq_rewrite.simps(2))

lemma seq_rewrite_kept: "kept e es \<Longrightarrow> seq_rewrite (e # es) = e # seq_rewrite es"
  by (cases e) (auto simp: kept_def seq_rewrite.simps(2) split: option.splits)

lemma kept_cases:
  obtains (Flat) xs where "e = E_Sequence xs"
  | (Text) t where "e = E_Str t"
  | (Bytes) a b fs where "e = E_Byte a" "es = E_Byte b # fs"
  | (NotAny) b fs where "e = E_Not (E_Byte b)" "es = E_Any # fs"
  | (Keep) "kept e es"
proof (cases "kept e es")
  case False
  then show ?thesis
    by (cases e) (auto simp: kept_def next_Some intro: that)
qed (rule that)

lemma seq_rewrite_induct [case_names Nil Flat0 Flat Text Bytes NotAny Keep]:
  assumes "P []"
    and "P [E_Sequence []]"
    and "\<And>xs es y ys. xs @ es = y # ys \<Longrightarrow> P ys \<Longrightarrow> P (E_Sequence xs # es)"
    and "\<And>t es. P (snd (take_text t es)) \<Longrightarrow> P (E_Str t # es)"
    and "\<And>a b es. P es \<Longrightarrow> P (E_Byte a # E_Byte b # es)"
    and "\<And>b es. P es \<Longrightarrow> P (E_Not (E_Byte b) # E_Any # es)"
    and "\<And>e es. kept e es \<Longrightarrow> P es \<Longrightarrow> P (e # es)"
  shows "P es"
proof (induction es rule: measure_induct_rule [where f = weights])
  case (less es)
  show ?case
  proof (cases es)
    case [simp]: (Cons e fs)
    show ?thesis
    proof (rule kept_cases [where e = e and es = fs])
      fix xs
      assume e: "e = E_Sequence xs"
      show ?thesis
      proof (cases "xs @ fs")
        case Nil
        with e assms(2) show ?thesis by simp
      next
        case (Cons y ys)
        with e show ?thesis using assms(3) [OF Cons] less [of ys] weights_flat [OF Cons] by simp
      qed
    next
      fix t
      assume "e = E_Str t"
      then show ?thesis using assms(4) less take_text_weights [of t fs] by (simp add: less_Suc_eq_le)
    qed (use assms less in \<open>simp_all add: less_Suc_eq_le\<close>)
  qed (use assms in simp)
qed

text \<open>\<open>None\<close> where the assertion of the choice fails; the flag tells whether something changed.\<close>

fun reduce :: "expr \<Rightarrow> (expr \<times> bool) option"
  and reduces :: "expr list \<Rightarrow> (expr list \<times> bool) option" where
  "reduce (E_And e) = map_option (\<lambda>(e, m). (E_And e, m)) (reduce e)"
| "reduce (E_Not e) = map_option (\<lambda>(e, m). (E_Not e, m)) (reduce e)"
| "reduce (E_Option e) = map_option (\<lambda>(e, m). (E_Option e, m)) (reduce e)"
| "reduce (E_Xblock e) = map_option (\<lambda>(e, m). (E_Xblock e, m)) (reduce e)"
| "reduce (E_Xlocal n e) = map_option (\<lambda>(e, m). (E_Xlocal n e, m)) (reduce e)"
| "reduce (E_Xsymbol n e) = map_option (\<lambda>(e, m). (E_Xsymbol n e, m)) (reduce e)"
| "reduce (E_Repetition es) = map_option (\<lambda>(es, m). (E_Repetition es, m)) (reduces es)"
| "reduce (E_Choice es) = (case reduces es of None \<Rightarrow> None | Some (es, m) \<Rightarrow>
     if length es = 1 then Some (es ! 0, True)
     else if list_all mappable es then
       (if list_all byte_or_set es then Some (E_Set (fold (\<lambda>e s. put_expr s e) es no_bytes), True) else None)
     else Some (E_Choice es, m))"
| "reduce (E_Sequence es) = (case reduces es of None \<Rightarrow> None | Some (es, m) \<Rightarrow>
     (let fs = seq_rewrite es; gs = filter (\<lambda>e. e \<noteq> E_Empty) fs
      in if length gs = 1 then Some (gs ! 0, True) else Some (E_Sequence gs, m \<or> fs \<noteq> es \<or> gs \<noteq> fs)))"
| "reduce e = Some (e, False)"
| "reduces [] = Some ([], False)"
| "reduces (e # es) = (case reduce e of None \<Rightarrow> None | Some (e, m) \<Rightarrow>
     map_option (\<lambda>(es, m'). (e # es, m \<or> m')) (reduces es))"

section \<open>Well-formed expressions\<close>

fun sets_wf :: "expr \<Rightarrow> bool" where
  "sets_wf (E_Set b) = bitset_wf b"
| "sets_wf (E_And e) = sets_wf e"
| "sets_wf (E_Not e) = sets_wf e"
| "sets_wf (E_Option e) = sets_wf e"
| "sets_wf (E_Xblock e) = sets_wf e"
| "sets_wf (E_Xlocal _ e) = sets_wf e"
| "sets_wf (E_Xsymbol _ e) = sets_wf e"
| "sets_wf (E_Choice es) = list_all sets_wf es"
| "sets_wf (E_Sequence es) = list_all sets_wf es"
| "sets_wf (E_Repetition es) = list_all sets_wf es"
| "sets_wf _ = True"

lemma no_bytes_ok [simp]: "bitset_wf no_bytes" "elems no_bytes = {}"
  by (simp_all add: no_bytes_def)

lemma ins_byte_ok [simp]:
  assumes "bitset_wf s"
  shows "bitset_wf (ins_byte s b)" "elems (ins_byte s b) = insert (unat b) (elems s)"
proof -
  from bitset_set_ok [OF assms, of "unat b"] obtain t where
    "bitset_set s (unat b) = Inr t" "bitset_wf t" "elems t = insert (unat b) (elems s)" by auto
  then show "bitset_wf (ins_byte s b)" "elems (ins_byte s b) = insert (unat b) (elems s)"
    by (simp_all add: ins_byte_def)
qed

lemma other_bytes_ok: "bitset_wf (other_bytes b)" "elems (other_bytes b) = {..<256} - {unat b, 0}"
  by (auto simp: other_bytes_def bitset_flip_elems)

fun accepts :: "expr \<Rightarrow> u8 \<Rightarrow> bool" where
  "accepts (E_Byte b) c = (c = b)"
| "accepts (E_Set t) c = (unat c \<in> elems t)"
| "accepts _ c = False"

lemma accepts_fun: "accepts (E_Byte b) = (\<lambda>c. c = b)" "accepts (E_Set t) = (\<lambda>c. unat c \<in> elems t)"
  by auto

lemma peg_accepts: "byte_or_set e \<Longrightarrow> yields D I e i s r \<longleftrightarrow> r = one (accepts e) i s"
  by (cases e) (simp_all add: accepts_fun)

lemma put_expr_ok:
  assumes "bitset_wf s" "byte_or_set e" "sets_wf e"
  shows "bitset_wf (put_expr s e)" "unat c \<in> elems (put_expr s e) \<longleftrightarrow> unat c \<in> elems s \<or> accepts e c"
proof -
  have "bitset_wf (put_expr s e) \<and> (unat c \<in> elems (put_expr s e) \<longleftrightarrow> unat c \<in> elems s \<or> accepts e c)"
  proof (cases e)
    case (E_Byte b)
    with assms(1) show ?thesis by (simp add: bitset_or_elems disj_commute word_unat_eq_iff)
  next
    case (E_Set t)
    with assms show ?thesis by (simp add: bitset_or_elems)
  qed (use assms in simp_all)
  then show "bitset_wf (put_expr s e)" "unat c \<in> elems (put_expr s e) \<longleftrightarrow> unat c \<in> elems s \<or> accepts e c" by simp_all
qed

lemma put_exprs_ok:
  assumes "bitset_wf s" "list_all byte_or_set es" "list_all sets_wf es"
  shows "bitset_wf (fold (\<lambda>e s. put_expr s e) es s) \<and>
    (\<forall>c. unat c \<in> elems (fold (\<lambda>e s. put_expr s e) es s) \<longleftrightarrow> unat c \<in> elems s \<or> (\<exists>e \<in> set es. accepts e c))"
  using assms
proof (induction es arbitrary: s)
  case (Cons e es)
  then show ?case using Cons.IH [of "put_expr s e"] by (simp add: put_expr_ok disj_assoc)
qed simp

lemma alt_one:
  "list_all byte_or_set es \<Longrightarrow> yields_alt D I es i s r \<longleftrightarrow> r = one (\<lambda>c. \<exists>e \<in> set es. accepts e c) i s"
proof (induction es)
  case Nil
  then show ?case by (simp add: one_def split: list.splits)
next
  case (Cons e es)
  then show ?case by (cases i) (auto simp: peg_accepts one_def)
qed

section \<open>The meaning is kept\<close>

text \<open>A sequence of expressions, the first of which is rewritten with some of those that follow.\<close>

lemma seq_equiv_append:
  "seq_equiv D I es es' \<Longrightarrow> seq_equiv D I fs fs' \<Longrightarrow> seq_equiv D I (es @ fs) (es' @ fs')"
  unfolding seq_equiv_def by (simp add: peg_seq_append) (metis peg_rest_Some(2))

lemma seq_equiv_flat: "seq_equiv D I (E_Sequence xs # es) (xs @ es)"
  by (auto simp: seq_equiv_def peg_seq_append)

text \<open>A byte is a string of length 1.\<close>

lemma peg_byte_str: "yields D I (E_Byte b) i s r = yields D I (E_Str [b]) i s r"
  by (cases i) (simp_all add: one_def)

lemma take_append_eq:
  "take (length t + length u) i = t @ u \<longleftrightarrow> take (length t) i = t \<and> take (length u) (drop (length t) i) = u"
proof
  assume eq: "take (length t + length u) i = t @ u"
  then have "take (length t) (take (length t + length u) i) = t" by simp
  then have t: "take (length t) i = t" by simp
  with eq show "take (length t) i = t \<and> take (length u) (drop (length t) i) = u" by (simp add: take_add)
qed (simp add: take_add)

lemma seq_equiv_str: "seq_equiv D I [E_Str t, E_Str u] [E_Str (t @ u)]"
  unfolding seq_equiv_def by (simp only: peg_seq_simps peg_simps length_append take_append_eq) (auto simp: add.commute)

lemma seq_equiv_bytes: "seq_equiv D I [E_Byte a, E_Byte b] [E_Str [a, b]]"
  using seq_equiv_str [of D I "[a]" "[b]"] unfolding seq_equiv_def by (simp only: peg_seq_simps peg_byte_str append.simps)

lemma seq_equiv_str_byte: "seq_equiv D I [E_Str t, E_Byte b] [E_Str (t @ [b])]"
  using seq_equiv_str [of D I t "[b]"] unfolding seq_equiv_def by (simp only: peg_seq_simps peg_byte_str)

text \<open>The rewriting that needs an input without zero bytes.\<close>

lemma seq_equiv_not: "seq_equiv D I [E_Not (E_Byte b), E_Any] [E_Set (other_bytes b)]"
proof -
  have "unat c \<in> elems (other_bytes b) \<longleftrightarrow> c \<noteq> b" if "c \<noteq> 0" for c
    using that by (simp add: other_bytes_ok word_unat_eq_iff)
  then have "yields_seq D I [E_Not (E_Byte b), E_Any] i s r = yields_seq D I [E_Set (other_bytes b)] i s r" if "0 \<notin> set i" for i s r
    using that by (cases i) (auto simp: one_def)
  then show ?thesis by (simp add: seq_equiv_def)
qed

lemma take_text_equiv:
  "seq_equiv D I (E_Str t # es) (E_Str (fst (take_text t es)) # snd (take_text t es))"
proof (induction t es rule: take_text.induct)
  case (1 t b es)
  have "seq_equiv D I ([E_Str t, E_Byte b] @ es) ([E_Str (t @ [b])] @ es)"
    by (intro seq_equiv_append seq_equiv_str_byte equiv_refl)
  with 1 show ?case by (auto intro: equiv_trans)
next
  case (2 t u es)
  have "seq_equiv D I ([E_Str t, E_Str u] @ es) ([E_Str (t @ u)] @ es)"
    by (intro seq_equiv_append seq_equiv_str equiv_refl)
  then show ?case by simp
qed simp_all

lemma seq_rewrite_equiv: "seq_equiv D I es (seq_rewrite es)"
proof (induction es rule: seq_rewrite_induct)
  case Flat0
  then show ?case using seq_equiv_flat [of D I "[]" "[]"] by simp
next
  case (Flat xs es y ys)
  then have "seq_equiv D I (y # ys) (y # seq_rewrite ys)" by (intro seq_equiv_Cons) auto
  with Flat seq_equiv_flat [of D I xs es] show ?case by (auto intro: equiv_trans)
next
  case (Text t es)
  then have "seq_equiv D I (E_Str (fst (take_text t es)) # snd (take_text t es)) (seq_rewrite (E_Str t # es))"
    by (simp add: seq_equiv_Cons)
  with take_text_equiv show ?case by (rule equiv_trans)
next
  case (Bytes a b es)
  have "seq_equiv D I ([E_Byte a, E_Byte b] @ es) ([E_Str [a, b]] @ seq_rewrite es)"
    by (intro seq_equiv_append seq_equiv_bytes Bytes)
  then show ?case by simp
next
  case (NotAny b es)
  have "seq_equiv D I ([E_Not (E_Byte b), E_Any] @ es) ([E_Set (other_bytes b)] @ seq_rewrite es)"
    by (intro seq_equiv_append seq_equiv_not NotAny)
  then show ?case by simp
qed (simp_all add: seq_rewrite_kept seq_equiv_Cons)

lemma seq_equiv_filter: "seq_equiv D I es (filter (\<lambda>e. e \<noteq> E_Empty) es)"
proof (induction es)
  case (Cons e es)
  have "seq_equiv D I (E_Empty # es) es" by (simp add: seq_equiv_def)
  with Cons show ?case by (auto intro: equiv_trans seq_equiv_Cons)
qed simp

section \<open>The optimiser\<close>

lemma take_text_wf: "list_all sets_wf es \<Longrightarrow> list_all sets_wf (snd (take_text t es))"
  by (induction t es rule: take_text.induct) auto

lemma seq_rewrite_wf: "list_all sets_wf es \<Longrightarrow> list_all sets_wf (seq_rewrite es)"
proof (induction es rule: seq_rewrite_induct)
  case (Flat xs es y ys)
  from Flat(3) have "list_all sets_wf (xs @ es)" by simp
  then have "list_all sets_wf (y # ys)" by (simp only: Flat(1))
  with Flat show ?case by simp
qed (simp_all add: seq_rewrite_kept other_bytes_ok take_text_wf)

lemma take_text_lighter: "snd (take_text t es) \<noteq> es \<or> fst (take_text t es) \<noteq> t \<Longrightarrow> weights (snd (take_text t es)) < weights es"
  using take_text_weights by (cases "(t, es)" rule: take_text.cases) (auto simp: less_Suc_eq_le)

text \<open>Every change makes the sequence lighter.\<close>

lemma seq_rewrite_lighter: "weights (seq_rewrite es) \<le> weights es \<and> (seq_rewrite es \<noteq> es \<longrightarrow> weights (seq_rewrite es) < weights es)"
proof (induction es rule: seq_rewrite_induct)
  case (Flat xs es y ys)
  moreover from Flat(1) have "weights xs + weights es = weight y + weights ys" by (metis weights.simps(2) weights_append)
  ultimately show ?case by simp
next
  case (Text t es)
  then show ?case using take_text_weights [of t es] take_text_lighter [of t es] by auto
qed (auto simp: seq_rewrite_kept)

lemma filter_lighter:
  "weights (filter P es) \<le> weights es \<and> (filter P es \<noteq> es \<longrightarrow> weights (filter P es) < weights es)"
  by (induction es) (auto simp: less_Suc_eq_le trans_le_add2)

lemma length_1: "length xs = Suc 0 \<longleftrightarrow> (\<exists>x. xs = [x])"
  by (cases xs) auto

lemma seq_single: "peg_equiv D I (E_Sequence [e]) e"
proof -
  have "yields D I (E_Sequence [e]) i s r = yields D I e i s r" for i s r by (cases r) auto
  then show ?thesis by (simp add: peg_equiv_def)
qed

lemma alt_single: "peg_equiv D I (E_Choice [e]) e"
proof -
  have "yields D I (E_Choice [e]) i s r = yields D I e i s r" for i s r by (cases r) auto
  then show ?thesis by (simp add: peg_equiv_def)
qed

lemma alt_set:
  assumes "list_all byte_or_set es" "list_all sets_wf es"
  shows "peg_equiv D I (E_Choice es) (E_Set (fold (\<lambda>e s. put_expr s e) es no_bytes))"
proof -
  have "(\<lambda>c. unat c \<in> elems (fold (\<lambda>e s. put_expr s e) es no_bytes)) = (\<lambda>c. \<exists>e \<in> set es. accepts e c)"
    using put_exprs_ok [OF no_bytes_ok(1) assms] unfolding no_bytes_ok(2) by (intro ext) blast
  then show ?thesis by (simp only: peg_equiv_def alt_one [OF assms(1)] peg_simps) blast
qed

lemma reduce_ok:
  "reduce e = Some (e', m) \<Longrightarrow> sets_wf e \<Longrightarrow>
     peg_equiv D I e e' \<and> sets_wf e' \<and> (m \<longrightarrow> weight e' < weight e) \<and> (\<not> m \<longrightarrow> e' = e)"
  "reduces es = Some (es', m) \<Longrightarrow> list_all sets_wf es \<Longrightarrow>
     list_all2 (peg_equiv D I) es es' \<and> list_all sets_wf es' \<and> (m \<longrightarrow> weights es' < weights es) \<and> (\<not> m \<longrightarrow> es' = es)"
proof (induction e and es arbitrary: e' m and es' m rule: reduce_reduces.induct)
  case (8 es)
  from 8(2) obtain fs m1 where fs: "reduces es = Some (fs, m1)" by (auto split: option.splits)
  with 8 have r: "list_all2 (peg_equiv D I) es fs" "list_all sets_wf fs" "m1 \<longrightarrow> weights fs < weights es" "\<not> m1 \<longrightarrow> fs = es"
    by auto
  have eq: "peg_equiv D I (E_Choice es) (E_Choice fs)" by (rule peg_equiv_cong(4) [OF r(1)])
  have w: "weights fs \<le> weights es" using r(3,4) by (cases m1) auto
  consider x where "fs = [x]" "e' = x" "m"
    | "length fs \<noteq> 1" "list_all byte_or_set fs" "e' = E_Set (fold (\<lambda>e s. put_expr s e) fs no_bytes)" "m"
    | "e' = E_Choice fs" "m = m1"
    using 8(2) fs by (auto simp: length_1 split: if_splits)
  then show ?case
  proof cases
    case (1 x)
    then show ?thesis using eq r(2) w alt_single [of D I x] by (auto intro: equiv_trans)
  next
    case 2
    then show ?thesis using eq r(2) alt_set [OF 2(2) r(2), of D I] put_exprs_ok [OF no_bytes_ok(1) 2(2) r(2)]
      by (auto intro: equiv_trans)
  next
    case 3
    then show ?thesis using eq r by auto
  qed
next
  case (9 es)
  from 9(2) obtain fs m1 where fs: "reduces es = Some (fs, m1)" by (auto split: option.splits)
  with 9 have r: "list_all2 (peg_equiv D I) es fs" "list_all sets_wf fs" "m1 \<longrightarrow> weights fs < weights es" "\<not> m1 \<longrightarrow> fs = es"
    by auto
  define hs where "hs = seq_rewrite fs"
  define gs where "gs = filter (\<lambda>e. e \<noteq> E_Empty) hs"
  have eq: "peg_equiv D I (E_Sequence es) (E_Sequence gs)"
    using seq_equiv_list [OF r(1)] seq_rewrite_equiv [of D I fs] seq_equiv_filter [of D I hs]
    unfolding gs_def hs_def by (intro peg_equiv_cong(5)) (blast intro: equiv_trans)
  have wf: "list_all sets_wf gs"
    using seq_rewrite_wf [OF r(2)] by (auto simp: gs_def hs_def list_all_iff)
  have w: "weights gs \<le> weights es" "gs \<noteq> es \<Longrightarrow> weights gs < weights es"
    using seq_rewrite_lighter [of fs] filter_lighter [of "\<lambda>e. e \<noteq> E_Empty" hs] r(3,4)
    unfolding gs_def hs_def by (cases m1; fastforce)+
  have "(\<exists>x. gs = [x] \<and> e' = x \<and> m) \<or> e' = E_Sequence gs \<and> m = (m1 \<or> hs \<noteq> fs \<or> gs \<noteq> hs)"
    using 9(2) fs by (auto simp: length_1 gs_def hs_def Let_def split: if_splits)
  then show ?case
  proof
    assume "\<exists>x. gs = [x] \<and> e' = x \<and> m"
    then obtain x where "gs = [x]" "e' = x" "m" by blast
    then show ?thesis using eq wf w(1) seq_single [of D I x] by (auto intro: equiv_trans)
  next
    assume m: "e' = E_Sequence gs \<and> m = (m1 \<or> hs \<noteq> fs \<or> gs \<noteq> hs)"
    have "weights gs < weights es" if m
      using seq_rewrite_lighter [of fs] filter_lighter [of "\<lambda>e. e \<noteq> E_Empty" hs] r(3,4) that m
      unfolding gs_def hs_def by (cases m1; fastforce)
    then show ?thesis using eq wf m r(4) by auto
  qed
next
  case (12 e es)
  from 12(3) obtain x m1 ys m2 where x: "reduce e = Some (x, m1)" "reduces es = Some (ys, m2)" "es' = x # ys" "m = (m1 \<or> m2)"
    by (auto split: option.splits)
  with 12(1) [OF x(1)] 12(2) [OF x(1) refl x(2)] 12(4) show ?case by (cases m1; cases m2; simp)
qed (auto simp: peg_equiv_cong seq_equiv_list intro: peg_equiv_scope split: option.splits)

end
