(* ===== verification/Expr_Tree.thy ===== *)
theory Expr_Tree
  imports Expr_Opt Expr_Rewrite
begin

text \<open>
  The optimiser on the heap does what \<open>reduce\<close> says, as long as the expressions form a tree: every
  cell is referred to once and has count 1. The declarations are not inlined here.
\<close>

section \<open>Cells\<close>

definition at_cell :: "ast_heap \<Rightarrow> eptr \<Rightarrow> ecell \<Rightarrow> bool" where
  "at_cell H p c \<longleftrightarrow> p < length (exprs H) \<and> exprs H ! p = Some c"

definition hput :: "ast_heap \<Rightarrow> eptr \<Rightarrow> ecell option \<Rightarrow> ast_heap" where
  "hput H p c = H\<lparr>exprs := (exprs H)[p := c]\<rparr>"

lemma hput_sel [simp]:
  "length (exprs (hput H p c)) = length (exprs H)" "pdecls (hput H p c) = pdecls H" "dlist (hput H p c) = dlist H"
  "zeroed (hput H p c) = zeroed H"
  by (simp_all add: hput_def)

lemma hput_hput [simp]: "hput (hput H p c) p d = hput H p d"
  by (simp add: hput_def)

lemma at_hput [simp]:
  "p < length (exprs H) \<Longrightarrow> at_cell (hput H p (Some c)) p d \<longleftrightarrow> d = c"
  "p \<noteq> q \<Longrightarrow> at_cell (hput H p x) q d = at_cell H q d"
  by (auto simp: at_cell_def hput_def)

lemma at_less: "at_cell H p c \<Longrightarrow> p < length (exprs H)"
  by (simp add: at_cell_def)

lemma at_ops:
  assumes "at_cell H p c"
  shows "eread H p = Inr c" "ewrite H p d = Inr (hput H p (Some d))" "efree H p = Inr (hput H p None)"
    "etype H p = Inr (enode c)" "eput H p n = Inr (hput H p (Some (c\<lparr>enode := n\<rparr>)))"
    "expr_retain H p = Inr (hput H p (Some (c\<lparr>erefc := erefc c + 1\<rparr>)))"
  using assms by (simp_all add: at_cell_def eread_def ewrite_def efree_def etype_def eput_def expr_retain_def hput_def)

lemma freed_type:
  "p < length (exprs H) \<Longrightarrow> zeroed H \<Longrightarrow> etype (hput H p None) p = Inr N_Empty"
  by (simp add: etype_def eread_def hput_def)

lemma alloc_eq:
  "EXPR_ALLOC H n = Inr (length (exprs H), H\<lparr>exprs := exprs H @ [Some \<lparr>erefc = 0, enode = n\<rparr>]\<rparr>)"
  by (simp add: EXPR_ALLOC_def)

section \<open>Trees\<close>

text \<open>A cell that is referred to once.\<close>

definition cell1 :: "enode \<Rightarrow> ecell" where
  "cell1 n = \<lparr>erefc = 1, enode = n\<rparr>"

lemma cell1_sel [simp]: "erefc (cell1 n) = 1" "enode (cell1 n) = n" "cell1 n\<lparr>enode := k\<rparr> = cell1 k"
  "cell1 n = cell1 k \<longleftrightarrow> n = k"
  by (simp_all add: cell1_def)

text \<open>The cell of an expression whose parts are at the pointers.\<close>

fun parts :: "expr \<Rightarrow> expr list" where
  "parts (E_And e) = [e]"
| "parts (E_Not e) = [e]"
| "parts (E_Option e) = [e]"
| "parts (E_Xblock e) = [e]"
| "parts (E_Xlocal _ e) = [e]"
| "parts (E_Xsymbol _ e) = [e]"
| "parts (E_Choice es) = es"
| "parts (E_Sequence es) = es"
| "parts (E_Repetition es) = es"
| "parts _ = []"

fun cell_of :: "expr \<Rightarrow> eptr list \<Rightarrow> enode" where
  "cell_of E_Empty qs = N_Empty"
| "cell_of (E_Invoke n d) qs = N_Invoke n d"
| "cell_of E_Any qs = N_Any"
| "cell_of (E_Byte b) qs = N_Byte b"
| "cell_of (E_Str t) qs = N_Str t"
| "cell_of (E_Set b) qs = N_Set b"
| "cell_of (E_And e) qs = N_And (qs ! 0)"
| "cell_of (E_Choice es) qs = N_Choice qs"
| "cell_of E_Fail qs = N_Fail"
| "cell_of (E_Not e) qs = N_Not (qs ! 0)"
| "cell_of (E_Option e) qs = N_Option (qs ! 0)"
| "cell_of (E_Sequence es) qs = N_Sequence qs"
| "cell_of (E_Repetition es) qs = N_Repetition qs"
| "cell_of E_Tcapture qs = N_Tcapture"
| "cell_of E_Tdetree qs = N_Tdetree"
| "cell_of E_Tlfold qs = N_Tlfold"
| "cell_of E_Tpush qs = N_Tpush"
| "cell_of (E_Tpop n) qs = N_Tpop n"
| "cell_of E_Tnew qs = N_Tnew"
| "cell_of E_Treplace qs = N_Treplace"
| "cell_of (E_Ttag n) qs = N_Ttag n"
| "cell_of (E_Xblock e) qs = N_Xblock (qs ! 0)"
| "cell_of (E_Xexists n) qs = N_Xexists n"
| "cell_of E_Xif qs = N_Xif"
| "cell_of (E_Xis n) qs = N_Xis n"
| "cell_of (E_Xisa n) qs = N_Xisa n"
| "cell_of E_Xon qs = N_Xon"
| "cell_of E_Xmatch qs = N_Xmatch"
| "cell_of (E_Xlocal n e) qs = N_Xlocal n (qs ! 0)"
| "cell_of (E_Xsymbol n e) qs = N_Xsymbol n (qs ! 0)"

inductive expr_at :: "ast_heap \<Rightarrow> eptr \<Rightarrow> expr \<Rightarrow> eptr set \<Rightarrow> bool"
  and exprs_at :: "ast_heap \<Rightarrow> eptr list \<Rightarrow> expr list \<Rightarrow> eptr set \<Rightarrow> bool"
  for H :: ast_heap where
  Node: "at_cell H p (cell1 (cell_of e qs)) \<Longrightarrow> exprs_at H qs (parts e) B \<Longrightarrow> p \<notin> B \<Longrightarrow> expr_at H p e (insert p B)"
| Nil: "exprs_at H [] [] {}"
| Cons: "expr_at H q e A \<Longrightarrow> exprs_at H qs es B \<Longrightarrow> A \<inter> B = {} \<Longrightarrow> exprs_at H (q # qs) (e # es) (A \<union> B)"

inductive_simps exprs_at_simps:
  "exprs_at H [] es A"
  "exprs_at H (q # qs) es A"
  "exprs_at H qs [] A"
  "exprs_at H qs (e # es) A"

lemma trees_Nil [simp]: "exprs_at H [] es A \<longleftrightarrow> es = [] \<and> A = {}" "exprs_at H qs [] A \<longleftrightarrow> qs = [] \<and> A = {}"
  by (auto simp: exprs_at_simps)

lemma expr_atE:
  assumes "expr_at H p e A"
  obtains qs B where "at_cell H p (cell1 (cell_of e qs))" "exprs_at H qs (parts e) B" "p \<notin> B" "A = insert p B"
  using assms by (auto elim: expr_at.cases)

lemma trees_appendI:
  "exprs_at H qs es A \<Longrightarrow> exprs_at H rs fs B \<Longrightarrow> A \<inter> B = {} \<Longrightarrow> exprs_at H (qs @ rs) (es @ fs) (A \<union> B)"
proof (induction qs arbitrary: es A)
  case (Cons q qs)
  then obtain e es' A1 A2 where e: "es = e # es'" "expr_at H q e A1" "exprs_at H qs es' A2" "A1 \<inter> A2 = {}" "A = A1 \<union> A2"
    by (auto simp: exprs_at_simps(2))
  with Cons.IH [OF e(3) Cons.prems(2)] Cons.prems(3) have t: "exprs_at H (qs @ rs) (es' @ fs) (A2 \<union> B)" by auto
  have "exprs_at H (q # qs @ rs) (e # es' @ fs) (A1 \<union> (A2 \<union> B))"
    using e Cons.prems(3) by (intro expr_at_exprs_at.Cons [OF _ t]) auto
  with e show ?case by (simp add: Un_assoc)
qed simp

lemma trees_appendE:
  assumes "exprs_at H (qs @ rs) es A"
  obtains es1 es2 A1 A2 where "es = es1 @ es2" "exprs_at H qs es1 A1" "exprs_at H rs es2 A2" "A1 \<inter> A2 = {}" "A = A1 \<union> A2"
  using assms
proof (induction qs arbitrary: es A thesis)
  case (Cons q qs)
  then obtain e es' A1 A2 where e: "es = e # es'" "expr_at H q e A1" "exprs_at H (qs @ rs) es' A2" "A1 \<inter> A2 = {}" "A = A1 \<union> A2"
    by (auto simp: exprs_at_simps(2))
  from Cons.IH [OF _ e(3)] obtain es1 es2 B1 B2 where f: "es' = es1 @ es2" "exprs_at H qs es1 B1" "exprs_at H rs es2 B2"
      "B1 \<inter> B2 = {}" "A2 = B1 \<union> B2" by metis
  have "exprs_at H (q # qs) (e # es1) (A1 \<union> B1)"
    using e f by (intro expr_at_exprs_at.Cons) auto
  with e f show ?case by (intro Cons.prems(1) [of "e # es1" es2 "A1 \<union> B1" B2]) auto
qed simp

lemma trees_length: "exprs_at H qs es A \<Longrightarrow> length qs = length es"
  by (induction qs arbitrary: es A) (auto simp: exprs_at_simps(2))

lemma tree_root: "expr_at H p e A \<Longrightarrow> p \<in> A"
  by (auto elim: expr_atE)

lemma trees_roots: "exprs_at H qs es A \<Longrightarrow> set qs \<subseteq> A"
  by (induction qs arbitrary: es A) (auto simp: exprs_at_simps(2) dest: tree_root)

text \<open>A tree only depends on its cells.\<close>

lemma tree_frame:
  "expr_at H p e A \<Longrightarrow> (\<And>q c. q \<in> A \<Longrightarrow> at_cell H q c \<Longrightarrow> at_cell H' q c) \<Longrightarrow> expr_at H' p e A"
  "exprs_at H qs es A \<Longrightarrow> (\<And>q c. q \<in> A \<Longrightarrow> at_cell H q c \<Longrightarrow> at_cell H' q c) \<Longrightarrow> exprs_at H' qs es A"
  by (induction rule: expr_at_exprs_at.inducts) (auto intro: expr_at_exprs_at.intros)

lemma trees_less: 
  "expr_at H p e A \<Longrightarrow> A \<subseteq> {..<length (exprs H)}"
  "exprs_at H qs es A \<Longrightarrow> A \<subseteq> {..<length (exprs H)}"
  by (induction rule: expr_at_exprs_at.inducts) (auto dest: at_less)

section \<open>Counts and frees\<close>

declare moz_expr_sweep.simps(2) [simp del] moz_expr_optimize.simps(2) [simp del] seq_loop.simps(2) [simp del]
  seq_strings.simps(2) [simp del]

text \<open>The cells of \<open>Q\<close> get the count \<open>c\<close>, or are freed.\<close>

definition recount :: "nat \<Rightarrow> eptr set \<Rightarrow> ast_heap \<Rightarrow> ast_heap" where
  "recount c Q H = H\<lparr>exprs := map (\<lambda>i. if i \<in> Q then map_option (\<lambda>x. x\<lparr>erefc := c\<rparr>) (exprs H ! i) else exprs H ! i)
     [0..<length (exprs H)]\<rparr>"

definition clear :: "eptr set \<Rightarrow> ast_heap \<Rightarrow> ast_heap" where
  "clear Q H = H\<lparr>exprs := map (\<lambda>i. if i \<in> Q then None else exprs H ! i) [0..<length (exprs H)]\<rparr>"

lemma recount_sel [simp]:
  "length (exprs (recount c Q H)) = length (exprs H)" "pdecls (recount c Q H) = pdecls H"
  "dlist (recount c Q H) = dlist H" "zeroed (recount c Q H) = zeroed H"
  "length (exprs (clear Q H)) = length (exprs H)" "pdecls (clear Q H) = pdecls H"
  "dlist (clear Q H) = dlist H" "zeroed (clear Q H) = zeroed H"
  by (simp_all add: recount_def clear_def)

lemma at_recount:
  "at_cell H p x \<Longrightarrow> at_cell (recount c Q H) p d \<longleftrightarrow> d = (if p \<in> Q then x\<lparr>erefc := c\<rparr> else x)"
  "at_cell H p x \<Longrightarrow> p \<notin> Q \<Longrightarrow> at_cell (clear Q H) p d \<longleftrightarrow> d = x"
  by (auto simp: at_cell_def recount_def clear_def)

lemma recount_empty [simp]: "recount c {} H = H" "clear {} H = H"
  by (simp_all add: recount_def clear_def map_nth)

lemma heap_eqI:
  fixes H H' :: ast_heap
  assumes "length (exprs H) = length (exprs H')" "\<And>i. i < length (exprs H) \<Longrightarrow> exprs H ! i = exprs H' ! i"
    "pdecls H = pdecls H'" "dlist H = dlist H'" "zeroed H = zeroed H'"
  shows "H = H'"
  using assms by (intro ast_heap.equality) (auto intro: nth_equalityI)

lemma nth_hput: "i < length (exprs H) \<Longrightarrow> exprs (hput H p c) ! i = (if i = p then c else exprs H ! i)"
  by (simp add: hput_def nth_list_update)

lemma nth_recount:
  "i < length (exprs H) \<Longrightarrow>
     exprs (recount c Q H) ! i = (if i \<in> Q then map_option (\<lambda>x. x\<lparr>erefc := c\<rparr>) (exprs H ! i) else exprs H ! i)"
  "i < length (exprs H) \<Longrightarrow> exprs (clear Q H) ! i = (if i \<in> Q then None else exprs H ! i)"
  by (simp_all add: recount_def clear_def)

lemma recount_insert:
  assumes "at_cell H k x"
  shows "hput (recount c Q H) k (Some (x\<lparr>erefc := c\<rparr>)) = recount c (insert k Q) H"
    "hput (clear Q H) k None = clear (insert k Q) H"
  using assms by (auto intro!: heap_eqI simp: nth_hput nth_recount at_cell_def)

lemma recount_back:
  assumes "\<And>k. k \<in> Q \<Longrightarrow> \<exists>x. at_cell H k x \<and> erefc x = c"
  shows "recount c Q (recount d Q H) = H"
proof (rule heap_eqI)
  fix i
  assume i: "i < length (exprs (recount c Q (recount d Q H)))"
  show "exprs (recount c Q (recount d Q H)) ! i = exprs H ! i"
  proof (cases "i \<in> Q")
    case True
    then obtain x where "at_cell H i x" "erefc x = c" using assms by blast
    with i True show ?thesis by (cases x) (simp add: nth_recount at_cell_def)
  qed (use i in \<open>simp add: nth_recount\<close>)
qed simp_all

text \<open>The parts of a list lose one of two references, or their last one.\<close>

lemma release_kids:
  assumes "distinct ks" "\<And>k. k \<in> set ks \<Longrightarrow> \<exists>x. at_cell H k x \<and> erefc x = 2"
  shows "rfold (expr_release sweep) H ks = Inr (recount (Suc 0) (set ks) H)"
proof -
  have "rfold (expr_release sweep) (recount (Suc 0) Q H) ls = Inr (recount (Suc 0) (Q \<union> set ls) H)"
    if "distinct ls" "set ls \<subseteq> set ks" "Q \<inter> set ls = {}" for ls Q
    using that
  proof (induction ls arbitrary: Q)
    case (Cons k ls)
    then have "k \<in> set ks" by simp
    then obtain x where x: "at_cell H k x" "erefc x = 2" using assms(2) by blast
    then have c: "at_cell (recount (Suc 0) Q H) k x" using Cons by (simp add: at_recount)
    have "expr_release sweep (recount (Suc 0) Q H) k = Inr (recount (Suc 0) (insert k Q) H)"
      using x recount_insert(1) [OF x(1), of "Suc 0" Q] by (simp add: expr_release_def at_ops [OF c])
    with Cons show ?case using Cons.IH [of "insert k Q"] by auto
  qed simp
  from this [of ks "{}"] assms show ?thesis by simp
qed

text \<open>Cells without parts.\<close>

definition plain :: "enode \<Rightarrow> bool" where
  "plain n \<longleftrightarrow> (case n of N_Empty \<Rightarrow> True | N_Any \<Rightarrow> True | N_Byte _ \<Rightarrow> True | N_Str _ \<Rightarrow> True | N_Set _ \<Rightarrow> True | _ \<Rightarrow> False)"

lemma sweep_plain:
  assumes "at_cell H p c" "plain (enode c)"
  shows "moz_expr_sweep (Suc f) H p = Inr (hput H p None)"
  using assms by (cases "enode c") (simp_all add: moz_expr_sweep.simps(2) at_ops plain_def moz_Expr_sweep_def)

text \<open>The last reference is released: the sweeper starts with the count at 0.\<close>

definition cell0 :: "enode \<Rightarrow> ecell" where
  "cell0 n = \<lparr>erefc = 0, enode = n\<rparr>"

lemma cell0_sel [simp]: "enode (cell0 n) = n"
  by (simp add: cell0_def)

lemma release_last:
  "at_cell H p (cell1 n) \<Longrightarrow> expr_release sweep H p = sweep (hput H p (Some (cell0 n))) p"
  by (simp add: expr_release_def at_ops) (simp add: cell1_def cell0_def)

lemma at_cell0: "at_cell H p c \<Longrightarrow> at_cell (hput H p (Some (cell0 n))) p (cell0 n)"
  by (simp add: at_less)

lemma release_plain1:
  "at_cell H p (cell1 n) \<Longrightarrow> plain n \<Longrightarrow> expr_release (moz_expr_sweep (Suc f)) H p = Inr (hput H p None)"
  by (simp add: release_last sweep_plain [OF at_cell0])

lemma release_plain: "at_cell H p (cell1 n) \<Longrightarrow> plain n \<Longrightarrow> RELEASE_expr H p = Inr (hput H p None)"
  by (simp add: RELEASE_expr_def release_last sweep_all_def sweep_plain [OF at_cell0])

lemma release_leaves:
  assumes "distinct ks" "\<And>k. k \<in> set ks \<Longrightarrow> \<exists>n. at_cell H k (cell1 n) \<and> plain n"
  shows "rfold (expr_release (moz_expr_sweep (Suc f))) H ks = Inr (clear (set ks) H)"
proof -
  have "rfold (expr_release (moz_expr_sweep (Suc f))) (clear Q H) ls = Inr (clear (Q \<union> set ls) H)"
    if "distinct ls" "set ls \<subseteq> set ks" "Q \<inter> set ls = {}" for ls Q
    using that
  proof (induction ls arbitrary: Q)
    case (Cons k ls)
    then have "k \<in> set ks" by simp
    then obtain n where n: "at_cell H k (cell1 n)" "plain n" using assms(2) by blast
    then have c: "at_cell (clear Q H) k (cell1 n)" using Cons by (simp add: at_recount)
    have "expr_release (moz_expr_sweep (Suc f)) (clear Q H) k = Inr (clear (insert k Q) H)"
      using release_plain1 [OF c n(2), of f] recount_insert(2) [OF n(1), of Q] by simp
    with Cons show ?case using Cons.IH [of "insert k Q"] by auto
  qed simp
  from this [of ks "{}"] assms show ?thesis by simp
qed

text \<open>Releasing a structure with a list, whose parts have another reference, or are plain.\<close>

fun list_node :: "enode \<Rightarrow> eptr list option" where
  "list_node (N_Choice ks) = Some ks"
| "list_node (N_Sequence ks) = Some ks"
| "list_node (N_Repetition ks) = Some ks"
| "list_node _ = None"

lemma sweep_list:
  "at_cell H p c \<Longrightarrow> list_node (enode c) = Some ks \<Longrightarrow> moz_expr_sweep (Suc f) H p = moz_List_sweep (moz_expr_sweep f) H p ks"
  by (cases "enode c") (simp_all add: moz_expr_sweep.simps(2) at_ops)

lemma hput_recount: "p \<notin> Q \<Longrightarrow> recount c Q (hput H p x) = hput (recount c Q H) p x"
  "p \<notin> Q \<Longrightarrow> clear Q (hput H p x) = hput (clear Q H) p x"
  by (auto intro!: heap_eqI simp: nth_hput nth_recount)

lemma efree_hput: "p < length (exprs H) \<Longrightarrow> efree (hput H p (Some c)) p = Inr (hput H p None)"
  by (subst at_ops(3) [where c = c]) simp_all

lemma release_shell:
  assumes p: "at_cell H p (cell1 n)" "list_node n = Some ks" "distinct ks" "p \<notin> set ks"
    and k: "\<And>k. k \<in> set ks \<Longrightarrow> \<exists>x. at_cell H k x \<and> erefc x = 2"
  shows "RELEASE_expr H p = Inr (hput (recount (Suc 0) (set ks) H) p None)"
proof -
  let ?G = "hput H p (Some (cell0 n))"
  have "\<exists>x. at_cell ?G k x \<and> erefc x = 2" if "k \<in> set ks" for k
    using k [OF that] p(4) that by (metis at_hput(2))
  then have "moz_List_sweep sw ?G p ks = Inr (hput (recount (Suc 0) (set ks) H) p None)" for sw
    using release_kids [of ks ?G sw] p by (simp add: moz_List_sweep_def hput_recount efree_hput at_less)
  then show ?thesis
    using p by (simp add: RELEASE_expr_def release_last sweep_all_def sweep_list [OF at_cell0])
qed

lemma release_all:
  assumes p: "at_cell H p (cell1 n)" "list_node n = Some ks" "distinct ks" "p \<notin> set ks"
    and k: "\<And>k. k \<in> set ks \<Longrightarrow> \<exists>n. at_cell H k (cell1 n) \<and> plain n"
  shows "RELEASE_expr H p = Inr (clear (insert p (set ks)) H)"
proof -
  let ?G = "hput H p (Some (cell0 n))"
  have "\<exists>x. at_cell ?G k (cell1 x) \<and> plain x" if "k \<in> set ks" for k
    using k [OF that] p(4) that by (metis at_hput(2))
  then have "moz_List_sweep (moz_expr_sweep (Suc f)) ?G p ks = Inr (clear (insert p (set ks)) H)" for f
    using release_leaves [of ks ?G f] p recount_insert(2) [OF p(1), of "set ks"]
    by (simp add: moz_List_sweep_def hput_recount efree_hput at_less)
  moreover obtain f where "length (exprs H) + length (pdecls H) = Suc f"
    using at_less [OF p(1)] by (cases "length (exprs H) + length (pdecls H)") auto
  ultimately show ?thesis
    using p by (simp add: RELEASE_expr_def release_last sweep_all_def sweep_list [OF at_cell0])
qed

lemma release_not:
  assumes p: "at_cell H p (cell1 (N_Not q))" "at_cell H q (cell1 n)" "plain n" "p \<noteq> q"
  shows "RELEASE_expr H p = Inr (hput (hput H q None) p None)"
proof -
  let ?G = "hput H p (Some (cell0 (N_Not q)))"
  have q: "at_cell ?G q (cell1 n)" using p by simp
  have "hput (hput H p x) q y = hput (hput H q y) p x" for x y
    using p(4) by (simp add: hput_def list_update_swap)
  then have "moz_Unary_sweep (moz_expr_sweep (Suc f)) ?G p q = Inr (hput (hput H q None) p None)" for f
    using release_plain1 [OF q p(3)] at_less [OF p(1)] by (simp add: moz_Unary_sweep_def efree_hput)
  moreover obtain f where "length (exprs H) + length (pdecls H) = Suc f"
    using at_less [OF p(1)] by (cases "length (exprs H) + length (pdecls H)") auto
  ultimately show ?thesis
    using at_cell0 [OF p(1), of "N_Not q"]
    by (simp add: RELEASE_expr_def release_last [OF p(1)] sweep_all_def moz_expr_sweep.simps(2) [of _ ?G] at_ops)
qed

section \<open>Running the operations\<close>

text \<open>Rules that evaluate a run of operations on a heap with known cells.\<close>

definition alive :: "ast_heap \<Rightarrow> eptr \<Rightarrow> bool" where
  "alive H p \<longleftrightarrow> p < length (exprs H) \<and> exprs H ! p \<noteq> None"

definition plain1 :: "ast_heap \<Rightarrow> eptr \<Rightarrow> bool" where
  "plain1 H p \<longleftrightarrow> (\<exists>n. at_cell H p (cell1 n) \<and> plain n)"

definition halloc :: "ast_heap \<Rightarrow> enode \<Rightarrow> ast_heap" where
  "halloc H n = H\<lparr>exprs := exprs H @ [Some (cell0 n)]\<rparr>"

named_theorems runs

lemma halloc_sel [simp]:
  "length (exprs (halloc H n)) = Suc (length (exprs H))" "pdecls (halloc H n) = pdecls H" "dlist (halloc H n) = dlist H"
  "zeroed (halloc H n) = zeroed H"
  by (simp_all add: halloc_def)

lemma hput_runs [runs]:
  "p < length (exprs H) \<Longrightarrow> eread (hput H p (Some c)) p = Inr c"
  "p \<noteq> q \<Longrightarrow> eread (hput H q x) p = eread H p"
  "p \<noteq> q \<Longrightarrow> alive (hput H q x) p = alive H p"
  "p < length (exprs H) \<Longrightarrow> alive (hput H p (Some c)) p"
  "p \<noteq> q \<Longrightarrow> plain1 (hput H q x) p = plain1 H p"
  "p < length (exprs H) \<Longrightarrow> zeroed H \<Longrightarrow> eread (hput H p None) p = Inr (cell0 N_Empty)"
  by (auto simp: eread_def hput_def alive_def plain1_def at_cell_def cell0_def nth_list_update aread_def)

lemma halloc_runs [runs]:
  "EXPR_ALLOC H n = Inr (length (exprs H), halloc H n)"
  "p < length (exprs H) \<Longrightarrow> eread (halloc H n) p = eread H p"
  "eread (halloc H n) (length (exprs H)) = Inr (cell0 n)"
  "p < length (exprs H) \<Longrightarrow> alive (halloc H n) p = alive H p"
  "alive (halloc H n) (length (exprs H))"
  "p < length (exprs H) \<Longrightarrow> plain1 (halloc H n) p = plain1 H p"
  by (auto simp: EXPR_ALLOC_def cell0_def eread_def halloc_def alive_def plain1_def at_cell_def nth_append aread_def)

lemma write_runs [runs]:
  "alive H p \<Longrightarrow> ewrite H p c = Inr (hput H p (Some c))"
  "plain1 H p \<Longrightarrow> RELEASE_expr H p = Inr (hput H p None)"
  by (auto simp: ewrite_def alive_def hput_def plain1_def release_plain)

lemmas [runs] = etype_def eput_def get_list_def put_list_def list_set_def list_remove_def list_insert_def loc_read_def
  expr_retain_def has_next_def

lemma at_runs:
  assumes "at_cell H p c"
  shows "eread H p = Inr c" "alive H p" "p < length (exprs H)"
  using assms by (simp_all add: at_ops at_less) (simp add: alive_def at_cell_def)

lemma plain1I: "at_cell H p (cell1 n) \<Longrightarrow> plain n \<Longrightarrow> plain1 H p"
  by (auto simp: plain1_def)

lemma at_halloc [simp]:
  "p < length (exprs H) \<Longrightarrow> at_cell (halloc H n) p c = at_cell H p c"
  "at_cell (halloc H n) (length (exprs H)) c \<longleftrightarrow> c = cell0 n"
  by (auto simp: halloc_def at_cell_def nth_append)

section \<open>What is left alone\<close>

definition frame :: "ast_heap \<Rightarrow> eptr set \<Rightarrow> ast_heap \<Rightarrow> bool" where
  "frame H A H' \<longleftrightarrow> pdecls H' = pdecls H \<and> dlist H' = dlist H \<and> zeroed H' = zeroed H \<and> length (exprs H) \<le> length (exprs H') \<and>
     (\<forall>q < length (exprs H). q \<notin> A \<longrightarrow> exprs H' ! q = exprs H ! q)"

definition grown :: "ast_heap \<Rightarrow> eptr set \<Rightarrow> eptr set" where
  "grown H A = A \<union> {length (exprs H)..}"

lemma frame_refl [simp]: "frame H A H"
  by (simp add: frame_def)

lemma frame_hput: "p \<in> grown H A \<Longrightarrow> frame H A H' \<Longrightarrow> frame H A (hput H' p x)"
  unfolding frame_def grown_def hput_def by (auto simp del: not_less) (metis nth_list_update_neq)+

lemma frame_halloc: "frame H A H' \<Longrightarrow> frame H A (halloc H' n)"
  by (auto simp: frame_def halloc_def nth_append)

lemma frame_clear: "Q \<subseteq> A \<Longrightarrow> frame H A H' \<Longrightarrow> frame H A (clear Q H')"
  by (auto simp: frame_def nth_recount)

lemma frame_trans: "frame H A H' \<Longrightarrow> frame H' B H'' \<Longrightarrow> B \<subseteq> grown H A \<Longrightarrow> frame H A H''"
  unfolding frame_def grown_def by (auto simp: subset_iff) (metis leD order.strict_trans2)+

lemma frame_at: "frame H A H' \<Longrightarrow> p \<notin> A \<Longrightarrow> at_cell H p c \<Longrightarrow> at_cell H' p c"
  by (auto simp: frame_def at_cell_def)

lemma frame_tree:
  "frame H A H' \<Longrightarrow> expr_at H p e B \<Longrightarrow> A \<inter> B = {} \<Longrightarrow> expr_at H' p e B"
  "frame H A H' \<Longrightarrow> exprs_at H qs es B \<Longrightarrow> A \<inter> B = {} \<Longrightarrow> exprs_at H' qs es B"
  by (auto elim!: tree_frame intro: frame_at)

lemma frame_zeroed: "frame H A H' \<Longrightarrow> zeroed H' = zeroed H"
  by (simp add: frame_def)

lemma grown_mono: "A \<subseteq> grown H A" "frame H A H' \<Longrightarrow> B \<subseteq> grown H A \<Longrightarrow> grown H' B \<subseteq> grown H A"
  by (auto simp: grown_def frame_def)

section \<open>Sequences\<close>

lemma index_runs [runs]:
  "(ps @ q # qs) ! Suc (length ps) = qs ! 0" "(ps @ q # qs) ! length ps = q"
  by (simp_all add: nth_append)

lemma case_other:
  "\<forall>b. n \<noteq> N_Byte b \<Longrightarrow> (case n of N_Byte b \<Rightarrow> f b | _ \<Rightarrow> d) = d"
  "n \<noteq> N_Any \<Longrightarrow> (case n of N_Any \<Rightarrow> a | _ \<Rightarrow> d) = d"
  "\<forall>b. n \<noteq> N_Byte b \<Longrightarrow> \<forall>t. n \<noteq> N_Str t \<Longrightarrow> (case n of N_Byte b \<Rightarrow> f b | N_Str t \<Rightarrow> g t | _ \<Rightarrow> d) = d"
  by (cases n; simp)+

definition seqc :: "eptr list \<Rightarrow> ecell" where
  "seqc qs = cell1 (N_Sequence qs)"

lemma seqc_sel [simp]: "enode (seqc qs) = N_Sequence qs" "erefc (seqc qs) = 1" "seqc qs\<lparr>enode := N_Sequence rs\<rparr> = seqc rs"
  "seqc qs = seqc rs \<longleftrightarrow> qs = rs"
  by (simp_all add: seqc_def)

lemma refs_up [simp]: "cell0 n\<lparr>erefc := Suc 0\<rparr> = cell1 n" "cell0 n\<lparr>enode := k\<rparr> = cell0 k" "erefc (cell0 n) = 0"
  by (simp_all add: cell0_def cell1_def)

definition turn :: "nat \<Rightarrow> eptr \<Rightarrow> nat \<Rightarrow> eptr \<Rightarrow> bool \<times> ast_heap \<Rightarrow> (bool \<times> ast_heap) res" where
  "turn f e i child st =
     rbind (seq_flatten e i child st) (\<lambda>st. rbind (seq_bytes e i child st) (\<lambda>st.
     rbind (seq_strings f e i child st) (\<lambda>st. seq_not_any e i child st)))"

lemma seq_loop_turn:
  assumes "at_cell H e (seqc (ps @ q # qs))"
  shows "seq_loop (Suc f) e (length ps) (m, H) = rbind (turn f e (length ps) q (m, H)) (seq_loop f e (Suc (length ps)))"
  by (simp add: seq_loop.simps(2) runs at_runs [OF assms] turn_def Let_def rbind_assoc)

lemma seq_loop_end: "at_cell H e (seqc qs) \<Longrightarrow> length qs \<le> i \<Longrightarrow> seq_loop (Suc f) e i (m, H) = Inr (m, H)"
  by (simp add: seq_loop.simps(2) runs at_runs)

definition quiet :: "enode \<Rightarrow> bool" where
  "quiet n \<longleftrightarrow> (case n of N_Sequence _ \<Rightarrow> False | N_Byte _ \<Rightarrow> False | N_Str _ \<Rightarrow> False | N_Not _ \<Rightarrow> False | _ \<Rightarrow> True)"

lemma quiet_steps:
  assumes "etype H q = Inr n" "quiet n"
  shows "seq_flatten e i q (m, H) = Inr (m, H)" "seq_bytes e i q (m, H) = Inr (m, H)"
    "seq_strings (Suc f) e i q (m, H) = Inr (m, H)" "seq_not_any e i q (m, H) = Inr (m, H)"
  using assms by (cases n; simp add: seq_flatten_def seq_bytes_def seq_strings.simps(2) seq_not_any_def quiet_def)+

lemma other_steps:
  assumes "etype H q = Inr n"
  shows "list_node n = None \<Longrightarrow> seq_flatten e i q (m, H) = Inr (m, H)"
    "\<forall>b. n \<noteq> N_Byte b \<Longrightarrow> seq_bytes e i q (m, H) = Inr (m, H)"
    "\<forall>t. n \<noteq> N_Str t \<Longrightarrow> seq_strings (Suc f) e i q (m, H) = Inr (m, H)"
    "\<forall>x. n \<noteq> N_Not x \<Longrightarrow> seq_not_any e i q (m, H) = Inr (m, H)"
  using assms by (cases n; simp add: seq_flatten_def seq_bytes_def seq_strings.simps(2) seq_not_any_def)+

lemma cell_of_eq [simp]:
  "cell_of e ks = N_Byte b \<longleftrightarrow> e = E_Byte b"
  "cell_of e ks = N_Str t \<longleftrightarrow> e = E_Str t"
  "cell_of e ks = N_Any \<longleftrightarrow> e = E_Any"
  "cell_of e ks = N_Empty \<longleftrightarrow> e = E_Empty"
  by (cases e; simp)+

lemma at_etype: "at_cell H q c \<Longrightarrow> etype H q = Inr (enode c)"
  by (rule at_ops(4))

text \<open>The result of a turn: the element is replaced, and the following ones are.\<close>

definition turned :: "ast_heap \<Rightarrow> eptr \<Rightarrow> eptr list \<Rightarrow> eptr set \<Rightarrow> ast_heap \<Rightarrow> expr \<Rightarrow> expr list \<Rightarrow> bool" where
  "turned H e ps B H' f fs \<longleftrightarrow> (\<exists>q qs A1 B1.
     at_cell H' e (seqc (ps @ q # qs)) \<and> expr_at H' q f A1 \<and> exprs_at H' qs fs B1 \<and> A1 \<inter> B1 = {} \<and> e \<notin> A1 \<union> B1 \<and>
     A1 \<union> B1 \<subseteq> grown H B \<and> frame H (insert e B) H')"

lemma plain_tree:
  assumes "at_cell H q (cell1 n)" "plain n" "n = cell_of e []" "parts e = []"
  shows "expr_at H q e {q}"
  using expr_at_exprs_at.Node [of H q e "[]" "{}"] assms by simp

lemma plain_exprE:
  assumes "expr_at H q e A" "parts e = []"
  obtains qs where "at_cell H q (cell1 (cell_of e qs))" "A = {q}"
  using assms by (auto elim!: expr_atE)

lemma unary_atE:
  assumes "expr_at H p e A" "parts e = [x]"
  obtains q B where "at_cell H p (cell1 (cell_of e [q]))" "expr_at H q x B" "p \<notin> B" "A = insert p B"
proof -
  from assms obtain qs B where q: "at_cell H p (cell1 (cell_of e qs))" "exprs_at H qs [x] B" "p \<notin> B" "A = insert p B"
    by (auto elim: expr_atE)
  then obtain q where "qs = [q]" "expr_at H q x B" by (auto simp: exprs_at_simps(4))
  with q show ?thesis by (intro that) auto
qed

lemma turn_keep:
  assumes kept: "kept f1 fs1" and q: "expr_at H q f1 A" and qs: "exprs_at H qs fs1 B" and e: "at_cell H e (seqc (ps @ q # qs))"
  shows "turn (Suc f) e (length ps) q (m, H) = Inr (m, H)"
proof -
  obtain ks where ks: "at_cell H q (cell1 (cell_of f1 ks))" using q by (auto elim: expr_atE)
  note run = turn_def runs at_runs [OF e] at_runs [OF ks]
  have t: "etype H q = Inr (cell_of f1 ks)" using at_etype [OF ks] by simp
  show ?thesis
  proof (cases f1)
    case [simp]: (E_Byte b)
    then have b: "next_byte fs1 = None" using kept by (simp add: kept_def)
    have "seq_bytes e (length ps) q (m, H) = Inr (m, H)"
    proof (cases qs)
      case (Cons q2 rs)
      with qs obtain f2 gs ks2 where f2: "fs1 = f2 # gs" "at_cell H q2 (cell1 (cell_of f2 ks2))"
        by (auto simp: exprs_at_simps(2) elim!: expr_atE)
      then have "\<forall>c. cell_of f2 ks2 \<noteq> N_Byte c" using b by auto
      then show ?thesis
        by (simp add: seq_bytes_def runs at_runs [OF e] at_runs [OF ks] at_runs [OF f2(2)] Cons case_other)
    qed (simp add: seq_bytes_def runs at_runs [OF e] at_runs [OF ks])
    then show ?thesis using t by (simp add: turn_def other_steps)
  next
    case [simp]: (E_Not x)
    then have b: "the_byte x = None \<or> next_any fs1 = None" using kept by (simp add: kept_def)
    from q obtain q1 A1 where "at_cell H q (cell1 (N_Not q1))" "expr_at H q1 x A1"
      by (auto elim: unary_atE)
    then obtain ks1 where q1: "at_cell H q (cell1 (N_Not q1))" "at_cell H q1 (cell1 (cell_of x ks1))"
      by (auto elim: expr_atE)
    have "seq_not_any e (length ps) q (m, H) = Inr (m, H)"
    proof (cases qs)
      case (Cons q2 rs)
      with qs obtain f2 gs ks2 where f2: "fs1 = f2 # gs" "at_cell H q2 (cell1 (cell_of f2 ks2))"
        by (auto simp: exprs_at_simps(2) elim!: expr_atE)
      note run = seq_not_any_def runs at_runs [OF e] at_runs [OF q1(1)] at_runs [OF q1(2)] at_runs [OF f2(2)] Cons case_other
      show ?thesis
      proof (cases "\<exists>c. x = E_Byte c")
        case True
        then have "cell_of f2 ks2 \<noteq> N_Any" using b f2(1) by auto
        then show ?thesis using True by (auto simp: run)
      qed (simp add: run)
    qed (simp add: seq_not_any_def runs at_runs [OF e] at_runs [OF q1(1)])
    then show ?thesis using t by (simp add: turn_def other_steps)
  qed (use kept t in \<open>simp_all add: turn_def quiet_steps quiet_def kept_def\<close>)
qed

lemma seqc_runs [runs]:
  "awrite (ps @ q # qs) (length ps) p = Inr (ps @ p # qs)"
  "aread (ps @ q # r # qs) (Suc (length ps)) = Inr r"
  "take (Suc (length ps)) (ps @ q # r # qs) = ps @ [q]" "drop (Suc (Suc (length ps))) (ps @ q # r # qs) = qs"
  by (simp_all add: nth_append)

lemma frame_new:
  assumes "frame H A H'" "exprs_at H rs fs B" "A \<inter> B = {}"
  shows "exprs_at H' rs fs B"
  using assms by (rule frame_tree(2))

lemma turn_bytes:
  assumes e: "at_cell H e (seqc (ps @ q # q2 # rs))" and q: "at_cell H q (cell1 (N_Byte a))" and q2: "at_cell H q2 (cell1 (N_Byte b))"
    and rs: "exprs_at H rs fs B" and z: "zeroed H" and d: "q \<noteq> q2" "e \<noteq> q" "e \<noteq> q2" "B \<inter> {e, q, q2} = {}"
  shows "\<exists>H'. turn (Suc f) e (length ps) q (m, H) = Inr (True, H') \<and> turned H e ps (insert q (insert q2 B)) H' (E_Str [a, b]) fs"
proof -
  let ?p = "length (exprs H)"
  define H1 where "H1 = hput (hput (hput (hput (halloc H (N_Str [a, b])) e (Some (seqc (ps @ ?p # q2 # rs)))) ?p (Some (cell1 (N_Str [a, b]))))
      q None) q2 None"
  define H2 where "H2 = hput H1 e (Some (seqc (ps @ ?p # rs)))"
  note lt0 = at_less [OF e] at_less [OF q] at_less [OF q2]
  note lt = lt0 lt0 [THEN less_SucI]
  have ne: "?p \<noteq> e" "?p \<noteq> q" "?p \<noteq> q2" using lt by auto
  note base = at_runs [OF e] at_runs [OF q] at_runs [OF q2] plain1I [OF q] plain1I [OF q2]
  have "seq_bytes e (length ps) q (m, H) = Inr (True, H2)"
    using ne d by (simp add: seq_bytes_def moz_Sequence_concatByte_def runs base ne [symmetric] plain_def lt H1_def H2_def)
  moreover have "seq_flatten e (length ps) q (m, H) = Inr (m, H)"
    using at_etype [OF q] by (simp add: other_steps)
  moreover have "etype H2 q = Inr N_Empty"
    using ne d z lt by (simp add: runs H1_def H2_def)
  ultimately have "turn (Suc f) e (length ps) q (m, H) = Inr (True, H2)"
    by (simp add: turn_def quiet_steps quiet_def)
  moreover have "frame H (insert e (insert q (insert q2 {}))) H2"
    unfolding H1_def H2_def by (intro frame_hput frame_halloc frame_refl) (auto simp: grown_def)
  moreover have "at_cell H2 e (seqc (ps @ ?p # rs))" using lt by (simp add: H2_def H1_def)
  moreover have "expr_at H2 ?p (E_Str [a, b]) {?p}"
    using ne d lt by (intro plain_tree [of _ _ "N_Str [a, b]"]) (simp_all add: H1_def H2_def plain_def)
  moreover have "?p \<notin> B" using trees_less(2) [OF rs] by auto
  ultimately show ?thesis
    using frame_tree(2) [OF _ rs, of "{e, q, q2}" H2] d ne unfolding turned_def
    by (intro exI [of _ H2] conjI exI [of _ ?p] exI [of _ rs] exI [of _ "{?p}"] exI [of _ B])
      (auto simp: grown_def elim!: frame_trans [OF frame_refl])
qed

lemma set_runs:
  "bitset_wf s \<Longrightarrow> bitset_set s (unat b) = Inr (ins_byte s b)"
  "bitset_wf s \<Longrightarrow> bitset_set s 0 = Inr (ins_byte s 0)"
  using bitset_set_ok [of s "unat b"] bitset_set_ok [of s 0] by (auto simp: ins_byte_def)

lemma turn_not_any:
  assumes e: "at_cell H e (seqc (ps @ q # q2 # rs))" and q: "at_cell H q (cell1 (N_Not x))" and x: "at_cell H x (cell1 (N_Byte b))"
    and q2: "at_cell H q2 (cell1 N_Any)" and rs: "exprs_at H rs fs B" and z: "zeroed H"
    and d: "q \<noteq> q2" "e \<noteq> q" "e \<noteq> q2" "x \<noteq> e" "x \<noteq> q" "x \<noteq> q2" "B \<inter> {e, q, x, q2} = {}"
  shows "\<exists>H'. turn (Suc f) e (length ps) q (m, H) = Inr (True, H') \<and>
    turned H e ps ({q, x, q2} \<union> B) H' (E_Set (other_bytes b)) fs"
proof -
  let ?p = "length (exprs H)" and ?n = "N_Set (other_bytes b)"
  define H1 where "H1 = hput (hput (hput (halloc H ?n) e (Some (seqc (ps @ ?p # q2 # rs)))) e (Some (seqc (ps @ ?p # rs))))
      ?p (Some (cell1 ?n))"
  define H2 where "H2 = hput (hput (hput H1 x None) q None) q2 None"
  note lt0 = at_less [OF e] at_less [OF q] at_less [OF q2] at_less [OF x]
  note lt = lt0 lt0 [THEN less_SucI]
  have ne: "?p \<noteq> e" "?p \<noteq> q" "?p \<noteq> q2" "?p \<noteq> x" using lt by auto
  note base = at_runs [OF e] at_runs [OF q] at_runs [OF q2] at_runs [OF x] plain1I [OF q2]
  have rel: "RELEASE_expr H1 q = Inr (hput (hput H1 x None) q None)"
    using q x ne d lt unfolding H1_def by (intro release_not [of _ _ _ "N_Byte b"]) (simp_all add: plain_def)
  have "seq_not_any e (length ps) q (m, H) = Inr (True, H2)"
    using ne d rel [unfolded H1_def]
    by (simp add: seq_not_any_def set_runs no_bytes_def [symmetric] other_bytes_def [symmetric] runs base ne [symmetric]
        plain_def lt H1_def H2_def)
  moreover have "etype H q = Inr (N_Not x)" using at_etype [OF q] by simp
  ultimately have "turn (Suc f) e (length ps) q (m, H) = Inr (True, H2)"
    by (simp add: turn_def other_steps)
  moreover have "frame H {e, q, x, q2} H2"
    unfolding H1_def H2_def by (intro frame_hput frame_halloc frame_refl) (auto simp: grown_def)
  moreover have "at_cell H2 e (seqc (ps @ ?p # rs))" using lt ne d by (simp add: H2_def H1_def)
  moreover have "expr_at H2 ?p (E_Set (other_bytes b)) {?p}"
    using ne d lt by (intro plain_tree [of _ _ ?n]) (simp_all add: H1_def H2_def plain_def)
  moreover have "?p \<notin> B" using trees_less(2) [OF rs] by auto
  ultimately show ?thesis
    using frame_tree(2) [OF _ rs, of "{e, q, x, q2}" H2] d ne unfolding turned_def
    by (intro exI [of _ H2] conjI exI [of _ ?p] exI [of _ rs] exI [of _ "{?p}"] exI [of _ B])
      (auto simp: grown_def elim!: frame_trans [OF frame_refl])
qed

text \<open>Flattening leaves the counts as they were: every part gains the reference of the outer sequence and
loses that of the inner one.\<close>

lemma flatten_ok:
  assumes e: "at_cell H e (seqc (ps @ q # rs))" and q: "at_cell H q (seqc ks)"
    and ks: "\<And>k. k \<in> set ks \<Longrightarrow> \<exists>n. at_cell H k (cell1 n)" and d: "distinct ks" "e \<noteq> q" "e \<notin> set ks" "q \<notin> set ks"
  shows "moz_Sequence_do_flatten H e (length ps) q = Inr (hput (hput H e (Some (seqc (ps @ ks @ rs)))) q None)"
proof -
  define G where "G j = recount 2 (set (take j ks)) (hput H e (Some (seqc (ps @ take j ks @ rs))))" for j
  note lt = at_less [OF e] at_less [OF q]
  have G: "at_cell (G j) e (seqc (ps @ take j ks @ rs))" "at_cell (G j) q (seqc ks)" for j
    using d lt q by (auto simp: G_def at_recount dest: in_set_takeD)
  have step: "flatten_elem e (length ps) q (G j) j = Inr (G (Suc j))" if j: "j < length ks" for j
  proof -
    let ?k = "ks ! j"
    obtain n where n: "at_cell H ?k (cell1 n)" using ks j by force
    have k: "?k \<noteq> e" "?k \<noteq> q" using d j nth_mem by metis+
    have new: "?k \<notin> set (take j ks)" using d(1) j by (simp add: in_set_conv_nth nth_eq_iff_index_eq)
    have take: "take (Suc j) ks = take j ks @ [?k]" using j by (simp add: take_Suc_conv_app_nth)
    define K where "K = hput H e (Some (seqc (ps @ take (Suc j) ks @ rs)))"
    have nK: "at_cell K ?k (cell1 n)" using n k by (simp add: K_def)
    have et: "e \<notin> set (take j ks)" using d(3) by (auto dest: in_set_takeD)
    have "recount 2 (set (take j ks)) K = hput (G j) e (Some (seqc (ps @ take (Suc j) ks @ rs)))"
      by (simp add: G_def K_def hput_recount et)
    moreover have "hput (recount 2 (set (take j ks)) K) ?k (Some (cell1 n\<lparr>erefc := 2\<rparr>)) = G (Suc j)"
      using recount_insert(1) [OF nK, of 2 "set (take j ks)"] by (simp add: take G_def K_def)
    moreover have "at_cell (recount 2 (set (take j ks)) K) ?k (cell1 n)"
      using nK new by (simp add: at_recount)
    moreover have "length ps + j = length (ps @ take j ks)" using j by simp
    ultimately show ?thesis
      using at_ops(6) [of "recount 2 (set (take j ks)) K" ?k "cell1 n"] j
      by (simp add: flatten_elem_def runs at_runs [OF G(1)] at_runs [OF G(2)] take numeral_2_eq_2)
  qed
  have "rfold (flatten_elem e (length ps) q) (G 0) [0..<j] = Inr (G j)" if "j \<le> length ks" for j
    using that by (induction j) (simp_all add: rfold_append step)
  then have loop: "rfold (flatten_elem e (length ps) q) (G 0) [0..<length ks] = Inr (G (length ks))" by simp
  have q2: "at_cell (G (length ks)) q (cell1 (N_Sequence ks))" using G(2) by (simp add: seqc_def)
  have "\<exists>x. at_cell (G (length ks)) k x \<and> erefc x = 2" if k: "k \<in> set ks" for k
  proof -
    obtain n where "at_cell H k (cell1 n)" using ks [OF k] by blast
    then have "at_cell (hput H e x) k (cell1 n)" for x using d(3) k by (metis at_hput(2))
    then show ?thesis using k by (simp add: G_def at_recount [of _ k "cell1 n"])
  qed
  then have "RELEASE_expr (G (length ks)) q = Inr (hput (recount (Suc 0) (set ks) (G (length ks))) q None)"
    by (intro release_shell [OF q2]) (simp_all add: d)
  moreover have "recount (Suc 0) (set ks) (G (length ks)) = hput H e (Some (seqc (ps @ ks @ rs)))"
    unfolding G_def using ks d(3) by (auto intro!: recount_back) (metis at_hput(2) cell1_sel(1) One_nat_def)
  moreover have "G 0 = hput H e (Some (seqc (ps @ rs)))" by (simp add: G_def)
  ultimately show ?thesis
    using loop d q lt
    by (simp add: moz_Sequence_do_flatten_def runs at_runs [OF e] at_runs [OF q])
qed

lemma trees_distinct: "exprs_at H qs es A \<Longrightarrow> distinct qs"
proof (induction qs arbitrary: es A)
  case (Cons q qs)
  then obtain e es' A1 B1 where "expr_at H q e A1" "exprs_at H qs es' B1" "A1 \<inter> B1 = {}"
    by (auto simp: exprs_at_simps(2))
  with Cons.IH tree_root trees_roots show ?case by fastforce
qed simp

lemma trees_cell:
  assumes "exprs_at H qs es A" "k \<in> set qs"
  shows "\<exists>n. at_cell H k (cell1 n)"
  using assms by (induction qs arbitrary: es A) (auto simp: exprs_at_simps(2) elim!: expr_atE)

lemma turn_flatten:
  assumes e: "at_cell H e (seqc (ps @ q # rs))" and q: "expr_at H q (E_Sequence xs) A" and rs: "exprs_at H rs es B"
    and z: "zeroed H" and d: "A \<inter> B = {}" "e \<notin> A \<union> B"
  obtains ks C H' where "turn (Suc f) e (length ps) q (m, H) = Inr (True, H')" "at_cell H' e (seqc (ps @ ks @ rs))"
    "exprs_at H' (ks @ rs) (xs @ es) C" "C \<subseteq> A \<union> B" "frame H (insert e (A \<union> B)) H'"
proof -
  from q obtain ks A1 where ks: "at_cell H q (seqc ks)" "exprs_at H ks xs A1" "q \<notin> A1" "A = insert q A1"
    by (auto elim!: expr_atE simp: seqc_def)
  define H' where "H' = hput (hput H e (Some (seqc (ps @ ks @ rs)))) q None"
  have ne: "e \<noteq> q" "e \<notin> set ks" "q \<notin> set ks" using d ks trees_roots [OF ks(2)] by auto
  note lt = at_less [OF e] at_less [OF ks(1)]
  have "moz_Sequence_do_flatten H e (length ps) q = Inr H'"
    unfolding H'_def using flatten_ok [OF e ks(1) trees_cell [OF ks(2)] trees_distinct [OF ks(2)] ne] by simp
  then have "seq_flatten e (length ps) q (m, H) = Inr (True, H')"
    by (simp add: seq_flatten_def at_etype [OF ks(1)])
  moreover have "etype H' q = Inr N_Empty" using z lt by (simp add: H'_def runs)
  ultimately have t: "turn (Suc f) e (length ps) q (m, H) = Inr (True, H')"
    by (simp add: turn_def quiet_steps quiet_def)
  have fr: "frame H {e, q} H'" unfolding H'_def by (intro frame_hput frame_refl) (auto simp: grown_def)
  have "exprs_at H' (ks @ rs) (xs @ es) (A1 \<union> B)"
    using ks d by (intro trees_appendI frame_tree(2) [OF fr]) (auto intro: rs)
  moreover have "at_cell H' e (seqc (ps @ ks @ rs))" using ne lt by (simp add: H'_def)
  moreover have "frame H (insert e (A \<union> B)) H'"
    using ks(4) by (intro frame_trans [OF frame_refl fr]) (auto simp: grown_def)
  ultimately show ?thesis using t ks(4) by (intro that [of H' ks "A1 \<union> B"]) auto
qed

lemma turned_trans:
  assumes "turned H1 e ps B1 H' f fs" "frame H A H1" "A \<subseteq> insert e B" "B1 \<subseteq> grown H B"
  shows "turned H e ps B H' f fs"
proof -
  have "frame H (insert e B) H1" using assms(3) by (intro frame_trans [OF frame_refl assms(2)]) (auto simp: grown_def)
  then have f: "frame H (insert e B) H'" if "frame H1 (insert e B1) H'"
    using assms(4) by (intro frame_trans [OF _ that]) (auto simp: grown_def)
  have "grown H1 B1 \<subseteq> grown H B" using grown_mono(2) [OF assms(2), of B1] assms(2,4) by (auto simp: grown_def frame_def)
  with assms(1) f show ?thesis unfolding turned_def by blast
qed

text \<open>A string takes what follows it; the element at its place is a string, and the cell that was read is no \<open>Not\<close>.\<close>

lemma take_text_other:
  "\<forall>b. e \<noteq> E_Byte b \<Longrightarrow> \<forall>u. e \<noteq> E_Str u \<Longrightarrow> take_text t (e # es) = (t, e # es)"
  by (cases e) simp_all

lemma strings_done:
  assumes "at_cell H e (seqc (ps @ q # rs))" "at_cell H q (cell1 (N_Str t))" "exprs_at H rs es B" "e \<noteq> q" "q \<notin> B" "e \<notin> B"
  shows "turned H e ps (insert q B) H (E_Str t) es"
proof -
  have "expr_at H q (E_Str t) {q}" using assms(2) by (intro plain_tree [of _ _ "N_Str t"]) (simp_all add: plain_def)
  with assms show ?thesis
    unfolding turned_def by (intro exI [of _ q] exI [of _ rs] exI [of _ "{q}"] exI [of _ B]) (auto simp: grown_def)
qed

lemma seq_strings_ok:
  assumes "weights es < f" "zeroed H" "at_cell H e (seqc (ps @ q # rs))" "at_cell H q (cell1 (N_Str t))" "exprs_at H rs es B"
    "e \<noteq> q" "q \<notin> B" "e \<notin> B"
  shows "\<exists>H' n. seq_strings f e (length ps) q (m, H) = Inr (m \<or> snd (take_text t es) \<noteq> es, H') \<and>
    turned H e ps (insert q B) H' (E_Str (fst (take_text t es))) (snd (take_text t es)) \<and>
    etype H' q = Inr n \<and> (\<forall>x. n \<noteq> N_Not x)"
  using assms
proof (induction es arbitrary: t f H rs B m)
  case Nil
  obtain g where f: "f = Suc g" using Nil(1) by (cases f) auto
  note c = Nil(3,4)
  have "seq_strings f e (length ps) q (m, H) = Inr (m, H)"
    using Nil(5) by (simp add: f seq_strings.simps(2) runs at_runs [OF c(1)] at_runs [OF c(2)])
  then show ?case using Nil(5) strings_done [OF Nil(3-8)] at_etype [OF c(2)] by auto
next
  case (Cons e1 es)
  have "1 \<le> weight e1" by (simp add: Suc_leI)
  then obtain g where f: "f = Suc g" "weights es < g" using Cons(2) by (cases f) auto
  from Cons(6) obtain q2 rs' A2 B2 where rs: "rs = q2 # rs'" "expr_at H q2 e1 A2" "exprs_at H rs' es B2" "A2 \<inter> B2 = {}" "B = A2 \<union> B2"
    by (auto simp: exprs_at_simps(4))
  then obtain ks where q2: "at_cell H q2 (cell1 (cell_of e1 ks))" by (auto elim: expr_atE)
  have ne: "q2 \<noteq> e" "q2 \<noteq> q" using Cons(8,9) rs tree_root by auto
  note c = Cons(4)[unfolded rs(1)] Cons(5) q2
  note lt = c [THEN at_less]
  note run = seq_strings.simps(2) runs at_runs [OF c(1)] at_runs [OF c(2)] at_runs [OF c(3)] plain1I [OF c(3)] plain1I [OF c(2)] plain_def
  consider b where "e1 = E_Byte b" | u where "e1 = E_Str u" | "\<forall>b. e1 \<noteq> E_Byte b" "\<forall>u. e1 \<noteq> E_Str u" by blast
  then show ?case
  proof cases
    case [simp]: (1 b)
    then have A2: "A2 = {q2}" using rs(2) by (auto elim: plain_exprE)
    define H1 where "H1 = hput (hput (hput H q (Some (cell1 (N_Str (t @ [b]))))) q2 None) e (Some (seqc (ps @ q # rs')))"
    have r: "seq_strings f e (length ps) q (m, H) = seq_strings g e (length ps) q (True, H1)"
      using ne Cons(7) lt by (simp add: f(1) run H1_def)
    have fr: "frame H {q, q2, e} H1" unfolding H1_def by (intro frame_hput frame_refl) (auto simp: grown_def)
    have "\<exists>H' n. seq_strings g e (length ps) q (True, H1) = Inr (True \<or> snd (take_text (t @ [b]) es) \<noteq> es, H') \<and>
      turned H1 e ps (insert q B2) H' (E_Str (fst (take_text (t @ [b]) es))) (snd (take_text (t @ [b]) es)) \<and>
      etype H' q = Inr n \<and> (\<forall>x. n \<noteq> N_Not x)"
    proof (rule Cons(1))
      show "exprs_at H1 rs' es B2" using rs A2 Cons(8,9) by (intro frame_tree(2) [OF fr rs(3)]) auto
      show "zeroed H1" using Cons(3) by (simp add: H1_def)
      show "at_cell H1 e (seqc (ps @ q # rs'))" "at_cell H1 q (cell1 (N_Str (t @ [b])))"
        using ne Cons(7) lt by (simp_all add: H1_def)
    qed (use f rs Cons(7-9) in auto)
    then obtain H' n where H': "seq_strings g e (length ps) q (True, H1) = Inr (True, H')"
      "turned H1 e ps (insert q B2) H' (E_Str (fst (take_text (t @ [b]) es))) (snd (take_text (t @ [b]) es))"
      "etype H' q = Inr n" "\<forall>x. n \<noteq> N_Not x" by auto
    have "weights (snd (take_text (t @ [b]) es)) \<noteq> weights (E_Byte b # es)"
      using take_text_weights [of "t @ [b]" es] by simp
    then have "snd (take_text (t @ [b]) es) \<noteq> E_Byte b # es" by metis
    moreover have "turned H e ps (insert q B) H' (E_Str (fst (take_text (t @ [b]) es))) (snd (take_text (t @ [b]) es))"
      using A2 rs by (intro turned_trans [OF H'(2) fr]) (auto simp: grown_def)
    ultimately show ?thesis using H' r by auto
  next
    case [simp]: (2 u)
    then have A2: "A2 = {q2}" using rs(2) by (auto elim: plain_exprE)
    let ?p = "length (exprs H)" and ?n = "N_Str (t @ u)"
    have np: "?p \<noteq> e" "?p \<noteq> q" "?p \<noteq> q2" using lt by auto
    define H1 where "H1 = hput (hput (hput (hput (hput (halloc H ?n) e (Some (seqc (ps @ ?p # q2 # rs')))) q (Some (cell1 (N_Str []))))
        q2 (Some (cell1 (N_Str [])))) e (Some (seqc (ps @ ?p # rs')))) ?p (Some (cell1 ?n))"
    define H2 where "H2 = hput (hput H1 q None) q2 None"
    have "plain1 H1 q" "plain1 (hput H1 q None) q2"
      using ne np Cons(7) lt by (auto simp: H1_def intro!: plain1I simp: plain_def)
    then have "seq_strings f e (length ps) q (m, H) = seq_strings g e (length ps) q (True, H2)"
      using ne Cons(7)
      by (simp add: f(1) run moz_Sequence_concatString_def np np [symmetric] lt lt [THEN less_SucI] H1_def H2_def)
    moreover have et: "etype H2 q = Inr N_Empty"
      using ne Cons(3,7) np lt by (simp add: H2_def H1_def runs)
    moreover obtain g' where "g = Suc g'" using f by (cases g) auto
    ultimately have r: "seq_strings f e (length ps) q (m, H) = Inr (True, H2)"
      by (simp add: quiet_steps quiet_def)
    have fr: "frame H {e, q, q2} H2" unfolding H1_def H2_def by (intro frame_hput frame_halloc frame_refl) (auto simp: grown_def)
    have "exprs_at H2 rs' es B2" using rs A2 Cons(8,9) by (intro frame_tree(2) [OF fr rs(3)]) auto
    moreover have "at_cell H2 e (seqc (ps @ ?p # rs'))" "at_cell H2 ?p (cell1 ?n)"
      using ne Cons(7) np lt by (simp_all add: H2_def H1_def)
    moreover have "?p \<notin> B2" "e \<notin> B2" using trees_less(2) [OF rs(3)] Cons(9) rs by auto
    ultimately have "turned H2 e ps (insert ?p B2) H2 (E_Str (t @ u)) es"
      using np by (intro strings_done) auto
    then have "turned H e ps (insert q B) H2 (E_Str (t @ u)) es"
      using A2 rs(5) by (elim turned_trans [OF _ fr]) (auto simp: grown_def)
    moreover have "es \<noteq> E_Str u # es" by simp
    ultimately show ?thesis using r et by (intro exI [of _ H2] exI [of _ N_Empty]) simp
  next
    case 3
    then have "\<forall>c. cell_of e1 ks \<noteq> N_Byte c" "\<forall>c. cell_of e1 ks \<noteq> N_Str c" by simp_all
    then have "seq_strings f e (length ps) q (m, H) = Inr (m, H)"
      by (simp add: f(1) run rs(1) case_other)
    then show ?thesis using 3 strings_done [OF Cons(4-9)] at_etype [OF c(2)] by (auto simp: take_text_other)
  qed
qed

text \<open>The result of the loop from an index on.\<close>

definition looped :: "ast_heap \<Rightarrow> eptr \<Rightarrow> eptr list \<Rightarrow> eptr set \<Rightarrow> ast_heap \<Rightarrow> expr list \<Rightarrow> bool" where
  "looped H e ps B H' fs \<longleftrightarrow> (\<exists>qs B'. at_cell H' e (seqc (ps @ qs)) \<and> exprs_at H' qs fs B' \<and> e \<notin> B' \<and> B' \<subseteq> grown H B \<and>
     frame H (insert e B) H')"

lemma loop_step:
  assumes t: "turned H e ps B H1 g gs" and z: "zeroed H" and e: "e < length (exprs H)"
    and run: "\<And>q qs B1. at_cell H1 e (seqc ((ps @ [q]) @ qs)) \<Longrightarrow> exprs_at H1 qs gs B1 \<Longrightarrow> e \<notin> B1 \<Longrightarrow> zeroed H1 \<Longrightarrow>
      \<exists>H'. seq_loop f e (length (ps @ [q])) (m, H1) = Inr (m', H') \<and> looped H1 e (ps @ [q]) B1 H' hs"
  shows "\<exists>H'. seq_loop f e (Suc (length ps)) (m, H1) = Inr (m', H') \<and> looped H e ps B H' (g # hs)"
proof -
  from t obtain q qs A1 B1 where q: "at_cell H1 e (seqc (ps @ q # qs))" "expr_at H1 q g A1" "exprs_at H1 qs gs B1" "A1 \<inter> B1 = {}"
      "e \<notin> A1 \<union> B1" "A1 \<union> B1 \<subseteq> grown H B" "frame H (insert e B) H1"
    unfolding turned_def by blast
  from run [of q qs B1] q z obtain H' qs' B' where H': "seq_loop f e (Suc (length ps)) (m, H1) = Inr (m', H')"
      "at_cell H' e (seqc (ps @ q # qs'))" "exprs_at H' qs' hs B'" "e \<notin> B'" "B' \<subseteq> grown H1 B1" "frame H1 (insert e B1) H'"
    by (auto simp: looped_def frame_zeroed)
  have A1: "expr_at H' q g A1" using q by (intro frame_tree(1) [OF H'(6)]) auto
  have "A1 \<inter> B' = {}" using trees_less(1) [OF q(2)] q(4) H'(5) by (auto simp: grown_def disjoint_iff subset_iff) (metis leD)
  then have "exprs_at H' (q # qs') (g # hs) (A1 \<union> B')" using A1 H'(3) by (intro expr_at_exprs_at.Cons) auto
  moreover have "frame H (insert e B) H'"
    using q(6) by (intro frame_trans [OF q(7) H'(6)]) (auto simp: grown_def)
  moreover have "A1 \<union> B' \<subseteq> grown H B"
    using q(6,7) H'(5) by (auto simp: grown_def frame_def) 
  ultimately show ?thesis using H' q(5) unfolding looped_def by blast
qed

lemma trees_ConsE:
  assumes "exprs_at H qs (e # es) B"
  obtains q rs A1 B1 where "qs = q # rs" "expr_at H q e A1" "exprs_at H rs es B1" "A1 \<inter> B1 = {}" "B = A1 \<union> B1"
  using assms by (auto simp: exprs_at_simps(4))

lemma plain_ConsE:
  assumes "exprs_at H qs (e # es) B" "parts e = []"
  obtains q rs B1 ks where "qs = q # rs" "at_cell H q (cell1 (cell_of e ks))" "exprs_at H rs es B1" "q \<notin> B1" "B = insert q B1"
proof -
  from assms(1) obtain q rs A1 B1 where q: "qs = q # rs" "expr_at H q e A1" "exprs_at H rs es B1" "A1 \<inter> B1 = {}" "B = A1 \<union> B1"
    by (rule trees_ConsE)
  from plain_exprE [OF q(2) assms(2)] q that show ?thesis by (metis Int_insert_left_if1 insert_is_Un insert_not_empty)
qed

lemma seq_loop_ok:
  assumes "weights fs < f" "zeroed H" "at_cell H e (seqc (ps @ qs))" "exprs_at H qs fs B" "e \<notin> B"
  shows "\<exists>H'. seq_loop f e (length ps) (m, H) = Inr (m \<or> seq_rewrite fs \<noteq> fs, H') \<and> looped H e ps B H' (seq_rewrite fs)"
  using assms
proof (induction fs arbitrary: f H ps qs B m rule: seq_rewrite_induct)
  case Nil
  obtain g where "f = Suc g" using Nil(1) by (cases f) auto
  then show ?case using Nil seq_loop_end [OF Nil(3), of "length ps"] by (auto simp: looped_def)
next
  case Flat0
  from Flat0(4) obtain q where q: "qs = [q]" "expr_at H q (E_Sequence []) B" by (auto simp: exprs_at_simps(4))
  obtain g where f: "f = Suc (Suc g)" using Flat0(1) by (metis weights.simps(1,2) weight.simps(8) add_0_right less_imp_Suc_add plus_1_eq_Suc add_Suc_shift not_less_zero less_nat_zero_code)
  have e: "at_cell H e (seqc (ps @ q # []))" using Flat0(3) q by simp
  from turn_flatten [OF e q(2) expr_at_exprs_at.Nil Flat0(2), of g m] Flat0(5) obtain ks C H' where
    H': "turn (Suc g) e (length ps) q (m, H) = Inr (True, H')" "at_cell H' e (seqc (ps @ ks @ []))"
      "exprs_at H' (ks @ []) ([] @ []) C" "C \<subseteq> B \<union> {}" "frame H (insert e (B \<union> {})) H'" by (metis Int_empty_right Un_empty_right)
  then have "seq_loop f e (length ps) (m, H) = Inr (True, H')"
    using seq_loop_turn [OF e, of "Suc g" m] seq_loop_end [of H' e ps "Suc (length ps)" g True] f by simp
  then show ?case using H' by (intro exI [of _ H']) (auto simp: looped_def grown_def)
next
  case (Flat xs es y ys)
  from Flat(6) obtain q rs A1 B1 where q: "qs = q # rs" "expr_at H q (E_Sequence xs) A1" "exprs_at H rs es B1" "A1 \<inter> B1 = {}" "B = A1 \<union> B1"
    by (rule trees_ConsE)
  have w: "weights ys < weights xs + weights es" by (rule weights_flat [OF Flat(1)])
  then obtain g where f: "f = Suc (Suc g)" "weights ys < Suc g" using Flat(3)
    by (cases f; cases "f - 1") auto
  have e: "at_cell H e (seqc (ps @ q # rs))" using Flat(5) q by simp
  from turn_flatten [OF e q(2,3) Flat(4) q(4), of g m] Flat(7) q(5) obtain ks C H1 where
    H1: "turn (Suc g) e (length ps) q (m, H) = Inr (True, H1)" "at_cell H1 e (seqc (ps @ ks @ rs))"
      "exprs_at H1 (ks @ rs) (y # ys) C" "C \<subseteq> B" "frame H (insert e B) H1" using Flat(1) by metis
  have "turned H e ps B H1 y ys"
    using H1 Flat(7) by (cases "ks @ rs") (auto simp: turned_def exprs_at_simps(2) grown_def, blast)
  then have "\<exists>H'. seq_loop (Suc g) e (Suc (length ps)) (True, H1) = Inr (True \<or> seq_rewrite ys \<noteq> ys, H') \<and>
      looped H e ps B H' (y # seq_rewrite ys)"
    using Flat(4) at_less [OF e] by (rule loop_step) (intro Flat(2) f(2))
  moreover have "weights (y # seq_rewrite ys) < weights (E_Sequence xs # es)"
    using seq_rewrite_lighter [of ys] arg_cong [OF Flat(1), of weights] by simp
  then have "y # seq_rewrite ys \<noteq> E_Sequence xs # es" by (metis less_irrefl)
  ultimately show ?case using seq_loop_turn [OF e, of "Suc g" m] H1(1) f Flat(1) q(1) by auto
next
  case (Text t es)
  from plain_ConsE [OF Text(5)] obtain q rs B1 where
    q: "qs = q # rs" "at_cell H q (cell1 (N_Str t))" "exprs_at H rs es B1" "q \<notin> B1" "B = insert q B1"
    by (metis cell_of.simps(5) parts.simps(14))
  obtain g where f: "f = Suc g" "weights es < g" using Text(2) by (cases f) auto
  then obtain g' where g: "g = Suc g'" by (cases g) auto
  have e: "at_cell H e (seqc (ps @ q # rs))" using Text(4) q by simp
  from seq_strings_ok [OF f(2) Text(3) e q(2,3)] q Text(6) obtain H1 n where
    H1: "seq_strings g e (length ps) q (m, H) = Inr (m \<or> snd (take_text t es) \<noteq> es, H1)"
      "turned H e ps B H1 (E_Str (fst (take_text t es))) (snd (take_text t es))" "etype H1 q = Inr n" "\<forall>x. n \<noteq> N_Not x"
    by (metis insertCI)
  have turn: "turn g e (length ps) q (m, H) = Inr (m \<or> snd (take_text t es) \<noteq> es, H1)"
    using H1 at_etype [OF q(2)] by (simp add: turn_def other_steps)
  have w: "weights (snd (take_text t es)) < g" using f(2) take_text_weights [of t es] by simp
  have "\<exists>H'. seq_loop g e (Suc (length ps)) (m \<or> snd (take_text t es) \<noteq> es, H1) =
      Inr ((m \<or> snd (take_text t es) \<noteq> es) \<or> seq_rewrite (snd (take_text t es)) \<noteq> snd (take_text t es), H') \<and>
      looped H e ps B H' (E_Str (fst (take_text t es)) # seq_rewrite (snd (take_text t es)))"
    using H1(2) Text(3) at_less [OF e] by (rule loop_step) (intro Text(1) w)
  moreover have "seq_rewrite (E_Str t # es) \<noteq> E_Str t # es \<longleftrightarrow>
      snd (take_text t es) \<noteq> es \<or> seq_rewrite (snd (take_text t es)) \<noteq> snd (take_text t es)"
  proof (cases "snd (take_text t es) = es")
    case True
    then have "fst (take_text t es) = t" using take_text_lighter [of t es] by auto
    with True show ?thesis by simp
  next
    case False
    then have "weights (seq_rewrite (snd (take_text t es))) < weights es"
      using take_text_lighter [of t es] seq_rewrite_lighter [of "snd (take_text t es)"] by auto
    with False show ?thesis by auto
  qed
  ultimately show ?case using seq_loop_turn [OF e, of g m] turn f(1) q(1) by auto
next
  case (Bytes a b es)
  from plain_ConsE [OF Bytes(5)] obtain q rs0 B0 where
    q0: "qs = q # rs0" "at_cell H q (cell1 (N_Byte a))" "exprs_at H rs0 (E_Byte b # es) B0" "q \<notin> B0" "B = insert q B0"
    by (metis cell_of.simps(4) parts.simps(13))
  from plain_ConsE [OF q0(3)] obtain q2 rs B1 where
    "rs0 = q2 # rs" "at_cell H q2 (cell1 (N_Byte b))" "exprs_at H rs es B1" "q2 \<notin> B1" "B0 = insert q2 B1"
    by (metis cell_of.simps(4) parts.simps(13))
  with q0 have q: "qs = q # q2 # rs" "at_cell H q (cell1 (N_Byte a))" "at_cell H q2 (cell1 (N_Byte b))"
      "exprs_at H rs es B1" "q \<noteq> q2" "q \<notin> B1" "q2 \<notin> B1" "B = insert q (insert q2 B1)" by auto
  obtain g where f: "f = Suc (Suc g)" "weights es < Suc g" using Bytes(2) by (cases f; cases "f - 1") auto
  have e: "at_cell H e (seqc (ps @ q # q2 # rs))" using Bytes(4) q by simp
  from turn_bytes [OF e q(2,3,4) Bytes(3), of g m] q Bytes(6) obtain H1 where
    H1: "turn (Suc g) e (length ps) q (m, H) = Inr (True, H1)" "turned H e ps B H1 (E_Str [a, b]) es" by auto
  have "\<exists>H'. seq_loop (Suc g) e (Suc (length ps)) (True, H1) = Inr (True \<or> seq_rewrite es \<noteq> es, H') \<and>
      looped H e ps B H' (E_Str [a, b] # seq_rewrite es)"
    using H1(2) Bytes(3) at_less [OF e] by (rule loop_step) (intro Bytes(1) f(2))
  then show ?case using seq_loop_turn [OF e, of "Suc g" m] H1(1) f q(1) by auto
next
  case (NotAny b es)
  from NotAny(5) obtain q rs0 A1 B0 where
    q0: "qs = q # rs0" "expr_at H q (E_Not (E_Byte b)) A1" "exprs_at H rs0 (E_Any # es) B0" "A1 \<inter> B0 = {}" "B = A1 \<union> B0"
    by (rule trees_ConsE)
  from plain_ConsE [OF q0(3)] obtain q2 rs B1 where
    "rs0 = q2 # rs" "at_cell H q2 (cell1 N_Any)" "exprs_at H rs es B1" "q2 \<notin> B1" "B0 = insert q2 B1"
    by (metis cell_of.simps(3) parts.simps(12))
  with q0 have q: "qs = q # q2 # rs" "expr_at H q (E_Not (E_Byte b)) A1" "at_cell H q2 (cell1 N_Any)"
      "exprs_at H rs es B1" "q2 \<notin> B1" "A1 \<inter> insert q2 B1 = {}" "B = A1 \<union> insert q2 B1" by auto
  from unary_atE [OF q(2)] obtain x Ax where
    x0: "at_cell H q (cell1 (N_Not x))" "expr_at H x (E_Byte b) Ax" "q \<notin> Ax" "A1 = insert q Ax"
    by (metis cell_of.simps(10) nth_Cons_0 parts.simps(2))
  from plain_exprE [OF x0(2)] x0 have x: "at_cell H q (cell1 (N_Not x))" "at_cell H x (cell1 (N_Byte b))" "x \<noteq> q" "A1 = {q, x}"
    by (metis cell_of.simps(4) parts.simps(13), metis cell_of.simps(4) parts.simps(13), metis insertI1 parts.simps(13), metis parts.simps(13))
  obtain g where f: "f = Suc (Suc g)" "weights es < Suc g" using NotAny(2) by (cases f; cases "f - 1") auto
  have e: "at_cell H e (seqc (ps @ q # q2 # rs))" using NotAny(4) q by simp
  have B: "{q, x, q2} \<union> B1 = B" using q x by auto
  from turn_not_any [OF e x(1,2) q(3,4) NotAny(3), of g m] q x NotAny(6) B obtain H1 where
    H1: "turn (Suc g) e (length ps) q (m, H) = Inr (True, H1)" "turned H e ps B H1 (E_Set (other_bytes b)) es" by auto
  have "\<exists>H'. seq_loop (Suc g) e (Suc (length ps)) (True, H1) = Inr (True \<or> seq_rewrite es \<noteq> es, H') \<and>
      looped H e ps B H' (E_Set (other_bytes b) # seq_rewrite es)"
    using H1(2) NotAny(3) at_less [OF e] by (rule loop_step) (intro NotAny(1) f(2))
  then show ?case using seq_loop_turn [OF e, of "Suc g" m] H1(1) f q(1) by auto
next
  case (Keep e1 es)
  from Keep(6) obtain q rs A1 B1 where q: "qs = q # rs" "expr_at H q e1 A1" "exprs_at H rs es B1" "A1 \<inter> B1 = {}" "B = A1 \<union> B1"
    by (rule trees_ConsE)
  have "1 \<le> weight e1" by (simp add: Suc_leI)
  with Keep(3) obtain g where f: "f = Suc (Suc g)" "weights es < Suc g" by (cases f; cases "f - 1") auto
  have e: "at_cell H e (seqc (ps @ q # rs))" using Keep(5) q by simp
  have turn: "turn (Suc g) e (length ps) q (m, H) = Inr (m, H)" by (rule turn_keep [OF Keep(1) q(2,3) e])
  have "turned H e ps B H e1 es" using e q Keep(7) unfolding turned_def by (auto simp: grown_def)
  then have "\<exists>H'. seq_loop (Suc g) e (Suc (length ps)) (m, H) = Inr (m \<or> seq_rewrite es \<noteq> es, H') \<and>
      looped H e ps B H' (e1 # seq_rewrite es)"
    using Keep(4) at_less [OF e] by (rule loop_step) (intro Keep(2) f(2))
  then show ?case using seq_loop_turn [OF e, of "Suc g" m] turn f q(1) by (auto simp: seq_rewrite_kept [OF Keep(1)])
qed

lemma filter_changed: "filter P xs \<noteq> xs \<longleftrightarrow> (\<exists>x \<in> set xs. \<not> P x)"
  by (auto simp: filter_id_conv)

lemma remove_empty_ok:
  assumes "at_cell H e (seqc (as @ bs))" "exprs_at H as es A" "e \<notin> A"
  shows "\<exists>H' as' A'. rfold (remove_empty e) (m, H) (rev [0..<length as]) = Inr (m \<or> filter (\<lambda>e. e \<noteq> E_Empty) es \<noteq> es, H') \<and>
    at_cell H' e (seqc (as' @ bs)) \<and> exprs_at H' as' (filter (\<lambda>e. e \<noteq> E_Empty) es) A' \<and> A' \<subseteq> A \<and> frame H (insert e A) H'"
  using assms
proof (induction as arbitrary: H bs es A m rule: rev_induct)
  case (snoc a as)
  from trees_appendE [OF snoc(3)] obtain es0 x A0 A1 where
    x: "es = es0 @ [x]" "exprs_at H as es0 A0" "expr_at H a x A1" "A0 \<inter> A1 = {}" "A = A0 \<union> A1"
    by (metis exprs_at_simps(2) trees_Nil(1) sup_bot_right)
  then obtain ks where a: "at_cell H a (cell1 (cell_of x ks))" by (auto elim: expr_atE)
  have e: "at_cell H e (seqc (as @ a # bs))" using snoc(2) by simp
  note run = remove_empty_def runs at_runs [OF e] at_runs [OF a]
  show ?case
  proof (cases "x = E_Empty")
    case True
    then have A1: "A1 = {a}" using x(3) by (auto elim: plain_exprE)
    define H1 where "H1 = hput (hput H e (Some (seqc (as @ bs)))) a None"
    have ne: "a \<noteq> e" using snoc(4) x A1 by auto
    have "take (length as) (as @ a # bs) @ drop (Suc (length as)) (as @ a # bs) = as @ bs" by simp
    then have "remove_empty e (m, H) (length as) = Inr (True, H1)"
      using True plain1I [OF a] ne by (simp add: run plain_def H1_def)
    moreover have fr: "frame H {e, a} H1" unfolding H1_def by (intro frame_hput frame_refl) (auto simp: grown_def)
    have "at_cell H1 e (seqc (as @ bs))" using ne at_less [OF e] by (simp add: H1_def)
    moreover have "exprs_at H1 as es0 A0" using x A1 snoc(4) by (intro frame_tree(2) [OF fr x(2)]) auto
    ultimately obtain H' as' A' where H': "rfold (remove_empty e) (m, H) (rev [0..<length (as @ [a])]) = Inr (True, H')"
        "at_cell H' e (seqc (as' @ bs))" "exprs_at H' as' (filter (\<lambda>e. e \<noteq> E_Empty) es0) A'" "A' \<subseteq> A0" "frame H1 (insert e A0) H'"
      using snoc(1) [of H1 bs es0 A0 True] x snoc(4) by auto
    have "frame H (insert e A) H'"
      using x A1 by (intro frame_trans [OF frame_trans [OF frame_refl fr] H'(5)]) (auto simp: grown_def)
    moreover have "filter (\<lambda>e. e \<noteq> E_Empty) es \<noteq> es" using True x(1) unfolding filter_changed by auto
    ultimately show ?thesis using H' x True by (intro exI [of _ H'] exI [of _ as'] exI [of _ A']) (simp_all add: le_supI1)
  next
    case False
    then have "remove_empty e (m, H) (length as) = Inr (m, H)"
      by (cases "cell_of x ks") (simp_all add: run)
    with snoc(1) [OF e x(2), of m] x snoc(4) obtain H' as' A' where
      H': "rfold (remove_empty e) (m, H) (rev [0..<length (as @ [a])]) = Inr (m \<or> filter (\<lambda>e. e \<noteq> E_Empty) es0 \<noteq> es0, H')"
        "at_cell H' e (seqc (as' @ a # bs))" "exprs_at H' as' (filter (\<lambda>e. e \<noteq> E_Empty) es0) A'" "A' \<subseteq> A0" "frame H (insert e A0) H'"
      by auto
    have "expr_at H' a x A1" using x snoc(4) by (intro frame_tree(1) [OF H'(5) x(3)]) auto
    then have "exprs_at H' [a] [x] A1" using expr_at_exprs_at.Cons [OF _ expr_at_exprs_at.Nil, of H' a x A1] by simp
    moreover have "A' \<inter> A1 = {}" using x(4) H'(4) by blast
    ultimately have "exprs_at H' (as' @ [a]) (filter (\<lambda>e. e \<noteq> E_Empty) es) (A' \<union> A1)"
      using False x(1) trees_appendI [OF H'(3)] by simp
    moreover have "frame H (insert e A) H'"
      using x by (intro frame_trans [OF frame_refl H'(5)]) (auto simp: grown_def)
    ultimately show ?thesis using H' x False
      by (intro exI [of _ H'] exI [of _ "as' @ [a]"] exI [of _ "A' \<union> A1"]) auto
  qed
qed auto

section \<open>Locations\<close>

definition loc_put :: "ast_heap \<Rightarrow> loc \<Rightarrow> eptr \<Rightarrow> ast_heap" where
  "loc_put H l x = (case l of
       LBody d \<Rightarrow> H\<lparr>pdecls := (pdecls H)[d := map_option (\<lambda>c. c\<lparr>pbody := Some x\<rparr>) (pdecls H ! d)]\<rparr>
     | LUnary q \<Rightarrow> hput H q (map_option (\<lambda>c. c\<lparr>enode := set_node_child (enode c) x\<rparr>) (exprs H ! q))
     | LElem q i \<Rightarrow> hput H q (map_option (\<lambda>c. c\<lparr>enode := set_node_list (enode c) ((the (list_node (enode c)))[i := x])\<rparr>) (exprs H ! q)))"

text \<open>The location holds \<open>p\<close> and lies outside the tree.\<close>

definition at_loc :: "ast_heap \<Rightarrow> loc \<Rightarrow> eptr \<Rightarrow> eptr set \<Rightarrow> bool" where
  "at_loc H l p A \<longleftrightarrow> (case l of
       LBody d \<Rightarrow> (\<exists>c. d < length (pdecls H) \<and> pdecls H ! d = Some c \<and> pbody c = Some p)
     | LUnary q \<Rightarrow> (\<exists>c. at_cell H q c \<and> node_child (enode c) = Inr p \<and> q \<notin> A)
     | LElem q i \<Rightarrow> (\<exists>c es. at_cell H q c \<and> list_node (enode c) = Some es \<and> i < length es \<and> es ! i = p \<and> q \<notin> A))"

lemma set_node_same:
  "node_child n = Inr x \<Longrightarrow> set_node_child n x = n"
  "list_node n = Some es \<Longrightarrow> set_node_list n es = n"
  by (cases n; simp)+

lemma list_node_Inr: "list_node n = Some es \<Longrightarrow> node_list n = Inr es"
  by (cases n) simp_all

lemma loc_read_ok: "at_loc H l p A \<Longrightarrow> loc_read H l = Inr p"
  by (cases l) (auto simp: at_loc_def loc_read_def dread_def get_list_def list_node_Inr at_ops)

lemma loc_write_ok: "at_loc H l p A \<Longrightarrow> loc_write H l x = Inr (loc_put H l x)"
  by (cases l) (auto simp: at_loc_def loc_write_def loc_put_def dread_def dwrite_def get_list_def put_list_def list_node_Inr
      at_ops at_cell_def)

lemma self_update:
  "i < length xs \<Longrightarrow> xs ! i = v \<Longrightarrow> xs[i := v] = xs" "pbody c = Some x \<Longrightarrow> c\<lparr>pbody := Some x\<rparr> = c" for c :: pdecl
  by auto

lemma loc_put_same: "at_loc H l p A \<Longrightarrow> loc_put H l p = H"
  by (cases l) (auto simp: at_loc_def loc_put_def set_node_same at_cell_def hput_def self_update)

lemma at_loc_frame: "at_loc H l p A \<Longrightarrow> frame H A H' \<Longrightarrow> at_loc H' l p A"
  by (cases l) (auto simp: at_loc_def dest: frame_at, auto simp: frame_def)

text \<open>What is done inside the tree does not matter to the location.\<close>

lemma frame_loc_put: "at_loc H l p A \<Longrightarrow> frame H A H' \<Longrightarrow> frame (loc_put H l x) A (loc_put H' l x)"
  by (cases l) (auto simp: at_loc_def frame_def loc_put_def hput_def nth_list_update at_cell_def)

lemma loc_put_tree:
  assumes "at_loc H l p A" "frame H A H'" "B \<subseteq> grown H A" "expr_at H' q e B"
  shows "expr_at (loc_put H' l x) q e B"
proof (cases l)
  case (LUnary r)
  then have "r \<notin> B" using assms(1,3) by (fastforce simp: at_loc_def grown_def dest: at_less)
  moreover obtain y where y: "loc_put H' l x = hput H' r y" using LUnary by (simp add: loc_put_def)
  ultimately show ?thesis unfolding y by (intro tree_frame(1) [OF assms(4)]) (metis at_hput(2))
next
  case (LElem r i)
  then have "r \<notin> B" using assms(1,3) by (fastforce simp: at_loc_def grown_def dest: at_less)
  moreover obtain y where y: "loc_put H' l x = hput H' r y" using LElem by (simp add: loc_put_def)
  ultimately show ?thesis unfolding y by (intro tree_frame(1) [OF assms(4)]) (metis at_hput(2))
next
  case (LBody d)
  then show ?thesis by (intro tree_frame(1) [OF assms(4)]) (auto simp: loc_put_def at_cell_def)
qed

end
