(* ===== verification/Expr_Optimized.thy ===== *)
theory Expr_Optimized
  imports Expr_Tree
begin

text \<open>
  The optimiser on a heap of trees: what \<open>moz_expr_optimize\<close> leaves at a location is the tree that
  \<open>reduce\<close> computes, with the same meaning, and nothing outside the tree changes.
\<close>

section \<open>Replacing an expression at its location\<close>

lemma reduce_keeps:
  "reduce e = Some (e', m) \<Longrightarrow> sets_wf e \<Longrightarrow> sets_wf e' \<and> (m \<longrightarrow> weight e' < weight e) \<and> (\<not> m \<longrightarrow> e' = e)"
  "reduces es = Some (es', m) \<Longrightarrow> list_all sets_wf es \<Longrightarrow>
     list_all sets_wf es' \<and> (m \<longrightarrow> weights es' < weights es) \<and> (\<not> m \<longrightarrow> es' = es)"
  using reduce_ok [where D = "\<lambda>_. None" and I = "\<lparr>leaf = \<lambda>_ _ _. None, scope_in = \<lambda>_ _ s :: unit. s, scope_out = \<lambda>_ _ _. None\<rparr>"]
  by blast+

definition optimized :: "ast_heap \<Rightarrow> loc \<Rightarrow> eptr set \<Rightarrow> ast_heap \<Rightarrow> expr \<Rightarrow> bool" where
  "optimized H ref A H' e \<longleftrightarrow> (\<exists>p A'. expr_at H' p e A' \<and> A' \<subseteq> grown H A \<and> frame (loc_put H ref p) A H')"

lemma at_loc_grown:
  assumes "at_loc H l p A" "at_loc H' l p A" "C \<subseteq> grown H A"
  shows "at_loc H' l p C"
proof -
  have out: "q \<notin> C" if "q < length (exprs H)" "q \<notin> A" for q using that assms(3) by (auto simp: grown_def)
  show ?thesis
  proof (cases l)
    case (LUnary q)
    with assms(1) have "q < length (exprs H)" "q \<notin> A" by (auto simp: at_loc_def dest: at_less)
    with out LUnary assms(2) show ?thesis by (simp add: at_loc_def)
  next
    case (LElem q i)
    with assms(1) have "q < length (exprs H)" "q \<notin> A" by (auto simp: at_loc_def dest: at_less)
    with out LElem assms(2) show ?thesis by (simp add: at_loc_def)
  next
    case (LBody d)
    with assms(2) show ?thesis by (simp add: at_loc_def)
  qed
qed

lemma optimized_put:
  assumes "at_loc H ref p A" "frame H A G" "expr_at G q e B" "B \<subseteq> grown H A"
  shows "optimized H ref A (loc_put G ref q) e"
  unfolding optimized_def using loc_put_tree [OF assms(1,2,4,3)] frame_loc_put [OF assms(1,2)] assms(4) by blast

lemma optimized_same:
  assumes "at_loc H ref p A" "frame H A G" "expr_at G p e B" "B \<subseteq> grown H A"
  shows "optimized H ref A G e"
  using optimized_put [OF assms] loc_put_same [OF at_loc_frame [OF assms(1,2)]] by simp

lemma assign_ok:
  assumes ref: "at_loc H ref v A" and x: "at_cell H x c" "x \<in> A"
    and rel: "RELEASE_expr (hput H x (Some (c\<lparr>erefc := erefc c + 1\<rparr>))) v = Inr G" and fr: "frame H A G"
  shows "RC_ASSIGN H ref x = Inr (loc_put G ref x)"
proof -
  have "frame H A (hput H x (Some (c\<lparr>erefc := erefc c + 1\<rparr>)))"
    using x(2) by (intro frame_hput frame_refl) (auto simp: grown_def)
  then have "loc_read (hput H x (Some (c\<lparr>erefc := erefc c + 1\<rparr>))) ref = Inr v"
    by (rule loc_read_ok [OF at_loc_frame [OF ref]])
  then show ?thesis
    using rel loc_write_ok [OF at_loc_frame [OF ref fr], of x] by (simp add: RC_ASSIGN_def at_ops(6) [OF x(1)])
qed

lemma loc_put_gone:
  assumes "at_loc H ref v A" "p \<in> A" "frame H A G" "p < length (exprs G)" "exprs G ! p = None" "zeroed G"
  shows "dispose_list (loc_put G ref x) p = Inr (loc_put G ref x)"
proof -
  have "exprs (loc_put G ref x) ! p = None \<and> length (exprs (loc_put G ref x)) = length (exprs G) \<and> zeroed (loc_put G ref x)"
    using at_loc_frame [OF assms(1,3)] assms(2-6) by (cases ref) (auto simp: loc_put_def at_loc_def nth_hput)
  then have "etype (loc_put G ref x) p = Inr N_Empty" using assms(4) by (simp add: etype_def eread_def)
  then show ?thesis by (simp add: dispose_list_def)
qed

text \<open>A choice or a sequence of one expression is replaced by it.\<close>

lemma single_ok:
  assumes ref: "at_loc H ref p (insert p B)" and p: "at_cell H p (cell1 n)" "list_node n = Some [q]" "p \<notin> B"
    and q: "expr_at H q e B" and z: "zeroed H"
  shows "\<exists>H'. RC_ASSIGN H ref q = Inr H' \<and> dispose_list H' p = Inr H' \<and> H' = loc_put (hput H p None) ref q \<and>
    frame H (insert p B) (hput H p None) \<and> expr_at (hput H p None) q e B"
proof -
  let ?G = "hput H p None"
  from q obtain ks where c: "at_cell H q (cell1 (cell_of e ks))" by (auto elim: expr_atE)
  let ?c2 = "cell1 (cell_of e ks)\<lparr>erefc := Suc (Suc 0)\<rparr>"
  have ne: "q \<noteq> p" using tree_root [OF q] p(3) by auto
  have fr: "frame H (insert p B) ?G" by (intro frame_hput frame_refl) (simp add: grown_def)
  have p2: "at_cell (hput H q (Some ?c2)) p (cell1 n)" using p(1) ne by simp
  have "RELEASE_expr (hput H q (Some ?c2)) p = Inr (hput (recount (Suc 0) {q} (hput H q (Some ?c2))) p None)"
    using release_shell [OF p2, of "[q]"] p ne at_less [OF c] by simp
  moreover have "recount (Suc 0) {q} (hput H q (Some ?c2)) = H"
    using at_less [OF c] c by (intro heap_eqI) (auto simp: nth_recount nth_hput at_cell_def cell1_def)
  ultimately have rel: "RELEASE_expr (hput H q (Some (cell1 (cell_of e ks)\<lparr>erefc := erefc (cell1 (cell_of e ks)) + 1\<rparr>))) p = Inr ?G"
    by simp
  have "RC_ASSIGN H ref q = Inr (loc_put ?G ref q)"
    using tree_root [OF q] by (intro assign_ok [OF ref c _ rel fr]) simp
  moreover have "dispose_list (loc_put ?G ref q) p = Inr (loc_put ?G ref q)"
    using at_less [OF p(1)] z by (intro loc_put_gone [OF ref _ fr]) (simp_all add: nth_hput)
  moreover have "expr_at ?G q e B"
    using p(3) by (intro frame_tree(1) [OF _ q, of "{p}"] frame_hput frame_refl) (auto simp: grown_def)
  ultimately show ?thesis using fr by blast
qed

section \<open>Lists\<close>

text \<open>What the induction gives for an expression.\<close>

definition opt_ok :: "nat \<Rightarrow> expr \<Rightarrow> bool" where
  "opt_ok f e \<longleftrightarrow> (\<forall>H ref p A e' m. reduce e = Some (e', m) \<longrightarrow> expr_at H p e A \<longrightarrow> at_loc H ref p A \<longrightarrow> zeroed H \<longrightarrow>
     (\<exists>H'. moz_expr_optimize f H ref p = Inr (m, H') \<and> optimized H ref A H' e'))"

lemma set_node_list_node [simp]: "list_node n = Some es \<Longrightarrow> list_node (set_node_list n fs) = Some fs"
  "set_node_list (set_node_list n fs) gs = set_node_list n gs"
  by (cases n; simp)+

lemma elems_ok:
  assumes "reduces es = Some (es', m)" "\<forall>e \<in> set es. opt_ok f e" "at_cell H p (cell1 n)" "list_node n = Some (ps @ qs)"
    "exprs_at H qs es B" "p \<notin> B" "zeroed H"
  shows "\<exists>H' qs' B'. rfold (optimize_elem (moz_expr_optimize f) p) (m0, H) [length ps..<length (ps @ qs)] = Inr (m0 \<or> m, H') \<and>
    at_cell H' p (cell1 (set_node_list n (ps @ qs'))) \<and> exprs_at H' qs' es' B' \<and> p \<notin> B' \<and> B' \<subseteq> grown H B \<and> frame H (insert p B) H'"
  using assms
proof (induction es arbitrary: H ps qs B es' m m0 n)
  case Nil
  then show ?case by (auto simp: set_node_same)
next
  case (Cons e es)
  from Cons(6) obtain q rs A1 B1 where q: "qs = q # rs" "expr_at H q e A1" "exprs_at H rs es B1" "A1 \<inter> B1 = {}" "B = A1 \<union> B1"
    by (rule trees_ConsE)
  from Cons(2) obtain e1 m1 es1 m2 where e1: "reduce e = Some (e1, m1)" "reduces es = Some (es1, m2)" "es' = e1 # es1" "m = (m1 \<or> m2)"
    by (auto split: option.splits)
  have loc: "at_loc H (LElem p (length ps)) q A1" using Cons(4,5,7) q by (auto simp: at_loc_def)
  have "opt_ok f e" using Cons(3) by simp
  then obtain H1 where H1_0: "moz_expr_optimize f H (LElem p (length ps)) q = Inr (m1, H1)" "optimized H (LElem p (length ps)) A1 H1 e1"
    using e1(1) q(2) loc Cons(8) unfolding opt_ok_def by blast
  then obtain q1 A2 where H1: "moz_expr_optimize f H (LElem p (length ps)) q = Inr (m1, H1)" "expr_at H1 q1 e1 A2"
      "A2 \<subseteq> grown H A1" "frame (loc_put H (LElem p (length ps)) q1) A1 H1"
    unfolding optimized_def by blast
  let ?n = "set_node_list n (ps @ q1 # rs)" and ?H = "loc_put H (LElem p (length ps)) q1"
  have H': "?H = hput H p (Some (cell1 ?n))" using Cons(4,5) q(1) by (auto simp: loc_put_def at_cell_def)
  have p: "p \<notin> A1" "p \<notin> B1" "p < length (exprs H)" using Cons(7) q at_less [OF Cons(4)] by auto
  have fr1: "frame H (insert p A1) ?H" unfolding H' by (intro frame_hput frame_refl) (simp add: grown_def)
  have fr: "frame H (insert p A1) H1" by (rule frame_trans [OF fr1 H1(4)]) (auto simp: grown_def)
  have c: "at_cell H1 p (cell1 ?n)" using p(3) unfolding H' by (intro frame_at [OF H1(4)[unfolded H'] p(1)]) simp
  have l: "list_node ?n = Some ((ps @ [q1]) @ rs)" using Cons(5) by simp
  have B1: "exprs_at H1 rs es B1" using q p by (intro frame_tree(2) [OF fr q(3)]) auto
  have z: "zeroed H1" using Cons(8) frame_zeroed [OF fr] by simp
  from Cons(1) [OF e1(2) _ c l B1 p(2) z, of "m0 \<or> m1"] Cons(3) obtain H2 qs2 B2 where
    H2: "rfold (optimize_elem (moz_expr_optimize f) p) (m0 \<or> m1, H1) [Suc (length ps)..<length (ps @ q # rs)] = Inr ((m0 \<or> m1) \<or> m2, H2)"
      "at_cell H2 p (cell1 (set_node_list ?n ((ps @ [q1]) @ qs2)))" "exprs_at H2 qs2 es1 B2" "p \<notin> B2" "B2 \<subseteq> grown H1 B1"
      "frame H1 (insert p B1) H2" by auto
  have len: "length (exprs H) \<le> length (exprs H1)" using fr by (simp add: frame_def)
  have pA2: "p \<notin> A2" using H1(3) p by (auto simp: grown_def)
  have A2B1: "A2 \<inter> B1 = {}" using H1(3) q(4) trees_less(2) [OF q(3)] by (fastforce simp: grown_def)
  have A2: "expr_at H2 q1 e1 A2" using pA2 A2B1 by (intro frame_tree(1) [OF H2(6) H1(2)]) auto
  have "A2 \<inter> B2 = {}" using H2(5) trees_less(1) [OF H1(2)] A2B1 by (fastforce simp: grown_def)
  then have "exprs_at H2 (q1 # qs2) es' (A2 \<union> B2)" using A2 H2(3) e1(3) by (auto intro: expr_at_exprs_at.Cons)
  moreover have "A2 \<union> B2 \<subseteq> grown H B" using H1(3) H2(5) q(5) len by (fastforce simp: grown_def)
  moreover have "frame H (insert p B) H2"
    using q(5) by (intro frame_trans [OF frame_trans [OF frame_refl fr] H2(6)]) (auto simp: grown_def)
  moreover have "rfold (optimize_elem (moz_expr_optimize f) p) (m0, H) [length ps..<length (ps @ qs)] = Inr (m0 \<or> m, H2)"
  proof -
    have "[length ps..<length (ps @ qs)] = length ps # [Suc (length ps)..<length (ps @ q # rs)]"
      unfolding q(1) by (rule upt_conv_Cons) simp
    then show ?thesis using H1(1) H2(1) loc_read_ok [OF loc] e1(4) by (simp add: optimize_elem_def disj_assoc)
  qed
  ultimately show ?case using H2(2,4) pA2 by (intro exI [of _ H2] exI [of _ "q1 # qs2"] exI [of _ "A2 \<union> B2"]) auto
qed

text \<open>The list of an expression: what \<open>moz_List_optimize\<close> leaves.\<close>

lemma list_ok:
  assumes "reduces es = Some (es', m)" "\<forall>e \<in> set es. opt_ok f e" "at_cell H p (cell1 n)" "list_node n = Some qs"
    "exprs_at H qs es B" "p \<notin> B" "zeroed H"
  obtains H' qs' B' where "moz_List_optimize (moz_expr_optimize f) H p = Inr (m, H')" "at_cell H' p (cell1 (set_node_list n qs'))"
    "exprs_at H' qs' es' B'" "p \<notin> B'" "B' \<subseteq> grown H B" "frame H (insert p B) H'" "zeroed H'"
proof -
  from elems_ok [OF assms(1-3), of "[]" qs B False] assms(4-7) obtain H' qs' B' where
    H': "rfold (optimize_elem (moz_expr_optimize f) p) (False, H) [0..<length qs] = Inr (m, H')"
      "at_cell H' p (cell1 (set_node_list n qs'))" "exprs_at H' qs' es' B'" "p \<notin> B'" "B' \<subseteq> grown H B" "frame H (insert p B) H'"
    by auto
  moreover have "moz_List_optimize (moz_expr_optimize f) H p = rfold (optimize_elem (moz_expr_optimize f) p) (False, H) [0..<length qs]"
    using assms(4) by (simp add: moz_List_optimize_def get_list_def at_etype [OF assms(3)] list_node_Inr)
  ultimately show ?thesis using assms(7) frame_zeroed [OF H'(6)] by (intro that [of H' qs' B']) auto
qed

text \<open>An expression with one part.\<close>

lemma unary_ok:
  assumes e: "parts e = [x]" "\<And>q. node_child (cell_of e [q]) = Inr q"
    and e': "parts e' = [x']" "\<And>q q'. set_node_child (cell_of e [q]) q' = cell_of e' [q']"
    and ok: "opt_ok f x" "reduce x = Some (x', m)" and t: "expr_at H p e A" "at_loc H ref p A" "zeroed H"
    and run: "\<And>q. at_cell H p (cell1 (cell_of e [q])) \<Longrightarrow> moz_expr_optimize (Suc f) H ref p = moz_expr_optimize f H (LUnary p) q"
  shows "\<exists>H'. moz_expr_optimize (Suc f) H ref p = Inr (m, H') \<and> optimized H ref A H' e'"
proof -
  from unary_atE [OF t(1) e(1)] obtain q B where q: "at_cell H p (cell1 (cell_of e [q]))" "expr_at H q x B" "p \<notin> B" "A = insert p B"
    by blast
  have "at_loc H (LUnary p) q B" using q e(2) by (auto simp: at_loc_def)
  with ok q(2) t(3) obtain H1 where H1: "moz_expr_optimize f H (LUnary p) q = Inr (m, H1)" "optimized H (LUnary p) B H1 x'"
    unfolding opt_ok_def by blast
  then obtain q1 B1 where q1: "expr_at H1 q1 x' B1" "B1 \<subseteq> grown H B" "frame (loc_put H (LUnary p) q1) B H1"
    unfolding optimized_def by blast
  have pl: "p < length (exprs H)" using at_less [OF q(1)] .
  have put: "loc_put H (LUnary p) q1 = hput H p (Some (cell1 (cell_of e' [q1])))"
    using q(1) e'(2) by (simp add: loc_put_def at_cell_def)
  have fr1: "frame H A (loc_put H (LUnary p) q1)"
    unfolding put q(4) by (intro frame_hput frame_refl) (simp add: grown_def)
  have fr: "frame H A H1" using q(4) by (intro frame_trans [OF fr1 q1(3)]) (auto simp: grown_def)
  have c: "at_cell H1 p (cell1 (cell_of e' [q1]))" using pl by (intro frame_at [OF q1(3)[unfolded put] q(3)]) simp
  have "p \<notin> B1" using q1(2) q(3) pl by (auto simp: grown_def)
  then have "expr_at H1 p e' (insert p B1)"
    using q1(1) e'(1) expr_at_exprs_at.Cons [OF q1(1) expr_at_exprs_at.Nil] by (intro expr_at_exprs_at.Node [OF c]) auto
  moreover have "insert p B1 \<subseteq> grown H A" using q1(2) q(4) by (auto simp: grown_def)
  ultimately show ?thesis using run [OF q(1)] H1(1) optimized_same [OF t(2) fr] by auto
qed

text \<open>A choice of bytes becomes a set.\<close>

lemma put_node_ok:
  assumes "byte_or_set e" "bitset_wf s"
  shows "put_node s (cell_of e ks) = Inr (put_expr s e)"
  using assms by (cases e) (simp_all add: put_node_def set_runs no_bytes_def [symmetric])

lemma put_nodes_ok:
  assumes "exprs_at H qs es B" "list_all byte_or_set es" "list_all sets_wf es" "bitset_wf s"
  shows "rfold (\<lambda>s x. rbind (etype H x) (put_node s)) s qs = Inr (fold (\<lambda>e s. put_expr s e) es s)"
  using assms
proof (induction es arbitrary: qs B s)
  case (Cons e es)
  from Cons(2) obtain q rs A1 B1 where q: "qs = q # rs" "expr_at H q e A1" "exprs_at H rs es B1"
    by (rule trees_ConsE)
  then obtain ks where c: "at_cell H q (cell1 (cell_of e ks))" by (auto elim: expr_atE)
  have "put_node s (cell_of e ks) = Inr (put_expr s e)" using Cons(3,5) by (intro put_node_ok) auto
  moreover have "bitset_wf (put_expr s e)" using Cons(3-5) by (intro put_expr_ok) auto
  ultimately show ?case using Cons q by (simp add: at_etype [OF c])
qed simp

lemma mappable_cells:
  assumes "exprs_at H qs es B"
  shows "useByteMapOptimization H qs = Inr (list_all mappable es)"
proof -
  have "rfold (\<lambda>b x. if \<not> b then Inr False else rbind (etype H x) (\<lambda>n. case n of
      N_Byte _ \<Rightarrow> Inr True | N_Set _ \<Rightarrow> Inr True | N_Not y \<Rightarrow> rbind (etype H y) (\<lambda>n. Inr (isByteOrSet n)) | _ \<Rightarrow> Inr False)) b qs =
      Inr (b \<and> list_all mappable es)" for b
    using assms
  proof (induction es arbitrary: qs B b)
    case (Cons e es)
    from Cons(2) obtain q rs A1 B1 where q: "qs = q # rs" "expr_at H q e A1" "exprs_at H rs es B1"
      by (rule trees_ConsE)
    then obtain ks where c: "at_cell H q (cell1 (cell_of e ks))" by (auto elim: expr_atE)
    show ?case
    proof (cases "\<exists>x. e = E_Not x")
      case True
      then obtain x where [simp]: "e = E_Not x" by blast
      from unary_atE [OF q(2), of x] obtain y B2 where y: "at_cell H q (cell1 (N_Not y))" "expr_at H y x B2"
        by (metis \<open>e = E_Not x\<close> cell_of.simps(10) nth_Cons_0 parts.simps(2))
      then obtain ks2 where c2: "at_cell H y (cell1 (cell_of x ks2))" by (auto elim: expr_atE)
      have "isByteOrSet (cell_of x ks2) = byte_or_set x" by (cases x) (simp_all add: isByteOrSet_def)
      then show ?thesis using Cons q by (simp add: at_etype [OF y(1)] at_etype [OF c2])
    next
      case False
      then show ?thesis using Cons q by (cases e) (simp_all add: at_etype [OF c])
    qed
  qed simp
  then show ?thesis by (simp add: useByteMapOptimization_def)
qed

lemma plain_cells:
  assumes "exprs_at H qs es B" "list_all byte_or_set es" "k \<in> set qs"
  shows "\<exists>n. at_cell H k (cell1 n) \<and> plain n" "B = set qs"
proof -
  have "(\<forall>k \<in> set qs. \<exists>n. at_cell H k (cell1 n) \<and> plain n) \<and> B = set qs"
    using assms(1,2)
  proof (induction es arbitrary: qs B)
    case (Cons e es)
    have "parts e = []" using Cons(3) by (cases e) auto
    from plain_ConsE [OF Cons(2) this] obtain q rs B1 ks where
      q: "qs = q # rs" "at_cell H q (cell1 (cell_of e ks))" "exprs_at H rs es B1" "B = insert q B1" by metis
    moreover have "plain (cell_of e ks)" using Cons(3) by (cases e) (auto simp: plain_def)
    ultimately show ?case using Cons by auto
  qed simp
  with assms(3) show "\<exists>n. at_cell H k (cell1 n) \<and> plain n" "B = set qs" by auto
qed

section \<open>The optimiser\<close>

text \<open>No declaration is called, so none is inlined.\<close>

fun no_calls :: "expr \<Rightarrow> bool" where
  "no_calls (E_Invoke _ d) = (d = None)"
| "no_calls (E_And e) = no_calls e"
| "no_calls (E_Not e) = no_calls e"
| "no_calls (E_Option e) = no_calls e"
| "no_calls (E_Xblock e) = no_calls e"
| "no_calls (E_Xlocal _ e) = no_calls e"
| "no_calls (E_Xsymbol _ e) = no_calls e"
| "no_calls (E_Choice es) = list_all no_calls es"
| "no_calls (E_Sequence es) = list_all no_calls es"
| "no_calls (E_Repetition es) = list_all no_calls es"
| "no_calls _ = True"

lemma weight_part: "e \<in> set es \<Longrightarrow> weight e \<le> weights es"
  by (induction es) auto

lemma choice_ok:
  assumes es: "\<forall>e \<in> set es. opt_ok f e" and r: "reduce (E_Choice es) = Some (e', m)" and wf: "list_all sets_wf es"
    and t: "expr_at H p (E_Choice es) A" "at_loc H ref p A" "zeroed H"
  shows "\<exists>H'. moz_Choice_optimize (moz_expr_optimize f) H ref p = Inr (m, H') \<and> optimized H ref A H' e'"
proof -
  from t(1) obtain qs B where q: "at_cell H p (cell1 (N_Choice qs))" "exprs_at H qs es B" "p \<notin> B" "A = insert p B"
    by (auto elim: expr_atE)
  from r obtain fs m1 where fs: "reduces es = Some (fs, m1)" by (auto split: option.splits)
  from list_ok [OF fs es q(1) _ q(2,3) t(3)] obtain H1 qs1 B1 where
    H1: "moz_List_optimize (moz_expr_optimize f) H p = Inr (m1, H1)" "at_cell H1 p (cell1 (N_Choice qs1))" "exprs_at H1 qs1 fs B1"
      "p \<notin> B1" "B1 \<subseteq> grown H B" "frame H (insert p B) H1" "zeroed H1" by auto
  note fr = H1(6) [folded q(4)]
  have loc: "at_loc H1 ref p A" by (rule at_loc_frame [OF t(2) fr])
  have wf1: "list_all sets_wf fs" using reduce_keeps(2) [OF fs wf] by simp
  have sub: "insert p B1 \<subseteq> grown H A" using H1(5) q(4) by (auto simp: grown_def)
  have gl: "get_list H1 p = Inr qs1" by (simp add: get_list_def at_etype [OF H1(2)])
  have len: "length qs1 = length fs" by (rule trees_length [OF H1(3)])
  have loc1: "at_loc H1 ref p (insert p B1)"
    by (rule at_loc_grown [OF t(2) loc sub])
  consider (single) x where "fs = [x]" "e' = x" "m"
    | (bytes) "length fs \<noteq> 1" "list_all mappable fs" "list_all byte_or_set fs" "e' = E_Set (fold (\<lambda>e s. put_expr s e) fs no_bytes)" "m"
    | (same) "length fs \<noteq> 1" "\<not> list_all mappable fs" "e' = E_Choice fs" "m = m1"
    using r fs by (auto simp: length_1 split: if_splits)
  then show ?thesis
  proof cases
    case (single x)
    then obtain q1 where q1: "qs1 = [q1]" "expr_at H1 q1 x B1" using H1(3) by (auto simp: exprs_at_simps(4))
    have c: "at_cell H1 p (cell1 (N_Choice [q1]))" using H1(2) q1(1) by simp
    from single_ok [OF loc1 c _ H1(4) q1(2) H1(7)] obtain H2 where
      H2: "RC_ASSIGN H1 ref q1 = Inr H2" "dispose_list H2 p = Inr H2" "H2 = loc_put (hput H1 p None) ref q1"
        "frame H1 (insert p B1) (hput H1 p None)" "expr_at (hput H1 p None) q1 x B1" by auto
    have "frame H A (hput H1 p None)" using fr sub by (auto intro: frame_trans [OF fr H2(4)])
    then have "optimized H ref A H2 x"
      unfolding H2(3) using sub by (intro optimized_put [OF t(2) _ H2(5)]) auto
    then show ?thesis using single H1(1) gl q1(1) H2(1,2) by (simp add: moz_Choice_optimize_def)
  next
    case same
    have "expr_at H1 p (E_Choice fs) (insert p B1)"
      using H1(2,3,4) expr_at_exprs_at.Node [of H1 p "E_Choice fs" qs1 B1] by simp
    then have "optimized H ref A H1 (E_Choice fs)" using sub by (intro optimized_same [OF t(2) fr])
    then show ?thesis using same H1(1) gl len mappable_cells [OF H1(3)] by (simp add: moz_Choice_optimize_def)
  next
    case bytes
    let ?s = "fold (\<lambda>e s. put_expr s e) fs no_bytes" and ?q = "length (exprs H1)"
    define H2 where "H2 = hput (halloc H1 (N_Set no_bytes)) ?q (Some (cell0 (N_Set ?s)))"
    define H3 where "H3 = hput (halloc H1 (N_Set no_bytes)) ?q (Some (cell1 (N_Set ?s)))"
    define G where "G = clear (insert p (set qs1)) H3"
    have B1: "B1 = set qs1" using plain_cells(2) [OF H1(3) bytes(3)] H1(3) by (cases qs1) auto
    have pq: "p \<noteq> ?q" "?q \<notin> set qs1" "p < ?q" using at_less [OF H1(2)] trees_less(2) [OF H1(3)] B1 by auto
    have new: "at_cell H2 ?q (cell0 (N_Set ?s))" by (simp add: H2_def)
    have ret: "hput H2 ?q (Some (cell0 (N_Set ?s)\<lparr>erefc := erefc (cell0 (N_Set ?s)) + 1\<rparr>)) = H3"
      by (simp add: H2_def H3_def)
    have frH3: "frame H1 {?q} H3" "frame H1 {?q} H2"
      unfolding H3_def H2_def by (intro frame_hput frame_halloc frame_refl; simp add: grown_def)+
    have frG: "frame H1 (insert ?q (insert p B1)) G"
      unfolding G_def using B1 by (intro frame_clear frame_trans [OF frame_refl frH3(1)]) (auto simp: grown_def)
    have loc2: "at_loc H1 ref p (insert ?q (insert p B1))"
      using loc1 by (cases ref) (auto simp: at_loc_def dest: at_less)
    have loc3: "at_loc H2 ref p (insert ?q (insert p B1))"
      by (intro at_loc_frame [OF loc2] frame_trans [OF frame_refl frH3(2)]) (auto simp: grown_def)
    have cells: "\<exists>n. at_cell H3 k (cell1 n) \<and> plain n" if k: "k \<in> set qs1" for k
      using plain_cells(1) [OF H1(3) bytes(3) k] k pq frame_at [OF frH3(1), of k] by blast
    have "at_cell H3 p (cell1 (N_Choice qs1))" using frame_at [OF frH3(1) _ H1(2)] pq by simp
    then have rel: "RELEASE_expr H3 p = Inr G"
      unfolding G_def using cells trees_distinct [OF H1(3)] trees_roots [OF H1(3)] H1(4)
      by (intro release_all [of _ _ "N_Choice qs1"]) auto
    have "frame H2 (insert ?q (insert p B1)) H3" unfolding ret [symmetric]
      by (intro frame_hput frame_refl) (simp add: grown_def)
    then have fr2: "frame H2 (insert ?q (insert p B1)) G"
      unfolding G_def using B1 by (intro frame_clear) auto
    have run: "RC_ASSIGN H2 ref ?q = Inr (loc_put G ref ?q)"
      using rel ret by (intro assign_ok [OF loc3 new _ _ fr2]) simp_all
    have "at_cell G ?q (cell1 (N_Set ?s))" using pq by (simp add: G_def at_recount(2) [of _ _ "cell1 (N_Set ?s)"] H3_def)
    then have "expr_at G ?q (E_Set ?s) {?q}" by (intro plain_tree [of _ _ "N_Set ?s"]) (simp_all add: plain_def)
    moreover have "?q \<in> grown H A" using fr by (simp add: grown_def frame_def)
    moreover have "frame H A G" using sub \<open>?q \<in> grown H A\<close> by (intro frame_trans [OF fr frG]) auto
    ultimately have "optimized H ref A (loc_put G ref ?q) e'"
      unfolding bytes(4) by (intro optimized_put [OF t(2)]) auto
    moreover have "rfold (\<lambda>s x. rbind (etype (halloc H1 (N_Set no_bytes)) x) (put_node s)) no_bytes qs1 = Inr ?s"
    proof (rule put_nodes_ok [OF _ bytes(3) wf1 no_bytes_ok(1)])
      show "exprs_at (halloc H1 (N_Set no_bytes)) qs1 fs B1"
        using trees_less(2) [OF H1(3)] by (intro tree_frame(2) [OF H1(3)]) auto
    qed
    moreover have "eput (halloc H1 (N_Set no_bytes)) ?q (N_Set ?s) = Inr H2"
      using at_ops(5) [of "halloc H1 (N_Set no_bytes)" ?q "cell0 (N_Set no_bytes)" "N_Set ?s"] by (simp add: H2_def)
    ultimately show ?thesis using bytes H1(1) gl len mappable_cells [OF H1(3)] run
      by (simp add: moz_Choice_optimize_def halloc_runs(1) no_bytes_def [symmetric])
  qed
qed

lemma sequence_ok:
  assumes es: "\<forall>e \<in> set es. opt_ok f e" and r: "reduce (E_Sequence es) = Some (e', m)" and wf: "list_all sets_wf es"
    and f: "weights es < f" and t: "expr_at H p (E_Sequence es) A" "at_loc H ref p A" "zeroed H"
  shows "\<exists>H'. moz_Sequence_optimize f (moz_expr_optimize f) H ref p = Inr (m, H') \<and> optimized H ref A H' e'"
proof -
  from t(1) obtain qs B where q: "at_cell H p (cell1 (N_Sequence qs))" "exprs_at H qs es B" "p \<notin> B" "A = insert p B"
    by (auto elim: expr_atE)
  from r obtain fs m1 where fs: "reduces es = Some (fs, m1)" by (auto split: option.splits)
  from list_ok [OF fs es q(1) _ q(2,3) t(3)] obtain H1 qs1 B1 where
    H1: "moz_List_optimize (moz_expr_optimize f) H p = Inr (m1, H1)" "at_cell H1 p (cell1 (N_Sequence qs1))" "exprs_at H1 qs1 fs B1"
      "p \<notin> B1" "B1 \<subseteq> grown H B" "frame H (insert p B) H1" "zeroed H1" by auto
  have "weights fs \<le> weights es" using reduce_keeps(2) [OF fs wf] by (cases m1) auto
  with f have f1: "weights fs < f" by simp
  let ?hs = "seq_rewrite fs" and ?P = "\<lambda>e. e \<noteq> E_Empty"
  let ?gs = "filter ?P ?hs"
  have c1: "at_cell H1 p (seqc ([] @ qs1))" using H1(2) by (simp add: seqc_def)
  from seq_loop_ok [OF f1 H1(7) c1 H1(3,4), of False] obtain H2 qs2 B2 where
    H2: "seq_loop f p 0 (False, H1) = Inr (?hs \<noteq> fs, H2)" "at_cell H2 p (seqc (qs2 @ []))" "exprs_at H2 qs2 ?hs B2" "p \<notin> B2"
      "B2 \<subseteq> grown H1 B1" "frame H1 (insert p B1) H2" by (auto simp: looped_def)
  from remove_empty_ok [OF H2(2,3,4), of "m1 \<or> ?hs \<noteq> fs"] obtain H3 qs3 B3 where
    H3: "rfold (remove_empty p) (m1 \<or> ?hs \<noteq> fs, H2) (rev [0..<length qs2]) = Inr ((m1 \<or> ?hs \<noteq> fs) \<or> ?gs \<noteq> ?hs, H3)"
      "at_cell H3 p (seqc qs3)" "exprs_at H3 qs3 ?gs B3" "B3 \<subseteq> B2" "frame H2 (insert p B2) H3" by auto
  have len: "length (exprs H) \<le> length (exprs H1)" using H1(6) by (simp add: frame_def)
  have sub2: "insert p B2 \<subseteq> grown H A" using H1(5) H2(5) q(4) len by (fastforce simp: grown_def)
  have sub: "insert p B3 \<subseteq> grown H A" using sub2 H3(4) by blast
  have "frame H A H2" using H1(5) q(4) by (intro frame_trans [OF H1(6)[folded q(4)] H2(6)]) (auto simp: grown_def)
  then have fr: "frame H A H3" by (rule frame_trans [OF _ H3(5) sub2])
  have p3: "p \<notin> B3" using H2(4) H3(4) by blast
  have z: "zeroed H3" using t(3) frame_zeroed [OF fr] by simp
  have gl: "get_list H2 p = Inr qs2" "get_list H3 p = Inr qs3"
    using at_etype [OF H2(2)] at_etype [OF H3(2)] by (simp_all add: get_list_def)
  have l3: "length qs3 = length ?gs" by (rule trees_length [OF H3(3)])
  have loc: "at_loc H3 ref p (insert p B3)"
    by (rule at_loc_grown [OF t(2) at_loc_frame [OF t(2) fr] sub])
  have run: "moz_Sequence_optimize f (moz_expr_optimize f) H ref p =
      (if length ?gs = 1 then rbind (RC_ASSIGN H3 ref (qs3 ! 0)) (\<lambda>H. rbind (dispose_list H p) (\<lambda>H. Inr (True, H)))
       else Inr ((m1 \<or> ?hs \<noteq> fs) \<or> ?gs \<noteq> ?hs, H3))"
    using H1(1) H2(1) H3(1) gl l3 by (simp add: moz_Sequence_optimize_def moz_Sequence_optimize_list_def)
  consider (single) x where "?gs = [x]" "e' = x" "m"
    | (same) "length ?gs \<noteq> 1" "e' = E_Sequence ?gs" "m = ((m1 \<or> ?hs \<noteq> fs) \<or> ?gs \<noteq> ?hs)"
    using r fs by (auto simp: length_1 Let_def split: if_splits)
  then show ?thesis
  proof cases
    case (single x)
    then obtain q1 where q1: "qs3 = [q1]" "expr_at H3 q1 x B3" using H3(3) by (auto simp: exprs_at_simps(4))
    have c: "at_cell H3 p (cell1 (N_Sequence [q1]))" using H3(2) q1(1) by (simp add: seqc_def)
    from single_ok [OF loc c _ p3 q1(2) z] obtain H4 where
      H4: "RC_ASSIGN H3 ref q1 = Inr H4" "dispose_list H4 p = Inr H4" "H4 = loc_put (hput H3 p None) ref q1"
        "frame H3 (insert p B3) (hput H3 p None)" "expr_at (hput H3 p None) q1 x B3" by auto
    have "optimized H ref A H4 x"
      unfolding H4(3) using sub frame_trans [OF fr H4(4) sub] by (intro optimized_put [OF t(2) _ H4(5)]) auto
    then show ?thesis using single run q1(1) H4(1,2) by simp
  next
    case same
    have "expr_at H3 p (E_Sequence ?gs) (insert p B3)"
      using H3(2,3) p3 expr_at_exprs_at.Node [of H3 p "E_Sequence ?gs" qs3 B3] by (simp add: seqc_def)
    then have "optimized H ref A H3 (E_Sequence ?gs)" using sub by (intro optimized_same [OF t(2) fr])
    then show ?thesis using same run by simp
  qed
qed

text \<open>An expression without parts to optimise.\<close>

lemma still_ok:
  assumes "reduce e = Some (e, False)" "\<And>H ref p qs. at_cell H p (cell1 (cell_of e qs)) \<Longrightarrow> moz_expr_optimize (Suc f) H ref p = Inr (False, H)"
  shows "opt_ok (Suc f) e"
  unfolding opt_ok_def
proof (intro allI impI)
  fix H ref p A e' m
  assume a: "reduce e = Some (e', m)" "expr_at H p e A" "at_loc H ref p A" "zeroed H"
  from a(2) obtain qs where "at_cell H p (cell1 (cell_of e qs))" by (auto elim: expr_atE)
  moreover have "optimized H ref A H e" using a(2) by (intro optimized_same [OF a(3) frame_refl]) (auto simp: grown_def)
  ultimately show "\<exists>H'. moz_expr_optimize (Suc f) H ref p = Inr (m, H') \<and> optimized H ref A H' e'"
    using assms a(1) by auto
qed

lemma opt_all: "weight e < f \<Longrightarrow> sets_wf e \<Longrightarrow> no_calls e \<Longrightarrow> opt_ok f e"
proof (induction f arbitrary: e)
  case (Suc f)
  have parts: "\<forall>x \<in> set (parts e). opt_ok f x"
  proof
    fix x
    assume x: "x \<in> set (parts e)"
    have "weight x < weight e" using x weight_part [of x] by (cases e) (force simp: less_Suc_eq_le)+
    moreover have "sets_wf x" "no_calls x" using x Suc.prems by (cases e; auto simp: list_all_iff)+
    ultimately show "opt_ok f x" using Suc by simp
  qed
  note opt = moz_expr_optimize.simps(2) at_etype
  have unary: "opt_ok (Suc f) e"
    if e: "parts e = [x]" "\<And>q. node_child (cell_of e [q]) = Inr q" "\<And>q q'. set_node_child (cell_of e [q]) q' = cell_of (K x) [q']"
      "\<And>x. parts (K x) = [x]" "reduce e = map_option (\<lambda>(x, m). (K x, m)) (reduce x)"
      "\<And>x y q q'. cell_of (K x) [q] = cell_of (K y) [q]"
      "\<And>H ref p q. at_cell H p (cell1 (cell_of e [q])) \<Longrightarrow> moz_expr_optimize (Suc f) H ref p = moz_expr_optimize f H (LUnary p) q"
    for x and K :: "expr \<Rightarrow> expr"
    unfolding opt_ok_def
  proof (intro allI impI)
    fix H ref p A e' m
    assume a: "reduce e = Some (e', m)" "expr_at H p e A" "at_loc H ref p A" "zeroed H"
    then obtain x' where x': "reduce x = Some (x', m)" "e' = K x'" using e(5) by auto
    have "set_node_child (cell_of e [q]) q' = cell_of e' [q']" for q q' using e(3,6) x'(2) by metis
    with parts e x' a show "\<exists>H'. moz_expr_optimize (Suc f) H ref p = Inr (m, H') \<and> optimized H ref A H' e'"
      by (intro unary_ok [of e x e' x']) auto
  qed
  show ?case
  proof (cases e)
    case [simp]: (E_Choice es)
    show ?thesis
      unfolding opt_ok_def
    proof (intro allI impI)
      fix H ref p A e' m
      assume a: "reduce e = Some (e', m)" "expr_at H p e A" "at_loc H ref p A" "zeroed H"
      then obtain qs where "at_cell H p (cell1 (N_Choice qs))" by (auto elim: expr_atE)
      then have "moz_expr_optimize (Suc f) H ref p = moz_Choice_optimize (moz_expr_optimize f) H ref p" by (simp add: opt)
      then show "\<exists>H'. moz_expr_optimize (Suc f) H ref p = Inr (m, H') \<and> optimized H ref A H' e'"
        using choice_ok [of es f e' m H p A ref] parts a Suc.prems by simp
    qed
  next
    case [simp]: (E_Sequence es)
    show ?thesis
      unfolding opt_ok_def
    proof (intro allI impI)
      fix H ref p A e' m
      assume a: "reduce e = Some (e', m)" "expr_at H p e A" "at_loc H ref p A" "zeroed H"
      then obtain qs where "at_cell H p (cell1 (N_Sequence qs))" by (auto elim: expr_atE)
      then have "moz_expr_optimize (Suc f) H ref p = moz_Sequence_optimize f (moz_expr_optimize f) H ref p" by (simp add: opt)
      then show "\<exists>H'. moz_expr_optimize (Suc f) H ref p = Inr (m, H') \<and> optimized H ref A H' e'"
        using sequence_ok [of es f e' m H p A ref] parts a Suc.prems by simp
    qed
  next
    case [simp]: (E_Repetition es)
    show ?thesis
      unfolding opt_ok_def
    proof (intro allI impI)
      fix H ref p A e' m
      assume a: "reduce e = Some (e', m)" "expr_at H p e A" "at_loc H ref p A" "zeroed H"
      from a(2) obtain qs B where q: "at_cell H p (cell1 (N_Repetition qs))" "exprs_at H qs es B" "p \<notin> B" "A = insert p B"
        by (auto elim: expr_atE)
      from a(1) obtain fs where fs: "reduces es = Some (fs, m)" "e' = E_Repetition fs" by auto
      have es: "\<forall>x \<in> set es. opt_ok f x" using parts by simp
      from list_ok [OF fs(1) es q(1) _ q(2,3) a(4)] obtain H' qs' B' where
        H': "moz_List_optimize (moz_expr_optimize f) H p = Inr (m, H')" "at_cell H' p (cell1 (N_Repetition qs'))"
          "exprs_at H' qs' fs B'" "p \<notin> B'" "B' \<subseteq> grown H B" "frame H (insert p B) H'" "zeroed H'" by auto
      have "expr_at H' p e' (insert p B')"
        using H'(2-4) fs(2) expr_at_exprs_at.Node [of H' p "E_Repetition fs" qs' B'] by simp
      then have "optimized H ref A H' e'"
        using H'(5) q(4) by (intro optimized_same [OF a(3) H'(6)[folded q(4)]]) (auto simp: grown_def)
      then show "\<exists>H'. moz_expr_optimize (Suc f) H ref p = Inr (m, H') \<and> optimized H ref A H' e'"
        using H'(1) q(1) by (auto simp: opt moz_Repetition_optimize_def)
    qed
  next
    case (E_And x)
    then show ?thesis by (intro unary [of x E_And]) (simp_all add: opt moz_Unary_optimize_def)
  next
    case (E_Not x)
    then show ?thesis by (intro unary [of x E_Not]) (simp_all add: opt moz_Not_optimize_def)
  next
    case (E_Option x)
    then show ?thesis by (intro unary [of x E_Option]) (simp_all add: opt moz_Option_optimize_def)
  next
    case (E_Xblock x)
    then show ?thesis by (intro unary [of x E_Xblock]) (simp_all add: opt moz_Unary_optimize_def)
  next
    case (E_Xlocal n x)
    then show ?thesis by (intro unary [of x "E_Xlocal n"]) (simp_all add: opt moz_NameUnary_optimize_def)
  next
    case (E_Xsymbol n x)
    then show ?thesis by (intro unary [of x "E_Xsymbol n"]) (simp_all add: opt moz_NameUnary_optimize_def)
  next
    case (E_Invoke n d)
    then show ?thesis using Suc.prems by (intro still_ok) (simp_all add: opt moz_Invoke_optimize_def)
  qed (intro still_ok; simp add: opt)+
qed simp

section \<open>Choices that the optimiser accepts\<close>

text \<open>A choice is safe when none of its alternatives is a \<open>Not\<close> or can become one.\<close>

fun maybe_not :: "expr \<Rightarrow> bool" where
  "maybe_not (E_Not _) = True"
| "maybe_not (E_Sequence es) = list_ex maybe_not es"
| "maybe_not (E_Choice es) = list_ex maybe_not es"
| "maybe_not _ = False"

fun safe :: "expr \<Rightarrow> bool" where
  "safe (E_Choice es) = (list_all safe es \<and> \<not> list_ex maybe_not es)"
| "safe (E_Sequence es) = list_all safe es"
| "safe (E_Repetition es) = list_all safe es"
| "safe (E_And e) = safe e"
| "safe (E_Not e) = safe e"
| "safe (E_Option e) = safe e"
| "safe (E_Xblock e) = safe e"
| "safe (E_Xlocal _ e) = safe e"
| "safe (E_Xsymbol _ e) = safe e"
| "safe _ = True"

lemma take_text_safe: "list_all safe es \<Longrightarrow> list_all safe (snd (take_text t es))"
  "list_ex maybe_not (snd (take_text t es)) \<Longrightarrow> list_ex maybe_not es"
  "list_all no_calls es \<Longrightarrow> list_all no_calls (snd (take_text t es))"
  by (induction t es rule: take_text.induct) auto

lemma seq_rewrite_safe:
  "(list_all safe es \<longrightarrow> list_all safe (seq_rewrite es)) \<and> (list_ex maybe_not (seq_rewrite es) \<longrightarrow> list_ex maybe_not es) \<and>
   (list_all no_calls es \<longrightarrow> list_all no_calls (seq_rewrite es))"
proof (induction es rule: seq_rewrite_induct)
  case (Flat xs es y ys)
  have "list_all P (xs @ es) = list_all P (y # ys)" "list_ex Q (xs @ es) = list_ex Q (y # ys)" for P Q
    by (simp_all only: Flat(1))
  then have "list_all P xs \<and> list_all P es \<longleftrightarrow> P y \<and> list_all P ys" "list_ex Q xs \<or> list_ex Q es \<longleftrightarrow> Q y \<or> list_ex Q ys" for P Q
    by simp_all
  with Flat show ?case by auto
next
  case (Text t es)
  then show ?case using take_text_safe [where t = t and es = es] by auto
qed (auto simp: seq_rewrite_kept)

lemma reduce_safe:
  "safe e \<Longrightarrow> (\<exists>e' m. reduce e = Some (e', m) \<and> safe e' \<and> (maybe_not e' \<longrightarrow> maybe_not e) \<and> (no_calls e \<longrightarrow> no_calls e'))"
  "list_all safe es \<Longrightarrow> (\<exists>es' m. reduces es = Some (es', m) \<and> list_all safe es' \<and>
     (list_ex maybe_not es' \<longrightarrow> list_ex maybe_not es) \<and> (list_all no_calls es \<longrightarrow> list_all no_calls es'))"
proof (induction e and es rule: reduce_reduces.induct)
  case (8 es)
  then obtain fs m where fs: "reduces es = Some (fs, m)" "list_all safe fs" "\<not> list_ex maybe_not fs" "list_all no_calls es \<longrightarrow> list_all no_calls fs"
    by auto
  have "list_all byte_or_set fs" if "list_all mappable fs"
    using that fs(3) by (induction fs) (simp, rename_tac x xs, case_tac x, auto)
  with fs show ?case by (auto simp: length_1)
next
  case (9 es)
  then obtain fs m where fs: "reduces es = Some (fs, m)" "list_all safe fs" "list_ex maybe_not fs \<longrightarrow> list_ex maybe_not es"
      "list_all no_calls es \<longrightarrow> list_all no_calls fs" by auto
  let ?gs = "filter (\<lambda>e. e \<noteq> E_Empty) (seq_rewrite fs)"
  have g: "list_all safe ?gs" "list_ex maybe_not ?gs \<longrightarrow> list_ex maybe_not es" "list_all no_calls es \<longrightarrow> list_all no_calls ?gs"
    using seq_rewrite_safe [of fs] fs(2-4) by (auto simp: list_all_iff list_ex_iff)
  show ?case
  proof (cases "length ?gs = 1")
    case True
    then obtain x where "?gs = [x]" by (auto simp: length_1)
    with g fs(1) show ?thesis by (auto simp: Let_def)
  next
    case False
    with g fs(1) show ?thesis by (auto simp: Let_def)
  qed
next
  case (12 e es)
  then obtain e' m where e': "reduce e = Some (e', m)" "safe e'" "maybe_not e' \<longrightarrow> maybe_not e" "no_calls e \<longrightarrow> no_calls e'" by auto
  moreover from 12(2) [OF e'(1) refl] 12(3) obtain es' m' where "reduces es = Some (es', m')" "list_all safe es'"
      "list_ex maybe_not es' \<longrightarrow> list_ex maybe_not es" "list_all no_calls es \<longrightarrow> list_all no_calls es'" by auto
  ultimately show ?case by auto
qed auto

end
