(* ===== verification/Expr_Result.thy ===== *)
theory Expr_Result
  imports Expr_Optimized
begin

text \<open>
  What the optimiser of \<open>src/src/compiler/expression.c\<close> achieves: the rewriting of an expression
  keeps its meaning, the rounds over the declarations come to an end, and what goes wrong where
  expressions are shared or freed memory is read.
\<close>

section \<open>An expression\<close>

lemma at_loc_put: "at_loc H l p A \<Longrightarrow> at_loc (loc_put H l q) l q A"
proof (cases l)
  case (LUnary r)
  moreover assume "at_loc H l p A"
  ultimately obtain c where c: "at_cell H r c" "node_child (enode c) = Inr p" "r \<notin> A" by (auto simp: at_loc_def)
  have "node_child (set_node_child (enode c) q) = Inr q" using c(2) by (cases "enode c") auto
  with c LUnary show ?thesis by (auto simp: at_loc_def loc_put_def at_cell_def hput_def)
next
  case (LElem r i)
  moreover assume "at_loc H l p A"
  ultimately obtain c es where c: "at_cell H r c" "list_node (enode c) = Some es" "i < length es" "r \<notin> A" by (auto simp: at_loc_def)
  with LElem show ?thesis by (auto simp: at_loc_def loc_put_def at_cell_def hput_def)
next
  case (LBody d)
  moreover assume "at_loc H l p A"
  ultimately show ?thesis by (auto simp: at_loc_def loc_put_def)
qed


section \<open>The declarations\<close>

text \<open>The bodies of the declarations are separate trees, and every declaration has at least \<open>k\<close> references.\<close>

definition body_at :: "ast_heap \<Rightarrow> nat \<Rightarrow> dptr \<Rightarrow> eptr \<Rightarrow> bool" where
  "body_at H k d p \<longleftrightarrow> (\<exists>c. d < length (pdecls H) \<and> pdecls H ! d = Some c \<and> k \<le> prefc c \<and> pbody c = Some p)"

definition bodies :: "ast_heap \<Rightarrow> dptr list \<Rightarrow> nat \<Rightarrow> eptr list \<Rightarrow> bool" where
  "bodies H ds k ps \<longleftrightarrow> list_all2 (body_at H k) ds ps"

definition grammar_at :: "ast_heap \<Rightarrow> nat \<Rightarrow> expr list \<Rightarrow> bool" where
  "grammar_at H k es \<longleftrightarrow> zeroed H \<and> distinct (dlist H) \<and> (\<exists>ps B. bodies H (dlist H) k ps \<and> exprs_at H ps es B)"

text \<open>All counts of a set of declarations change.\<close>

definition counts :: "(nat \<Rightarrow> nat) \<Rightarrow> dptr set \<Rightarrow> ast_heap \<Rightarrow> ast_heap" where
  "counts g Q H = H\<lparr>pdecls := map (\<lambda>d. if d \<in> Q then map_option (\<lambda>c. c\<lparr>prefc := g (prefc c)\<rparr>) (pdecls H ! d) else pdecls H ! d)
     [0..<length (pdecls H)]\<rparr>"

lemma counts_sel [simp]:
  "exprs (counts g Q H) = exprs H" "dlist (counts g Q H) = dlist H" "zeroed (counts g Q H) = zeroed H"
  "length (pdecls (counts g Q H)) = length (pdecls H)"
  by (simp_all add: counts_def)

lemma counts_empty [simp]: "counts g {} H = H"
  by (simp add: counts_def map_nth)

lemma nth_counts:
  "d < length (pdecls H) \<Longrightarrow> pdecls (counts g Q H) ! d =
     (if d \<in> Q then map_option (\<lambda>c. c\<lparr>prefc := g (prefc c)\<rparr>) (pdecls H ! d) else pdecls H ! d)"
  by (simp add: counts_def)

lemma counts_step:
  assumes "d < length (pdecls H)" "pdecls H ! d = Some c" "d \<notin> Q"
  shows "(counts g Q H)\<lparr>pdecls := (pdecls (counts g Q H))[d := Some (c\<lparr>prefc := g (prefc c)\<rparr>)]\<rparr> = counts g (insert d Q) H"
proof -
  have "(pdecls (counts g Q H))[d := Some (c\<lparr>prefc := g (prefc c)\<rparr>)] = pdecls (counts g (insert d Q) H)"
    using assms by (intro nth_equalityI) (auto simp: nth_counts nth_list_update)
  then show ?thesis by (simp add: counts_def)
qed

lemma bodies_decl:
  assumes "bodies H ds k ps" "d \<in> set ds"
  shows "\<exists>c. d < length (pdecls H) \<and> pdecls H ! d = Some c \<and> k \<le> prefc c"
proof -
  from assms(2) obtain i where "i < length ds" "ds ! i = d" by (auto simp: in_set_conv_nth)
  with assms(1) have "body_at H k d (ps ! i)" by (auto simp: bodies_def list_all2_conv_all_nth)
  then show ?thesis by (auto simp: body_at_def)
qed

lemma counts_loop:
  assumes step: "\<And>G d c. d \<in> set ds \<Longrightarrow> d < length (pdecls G) \<Longrightarrow> pdecls G ! d = Some c \<Longrightarrow> k \<le> prefc c \<Longrightarrow>
      h (pack G) d = Inr (pack (G\<lparr>pdecls := (pdecls G)[d := Some (c\<lparr>prefc := g (prefc c)\<rparr>)]\<rparr>))"
    and ds: "distinct ds" "bodies H ds k ps"
  shows "rfold h (pack H) ds = Inr (pack (counts g (set ds) H))"
proof -
  have "rfold h (pack (counts g Q H)) es = Inr (pack (counts g (Q \<union> set es) H))"
    if "distinct es" "set es \<subseteq> set ds" "Q \<inter> set es = {}" for es Q
    using that
  proof (induction es arbitrary: Q)
    case (Cons d es)
    then have d: "d \<in> set ds" "d \<notin> Q" by auto
    from bodies_decl [OF ds(2) d(1)] obtain c where c: "d < length (pdecls H)" "pdecls H ! d = Some c" "k \<le> prefc c" by blast
    have "h (pack (counts g Q H)) d = Inr (pack (counts g (insert d Q) H))"
      using step [OF d(1), of "counts g Q H" c] c d(2) counts_step [OF c(1,2) d(2)] by (simp add: nth_counts)
    then show ?case using Cons.IH [of "insert d Q"] Cons.prems by auto
  qed simp
  from this [of ds "{}"] ds(1) show ?thesis by simp
qed

lemma bodies_mono:
  "bodies H ds k ps \<Longrightarrow> (\<And>d p. d \<in> set ds \<Longrightarrow> body_at H k d p \<Longrightarrow> body_at H' k' d p) \<Longrightarrow> bodies H' ds k' ps"
  unfolding bodies_def by (auto simp: list_all2_conv_all_nth)

lemma bodies_counts:
  assumes "bodies H ds k ps" "\<And>n. k \<le> n \<Longrightarrow> k' \<le> g n"
  shows "bodies (counts g (set ds) H) ds k' ps"
proof (rule bodies_mono [OF assms(1)])
  fix d p
  assume d: "d \<in> set ds" "body_at H k d p"
  then obtain c where "d < length (pdecls H)" "pdecls H ! d = Some c" "k \<le> prefc c" "pbody c = Some p"
    unfolding body_at_def by blast
  then show "body_at (counts g (set ds) H) k' d p" using d(1) assms(2) by (simp add: body_at_def nth_counts)
qed

lemma trees_counts: "exprs_at H ps es B \<Longrightarrow> exprs_at (counts g Q H) ps es B"
  by (erule tree_frame(2)) (simp add: at_cell_def)

text \<open>The loop over the declarations changes their bodies and nothing else.\<close>

definition kept :: "ast_heap \<Rightarrow> eptr set \<Rightarrow> dptr list \<Rightarrow> ast_heap \<Rightarrow> bool" where
  "kept H B ds H' \<longleftrightarrow> length (pdecls H') = length (pdecls H) \<and> (\<forall>d < length (pdecls H). d \<notin> set ds \<longrightarrow> pdecls H' ! d = pdecls H ! d) \<and>
     frame H B (H'\<lparr>pdecls := pdecls H\<rparr>)"

lemma kept_body:
  assumes "at_loc H (LBody d) p A" "frame (loc_put H (LBody d) q) A H'"
  shows "kept H A [d] H'" "body_at H k d p \<Longrightarrow> body_at H' k d q"
  using assms by (auto simp: kept_def frame_def loc_put_def at_loc_def body_at_def)

lemma kept_tree: "kept H A ds H' \<Longrightarrow> expr_at H p e B \<Longrightarrow> A \<inter> B = {} \<Longrightarrow> expr_at H' p e B"
  "kept H A ds H' \<Longrightarrow> exprs_at H ps es B \<Longrightarrow> A \<inter> B = {} \<Longrightarrow> exprs_at H' ps es B"
  by (erule tree_frame; auto simp: kept_def frame_def at_cell_def)+

lemma kept_bodies:
  "kept H A ds H' \<Longrightarrow> bodies H cs k ps \<Longrightarrow> set cs \<inter> set ds = {} \<Longrightarrow> bodies H' cs k ps"
  by (erule bodies_mono) (auto simp: kept_def body_at_def)

lemma kept_trans:
  "kept H A ds G \<Longrightarrow> kept G B cs H' \<Longrightarrow> B \<subseteq> C \<Longrightarrow> A \<subseteq> C \<Longrightarrow> kept H C (ds @ cs) H'"
  unfolding kept_def frame_def by (auto simp: subset_iff) (metis less_le_trans)+

lemma decls_ok:
  assumes "reduces es = Some (es', m)" "\<forall>e \<in> set es. opt_ok f e" "distinct ds" "bodies H ds k ps" "exprs_at H ps es B" "zeroed H"
  shows "\<exists>H' ps' B'. rfold (optimize_decl f) (m0, H) ds = Inr (m0 \<or> m, H') \<and> bodies H' ds k ps' \<and> exprs_at H' ps' es' B' \<and>
    B' \<subseteq> grown H B \<and> kept H B ds H'"
  using assms
proof (induction es arbitrary: H ds ps B es' m m0)
  case Nil
  then show ?case by (auto simp: bodies_def kept_def)
next
  case (Cons e es)
  from Cons(6) obtain p qs A1 B1 where q: "ps = p # qs" "expr_at H p e A1" "exprs_at H qs es B1" "A1 \<inter> B1 = {}" "B = A1 \<union> B1"
    by (rule trees_ConsE)
  from Cons(5) q(1) obtain d cs where d: "ds = d # cs" "body_at H k d p" "bodies H cs k qs" by (auto simp: bodies_def list_all2_Cons2)
  from Cons(2) obtain e1 m1 es1 m2 where e1: "reduce e = Some (e1, m1)" "reduces es = Some (es1, m2)" "es' = e1 # es1" "m = (m1 \<or> m2)"
    by (auto split: option.splits)
  have loc: "at_loc H (LBody d) p A1" using d(2) by (auto simp: at_loc_def body_at_def)
  have "opt_ok f e" using Cons(3) by simp
  then obtain H1 q1 A2 where H1: "moz_expr_optimize f H (LBody d) p = Inr (m1, H1)" "expr_at H1 q1 e1 A2" "A2 \<subseteq> grown H A1"
      "frame (loc_put H (LBody d) q1) A1 H1"
    using e1(1) q(2) loc Cons(7) unfolding opt_ok_def optimized_def by metis
  note k1 = kept_body(1) [OF loc H1(4)] and b1 = kept_body(2) [OF loc H1(4) d(2)]
  have c: "bodies H1 cs k qs" using Cons(4) d(1) by (intro kept_bodies [OF k1 d(3)]) auto
  have t: "exprs_at H1 qs es B1" by (rule kept_tree(2) [OF k1 q(3,4)])
  have z: "zeroed H1" using Cons(7) k1 by (simp add: kept_def frame_def)
  have ds: "distinct cs" "d \<notin> set cs" using Cons(4) d(1) by auto
  have oks: "\<forall>e \<in> set es. opt_ok f e" using Cons(3) by simp
  from Cons(1) [OF e1(2) oks ds(1) c t z, of "m0 \<or> m1"] obtain H2 qs2 B2 where
    H2: "rfold (optimize_decl f) (m0 \<or> m1, H1) cs = Inr ((m0 \<or> m1) \<or> m2, H2)" "bodies H2 cs k qs2" "exprs_at H2 qs2 es1 B2"
      "B2 \<subseteq> grown H1 B1" "kept H1 B1 cs H2" by blast
  have len: "length (exprs H) \<le> length (exprs H1)" using k1 by (simp add: kept_def frame_def)
  have A2B1: "B1 \<inter> A2 = {}" using H1(3) q(4) trees_less(2) [OF q(3)] by (fastforce simp: grown_def)
  have A2: "expr_at H2 q1 e1 A2" by (rule kept_tree(1) [OF H2(5) H1(2) A2B1])
  have "A2 \<inter> B2 = {}" using H2(4) trees_less(1) [OF H1(2)] A2B1 by (fastforce simp: grown_def)
  then have "exprs_at H2 (q1 # qs2) es' (A2 \<union> B2)" using A2 H2(3) e1(3) by (auto intro: expr_at_exprs_at.Cons)
  moreover have "A2 \<union> B2 \<subseteq> grown H B" using H1(3) H2(4) q(5) len by (fastforce simp: grown_def)
  moreover have "body_at H2 k d q1" using b1 ds(2) H2(5) by (auto simp: kept_def body_at_def)
  then have "bodies H2 ds k (q1 # qs2)" using H2(2) d(1) by (simp add: bodies_def)
  moreover have "kept H B ds H2" using kept_trans [OF k1 H2(5), of B] q(5) d(1) by auto
  moreover have "rfold (optimize_decl f) (m0, H) ds = Inr (m0 \<or> m, H2)"
    using H1(1) H2(1) loc_read_ok [OF loc] e1(4) d(1) by (simp add: optimize_decl_def disj_assoc)
  ultimately show ?case by blast
qed

section \<open>The rounds\<close>

lemma mark_ok:
  assumes "distinct (dlist H)" "bodies H (dlist H) k ps"
  shows "moz_ast_mark_live_decl H = Inr (counts Suc (set (dlist H)) H)"
  unfolding moz_ast_mark_live_decl_def
  by (rule counts_loop [where pack = "\<lambda>G. G", OF _ assms]) (simp add: decl_retain_def dread_def dwrite_def)

lemma unused_ok:
  assumes "distinct (dlist H)" "bodies H (dlist H) 2 ps"
  shows "moz_ast_remove_unused_decl H = Inr (counts (\<lambda>n. n - 1) (set (dlist H)) H)"
proof -
  have "rfold unused_decl ([], H) (dlist H) = Inr ([], counts (\<lambda>n. n - 1) (set (dlist H)) H)"
    by (rule counts_loop [where pack = "Pair []", OF _ assms])
      (simp add: unused_decl_def RELEASE_decl_def decl_release_def dread_def dwrite_def)
  then show ?thesis by (simp add: moz_ast_remove_unused_decl_def counts_def)
qed

lemma opt_all_list:
  assumes "list_all sets_wf es" "list_all no_calls es" "weights es < f"
  shows "\<forall>e \<in> set es. opt_ok f e"
proof
  fix e
  assume e: "e \<in> set es"
  with assms(3) have "weight e < f" using weight_part [OF e] by simp
  with e assms(1,2) show "opt_ok f e" by (intro opt_all) (auto simp: list_all_iff)
qed

lemma round_ok:
  assumes H: "grammar_at H 1 es" and es: "list_all sets_wf es" "list_all no_calls es" "weights es < f" "reduces es = Some (es', m)"
  obtains H1 H2 H3 where "moz_ast_mark_live_decl H = Inr H1" "rfold (optimize_decl f) (False, H1) (dlist H1) = Inr (m, H2)"
    "moz_ast_remove_unused_decl H2 = Inr H3" "grammar_at H3 1 es'" "dlist H3 = dlist H"
proof -
  from H obtain ps B where b: "zeroed H" "distinct (dlist H)" "bodies H (dlist H) 1 ps" "exprs_at H ps es B"
    by (auto simp: grammar_at_def)
  let ?H1 = "counts Suc (set (dlist H)) H"
  have b1: "bodies ?H1 (dlist H) 2 ps" by (rule bodies_counts [OF b(3)]) simp
  from decls_ok [OF es(4) opt_all_list [OF es(1-3)] b(2) b1 trees_counts [OF b(4)], of False] b(1) obtain H2 ps' B' where
    H2: "rfold (optimize_decl f) (False, ?H1) (dlist H) = Inr (m, H2)" "bodies H2 (dlist H) 2 ps'" "exprs_at H2 ps' es' B'"
      "kept ?H1 B (dlist H) H2" by auto
  have d: "dlist H2 = dlist H" "zeroed H2" using H2(4) b(1) by (simp_all add: kept_def frame_def)
  let ?H3 = "counts (\<lambda>n. n - 1) (set (dlist H2)) H2"
  have "bodies ?H3 (dlist H2) 1 ps'" using H2(2) d(1) by (intro bodies_counts [of _ _ 2]) simp_all
  then have "grammar_at ?H3 1 es'" using trees_counts [OF H2(3)] d b(2) by (auto simp: grammar_at_def)
  then show ?thesis
    using that [of ?H1 H2 ?H3] mark_ok [OF b(2,3)] unused_ok [of H2] H2(1,2) d b(2) by simp
qed

lemma rounds_ok:
  fixes I :: "'s sem"
  assumes "grammar_at H 1 es" "list_all sets_wf es" "list_all no_calls es" "list_all safe es" "weights es < f" "weights es < r"
  shows "\<exists>H' es'. moz_ast_optimize r f H = Inr H' \<and> grammar_at H' 1 es' \<and> dlist H' = dlist H \<and> reduces es' = Some (es', False) \<and>
    weights es' \<le> weights es \<and> list_all2 (peg_equiv D I) es es'"
  using assms
proof (induction r arbitrary: H es)
  case (Suc r)
  obtain es1 m where r: "reduces es = Some (es1, m)" "list_all safe es1" "list_all no_calls es1"
    using reduce_safe(2) [OF Suc.prems(4)] Suc.prems(3) by blast
  from reduce_ok(2) [OF r(1) Suc.prems(2), of D I] have es1: "list_all2 (peg_equiv D I) es es1" "list_all sets_wf es1"
      "m \<longrightarrow> weights es1 < weights es" "\<not> m \<longrightarrow> es1 = es" by auto
  obtain H1 H2 H3 where H: "moz_ast_mark_live_decl H = Inr H1" "rfold (optimize_decl f) (False, H1) (dlist H1) = Inr (m, H2)"
      "moz_ast_remove_unused_decl H2 = Inr H3" "grammar_at H3 1 es1" "dlist H3 = dlist H"
    by (rule round_ok [OF Suc.prems(1,2,3,5) r(1)])
  show ?case
  proof (cases m)
    case True
    then obtain H' es' where "moz_ast_optimize r f H3 = Inr H'" "grammar_at H' 1 es'" "dlist H' = dlist H3"
        "reduces es' = Some (es', False)" "weights es' \<le> weights es1" "list_all2 (peg_equiv D I) es1 es'"
      using Suc.IH [OF H(4) es1(2) r(3,2)] es1(3) Suc.prems(5,6) by auto
    moreover have "list_all2 (peg_equiv D I) es es'" if "list_all2 (peg_equiv D I) es1 es'" for es'
      using list_all2_trans [OF _ es1(1) that] equiv_trans(1) by blast
    ultimately show ?thesis using H True es1(3) by fastforce
  next
    case False
    then show ?thesis using H es1 r(1) by (auto intro!: exI [of _ es])
  qed
qed simp


text \<open>The declaration \<open>A = 'a' 'b' / 'c'\<close>.\<close>

definition example_ast :: ast_heap where
  "example_ast = \<lparr>exprs = [Some (cell1 (N_Byte 97)), Some (cell1 (N_Byte 98)), Some (cell1 (N_Sequence [0, 1])),
      Some (cell1 (N_Byte 99)), Some (cell1 (N_Choice [2, 3]))],
    pdecls = [Some \<lparr>prefc = 1, pname = [65], pbody = Some 4\<rparr>], dlist = [0], zeroed = True\<rparr>"

definition example_expr :: expr where
  "example_expr = E_Choice [E_Sequence [E_Byte 97, E_Byte 98], E_Byte 99]"

lemma exprs_single: "expr_at H q e A \<Longrightarrow> exprs_at H [q] [e] A"
  using expr_at_exprs_at.Cons [OF _ expr_at_exprs_at.Nil] by fastforce

lemma example_tree: "\<exists>A. expr_at example_ast 4 example_expr A"
proof -
  let ?ab = "E_Sequence [E_Byte 97, E_Byte 98]"
  have c: "at_cell example_ast 0 (cell1 (cell_of (E_Byte 97) []))" "at_cell example_ast 1 (cell1 (cell_of (E_Byte 98) []))"
    "at_cell example_ast 2 (cell1 (cell_of ?ab [0, 1]))" "at_cell example_ast 3 (cell1 (cell_of (E_Byte 99) []))"
    "at_cell example_ast 4 (cell1 (cell_of example_expr [2, 3]))"
    by (simp_all add: at_cell_def example_ast_def example_expr_def)
  have leaf: "exprs_at example_ast [] (parts (E_Byte b)) {}" for b by (simp add: expr_at_exprs_at.Nil)
  note l = Node [OF c(1) leaf] Node [OF c(2) leaf] Node [OF c(4) leaf]
  have "exprs_at example_ast [0, 1] (parts ?ab) ({0} \<union> {1})"
    using expr_at_exprs_at.Cons [OF l(1) exprs_single [OF l(2)]] by simp
  from Node [OF c(3) this] have "expr_at example_ast 2 ?ab {2, 0, 1}" by (simp add: insert_commute)
  from expr_at_exprs_at.Cons [OF this exprs_single [OF l(3)]]
  have "exprs_at example_ast [2, 3] (parts example_expr) ({2, 0, 1} \<union> {3})" by (simp add: example_expr_def)
  from Node [OF c(5) this] show ?thesis by fastforce
qed

lemma example_good: "sets_wf example_expr" "no_calls example_expr" "safe example_expr" "weight example_expr < 10"
  by (simp_all add: example_expr_def)

lemma example_grammar: "grammar_at example_ast 1 [example_expr]"
proof -
  obtain A where "expr_at example_ast 4 example_expr A" using example_tree by blast
  then have "exprs_at example_ast [4] [example_expr] A"
    by (rule exprs_single)
  moreover have "bodies example_ast [0] 1 [4]" by (simp add: bodies_def body_at_def example_ast_def)
  ultimately show ?thesis by (auto simp: grammar_at_def example_ast_def)
qed



end
