(* ===== verification/Expr_Front.thy ===== *)
theory Expr_Front
  imports Expr_Opt Node Memory
begin

text \<open>
  From the syntax tree of a grammar to its expressions: the front half of
  \<open>src/src/compiler/expression.c\<close>. The tree is the node heap of \<open>Node\<close>, its tags and texts are in the
  memory of \<open>Memory\<close>. A name or a text in an expression is a pointer into the source; the model
  stores the bytes. \<open>Node_print\<close> before a failing assertion is output.
\<close>

section \<open>Tags and texts\<close>

definition to_hex :: "u8 \<Rightarrow> u32" where
  "to_hex c = (if 48 \<le> c \<and> c \<le> 57 then ucast c - 48
     else if 97 \<le> c \<and> c \<le> 102 then ucast c - 97 + 10
     else if 65 \<le> c \<and> c \<le> 70 then ucast c - 65 + 10
     else - 1)"

definition chars :: "string \<Rightarrow> u8 list" where
  "chars s = map of_char s"

text \<open>\<open>strncmp(p, lit, n) == 0\<close> for a literal of \<open>n\<close> characters, none of them zero.\<close>

fun strncmp_lit :: "mem \<Rightarrow> addr \<Rightarrow> u8 list \<Rightarrow> bool res" where
  "strncmp_lit m p [] = Inr True"
| "strncmp_lit m p (c # cs) = rbind (mread m p) (\<lambda>a. if a \<noteq> c then Inr False else strncmp_lit m (p + 1) cs)"

text \<open>No caller passes NULL as the tag to compare with.\<close>

definition tag_equal :: "mem \<Rightarrow> node_heap \<Rightarrow> nptr \<Rightarrow> string \<Rightarrow> bool res" where
  "tag_equal m h n tag =
     rbind (nread h n) (\<lambda>nd. if ntag nd = 0 then Inr False
       else rbind (pstring_length m (ntag nd)) (\<lambda>len.
         if unat len = length tag then strncmp_lit m (ntag nd) (chars tag) else Inr False))"

definition read_text :: "mem \<Rightarrow> addr \<Rightarrow> nat \<Rightarrow> u8 list res" where
  "read_text m p n = rfold (\<lambda>t i. rbind (mread m (p + i)) (\<lambda>c. Inr (t @ [c]))) [] [0..<n]"

text \<open>\<open>node->pos\<close> with \<open>node->len\<close>.\<close>

definition node_text :: "mem \<Rightarrow> node_heap \<Rightarrow> nptr \<Rightarrow> u8 list res" where
  "node_text m h n = rbind (nread h n) (\<lambda>nd. read_text m (npos nd) (nlen nd))"

section \<open>Characters\<close>

text \<open>The two digits of a hexadecimal escape; \<open>c\<close> is a \<open>uint8_t\<close>.\<close>

definition hex_byte :: "mem \<Rightarrow> addr \<Rightarrow> u8 res" where
  "hex_byte m p =
     rbind (mread m p) (\<lambda>d1. rbind (mread m (p + 1)) (\<lambda>d2.
       let c = ucast (to_hex d1) :: u8
       in Inr (ucast (push_bit 8 (ucast c :: u32) OR to_hex d2))))"

definition parseEscapedChar :: "mem \<Rightarrow> addr \<Rightarrow> u8 option res" where
  "parseEscapedChar m p =
     rbind (mread m p) (\<lambda>c. if c \<noteq> 92 then Inr None else
     rbind (mread m (p + 1)) (\<lambda>c.
       if c = 92 then Inr (Some 92)
       else if c = 98 then Inr (Some 8)
       else if c = 102 then Inr (Some 12)
       else if c = 118 then Inr (Some 11)
       else if c = 110 then Inr (Some 10)
       else if c = 114 then Inr (Some 13)
       else if c = 116 then Inr (Some 9)
       else if c = 120 then rbind (hex_byte m (p + 2)) (\<lambda>c. Inr (Some c))
       else Inr None))"

definition parseUnicode4 :: "mem \<Rightarrow> addr \<Rightarrow> u32 res" where
  "parseUnicode4 m p =
     rbind (mread m p) (\<lambda>a. rbind (mread m (p + 1)) (\<lambda>b. rbind (mread m (p + 2)) (\<lambda>c. rbind (mread m (p + 3)) (\<lambda>d.
       Inr (to_hex a * 4096 + to_hex b * 256 + to_hex c * 16 + to_hex d * 1)))))"

definition parseClass :: "mem \<Rightarrow> addr \<Rightarrow> u32 res" where
  "parseClass m p =
     rbind (mread m p) (\<lambda>c. if c \<noteq> 92 then Inr (ucast c) else
     rbind (mread m (p + 1)) (\<lambda>c.
       if c = 45 then Inr 45
       else if c = 93 then Inr 93
       else if c = 92 then Inr 92
       else if c = 98 then Inr 8
       else if c = 102 then Inr 12
       else if c = 118 then Inr 11
       else if c = 110 then Inr 10
       else if c = 114 then Inr 13
       else if c = 116 then Inr 9
       else if c = 120 then rbind (hex_byte m (p + 2)) (\<lambda>c. Inr (ucast c))
       else if c = 117 then parseUnicode4 m (p + 2)
       else Inr (ucast c)))"

section \<open>Leaves\<close>

text \<open>The environment of the front end: the memory and the nodes, which it only reads.\<close>

record syntax_tree =
  text_mem :: mem
  node_mem :: node_heap

definition node_at :: "syntax_tree \<Rightarrow> nptr \<Rightarrow> node res" where
  "node_at T n = nread (node_mem T) n"

definition tag_is :: "syntax_tree \<Rightarrow> nptr \<Rightarrow> string \<Rightarrow> bool res" where
  "tag_is T n tag = tag_equal (text_mem T) (node_mem T) n tag"

definition text_of :: "syntax_tree \<Rightarrow> nptr \<Rightarrow> u8 list res" where
  "text_of T n = node_text (text_mem T) (node_mem T) n"

definition child_of :: "syntax_tree \<Rightarrow> nptr \<Rightarrow> nat \<Rightarrow> nptr res" where
  "child_of T n i = Node_get (node_mem T) n i"

definition children :: "syntax_tree \<Rightarrow> nptr \<Rightarrow> nat res" where
  "children T n = Node_length (node_mem T) n"

text \<open>The loop over \<open>C->decls\<close> for the first declaration with the name.\<close>

fun find_decl :: "ast_heap \<Rightarrow> u8 list \<Rightarrow> dptr list \<Rightarrow> dptr option res" where
  "find_decl H t [] = Inr None"
| "find_decl H t (d # ds) = rbind (dread H d) (\<lambda>c.
     if length t = length (pname c) \<and> strncmp_list t (pname c) then Inr (Some d) else find_decl H t ds)"

definition compile_Invoke :: "syntax_tree \<Rightarrow> ast_heap \<Rightarrow> nptr \<Rightarrow> (eptr \<times> ast_heap) res" where
  "compile_Invoke T H n =
     rbind (text_of T n) (\<lambda>t. rbind (find_decl H t (dlist H)) (\<lambda>d. moz_expr_new_Invoke H t d))"

definition compile_Any :: "ast_heap \<Rightarrow> (eptr \<times> ast_heap) res" where
  "compile_Any H = moz_expr_new_Any H"

definition compile_Str :: "syntax_tree \<Rightarrow> ast_heap \<Rightarrow> nptr \<Rightarrow> (eptr \<times> ast_heap) res" where
  "compile_Str T H n = rbind (text_of T n) (\<lambda>t. moz_expr_new_Str H t)"

definition compile_InvokeOrStr :: "syntax_tree \<Rightarrow> ast_heap \<Rightarrow> nptr \<Rightarrow> (eptr \<times> ast_heap) res" where
  "compile_InvokeOrStr T H n =
     rbind (text_of T n) (\<lambda>t. rbind (find_decl H t (dlist H)) (\<lambda>d.
       if d \<noteq> None then compile_Invoke T H n else compile_Str T H n))"

definition compile_Empty :: "ast_heap \<Rightarrow> (eptr \<times> ast_heap) res" where
  "compile_Empty H = moz_expr_new_Empty H"

definition compile_Byte :: "syntax_tree \<Rightarrow> ast_heap \<Rightarrow> nptr \<Rightarrow> (eptr \<times> ast_heap) res" where
  "compile_Byte T H n =
     rbind (children T n) (\<lambda>k. rbind (rassert (k = 0)) (\<lambda>_. rbind (node_at T n) (\<lambda>nd.
       if nlen nd = 0 then compile_Empty H
       else rbind (mread (text_mem T) (npos nd)) (\<lambda>byte.
         if nlen nd = 1 then moz_expr_new_Byte H byte
         else rbind (parseEscapedChar (text_mem T) (npos nd)) (\<lambda>c. case c of
             Some byte \<Rightarrow> moz_expr_new_Byte H byte
           | None \<Rightarrow> compile_Str T H n)))))"

text \<open>One turn of the loop of \<open>compile_Set\<close>: the pair for an element.\<close>

definition class_pair :: "syntax_tree \<Rightarrow> nptr \<Rightarrow> (u32 \<times> u32) res" where
  "class_pair T child =
     rbind (tag_is T child ''Class'') (\<lambda>b.
       if b then rbind (node_at T child) (\<lambda>nd. rbind (parseClass (text_mem T) (npos nd)) (\<lambda>ch. Inr (ch, ch)))
       else rbind (tag_is T child ''List'') (\<lambda>b. rbind (rassert b) (\<lambda>_.
         rbind (children T child) (\<lambda>k. rbind (rassert (k = 2)) (\<lambda>_.
         rbind (child_of T child 0) (\<lambda>left. rbind (child_of T child 1) (\<lambda>right.
         rbind (node_at T left) (\<lambda>l. rbind (parseClass (text_mem T) (npos l)) (\<lambda>ch1.
         rbind (node_at T right) (\<lambda>r. rbind (parseClass (text_mem T) (npos r)) (\<lambda>ch2.
           Inr (if ch1 > ch2 then (ch2, ch1) else (ch1, ch2)))))))))))))"

definition compile_Set :: "syntax_tree \<Rightarrow> ast_heap \<Rightarrow> nptr \<Rightarrow> (eptr \<times> ast_heap) res" where
  "compile_Set T H n =
     rbind (children T n) (\<lambda>len. rbind (rassert (len > 0)) (\<lambda>_.
     rbind (rfold (\<lambda>ps i. rbind (child_of T n i) (\<lambda>child. rbind (class_pair T child) (\<lambda>p. Inr (ps @ [p])))) [] [0..<len]) (\<lambda>data.
       if len = 1 \<and> fst (data ! 0) = snd (data ! 0) then
         (if fst (data ! 0) < 256 then moz_expr_new_Byte H (ucast (fst (data ! 0))) else Inl AssertFail)
       else moz_expr_new_Set H data)))"

section \<open>Expressions with parts\<close>

type_synonym compile_fun = "ast_heap \<Rightarrow> nptr \<Rightarrow> (eptr \<times> ast_heap) res"

text \<open>The list of \<open>e\<close> is filled while the parts are compiled.\<close>

definition compile_elem :: "compile_fun \<Rightarrow> syntax_tree \<Rightarrow> nptr \<Rightarrow> eptr \<Rightarrow> ast_heap \<Rightarrow> nat \<Rightarrow> ast_heap res" where
  "compile_elem rec T n e H i =
     rbind (child_of T n i) (\<lambda>child. rbind (rec H child) (\<lambda>(x, H). rbind (list_add H e x) (\<lambda>H. expr_retain H x)))"

definition compile_List :: "compile_fun \<Rightarrow> syntax_tree \<Rightarrow> ast_heap \<Rightarrow> nptr \<Rightarrow> eptr \<Rightarrow> ast_heap res" where
  "compile_List rec T H n e = rbind (children T n) (\<lambda>len. rfold (compile_elem rec T n e) H [0..<len])"

text \<open>The single part of \<open>And\<close>, \<open>Not\<close>, \<open>Option\<close> and \<open>Xblock\<close>.\<close>

definition compile_part :: "compile_fun \<Rightarrow> syntax_tree \<Rightarrow> ast_heap \<Rightarrow> nptr \<Rightarrow> nat \<Rightarrow> (eptr \<times> ast_heap) res" where
  "compile_part rec T H n i = rbind (child_of T n i) (\<lambda>child. rec H child)"

definition compile_And :: "compile_fun \<Rightarrow> syntax_tree \<Rightarrow> ast_heap \<Rightarrow> nptr \<Rightarrow> (eptr \<times> ast_heap) res" where
  "compile_And rec T H n = rbind (children T n) (\<lambda>k. rbind (rassert (k = 1)) (\<lambda>_.
     rbind (compile_part rec T H n 0) (\<lambda>(x, H). moz_expr_new_And H x)))"

definition compile_Choice :: "compile_fun \<Rightarrow> syntax_tree \<Rightarrow> ast_heap \<Rightarrow> nptr \<Rightarrow> (eptr \<times> ast_heap) res" where
  "compile_Choice rec T H n =
     rbind (moz_expr_new_Choice H) (\<lambda>(e, H). rbind (compile_List rec T H n e) (\<lambda>H. Inr (e, H)))"

definition compile_Fail :: "ast_heap \<Rightarrow> (eptr \<times> ast_heap) res" where
  "compile_Fail H = rbind (rassert False) (\<lambda>_. moz_expr_new_Fail H)"

definition compile_Not :: "compile_fun \<Rightarrow> syntax_tree \<Rightarrow> ast_heap \<Rightarrow> nptr \<Rightarrow> (eptr \<times> ast_heap) res" where
  "compile_Not rec T H n = rbind (children T n) (\<lambda>k. rbind (rassert (k = 1)) (\<lambda>_.
     rbind (compile_part rec T H n 0) (\<lambda>(x, H). moz_expr_new_Not H x)))"

definition compile_Option :: "compile_fun \<Rightarrow> syntax_tree \<Rightarrow> ast_heap \<Rightarrow> nptr \<Rightarrow> (eptr \<times> ast_heap) res" where
  "compile_Option rec T H n = rbind (children T n) (\<lambda>k. rbind (rassert (k = 1)) (\<lambda>_.
     rbind (compile_part rec T H n 0) (\<lambda>(x, H). moz_expr_new_Option H x)))"

definition compile_Sequence :: "compile_fun \<Rightarrow> syntax_tree \<Rightarrow> ast_heap \<Rightarrow> nptr \<Rightarrow> (eptr \<times> ast_heap) res" where
  "compile_Sequence rec T H n =
     rbind (moz_expr_new_Sequence H) (\<lambda>(e, H). rbind (compile_List rec T H n e) (\<lambda>H. Inr (e, H)))"

definition compile_Repetition :: "compile_fun \<Rightarrow> syntax_tree \<Rightarrow> ast_heap \<Rightarrow> nptr \<Rightarrow> (eptr \<times> ast_heap) res" where
  "compile_Repetition rec T H n =
     rbind (moz_expr_new_Repetition H) (\<lambda>(e, H). rbind (children T n) (\<lambda>k. rbind (rassert (k = 1)) (\<lambda>_.
     rbind (compile_List rec T H n e) (\<lambda>H. Inr (e, H)))))"

text \<open>The elements of the repetition become elements of the sequence too.\<close>

definition add_shared :: "eptr \<Rightarrow> ast_heap \<Rightarrow> eptr \<Rightarrow> ast_heap res" where
  "add_shared e H x = rbind (list_add H e x) (\<lambda>H. expr_retain H x)"

definition compile_Repetition1 :: "compile_fun \<Rightarrow> syntax_tree \<Rightarrow> ast_heap \<Rightarrow> nptr \<Rightarrow> (eptr \<times> ast_heap) res" where
  "compile_Repetition1 rec T H n =
     rbind (EXPR_ALLOC H (N_Sequence [])) (\<lambda>(e, H). rbind (compile_Repetition rec T H n) (\<lambda>(rep, H).
     rbind (etype H rep) (\<lambda>t. rbind (rassert (case t of N_Repetition _ \<Rightarrow> True | _ \<Rightarrow> False)) (\<lambda>_.
     rbind (get_list H rep) (\<lambda>es. rbind (rfold (add_shared e) H es) (\<lambda>H.
     rbind (add_shared e H rep) (\<lambda>H. Inr (e, H))))))))"

definition compile_Tlink :: "compile_fun \<Rightarrow> syntax_tree \<Rightarrow> ast_heap \<Rightarrow> nptr \<Rightarrow> (eptr \<times> ast_heap) res" where
  "compile_Tlink rec T H n =
     rbind (moz_expr_new_Sequence H) (\<lambda>(seq, H). rbind (children T n) (\<lambda>k.
     rbind (if k = 1 then rbind (child_of T n 0) (\<lambda>child. Inr (child, []))
            else rbind (child_of T n 0) (\<lambda>label. rbind (text_of T label) (\<lambda>str.
              rbind (child_of T n 1) (\<lambda>child. Inr (child, str))))) (\<lambda>(child, str).
     rbind (moz_expr_new_Tpush H) (\<lambda>(push, H). rbind (rec H child) (\<lambda>(body, H). rbind (moz_expr_new_Tpop H str) (\<lambda>(pop, H).
     rbind (expr_retain H push) (\<lambda>H. rbind (expr_retain H body) (\<lambda>H. rbind (expr_retain H pop) (\<lambda>H.
     rbind (list_add H seq push) (\<lambda>H. rbind (list_add H seq body) (\<lambda>H. rbind (list_add H seq pop) (\<lambda>H.
       Inr (seq, H)))))))))))))"

definition compile_Tnew :: "compile_fun \<Rightarrow> syntax_tree \<Rightarrow> ast_heap \<Rightarrow> nptr \<Rightarrow> (eptr \<times> ast_heap) res" where
  "compile_Tnew rec T H n =
     rbind (EXPR_ALLOC H (N_Sequence [])) (\<lambda>(seq, H). rbind (moz_expr_new_Tnew H) (\<lambda>(tnew, H).
     rbind (moz_expr_new_Tcapture H) (\<lambda>(tcap, H). rbind (compile_part rec T H n 0) (\<lambda>(body, H).
     rbind (list_add H seq tnew) (\<lambda>H. rbind (list_add H seq body) (\<lambda>H. rbind (list_add H seq tcap) (\<lambda>H.
     rbind (expr_retain H tnew) (\<lambda>H. rbind (expr_retain H body) (\<lambda>H. rbind (expr_retain H tcap) (\<lambda>H.
       Inr (seq, H)))))))))))"

definition compile_Ttag :: "syntax_tree \<Rightarrow> ast_heap \<Rightarrow> nptr \<Rightarrow> (eptr \<times> ast_heap) res" where
  "compile_Ttag T H n = rbind (text_of T n) (\<lambda>t. moz_expr_new_Ttag H t)"

definition compile_Xblock :: "compile_fun \<Rightarrow> syntax_tree \<Rightarrow> ast_heap \<Rightarrow> nptr \<Rightarrow> (eptr \<times> ast_heap) res" where
  "compile_Xblock rec T H n = rbind (compile_part rec T H n 0) (\<lambda>(x, H). moz_expr_new_Xblock H x)"

text \<open>\<open>Xexists\<close>, \<open>Xis\<close> and \<open>Xisa\<close> take the text of the first part.\<close>

definition part_text :: "syntax_tree \<Rightarrow> nptr \<Rightarrow> u8 list res" where
  "part_text T n = rbind (child_of T n 0) (\<lambda>name. text_of T name)"

definition compile_Xexists :: "syntax_tree \<Rightarrow> ast_heap \<Rightarrow> nptr \<Rightarrow> (eptr \<times> ast_heap) res" where
  "compile_Xexists T H n = rbind (part_text T n) (\<lambda>t. moz_expr_new_Xexists H t)"

definition compile_Xis :: "syntax_tree \<Rightarrow> ast_heap \<Rightarrow> nptr \<Rightarrow> (eptr \<times> ast_heap) res" where
  "compile_Xis T H n = rbind (part_text T n) (\<lambda>t. moz_expr_new_Xis H t)"

definition compile_Xisa :: "syntax_tree \<Rightarrow> ast_heap \<Rightarrow> nptr \<Rightarrow> (eptr \<times> ast_heap) res" where
  "compile_Xisa T H n = rbind (part_text T n) (\<lambda>t. moz_expr_new_Xisa H t)"

definition compile_Xlocal :: "compile_fun \<Rightarrow> syntax_tree \<Rightarrow> ast_heap \<Rightarrow> nptr \<Rightarrow> (eptr \<times> ast_heap) res" where
  "compile_Xlocal rec T H n =
     rbind (compile_part rec T H n 1) (\<lambda>(x, H). rbind (part_text T n) (\<lambda>t. moz_expr_new_Xlocal H t x))"

definition compile_Xsymbol :: "compile_fun \<Rightarrow> syntax_tree \<Rightarrow> ast_heap \<Rightarrow> nptr \<Rightarrow> (eptr \<times> ast_heap) res" where
  "compile_Xsymbol rec T H n =
     rbind (compile_part rec T H n 1) (\<lambda>(x, H). rbind (part_text T n) (\<lambda>t. moz_expr_new_Xsymbol H t x))"

section \<open>The dispatch\<close>

text \<open>The chain of \<open>if (tag_equal(node, "..."))\<close> as a list of the tags and what follows them.\<close>

fun first_tag :: "syntax_tree \<Rightarrow> nptr \<Rightarrow> (string \<times> 'a) list \<Rightarrow> 'a res" where
  "first_tag T n [] = Inl AssertFail"
| "first_tag T n ((tag, x) # cs) = rbind (tag_is T n tag) (\<lambda>b. if b then Inr x else first_tag T n cs)"

definition handlers :: "compile_fun \<Rightarrow> syntax_tree \<Rightarrow> (string \<times> compile_fun) list" where
  "handlers rec T =
     [(''NonTerminal'', compile_Invoke T),
      (''Any'', \<lambda>H n. compile_Any H),
      (''Character'', compile_Byte T),
      (''String'', compile_InvokeOrStr T),
      (''Class'', compile_Set T),
      (''And'', compile_And rec T),
      (''Choice'', compile_Choice rec T),
      (''Empty'', \<lambda>H n. compile_Empty H),
      (''Fail'', \<lambda>H n. compile_Fail H),
      (''Not'', compile_Not rec T),
      (''Option'', compile_Option rec T),
      (''Sequence'', compile_Sequence rec T),
      (''Repetition'', compile_Repetition rec T),
      (''Repetition1'', compile_Repetition1 rec T),
      (''Tcapture'', \<lambda>H n. moz_expr_new_Tcapture H),
      (''Tdetree'', \<lambda>H n. moz_expr_new_todo H N_Tdetree),
      (''Tlfold'', \<lambda>H n. moz_expr_new_todo H N_Tlfold),
      (''Link'', compile_Tlink rec T),
      (''label'', compile_Tlink rec T),
      (''New'', compile_Tnew rec T),
      (''Replace'', \<lambda>H n. moz_expr_new_todo H N_Treplace),
      (''Tagging'', compile_Ttag T),
      (''Block'', compile_Xblock rec T),
      (''Exists'', compile_Xexists T),
      (''If'', \<lambda>H n. moz_expr_new_todo H N_Xif),
      (''Is'', compile_Xis T),
      (''Isa'', compile_Xisa T),
      (''Local'', compile_Xlocal rec T),
      (''Xmatch'', \<lambda>H n. moz_expr_new_todo H N_Xmatch),
      (''Xon'', \<lambda>H n. moz_expr_new_todo H N_Xon),
      (''Def'', compile_Xsymbol rec T),
      (''Sym'', compile_Xsymbol rec T)]"

text \<open>The budget bounds the depth of the syntax tree.\<close>

fun compile_expression :: "nat \<Rightarrow> syntax_tree \<Rightarrow> compile_fun" where
  "compile_expression 0 T H n = Inl NoFuel"
| "compile_expression (Suc f) T H n =
     rbind (first_tag T n (handlers (compile_expression f T) T)) (\<lambda>compile. compile H n)"

section \<open>The declarations\<close>

text \<open>\<open>MOZ_RC_INIT_FIELD(decl->body, ...)\<close>\<close>

definition compile_production :: "nat \<Rightarrow> syntax_tree \<Rightarrow> ast_heap \<Rightarrow> nptr \<Rightarrow> dptr \<Rightarrow> ast_heap res" where
  "compile_production f T H n d =
     rbind (child_of T n 2) (\<lambda>child. rbind (compile_expression f T H child) (\<lambda>(x, H).
     rbind (dread H d) (\<lambda>c. rbind (rassert (pbody c = None)) (\<lambda>_.
     rbind (dwrite H d (Some (c\<lparr>pbody := Some x\<rparr>))) (\<lambda>H. expr_retain H x)))))"

definition prepare_child :: "syntax_tree \<Rightarrow> nptr \<Rightarrow> ast_heap \<Rightarrow> nat \<Rightarrow> ast_heap res" where
  "prepare_child T n H i =
     rbind (child_of T n i) (\<lambda>child. rbind (tag_is T child ''Production'') (\<lambda>b. if \<not> b then Inr H else
     rbind (children T child) (\<lambda>k. rbind (rassert (k = 3)) (\<lambda>_.
     rbind (child_of T child 1) (\<lambda>name. rbind (tag_is T name ''Name'') (\<lambda>b1.
     rbind (if b1 then Inr True else tag_is T name ''String'') (\<lambda>b2. rbind (rassert b2) (\<lambda>_.
     rbind (text_of T name) (\<lambda>t. rbind (moz_decl_new H t) (\<lambda>(d, H). Inr H))))))))))"

definition moz_ast_prepare :: "syntax_tree \<Rightarrow> ast_heap \<Rightarrow> nptr \<Rightarrow> ast_heap res" where
  "moz_ast_prepare T H n =
     rbind (children T n) (\<lambda>size. rbind (rfold (prepare_child T n) H [0..<size]) (\<lambda>H.
       if length (dlist H) > 0 then moz_decl_mark_as_top_level H (dlist H ! 0) else Inr H))"

text \<open>Comments and formats are skipped.\<close>

definition production_child :: "nat \<Rightarrow> syntax_tree \<Rightarrow> nptr \<Rightarrow> nat \<times> ast_heap \<Rightarrow> nat \<Rightarrow> (nat \<times> ast_heap) res" where
  "production_child f T n st i = (case st of (decl_index, H) \<Rightarrow>
     rbind (child_of T n i) (\<lambda>child. rbind (tag_is T child ''Comment'') (\<lambda>_. rbind (tag_is T child ''Production'') (\<lambda>b.
     rbind (if b then rbind (aread (dlist H) decl_index) (\<lambda>d. rbind (compile_production f T H child d) (\<lambda>H. Inr (decl_index + 1, H)))
            else Inr (decl_index, H)) (\<lambda>st. rbind (tag_is T child ''Format'') (\<lambda>_. Inr st))))))"

text \<open>\<open>moz_node_to_ast\<close> up to the call of the optimiser.\<close>

definition node_to_ast :: "nat \<Rightarrow> syntax_tree \<Rightarrow> ast_heap \<Rightarrow> nptr \<Rightarrow> ast_heap res" where
  "node_to_ast f T H n =
     rbind (children T n) (\<lambda>size. rbind (moz_ast_prepare T H n) (\<lambda>H.
     rbind (rfold (production_child f T n) (0, H) [0..<size]) (\<lambda>(_, H). Inr H)))"

definition moz_node_to_ast :: "nat \<Rightarrow> nat \<Rightarrow> nat \<Rightarrow> syntax_tree \<Rightarrow> ast_heap \<Rightarrow> nptr \<Rightarrow> ast_heap res" where
  "moz_node_to_ast f r g T H n = rbind (node_to_ast f T H n) (\<lambda>H. moz_ast_optimize r g H)"

end
