(* ===== verification/Expr_Build.thy ===== *)
theory Expr_Build
  imports Expr_Result Expr_Front
begin

text \<open>
  What the front end of \<open>src/src/compiler/expression.c\<close> builds: the expressions of a syntax tree as a
  function, and the proof that the cells on the heap are a tree of exactly that expression, that
  nothing else changes, and that every declaration counts the calls to it. A repetition that occurs
  at least once shares its expressions and is treated apart.
\<close>

section \<open>What a syntax tree means\<close>

definition spec_text :: "syntax_tree \<Rightarrow> (u8 list \<Rightarrow> expr res) \<Rightarrow> nptr \<Rightarrow> expr res" where
  "spec_text T K n = rbind (text_of T n) K"

definition spec_str :: "u8 list \<Rightarrow> expr res" where
  "spec_str t = rbind (rassert (length t > 0)) (\<lambda>_. Inr (E_Str t))"

definition spec_call :: "(u8 list \<Rightarrow> dptr option) \<Rightarrow> u8 list \<Rightarrow> expr res" where
  "spec_call look t = Inr (E_Invoke t (look t))"

definition spec_byte :: "syntax_tree \<Rightarrow> nptr \<Rightarrow> expr res" where
  "spec_byte T n =
     rbind (children T n) (\<lambda>k. rbind (rassert (k = 0)) (\<lambda>_. rbind (node_at T n) (\<lambda>nd.
       if nlen nd = 0 then Inr E_Empty
       else rbind (mread (text_mem T) (npos nd)) (\<lambda>byte.
         if nlen nd = 1 then Inr (E_Byte byte)
         else rbind (parseEscapedChar (text_mem T) (npos nd)) (\<lambda>c. case c of
             Some byte \<Rightarrow> Inr (E_Byte byte)
           | None \<Rightarrow> spec_text T spec_str n)))))"

definition spec_set :: "syntax_tree \<Rightarrow> nptr \<Rightarrow> expr res" where
  "spec_set T n =
     rbind (children T n) (\<lambda>len. rbind (rassert (len > 0)) (\<lambda>_.
     rbind (rfold (\<lambda>ps i. rbind (child_of T n i) (\<lambda>child. rbind (class_pair T child) (\<lambda>p. Inr (ps @ [p])))) [] [0..<len]) (\<lambda>data.
       if len = 1 \<and> fst (data ! 0) = snd (data ! 0) then
         (if fst (data ! 0) < 256 then Inr (E_Byte (ucast (fst (data ! 0)))) else Inl AssertFail)
       else rbind (rfold set_range no_bytes data) (\<lambda>s. Inr (E_Set s)))))"

definition spec_list :: "(nptr \<Rightarrow> expr res) \<Rightarrow> syntax_tree \<Rightarrow> nptr \<Rightarrow> expr list res" where
  "spec_list rec T n = rbind (children T n) (\<lambda>len.
     rfold (\<lambda>es i. rbind (child_of T n i) (\<lambda>child. rbind (rec child) (\<lambda>e. Inr (es @ [e])))) [] [0..<len])"

definition spec_only :: "(nptr \<Rightarrow> expr res) \<Rightarrow> syntax_tree \<Rightarrow> (expr \<Rightarrow> expr) \<Rightarrow> nptr \<Rightarrow> expr res" where
  "spec_only rec T K n = rbind (children T n) (\<lambda>k. rbind (rassert (k = 1)) (\<lambda>_.
     rbind (child_of T n 0) (\<lambda>child. rbind (rec child) (\<lambda>e. Inr (K e)))))"

definition spec_link :: "(nptr \<Rightarrow> expr res) \<Rightarrow> syntax_tree \<Rightarrow> nptr \<Rightarrow> expr res" where
  "spec_link rec T n = rbind (children T n) (\<lambda>k.
     rbind (if k = 1 then rbind (child_of T n 0) (\<lambda>child. Inr (child, []))
            else rbind (child_of T n 0) (\<lambda>label. rbind (text_of T label) (\<lambda>str.
              rbind (child_of T n 1) (\<lambda>child. Inr (child, str))))) (\<lambda>(child, str).
     rbind (rec child) (\<lambda>e. Inr (E_Sequence [E_Tpush, e, E_Tpop str]))))"

definition spec_new :: "(nptr \<Rightarrow> expr res) \<Rightarrow> syntax_tree \<Rightarrow> nptr \<Rightarrow> expr res" where
  "spec_new rec T n = rbind (child_of T n 0) (\<lambda>child. rbind (rec child) (\<lambda>e. Inr (E_Sequence [E_Tnew, e, E_Tcapture])))"

definition spec_block :: "(nptr \<Rightarrow> expr res) \<Rightarrow> syntax_tree \<Rightarrow> nptr \<Rightarrow> expr res" where
  "spec_block rec T n = rbind (child_of T n 0) (\<lambda>child. rbind (rec child) (\<lambda>e. Inr (E_Xblock e)))"

definition spec_name :: "syntax_tree \<Rightarrow> (u8 list \<Rightarrow> expr) \<Rightarrow> nptr \<Rightarrow> expr res" where
  "spec_name T K n = rbind (part_text T n) (\<lambda>t. Inr (K t))"

definition spec_named :: "(nptr \<Rightarrow> expr res) \<Rightarrow> syntax_tree \<Rightarrow> (u8 list \<Rightarrow> expr \<Rightarrow> expr) \<Rightarrow> nptr \<Rightarrow> expr res" where
  "spec_named rec T K n =
     rbind (child_of T n 1) (\<lambda>child. rbind (rec child) (\<lambda>e. rbind (part_text T n) (\<lambda>t. Inr (K t e))))"

definition spec_handlers :: "(nptr \<Rightarrow> expr res) \<Rightarrow> syntax_tree \<Rightarrow> (u8 list \<Rightarrow> dptr option) \<Rightarrow> (string \<times> (nptr \<Rightarrow> expr res)) list" where
  "spec_handlers rec T look =
     [(''NonTerminal'', spec_text T (spec_call look)),
      (''Any'', \<lambda>n. Inr E_Any),
      (''Character'', spec_byte T),
      (''String'', spec_text T (\<lambda>t. if look t \<noteq> None then spec_call look t else spec_str t)),
      (''Class'', spec_set T),
      (''And'', spec_only rec T E_And),
      (''Choice'', \<lambda>n. rbind (spec_list rec T n) (\<lambda>es. Inr (E_Choice es))),
      (''Empty'', \<lambda>n. Inr E_Empty),
      (''Fail'', \<lambda>n. Inl AssertFail),
      (''Not'', spec_only rec T E_Not),
      (''Option'', spec_only rec T E_Option),
      (''Sequence'', \<lambda>n. rbind (spec_list rec T n) (\<lambda>es. Inr (E_Sequence es))),
      (''Repetition'', spec_only rec T (\<lambda>e. E_Repetition [e])),
      (''Repetition1'', \<lambda>n. Inl BadSlot),
      (''Tcapture'', \<lambda>n. Inr E_Tcapture),
      (''Tdetree'', \<lambda>n. Inl AssertFail),
      (''Tlfold'', \<lambda>n. Inl AssertFail),
      (''Link'', spec_link rec T),
      (''label'', spec_link rec T),
      (''New'', spec_new rec T),
      (''Replace'', \<lambda>n. Inl AssertFail),
      (''Tagging'', spec_text T (\<lambda>t. Inr (E_Ttag t))),
      (''Block'', spec_block rec T),
      (''Exists'', spec_name T E_Xexists),
      (''If'', \<lambda>n. Inl AssertFail),
      (''Is'', spec_name T E_Xis),
      (''Isa'', spec_name T E_Xisa),
      (''Local'', spec_named rec T E_Xlocal),
      (''Xmatch'', \<lambda>n. Inl AssertFail),
      (''Xon'', \<lambda>n. Inl AssertFail),
      (''Def'', spec_named rec T E_Xsymbol),
      (''Sym'', spec_named rec T E_Xsymbol)]"

fun spec_expr :: "nat \<Rightarrow> syntax_tree \<Rightarrow> (u8 list \<Rightarrow> dptr option) \<Rightarrow> nptr \<Rightarrow> expr res" where
  "spec_expr 0 T look n = Inl NoFuel"
| "spec_expr (Suc f) T look n = rbind (first_tag T n (spec_handlers (spec_expr f T look) T look)) (\<lambda>meaning. meaning n)"

section \<open>What is built\<close>

fun calls :: "dptr \<Rightarrow> expr \<Rightarrow> nat" where
  "calls d (E_Invoke _ x) = (if x = Some d then 1 else 0)"
| "calls d (E_And e) = calls d e"
| "calls d (E_Not e) = calls d e"
| "calls d (E_Option e) = calls d e"
| "calls d (E_Xblock e) = calls d e"
| "calls d (E_Xlocal _ e) = calls d e"
| "calls d (E_Xsymbol _ e) = calls d e"
| "calls d (E_Choice es) = (\<Sum>e \<leftarrow> es. calls d e)"
| "calls d (E_Sequence es) = (\<Sum>e \<leftarrow> es. calls d e)"
| "calls d (E_Repetition es) = (\<Sum>e \<leftarrow> es. calls d e)"
| "calls d _ = 0"

text \<open>The counts of the declarations go up, and nothing old changes on the heap.\<close>

definition bump :: "(dptr \<Rightarrow> nat) \<Rightarrow> pdecl option list \<Rightarrow> pdecl option list" where
  "bump k ds = map (\<lambda>d. map_option (\<lambda>c. c\<lparr>prefc := prefc c + k d\<rparr>) (ds ! d)) [0..<length ds]"

definition extends :: "ast_heap \<Rightarrow> (dptr \<Rightarrow> nat) \<Rightarrow> ast_heap \<Rightarrow> bool" where
  "extends H k H' \<longleftrightarrow> pdecls H' = bump k (pdecls H) \<and> dlist H' = dlist H \<and> zeroed H' = zeroed H \<and>
     length (exprs H) \<le> length (exprs H') \<and> (\<forall>q < length (exprs H). exprs H' ! q = exprs H ! q)"

lemma length_bump [simp]: "length (bump k ds) = length ds"
  by (simp add: bump_def)

lemma nth_bump: "d < length ds \<Longrightarrow> bump k ds ! d = map_option (\<lambda>c. c\<lparr>prefc := prefc c + k d\<rparr>) (ds ! d)"
  by (simp add: bump_def)

lemma bump_0 [simp]: "bump (\<lambda>d. 0) ds = ds"
  by (auto intro!: nth_equalityI simp: nth_bump option.map_ident_strong)

lemma bump_bump: "bump j (bump k ds) = bump (\<lambda>d. k d + j d) ds"
  by (auto intro!: nth_equalityI simp: nth_bump option.map_comp comp_def add.assoc)

lemma extends_refl [simp]: "extends H (\<lambda>d. 0) H"
  by (simp add: extends_def)

lemma extends_trans: "extends H k G \<Longrightarrow> extends G j H' \<Longrightarrow> extends H (\<lambda>d. k d + j d) H'"
  by (auto simp: extends_def bump_bump)

lemma extends_halloc: "extends H k G \<Longrightarrow> extends H k (halloc G n)"
  by (auto simp: extends_def halloc_def nth_append)

lemma extends_hput: "extends H k G \<Longrightarrow> length (exprs H) \<le> p \<Longrightarrow> extends H k (hput G p x)"
  by (auto simp: extends_def hput_def)

lemma extends_at: "extends H k H' \<Longrightarrow> at_cell H p c \<Longrightarrow> at_cell H' p c"
  by (simp add: extends_def at_cell_def)

lemma extends_tree:
  "extends H k H' \<Longrightarrow> expr_at H p e A \<Longrightarrow> expr_at H' p e A"
  "extends H k H' \<Longrightarrow> exprs_at H ps es A \<Longrightarrow> exprs_at H' ps es A"
  by (erule tree_frame; auto intro: extends_at)+

lemma extends_length: "extends H k H' \<Longrightarrow> length (exprs H) \<le> length (exprs H')"
  by (simp add: extends_def)

text \<open>A new expression: its own cell is not yet counted.\<close>

definition fresh_at :: "ast_heap \<Rightarrow> eptr \<Rightarrow> expr \<Rightarrow> eptr set \<Rightarrow> bool" where
  "fresh_at H p e A \<longleftrightarrow> (\<exists>qs B. at_cell H p (cell0 (cell_of e qs)) \<and> exprs_at H qs (parts e) B \<and> p \<notin> B \<and> A = insert p B)"

definition built :: "ast_heap \<Rightarrow> expr \<Rightarrow> eptr \<Rightarrow> ast_heap \<Rightarrow> bool" where
  "built H e p H' \<longleftrightarrow> extends H (\<lambda>d. calls d e) H' \<and> (\<exists>A. fresh_at H' p e A \<and> A \<subseteq> {length (exprs H)..})"

text \<open>The names of the declarations are those that \<open>look\<close> knows.\<close>

definition named :: "(u8 list \<Rightarrow> dptr option) \<Rightarrow> ast_heap \<Rightarrow> bool" where
  "named look H \<longleftrightarrow> (\<forall>t. find_decl H t (dlist H) = Inr (look t)) \<and>
     (\<forall>t d. look t = Some d \<longrightarrow> d < length (pdecls H) \<and> pdecls H ! d \<noteq> None)"

definition builds :: "(u8 list \<Rightarrow> dptr option) \<Rightarrow> compile_fun \<Rightarrow> (nptr \<Rightarrow> expr res) \<Rightarrow> bool" where
  "builds look act spec \<longleftrightarrow> (\<forall>H n e. named look H \<longrightarrow> spec n = Inr e \<longrightarrow> (\<exists>p H'. act H n = Inr (p, H') \<and> built H e p H'))"

lemma dread_bump: "pdecls H' = bump k (pdecls H) \<Longrightarrow>
    dread H' d = rbind (dread H d) (\<lambda>c. Inr (c\<lparr>prefc := prefc c + k d\<rparr>))"
  by (auto simp: dread_def aread_def nth_bump split: option.splits)

lemma find_decl_bump: "pdecls H' = bump k (pdecls H) \<Longrightarrow> find_decl H' t ds = find_decl H t ds"
proof (induction ds)
  case (Cons d ds)
  then show ?case by (cases "dread H d") (simp_all add: dread_bump [OF Cons.prems])
qed simp

lemma named_extends: "named look H \<Longrightarrow> extends H k H' \<Longrightarrow> named look H'"
  unfolding named_def extends_def by (auto simp: find_decl_bump nth_bump)

section \<open>Expressions without parts and with one\<close>

lemma fresh_less: "fresh_at H p e A \<Longrightarrow> p < length (exprs H)"
  by (auto simp: fresh_at_def dest: at_less)

lemma fresh_frame:
  assumes "fresh_at H p e A" "\<And>q c. q \<in> A \<Longrightarrow> at_cell H q c \<Longrightarrow> at_cell H' q c"
  shows "fresh_at H' p e A"
proof -
  from assms(1) obtain qs B where c: "at_cell H p (cell0 (cell_of e qs))" "exprs_at H qs (parts e) B" "p \<notin> B" "A = insert p B"
    by (auto simp: fresh_at_def)
  then have "exprs_at H' qs (parts e) B" using assms(2) by (intro tree_frame(2) [OF c(2)]) auto
  with c assms(2) show ?thesis unfolding fresh_at_def by blast
qed

lemma fresh_retain:
  assumes "fresh_at H p e A"
  obtains x where "expr_retain H p = Inr (hput H p (Some x))" "expr_at (hput H p (Some x)) p e A"
proof -
  from assms obtain qs B where c: "at_cell H p (cell0 (cell_of e qs))" "exprs_at H qs (parts e) B" "p \<notin> B" "A = insert p B"
    by (auto simp: fresh_at_def)
  have "exprs_at (hput H p (Some (cell1 (cell_of e qs)))) qs (parts e) B"
    using c(3) by (intro tree_frame(2) [OF c(2)]) (metis at_hput(2))
  then have "expr_at (hput H p (Some (cell1 (cell_of e qs)))) p e A"
    using Node [of _ p e qs B] c at_less [OF c(1)] by simp
  moreover have "expr_retain H p = Inr (hput H p (Some (cell1 (cell_of e qs))))"
    using at_ops(6) [OF c(1)] by (simp add: cell0_def cell1_def)
  ultimately show ?thesis by (rule that [rotated])
qed

lemma leaf_built:
  assumes "parts e = []" "cell_of e [] = n" "\<And>d. calls d e = 0"
  shows "\<exists>p H'. EXPR_ALLOC H n = Inr (p, H') \<and> built H e p H'"
proof -
  have "fresh_at (halloc H n) (length (exprs H)) e {length (exprs H)}"
    using assms(1,2) unfolding fresh_at_def by (intro exI [of _ "[]"] exI [of _ "{}"]) simp
  moreover have "extends H (\<lambda>d. calls d e) (halloc H n)" using assms(3) by (simp add: extends_halloc)
  ultimately show ?thesis by (auto simp: halloc_runs(1) built_def)
qed

lemma alloc1_built:
  assumes x: "built H x p G" and e: "parts e = [x]" "cell_of e [p] = K p" "\<And>d. calls d e = calls d x"
  shows "\<exists>q H'. expr_alloc1 G K p = Inr (q, H') \<and> built H e q H'"
proof -
  from x obtain A where A: "extends H (\<lambda>d. calls d x) G" "fresh_at G p x A" "A \<subseteq> {length (exprs H)..}" by (auto simp: built_def)
  let ?q = "length (exprs G)" and ?G = "halloc G (K p)"
  have "fresh_at ?G p x A"
    by (rule fresh_frame [OF A(2)]) (metis at_halloc(1) at_less)
  then obtain y where y: "expr_retain ?G p = Inr (hput ?G p (Some y))" "expr_at (hput ?G p (Some y)) p x A" by (rule fresh_retain)
  have p: "p < length (exprs G)" "length (exprs H) \<le> p" "length (exprs H) \<le> ?q"
    using fresh_less [OF A(2)] A(2,3) extends_length [OF A(1)] by (auto simp: fresh_at_def)
  have q: "?q \<notin> A" using A(2) trees_less(2) by (fastforce simp: fresh_at_def dest: at_less)
  have "at_cell (hput ?G p (Some y)) ?q (cell0 (cell_of e [p]))" using p(1) e(2) by simp
  then have "fresh_at (hput ?G p (Some y)) ?q e (insert ?q A)"
    using exprs_single [OF y(2)] e(1) q unfolding fresh_at_def by (intro exI [of _ "[p]"] exI [of _ A]) simp
  moreover have "extends H (\<lambda>d. calls d e) (hput ?G p (Some y))" using A(1) p(2) e(3) by (simp add: extends_hput extends_halloc)
  ultimately show ?thesis using A(3) p(3) y(1) by (auto simp: expr_alloc1_def halloc_runs(1) built_def)
qed

section \<open>Lists\<close>

definition list_cell :: "(eptr list \<Rightarrow> enode) \<Rightarrow> bool" where
  "list_cell K \<longleftrightarrow> K = N_Choice \<or> K = N_Sequence \<or> K = N_Repetition"

lemma list_cell_simps [simp]: "list_cell N_Choice" "list_cell N_Sequence" "list_cell N_Repetition"
  by (simp_all add: list_cell_def)

lemma list_cell_node: "list_cell K \<Longrightarrow> node_list (K qs) = Inr qs" "list_cell K \<Longrightarrow> set_node_list (K qs) rs = K rs"
  by (auto simp: list_cell_def)

text \<open>An expression whose list is being filled.\<close>

definition shell :: "ast_heap \<Rightarrow> ast_heap \<Rightarrow> eptr \<Rightarrow> (eptr list \<Rightarrow> enode) \<Rightarrow> expr list \<Rightarrow> bool" where
  "shell H0 H q K es \<longleftrightarrow> (\<exists>qs B. at_cell H q (cell0 (K qs)) \<and> exprs_at H qs es B \<and> q \<notin> B \<and> insert q B \<subseteq> {length (exprs H0)..} \<and>
     extends H0 (\<lambda>d. \<Sum>e \<leftarrow> es. calls d e) H)"

lemma cell0_put [simp]: "cell0 n\<lparr>enode := k\<rparr> = cell0 k" "cell0 n = cell0 k \<longleftrightarrow> n = k"
  "cell0 n\<lparr>erefc := 1\<rparr> = cell1 n" "cell0 n\<lparr>erefc := Suc 0\<rparr> = cell1 n" "erefc (cell0 n) = 0"
  by (simp_all add: cell0_def cell1_def)

lemma list_add_ok:
  assumes "list_cell K" "at_cell H q (cell0 (K qs))"
  shows "list_add H q p = Inr (hput H q (Some (cell0 (K (qs @ [p])))))"
  using at_ops [OF assms(2)] list_cell_node [OF assms(1)] by (simp add: list_add_def get_list_def put_list_def)

lemma shell_start: "list_cell K \<Longrightarrow> shell H (halloc H (K [])) (length (exprs H)) K []"
  unfolding shell_def by (intro exI [of _ "[]"] exI [of _ "{}"]) (simp add: extends_halloc)

lemma shell_add:
  assumes K: "list_cell K" and H: "shell H0 H q K es" and p: "built H e p G"
  shows "\<exists>H'. rbind (list_add G q p) (\<lambda>H. expr_retain H p) = Inr H' \<and> shell H0 H' q K (es @ [e])"
proof -
  from H obtain qs B where q: "at_cell H q (cell0 (K qs))" "exprs_at H qs es B" "q \<notin> B" "insert q B \<subseteq> {length (exprs H0)..}"
      "extends H0 (\<lambda>d. \<Sum>e \<leftarrow> es. calls d e) H" by (auto simp: shell_def)
  from p obtain A where A: "extends H (\<lambda>d. calls d e) G" "fresh_at G p e A" "A \<subseteq> {length (exprs H)..}" by (auto simp: built_def)
  let ?G = "hput G q (Some (cell0 (K (qs @ [p]))))"
  have qA: "q \<notin> A" "A \<inter> B = {}" "p \<in> A" "p \<notin> B" "p \<noteq> q"
    using at_less [OF q(1)] A(2,3) trees_less(2) [OF q(2)] by (fastforce simp: fresh_at_def)+
  have "fresh_at ?G p e A" using qA(1) by (intro fresh_frame [OF A(2)]) (metis at_hput(2))
  then obtain y where y: "expr_retain ?G p = Inr (hput ?G p (Some y))" "expr_at (hput ?G p (Some y)) p e A" by (rule fresh_retain)
  let ?H = "hput ?G p (Some y)"
  have "q < length (exprs G)" using at_less [OF q(1)] extends_length [OF A(1)] by simp
  then have "at_cell ?H q (cell0 (K (qs @ [p])))" using qA(5) by simp
  moreover have "exprs_at ?H qs es B"
    using qA(4) q(3) by (intro tree_frame(2) [OF extends_tree(2) [OF A(1) q(2)]]) (metis at_hput(2))
  then have "exprs_at ?H (qs @ [p]) (es @ [e]) (B \<union> A)" using exprs_single [OF y(2)] qA(2) by (intro trees_appendI) auto
  moreover have "extends H0 (\<lambda>d. \<Sum>e \<leftarrow> es @ [e]. calls d e) ?H"
    using extends_trans [OF q(5) A(1)] A(3) qA(3) q(4) extends_length [OF q(5)] by (intro extends_hput) auto
  moreover have "insert q (B \<union> A) \<subseteq> {length (exprs H0)..}" using q(4) A(3) extends_length [OF q(5)] by fastforce
  ultimately have "shell H0 ?H q K (es @ [e])" using q(3) qA(1) unfolding shell_def by blast
  then show ?thesis using y(1) list_add_ok [OF K extends_at [OF A(1) q(1)]] by simp
qed

lemma shell_built:
  assumes "shell H0 H q K es" "parts e = es" "\<And>qs. cell_of e qs = K qs" "\<And>d. calls d e = (\<Sum>e \<leftarrow> es. calls d e)"
  shows "built H0 e q H"
  using assms unfolding shell_def built_def fresh_at_def by auto

lemma shell_extends: "shell H0 H q K es \<Longrightarrow> extends H0 (\<lambda>d. \<Sum>e \<leftarrow> es. calls d e) H"
  by (auto simp: shell_def)

lemma compile_List_builds:
  assumes rec: "builds look rec srec" and K: "list_cell K" and H: "shell H0 H q K []" "named look H0" and es: "spec_list srec T n = Inr es"
  shows "\<exists>H'. compile_List rec T H n q = Inr H' \<and> shell H0 H' q K es"
proof -
  let ?h = "\<lambda>es i. rbind (child_of T n i) (\<lambda>child. rbind (srec child) (\<lambda>e. Inr (es @ [e])))"
  from es obtain len where len: "children T n = Inr len" "rfold ?h [] [0..<len] = Inr es" by (auto simp: spec_list_def rbind_eq_Inr)
  have "\<exists>H'. rfold (compile_elem rec T n q) H js = Inr H' \<and> shell H0 H' q K fs"
    if "rfold ?h ds js = Inr fs" "shell H0 H q K ds" for js ds fs H
    using that
  proof (induction js arbitrary: ds H)
    case (Cons j js)
    then obtain c e where c: "child_of T n j = Inr c" "srec c = Inr e" "rfold ?h (ds @ [e]) js = Inr fs" by (auto simp: rbind_eq_Inr)
    have "named look H" by (rule named_extends [OF H(2) shell_extends [OF Cons.prems(2)]])
    then obtain p G where p: "rec H c = Inr (p, G)" "built H e p G" using rec c(2) unfolding builds_def by blast
    from shell_add [OF K Cons.prems(2) p(2)] obtain H1 where
      "rbind (list_add G q p) (\<lambda>H. expr_retain H p) = Inr H1" "shell H0 H1 q K (ds @ [e])" by blast
    with Cons.IH [OF c(3)] c(1) p(1) show ?case by (simp add: compile_elem_def)
  qed simp
  from this [OF len(2) H(1)] show ?thesis using len(1) by (simp add: compile_List_def)
qed

section \<open>Sequences of three\<close>

text \<open>\<open>Link\<close> and \<open>New\<close> put their body between two operators.\<close>

lemma frame_extends: "extends H k G \<Longrightarrow> frame G A H' \<Longrightarrow> A \<subseteq> {length (exprs H)..} \<Longrightarrow> extends H k H'"
  unfolding extends_def frame_def by (auto simp: subset_iff) (metis leD less_le_trans)+

lemma add_three:
  assumes "at_cell H q (cell0 (N_Sequence []))" "at_cell H p1 (cell0 n1)" "at_cell H p2 (cell0 n2)" "at_cell H p3 (cell0 n3)"
    and d: "distinct [q, p1, p2, p3]"
  shows "rbind (list_add H q p1) (\<lambda>H. rbind (list_add H q p2) (\<lambda>H. rbind (list_add H q p3) (\<lambda>H.
       rbind (expr_retain H p1) (\<lambda>H. rbind (expr_retain H p2) (\<lambda>H. rbind (expr_retain H p3) (\<lambda>H. Inr (q, H))))))) =
     Inr (q, hput (hput (hput (hput H q (Some (cell0 (N_Sequence [p1, p2, p3])))) p1 (Some (cell1 n1))) p2 (Some (cell1 n2))) p3 (Some (cell1 n3)))"
    "rbind (expr_retain H p1) (\<lambda>H. rbind (expr_retain H p2) (\<lambda>H. rbind (expr_retain H p3) (\<lambda>H.
       rbind (list_add H q p1) (\<lambda>H. rbind (list_add H q p2) (\<lambda>H. rbind (list_add H q p3) (\<lambda>H. Inr (q, H))))))) =
     Inr (q, hput (hput (hput (hput H p1 (Some (cell1 n1))) p2 (Some (cell1 n2))) p3 (Some (cell1 n3))) q (Some (cell0 (N_Sequence [p1, p2, p3]))))"
  using d at_runs [OF assms(1)] at_runs [OF assms(2)] at_runs [OF assms(3)] at_runs [OF assms(4)]
  by (simp_all add: runs list_add_def)

lemma three_built:
  assumes b: "built G e p2 G2" "extends H (\<lambda>d. 0) G" and l: "parts e1 = []" "parts e3 = []"
    and c: "at_cell G q (cell0 (N_Sequence []))" "at_cell G p1 (cell0 (cell_of e1 []))" "extends G2 (\<lambda>d. 0) G3"
      "at_cell G3 p3 (cell0 (cell_of e3 []))" "{q, p1, p3} \<subseteq> {length (exprs H)..}" "q \<noteq> p1"
      "p3 < length (exprs G) \<or> length (exprs G2) \<le> p3" "p3 \<noteq> q" "p3 \<noteq> p1"
    and f: "frame G3 {q, p1, p2, p3} H'" "at_cell H' q (cell0 (N_Sequence [p1, p2, p3]))" "at_cell H' p1 (cell1 (cell_of e1 []))"
      "at_cell H' p3 (cell1 (cell_of e3 []))" "\<And>n. at_cell G3 p2 (cell0 n) \<Longrightarrow> at_cell H' p2 (cell1 n)"
    and nocalls: "\<And>d. calls d e1 = 0" "\<And>d. calls d e3 = 0"
  shows "built H (E_Sequence [e1, e, e3]) q H'"
proof -
  from b(1) obtain A where A: "extends G (\<lambda>d. calls d e) G2" "fresh_at G2 p2 e A" "A \<subseteq> {length (exprs G)..}" by (auto simp: built_def)
  from A(2) obtain qs B where B: "at_cell G2 p2 (cell0 (cell_of e qs))" "exprs_at G2 qs (parts e) B" "p2 \<notin> B" "A = insert p2 B"
    by (auto simp: fresh_at_def)
  have out: "q \<notin> A" "p1 \<notin> A" using A(3) at_less [OF c(1)] at_less [OF c(2)] by auto
  have out3: "p3 \<notin> A" using c(7) A(3) B trees_less(2) [OF B(2)] at_less [OF B(1)] by auto
  have "exprs_at H' qs (parts e) B"
  proof (rule tree_frame(2) [OF extends_tree(2) [OF c(3) B(2)]])
    fix r x
    assume "r \<in> B" "at_cell G3 r x"
    then show "at_cell H' r x" using out out3 B(3,4) by (intro frame_at [OF f(1)]) auto
  qed
  then have "expr_at H' p2 e A" using Node [OF f(5) [OF extends_at [OF c(3) B(1)]]] B(3,4) by simp
  moreover have "expr_at H' p1 e1 {p1}" "expr_at H' p3 e3 {p3}"
    using Node [OF f(3), of "{}"] Node [OF f(4), of "{}"] l by simp_all
  ultimately have "exprs_at H' [p1, p2, p3] [e1, e, e3] ({p1} \<union> (A \<union> {p3}))"
    using out out3 c(9) by (intro expr_at_exprs_at.Cons exprs_single) auto
  then have "fresh_at H' q (E_Sequence [e1, e, e3]) (insert q ({p1} \<union> (A \<union> {p3})))"
    using f(2) out c(6,8) unfolding fresh_at_def by (intro exI [of _ "[p1, p2, p3]"] exI [of _ "{p1} \<union> (A \<union> {p3})"]) auto
  moreover have "insert q ({p1} \<union> (A \<union> {p3})) \<subseteq> {length (exprs H)..}"
    using c(5) A(3) extends_length [OF b(2)] by fastforce
  moreover have "extends H (\<lambda>d. calls d (E_Sequence [e1, e, e3])) H'"
  proof (rule frame_extends [OF _ f(1)])
    show "extends H (\<lambda>d. calls d (E_Sequence [e1, e, e3])) G3"
      using extends_trans [OF extends_trans [OF b(2) A(1)] c(3)] nocalls by simp
    show "{q, p1, p2, p3} \<subseteq> {length (exprs H)..}" using c(5) A(3) B(4) extends_length [OF b(2)] by auto
  qed
  ultimately show ?thesis unfolding built_def by blast
qed

section \<open>The handlers\<close>

lemma buildsI:
  assumes "\<And>H n e. named look H \<Longrightarrow> spec n = Inr e \<Longrightarrow> \<exists>p H'. act H n = Inr (p, H') \<and> built H e p H'"
  shows "builds look act spec"
  using assms unfolding builds_def by blast

lemma builds_error: "builds look act (\<lambda>n. Inl err)"
  by (simp add: builds_def)

lemma builds_leaf:
  assumes "parts e = []" "\<And>H. new H = EXPR_ALLOC H (cell_of e [])" "\<And>d. calls d e = 0"
  shows "builds look (\<lambda>H n. new H) (\<lambda>n. Inr e)"
  using leaf_built [OF assms(1) refl assms(3)] assms(2) by (auto simp: builds_def)

lemma builds_text:
  assumes "\<And>t e. spec t = Inr e \<Longrightarrow> parts e = [] \<and> (\<forall>H. new H t = EXPR_ALLOC H (cell_of e [])) \<and> (\<forall>d. calls d e = 0)"
  shows "builds look (\<lambda>H n. rbind (text_of T n) (\<lambda>t. new H t)) (spec_text T spec)"
  using assms leaf_built by (intro buildsI) (fastforce simp: spec_text_def rbind_eq_Inr)

lemma invoke_built:
  assumes "named look H"
  shows "\<exists>p H'. moz_expr_new_Invoke H t (look t) = Inr (p, H') \<and> built H (E_Invoke t (look t)) p H'"
proof (cases "look t")
  case None
  then show ?thesis using leaf_built [of "E_Invoke t None" "N_Invoke t None" H] by (auto simp: moz_expr_new_Invoke_def)
next
  case (Some d)
  then obtain c where c: "d < length (pdecls H)" "pdecls H ! d = Some c" using assms unfolding named_def by blast
  let ?G = "halloc H (N_Invoke t (Some d))" and ?p = "length (exprs H)"
  let ?H = "?G\<lparr>pdecls := (pdecls H)[d := Some (c\<lparr>prefc := prefc c + 1\<rparr>)]\<rparr>"
  have r: "decl_retain ?G d = Inr ?H" using c by (simp add: decl_retain_def dread_def dwrite_def)
  have "(pdecls H)[d := Some (c\<lparr>prefc := prefc c + 1\<rparr>)] = bump (\<lambda>x. calls x (E_Invoke t (Some d))) (pdecls H)"
    using c by (intro nth_equalityI) (auto simp: nth_bump nth_list_update option.map_ident_strong)
  then have "extends H (\<lambda>x. calls x (E_Invoke t (Some d))) ?H" by (simp add: extends_def halloc_def nth_append)
  moreover have "at_cell ?H ?p (cell0 (cell_of (E_Invoke t (Some d)) []))" by (simp add: at_cell_def halloc_def)
  then have "fresh_at ?H ?p (E_Invoke t (Some d)) {?p}"
    unfolding fresh_at_def by (intro exI [of _ "[]"] exI [of _ "{}"]) simp
  ultimately have "built H (E_Invoke t (Some d)) ?p ?H" by (auto simp: built_def)
  then show ?thesis using Some r by (auto simp: moz_expr_new_Invoke_def halloc_runs(1))
qed

lemma builds_Invoke: "builds look (compile_Invoke T) (spec_text T (spec_call look))"
proof (rule buildsI)
  fix H n e
  assume H: "named look H" "spec_text T (spec_call look) n = Inr e"
  then obtain t where t: "text_of T n = Inr t" "e = E_Invoke t (look t)" by (auto simp: spec_text_def spec_call_def rbind_eq_Inr)
  with H(1) invoke_built [OF H(1), of t] show "\<exists>p H'. compile_Invoke T H n = Inr (p, H') \<and> built H e p H'"
    by (simp add: compile_Invoke_def named_def)
qed

lemma builds_InvokeOrStr:
  "builds look (compile_InvokeOrStr T) (spec_text T (\<lambda>t. if look t \<noteq> None then spec_call look t else spec_str t))"
proof (rule buildsI)
  fix H n e
  assume H: "named look H" "spec_text T (\<lambda>t. if look t \<noteq> None then spec_call look t else spec_str t) n = Inr e"
  then obtain t where t: "text_of T n = Inr t" "(if look t \<noteq> None then spec_call look t else spec_str t) = Inr e"
    by (auto simp: spec_text_def rbind_eq_Inr)
  show "\<exists>p H'. compile_InvokeOrStr T H n = Inr (p, H') \<and> built H e p H'"
  proof (cases "look t")
    case None
    with t(2) have e: "length t > 0" "e = E_Str t" by (auto simp: spec_str_def rbind_eq_Inr rassert_def split: if_splits)
    then show ?thesis using leaf_built [of e "N_Str t" H] H(1) t(1) None
      by (simp add: compile_InvokeOrStr_def compile_Str_def moz_expr_new_Str_def named_def rassert_def)
  next
    case (Some d)
    with t(2) have "e = E_Invoke t (look t)" by (simp add: spec_call_def)
    then show ?thesis using invoke_built [OF H(1), of t] H(1) t(1) Some
      by (simp add: compile_InvokeOrStr_def compile_Invoke_def named_def)
  qed
qed

lemma builds_alloc:
  assumes "\<And>H n e. spec n = Inr e \<Longrightarrow> act H n = EXPR_ALLOC H (cell_of e []) \<and> parts e = [] \<and> (\<forall>d. calls d e = 0)"
  shows "builds look act spec"
proof (rule buildsI)
  fix H n e
  assume "spec n = Inr e"
  with assms have "act H n = EXPR_ALLOC H (cell_of e [])" "parts e = []" "\<And>d. calls d e = 0" by blast+
  with leaf_built [OF this(2) refl this(3)] show "\<exists>p H'. act H n = Inr (p, H') \<and> built H e p H'" by simp
qed

lemma builds_Byte: "builds look (compile_Byte T) (spec_byte T)"
proof (rule builds_alloc)
  fix H n e
  assume e: "spec_byte T n = Inr e"
  then obtain nd where nd: "children T n = Inr 0" "node_at T n = Inr nd"
    unfolding spec_byte_def rbind_eq_Inr rassert_eq_Inr by blast
  note e = e[unfolded spec_byte_def nd rbind_Inr rassert_True [OF refl]]
  have c: "compile_Byte T H n = (if nlen nd = 0 then EXPR_ALLOC H N_Empty else rbind (mread (text_mem T) (npos nd)) (\<lambda>byte.
      if nlen nd = 1 then EXPR_ALLOC H (N_Byte byte) else rbind (parseEscapedChar (text_mem T) (npos nd)) (\<lambda>c. case c of
          Some byte \<Rightarrow> EXPR_ALLOC H (N_Byte byte) | None \<Rightarrow> compile_Str T H n)))"
    by (simp only: compile_Byte_def nd rbind_Inr rassert_True [OF refl] compile_Empty_def moz_expr_new_Empty_def moz_expr_new_Byte_def)
  show "compile_Byte T H n = EXPR_ALLOC H (cell_of e []) \<and> parts e = [] \<and> (\<forall>d. calls d e = 0)"
  proof (cases "nlen nd = 0")
    case False
    with e obtain byte where m: "mread (text_mem T) (npos nd) = Inr byte" by (auto simp only: if_False rbind_eq_Inr)
    show ?thesis
    proof (cases "nlen nd = 1")
      case False
      note e = e[unfolded m rbind_Inr if_not_P [OF False] if_not_P [OF \<open>nlen nd \<noteq> 0\<close>]]
      then obtain x where x: "parseEscapedChar (text_mem T) (npos nd) = Inr x" by (auto simp only: rbind_eq_Inr)
      with e False \<open>nlen nd \<noteq> 0\<close> m c show ?thesis
        by (cases x) (auto simp: spec_text_def spec_str_def compile_Str_def moz_expr_new_Str_def rbind_eq_Inr)
    qed (use e m c False in auto)
  qed (use e c in auto)
qed

lemma builds_Set: "builds look (compile_Set T) (spec_set T)"
proof (rule builds_alloc)
  fix H n e
  let ?h = "\<lambda>ps i. rbind (child_of T n i) (\<lambda>child. rbind (class_pair T child) (\<lambda>p. Inr (ps @ [p])))"
  assume "spec_set T n = Inr e"
  then obtain len data where d: "children T n = Inr len" "0 < len" "rfold ?h [] [0..<len] = Inr data"
      "(if len = 1 \<and> fst (data ! 0) = snd (data ! 0) then if fst (data ! 0) < 256 then Inr (E_Byte (ucast (fst (data ! 0)))) else Inl AssertFail
        else rbind (rfold set_range no_bytes data) (\<lambda>s. Inr (E_Set s))) = Inr e"
    unfolding spec_set_def rbind_eq_Inr rassert_eq_Inr by blast
  have c: "compile_Set T H n = (if len = 1 \<and> fst (data ! 0) = snd (data ! 0) then
      if fst (data ! 0) < 256 then moz_expr_new_Byte H (ucast (fst (data ! 0))) else Inl AssertFail else moz_expr_new_Set H data)"
    by (simp only: compile_Set_def d(1-3) rbind_Inr rassert_True)
  show "compile_Set T H n = EXPR_ALLOC H (cell_of e []) \<and> parts e = [] \<and> (\<forall>d. calls d e = 0)"
  proof (cases "len = 1 \<and> fst (data ! 0) = snd (data ! 0)")
    case True
    with d(4) c show ?thesis by (auto simp only: if_True moz_expr_new_Byte_def split: if_splits) simp_all
  next
    case False
    with d(4) obtain s where "rfold set_range no_bytes data = Inr s" "e = E_Set s"
      by (simp only: if_False rbind_eq_Inr) blast
    with False c show ?thesis by (simp only: if_False) (simp add: moz_expr_new_Set_def no_bytes_def)
  qed
qed

lemma builds_Ttag: "builds look (compile_Ttag T) (spec_text T (\<lambda>t. Inr (E_Ttag t)))"
  by (rule builds_alloc) (auto simp: compile_Ttag_def spec_text_def moz_expr_new_Ttag_def rbind_eq_Inr)

lemma builds_names:
  "builds look (compile_Xexists T) (spec_name T E_Xexists)" "builds look (compile_Xis T) (spec_name T E_Xis)"
  "builds look (compile_Xisa T) (spec_name T E_Xisa)"
  by (rule builds_alloc; auto simp: compile_Xexists_def compile_Xis_def compile_Xisa_def spec_name_def moz_expr_new_Xexists_def
      moz_expr_new_Xis_def moz_expr_new_Xisa_def rbind_eq_Inr)+

lemma builds_leaves:
  "builds look (\<lambda>H n. compile_Any H) (\<lambda>n. Inr E_Any)" "builds look (\<lambda>H n. compile_Empty H) (\<lambda>n. Inr E_Empty)"
  "builds look (\<lambda>H n. moz_expr_new_Tcapture H) (\<lambda>n. Inr E_Tcapture)"
  by (rule builds_alloc; simp add: compile_Any_def moz_expr_new_Any_def compile_Empty_def moz_expr_new_Empty_def moz_expr_new_Tcapture_def)+

text \<open>One part.\<close>

lemma part_built:
  assumes "builds look rec srec" "named look H" "child_of T n i = Inr c" "srec c = Inr x"
    and e: "parts e = [x]" "\<And>p. cell_of e [p] = K p" "\<And>d. calls d e = calls d x"
  shows "\<exists>p H'. rbind (compile_part rec T H n i) (\<lambda>(x, H). expr_alloc1 H K x) = Inr (p, H') \<and> built H e p H'"
proof -
  from assms(1,2,4) obtain p G where p: "rec H c = Inr (p, G)" "built H x p G" unfolding builds_def by blast
  with alloc1_built [OF p(2) e(1), of K] e(2,3) assms(3) show ?thesis by (simp add: compile_part_def)
qed

lemma builds_only:
  assumes "builds look rec srec" "\<And>x. parts (K x) = [x]" "\<And>x p. cell_of (K x) [p] = N p" "\<And>x d. calls d (K x) = calls d x"
    "\<And>H n. act H n = rbind (children T n) (\<lambda>k. rbind (rassert (k = 1)) (\<lambda>_. rbind (compile_part rec T H n 0) (\<lambda>(x, H). expr_alloc1 H N x)))"
  shows "builds look act (spec_only srec T K)"
proof (rule buildsI)
  fix H n e
  assume H: "named look H" "spec_only srec T K n = Inr e"
  then obtain c x where c: "children T n = Inr 1" "child_of T n 0 = Inr c" "srec c = Inr x" "e = K x" by (auto simp: spec_only_def rbind_eq_Inr)
  from part_built [OF assms(1) H(1) c(2,3), of "K x" N] assms(2-5) c(1,4)
  show "\<exists>p H'. act H n = Inr (p, H') \<and> built H e p H'" by simp
qed

lemma builds_unary:
  assumes "builds look rec srec"
  shows "builds look (compile_And rec T) (spec_only srec T E_And)" "builds look (compile_Not rec T) (spec_only srec T E_Not)"
    "builds look (compile_Option rec T) (spec_only srec T E_Option)"
  by (rule builds_only [OF assms]; simp add: compile_And_def compile_Not_def compile_Option_def moz_expr_new_And_def moz_expr_new_Not_def
      moz_expr_new_Option_def)+

lemma builds_block:
  assumes "builds look rec srec"
  shows "builds look (compile_Xblock rec T) (spec_block srec T)"
proof (rule buildsI)
  fix H n e
  assume H: "named look H" "spec_block srec T n = Inr e"
  then obtain c x where c: "child_of T n 0 = Inr c" "srec c = Inr x" "e = E_Xblock x" by (auto simp: spec_block_def rbind_eq_Inr)
  from part_built [OF assms H(1) c(1,2), of e N_Xblock] c(3)
  show "\<exists>p H'. compile_Xblock rec T H n = Inr (p, H') \<and> built H e p H'" by (simp add: compile_Xblock_def moz_expr_new_Xblock_def)
qed

lemma builds_named:
  assumes "builds look rec srec"
  shows "builds look (compile_Xlocal rec T) (spec_named srec T E_Xlocal)" "builds look (compile_Xsymbol rec T) (spec_named srec T E_Xsymbol)"
proof -
  have "\<exists>p H'. rbind (compile_part rec T H n 1) (\<lambda>(x, H). rbind (part_text T n) (\<lambda>t. expr_alloc1 H (N t) x)) = Inr (p, H') \<and> built H e p H'"
    if H: "named look H" "spec_named srec T K n = Inr e"
      and K: "\<And>t x. parts (K t x) = [x]" "\<And>t x p. cell_of (K t x) [p] = N t p" "\<And>t x d. calls d (K t x) = calls d x"
    for H n e K N
  proof -
    from H obtain c x t where c: "child_of T n 1 = Inr c" "srec c = Inr x" "part_text T n = Inr t" "e = K t x"
      by (auto simp: spec_named_def rbind_eq_Inr)
    from part_built [OF assms H(1) c(1,2), of e "N t"] c(3,4) K show ?thesis by simp
  qed
  from this [of _ E_Xlocal _ _ N_Xlocal] this [of _ E_Xsymbol _ _ N_Xsymbol]
  show "builds look (compile_Xlocal rec T) (spec_named srec T E_Xlocal)" "builds look (compile_Xsymbol rec T) (spec_named srec T E_Xsymbol)"
    by (auto intro!: buildsI simp: compile_Xlocal_def compile_Xsymbol_def moz_expr_new_Xlocal_def moz_expr_new_Xsymbol_def)
qed

text \<open>Lists.\<close>

lemma list_built:
  assumes "builds look rec srec" "list_cell K" "named look H" "spec_list srec T n = Inr es"
    and e: "parts e = es" "\<And>qs. cell_of e qs = K qs" "\<And>d. calls d e = (\<Sum>e \<leftarrow> es. calls d e)"
  shows "\<exists>H'. compile_List rec T (halloc H (K [])) n (length (exprs H)) = Inr H' \<and> built H e (length (exprs H)) H'"
proof -
  from compile_List_builds [OF assms(1,2) shell_start [OF assms(2)] assms(3,4)] obtain H' where
    "compile_List rec T (halloc H (K [])) n (length (exprs H)) = Inr H'" "shell H H' (length (exprs H)) K es" by blast
  with shell_built [OF this(2) e] show ?thesis by blast
qed

lemma builds_lists:
  assumes "builds look rec srec"
  shows "builds look (compile_Choice rec T) (\<lambda>n. rbind (spec_list srec T n) (\<lambda>es. Inr (E_Choice es)))"
    "builds look (compile_Sequence rec T) (\<lambda>n. rbind (spec_list srec T n) (\<lambda>es. Inr (E_Sequence es)))"
proof -
  show "builds look (compile_Choice rec T) (\<lambda>n. rbind (spec_list srec T n) (\<lambda>es. Inr (E_Choice es)))"
  proof (rule buildsI)
    fix H n e
    assume H: "named look H" "rbind (spec_list srec T n) (\<lambda>es. Inr (E_Choice es)) = Inr e"
    then obtain es where es: "spec_list srec T n = Inr es" "e = E_Choice es" by (auto simp: rbind_eq_Inr)
    from list_built [OF assms, of N_Choice H T n es e] H(1) es show "\<exists>p H'. compile_Choice rec T H n = Inr (p, H') \<and> built H e p H'"
      by (auto simp: compile_Choice_def moz_expr_new_Choice_def halloc_runs(1))
  qed
  show "builds look (compile_Sequence rec T) (\<lambda>n. rbind (spec_list srec T n) (\<lambda>es. Inr (E_Sequence es)))"
  proof (rule buildsI)
    fix H n e
    assume H: "named look H" "rbind (spec_list srec T n) (\<lambda>es. Inr (E_Sequence es)) = Inr e"
    then obtain es where es: "spec_list srec T n = Inr es" "e = E_Sequence es" by (auto simp: rbind_eq_Inr)
    from list_built [OF assms, of N_Sequence H T n es e] H(1) es show "\<exists>p H'. compile_Sequence rec T H n = Inr (p, H') \<and> built H e p H'"
      by (auto simp: compile_Sequence_def moz_expr_new_Sequence_def halloc_runs(1))
  qed
qed

lemma builds_Repetition:
  assumes "builds look rec srec"
  shows "builds look (compile_Repetition rec T) (spec_only srec T (\<lambda>e. E_Repetition [e]))"
proof (rule buildsI)
  fix H n e
  assume H: "named look H" "spec_only srec T (\<lambda>e. E_Repetition [e]) n = Inr e"
  then obtain c x where c: "children T n = Inr 1" "child_of T n 0 = Inr c" "srec c = Inr x" "e = E_Repetition [x]"
    by (auto simp: spec_only_def rbind_eq_Inr)
  then have "spec_list srec T n = Inr [x]" by (simp add: spec_list_def upt_rec)
  from list_built [OF assms list_cell_simps(3) H(1) this, of e] c show "\<exists>p H'. compile_Repetition rec T H n = Inr (p, H') \<and> built H e p H'"
    by (auto simp: compile_Repetition_def moz_expr_new_Repetition_def halloc_runs(1))
qed

lemma fresh_cell: "built H e p H' \<Longrightarrow> \<exists>qs. at_cell H' p (cell0 (cell_of e qs)) \<and> length (exprs H) \<le> p"
  by (fastforce simp: built_def fresh_at_def)

lemma link_built:
  assumes rec: "builds look rec srec" "named look H" "srec c = Inr e" and q: "q = length (exprs H)"
  shows "\<exists>p H'. rbind (moz_expr_new_Tpush (halloc H (N_Sequence []))) (\<lambda>(push, H). rbind (rec H c) (\<lambda>(body, H).
      rbind (moz_expr_new_Tpop H str) (\<lambda>(pop, H).
      rbind (expr_retain H push) (\<lambda>H. rbind (expr_retain H body) (\<lambda>H. rbind (expr_retain H pop) (\<lambda>H.
      rbind (list_add H q push) (\<lambda>H. rbind (list_add H q body) (\<lambda>H.
      rbind (list_add H q pop) (\<lambda>H. Inr (q, H)))))))))) = Inr (p, H') \<and>
    built H (E_Sequence [E_Tpush, e, E_Tpop str]) p H'"
proof -
  let ?q = "length (exprs H)" and ?G = "halloc (halloc H (N_Sequence [])) N_Tpush"
  have ext: "extends H (\<lambda>d. 0) ?G" by (simp add: extends_halloc)
  obtain p2 G2 where b: "rec ?G c = Inr (p2, G2)" "built ?G e p2 G2"
    using rec(1,3) named_extends [OF rec(2) ext] unfolding builds_def by blast
  let ?G3 = "halloc G2 (N_Tpop str)" and ?p3 = "length (exprs G2)"
  have e2: "extends ?G (\<lambda>d. calls d e) G2" using b(2) by (simp add: built_def)
  from fresh_cell [OF b(2)] obtain qs where p2: "at_cell G2 p2 (cell0 (cell_of e qs))" "Suc (Suc ?q) \<le> p2" by auto
  have len: "Suc (Suc ?q) \<le> ?p3" using extends_length [OF e2] by simp
  have c: "at_cell ?G ?q (cell0 (N_Sequence []))" "at_cell ?G (Suc ?q) (cell0 (cell_of E_Tpush []))"
    using at_halloc(2) [of "halloc H (N_Sequence [])" N_Tpush] by simp_all
  note c3 = extends_at [OF e2 c(1)] extends_at [OF e2 c(2)]
  have a: "at_cell ?G3 ?q (cell0 (N_Sequence []))" "at_cell ?G3 (Suc ?q) (cell0 N_Tpush)" "at_cell ?G3 p2 (cell0 (cell_of e qs))"
    "at_cell ?G3 ?p3 (cell0 (N_Tpop str))"
    using c3 p2(1) at_less by (auto simp: at_less)
  have d: "distinct [?q, Suc ?q, p2, ?p3]" using p2 len at_less [OF p2(1)] by auto
  let ?H' = "hput (hput (hput (hput ?G3 (Suc ?q) (Some (cell1 N_Tpush))) p2 (Some (cell1 (cell_of e qs)))) ?p3 (Some (cell1 (N_Tpop str))))
     ?q (Some (cell0 (N_Sequence [Suc ?q, p2, ?p3])))"
  have l: "?q < length (exprs ?G3)" "Suc ?q < length (exprs ?G3)" "p2 < length (exprs ?G3)" using len at_less [OF p2(1)] by auto
  have "built H (E_Sequence [E_Tpush, e, E_Tpop str]) ?q ?H'"
  proof (rule three_built [where ?p3.0 = ?p3 and ?e3.0 = "E_Tpop str", OF b(2) ext _ _ c extends_halloc [OF extends_refl]])
    show "frame ?G3 {?q, Suc ?q, p2, ?p3} ?H'" by (intro frame_hput frame_refl) (auto simp: grown_def)
    show "at_cell ?H' ?q (cell0 (N_Sequence [Suc ?q, p2, ?p3]))" using l by simp
    show "at_cell ?H' (Suc ?q) (cell1 (cell_of E_Tpush []))" using d l by simp
    show "at_cell ?H' ?p3 (cell1 (cell_of (E_Tpop str) []))" using d l by simp
    show "at_cell ?H' p2 (cell1 n)" if "at_cell ?G3 p2 (cell0 n)" for n
    proof -
      have "n = cell_of e qs" using that a(3) by (simp add: at_cell_def)
      then show ?thesis using d l by simp
    qed
  qed (use len in auto)
  then show ?thesis
    using b(1) add_three(2) [OF a d] by (auto simp: q moz_expr_new_Tpush_def moz_expr_new_Tpop_def halloc_runs(1))
qed

lemma new_built:
  assumes rec: "builds look rec srec" "named look H" "srec c = Inr e" and q: "q = length (exprs H)"
  shows "\<exists>p H'. rbind (moz_expr_new_Tnew (halloc H (N_Sequence []))) (\<lambda>(tnew, H). rbind (moz_expr_new_Tcapture H) (\<lambda>(tcap, H).
      rbind (rec H c) (\<lambda>(body, H).
      rbind (list_add H q tnew) (\<lambda>H. rbind (list_add H q body) (\<lambda>H. rbind (list_add H q tcap) (\<lambda>H.
      rbind (expr_retain H tnew) (\<lambda>H. rbind (expr_retain H body) (\<lambda>H. rbind (expr_retain H tcap) (\<lambda>H. Inr (q, H)))))))))) = Inr (p, H') \<and>
    built H (E_Sequence [E_Tnew, e, E_Tcapture]) p H'"
proof -
  let ?q = "length (exprs H)" and ?G = "halloc (halloc (halloc H (N_Sequence [])) N_Tnew) N_Tcapture"
  have ext: "extends H (\<lambda>d. 0) ?G" by (simp add: extends_halloc)
  obtain p2 G2 where b: "rec ?G c = Inr (p2, G2)" "built ?G e p2 G2"
    using rec(1,3) named_extends [OF rec(2) ext] unfolding builds_def by blast
  let ?p3 = "Suc (Suc ?q)"
  have e2: "extends ?G (\<lambda>d. calls d e) G2" using b(2) by (simp add: built_def)
  from fresh_cell [OF b(2)] obtain qs where p2: "at_cell G2 p2 (cell0 (cell_of e qs))" "Suc ?p3 \<le> p2" by auto
  have c: "at_cell ?G ?q (cell0 (N_Sequence []))" "at_cell ?G (Suc ?q) (cell0 (cell_of E_Tnew []))" "at_cell ?G ?p3 (cell0 (cell_of E_Tcapture []))"
    using at_halloc(2) [of "halloc H (N_Sequence [])" N_Tnew] at_halloc(2) [of "halloc (halloc H (N_Sequence [])) N_Tnew" N_Tcapture]
    by simp_all
  have a: "at_cell G2 ?q (cell0 (N_Sequence []))" "at_cell G2 (Suc ?q) (cell0 N_Tnew)" "at_cell G2 p2 (cell0 (cell_of e qs))"
    "at_cell G2 ?p3 (cell0 N_Tcapture)"
    using extends_at [OF e2 c(1)] extends_at [OF e2 c(2)] extends_at [OF e2 c(3)] p2(1) by simp_all
  have d: "distinct [?q, Suc ?q, p2, ?p3]" using p2 by auto
  let ?H' = "hput (hput (hput (hput G2 ?q (Some (cell0 (N_Sequence [Suc ?q, p2, ?p3])))) (Suc ?q) (Some (cell1 N_Tnew)))
     p2 (Some (cell1 (cell_of e qs)))) ?p3 (Some (cell1 N_Tcapture))"
  have l: "?q < length (exprs G2)" "Suc ?q < length (exprs G2)" "p2 < length (exprs G2)" "?p3 < length (exprs G2)"
    using p2(2) at_less [OF p2(1)] by auto
  have "built H (E_Sequence [E_Tnew, e, E_Tcapture]) ?q ?H'"
  proof (rule three_built [where ?p3.0 = ?p3 and ?e3.0 = E_Tcapture, OF b(2) ext _ _ c(1,2) extends_refl])
    show "frame G2 {?q, Suc ?q, p2, ?p3} ?H'" by (intro frame_hput frame_refl) (auto simp: grown_def)
    show "at_cell ?H' ?q (cell0 (N_Sequence [Suc ?q, p2, ?p3]))" using d l by simp
    show "at_cell ?H' (Suc ?q) (cell1 (cell_of E_Tnew []))" using d l by simp
    show "at_cell ?H' ?p3 (cell1 (cell_of E_Tcapture []))" using d l by simp
    show "at_cell ?H' p2 (cell1 n)" if "at_cell G2 p2 (cell0 n)" for n
    proof -
      have "n = cell_of e qs" using that a(3) by (simp add: at_cell_def)
      then show ?thesis using d l by simp
    qed
  qed (use a(4) in auto)
  then show ?thesis
    using b(1) add_three(1) [OF a d] by (auto simp: q moz_expr_new_Tnew_def moz_expr_new_Tcapture_def halloc_runs(1))
qed

lemma builds_link:
  assumes "builds look rec srec"
  shows "builds look (compile_Tlink rec T) (spec_link srec T)" "builds look (compile_Tnew rec T) (spec_new srec T)"
proof -
  show "builds look (compile_Tlink rec T) (spec_link srec T)"
  proof (rule buildsI)
    fix H n e
    assume H: "named look H" "spec_link srec T n = Inr e"
    then obtain k c str x where k: "children T n = Inr k"
        "(if k = 1 then rbind (child_of T n 0) (\<lambda>child. Inr (child, []))
            else rbind (child_of T n 0) (\<lambda>label. rbind (text_of T label) (\<lambda>str.
              rbind (child_of T n 1) (\<lambda>child. Inr (child, str))))) = Inr (c, str)" "srec c = Inr x" "e = E_Sequence [E_Tpush, x, E_Tpop str]"
      by (auto simp only: spec_link_def rbind_eq_Inr split_paired_Ex prod.case sum.inject)
    from link_built [OF assms H(1) k(3) refl] k show "\<exists>p H'. compile_Tlink rec T H n = Inr (p, H') \<and> built H e p H'"
      by (simp add: compile_Tlink_def moz_expr_new_Sequence_def halloc_runs(1))
  qed
  show "builds look (compile_Tnew rec T) (spec_new srec T)"
  proof (rule buildsI)
    fix H n e
    assume H: "named look H" "spec_new srec T n = Inr e"
    then obtain c x where c: "child_of T n 0 = Inr c" "srec c = Inr x" "e = E_Sequence [E_Tnew, x, E_Tcapture]"
      by (auto simp: spec_new_def rbind_eq_Inr)
    from new_built [OF assms H(1) c(2) refl] c show "\<exists>p H'. compile_Tnew rec T H n = Inr (p, H') \<and> built H e p H'"
      by (simp add: compile_Tnew_def compile_part_def halloc_runs(1))
  qed
qed

section \<open>The dispatch\<close>

lemma first_tag_related:
  assumes "list_all2 (\<lambda>(t, h) (t', s). t = t' \<and> builds look h s) hs ss" "first_tag T n ss = Inr s"
  shows "\<exists>h. first_tag T n hs = Inr h \<and> builds look h s"
  using assms
proof (induction rule: list_all2_induct)
  case (Cons x xs y ys)
  obtain t h t' s' where xy: "x = (t, h)" "y = (t', s')" by (cases x; cases y) simp
  with Cons.hyps(1) have t: "t = t'" "builds look h s'" by simp_all
  from Cons.prems xy(2) obtain b where b: "tag_is T n t' = Inr b" "(if b then Inr s' else first_tag T n ys) = Inr s" by (auto simp: rbind_eq_Inr)
  show ?case
  proof (cases b)
    case True
    with b t xy(1) show ?thesis by simp
  next
    case False
    with b Cons.IH t(1) xy(1) show ?thesis by simp
  qed
qed simp

lemma handlers_related:
  assumes "builds look rec srec"
  shows "list_all2 (\<lambda>(t, h) (t', s). t = t' \<and> builds look h s) (handlers rec T) (spec_handlers srec T look)"
  unfolding handlers_def spec_handlers_def
  by (simp add: builds_leaves builds_error builds_Invoke builds_InvokeOrStr builds_Byte builds_Set builds_Ttag builds_names
      builds_unary [OF assms] builds_block [OF assms] builds_named [OF assms] builds_lists [OF assms] builds_Repetition [OF assms]
      builds_link [OF assms] del: not_None_eq)

lemma compile_expression_builds: "builds look (compile_expression f T) (spec_expr f T look)"
proof (induction f)
  case 0
  show ?case by (simp add: builds_def)
next
  case (Suc f)
  show ?case
  proof (rule buildsI)
    fix H n e
    assume H: "named look H" "spec_expr (Suc f) T look n = Inr e"
    then obtain s where s: "first_tag T n (spec_handlers (spec_expr f T look) T look) = Inr s" "s n = Inr e"
      by (auto simp: rbind_eq_Inr)
    from first_tag_related [OF handlers_related [OF Suc] s(1)] obtain h where
      "first_tag T n (handlers (compile_expression f T) T) = Inr h" "builds look h s" by blast
    with H(1) s(2) show "\<exists>p H'. compile_expression (Suc f) T H n = Inr (p, H') \<and> built H e p H'" unfolding builds_def by simp
  qed
qed

section \<open>The declarations\<close>

text \<open>The productions of a grammar: the name and the node of the body of each.\<close>

definition spec_prod :: "syntax_tree \<Rightarrow> nptr \<Rightarrow> nat \<Rightarrow> (u8 list \<times> nptr) option res" where
  "spec_prod T n i =
     rbind (child_of T n i) (\<lambda>child. rbind (tag_is T child ''Comment'') (\<lambda>_. rbind (tag_is T child ''Format'') (\<lambda>_.
     rbind (tag_is T child ''Production'') (\<lambda>b. if \<not> b then Inr None else
     rbind (children T child) (\<lambda>k. rbind (rassert (k = 3)) (\<lambda>_.
     rbind (child_of T child 1) (\<lambda>name. rbind (tag_is T name ''Name'') (\<lambda>b1.
     rbind (if b1 then Inr True else tag_is T name ''String'') (\<lambda>b2. rbind (rassert b2) (\<lambda>_.
     rbind (text_of T name) (\<lambda>t. rbind (child_of T child 2) (\<lambda>body. Inr (Some (t, body))))))))))))))"

fun spec_prods :: "syntax_tree \<Rightarrow> nptr \<Rightarrow> nat list \<Rightarrow> (u8 list \<times> nptr) list res" where
  "spec_prods T n [] = Inr []"
| "spec_prods T n (i # is) = rbind (spec_prod T n i) (\<lambda>x. rbind (spec_prods T n is) (\<lambda>ps.
     Inr (case x of None \<Rightarrow> ps | Some p \<Rightarrow> p # ps)))"

fun spec_bodies :: "(nptr \<Rightarrow> expr res) \<Rightarrow> nptr list \<Rightarrow> expr list res" where
  "spec_bodies meaning [] = Inr []"
| "spec_bodies meaning (b # bs) = rbind (meaning b) (\<lambda>e. rbind (spec_bodies meaning bs) (\<lambda>es. Inr (e # es)))"

definition lookup_name :: "u8 list list \<Rightarrow> u8 list \<Rightarrow> dptr option" where
  "lookup_name names t = find_index (\<lambda>nm. length t = length nm \<and> strncmp_list t nm) names 0"

text \<open>The names of the declarations and their bodies.\<close>

definition spec_grammar :: "nat \<Rightarrow> syntax_tree \<Rightarrow> nptr \<Rightarrow> (u8 list list \<times> expr list) res" where
  "spec_grammar f T n = rbind (children T n) (\<lambda>k. rbind (spec_prods T n [0..<k]) (\<lambda>ps.
     rbind (spec_bodies (spec_expr f T (lookup_name (map fst ps))) (map snd ps)) (\<lambda>es. Inr (map fst ps, es))))"

text \<open>The declarations with their counts; the first one is marked as the top level.\<close>

definition decl_of :: "u8 list list \<Rightarrow> expr list \<Rightarrow> eptr list \<Rightarrow> nat \<Rightarrow> dptr \<Rightarrow> pdecl" where
  "decl_of names es ps m d = \<lparr>prefc = (if d = 0 then m else 0) + (\<Sum>e \<leftarrow> es. calls d e), pname = names ! d,
     pbody = (if d < length ps then Some (ps ! d) else None)\<rparr>"

definition grammar_built :: "u8 list list \<Rightarrow> expr list \<Rightarrow> eptr list \<Rightarrow> nat \<Rightarrow> ast_heap \<Rightarrow> bool" where
  "grammar_built names es ps m G \<longleftrightarrow> dlist G = [0..<length names] \<and>
     pdecls G = map (\<lambda>d. Some (decl_of names es ps m d)) [0..<length names] \<and> (\<exists>B. exprs_at G ps es B)"

definition empty_ast :: "bool \<Rightarrow> ast_heap" where
  "empty_ast z = \<lparr>exprs = [], pdecls = [], dlist = [], zeroed = z\<rparr>"

lemma prod_None:
  assumes "spec_prod T n i = Inr None"
  obtains child c f where "child_of T n i = Inr child" "tag_is T child ''Comment'' = Inr c" "tag_is T child ''Format'' = Inr f"
    "tag_is T child ''Production'' = Inr False"
proof -
  from assms obtain child c f b where c: "child_of T n i = Inr child" "tag_is T child ''Comment'' = Inr c" "tag_is T child ''Format'' = Inr f"
      "tag_is T child ''Production'' = Inr b" by (auto simp only: spec_prod_def rbind_eq_Inr)
  moreover from assms have "\<not> b"
    unfolding spec_prod_def c rbind_Inr by (cases b) (auto simp only: if_False not_True_eq_False rbind_eq_Inr sum.inject option.distinct)
  ultimately show ?thesis using that by simp
qed

lemma prod_Some:
  assumes "spec_prod T n i = Inr (Some (t, body))"
  obtains child c f name b1 where "child_of T n i = Inr child" "tag_is T child ''Comment'' = Inr c" "tag_is T child ''Format'' = Inr f"
    "tag_is T child ''Production'' = Inr True" "children T child = Inr 3" "child_of T child 1 = Inr name" "tag_is T name ''Name'' = Inr b1"
    "(if b1 then Inr True else tag_is T name ''String'') = Inr True" "text_of T name = Inr t" "child_of T child 2 = Inr body"
proof -
  from assms obtain child c f b where c: "child_of T n i = Inr child" "tag_is T child ''Comment'' = Inr c" "tag_is T child ''Format'' = Inr f"
      "tag_is T child ''Production'' = Inr b" by (auto simp only: spec_prod_def rbind_eq_Inr)
  moreover from assms have b: "b" unfolding spec_prod_def c rbind_Inr by (cases b) simp_all
  from assms obtain name b1 where "children T child = Inr 3" "child_of T child 1 = Inr name" "tag_is T name ''Name'' = Inr b1"
    "(if b1 then Inr True else tag_is T name ''String'') = Inr True" "text_of T name = Inr t" "child_of T child 2 = Inr body"
    unfolding spec_prod_def c rbind_Inr by (auto simp only: b if_False not_True_eq_False rbind_eq_Inr rassert_eq_Inr sum.inject option.inject prod.inject)
  ultimately show ?thesis using that b by simp
qed

lemma prepare_ok:
  assumes "spec_prods T n js = Inr ps" "grammar_built names [] [] 0 G"
  shows "\<exists>G'. rfold (prepare_child T n) G js = Inr G' \<and> grammar_built (names @ map fst ps) [] [] 0 G' \<and> zeroed G' = zeroed G"
  using assms
proof (induction js arbitrary: ps names G)
  case (Cons j js)
  then obtain x qs where x: "spec_prod T n j = Inr x" "spec_prods T n js = Inr qs" "ps = (case x of None \<Rightarrow> qs | Some p \<Rightarrow> p # qs)"
    by (auto simp: rbind_eq_Inr)
  show ?case
  proof (cases x)
    case None
    obtain child where "child_of T n j = Inr child" "tag_is T child ''Production'' = Inr False"
      using prod_None [OF x(1)[unfolded None]] by blast
    then have "prepare_child T n G j = Inr G" by (simp only: prepare_child_def rbind_Inr not_False_eq_True if_True)
    with Cons.IH [OF x(2) Cons.prems(2)] x(3) None show ?thesis by simp
  next
    case (Some p)
    let ?G = "G\<lparr>pdecls := pdecls G @ [Some \<lparr>prefc = 0, pname = fst p, pbody = None\<rparr>], dlist := dlist G @ [length (pdecls G)]\<rparr>"
    have p: "prepare_child T n G j = Inr ?G"
    proof -
      have sp: "spec_prod T n j = Inr (Some (fst p, snd p))" using x(1) Some by simp
      obtain child name b1 where "child_of T n j = Inr child" "tag_is T child ''Production'' = Inr True" "children T child = Inr 3"
          "child_of T child 1 = Inr name" "tag_is T name ''Name'' = Inr b1" "(if b1 then Inr True else tag_is T name ''String'') = Inr True"
          "text_of T name = Inr (fst p)"
        using prod_Some [OF sp] by metis
      then show ?thesis by (simp only: prepare_child_def rbind_Inr rassert_True [OF refl] rassert_True [OF TrueI] not_True_eq_False if_False
          moz_decl_new_def prod.case)
    qed
    have "map (\<lambda>d. Some (decl_of (names @ [fst p]) [] [] 0 d)) [0..<length names] = map (\<lambda>d. Some (decl_of names [] [] 0 d)) [0..<length names]"
      by (rule map_cong) (simp_all add: decl_of_def nth_append)
    then have "grammar_built (names @ [fst p]) [] [] 0 ?G"
      using Cons.prems(2) by (simp add: grammar_built_def) (simp add: decl_of_def)
    from Cons.IH [OF x(2) this] p x(3) Some show ?thesis by auto
  qed
qed auto

lemma top_ok:
  assumes "grammar_built names [] [] 0 G"
  shows "\<exists>G'. (if length (dlist G) > 0 then moz_decl_mark_as_top_level G (dlist G ! 0) else Inr G) = Inr G' \<and>
    grammar_built names [] [] 1 G' \<and> zeroed G' = zeroed G"
proof (cases names)
  case Nil
  with assms show ?thesis by (auto simp: grammar_built_def)
next
  case (Cons t ts)
  let ?ds = "map (\<lambda>d. Some (decl_of names [] [] 0 d)) [0..<length names]"
  have d: "0 < length names" "pdecls G = ?ds" "0 < length names" "dlist G = [0..<length names]"
    using assms Cons by (simp_all only: grammar_built_def length_Cons zero_less_Suc)
  then have d0: "dlist G ! 0 = 0" by simp
  let ?G = "G\<lparr>pdecls := ?ds[0 := Some (decl_of names [] [] 1 0)]\<rparr>"
  have "decl_retain G 0 = Inr ?G" using d(2,3) by (simp add: decl_retain_def dread_def dwrite_def) (simp add: decl_of_def)
  moreover have "?ds[0 := Some (decl_of names [] [] 1 0)] = map (\<lambda>d. Some (decl_of names [] [] 1 d)) [0..<length names]"
    using d(3) by (intro nth_equalityI) (auto simp: nth_list_update decl_of_def)
  then have "grammar_built names [] [] 1 ?G" using d(4) by (simp add: grammar_built_def)
  ultimately show ?thesis using d0 d(3,4) by (simp add: moz_decl_mark_as_top_level_def)
qed

lemma find_decl_built:
  assumes "pdecls G = map (\<lambda>d. Some (decl_of names es ps m d)) [0..<length names]"
  shows "i \<le> length names \<Longrightarrow> find_decl G t [i..<length names] =
    Inr (find_index (\<lambda>nm. length t = length nm \<and> strncmp_list t nm) (drop i names) i)"
proof (induction "length names - i" arbitrary: i)
  case (Suc k)
  then have i: "i < length names" by simp
  then have "[i..<length names] = i # [Suc i..<length names]" "drop i names = names ! i # drop (Suc i) names"
    by (simp_all add: upt_conv_Cons Cons_nth_drop_Suc)
  moreover have "dread G i = Inr (decl_of names es ps m i)" using assms i by (simp add: dread_def)
  ultimately show ?case using Suc(1) [of "Suc i"] Suc(2) i by (simp add: decl_of_def)
qed simp

lemma find_index_less: "find_index P xs i = Some k \<Longrightarrow> i \<le> k \<and> k < i + length xs"
  by (induction xs arbitrary: i) (fastforce split: if_splits)+

lemma built_named: "grammar_built names es ps m G \<Longrightarrow> named (lookup_name names) G"
  using find_decl_built [of G names es ps m 0] find_index_less [of _ names 0]
  by (fastforce simp: grammar_built_def named_def lookup_name_def)

lemma production_ok:
  assumes G: "grammar_built names es ps 1 G" "length ps = length es" "length ps < length names"
    and e: "spec_expr f T (lookup_name names) body = Inr e" and child: "child_of T child 2 = Inr body"
  shows "\<exists>G' p. compile_production f T G child (length ps) = Inr G' \<and> grammar_built names (es @ [e]) (ps @ [p]) 1 G' \<and> zeroed G' = zeroed G"
proof -
  let ?k = "length ps" and ?n = "length names"
  obtain p G1 where p: "compile_expression f T G body = Inr (p, G1)" "built G e p G1"
    using compile_expression_builds e built_named [OF G(1)] unfolding builds_def by blast
  then obtain A where A: "extends G (\<lambda>d. calls d e) G1" "fresh_at G1 p e A" "A \<subseteq> {length (exprs G)..}" by (auto simp: built_def)
  from G(1) obtain B where B: "dlist G = [0..<?n]" "pdecls G = map (\<lambda>d. Some (decl_of names es ps 1 d)) [0..<?n]" "exprs_at G ps es B"
    unfolding grammar_built_def by blast
  have d1: "pdecls G1 = map (\<lambda>d. Some (decl_of names (es @ [e]) ps 1 d)) [0..<?n]"
    using A(1) B(2) by (intro nth_equalityI) (simp_all add: extends_def nth_bump decl_of_def)
  let ?ds = "(pdecls G1)[?k := Some (decl_of names (es @ [e]) (ps @ [p]) 1 ?k)]"
  have d2: "?ds = map (\<lambda>d. Some (decl_of names (es @ [e]) (ps @ [p]) 1 d)) [0..<?n]"
    unfolding d1 using G(3) by (intro nth_equalityI) (simp_all add: nth_list_update decl_of_def nth_append)
  let ?G = "G1\<lparr>pdecls := ?ds\<rparr>"
  have r: "dread G1 ?k = Inr (decl_of names (es @ [e]) ps 1 ?k)" using d1 G(3) by (simp add: dread_def)
  have b: "pbody (decl_of names (es @ [e]) ps 1 ?k) = None" by (simp add: decl_of_def)
  have w: "dwrite G1 ?k (Some (decl_of names (es @ [e]) ps 1 ?k\<lparr>pbody := Some p\<rparr>)) = Inr ?G"
    using r by (simp add: dwrite_def) (simp add: decl_of_def)
  have fresh: "fresh_at ?G p e A" by (rule fresh_frame [OF A(2)]) (simp add: at_cell_def)
  then obtain y where y: "expr_retain ?G p = Inr (hput ?G p (Some y))" "expr_at (hput ?G p (Some y)) p e A" by (rule fresh_retain)
  have AB: "A \<inter> B = {}" "p \<in> A" using trees_less(2) [OF B(3)] A(2,3) by (fastforce simp: fresh_at_def)+
  have "exprs_at (hput ?G p (Some y)) ps es B"
  proof (rule tree_frame(2) [OF extends_tree(2) [OF A(1) B(3)]])
    fix q c
    assume "q \<in> B" "at_cell G1 q c"
    moreover from this AB have "q \<noteq> p" by auto
    ultimately show "at_cell (hput ?G p (Some y)) q c" by (simp add: at_cell_def hput_def)
  qed
  then have "exprs_at (hput ?G p (Some y)) (ps @ [p]) (es @ [e]) (B \<union> A)" using exprs_single [OF y(2)] AB(1) by (intro trees_appendI) auto
  then have "grammar_built names (es @ [e]) (ps @ [p]) 1 (hput ?G p (Some y))"
    using d2 B(1) A(1) by (auto simp: grammar_built_def extends_def)
  moreover have "compile_production f T G child ?k = Inr (hput ?G p (Some y))"
    using child p(1) r w y(1) b by (simp add: compile_production_def)
  ultimately show ?thesis using A(1) by (auto simp: extends_def)
qed

lemma productions_ok:
  assumes "spec_prods T n js = Inr qs" "names = ns @ map fst qs" "length ns = length ps" "length ps = length es"
    "grammar_built names es ps 1 G" "spec_bodies (spec_expr f T (lookup_name names)) (map snd qs) = Inr es'"
  shows "\<exists>G' ps' k. rfold (production_child f T n) (length ps, G) js = Inr (k, G') \<and> grammar_built names (es @ es') ps' 1 G' \<and>
    zeroed G' = zeroed G \<and> length ps' = length names"
  using assms
proof (induction js arbitrary: qs ns es ps G es')
  case Nil
  then show ?case by auto
next
  case (Cons j js)
  then obtain x rs where x: "spec_prod T n j = Inr x" "spec_prods T n js = Inr rs" "qs = (case x of None \<Rightarrow> rs | Some p \<Rightarrow> p # rs)"
    by (auto simp: rbind_eq_Inr)
  show ?case
  proof (cases x)
    case None
    from prod_None [OF x(1)[unfolded None]] obtain child c f' where "child_of T n j = Inr child" "tag_is T child ''Comment'' = Inr c"
        "tag_is T child ''Format'' = Inr f'" "tag_is T child ''Production'' = Inr False" by metis
    then have "production_child f T n (length ps, G) j = Inr (length ps, G)"
      by (simp only: production_child_def prod.case rbind_Inr if_False)
    with Cons.IH [OF x(2) _ Cons.prems(3,4,5)] Cons.prems(2,6) x(3) None show ?thesis by simp
  next
    case (Some q)
    have sp: "spec_prod T n j = Inr (Some (fst q, snd q))" using x(1) Some by simp
    from prod_Some [OF sp] obtain child c f' where c: "child_of T n j = Inr child" "tag_is T child ''Comment'' = Inr c"
        "tag_is T child ''Format'' = Inr f'" "tag_is T child ''Production'' = Inr True" "child_of T child 2 = Inr (snd q)" by metis
    from Cons.prems(6) x(3) Some obtain e fs where e: "spec_expr f T (lookup_name names) (snd q) = Inr e"
        "spec_bodies (spec_expr f T (lookup_name names)) (map snd rs) = Inr fs" "es' = e # fs" by (auto simp: rbind_eq_Inr)
    have len: "length ps < length names" using Cons.prems(2,3) x(3) Some by simp
    from production_ok [OF Cons.prems(5,4) len e(1) c(5)] obtain G1 p where
      G1: "compile_production f T G child (length ps) = Inr G1" "grammar_built names (es @ [e]) (ps @ [p]) 1 G1" "zeroed G1 = zeroed G" by blast
    have "aread (dlist G) (length ps) = Inr (length ps)" using Cons.prems(5) len by (simp add: grammar_built_def)
    then have "production_child f T n (length ps, G) j = Inr (length (ps @ [p]), G1)"
      using G1(1) c by (simp only: production_child_def prod.case rbind_Inr if_True) simp
    with Cons.IH [OF x(2) _ _ _ G1(2) e(2), of "ns @ [fst q]"] Cons.prems(2-4) x(3) Some e(3) G1(3) show ?thesis by auto
  qed
qed

lemma node_to_ast_built:
  assumes "spec_grammar f T n = Inr (names, es)"
  shows "\<exists>H ps. node_to_ast f T (empty_ast z) n = Inr H \<and> grammar_built names es ps 1 H \<and> zeroed H = z \<and> length ps = length names"
proof -
  from assms obtain k qs where k: "children T n = Inr k" "spec_prods T n [0..<k] = Inr qs" "names = map fst qs"
      "spec_bodies (spec_expr f T (lookup_name names)) (map snd qs) = Inr es" by (auto simp: spec_grammar_def rbind_eq_Inr)
  have "grammar_built [] [] [] 0 (empty_ast z)" by (simp add: grammar_built_def empty_ast_def)
  from prepare_ok [OF k(2) this] k(3) obtain H1 where H1: "rfold (prepare_child T n) (empty_ast z) [0..<k] = Inr H1"
      "grammar_built names [] [] 0 H1" "zeroed H1 = z" by (auto simp: empty_ast_def)
  from top_ok [OF H1(2)] obtain H2 where H2: "(if length (dlist H1) > 0 then moz_decl_mark_as_top_level H1 (dlist H1 ! 0) else Inr H1) = Inr H2"
      "grammar_built names [] [] 1 H2" "zeroed H2 = z" using H1(3) by blast
  have "names = [] @ map fst qs" using k(3) by simp
  from productions_ok [OF k(2) this _ _ H2(2) k(4)] H2(3) obtain H ps j where
    H: "rfold (production_child f T n) (0, H2) [0..<k] = Inr (j, H)" "grammar_built names es ps 1 H" "zeroed H = z" "length ps = length names"
    by (metis append_Nil list.size(3))
  have "node_to_ast f T (empty_ast z) n = Inr H"
    using k(1) H1(1) H2(1) H(1) by (simp add: node_to_ast_def moz_ast_prepare_def)
  with H(2-4) show ?thesis by blast
qed


end
