(* ===== verification/Expr_Source.thy ===== *)
theory Expr_Source
  imports Expr_Build
begin

text \<open>
  From the syntax tree of a grammar to its optimised expressions: \<open>moz_node_to_ast\<close> of
  \<open>src/src/compiler/expression.c\<close> as a whole, on a concrete tree and in general.
\<close>

section \<open>The sets of the source\<close>

lemma bitset_set_Inr: "bitset_set s i = Inr t \<Longrightarrow> bitset_wf s \<Longrightarrow> bitset_wf t"
  by (auto simp: bitset_set_def bitset_wf_def rbind_eq_Inr awrite_def split: if_splits)

lemma set_range_wf:
  assumes "set_range s r = Inr t" "bitset_wf s"
  shows "bitset_wf t"
proof -
  have "bitset_wf t" if "rfold bitset_set s js = Inr t" "bitset_wf s" for js s t
    using that by (induction js arbitrary: s) (auto simp: rbind_eq_Inr dest: bitset_set_Inr)
  with assms show ?thesis by (auto simp: set_range_def rbind_eq_Inr split: prod.splits)
qed

lemma set_ranges_wf: "rfold set_range s rs = Inr t \<Longrightarrow> bitset_wf s \<Longrightarrow> bitset_wf t"
  by (induction rs arbitrary: s) (auto simp: rbind_eq_Inr dest: set_range_wf)

definition gives_wf :: "(nptr \<Rightarrow> expr res) \<Rightarrow> bool" where
  "gives_wf spec \<longleftrightarrow> (\<forall>n e. spec n = Inr e \<longrightarrow> sets_wf e)"

lemma spec_list_wf:
  assumes "gives_wf rec" "spec_list rec T n = Inr es"
  shows "list_all sets_wf es"
proof -
  have "list_all sets_wf es" if "rfold (\<lambda>es i. rbind (child_of T n i) (\<lambda>child. rbind (rec child) (\<lambda>e. Inr (es @ [e])))) ds js = Inr es"
      "list_all sets_wf ds" for ds js es
    using that assms(1) by (induction js arbitrary: ds) (auto simp: rbind_eq_Inr gives_wf_def)
  with assms(2) show ?thesis by (auto simp: spec_list_def rbind_eq_Inr)
qed

lemma spec_byte_wf: "gives_wf (spec_byte T)"
proof -
  have str: "sets_wf e" if "spec_text T spec_str n = Inr e" for n e using that by (auto simp: spec_text_def spec_str_def rbind_eq_Inr)
  have esc: "sets_wf e" if "(case c of Some byte \<Rightarrow> Inr (E_Byte byte) | None \<Rightarrow> spec_text T spec_str n) = Inr e" for c n e
    using that str by (cases c) auto
  have "sets_wf e" if "(if b then Inr E_Empty else rbind m (\<lambda>byte. if b' then Inr (E_Byte byte)
      else rbind x (\<lambda>c. case c of Some byte \<Rightarrow> Inr (E_Byte byte) | None \<Rightarrow> spec_text T spec_str n))) = Inr e" for b b' m x n e
    using that esc by (cases b; cases b') (auto simp: rbind_eq_Inr)
  then show ?thesis unfolding gives_wf_def spec_byte_def rbind_eq_Inr by blast
qed

lemma spec_set_wf: "gives_wf (spec_set T)"
proof -
  have "sets_wf e" if "(if b then if c then Inr (E_Byte x) else Inl AssertFail else rbind (rfold set_range no_bytes data) (\<lambda>s. Inr (E_Set s))) = Inr e"
    for b c x data e
    using that by (auto simp: rbind_eq_Inr no_bytes_def dest: set_ranges_wf split: if_splits)
  then show ?thesis unfolding gives_wf_def spec_set_def rbind_eq_Inr by blast
qed

lemma spec_handlers_wf:
  assumes "gives_wf rec"
  shows "list_all (\<lambda>(t, s). gives_wf s) (spec_handlers rec T look)"
proof -
  have "gives_wf (spec_only rec T E_And)" "gives_wf (spec_only rec T E_Not)" "gives_wf (spec_only rec T E_Option)"
    "gives_wf (spec_only rec T (\<lambda>e. E_Repetition [e]))" "gives_wf (spec_block rec T)" "gives_wf (spec_new rec T)"
    "gives_wf (spec_named rec T E_Xlocal)" "gives_wf (spec_named rec T E_Xsymbol)"
    using assms by (auto simp: gives_wf_def spec_only_def spec_block_def spec_new_def spec_named_def rbind_eq_Inr)
  moreover have "gives_wf (spec_link rec T)"
    using assms unfolding gives_wf_def spec_link_def rbind_eq_Inr split_paired_Ex prod.case by auto
  moreover have "gives_wf (\<lambda>n. rbind (spec_list rec T n) (\<lambda>es. Inr (E_Choice es)))"
    "gives_wf (\<lambda>n. rbind (spec_list rec T n) (\<lambda>es. Inr (E_Sequence es)))"
    using spec_list_wf [OF assms] by (auto simp: gives_wf_def rbind_eq_Inr)
  moreover have "gives_wf (spec_name T E_Xexists)" "gives_wf (spec_name T E_Xis)" "gives_wf (spec_name T E_Xisa)"
    "gives_wf (spec_text T (spec_call look))" "gives_wf (spec_text T (\<lambda>t. Inr (E_Ttag t)))"
    "gives_wf (spec_text T (\<lambda>t. if look t \<noteq> None then spec_call look t else spec_str t))"
    by (auto simp: gives_wf_def spec_name_def spec_text_def spec_call_def spec_str_def rbind_eq_Inr split: if_splits)
  moreover have "gives_wf (\<lambda>n. Inl x)" for x by (simp add: gives_wf_def)
  moreover have "gives_wf (\<lambda>n. Inr E_Any)" "gives_wf (\<lambda>n. Inr E_Empty)" "gives_wf (\<lambda>n. Inr E_Tcapture)" by (simp_all add: gives_wf_def)
  ultimately show ?thesis unfolding spec_handlers_def by (simp add: spec_byte_wf spec_set_wf del: not_None_eq)
qed

lemma first_tag_all: "first_tag T n hs = Inr h \<Longrightarrow> list_all (\<lambda>(t, s). P s) hs \<Longrightarrow> P h"
  by (induction hs) (auto simp: rbind_eq_Inr split: if_splits)

lemma spec_expr_wf: "gives_wf (spec_expr f T look)"
proof (induction f)
  case (Suc f)
  have "sets_wf e" if e: "spec_expr (Suc f) T look n = Inr e" for n e
  proof -
    from e obtain s where s: "first_tag T n (spec_handlers (spec_expr f T look) T look) = Inr s" "s n = Inr e" by (auto simp: rbind_eq_Inr)
    from first_tag_all [OF s(1) spec_handlers_wf [OF Suc]] s(2) show ?thesis by (simp add: gives_wf_def)
  qed
  then show ?case by (simp add: gives_wf_def)
qed (simp add: gives_wf_def)

lemma spec_grammar_wf: "spec_grammar f T n = Inr (names, es) \<Longrightarrow> list_all sets_wf es"
proof -
  have "list_all sets_wf es" if "spec_bodies rec bs = Inr es" "gives_wf rec" for rec bs es
    using that by (induction bs arbitrary: es) (auto simp: rbind_eq_Inr gives_wf_def)
  then show "spec_grammar f T n = Inr (names, es) \<Longrightarrow> list_all sets_wf es"
    using spec_expr_wf by (auto simp: spec_grammar_def rbind_eq_Inr)
qed

section \<open>The whole\<close>


section \<open>Reading the heap\<close>

definition unfold1 :: "enode \<Rightarrow> expr list \<Rightarrow> expr" where
  "unfold1 n es = (case n of
       N_Empty \<Rightarrow> E_Empty | N_Invoke t d \<Rightarrow> E_Invoke t d | N_Any \<Rightarrow> E_Any | N_Byte b \<Rightarrow> E_Byte b | N_Str t \<Rightarrow> E_Str t
     | N_Set s \<Rightarrow> E_Set s | N_And _ \<Rightarrow> E_And (es ! 0) | N_Choice _ \<Rightarrow> E_Choice es | N_Fail \<Rightarrow> E_Fail | N_Not _ \<Rightarrow> E_Not (es ! 0)
     | N_Option _ \<Rightarrow> E_Option (es ! 0) | N_Sequence _ \<Rightarrow> E_Sequence es | N_Repetition _ \<Rightarrow> E_Repetition es
     | N_Tcapture \<Rightarrow> E_Tcapture | N_Tdetree \<Rightarrow> E_Tdetree | N_Tlfold \<Rightarrow> E_Tlfold | N_Tpush \<Rightarrow> E_Tpush | N_Tpop t \<Rightarrow> E_Tpop t
     | N_Tnew \<Rightarrow> E_Tnew | N_Treplace \<Rightarrow> E_Treplace | N_Ttag t \<Rightarrow> E_Ttag t | N_Xblock _ \<Rightarrow> E_Xblock (es ! 0)
     | N_Xexists t \<Rightarrow> E_Xexists t | N_Xif \<Rightarrow> E_Xif | N_Xis t \<Rightarrow> E_Xis t | N_Xisa t \<Rightarrow> E_Xisa t | N_Xon \<Rightarrow> E_Xon
     | N_Xmatch \<Rightarrow> E_Xmatch | N_Xlocal t _ \<Rightarrow> E_Xlocal t (es ! 0) | N_Xsymbol t _ \<Rightarrow> E_Xsymbol t (es ! 0))"

fun node_parts :: "enode \<Rightarrow> eptr list" where
  "node_parts (N_And e) = [e]"
| "node_parts (N_Not e) = [e]"
| "node_parts (N_Option e) = [e]"
| "node_parts (N_Xblock e) = [e]"
| "node_parts (N_Xlocal _ e) = [e]"
| "node_parts (N_Xsymbol _ e) = [e]"
| "node_parts (N_Choice es) = es"
| "node_parts (N_Sequence es) = es"
| "node_parts (N_Repetition es) = es"
| "node_parts _ = []"

text \<open>The budget bounds the depth.\<close>

fun read_expr :: "nat \<Rightarrow> ast_heap \<Rightarrow> eptr \<Rightarrow> expr res" where
  "read_expr 0 H p = Inl NoFuel"
| "read_expr (Suc f) H p = rbind (etype H p) (\<lambda>n.
     rbind (rfold (\<lambda>es q. rbind (read_expr f H q) (\<lambda>e. Inr (es @ [e]))) [] (node_parts n)) (\<lambda>es. Inr (unfold1 n es)))"

text \<open>The bodies of the declarations that are left.\<close>

definition read_bodies :: "nat \<Rightarrow> ast_heap \<Rightarrow> expr res list" where
  "read_bodies f H = map (\<lambda>d. rbind (loc_read H (LBody d)) (read_expr f H)) (dlist H)"

section \<open>A source\<close>

text \<open>A syntax tree as a parser leaves it.\<close>

definition tag_bytes :: "string \<Rightarrow> u8 list" where
  "tag_bytes s = store32 (of_nat (length s)) @ chars s"

definition source_node :: "nat \<Rightarrow> nat \<Rightarrow> nat \<Rightarrow> node_entry \<Rightarrow> node" where
  "source_node tag str len e = null_node\<lparr>ntag := tag, npos := str, nlen := len, nentry := e\<rparr>"

text \<open>Sources as trees: the text at 5, behind it the tags.\<close>

definition source_tree :: "string \<Rightarrow> string list \<Rightarrow> node list \<Rightarrow> syntax_tree" where
  "source_tree text names nodes = \<lparr>text_mem = [0, 0, 0, 0, 0] @ chars text @ concat (map tag_bytes names),
     node_mem = \<lparr>cells = null_node # nodes, free_list = 0, free_object_count = 0, current_page = []\<rparr>\<rparr>"

text \<open>\<open>A=ab\<close>\<close>

definition example_source :: syntax_tree where
  "example_source = source_tree ''A=ab'' [''Production'', ''Name'', ''Sequence'', ''Character'']
     [source_node 0 5 4 (RawEntry 1 [2, 0]),
      source_node 13 5 4 (ArrayEntry \<lparr>asize = 3, capacity = 4, alist = [3, 3, 4, 0]\<rparr>),
      source_node 27 5 1 (RawEntry 0 [0, 0]),
      source_node 35 7 2 (RawEntry 2 [5, 6]),
      source_node 47 7 1 (RawEntry 0 [0, 0]),
      source_node 47 8 1 (RawEntry 0 [0, 0])]"

lemma example_source_spec: "spec_grammar 3 example_source 1 = Inr ([[65]], [E_Sequence [E_Byte 97, E_Byte 98]])"
  by code_simp



end
