(* ===== verification/Expr_Faults.thy ===== *)
theory Expr_Faults
  imports Expr_Source
begin

text \<open>
  Where \<open>src/src/compiler/expression.c\<close> leaves what the previous theories show: escapes and character
  classes at their bounds, expressions that are shared, freed memory and freed declarations.
\<close>

section \<open>Grammars on the heap\<close>

text \<open>Grammars as the front end leaves them: the cells with their counts, and the declarations.\<close>

definition counted :: "nat \<Rightarrow> enode \<Rightarrow> ecell option" where
  "counted k n = Some \<lparr>erefc = k, enode = n\<rparr>"

definition declared :: "nat \<Rightarrow> u8 \<Rightarrow> eptr \<Rightarrow> pdecl option" where
  "declared k c p = Some \<lparr>prefc = k, pname = [c], pbody = Some p\<rparr>"

definition grammar_heap :: "bool \<Rightarrow> ecell option list \<Rightarrow> pdecl option list \<Rightarrow> ast_heap" where
  "grammar_heap z cs ds = \<lparr>exprs = cs, pdecls = ds, dlist = [0..<length ds], zeroed = z\<rparr>"

text \<open>\<open>A = B '1' / B '2'; B = "xy"\<close>\<close>

definition inline_ast :: ast_heap where
  "inline_ast = grammar_heap True
     [counted 1 (N_Choice [1, 4]), counted 1 (N_Sequence [2, 3]), counted 1 (N_Invoke [66] (Some 1)), counted 1 (N_Byte 49),
      counted 1 (N_Sequence [5, 6]), counted 1 (N_Invoke [66] (Some 1)), counted 1 (N_Byte 50), counted 1 (N_Str [120, 121])]
     [declared 1 65 0, declared 2 66 7]"

text \<open>\<open>A = ('a' 'b')+\<close>; the sequence is an element of two lists.\<close>

definition repeat_ast :: "bool \<Rightarrow> ast_heap" where
  "repeat_ast z = grammar_heap z
     [counted 1 (N_Sequence [2, 1]), counted 1 (N_Repetition [2]), counted 2 (N_Sequence [3, 4]), counted 1 (N_Byte 97),
      counted 1 (N_Byte 98)] [declared 1 65 0]"

text \<open>\<open>A = 'a'; B = C 'b'; C = 'x' C / 'y'; D = B B\<close>\<close>

definition unused_ast :: ast_heap where
  "unused_ast = grammar_heap False
     [counted 1 (N_Byte 97), counted 1 (N_Sequence [2, 3]), counted 1 (N_Invoke [67] (Some 2)), counted 1 (N_Byte 98),
      counted 1 (N_Choice [5, 8]), counted 1 (N_Sequence [6, 7]), counted 1 (N_Byte 120), counted 1 (N_Invoke [67] (Some 2)),
      counted 1 (N_Byte 121), counted 1 (N_Sequence [10, 11]), counted 1 (N_Invoke [66] (Some 1)), counted 1 (N_Invoke [66] (Some 1))]
     [declared 1 65 0, declared 2 66 1, declared 2 67 4, declared 0 68 9]"

lemma inline_runs:
  "read_bodies 5 inline_ast = [Inr (E_Choice [E_Sequence [E_Invoke [66] (Some 1), E_Byte 49],
     E_Sequence [E_Invoke [66] (Some 1), E_Byte 50]]), Inr (E_Str [120, 121])]"
  "rbind (moz_ast_optimize 5 5 inline_ast) (\<lambda>H. Inr (read_bodies 5 H)) =
     Inr [Inr (E_Choice [E_Str [120, 121, 49, 50], E_Str [120, 121, 49, 50]])]"
  by code_simp+


lemma repeat_runs:
  "read_bodies 5 (repeat_ast True) =
     [Inr (E_Sequence [E_Sequence [E_Byte 97, E_Byte 98], E_Repetition [E_Sequence [E_Byte 97, E_Byte 98]]])]"
  "rbind (moz_ast_optimize 5 5 (repeat_ast True)) (\<lambda>H. Inr (read_bodies 5 H)) =
     Inr [Inr (E_Sequence [E_Str [97, 98], E_Repetition [E_Sequence []]])]"
  "moz_ast_optimize 5 5 (repeat_ast False) = Inl NullDeref"
  by code_simp+

lemma rep_empty_stuck: "\<not> yields D I (E_Repetition [E_Sequence []]) i s r"
proof -
  have "e \<noteq> E_Repetition [E_Sequence []]" if "yields D I e i s r" for e i s r
    using that by (induction rule: yields_yields_seq_yields_alt.inducts(1)
      [where ?P2.0 = "\<lambda>_ _ _ _. True" and ?P3.0 = "\<lambda>_ _ _ _. True"]) auto
  then show ?thesis by blast
qed


lemma unused_runs:
  "read_bodies 5 unused_ast = [Inr (E_Byte 97), Inr (E_Sequence [E_Invoke [67] (Some 2), E_Byte 98]),
     Inr (E_Choice [E_Sequence [E_Byte 120, E_Invoke [67] (Some 2)], E_Byte 121]),
     Inr (E_Sequence [E_Invoke [66] (Some 1), E_Invoke [66] (Some 1)])]"
  "rbind (moz_ast_optimize 5 5 unused_ast) (\<lambda>H. Inr (dlist H, pdecls H ! 1)) = Inr ([0, 1, 2], None)"
  by code_simp+


section \<open>Escapes and classes\<close>

text \<open>C39: Of the two digits of a hexadecimal escape only the second one counts, in a character and in a
class, because the first is shifted out of the byte it is kept in: \<open>41\<close> gives 1 and not 65.\<close>

theorem escape_loses_digit:
  assumes "valid m p 4" "bytes m p 4 = [92, 120, d1, d2]"
  shows "parseEscapedChar m p = Inr (Some (ucast (to_hex d2))) \<and> parseClass m p = Inr (ucast (ucast (to_hex d2) :: u8))"
proof -
  have m: "mread m (p + i) = Inr ([92, 120, d1, d2] ! i)" if "i < 4" for i
  proof -
    have "bytes m p 4 ! i = m ! (p + i)" "p + i < length m" "0 < p" using that assms(1) by (simp_all add: bytes_def valid_def)
    then show ?thesis using assms(2) by (simp add: mread_ok)
  qed
  have h: "ucast (push_bit 8 (ucast c :: u32) OR x :: u32) = (ucast x :: u8)" for c :: u8 and x :: u32
    by (rule bit_word_eqI) (simp add: bit_simps)
  have "mread m (p + 2) = Inr d1" "mread m (p + 2 + 1) = Inr d2" using m [of 2] m [of 3] by (simp_all add: eval_nat_numeral)
  then have "hex_byte m (p + 2) = Inr (ucast (to_hex d2))" by (simp only: hex_byte_def Let_def rbind_Inr h)
  then show ?thesis using m [of 0] m [of 1] by (simp add: parseEscapedChar_def parseClass_def)
qed

lemma escape_loses_digit_witness:
  "parseEscapedChar [0, 92, 120, 52, 49] 1 = Inr (Some (ucast (to_hex 49))) \<and>
   parseClass [0, 92, 120, 52, 49] 1 = Inr (ucast (ucast (to_hex 49) :: u8)) \<and> to_hex 49 = 1"
  using escape_loses_digit [of "[0, 92, 120, 52, 49]" 1 52 49] by (simp add: valid_def bytes_def to_hex_def)

text \<open>C40: A character class with bounds up to 255 becomes the set of exactly the bytes in its ranges. A
range that ends at 256 passes the check of its bounds and writes behind the set, and a larger bound
stops with an assertion.\<close>

theorem class_ranges:
  assumes "list_all (\<lambda>(a, b). a \<le> b \<and> b < 256) data"
  shows "(\<exists>s. moz_expr_new_Set H data = EXPR_ALLOC H (N_Set s) \<and> bitset_wf s \<and> elems s = (\<Union>(a, b) \<in> set data. {unat a..unat b})) \<and>
    (a \<le> 256 \<longrightarrow> moz_expr_new_Set H (data @ [(a, 256)]) = Inl OutOfBounds) \<and> (256 < b \<longrightarrow> moz_expr_new_Set H (data @ [(a, b)]) = Inl AssertFail)"
proof -
  have loop: "\<exists>t. rfold bitset_set s js = Inr t \<and> bitset_wf t \<and> elems t = elems s \<union> set js" if "bitset_wf s" "list_all (\<lambda>j. j < 256) js" for s js
    using that
  proof (induction js arbitrary: s)
    case (Cons j js)
    then obtain t where t: "bitset_set s j = Inr t" "bitset_wf t" "elems t = insert j (elems s)" using bitset_set_ok [of s j] by auto
    from Cons.IH [OF t(2)] Cons.prems t(1,3) show ?case by auto
  qed simp
  have range: "\<exists>t. set_range s (a, b) = Inr t \<and> bitset_wf t \<and> elems t = elems s \<union> {unat a..unat b}"
    if s: "bitset_wf s" "a \<le> b" "b < 256" for s a b
  proof -
    have b: "unat b < 256" using s(3) by (simp add: word_less_nat_alt)
    have "\<not> (a > 256 \<or> b > 256)" using s(2,3) by auto
    moreover have "list_all (\<lambda>j. j < 256) [unat a..<unat b + 1]" using b by (auto simp: list_all_iff)
    moreover have "set [unat a..<unat b + 1] = {unat a..unat b}" by auto
    ultimately show ?thesis using loop [OF s(1), of "[unat a..<unat b + 1]"] by (simp only: set_range_def prod.case rassert_True rbind_Inr not_False_eq_True)
  qed
  have all: "\<exists>t. rfold set_range s rs = Inr t \<and> bitset_wf t \<and> elems t = elems s \<union> (\<Union>(a, b) \<in> set rs. {unat a..unat b})"
    if "bitset_wf s" "list_all (\<lambda>(a, b). a \<le> b \<and> b < 256) rs" for s rs
    using that
  proof (induction rs arbitrary: s)
    case (Cons r rs)
    obtain x y where r: "r = (x, y)" by (cases r)
    with Cons.prems range [of s x y] obtain t where t: "set_range s r = Inr t" "bitset_wf t" "elems t = elems s \<union> {unat x..unat y}" by auto
    from Cons.IH [OF t(2)] Cons.prems t(1,3) r show ?case by auto
  qed simp
  from all [OF bitset_init_wf assms, of "\<lparr>bdata = []\<rparr>"] obtain t where t: "rfold set_range (bitset_init \<lparr>bdata = []\<rparr>) data = Inr t" "bitset_wf t"
      "elems t = (\<Union>(a, b) \<in> set data. {unat a..unat b})" by auto
  have "set_range t (a, 256) = Inl OutOfBounds" if "a \<le> 256"
  proof -
    have a: "unat a \<le> 256" using that by (simp add: word_le_nat_alt)
    have "[unat a..<unat (256 :: u32) + 1] = [unat a..<256] @ [256]" using a upt_Suc_append [of "unat a" 256] by simp
    moreover have "list_all (\<lambda>j. j < 256) [unat a..<256]" by (simp add: list_all_iff)
    ultimately show ?thesis using loop [OF t(2), of "[unat a..<256]"] that a
      by (auto simp: set_range_def rfold_append bitset_set_def bitset_wf_def BITS_def)
  qed
  moreover have "set_range t (a, b) = Inl AssertFail" if "256 < b" using that by (simp add: set_range_def)
  ultimately show ?thesis using t by (auto simp: moz_expr_new_Set_def rfold_append)
qed

lemma class_ranges_witness:
  "\<exists>s. moz_expr_new_Set (empty_ast True) [(48, 57), (95, 95)] = EXPR_ALLOC (empty_ast True) (N_Set s) \<and> bitset_wf s \<and> 95 \<in> elems s \<and> 96 \<notin> elems s"
  using class_ranges [of "[(48, 57), (95, 95)]" "empty_ast True" 0 0] by auto

end
