(* ===== verification/Compile.thy ===== *)
theory Compile
  imports Expr_Faults VM2 Cfg
begin

text \<open>
  The compiler as a whole: \<open>moz_compiler_compile\<close> of \<open>src/src/compiler/compiler.c\<close>, from the syntax tree of
  a grammar to a module of the second virtual machine. The code generator only reads the expressions
  that the front end leaves on its heap, so it gets what can be read from there.
\<close>

section \<open>Calls\<close>

text \<open>The call of a declaration that is no longer there reads freed memory.\<close>

definition call_index :: "ast_heap \<Rightarrow> dptr \<Rightarrow> nat res" where
  "call_index H d = (case find_index (\<lambda>x. x = d) (dlist H) 0 of None \<Rightarrow> Inl NullDeref | Some i \<Rightarrow> Inr i)"

fun link_calls :: "ast_heap \<Rightarrow> expr \<Rightarrow> expr res" and link_calls_list :: "ast_heap \<Rightarrow> expr list \<Rightarrow> expr list res" where
  "link_calls H (E_Invoke t (Some d)) = rbind (call_index H d) (\<lambda>i. Inr (E_Invoke t (Some i)))"
| "link_calls H (E_And e) = rbind (link_calls H e) (\<lambda>e. Inr (E_And e))"
| "link_calls H (E_Not e) = rbind (link_calls H e) (\<lambda>e. Inr (E_Not e))"
| "link_calls H (E_Option e) = rbind (link_calls H e) (\<lambda>e. Inr (E_Option e))"
| "link_calls H (E_Xblock e) = rbind (link_calls H e) (\<lambda>e. Inr (E_Xblock e))"
| "link_calls H (E_Xlocal t e) = rbind (link_calls H e) (\<lambda>e. Inr (E_Xlocal t e))"
| "link_calls H (E_Xsymbol t e) = rbind (link_calls H e) (\<lambda>e. Inr (E_Xsymbol t e))"
| "link_calls H (E_Choice es) = rbind (link_calls_list H es) (\<lambda>es. Inr (E_Choice es))"
| "link_calls H (E_Sequence es) = rbind (link_calls_list H es) (\<lambda>es. Inr (E_Sequence es))"
| "link_calls H (E_Repetition es) = rbind (link_calls_list H es) (\<lambda>es. Inr (E_Repetition es))"
| "link_calls H e = Inr e"
| "link_calls_list H [] = Inr []"
| "link_calls_list H (e # es) = rbind (link_calls H e) (\<lambda>e. rbind (link_calls_list H es) (\<lambda>es. Inr (e # es)))"

definition read_decl :: "ast_heap \<Rightarrow> dptr \<Rightarrow> decl res" where
  "read_decl H d =
     rbind (dread H d) (\<lambda>c. rbind (loc_read H (LBody d)) (\<lambda>p. rbind (read_expr (length (exprs H) + 1) H p) (\<lambda>e.
     rbind (link_calls H e) (\<lambda>e. Inr \<lparr>drefc = prefc c, dname = pname c, dbody = e, dinst = None\<rparr>))))"

definition read_decls :: "ast_heap \<Rightarrow> decl list res" where
  "read_decls H = rfold (\<lambda>ds d. rbind (read_decl H d) (\<lambda>x. Inr (ds @ [x]))) [] (dlist H)"

section \<open>The compiler\<close>

text \<open>\<open>f\<close> bounds the depth of the syntax tree, \<open>r\<close> the rounds and \<open>g\<close> the depth of the optimiser of
expressions, \<open>w\<close> the rounds of the simplification of blocks. The rest is what the module is made with.\<close>

definition compile_heap :: "nat \<Rightarrow> nat \<Rightarrow> nat \<Rightarrow> ast_heap \<Rightarrow> compiler res" where
  "compile_heap r g w H =
     rbind (moz_ast_optimize r g H) (\<lambda>H. rbind (read_decls H) (\<lambda>ds.
     rbind (moz_ast_to_ir (moz_compiler_init\<lparr>decls := ds\<rparr>)) (\<lambda>C. moz_ir_optimize w C)))"

definition moz_compiler_compile ::
  "nat \<Rightarrow> nat \<Rightarrow> nat \<Rightarrow> nat \<Rightarrow> bool \<Rightarrow> u8 list \<Rightarrow> vm \<Rightarrow> mem \<Rightarrow> token_t \<Rightarrow> (u8 list \<Rightarrow> addr) \<Rightarrow> syntax_tree \<Rightarrow> nptr \<Rightarrow> vm2_module res" where
  "moz_compiler_compile f r g w z wblock v m st str_at T n =
     rbind (node_to_ast f T (empty_ast z) n) (\<lambda>H. rbind (compile_heap r g w H) (\<lambda>C.
       moz_vm2_module_compile wblock v m st str_at C))"

section \<open>Runs of compiled grammars\<close>

text \<open>A module with an empty runtime, and the status and the position it ends with.\<close>

definition empty_runtime :: vm where
  "empty_runtime = \<lparr>pc = 0, cur = 0, vsp = 15, vfp = 15, stack = replicate 32 (SNum 0), hd_pos = 0, tl_pos = 0,
     vast = \<lparr>logs = ARRAY_init [], last_linked = 0, parsed = 0, source = 0\<rparr>,
     vheap = \<lparr>cells = [], free_list = 0, free_object_count = 0, current_page = []\<rparr>,
     vtable = \<lparr>sstate = 0, table = ARRAY_init []\<rparr>, vmemo = \<lparr>ary = ARRAY_init [], shift = 0, mask = 0\<rparr>\<rparr>"

definition run_heap :: "ast_heap \<Rightarrow> u8 list \<Rightarrow> (int \<times> addr) res" where
  "run_heap H i =
     rbind (compile_heap 5 5 20 H) (\<lambda>C.
     rbind (moz_vm2_module_compile (replicate 32 0) empty_runtime (0 # i @ [0]) \<lparr>ts = 0, tlen = 0\<rparr> (\<lambda>_. 0) C) (\<lambda>M.
     rbind (moz_vm2_runtime_parse 40 (mconst M) (mruntime M) 0 1 (length i + 1)) (\<lambda>(r, v). Inr (r, cur v))))"

text \<open>\<open>A = . 'b' / 'a'\<close>\<close>

definition any_ast :: ast_heap where
  "any_ast = grammar_heap False
     [counted 1 (N_Choice [1, 4]), counted 1 (N_Sequence [2, 3]), counted 1 N_Any, counted 1 (N_Byte 98), counted 1 (N_Byte 97)]
     [declared 1 65 0]"

text \<open>\<open>A = B / 'c'; B = 'x' B / 'y'\<close>\<close>

definition call_ast :: ast_heap where
  "call_ast = grammar_heap False
     [counted 1 (N_Choice [1, 2]), counted 1 (N_Invoke [66] (Some 1)), counted 1 (N_Byte 99), counted 1 (N_Choice [4, 7]),
      counted 1 (N_Sequence [5, 6]), counted 1 (N_Byte 120), counted 1 (N_Invoke [66] (Some 1)), counted 1 (N_Byte 121)]
     [declared 1 65 0, declared 2 66 3]"

lemma any_bodies: "read_bodies 5 any_ast = [Inr (E_Choice [E_Sequence [E_Any, E_Byte 98], E_Byte 97])]"
  by code_simp

lemma any_accepts: "run_heap any_ast [97, 98] = Inr (0, 3)"
  by code_simp

lemma any_rejects: "run_heap any_ast [97] = Inr (1, 1)"
  by code_simp

lemma call_bodies: "read_bodies 5 call_ast = [Inr (E_Choice [E_Invoke [66] (Some 1), E_Byte 99]),
     Inr (E_Choice [E_Sequence [E_Byte 120, E_Invoke [66] (Some 1)], E_Byte 121])]"
  by code_simp

lemma call_stops: "run_heap call_ast [99] = Inl BadSlot"
  by code_simp

lemma any_yields: "yields D I (E_Choice [E_Sequence [E_Any, E_Byte 98], E_Byte 97]) [97] s (Some ([], s))"
  by (simp add: one_def)

lemma byte_no: "b \<noteq> c \<Longrightarrow> yields D I (E_Byte b) (c # i) s None"
  by (simp add: one_def)

lemma call_yields: "yields [1 \<mapsto> E_Choice [E_Sequence [E_Byte 120, E_Invoke [66] (Some 1)], E_Byte 121]] I
     (E_Choice [E_Invoke [66] (Some 1), E_Byte 99]) [99] s (Some ([], s))"
  (is "yields ?D I _ _ _ _")
proof -
  note rules = yields_yields_seq_yields_alt.Sequence yields_yields_seq_yields_alt.Seq_no yields_yields_seq_yields_alt.Choice
    yields_yields_seq_yields_alt.Alt_no yields_yields_seq_yields_alt.Alt_ok yields_yields_seq_yields_alt.Alt_Nil byte_no
  have x: "(120 :: u8) \<noteq> 99" "(121 :: u8) \<noteq> 99"
    by simp_all
  have "yields ?D I (E_Choice [E_Sequence [E_Byte 120, E_Invoke [66] (Some 1)], E_Byte 121]) [99] s None"
    by (intro rules x)
  then have "yields ?D I (E_Invoke [66] (Some 1)) [99] s None"
    by (rule yields_yields_seq_yields_alt.Invoke [rotated]) (simp only: fun_upd_same)
  moreover have "yields ?D I (E_Byte 99) [99] s (Some ([], s))"
    by (simp add: one_def)
  ultimately show ?thesis
    by (intro yields_yields_seq_yields_alt.Choice yields_yields_seq_yields_alt.Alt_no yields_yields_seq_yields_alt.Alt_ok)
qed


end
