(* ===== verification/Md5.thy ===== *)
theory Md5
  imports Moz_Prelude
begin

text \<open>
  The message digest of \<open>src/src/node/md5.c\<close> (RFC 1321), which \<open>Node_digest\<close> prints for a tree: the
  state with its 64-byte buffer, the unrolled 64 steps on a block, appending bytes in pieces of any
  size, and the padding at the end. The block is read little-endian, on the aligned and the
  unaligned path and on both kinds of machines; arithmetic on \<open>md5_word_t\<close> and the shift of the
  number of bytes wrap around.
\<close>

section \<open>Constants\<close>

definition T_MASK :: u32 where
  "T_MASK = NOT 0"

text \<open>\<open>T1\<close> to \<open>T64\<close>.\<close>

definition md5_T :: "u32 list" where
  "md5_T =
    [T_MASK XOR 0x28955b87, T_MASK XOR 0x173848a9, 0x242070db, T_MASK XOR 0x3e423111,
     T_MASK XOR 0x0a83f050, 0x4787c62a, T_MASK XOR 0x57cfb9ec, T_MASK XOR 0x02b96afe,
     0x698098d8, T_MASK XOR 0x74bb0850, T_MASK XOR 0x0000a44e, T_MASK XOR 0x76a32841,
     0x6b901122, T_MASK XOR 0x02678e6c, T_MASK XOR 0x5986bc71, 0x49b40821,
     T_MASK XOR 0x09e1da9d, T_MASK XOR 0x3fbf4cbf, 0x265e5a51, T_MASK XOR 0x16493855,
     T_MASK XOR 0x29d0efa2, 0x02441453, T_MASK XOR 0x275e197e, T_MASK XOR 0x182c0437,
     0x21e1cde6, T_MASK XOR 0x3cc8f829, T_MASK XOR 0x0b2af278, 0x455a14ed,
     T_MASK XOR 0x561c16fa, T_MASK XOR 0x03105c07, 0x676f02d9, T_MASK XOR 0x72d5b375,
     T_MASK XOR 0x0005c6bd, T_MASK XOR 0x788e097e, 0x6d9d6122, T_MASK XOR 0x021ac7f3,
     T_MASK XOR 0x5b4115bb, 0x4bdecfa9, T_MASK XOR 0x0944b49f, T_MASK XOR 0x4140438f,
     0x289b7ec6, T_MASK XOR 0x155ed805, T_MASK XOR 0x2b10cf7a, 0x04881d05,
     T_MASK XOR 0x262b2fc6, T_MASK XOR 0x1924661a, 0x1fa27cf8, T_MASK XOR 0x3b53a99a,
     T_MASK XOR 0x0bd6ddbb, 0x432aff97, T_MASK XOR 0x546bdc58, T_MASK XOR 0x036c5fc6,
     0x655b59c3, T_MASK XOR 0x70f3336d, T_MASK XOR 0x00100b82, T_MASK XOR 0x7a7ba22e,
     0x6fa87e4f, T_MASK XOR 0x01d3191f, T_MASK XOR 0x5cfebceb, 0x4e0811a1,
     T_MASK XOR 0x08ac817d, T_MASK XOR 0x42c50dca, 0x2ad7d2bb, T_MASK XOR 0x14792c6e]"

text \<open>The sixteen \<open>SET\<close> lines of each round: the register that plays \<open>a\<close> (0 to 3 for \<open>a\<close> to \<open>d\<close>; the
other three follow it cyclically), \<open>k\<close>, \<open>s\<close> and the number of the constant.\<close>

type_synonym md5_line = "nat \<times> nat \<times> nat \<times> nat"

definition md5_round1 :: "md5_line list" where
  "md5_round1 =
    [(0, 0, 7, 1), (3, 1, 12, 2), (2, 2, 17, 3), (1, 3, 22, 4),
     (0, 4, 7, 5), (3, 5, 12, 6), (2, 6, 17, 7), (1, 7, 22, 8),
     (0, 8, 7, 9), (3, 9, 12, 10), (2, 10, 17, 11), (1, 11, 22, 12),
     (0, 12, 7, 13), (3, 13, 12, 14), (2, 14, 17, 15), (1, 15, 22, 16)]"

definition md5_round2 :: "md5_line list" where
  "md5_round2 =
    [(0, 1, 5, 17), (3, 6, 9, 18), (2, 11, 14, 19), (1, 0, 20, 20),
     (0, 5, 5, 21), (3, 10, 9, 22), (2, 15, 14, 23), (1, 4, 20, 24),
     (0, 9, 5, 25), (3, 14, 9, 26), (2, 3, 14, 27), (1, 8, 20, 28),
     (0, 13, 5, 29), (3, 2, 9, 30), (2, 7, 14, 31), (1, 12, 20, 32)]"

definition md5_round3 :: "md5_line list" where
  "md5_round3 =
    [(0, 5, 4, 33), (3, 8, 11, 34), (2, 11, 16, 35), (1, 14, 23, 36),
     (0, 1, 4, 37), (3, 4, 11, 38), (2, 7, 16, 39), (1, 10, 23, 40),
     (0, 13, 4, 41), (3, 0, 11, 42), (2, 3, 16, 43), (1, 6, 23, 44),
     (0, 9, 4, 45), (3, 12, 11, 46), (2, 15, 16, 47), (1, 2, 23, 48)]"

definition md5_round4 :: "md5_line list" where
  "md5_round4 =
    [(0, 0, 6, 49), (3, 7, 10, 50), (2, 14, 15, 51), (1, 5, 21, 52),
     (0, 12, 6, 53), (3, 3, 10, 54), (2, 10, 15, 55), (1, 1, 21, 56),
     (0, 8, 6, 57), (3, 15, 10, 58), (2, 6, 15, 59), (1, 13, 21, 60),
     (0, 4, 6, 61), (3, 11, 10, 62), (2, 2, 15, 63), (1, 9, 21, 64)]"

section \<open>A block\<close>

record md5_state =
  count0 :: u32
  count1 :: u32
  abcd :: "u32 list"
  mbuf :: "u8 list"

definition ROTATE_LEFT :: "u32 \<Rightarrow> nat \<Rightarrow> u32" where
  "ROTATE_LEFT x n = push_bit n x OR drop_bit (32 - n) x"

definition md5_F :: "u32 \<Rightarrow> u32 \<Rightarrow> u32 \<Rightarrow> u32" where
  "md5_F x y z = (x AND y) OR (NOT x AND z)"

definition md5_G :: "u32 \<Rightarrow> u32 \<Rightarrow> u32 \<Rightarrow> u32" where
  "md5_G x y z = (x AND z) OR (y AND NOT z)"

definition md5_H :: "u32 \<Rightarrow> u32 \<Rightarrow> u32 \<Rightarrow> u32" where
  "md5_H x y z = x XOR y XOR z"

definition md5_I :: "u32 \<Rightarrow> u32 \<Rightarrow> u32 \<Rightarrow> u32" where
  "md5_I x y z = y XOR (x OR NOT z)"

text \<open>One \<open>SET\<close> line on the registers.\<close>

definition md5_SET :: "(u32 \<Rightarrow> u32 \<Rightarrow> u32 \<Rightarrow> u32) \<Rightarrow> u32 list \<Rightarrow> u32 list \<Rightarrow> md5_line \<Rightarrow> u32 list" where
  "md5_SET f X regs line = (case line of (r, k, s, i) \<Rightarrow>
     let b = regs ! ((r + 1) mod 4); c = regs ! ((r + 2) mod 4); d = regs ! ((r + 3) mod 4);
         t = regs ! r + f b c d + X ! k + md5_T ! (i - 1)
     in regs[r := ROTATE_LEFT t s + b])"

definition md5_X :: "u8 list \<Rightarrow> u32 list" where
  "md5_X data = map (\<lambda>i. ucast (data ! (4 * i)) + push_bit 8 (ucast (data ! (4 * i + 1))) +
     push_bit 16 (ucast (data ! (4 * i + 2))) + push_bit 24 (ucast (data ! (4 * i + 3)))) [0..<16]"

definition md5_process :: "md5_state \<Rightarrow> u8 list \<Rightarrow> md5_state" where
  "md5_process pms data =
     (let X = md5_X data;
          regs = foldl (md5_SET md5_F X) (abcd pms) md5_round1;
          regs = foldl (md5_SET md5_G X) regs md5_round2;
          regs = foldl (md5_SET md5_H X) regs md5_round3;
          regs = foldl (md5_SET md5_I X) regs md5_round4
      in pms\<lparr>abcd := map2 (+) (abcd pms) regs\<rparr>)"

section \<open>Messages\<close>

text \<open>The buffer is not initialised.\<close>

definition md5_init :: "u8 list \<Rightarrow> md5_state" where
  "md5_init junk = \<lparr>count0 = 0, count1 = 0,
     abcd = [0x67452301, T_MASK XOR 0x10325476, T_MASK XOR 0x67452301, 0x10325476], mbuf = junk\<rparr>"

definition memcpy_buf :: "u8 list \<Rightarrow> nat \<Rightarrow> u8 list \<Rightarrow> u8 list" where
  "memcpy_buf b off xs = take off b @ xs @ drop (off + length xs) b"

definition md5_count :: "md5_state \<Rightarrow> u32 \<Rightarrow> md5_state" where
  "md5_count pms nbytes =
     (let nbits = push_bit 3 nbytes; c0 = count0 pms + nbits; c1 = count1 pms + drop_bit 29 nbytes
      in pms\<lparr>count0 := c0, count1 := (if c0 < nbits then c1 + 1 else c1)\<rparr>)"

text \<open>The loop over the full blocks; what is left goes to the start of the buffer.\<close>

function md5_blocks :: "md5_state \<Rightarrow> u8 list \<Rightarrow> md5_state \<times> u8 list" where
  "md5_blocks pms p = (if 64 \<le> length p then md5_blocks (md5_process pms (take 64 p)) (drop 64 p) else (pms, p))"
  by pat_completeness auto

termination
  by (relation "measure (\<lambda>(pms, p). length p)") auto

declare md5_blocks.simps [simp del]

definition md5_rest :: "md5_state \<Rightarrow> u8 list \<Rightarrow> md5_state" where
  "md5_rest pms p =
     (case md5_blocks pms p of (pms, q) \<Rightarrow> if q \<noteq> [] then pms\<lparr>mbuf := memcpy_buf (mbuf pms) 0 q\<rparr> else pms)"

text \<open>\<open>nbytes\<close> is an \<open>int\<close>: a length that does not fit is negative or zero, and nothing is appended.\<close>

definition md5_append :: "md5_state \<Rightarrow> u8 list \<Rightarrow> md5_state" where
  "md5_append pms data =
     (let nbytes = of_nat (length data) :: u32;
          offset = unat (drop_bit 3 (count0 pms) AND 63)
      in if sint nbytes \<le> 0 then pms
         else let pms = md5_count pms nbytes
              in if offset \<noteq> 0 then
                   let n = (if offset + length data > 64 then 64 - offset else length data);
                       pms = pms\<lparr>mbuf := memcpy_buf (mbuf pms) offset (take n data)\<rparr>
                   in if offset + n < 64 then pms else md5_rest (md5_process pms (mbuf pms)) (drop n data)
                 else md5_rest pms data)"

definition md5_pad :: "u8 list" where
  "md5_pad = 0x80 # replicate 63 0"

text \<open>The bytes of words, the least significant first: \<open>w[i >> 2] >> ((i & 3) << 3)\<close>.\<close>

definition md5_bytes :: "u32 list \<Rightarrow> u8 list" where
  "md5_bytes ws = map (\<lambda>i. ucast (drop_bit ((i mod 4) * 8) (ws ! (i div 4)))) [0..<4 * length ws]"

definition md5_finish :: "md5_state \<Rightarrow> u8 list" where
  "md5_finish pms =
     (let data = md5_bytes [count0 pms, count1 pms];
          pms = md5_append pms (take (unat ((55 - drop_bit 3 (count0 pms)) AND 63) + 1) md5_pad);
          pms = md5_append pms data
      in md5_bytes (abcd pms))"

end
