(* ===== verification/Md5_Rfc.thy ===== *)
theory Md5_Rfc
  imports Md5
begin

text \<open>
  What \<open>src/src/node/md5.c\<close> computes: the message digest as RFC 1321 defines it, a loop of 64 steps on
  each block of the padded message, and the proof that the unrolled steps and the buffering give it
  for a message that arrives in pieces of any size.
\<close>

section \<open>The algorithm of RFC 1321\<close>

definition rfc_K :: "u32 list" where
  "rfc_K =
   [0xd76aa478, 0xe8c7b756, 0x242070db, 0xc1bdceee, 0xf57c0faf, 0x4787c62a, 0xa8304613, 0xfd469501,
    0x698098d8, 0x8b44f7af, 0xffff5bb1, 0x895cd7be, 0x6b901122, 0xfd987193, 0xa679438e, 0x49b40821,
    0xf61e2562, 0xc040b340, 0x265e5a51, 0xe9b6c7aa, 0xd62f105d, 0x02441453, 0xd8a1e681, 0xe7d3fbc8,
    0x21e1cde6, 0xc33707d6, 0xf4d50d87, 0x455a14ed, 0xa9e3e905, 0xfcefa3f8, 0x676f02d9, 0x8d2a4c8a,
    0xfffa3942, 0x8771f681, 0x6d9d6122, 0xfde5380c, 0xa4beea44, 0x4bdecfa9, 0xf6bb4b60, 0xbebfbc70,
    0x289b7ec6, 0xeaa127fa, 0xd4ef3085, 0x04881d05, 0xd9d4d039, 0xe6db99e5, 0x1fa27cf8, 0xc4ac5665,
    0xf4292244, 0x432aff97, 0xab9423a7, 0xfc93a039, 0x655b59c3, 0x8f0ccc92, 0xffeff47d, 0x85845dd1,
    0x6fa87e4f, 0xfe2ce6e0, 0xa3014314, 0x4e0811a1, 0xf7537e82, 0xbd3af235, 0x2ad7d2bb, 0xeb86d391]"

definition rfc_s :: "nat \<Rightarrow> nat" where
  "rfc_s i = [7, 12, 17, 22, 5, 9, 14, 20, 4, 11, 16, 23, 6, 10, 15, 21] ! (4 * (i div 16) + i mod 4)"

definition rfc_g :: "nat \<Rightarrow> nat" where
  "rfc_g i = (if i < 16 then i else if i < 32 then (5 * i + 1) mod 16 else if i < 48 then (3 * i + 5) mod 16 else 7 * i mod 16)"

definition rfc_f :: "nat \<Rightarrow> u32 \<Rightarrow> u32 \<Rightarrow> u32 \<Rightarrow> u32" where
  "rfc_f i b c d =
     (if i < 16 then (b AND c) OR (NOT b AND d) else if i < 32 then (d AND b) OR (NOT d AND c)
      else if i < 48 then b XOR c XOR d else c XOR (b OR NOT d))"

type_synonym md5_regs = "u32 \<times> u32 \<times> u32 \<times> u32"

definition rfc_step :: "u32 list \<Rightarrow> md5_regs \<Rightarrow> nat \<Rightarrow> md5_regs" where
  "rfc_step X h i = (case h of (a, b, c, d) \<Rightarrow>
     (d, b + word_rotl (rfc_s i) (a + rfc_f i b c d + X ! rfc_g i + rfc_K ! i), b, c))"

definition rfc_compress :: "md5_regs \<Rightarrow> u8 list \<Rightarrow> md5_regs" where
  "rfc_compress h block = (case foldl (rfc_step (md5_X block)) h [0..<64] of (a', b', c', d') \<Rightarrow>
     case h of (a, b, c, d) \<Rightarrow> (a + a', b + b', c + c', d + d'))"

function rfc_chunks :: "md5_regs \<Rightarrow> u8 list \<Rightarrow> md5_regs" where
  "rfc_chunks h p = (if 64 \<le> length p then rfc_chunks (rfc_compress h (take 64 p)) (drop 64 p) else h)"
  by pat_completeness auto

termination
  by (relation "measure (\<lambda>(h, p). length p)") auto

declare rfc_chunks.simps [simp del]

definition rfc_init :: md5_regs where
  "rfc_init = (0x67452301, 0xefcdab89, 0x98badcfe, 0x10325476)"

definition le_bytes :: "nat \<Rightarrow> nat \<Rightarrow> u8 list" where
  "le_bytes k n = map (\<lambda>i. of_nat (n div 256 ^ i)) [0..<k]"

definition rfc_padded :: "u8 list \<Rightarrow> u8 list" where
  "rfc_padded m = m @ [0x80] @ replicate (nat ((55 - int (length m)) mod 64)) 0 @ le_bytes 8 (8 * length m)"

definition rfc_md5 :: "u8 list \<Rightarrow> u8 list" where
  "rfc_md5 m = (case rfc_chunks rfc_init (rfc_padded m) of (a, b, c, d) \<Rightarrow>
     le_bytes 4 (unat a) @ le_bytes 4 (unat b) @ le_bytes 4 (unat c) @ le_bytes 4 (unat d))"

section \<open>The unrolled steps\<close>

definition line_of :: "nat \<Rightarrow> md5_line" where
  "line_of i = ((4 - i mod 4) mod 4, rfc_g i, rfc_s i, Suc i)"

lemma rounds_lines:
  "md5_round1 = map line_of [0..<16]" "md5_round2 = map line_of [16..<32]"
  "md5_round3 = map line_of [32..<48]" "md5_round4 = map line_of [48..<64]"
  by code_simp+

lemma constants: "md5_T = rfc_K"
  by code_simp

lemma rotate_rotl:
  assumes "n < 32"
  shows "ROTATE_LEFT x n = word_rotl n x"
proof (rule bit_word_eqI)
  fix k
  assume "k < LENGTH(32)"
  then have k: "k < 32" by simp
  have L: "LENGTH(32) = 32" by simp
  have r: "bit (word_rotl n x) k = bit x ((k + (32 - n)) mod 32)"
    using k by (simp only: bit_word_rotl_iff L mod_less [OF assms] simp_thms)
  have l: "bit (ROTATE_LEFT x n) k = (n \<le> k \<and> bit x (k - n) \<or> bit x (k + (32 - n)))"
    using k by (simp add: ROTATE_LEFT_def bit_simps add.commute)
  show "bit (ROTATE_LEFT x n) k = bit (word_rotl n x) k"
  proof (cases "n \<le> k")
    case True
    then have "k + (32 - n) = 32 + (k - n)" using assms by simp
    moreover have "(32 + (k - n)) mod 32 = k - n" using k by simp
    moreover have "\<not> bit x (32 + (k - n))" using bit_imp_le_length [of x "32 + (k - n)"] by auto
    ultimately show ?thesis unfolding r l using True by (simp only: simp_thms)
  next
    case False
    then have "(k + (32 - n)) mod 32 = k + (32 - n)" using assms by (intro mod_less) linarith
    then show ?thesis unfolding r l using False by (simp only: simp_thms)
  qed
qed

definition regs_at :: "nat \<Rightarrow> u32 list \<Rightarrow> md5_regs" where
  "regs_at r regs = (regs ! r, regs ! ((r + 1) mod 4), regs ! ((r + 2) mod 4), regs ! ((r + 3) mod 4))"

lemma length_SET [simp]: "length (md5_SET f X regs line) = length regs"
  by (cases line) (simp add: md5_SET_def Let_def)

lemma less_4E:
  assumes "r < (4 :: nat)"
  obtains "r = 0" | "r = 1" | "r = 2" | "r = 3"
  using assms by linarith

lemma length_4E:
  assumes "length xs = 4"
  obtains a b c d where "xs = [a, b, c, d]"
  using assms by (auto simp: numeral_eq_Suc length_Suc_conv)

lemma SET_step:
  assumes "length regs = 4" "r < 4" "s < 32"
  shows "regs_at ((r + 3) mod 4) (md5_SET f X regs (r, k, s, Suc i)) =
    (case regs_at r regs of (a, b, c, d) \<Rightarrow> (d, b + word_rotl s (a + f b c d + X ! k + rfc_K ! i), b, c))"
proof -
  from assms(1) obtain w x y z where "regs = [w, x, y, z]" by (rule length_4E)
  with assms(2) show ?thesis
    by (elim less_4E) (simp_all add: md5_SET_def regs_at_def Let_def rotate_rotl [OF assms(3)] constants)
qed

lemma next_register: "((4 - i mod 4) mod 4 + 3) mod 4 = (4 - Suc i mod 4) mod (4 :: nat)"
proof -
  have "i mod 4 < 4" by simp
  then show ?thesis by (elim less_4E) (simp_all add: mod_Suc)
qed

lemma rfc_s_less: "i < 64 \<Longrightarrow> rfc_s i < 32"
proof -
  assume "i < 64"
  moreover have "list_all (\<lambda>i. rfc_s i < 32) [0..<64]" by code_simp
  ultimately show ?thesis by (simp add: list_all_iff)
qed

lemma lines_ok:
  assumes "length regs = 4" "j \<le> 64" "\<And>k. i \<le> k \<Longrightarrow> k < j \<Longrightarrow> rfc_f k = f" "i \<le> j"
  shows "regs_at ((4 - j mod 4) mod 4) (foldl (md5_SET f X) regs (map line_of [i..<j])) =
      foldl (rfc_step X) (regs_at ((4 - i mod 4) mod 4) regs) [i..<j]"
  using assms(4,2,3)
proof (induction j rule: dec_induct)
  case base
  then show ?case by simp
next
  case (step j)
  have len: "length (foldl (md5_SET f X) regs xs) = 4" for xs
    by (induction xs rule: rev_induct) (simp_all add: assms(1))
  have "rfc_f j = f" using step.prems(2) [of j] step.hyps by simp
  then have "regs_at ((4 - Suc j mod 4) mod 4) (md5_SET f X (foldl (md5_SET f X) regs (map line_of [i..<j])) (line_of j)) =
      rfc_step X (regs_at ((4 - j mod 4) mod 4) (foldl (md5_SET f X) regs (map line_of [i..<j]))) j"
    using SET_step [OF len, of "(4 - j mod 4) mod 4" "rfc_s j"] rfc_s_less [of j] step.prems(1)
    by (simp add: line_of_def next_register rfc_step_def split: prod.splits)
  with step show ?case by simp
qed

section \<open>Blocks\<close>

definition regs_list :: "md5_regs \<Rightarrow> u32 list" where
  "regs_list h = (case h of (a, b, c, d) \<Rightarrow> [a, b, c, d])"

lemma regs_list_inj [simp]: "regs_list h = regs_list h' \<longleftrightarrow> h = h'"
  by (cases h; cases h') (simp add: regs_list_def)

lemma length_regs_list [simp]: "length (regs_list h) = 4"
  by (cases h) (simp add: regs_list_def)

lemma regs_at_0: "length regs = 4 \<Longrightarrow> regs_list (regs_at 0 regs) = regs"
  by (elim length_4E) (simp add: regs_list_def regs_at_def)

lemma regs_at_list [simp]: "regs_at 0 (regs_list h) = h"
  by (cases h) (simp add: regs_list_def regs_at_def)

lemma length_lines [simp]: "length (foldl (md5_SET f X) regs ls) = length regs"
  by (induction ls arbitrary: regs) simp_all

lemma rfc_fs:
  "k < 16 \<Longrightarrow> rfc_f k = md5_F" "16 \<le> k \<Longrightarrow> k < 32 \<Longrightarrow> rfc_f k = md5_G"
  "32 \<le> k \<Longrightarrow> k < 48 \<Longrightarrow> rfc_f k = md5_H" "48 \<le> k \<Longrightarrow> rfc_f k = md5_I"
  by (intro ext; simp add: rfc_f_def md5_F_def md5_G_def md5_H_def md5_I_def ac_simps)+

lemma upt_join: "i \<le> j \<Longrightarrow> j \<le> k \<Longrightarrow> [i..<j] @ [j..<k] = [i..<k]"
  using upt_add_eq_append [of i j "k - j"] by simp

lemma upt_rounds: "[0..<64] = [0..<16] @ [16..<32] @ [32..<48] @ [48..<(64 :: nat)]"
  by (simp only: append_assoc [symmetric] upt_join numeral_le_iff zero_le semiring_norm)

lemma process_compress:
  assumes "abcd pms = regs_list h"
  shows "md5_process pms data = pms\<lparr>abcd := regs_list (rfc_compress h data)\<rparr>"
proof -
  let ?X = "md5_X data"
  let ?r1 = "foldl (md5_SET md5_F ?X) (regs_list h) (map line_of [0..<16])"
  let ?r2 = "foldl (md5_SET md5_G ?X) ?r1 (map line_of [16..<32])"
  let ?r3 = "foldl (md5_SET md5_H ?X) ?r2 (map line_of [32..<48])"
  let ?r4 = "foldl (md5_SET md5_I ?X) ?r3 (map line_of [48..<64])"
  have "regs_at 0 ?r1 = foldl (rfc_step ?X) h [0..<16]"
    using lines_ok [of "regs_list h" 16 0 md5_F ?X] rfc_fs(1) by simp
  then have "regs_at 0 ?r2 = foldl (rfc_step ?X) h ([0..<16] @ [16..<32])"
    using lines_ok [of ?r1 32 16 md5_G ?X] rfc_fs(2) by simp
  then have "regs_at 0 ?r3 = foldl (rfc_step ?X) h ([0..<16] @ [16..<32] @ [32..<48])"
    using lines_ok [of ?r2 48 32 md5_H ?X] rfc_fs(3) by simp
  then have "regs_at 0 ?r4 = foldl (rfc_step ?X) h [0..<64]"
    using lines_ok [of ?r3 64 48 md5_I ?X] rfc_fs(4) unfolding upt_rounds by simp
  then have "?r4 = regs_list (foldl (rfc_step ?X) h [0..<64])"
    using regs_at_0 [of ?r4] by simp
  then show ?thesis
    unfolding md5_process_def Let_def assms rounds_lines rfc_compress_def
    by (simp only:) (simp add: regs_list_def split: prod.splits)
qed

lemma chunks_short: "length p < 64 \<Longrightarrow> rfc_chunks h p = h"
  by (simp add: rfc_chunks.simps)

lemma chunks_one: "length p = 64 \<Longrightarrow> rfc_chunks h p = rfc_compress h p"
  by (simp add: rfc_chunks.simps [of h p] chunks_short)

lemma chunks_append: "64 dvd length p \<Longrightarrow> rfc_chunks h (p @ q) = rfc_chunks (rfc_chunks h p) q"
proof (induction h p rule: rfc_chunks.induct)
  case (1 h p)
  show ?case
  proof (cases "64 \<le> length p")
    case True
    then have "64 dvd length (drop 64 p)" using 1(2) by (simp add: dvd_diff_nat)
    with 1(1) [OF True this] True show ?thesis by (simp add: rfc_chunks.simps [of _ "p @ q"] rfc_chunks.simps [of _ p])
  next
    case False
    with 1(2) have "p = []" by (auto dest: dvd_imp_le)
    then show ?thesis by (simp add: chunks_short)
  qed
qed

lemma full_blocks_ok:
  assumes "abcd pms = regs_list h"
  shows "md5_blocks pms p = (pms\<lparr>abcd := regs_list (rfc_chunks h p)\<rparr>, drop (length p - length p mod 64) p)"
  using assms
proof (induction pms p arbitrary: h rule: md5_blocks.induct)
  case (1 pms p)
  show ?case
  proof (cases "64 \<le> length p")
    case True
    have "length p - 64 - (length p - 64) mod 64 + 64 = length p - length p mod 64"
      using True by (simp add: le_mod_geq)
    then show ?thesis
      using 1(1) [OF True, of "rfc_compress h (take 64 p)"] True process_compress [OF 1(2)]
      by (simp add: md5_blocks.simps [of pms p] rfc_chunks.simps [of h p])
  next
    case False
    then show ?thesis using 1(2) by (simp add: md5_blocks.simps [of pms p] chunks_short)
  qed
qed

section \<open>Pieces\<close>

text \<open>The state after a message: its length in bits, the registers after its full blocks and the rest in the buffer.\<close>

definition absorbed :: "md5_state \<Rightarrow> u8 list \<Rightarrow> bool" where
  "absorbed pms m \<longleftrightarrow> count0 pms = of_nat (8 * length m) \<and> count1 pms = of_nat (8 * length m div 2 ^ 32) \<and>
     length (mbuf pms) = 64 \<and> abcd pms = regs_list (rfc_chunks rfc_init m) \<and>
     take (length m mod 64) (mbuf pms) = drop (length m - length m mod 64) m"

lemma carry:
  fixes A B M :: nat
  assumes "0 < M"
  shows "(A + B) div M = A div M + B div M + (if (A + B) mod M < B mod M then 1 else 0)"
proof (cases "A mod M + B mod M < M")
  case True
  then have "(A + B) mod M = A mod M + B mod M" by (simp add: mod_add_eq [of A M B, symmetric])
  moreover have "(A mod M + B mod M) div M = 0" using True by simp
  ultimately show ?thesis by (simp add: div_add1_eq [of A B M])
next
  case False
  have l: "A mod M < M" "B mod M < M" using assms by simp_all
  then have lt: "A mod M + B mod M - M < M" by linarith
  then have "(A mod M + B mod M) mod M = A mod M + B mod M - M" using False by (simp add: le_mod_geq)
  then have "(A + B) mod M = A mod M + B mod M - M" by (simp add: mod_add_eq [of A M B, symmetric])
  moreover have "(A mod M + B mod M) div M = 1" using False lt assms by (simp add: le_div_geq)
  moreover have "A mod M + B mod M - M < B mod M" using l False by linarith
  ultimately show ?thesis by (simp add: div_add1_eq [of A B M])
qed

lemma count_ok:
  assumes "n < 2 ^ 31"
  shows "md5_count pms (of_nat n) = pms\<lparr>count0 := count0 pms + of_nat (8 * n),
    count1 := count1 pms + of_nat (8 * n div 2 ^ 32) + (if count0 pms + of_nat (8 * n) < of_nat (8 * n) then 1 else 0)\<rparr>"
proof -
  have "push_bit 3 (of_nat n :: u32) = of_nat (8 * n)" by (simp add: push_bit_eq_mult)
  moreover have "drop_bit 29 (of_nat n :: u32) = of_nat (8 * n div 2 ^ 32)"
  proof (rule word_unat_eq_iff [THEN iffD2])
    have "unat (drop_bit 29 (of_nat n :: u32)) = n div 2 ^ 29"
      using assms unfolding unat_drop_bit_eq by (simp add: unat_of_nat_u32 drop_bit_eq_div)
    moreover have "8 * n div 2 ^ 32 = n div 2 ^ 29" by simp
    ultimately show "unat (drop_bit 29 (of_nat n :: u32)) = unat (of_nat (8 * n div 2 ^ 32) :: u32)"
      using assms by (simp add: unat_of_nat_u32)
  qed
  ultimately show ?thesis by (simp add: md5_count_def Let_def)
qed

lemma count_absorbed:
  fixes a b :: nat
  shows "(of_nat (8 * a div 2 ^ 32) + of_nat (8 * b div 2 ^ 32) +
    (if of_nat (8 * a) + of_nat (8 * b) < (of_nat (8 * b) :: u32) then 1 else 0) :: u32) = of_nat (8 * (a + b) div 2 ^ 32)"
proof -
  have u: "unat (of_nat k :: u32) = k mod 2 ^ 32" for k by (simp add: unsigned_of_nat take_bit_eq_mod)
  have "of_nat (8 * a) + of_nat (8 * b) < (of_nat (8 * b) :: u32) \<longleftrightarrow> (8 * a + 8 * b) mod 2 ^ 32 < (8 * b) mod 2 ^ 32"
    unfolding word_less_nat_alt of_nat_add [symmetric] u ..
  moreover have "8 * (a + b) div 2 ^ 32 = 8 * a div 2 ^ 32 + 8 * b div 2 ^ 32 +
      (if (8 * a + 8 * b) mod 2 ^ 32 < (8 * b) mod 2 ^ 32 then 1 else 0)"
    using carry [of "2 ^ 32" "8 * a" "8 * b"] by (simp only: distrib_left zero_less_power zero_less_numeral simp_thms)
  ultimately show ?thesis
    by (cases "(8 * a + 8 * b) mod 2 ^ 32 < 8 * b mod 2 ^ 32") (simp_all only: if_True if_False of_nat_add of_nat_1 add_0_right)
qed

lemma offset_ok: "unat (drop_bit 3 (of_nat (8 * n) :: u32) AND 63) = n mod 64"
proof -
  have "(63 :: u32) = mask 6" by (simp add: mask_eq_exp_minus_1)
  then have "unat (drop_bit 3 (of_nat (8 * n) :: u32) AND 63) = unat (take_bit 6 (drop_bit 3 (of_nat (8 * n) :: u32)))"
    by (simp add: take_bit_eq_mask)
  also have "\<dots> = (8 * n mod 2 ^ 32) div 8 mod 64"
    unfolding unsigned_take_bit_eq unat_drop_bit_eq unsigned_of_nat by (simp add: drop_bit_eq_div take_bit_eq_mod)
  also have "(8 * n mod 2 ^ 32) div 8 = n mod 2 ^ 29"
    using mult_mod_right [of 8 n "2 ^ 29"] by simp
  also have "n mod 2 ^ 29 mod 64 = n mod 64"
    by (rule mod_mod_cancel) simp
  finally show ?thesis .
qed

lemma sint_len: "n < 2 ^ 31 \<Longrightarrow> sint (of_nat n :: u32) = int n"
  by (simp add: signed_of_nat signed_take_bit_int_eq_self)

lemma absorbed_init: "length junk = 64 \<Longrightarrow> absorbed (md5_init junk) []"
  by (simp add: absorbed_def md5_init_def rfc_init_def regs_list_def chunks_short T_MASK_def)

text \<open>The rest of a message behind its full blocks.\<close>

definition full_len :: "'a list \<Rightarrow> nat" where
  "full_len m = length m - length m mod 64"

lemma full_len_simps: "64 dvd full_len m" "full_len m \<le> length m" "length m - full_len m = length m mod 64"
  by (simp_all add: full_len_def)

lemma rest_ok:
  assumes "abcd pms = regs_list h" "length (mbuf pms) = 64"
  shows "\<exists>b. md5_rest pms p = pms\<lparr>abcd := regs_list (rfc_chunks h p), mbuf := b\<rparr> \<and> length b = 64 \<and>
    take (length p mod 64) b = drop (full_len p) p"
proof -
  have l: "length (drop (full_len p) p) = length p mod 64" by (simp add: full_len_simps)
  have b: "md5_blocks pms p = (pms\<lparr>abcd := regs_list (rfc_chunks h p)\<rparr>, drop (full_len p) p)"
    using full_blocks_ok [OF assms(1)] by (simp add: full_len_def)
  have "length p mod 64 < 64" by simp
  then have "length (memcpy_buf (mbuf pms) 0 (drop (full_len p) p)) = 64" using assms(2) l by (simp add: memcpy_buf_def)
  moreover have "take (length p mod 64) (memcpy_buf (mbuf pms) 0 (drop (full_len p) p)) = drop (full_len p) p"
    using l by (simp add: memcpy_buf_def)
  ultimately show ?thesis
    using l assms(2) unfolding md5_rest_def b
    by (cases "drop (full_len p) p = []") (auto intro: exI [of _ "mbuf pms"] exI [of _ "memcpy_buf (mbuf pms) 0 (drop (full_len p) p)"])
qed

lemma drop_full:
  assumes "64 dvd length p"
  shows "drop (full_len (p @ e)) (p @ e) = drop (full_len e) e" "length (p @ e) mod 64 = length e mod 64"
proof -
  from assms obtain c where c: "length p = 64 * c" by blast
  have "full_len (p @ e) = length p + full_len e"
    using mod_less_eq_dividend [of "length e" 64] by (simp add: full_len_def c del: mod_less_eq_dividend)
  then show "drop (full_len (p @ e)) (p @ e) = drop (full_len e) e" by simp
  show "length (p @ e) mod 64 = length e mod 64" by (simp add: c)
qed

lemma absorbedI:
  assumes "m = p @ e" "64 dvd length p" "count0 pms = of_nat (8 * length m)" "count1 pms = of_nat (8 * length m div 2 ^ 32)"
    "length (mbuf pms) = 64" "abcd pms = regs_list (rfc_chunks (rfc_chunks rfc_init p) e)"
    "take (length e mod 64) (mbuf pms) = drop (full_len e) e"
  shows "absorbed pms m"
  using assms(3-7) drop_full [OF assms(2), of e] chunks_append [OF assms(2), of rfc_init e]
  unfolding absorbed_def assms(1) full_len_def by simp

lemma append_absorbs:
  assumes a: "absorbed pms m" and d: "length d < 2 ^ 31"
  shows "absorbed (md5_append pms d) (m @ d)"
proof (cases "d = []")
  case True
  then show ?thesis using a by (simp add: md5_append_def Let_def)
next
  case False
  let ?r = "length m mod 64" and ?n = "length d"
  let ?pms = "md5_count pms (of_nat ?n)"
  have s: "\<not> sint (of_nat ?n :: u32) \<le> 0" using sint_len [OF d] False by simp
  have off: "unat (drop_bit 3 (count0 pms) AND 63) = ?r" using a offset_ok by (simp only: absorbed_def)
  have c: "count0 ?pms = of_nat (8 * length (m @ d))" "count1 ?pms = of_nat (8 * length (m @ d) div 2 ^ 32)"
      "mbuf ?pms = mbuf pms" "abcd ?pms = abcd pms"
    using a count_absorbed [of "length m" ?n] unfolding count_ok [OF d] absorbed_def
    by (simp_all only: md5_state.simps md5_state.update_convs length_append) (simp_all add: distrib_left)
  let ?full = "take (full_len m) m" and ?tail = "drop (full_len m) m"
  have m: "m = ?full @ ?tail" "64 dvd length ?full" "length ?tail = ?r" "?r < 64"
    using full_len_simps [of m] by (simp_all add: min_absorb2)
  let ?h = "rfc_chunks rfc_init m"
  have h: "?h = rfc_chunks rfc_init ?full"
    using chunks_append [OF m(2), of rfc_init ?tail] m by (simp add: chunks_short)
  have ab: "abcd ?pms = regs_list ?h" "length (mbuf ?pms) = 64" "take ?r (mbuf ?pms) = ?tail"
    using a c by (simp_all add: absorbed_def full_len_def)
  have md: "m @ d = ?full @ (?tail @ d)" by (metis append_assoc m(1))
  show ?thesis
  proof (cases "?r = 0")
    case True
    from rest_ok [OF ab(1,2), of d] obtain b where b: "md5_rest ?pms d = ?pms\<lparr>abcd := regs_list (rfc_chunks ?h d), mbuf := b\<rparr>"
      "length b = 64" "take (?n mod 64) b = drop (full_len d) d" by blast
    have "md5_append pms d = md5_rest ?pms d"
      unfolding md5_append_def Let_def off using s True by simp
    moreover have "64 dvd length m" using True by (simp add: dvd_eq_mod_eq_0)
    ultimately show ?thesis using b c by (intro absorbedI [OF refl]) simp_all
  next
    case r: False
    show ?thesis
    proof (cases "?r + ?n < 64")
      case True
      have "md5_append pms d = ?pms\<lparr>mbuf := memcpy_buf (mbuf pms) ?r d\<rparr>"
        unfolding md5_append_def Let_def off using s r True c(3) by simp
      moreover have "length (?tail @ d) = ?r + ?n" using m(3) by simp
      moreover from this True have "full_len (?tail @ d) = 0" "rfc_chunks ?h (?tail @ d) = ?h"
        by (simp_all only: full_len_def mod_less chunks_short diff_self_eq_0)
      moreover have "memcpy_buf (mbuf pms) ?r d = (?tail @ d) @ drop (?r + ?n) (mbuf pms)" using ab(3) c(3) by (simp add: memcpy_buf_def)
      ultimately show ?thesis using c ab True
        by (intro absorbedI [OF md m(2)]) (simp_all add: h [symmetric])
    next
      case big: False
      let ?k = "64 - ?r"
      let ?B = "?tail @ take ?k d" and ?e = "drop ?k d"
      have k: "(if ?r + ?n > 64 then 64 - ?r else ?n) = ?k" "length (take ?k d) = ?k" "?r + ?k = 64" using big m(4) by auto
      have B: "length ?B = 64" "memcpy_buf (mbuf pms) ?r (take ?k d) = ?B"
        using m(3) k ab c(3) by (simp_all add: memcpy_buf_def)
      let ?q = "?pms\<lparr>mbuf := ?B\<rparr>"
      have p: "md5_process ?q ?B = ?q\<lparr>abcd := regs_list (rfc_compress ?h ?B)\<rparr>"
        using ab by (intro process_compress) simp
      from rest_ok [of "md5_process ?q ?B" "rfc_compress ?h ?B" ?e] obtain b where
        b: "md5_rest (md5_process ?q ?B) ?e = ?q\<lparr>abcd := regs_list (rfc_chunks (rfc_compress ?h ?B) ?e), mbuf := b\<rparr>"
          "length b = 64" "take (length ?e mod 64) b = drop (full_len ?e) ?e"
        using p B(1) by auto
      have "md5_append pms d = md5_rest (md5_process ?q ?B) ?e"
        unfolding md5_append_def Let_def off k(1) using s r k B(2) c(3) by simp
      moreover have "m @ d = (?full @ ?B) @ ?e" unfolding md by simp
      moreover have "64 dvd length (?full @ ?B)" using m(2) B(1) by (simp only: length_append) simp
      moreover have "rfc_chunks rfc_init (?full @ ?B) = rfc_compress ?h ?B"
        unfolding chunks_append [OF m(2)] h [symmetric] by (rule chunks_one [OF B(1)])
      ultimately show ?thesis using b c by (intro absorbedI [of "m @ d" "?full @ ?B" ?e]) simp_all
    qed
  qed
qed

lemma appends_absorb:
  assumes "absorbed pms m" "list_all (\<lambda>d. length d < 2 ^ 31) ds"
  shows "absorbed (foldl md5_append pms ds) (m @ concat ds)"
  using assms
proof (induction ds arbitrary: pms m)
  case (Cons d ds)
  have "absorbed (md5_append pms d) (m @ d)" using append_absorbs [OF Cons.prems(1)] Cons.prems(2) by simp
  from Cons.IH [OF this] Cons.prems(2) show ?case by simp
qed simp

section \<open>The digest\<close>

lemma md5_bytes_word: "md5_bytes [w] = le_bytes 4 (unat w)"
proof -
  have "(ucast (drop_bit (8 * i) w) :: u8) = of_nat (unat w div 256 ^ i)" for i
  proof (rule word_unat_eq_iff [THEN iffD2])
    have "(2 :: nat) ^ (8 * i) = 256 ^ i" by (simp add: power_mult)
    then show "unat (ucast (drop_bit (8 * i) w) :: u8) = unat (of_nat (unat w div 256 ^ i) :: u8)"
      unfolding unsigned_ucast_eq unat_drop_bit_eq unsigned_of_nat by (simp add: drop_bit_eq_div)
  qed
  then show ?thesis
    by (simp add: md5_bytes_def le_bytes_def mult.commute [of _ 8])
qed

lemma md5_bytes_Cons: "md5_bytes (w # ws) = md5_bytes [w] @ md5_bytes ws"
proof -
  have "[0..<4 * length (w # ws)] = [0..<4] @ map (\<lambda>i. i + 4) [0..<4 * length ws]"
    by (simp only: map_add_upt upt_join zero_le le_add2 length_Cons mult_Suc_right add.commute [of 4])
  moreover have "(i + 4) div 4 = Suc (i div 4)" "(i + 4) mod 4 = i mod 4" for i :: nat by simp_all
  ultimately show ?thesis
    unfolding md5_bytes_def by (simp only: map_append map_map comp_def nth_Cons_Suc) simp
qed

lemma le_bytes_4: "le_bytes 4 (unat (of_nat n :: u32)) = le_bytes 4 n"
proof -
  have p: "m div 256 ^ i = drop_bit (8 * i) m" for m i :: nat
    by (simp add: drop_bit_eq_div power_mult)
  have "(of_nat (unat (of_nat n :: u32) div 256 ^ i) :: u8) = of_nat (n div 256 ^ i)" if "i < 4" for i
    using that unfolding p unsigned_of_nat word_of_nat_eq_iff by (auto simp: bit_eq_iff bit_simps)
  then show ?thesis by (simp add: le_bytes_def)
qed

lemma le_bytes_8: "le_bytes 8 n = le_bytes 4 n @ le_bytes 4 (n div 2 ^ 32)"
proof -
  have "[0..<8] = [0..<4] @ map (\<lambda>i. i + 4) [0..<(4 :: nat)]" by code_simp
  moreover have "n div 256 ^ (i + 4) = n div 2 ^ 32 div 256 ^ i" for i
    by (simp add: power_add div_mult2_eq [symmetric] mult.commute)
  ultimately show ?thesis unfolding le_bytes_def by (simp only: map_append map_map comp_def)
qed

lemma count_bytes:
  "md5_bytes [of_nat n, of_nat (n div 2 ^ 32)] = le_bytes 8 n"
  unfolding md5_bytes_Cons [of _ "[_]"] md5_bytes_word le_bytes_4 le_bytes_8 ..

lemma regs_bytes: "md5_bytes (regs_list h) = (case h of (a, b, c, d) \<Rightarrow>
    le_bytes 4 (unat a) @ le_bytes 4 (unat b) @ le_bytes 4 (unat c) @ le_bytes 4 (unat d))"
proof (cases h)
  case (fields a b c d)
  then show ?thesis
    by (simp only: regs_list_def prod.case md5_bytes_Cons [of a "[b, c, d]"] md5_bytes_Cons [of b "[c, d]"]
        md5_bytes_Cons [of c "[d]"] md5_bytes_word)
qed

lemma pad_ok:
  "take (unat ((55 - drop_bit 3 (of_nat (8 * n) :: u32)) AND 63) + 1) md5_pad = 0x80 # replicate (nat ((55 - int n) mod 64)) 0"
proof -
  let ?d = "drop_bit 3 (of_nat (8 * n) :: u32)"
  have m: "w AND 63 = take_bit 6 w" for w :: u32
    by (simp add: take_bit_eq_mask mask_eq_exp_minus_1)
  have "unat ?d = n mod 2 ^ 29"
    unfolding unat_drop_bit_eq unsigned_of_nat using mult_mod_right [of 8 n "2 ^ 29"] by (simp add: drop_bit_eq_div take_bit_eq_mod)
  then have d: "uint ?d = int n mod 2 ^ 29"
    by (metis of_nat_mod of_nat_numeral of_nat_power uint_nat)
  have "uint (take_bit 6 (55 - ?d)) = (55 - int n mod 2 ^ 29) mod 2 ^ 32 mod 2 ^ 6"
    unfolding unsigned_take_bit_eq uint_word_ariths d by (simp add: take_bit_eq_mod)
  also have "\<dots> = (55 - int n mod 2 ^ 29) mod 64" by (simp add: mod_mod_cancel)
  also have "\<dots> = (55 - int n mod 2 ^ 29 mod 64) mod 64" by (simp only: mod_diff_right_eq)
  also have "\<dots> = (55 - int n) mod 64" by (simp add: mod_mod_cancel mod_diff_right_eq)
  finally have "unat ((55 - ?d) AND 63) = nat ((55 - int n) mod 64)"
    unfolding m by (metis nat_uint_eq)
  moreover have "nat ((55 - int n) mod 64) \<le> 63"
    using pos_mod_bound [of 64 "55 - int n"] by linarith
  ultimately show ?thesis by (simp add: md5_pad_def min_absorb1)
qed

lemma finish_ok:
  assumes "absorbed pms m"
  shows "md5_finish pms = rfc_md5 m"
proof -
  let ?pad = "take (unat ((55 - drop_bit 3 (count0 pms)) AND 63) + 1) md5_pad"
  let ?z = "nat ((55 - int (length m)) mod 64)"
  have c: "count0 pms = of_nat (8 * length m)" "count1 pms = of_nat (8 * length m div 2 ^ 32)"
    using assms by (simp_all only: absorbed_def)
  have pad: "?pad = 0x80 # replicate ?z 0" unfolding c(1) by (rule pad_ok)
  have "length ?pad \<le> 64" by (simp add: md5_pad_def)
  then have "absorbed (md5_append pms ?pad) (m @ ?pad)" by (intro append_absorbs [OF assms]) simp
  then have "absorbed (md5_append (md5_append pms ?pad) (le_bytes 8 (8 * length m))) ((m @ ?pad) @ le_bytes 8 (8 * length m))"
    by (rule append_absorbs) (simp add: le_bytes_def)
  then have "abcd (md5_append (md5_append pms ?pad) (le_bytes 8 (8 * length m))) = regs_list (rfc_chunks rfc_init (rfc_padded m))"
    unfolding absorbed_def rfc_padded_def pad by simp
  then show ?thesis
    unfolding md5_finish_def Let_def rfc_md5_def c(2) unfolding c(1) count_bytes by (simp only: c(1) regs_bytes)
qed


text \<open>The digest of \<open>abc\<close>, in two pieces.\<close>

lemma md5_abc: "md5_finish (md5_append (md5_append (md5_init (replicate 64 0)) [97, 98]) [99]) =
    [0x90, 0x01, 0x50, 0x98, 0x3c, 0xd2, 0x4f, 0xb0, 0xd6, 0x96, 0x3f, 0x7d, 0x28, 0xe1, 0x7f, 0x72]"
  by code_simp


end
