(* ===== verification/Node_Digest.thy ===== *)
theory Node_Digest
  imports Md5_Rfc Node Memory
begin

text \<open>
  The digest of a syntax tree, \<open>Node_digest\<close> in \<open>src/src/node/node.c\<close>: the tags, the labels of the children
  and the texts of the leaves go through the message digest, in the order of the tree. The tree is
  read only. The budget bounds its depth.
\<close>

section \<open>The code\<close>

text \<open>\<open>md5_append(ctx, p, n)\<close> with a pointer; a length that is negative as an \<open>int\<close> reads nothing.\<close>

definition append_at :: "mem \<Rightarrow> md5_state \<Rightarrow> addr \<Rightarrow> nat \<Rightarrow> md5_state res" where
  "append_at m ctx p n =
     (if sint (of_nat n :: u32) \<le> 0 then Inr ctx
      else if valid m p n then Inr (md5_append ctx (bytes m p n)) else Inl OutOfBounds)"

definition Node_label :: "node_heap \<Rightarrow> addr list \<Rightarrow> nptr \<Rightarrow> addr res" where
  "Node_label h tag_list n =
     rbind (nread h n) (\<lambda>nd. rbind (rassert (labelId nd \<noteq> - 1)) (\<lambda>_.
       if labelId nd < 0 then Inl OutOfBounds else aread tag_list (nat (labelId nd))))"

definition digest_child :: "(nptr \<Rightarrow> md5_state \<Rightarrow> md5_state res) \<Rightarrow> mem \<Rightarrow> node_heap \<Rightarrow> addr list \<Rightarrow> nptr \<Rightarrow> md5_state \<Rightarrow> nat \<Rightarrow> md5_state res" where
  "digest_child rec m h tag_list obj ctx i =
     rbind (Node_get h obj i) (\<lambda>node. rbind (rassert (node \<noteq> obj)) (\<lambda>_.
       if node = 0 then Inr ctx
       else rbind (Node_label h tag_list node) (\<lambda>label. rbind (mread m label) (\<lambda>c.
         rbind (if c \<noteq> 0 then rbind (pstring_length m label) (\<lambda>len. append_at m (md5_append ctx [36]) label (unat len)) else Inr ctx)
           (\<lambda>ctx. rec node ctx)))))"

fun Node_digest2 :: "nat \<Rightarrow> mem \<Rightarrow> node_heap \<Rightarrow> addr list \<Rightarrow> nptr \<Rightarrow> md5_state \<Rightarrow> md5_state res" where
  "Node_digest2 0 m h tag_list obj ctx = Inl NoFuel"
| "Node_digest2 (Suc f) m h tag_list obj ctx =
     rbind (Node_length h obj) (\<lambda>len. rbind (nread h obj) (\<lambda>nd.
     rbind (if ntag nd \<noteq> 0 then rbind (pstring_length m (ntag nd)) (\<lambda>tlen. append_at m (md5_append ctx [35]) (ntag nd) (unat tlen))
            else Inr (md5_append ctx [35])) (\<lambda>ctx.
     rbind (rfold (digest_child (Node_digest2 f m h tag_list) m h tag_list obj) ctx [0..<len]) (\<lambda>ctx.
       if len = 0 then
         if nvalue nd \<noteq> 0 then rbind (pstring_length m (nvalue nd)) (\<lambda>slen. Inl AssertFail)
         else append_at m ctx (npos nd) (nlen nd)
       else Inr ctx))))"

definition hex_digits :: "u8 list" where
  "hex_digits = map of_char ''0123456789abcdef''"

definition Node_digest :: "nat \<Rightarrow> mem \<Rightarrow> node_heap \<Rightarrow> addr list \<Rightarrow> nptr \<Rightarrow> u8 list \<Rightarrow> u8 list res" where
  "Node_digest f m h tag_list obj junk =
     rbind (Node_digest2 f m h tag_list obj (md5_init junk)) (\<lambda>ctx.
       Inr (concat (map (\<lambda>d. [hex_digits ! unat (drop_bit 4 d AND 15), hex_digits ! unat (15 AND d)]) (md5_finish ctx))))"

section \<open>Trees\<close>

text \<open>What a node stands for: a leaf with its tag and its text, or a tag and the children with their labels.\<close>

datatype vtree = VLeaf "u8 list" "u8 list" | VNode "u8 list" vkids
  and vkids = NoKids | NullKid vkids | Kid "u8 list" vtree vkids

fun tree_text :: "vtree \<Rightarrow> u8 list" and kids_text :: "vkids \<Rightarrow> u8 list" where
  "tree_text (VLeaf t x) = 35 # t @ x"
| "tree_text (VNode t ks) = 35 # t @ kids_text ks"
| "kids_text NoKids = []"
| "kids_text (NullKid ks) = kids_text ks"
| "kids_text (Kid l s ks) = (if l = [] then [] else 36 # l) @ tree_text s @ kids_text ks"

fun tree_depth :: "vtree \<Rightarrow> nat" and kids_depth :: "vkids \<Rightarrow> nat" where
  "tree_depth (VLeaf t x) = 1"
| "tree_depth (VNode t ks) = Suc (kids_depth ks)"
| "kids_depth NoKids = 0"
| "kids_depth (NullKid ks) = kids_depth ks"
| "kids_depth (Kid l s ks) = max (tree_depth s) (kids_depth ks)"

fun kids_count :: "vkids \<Rightarrow> nat" where
  "kids_count NoKids = 0"
| "kids_count (NullKid ks) = Suc (kids_count ks)"
| "kids_count (Kid l s ks) = Suc (kids_count ks)"

text \<open>The name at an address, the tag of a node and the label of a child.\<close>

definition name_at :: "mem \<Rightarrow> addr \<Rightarrow> u8 list \<Rightarrow> bool" where
  "name_at m p t \<longleftrightarrow> pstring_length m p = Inr (of_nat (length t)) \<and> length t < 2 ^ 31 \<and>
     (if t = [] then mread m p = Inr 0 else valid m p (length t) \<and> bytes m p (length t) = t \<and> hd t \<noteq> 0)"

definition tag_text :: "mem \<Rightarrow> addr \<Rightarrow> u8 list \<Rightarrow> bool" where
  "tag_text m p t \<longleftrightarrow> (if p = 0 then t = [] else name_at m p t)"

definition label_text :: "mem \<Rightarrow> node_heap \<Rightarrow> addr list \<Rightarrow> nptr \<Rightarrow> u8 list \<Rightarrow> bool" where
  "label_text m h tag_list n l \<longleftrightarrow> (\<exists>p. Node_label h tag_list n = Inr p \<and> name_at m p l)"

fun holds :: "mem \<Rightarrow> node_heap \<Rightarrow> addr list \<Rightarrow> nptr \<Rightarrow> vtree \<Rightarrow> bool" and
  holds_kids :: "mem \<Rightarrow> node_heap \<Rightarrow> addr list \<Rightarrow> nptr \<Rightarrow> nat \<Rightarrow> vkids \<Rightarrow> bool" where
  "holds m h ts n (VLeaf t x) \<longleftrightarrow> (\<exists>nd. nread h n = Inr nd \<and> entry_size (nentry nd) = 0 \<and> tag_text m (ntag nd) t \<and>
     nvalue nd = 0 \<and> nlen nd = length x \<and> length x < 2 ^ 31 \<and> (x = [] \<or> valid m (npos nd) (length x) \<and> bytes m (npos nd) (length x) = x))"
| "holds m h ts n (VNode t ks) \<longleftrightarrow> ks \<noteq> NoKids \<and> (\<exists>nd. nread h n = Inr nd \<and> entry_size (nentry nd) = kids_count ks \<and>
     tag_text m (ntag nd) t \<and> holds_kids m h ts n 0 ks)"
| "holds_kids m h ts n i NoKids \<longleftrightarrow> True"
| "holds_kids m h ts n i (NullKid ks) \<longleftrightarrow> n \<noteq> 0 \<and> Node_get h n i = Inr 0 \<and> holds_kids m h ts n (i + 1) ks"
| "holds_kids m h ts n i (Kid l s ks) \<longleftrightarrow> (\<exists>c. Node_get h n i = Inr c \<and> c \<noteq> 0 \<and> c \<noteq> n \<and> label_text m h ts c l \<and>
     holds m h ts c s \<and> holds_kids m h ts n (i + 1) ks)"

section \<open>The digest of a tree\<close>

lemma append_at_ok:
  assumes "absorbed ctx a" "length x < 2 ^ 31" "x = [] \<or> valid m p (length x) \<and> bytes m p (length x) = x"
  shows "\<exists>ctx'. append_at m ctx p (length x) = Inr ctx' \<and> absorbed ctx' (a @ x)"
proof (cases "x = []")
  case True
  then show ?thesis using assms(1) by (simp add: append_at_def)
next
  case False
  then show ?thesis using assms append_absorbs [OF assms(1,2)] sint_len [OF assms(2)] by (auto simp: append_at_def)
qed

lemma name_append:
  assumes "absorbed ctx a" "name_at m p t"
  shows "\<exists>ctx'. rbind (pstring_length m p) (\<lambda>len. append_at m ctx p (unat len)) = Inr ctx' \<and> absorbed ctx' (a @ t)"
  using append_at_ok [OF assms(1), of t m p] assms(2) by (auto simp: name_at_def unat_of_nat_u32 split: if_splits)

lemma name_first: "name_at m p t \<Longrightarrow> \<exists>c. mread m p = Inr c \<and> (c \<noteq> 0 \<longleftrightarrow> t \<noteq> [])"
  by (cases t) (auto simp: name_at_def bytes_Suc valid_def mread_ok)

lemma mark_absorbed: "absorbed ctx a \<Longrightarrow> absorbed (md5_append ctx [c]) (a @ [c])"
  by (rule append_absorbs) simp_all

lemma tag_append:
  assumes "absorbed ctx a" "tag_text m p t"
  shows "\<exists>ctx'. (if p \<noteq> 0 then rbind (pstring_length m p) (\<lambda>tlen. append_at m (md5_append ctx [35]) p (unat tlen))
    else Inr (md5_append ctx [35])) = Inr ctx' \<and> absorbed ctx' (a @ 35 # t)"
  using name_append [OF mark_absorbed [OF assms(1), of 35]] mark_absorbed [OF assms(1), of 35] assms(2)
  by (auto simp: tag_text_def split: if_splits)

lemma child_append:
  assumes "absorbed ctx a" "Node_get h n i = Inr c" "c \<noteq> 0" "c \<noteq> n" "label_text m h ts c l"
  shows "\<exists>ctx'. digest_child rec m h ts n ctx i = rec c ctx' \<and> absorbed ctx' (a @ (if l = [] then [] else 36 # l))"
proof -
  from assms(5) obtain p where p: "Node_label h ts c = Inr p" "name_at m p l" by (auto simp: label_text_def)
  from name_first [OF p(2)] obtain b where b: "mread m p = Inr b" "b \<noteq> 0 \<longleftrightarrow> l \<noteq> []" by blast
  from name_append [OF mark_absorbed [OF assms(1), of 36] p(2)] obtain ctx' where
    "rbind (pstring_length m p) (\<lambda>len. append_at m (md5_append ctx [36]) p (unat len)) = Inr ctx'" "absorbed ctx' (a @ 36 # l)"
    by auto
  with b p assms show ?thesis by (cases "l = []") (auto simp: digest_child_def)
qed

lemma upt_kids: "[i..<i + Suc k] = i # [Suc i..<Suc i + k]"
  by (simp add: upt_conv_Cons del: upt_Suc)

lemma digest_ok:
  "holds m h ts n t \<Longrightarrow> tree_depth t \<le> f \<Longrightarrow> absorbed ctx a \<Longrightarrow>
    \<exists>ctx'. Node_digest2 f m h ts n ctx = Inr ctx' \<and> absorbed ctx' (a @ tree_text t)"
  "holds_kids m h ts n i ks \<Longrightarrow> kids_depth ks \<le> f \<Longrightarrow> absorbed ctx a \<Longrightarrow>
    \<exists>ctx'. rfold (digest_child (Node_digest2 f m h ts) m h ts n) ctx [i..<i + kids_count ks] = Inr ctx' \<and>
      absorbed ctx' (a @ kids_text ks)"
proof (induction t and ks arbitrary: n f ctx a and n i f ctx a rule: vtree.induct vkids.induct)
  case (VLeaf t x)
  then obtain nd g where nd: "nread h n = Inr nd" "entry_size (nentry nd) = 0" "tag_text m (ntag nd) t" "nvalue nd = 0" "nlen nd = length x"
      "length x < 2 ^ 31" "x = [] \<or> valid m (npos nd) (length x) \<and> bytes m (npos nd) (length x) = x" "f = Suc g"
    by (cases f) auto
  from tag_append [OF VLeaf.prems(3) nd(3)] obtain c1 where c1: "(if ntag nd \<noteq> 0 then rbind (pstring_length m (ntag nd))
      (\<lambda>tlen. append_at m (md5_append ctx [35]) (ntag nd) (unat tlen)) else Inr (md5_append ctx [35])) = Inr c1" "absorbed c1 (a @ 35 # t)" by blast
  from append_at_ok [OF c1(2) nd(6,7)] obtain c2 where "append_at m c1 (npos nd) (length x) = Inr c2" "absorbed c2 ((a @ 35 # t) @ x)" by blast
  then show ?case using nd c1(1) by (simp add: Node_length_def)
next
  case (VNode t ks)
  then obtain nd g where nd: "nread h n = Inr nd" "entry_size (nentry nd) = kids_count ks" "tag_text m (ntag nd) t"
      "holds_kids m h ts n 0 ks" "f = Suc g" "ks \<noteq> NoKids" "kids_depth ks \<le> g"
    by (cases f) auto
  from tag_append [OF VNode.prems(3) nd(3)] obtain c1 where c1: "(if ntag nd \<noteq> 0 then rbind (pstring_length m (ntag nd))
      (\<lambda>tlen. append_at m (md5_append ctx [35]) (ntag nd) (unat tlen)) else Inr (md5_append ctx [35])) = Inr c1" "absorbed c1 (a @ 35 # t)" by blast
  from VNode.IH [OF nd(4,7) c1(2)] obtain c2 where c2: "rfold (digest_child (Node_digest2 g m h ts) m h ts n) c1 [0..<kids_count ks] = Inr c2"
      "absorbed c2 ((a @ 35 # t) @ kids_text ks)" by auto
  have "kids_count ks \<noteq> 0" using nd(6) by (cases ks) simp_all
  then show ?case using nd c1(1) c2 by (simp add: Node_length_def)
next
  case NoKids
  then show ?case by simp
next
  case (NullKid ks)
  then have "holds_kids m h ts n (Suc i) ks" "kids_depth ks \<le> f" "digest_child (Node_digest2 f m h ts) m h ts n ctx i = Inr ctx"
    by (simp_all add: digest_child_def)
  with NullKid.IH [OF this(1,2) NullKid.prems(3)] show ?case
    unfolding kids_count.simps kids_text.simps upt_kids by (simp del: upt_Suc)
next
  case (Kid l s ks)
  then obtain c where c: "Node_get h n i = Inr c" "c \<noteq> 0" "c \<noteq> n" "label_text m h ts c l" "holds m h ts c s" "holds_kids m h ts n (Suc i) ks"
      "tree_depth s \<le> f" "kids_depth ks \<le> f" by auto
  from child_append [OF Kid.prems(3) c(1-4), of "Node_digest2 f m h ts"] obtain c1 where
    c1: "digest_child (Node_digest2 f m h ts) m h ts n ctx i = Node_digest2 f m h ts c c1" "absorbed c1 (a @ (if l = [] then [] else 36 # l))"
    by blast
  from Kid.IH(1) [OF c(5,7) c1(2)] obtain c2 where c2: "Node_digest2 f m h ts c c1 = Inr c2"
    "absorbed c2 ((a @ (if l = [] then [] else 36 # l)) @ tree_text s)" by blast
  from Kid.IH(2) [OF c(6,8) c2(2)] c1(1) c2(1) show ?case
    unfolding kids_count.simps kids_text.simps upt_kids by (simp del: upt_Suc)
qed

definition hex_text :: "u8 list \<Rightarrow> u8 list" where
  "hex_text ds = concat (map (\<lambda>d. [hex_digits ! (unat d div 16), hex_digits ! (unat d mod 16)]) ds)"

lemma nibbles: "unat (drop_bit 4 d AND 15) = unat d div 16" "unat (15 AND d) = unat d mod 16" for d :: u8
proof -
  have m: "w AND 15 = take_bit 4 w" for w :: u8 by (simp add: take_bit_eq_mask mask_eq_exp_minus_1)
  have "unat (drop_bit 4 d AND 15) = (unat d div 16) mod 16"
    unfolding m unsigned_take_bit_eq unat_drop_bit_eq by (simp add: drop_bit_eq_div take_bit_eq_mod)
  moreover have "unat d div 16 < 16" using unat_u8 [of d] by linarith
  ultimately show "unat (drop_bit 4 d AND 15) = unat d div 16" by simp
  show "unat (15 AND d) = unat d mod 16"
    unfolding and.commute [of 15] m unsigned_take_bit_eq by (simp add: take_bit_eq_mod)
qed


text \<open>A node with the tag \<open>T\<close>, a leaf with the text \<open>a\<close> under the label \<open>v\<close>, and an element that is not there.\<close>

definition example_mem :: mem where
  "example_mem = [0, 1, 0, 0, 0, 84, 0, 1, 0, 0, 0, 118, 0, 97]"

definition example_nodes :: node_heap where
  "example_nodes = \<lparr>cells = [null_node, null_node\<lparr>refc := 1, ntag := 5, nentry := RawEntry 2 [2, 0]\<rparr>,
     null_node\<lparr>refc := 1, npos := 13, nlen := 1\<rparr>], free_list = 0, free_object_count = 0, current_page = [0]\<rparr>"

lemma example_holds: "holds example_mem example_nodes [11] 1 (VNode [84] (Kid [118] (VLeaf [] [97]) (NullKid NoKids)))"
  by (simp add: example_mem_def example_nodes_def null_node_def nread_def tag_text_def label_text_def name_at_def Node_label_def Node_get_def
      MOZVM_SMALL_ARRAY_LIMIT_def pstring_length_def pstring_get_raw_def load32_def mread_def aread_def valid_def bytes_def)


end
