(* ===== verification/Cli.thy ===== *)
theory Cli
  imports VM1_Parse Ast_Build Runtime
begin

text \<open>
  The main loop of \<open>src/src/cli/main.c\<close>: the same input is parsed a number of times; each turn sets the
  source, parses, takes the parsed node, shows it, releases it and resets the runtime and the nodes.
  Showing (\<open>Node_print\<close>, \<open>Node_digest\<close>) only reads the node, so a turn returns the node with the node
  heap as it is then. Reading options and files, timers and statistics are input and output.
\<close>

section \<open>The loop\<close>

text \<open>The blocks \<open>malloc\<close> returns for the parts of the runtime, and the number of memo points.\<close>

record blocks =
  log_block :: "AstLog list"
  sym_block :: "entry_t list"
  memo_block :: "memo_entry list"
  memo_size :: u32

text \<open>\<open>None\<close> is the \<open>break\<close> after a parse error; a node is shown unless it is NULL.\<close>

definition main_turn :: "nat \<Rightarrow> constants \<Rightarrow> blocks \<Rightarrow> addr \<Rightarrow> nat \<Rightarrow> vm \<Rightarrow> ((nptr \<times> node_heap) list option \<times> vm) res" where
  "main_turn f C B input input_size v =
     (let v = moz_runtime_set_source v input (input + input_size)
      in rbind (moz_runtime_parse_init C v input 0) (\<lambda>v. rbind (moz_runtime_parse f C v input 0) (\<lambda>(parsed, v).
         if parsed \<noteq> 0 then Inr (None, v)
         else rbind (ast_get_parsed_node (vast v) (vheap v)) (\<lambda>(node, ast, h).
           rbind (if node \<noteq> 0 then rbind (NODE_GC_RELEASE h node) (\<lambda>h'. Inr ([(node, h)], h')) else Inr ([], h)) (\<lambda>(shown, h).
           rbind (moz_runtime_reset1 (log_block B) (sym_block B) (memo_block B) (v\<lparr>vast := ast, vheap := h\<rparr>) (memo_size B)) (\<lambda>v.
           rbind (NodeManager_reset (vheap v)) (\<lambda>h. Inr (Some shown, v\<lparr>vheap := h\<rparr>))))))))"

text \<open>\<open>while (loop-- > 0)\<close>; the result says whether no parse failed.\<close>

fun main_loop :: "nat \<Rightarrow> constants \<Rightarrow> blocks \<Rightarrow> addr \<Rightarrow> nat \<Rightarrow> nat \<Rightarrow> vm \<Rightarrow> (bool \<times> (nptr \<times> node_heap) list \<times> vm) res" where
  "main_loop f C B input input_size 0 v = Inr (True, [], v)"
| "main_loop f C B input input_size (Suc n) v =
     rbind (main_turn f C B input input_size v) (\<lambda>(shown, v).
       case shown of None \<Rightarrow> Inr (False, [], v)
       | Some ns \<Rightarrow> rbind (main_loop f C B input input_size n v) (\<lambda>(ok, ms, v). Inr (ok, ns @ ms, v)))"

section \<open>The state between two turns\<close>

text \<open>The node heap after \<open>NodeManager_init\<close>: one page, all of it free.\<close>

definition no_nodes :: node_heap where
  "no_nodes = \<lparr>cells = [null_node], free_list = 0, free_object_count = 0, current_page = []\<rparr>"

definition first_heap :: node_heap where
  "first_heap = no_nodes\<lparr>cells := null_node # page_nodes 1 0, current_page := [1], free_object_count := PAGE_OBJECT_SIZE, free_list := 2\<rparr>"

lemma reset_heap: "NodeManager_reset h = Inr first_heap"
  by (simp add: NodeManager_reset_def NodeManager_init_def NodeManager_dispose_def alloc_page_def first_heap_def no_nodes_def Let_def)

definition fresh_ast :: "blocks \<Rightarrow> addr \<Rightarrow> AstMachine" where
  "fresh_ast B src = \<lparr>logs = ARRAY_init (log_block B), last_linked = 0, parsed = 0, source = src\<rparr>"

definition fresh_table :: "blocks \<Rightarrow> symtable_t" where
  "fresh_table B = \<lparr>sstate = 0, table = ARRAY_init (sym_block B)\<rparr>"

definition good_blocks :: "blocks \<Rightarrow> bool" where
  "good_blocks B \<longleftrightarrow> blocks_ok (log_block B) (sym_block B) (memo_block B) (memo_size B)"

definition between :: "blocks \<Rightarrow> vm \<Rightarrow> bool" where
  "between B v \<longleftrightarrow> vast v = fresh_ast B 0 \<and> vtable v = fresh_table B \<and> vheap v = first_heap \<and>
     memo_init (memo_block B) MOZ_MEMO_DEFAULT_WINDOW_SIZE (memo_size B) = Inr (vmemo v) \<and> vsp v = 15 \<and> vfp v = 15 \<and> length (stack v) = 1024"

text \<open>Where the parser starts in every turn.\<close>

definition turn_start :: "blocks \<Rightarrow> addr \<Rightarrow> pst" where
  "turn_start B input = \<lparr>pcur = input, past = fresh_ast B input, pheap = first_heap, ptab = fresh_table B\<rparr>"

text \<open>A parser's final state whose log is the one of a tree.\<close>

definition leaves_tree :: "pst \<Rightarrow> ltree \<Rightarrow> bool" where
  "leaves_tree s T \<longleftrightarrow> (\<exists>L xs. ast_ok (past s) (pheap s) L {#} xs \<and> trefs T \<subseteq> L) \<and> lg (past s) = emit T \<and> AstMachine.parsed (past s) = 0 \<and>
     length (emit T) + 1 < 2 ^ 28"

definition parser_ok :: "constants \<Rightarrow> peg list \<Rightarrow> bool" where
  "parser_ok C G \<longleftrightarrow> code C = program G \<and> length (program G) < 2 ^ 31 \<and> (\<forall>e \<in> set G. ascii e) \<and> 0 < length G"

lemma init_between:
  assumes "good_blocks B" "moz_runtime_init (log_block B) (sym_block B) (memo_block B) first_heap (memo_size B) = Inr v"
  shows "between B v"
  using assms parts_init_ok [of "log_block B" "sym_block B" "memo_block B" "memo_size B"]
  by (auto simp: good_blocks_def moz_runtime_init_def rbind_eq_Inr between_def fresh_ast_def fresh_table_def init_stack_def
      MOZ_DEFAULT_STACK_SIZE_def)

lemma turn_ok:
  assumes v: "between B v" and B: "good_blocks B" and C: "parser_ok C G"
    and run: "parse C (input + len) G k (G ! 0) (turn_start B input) (POk s)" and k: "k \<le> 1003" and T: "leaves_tree s T"
  shows "\<exists>n a h N w. (\<forall>f. main_turn (n + f) C B input len v = Inr (Some [(a, h)], w)) \<and> tree_at N h a T \<and> between B w"
proof -
  let ?v = "moz_runtime_set_source v input (input + len)"
  have v': "tl_pos ?v = input + len" "st_of (?v\<lparr>cur := input\<rparr>) = turn_start B input" "vsp ?v + 6 + k \<le> length (stack ?v)"
      "vmemo ?v = vmemo v" "length (stack ?v) = 1024"
    using v k by (simp_all add: moz_runtime_set_source_def between_def turn_start_def st_of_def AstMachine_setSource_def fresh_ast_def)
  have L: "linked C (rule_addr G) G" using C program_linked by (simp add: parser_ok_def)
  have "parsed C ?v input 0 s"
    using parse_success [OF L _ _ v'(2,3)] run C v'(1) by (simp add: parser_ok_def)
  then obtain n w where w: "st_of w = s" "vmemo w = vmemo v" "length (stack w) = 1024"
      "\<And>f. moz_parse (n + f) C ?v input = Inr (0, w)"
    unfolding VM1_Parse.parsed_def v'(4,5) by blast
  have ps: "past s = vast w" "pheap s = vheap w" using w(1) by (auto simp: st_of_def)
  from T obtain L xs where T': "lg (vast w) = emit T" "ast_ok (vast w) (vheap w) L {#} xs" "trefs T \<subseteq> L" "AstMachine.parsed (vast w) = 0"
      "length (lg (vast w)) + 1 < 2 ^ 28" unfolding leaves_tree_def ps by auto
  from get_parsed_tree [OF T'] obtain a ast h L' xs' where
    g: "ast_get_parsed_node (vast w) (vheap w) = Inr (a, ast, h)" "lg ast = []" "ast_ok ast h L' (add_mset a {#}) xs'" "a \<in> L' - L"
      "tree_at (L' - L) h a T" by blast
  have hok: "heap_ok h L' (add_mset a {#}) xs'" "arr_wf (logs ast)" using g(2,3) by (simp_all add: ast_ok_def)
  then have "a \<noteq> 0" using g(4) by (auto simp: heap_ok_def counted_def)
  from GC_RELEASE_ok [OF hok(1)] obtain h2 L2 xs2 where h2: "NODE_GC_RELEASE h a = Inr h2" "heap_ok h2 L2 {#} xs2" by blast
  have m: "memo_wf (vmemo w)" "memo_refs (vmemo w) = {#}"
    using parts_init_ok(3) [OF B [unfolded good_blocks_def]] v w(2) by (auto simp: between_def)
  let ?w = "w\<lparr>vast := ast, vheap := h2\<rparr>"
  have "vm_ok ?w L2 {#} xs2" using hok(2) m h2(2) g(2) by (simp add: vm_ok_def vm_refs_def)
  from reset1_ok [OF this B [unfolded good_blocks_def]] obtain u mm where
    u: "moz_runtime_reset1 (log_block B) (sym_block B) (memo_block B) ?w (memo_size B) =
        Inr (u\<lparr>vast := fresh_ast B 0, vtable := fresh_table B, vmemo := mm, vsp := 15, vfp := 15\<rparr>)"
      "memo_init (memo_block B) MOZ_MEMO_DEFAULT_WINDOW_SIZE (memo_size B) = Inr mm" "stack u = stack ?w"
    unfolding fresh_ast_def fresh_table_def by blast
  let ?u = "u\<lparr>vast := fresh_ast B 0, vtable := fresh_table B, vmemo := mm, vsp := 15, vfp := 15, vheap := first_heap\<rparr>"
  have "main_turn (n + f) C B input len v = Inr (Some [(a, h)], ?u)" for f
  proof -
    from w(4) [of f] obtain x where x: "moz_runtime_parse_init C ?v input 0 = Inr x" "moz_runtime_parse (n + f) C x input 0 = Inr (0, w)"
      by (auto simp: moz_parse_def rbind_eq_Inr)
    show ?thesis
      using x g(1) \<open>a \<noteq> 0\<close> h2(1) u(1) by (simp add: main_turn_def Let_def reset_heap)
  qed
  moreover have "between B ?u" using u(2,3) w(3) by (simp add: between_def)
  ultimately show ?thesis using g(5) by blast
qed

text \<open>C4: The main loop repeats the parse. If the parser, from the fresh state of a turn, ends with the
log of a tree, then from a new runtime any number of turns returns, each shows a node that is exactly
this tree, and what it leaves is as new: no node, no log, no symbol and no memo entry of one turn is
there in the next.\<close>

theorem main_loop_repeats:
  assumes "good_blocks B" "parser_ok C G" "parse C (input + len) G k (G ! 0) (turn_start B input) (POk s)" "k \<le> 1003" "leaves_tree s T"
    and "moz_runtime_init (log_block B) (sym_block B) (memo_block B) first_heap (memo_size B) = Inr v"
  shows "\<exists>n ms w. (\<forall>f. main_loop (n + f) C B input len turns v = Inr (True, ms, w)) \<and> length ms = turns \<and>
    list_all (\<lambda>(a, h). \<exists>N. tree_at N h a T) ms \<and> vheap w = first_heap \<and> fresh (memo_size B) w"
proof -
  have "\<exists>n ms w. (\<forall>f. main_loop (n + f) C B input len turns v = Inr (True, ms, w)) \<and> length ms = turns \<and>
      list_all (\<lambda>(a, h). \<exists>N. tree_at N h a T) ms \<and> between B w" if "between B v" for v
    using that
  proof (induction turns arbitrary: v)
    case 0
    then show ?case by (intro exI [of _ 0] exI [of _ "[]"] exI [of _ v]) simp
  next
    case (Suc turns)
    from turn_ok [OF Suc.prems assms(1-5)] obtain n a h N w where
      t: "\<And>f. main_turn (n + f) C B input len v = Inr (Some [(a, h)], w)" "tree_at N h a T" "between B w" by blast
    from Suc.IH [OF t(3)] obtain n' ms w' where
      r: "\<And>f. main_loop (n' + f) C B input len turns w = Inr (True, ms, w')" "length ms = turns"
        "list_all (\<lambda>(a, h). \<exists>N. tree_at N h a T) ms" "between B w'" by blast
    have "main_loop (n + n' + f) C B input len (Suc turns) v = Inr (True, (a, h) # ms, w')" for f
      using t(1) [of "n' + f"] r(1) [of "n + f"] by (simp add: ac_simps)
    then show ?case using r(2-4) t(2) by (intro exI [of _ "n + n'"] exI [of _ "(a, h) # ms"] exI [of _ w']) auto
  qed
  from this [OF init_between [OF assms(1,6)]] obtain n ms w where
    r: "\<forall>f. main_loop (n + f) C B input len turns v = Inr (True, ms, w)" "length ms = turns"
      "list_all (\<lambda>(a, h). \<exists>N. tree_at N h a T) ms" "between B w" by blast
  have "fresh (memo_size B) w"
    using r(4) parts_init_ok(3) [OF assms(1) [unfolded good_blocks_def]] empty_parts [of "log_block B"] assms(1)
    by (auto simp: fresh_def between_def fresh_ast_def fresh_table_def lg_def log_def ARRAY_init_def elts_def good_blocks_def blocks_ok_def)
  with r show ?thesis by (auto simp: between_def)
qed

text \<open>The grammar \<open>{ 'a' }\<close> on the input \<open>a\<close>.\<close>

definition loop_G :: "peg list" where
  "loop_G = [PSeq (PAct (ANew 0)) (PSeq (PByte 97) (PAct (ACapture 0)))]"

definition loop_C :: constants where
  "loop_C = \<lparr>sets = [], tags = [], strs = [], tables = [], jumps = [], jumps1 = [], jumps2 = [], jumps3 = [],
     code = program loop_G, vmem = [0, 97, 0], stale = 0\<rparr>"

definition loop_B :: blocks where
  "loop_B = \<lparr>log_block = replicate 128 0, sym_block = replicate 4 0, memo_block = replicate 128 0, memo_size = 3\<rparr>"

lemma loop_blocks: "good_blocks loop_B"
  unfolding good_blocks_def loop_B_def blocks.simps by (rule example_blocks)

lemma first_heap_ok: "\<exists>xs. heap_ok first_heap {} {#} xs"
proof -
  have "heap_ok no_nodes {} {#} []"
    by (simp add: no_nodes_def heap_ok_def counted_def freelist_def refs_def)
  from alloc_page_ok [OF this] obtain h where h: "alloc_page no_nodes = Inr h" "\<exists>xs. heap_ok h {} {#} xs" by blast
  have "alloc_page no_nodes = Inr first_heap"
    using reset_heap [of no_nodes] by (simp add: NodeManager_reset_def NodeManager_init_def NodeManager_dispose_def no_nodes_def)
  with h show ?thesis by simp
qed

lemma loop_parse:
  "\<exists>s. parse loop_C 2 loop_G 0 (loop_G ! 0) (turn_start loop_B 1) (POk s) \<and> leaves_tree s (Base 1 [] 0 0 2)"
proof -
  let ?s = "turn_start loop_B 1"
  obtain xs where xs: "heap_ok first_heap {} {#} xs" using first_heap_ok by blast
  have e: "arr_wf (ARRAY_init (replicate 128 (0 :: AstLog)))" "elts (ARRAY_init (replicate 128 (0 :: AstLog))) = []"
    using empty_parts [of "replicate 128 (0 :: AstLog)"] by simp_all
  have 0: "ast_ok (past ?s) first_heap {} {#} xs" "lg (past ?s) = []" "AstMachine.parsed (past ?s) = 0"
    using e xs by (simp_all add: turn_start_def fresh_ast_def loop_B_def ast_ok_def lg_def)
  from ast_log_plain_ok [OF 0(1), of TypeNew 1 0] 0 obtain a1 where
    a1: "ast_log (past ?s) TypeNew 1 0 = Inr a1" "ast_ok a1 first_heap {} {#} xs" "lg a1 = [ent TypeNew 0 1]" "AstMachine.parsed a1 = 0" by auto
  from ast_log_plain_ok [OF a1(2), of TypeCapture 2 0] a1 obtain a2 where
    a2: "ast_log a1 TypeCapture 2 0 = Inr a2" "ast_ok a2 first_heap {} {#} xs" "lg a2 = [ent TypeNew 0 1, ent TypeCapture 0 2]"
      "AstMachine.parsed a2 = 0" by auto
  let ?s1 = "?s\<lparr>past := a1\<rparr>" and ?p = "parse loop_C 2 loop_G 0"
  have "?p (PAct (ANew 0)) ?s (POk ?s1)"
    by (rule parse_loop.Act) (use a1(1) in \<open>simp add: ast_log_new_def at_shift_def turn_start_def\<close>)
  moreover have "?p (PByte 97) ?s1 (POk (adv ?s1 1))"
    using parse_loop.Byte [of loop_C ?s1 97 2 loop_G 0 97] by (simp add: loop_C_def turn_start_def mread_def aread_def)
  moreover have "?p (PAct (ACapture 0)) (adv ?s1 1) (POk ((adv ?s1 1)\<lparr>past := a2\<rparr>))"
    by (rule parse_loop.Act) (use a2(1) in \<open>simp add: ast_log_capture_def at_shift_def turn_start_def adv_def numeral_2_eq_2\<close>)
  ultimately have "?p (loop_G ! 0) ?s (POk ((adv ?s1 1)\<lparr>past := a2\<rparr>))"
    unfolding loop_G_def by (auto intro: parse_loop.Seq_ok)
  moreover have "leaves_tree ((adv ?s1 1)\<lparr>past := a2\<rparr>) (Base 1 [] 0 0 2)"
    using a2 by (auto simp: leaves_tree_def adv_def turn_start_def meta_def)
  ultimately show ?thesis by blast
qed

lemma main_loop_repeats_witness:
  "\<exists>v n ms w. (\<forall>f. main_loop (n + f) loop_C loop_B 1 1 2 v = Inr (True, ms, w)) \<and> length ms = 2 \<and>
    list_all (\<lambda>(a, h). \<exists>N. tree_at N h a (Base 1 [] 0 0 2)) ms \<and> vheap w = first_heap \<and> fresh (memo_size loop_B) w"
proof -
  have p: "parser_ok loop_C loop_G"
    by (simp add: parser_ok_def loop_C_def program_def loop_G_def)
  obtain v where v: "moz_runtime_init (log_block loop_B) (sym_block loop_B) (memo_block loop_B) first_heap (memo_size loop_B) = Inr v"
    using parts_init_ok [OF loop_blocks [unfolded good_blocks_def]] loop_blocks
    by (auto simp: moz_runtime_init_def good_blocks_def blocks_ok_def MOZ_AST_MACHINE_DEFAULT_LOG_SIZE_def)
  from loop_parse obtain s where s: "parse loop_C 2 loop_G 0 (loop_G ! 0) (turn_start loop_B 1) (POk s)" "leaves_tree s (Base 1 [] 0 0 2)" by blast
  have "parse loop_C (1 + 1) loop_G 0 (loop_G ! 0) (turn_start loop_B 1) (POk s)" using s(1) by (simp add: numeral_2_eq_2)
  from main_loop_repeats [OF loop_blocks p this _ s(2) v, of 2] show ?thesis by blast
qed

end
