(* ===== verification/Spec2Isabelle.thy ===== *)
theory Spec2Isabelle
  imports Moz_Prelude Bitset Jump_Table KArray Buffer Memory Tx_Log Symtable Node Memo Ast_Build Instruction VM1
    VM1_Parse VM1_Chars Runtime Loader IR Expression Compiler Module VM2 Cfg Link
    Expr_Heap Expr_Opt Expr_Peg Expr_Rewrite Expr_Tree Expr_Optimized Expr_Result Expr_Front Expr_Build Expr_Source
    Expr_Faults Compile Md5 Md5_Rfc Node_Digest Cli
begin

text \<open>
  moz is a virtual machine, a compiler and a syntax-tree runtime for parsing expression grammars. A
  grammar arrives as a byte-code file or as a syntax tree of its source. The first way goes through
  the loader to the first virtual machine; the second goes through the front end, the optimiser, the
  code generator and the linker to the second virtual machine. Both machines run on one runtime: the
  input in memory, a stack, the log from which syntax trees are built, the symbol table of the stateful
  operators, the memo table, and the heap of tree nodes. All paths are under \<open>src/src\<close>.

  \<^bold>\<open>Theories and code.\<close>

  \<^item> \<open>Moz_Prelude\<close>: machine integers, the kinds of errors, the error monad (\<open>rbind\<close>, \<open>rassert\<close>,
    \<open>rfold\<close>, checked reads and writes of arrays), facts about lists and words, the collection
    \<open>res_simps\<close>.
  \<^item> \<open>Bitset\<close>: \<open>core/bitset.h\<close>. \<open>Jump_Table\<close>: \<open>jmptbl.h\<close>. \<open>KArray\<close>: \<open>core/karray.h\<close>.
    \<open>Buffer\<close>: \<open>core/buffer.h\<close>.
  \<^item> \<open>Memory\<close>: the flat memory with \<open>core/pstring.h\<close>. \<open>Symtable\<close>: \<open>libnez/token.h\<close>,
    \<open>libnez/khash.h\<close>, \<open>libnez/symtable.c\<close>. \<open>Tx_Log\<close>: the savepoints that the symbol table
    and the tree log share.
  \<^item> \<open>Node\<close>: \<open>node/node.c\<close>, \<open>node/node.h\<close>, \<open>core/reference_count.h\<close>. \<open>Memo\<close>:
    \<open>libnez/memo.c\<close>. \<open>Ast\<close>, \<open>Ast_Build\<close>: \<open>libnez/ast.c\<close>.
  \<^item> \<open>Md5\<close>: \<open>node/md5.c\<close>. \<open>Md5_Rfc\<close>: the algorithm of RFC 1321, which is what \<open>Md5\<close> is
    compared with. \<open>Node_Digest\<close>: \<open>Node_digest\<close> of \<open>node/node.c\<close>.
  \<^item> \<open>Instruction\<close>: the opcodes and operands of \<open>vm1/instruction.h\<close> and \<open>instruction.def\<close>.
    \<open>VM1\<close>: the handlers of \<open>instruction.def\<close> and the loop of \<open>vm1/mozvm1.c\<close>, on a record with
    the state of \<open>moz_runtime_t\<close> and the registers. \<open>VM1_Run\<close>, \<open>VM1_Peg\<close>, \<open>VM1_Sim\<close>,
    \<open>VM1_Scopes\<close>, \<open>VM1_Correct\<close>, \<open>VM1_Parse\<close>: that the machine runs the code of a grammar as
    its meaning says. \<open>VM1_Chars\<close>: single instructions at the edges.
  \<^item> \<open>Runtime\<close>: \<open>runtime.c\<close>. \<open>Loader\<close>: \<open>loader.c\<close>. \<open>Cli\<close>: the main loop of \<open>cli/main.c\<close>.
  \<^item> \<open>Expression\<close>: the data type of \<open>compiler/expression.h\<close>. The file \<open>compiler/expression.c\<close> is in
    \<open>Expr_Heap\<close> (reference-counted cells, constructors, sweeps), \<open>Expr_Front\<close> (from a syntax tree to
    expressions) and \<open>Expr_Opt\<close> (the optimiser). \<open>Expr_Peg\<close> gives expressions a meaning and
    \<open>Expr_Rewrite\<close> states the optimiser as the function \<open>reduce\<close> on trees; \<open>Expr_Tree\<close>,
    \<open>Expr_Optimized\<close>, \<open>Expr_Result\<close> prove it of the heap; \<open>Expr_Build\<close> and \<open>Expr_Source\<close> prove
    what the front end builds; \<open>Expr_Faults\<close> has the inputs on which the file goes wrong.
  \<^item> \<open>IR\<close>: \<open>compiler/ir.h\<close>, \<open>block.c\<close>, \<open>block.h\<close>, \<open>worklist.h\<close>. \<open>Compiler\<close>:
    \<open>compiler/compiler.c\<close>. \<open>Cfg\<close>: the control flow graphs it builds. \<open>Module\<close>:
    \<open>compiler/linker.c\<close> and \<open>compiler/module.c\<close>. \<open>Link\<close>: what linking achieves. \<open>VM2\<close>:
    \<open>vm2/mozvm2.c\<close> and \<open>vm2/vm2.vmdef\<close>. \<open>Compile\<close>: \<open>moz_compiler_compile\<close>, which composes them.

  \<^bold>\<open>How C is modelled.\<close> Every fallible operation returns \<open>Inl\<close> of an error or \<open>Inr\<close> of its result.
  The errors are a failed \<open>assert\<close> (the debug build), a dereference of NULL, an access outside an
  object, and the other behaviours C leaves undefined; so a theorem that concludes \<open>Inr\<close> says that the
  run is defined. State is passed explicitly. Objects that are shared and changed through pointers (nodes,
  expressions, blocks and instructions) live in heaps, lists indexed by the pointer; a freed cell is
  \<open>None\<close>, or on the free list for nodes. Integers that can wrap have their width. What \<open>malloc\<close> and
  uninitialised locals hold is an argument. Reading a freed expression is governed by the field \<open>zeroed\<close>
  of the heap: the memory still holds the zeros of the sweep, or the read is an error. The machine is
  little-endian with a signed \<open>char\<close>; \<open>Buffer\<close> has the byte order as a parameter. The build is the
  configured one: reference counting, pages of nodes with a free list, the elastic memo table with a
  window of 32, positions that are pointers, compact instructions for short operands, jump tables of 256
  entries, indirect threading, a stack of 1024 words.

  \<^bold>\<open>What is shown.\<close>

  \<^item> \<^bold>\<open>Parsing\<close> (\<open>VM1_*\<close>). \<open>parse\<close> in \<open>VM1_Peg\<close> is the meaning of parsing expressions with
    ordered choice, repetition, predicates, trees and symbols. The machine started on the code of a
    grammar ends with the status, position, tree log, node heap and symbol table that \<open>parse\<close> gives, as
    long as its stack suffices; choices that fail leave no trace. The loop of a repeated set returns, bytes
    above 127 never match the instructions that compare a \<open>char\<close>, and a repeated empty string never ends.
  \<^item> \<^bold>\<open>Trees and memory\<close> (\<open>Ast*\<close>, \<open>Node\<close>, \<open>Memo\<close>, \<open>Symtable\<close>, \<open>Runtime\<close>, \<open>Cli\<close>).
    A commit builds exactly the tree that was logged, with its reference counts; release frees exactly what
    is no longer reachable; the memo table answers only what was stored; the lookups of the symbol table
    respect scopes and masks; rolling back restores both logs; a reset leaves a runtime like a new one, so
    every turn of the main loop parses the same input to the same tree and gives all nodes back.
  \<^item> \<^bold>\<open>Compiling\<close> (\<open>Expr_*\<close>, \<open>Cfg\<close>, \<open>Link\<close>, \<open>Compile\<close>). The front end builds the
    expressions a syntax tree denotes and counts every reference; the optimiser ends, and keeps the meaning
    on input without zero bytes, for expressions that share nothing, call nothing and have no negation as
    an alternative; the code generator always succeeds and leaves closed blocks with symmetric edges; the linked code is the encoding of the
    instructions in order, every label resolved.
  \<^item> \<^bold>\<open>Data structures\<close> (\<open>Bitset\<close>, \<open>Jump_Table\<close>, \<open>KArray\<close>, \<open>Buffer\<close>, \<open>Md5_Rfc\<close>,
    \<open>Node_Digest\<close>). Bitsets are sets, compressed tables answer what full tables answer, growable arrays
    are lists, what a writer writes a reader reads, the unrolled hash functions are their loops, and the
    digest of a tree is the RFC's digest of the text of the tree.
  \<^item> \<^bold>\<open>Where the code goes wrong\<close> (\<open>VM1_Chars\<close>, \<open>Symtable\<close>, \<open>Ast_Build\<close>, \<open>Expr_Faults\<close>,
    \<open>Compile\<close>). Concrete inputs with an uninitialised mask, a parsed node that is not there, sets that
    leave the bitset, escapes and classes at their bounds, shared expressions that the optimiser frees
    twice or changes twice, a declaration freed while it is called, and grammars that the second machine
    answers differently from their meaning.

  \<^bold>\<open>Interfaces.\<close> \<open>tx_log\<close> (savepoint and rollback) is interpreted by the tree log as \<open>astlog\<close> and
  by the symbol table as \<open>symlog\<close>; \<open>byte_set\<close> by the bitset as \<open>bs\<close>; \<open>codec\<close> (a write and the
  matching read) by the buffer as \<open>w8\<close>, \<open>w16\<close>, \<open>w32\<close>, \<open>w64\<close>; \<open>dyn_array\<close> by the growable
  arrays as \<open>karr\<close>.

  \<^bold>\<open>Bounds and fuel.\<close> Loops and recursions that may not end take a number of steps and return an error
  when it is used up. \<open>vm_run\<close>: the theorems give a number of steps for which, and for every larger one,
  the run has its result. \<open>Node_sweep\<close>: the number of cells. The construction of nodes: the number of
  entries of the log plus one. The front end and the digest: the depth of the tree. The sweep of
  expressions: the number of cells and declarations plus one. The optimiser: the weight of the expressions
  plus one, both for the depth and for the number of rounds, since every rewriting makes them lighter. The
  main loop: the steps of one turn. Sizes are bounded where the code has no check: growable arrays below
  \<open>2 ^ 29\<close> elements, code below \<open>2 ^ 29\<close> bytes, pieces of a digest below \<open>2 ^ 31\<close> bytes, and the
  stack of the machine, whose need is the argument \<open>k\<close> of \<open>parse\<close>.

  \<^bold>\<open>Not modelled.\<close> \<open>node/gc.c\<close>, the collector of another configuration (the build selects reference
  counting); the just-in-time compiler and direct threading, which the build leaves out; dumps, printing,
  profiling and statistics, which only write text; reading and mapping files, options and timers
  (\<open>input_source.h\<close>, the rest of \<open>cli/main.c\<close>, \<open>cli/cnez_main.c\<close>, \<open>cli/test.c\<close>) and the
  wrappers of \<open>malloc\<close> in \<open>memory.c\<close>. The second machine is executable and evaluated on compiled
  grammars; there is no general theorem that its runs give the meaning of a grammar, since \<open>Compile\<close> shows
  grammars for which they do not. The optimiser's inlining of declarations is modelled, and its faults
  shown; that it keeps the meaning is shown for expressions without calls. It reads
  cells it has freed, so these theorems assume that the memory still holds the zeros of the sweep.
\<close>

end
